(* ===== verification/Prelude.thy ===== *)
theory Prelude
  imports Main "HOL-Library.Word"
begin

unbundle bit_operations_syntax

text \<open>
  Types and generic facts the components share: the machine integers of the firmware as
  words of their width, byte encodings in both byte orders, the copy of a block into a byte
  buffer at an offset (\<open>memcpy\<close>, with the out-of-range write as \<open>None\<close>), and the
  collections of lemmas the component proofs feed to the simplifier.
\<close>

named_theorems codec_simps \<open>length and element facts of the byte encoders\<close>
named_theorems frame_simps \<open>what an operation leaves unchanged\<close>

type_synonym u8 = "8 word"
type_synonym u16 = "16 word"
type_synonym u32 = "32 word"
type_synonym i32 = "32 word"

subsection \<open>Words\<close>

lemma bit_byte_high: "bit (a :: u8) n \<Longrightarrow> n < 8"
  using bit_imp_le_length [of a n] by simp

lemma bit_u16_high: "bit (a :: u16) n \<Longrightarrow> n < 16"
  using bit_imp_le_length [of a n] by simp

lemma bit_u32_high: "bit (a :: u32) n \<Longrightarrow> n < 32"
  using bit_imp_le_length [of a n] by simp

lemma unat_of_nat_small: "n < 2 ^ LENGTH('a) \<Longrightarrow> unat (of_nat n :: 'a::len word) = n"
  by (simp add: unat_of_nat)

lemma ucast_u16: "(ucast (w :: u32) :: u16) = of_nat (unat w mod 65536)"
  by (simp add: word_unat_eq_iff unsigned_ucast_eq unsigned_take_bit_eq take_bit_eq_mod unat_of_nat)

lemmas bit_high = bit_byte_high bit_u16_high bit_u32_high

lemma and_one_iff: "(c :: 'a::len word) AND 1 \<noteq> 0 \<longleftrightarrow> bit c 0"
  by (simp add: and_one_eq odd_iff_mod_2_eq_one bit_0)

subsection \<open>Byte order\<close>

text \<open>The Cortex-M4 is little-endian; network headers are big-endian.\<close>

definition le16 :: "u16 \<Rightarrow> u8 list" where
  "le16 w = [ucast w, ucast (drop_bit 8 w)]"

definition un_le16 :: "u8 \<Rightarrow> u8 \<Rightarrow> u16" where
  "un_le16 b0 b1 = ucast b0 OR push_bit 8 (ucast b1)"

definition be16 :: "u16 \<Rightarrow> u8 list" where
  "be16 w = [ucast (drop_bit 8 w), ucast w]"

definition un_be16 :: "u8 \<Rightarrow> u8 \<Rightarrow> u16" where
  "un_be16 b0 b1 = un_le16 b1 b0"

definition le32 :: "u32 \<Rightarrow> u8 list" where
  "le32 w = [ucast w, ucast (drop_bit 8 w), ucast (drop_bit 16 w), ucast (drop_bit 24 w)]"

definition un_le32 :: "u8 \<Rightarrow> u8 \<Rightarrow> u8 \<Rightarrow> u8 \<Rightarrow> u32" where
  "un_le32 b0 b1 b2 b3 =
     ucast b0 OR push_bit 8 (ucast b1) OR push_bit 16 (ucast b2) OR push_bit 24 (ucast b3)"

lemma length_le16 [simp, codec_simps]: "length (le16 w) = 2"
  by (simp add: le16_def)

lemma length_be16 [simp, codec_simps]: "length (be16 w) = 2"
  by (simp add: be16_def)

lemma length_le32 [simp, codec_simps]: "length (le32 w) = 4"
  by (simp add: le32_def)

lemma un_le16_le16: "un_le16 (ucast w) (ucast (drop_bit 8 w)) = w"
  by (rule bit_word_eqI) (auto simp: un_le16_def bit_simps)

lemma un_be16_be16: "un_be16 (ucast (drop_bit 8 w)) (ucast w) = w"
  by (simp add: un_be16_def un_le16_le16)

lemma un_le32_le32:
  "un_le32 (ucast w) (ucast (drop_bit 8 w)) (ucast (drop_bit 16 w)) (ucast (drop_bit 24 w)) = w"
proof (rule bit_word_eqI)
  fix n :: nat
  assume "n < LENGTH(32)"
  then have "n < 8 \<or> 8 \<le> n \<and> n < 16 \<or> 16 \<le> n \<and> n < 24 \<or> 24 \<le> n \<and> n < 32" by auto
  then show "bit (un_le32 (ucast w) (ucast (drop_bit 8 w)) (ucast (drop_bit 16 w)) (ucast (drop_bit 24 w))) n
      = bit w n"
    by (elim disjE) (auto simp: un_le32_def bit_simps)
qed

lemma le16_un_le16 [simp]: "le16 (un_le16 a b) = [a, b]"
proof -
  have "(ucast (un_le16 a b) :: u8) = a"
    by (rule bit_word_eqI) (auto simp: un_le16_def bit_simps)
  moreover have "(ucast (drop_bit 8 (un_le16 a b)) :: u8) = b"
    by (rule bit_word_eqI) (auto simp: un_le16_def bit_simps dest: bit_byte_high)
  ultimately show ?thesis by (simp add: le16_def)
qed

lemma be16_un_be16 [simp]: "be16 (un_be16 a b) = [a, b]"
  using le16_un_le16 [of b a] by (simp add: be16_def un_be16_def le16_def)

subsection \<open>Buffers\<close>

definition nth_byte :: "u8 list \<Rightarrow> nat \<Rightarrow> u8" where
  "nth_byte bs i = (if i < length bs then bs ! i else 0)"

definition read_le32 :: "u8 list \<Rightarrow> nat \<Rightarrow> u32" where
  "read_le32 bs i = un_le32 (nth_byte bs i) (nth_byte bs (i + 1)) (nth_byte bs (i + 2)) (nth_byte bs (i + 3))"

text \<open>Copying \<open>src\<close> over \<open>dst\<close> from position \<open>off\<close> on; the C code has no bounds check, so a
  block that does not fit is an error of the model.\<close>

definition blit :: "'a list \<Rightarrow> nat \<Rightarrow> 'a list \<Rightarrow> 'a list" where
  "blit dst off src = take off dst @ src @ drop (off + length src) dst"

definition blit_checked :: "'a list \<Rightarrow> nat \<Rightarrow> 'a list \<Rightarrow> 'a list option" where
  "blit_checked dst off src = (if off + length src \<le> length dst then Some (blit dst off src) else None)"

lemma length_blit [simp]: "off + length src \<le> length dst \<Longrightarrow> length (blit dst off src) = length dst"
  by (simp add: blit_def)

lemma nth_blit_in:
  assumes "off + length src \<le> length dst" "off \<le> i" "i < off + length src"
  shows "blit dst off src ! i = src ! (i - off)"
  using assms by (auto simp: blit_def nth_append min_def)

lemma nth_blit_out:
  assumes "off + length src \<le> length dst" "i < off \<or> off + length src \<le> i" "i < length dst"
  shows "blit dst off src ! i = dst ! i"
  using assms by (auto simp: blit_def nth_append min_def)

lemma take_blit: "off + length src \<le> length dst \<Longrightarrow> take (length src) (drop off (blit dst off src)) = src"
  by (simp add: blit_def)

lemma read_le32_blit:
  assumes "off + 4 \<le> length dst"
  shows "read_le32 (blit dst off (le32 w)) off = w"
  using assms
  by (simp add: read_le32_def nth_byte_def nth_blit_in le32_def un_le32_le32)

lemma read_le32_blit_other:
  assumes "off + 4 \<le> length dst" "i + 4 \<le> off \<or> off + 4 \<le> i" "i + 4 \<le> length dst"
  shows "read_le32 (blit dst off (le32 w)) i = read_le32 dst i"
  using assms by (auto simp: read_le32_def nth_byte_def nth_blit_out)

text \<open>A block of bytes at the start of a memory.\<close>

definition bytes_at :: "(nat \<Rightarrow> 'a) \<Rightarrow> 'a list \<Rightarrow> bool" where
  "bytes_at f d \<longleftrightarrow> (\<forall>i < length d. f i = d ! i)"

lemma bytes_at_append: "bytes_at f (d @ e) \<longleftrightarrow> bytes_at f d \<and> bytes_at (\<lambda>i. f (length d + i)) e"
proof
  assume h: "bytes_at f (d @ e)"
  have "f i = d ! i" if "i < length d" for i
    using h that by (auto simp: bytes_at_def nth_append dest!: spec [of _ i])
  moreover have "f (length d + i) = e ! i" if "i < length e" for i
    using h that by (auto simp: bytes_at_def nth_append dest!: spec [of _ "length d + i"])
  ultimately show "bytes_at f d \<and> bytes_at (\<lambda>i. f (length d + i)) e" by (simp add: bytes_at_def)
next
  assume h: "bytes_at f d \<and> bytes_at (\<lambda>i. f (length d + i)) e"
  have "f i = e ! (i - length d)" if "length d \<le> i" "i < length d + length e" for i
    using h that by (auto simp: bytes_at_def dest!: spec [of _ "i - length d"])
  then show "bytes_at f (d @ e)" using h by (auto simp: bytes_at_def nth_append)
qed

text \<open>The error codes of the network stack (\<open>err_t\<close>).\<close>

datatype err =
  ERR_OK | ERR_MEM | ERR_BUF | ERR_TIMEOUT | ERR_RTE | ERR_INPROGRESS | ERR_VAL | ERR_WOULDBLOCK | ERR_USE | ERR_ALREADY | ERR_ISCONN
| ERR_CONN | ERR_IF | ERR_ABRT | ERR_RST | ERR_CLSD | ERR_ARG

end
