(* ===== verification/Crc32.thy ===== *)
theory Crc32
  imports Prelude
begin

unbundle bit_operations_syntax

text \<open>
  The two CRC-32 routines of the firmware and their equivalence. \<open>generate_table\<close> and
  \<open>crc32_update\<close> are the table-driven routine of \<open>Inc/crc32.h\<close> that \<open>checkJson\<close> uses on the
  uploaded configuration; \<open>ethernet_frame_crc\<close> is the bit-serial routine of
  \<open>Src/w5x00_lwip.c\<close>. Both reduce to the same bit step \<open>crc_shift\<close>, which is linear over
  \<open>XOR\<close> and injective.
\<close>

subsection \<open>Inc/crc32.h\<close>

definition crc_polynomial :: u32 where
  "crc_polynomial = 0xEDB88320"

definition crc_shift :: "u32 \<Rightarrow> u32" where
  "crc_shift c = (if c AND 1 \<noteq> 0 then crc_polynomial XOR drop_bit 1 c else drop_bit 1 c)"

definition generate_table :: "u32 list" where
  "generate_table = map (\<lambda>i. (crc_shift ^^ 8) (of_nat i)) [0..<256]"

fun crc_table_loop :: "u32 list \<Rightarrow> u32 \<Rightarrow> u8 list \<Rightarrow> u32" where
  "crc_table_loop table c [] = c"
| "crc_table_loop table c (u # us) =
     crc_table_loop table (table ! unat ((c XOR ucast u) AND 0xFF) XOR drop_bit 8 c) us"

definition crc32_update :: "u32 list \<Rightarrow> u32 \<Rightarrow> u8 list \<Rightarrow> u32" where
  "crc32_update table initial buf = crc_table_loop table (initial XOR 0xFFFFFFFF) buf XOR 0xFFFFFFFF"

subsection \<open>The bit-serial routine of the Ethernet driver\<close>

definition ethernet_polynomial_le :: u32 where
  "ethernet_polynomial_le = 0xedb88320"

fun frame_crc_bits :: "nat \<Rightarrow> u32 \<Rightarrow> u8 \<Rightarrow> u32" where
  "frame_crc_bits 0 crc octet = crc"
| "frame_crc_bits (Suc k) crc octet =
     frame_crc_bits k
       (if (crc XOR ucast octet) AND 1 \<noteq> 0 then drop_bit 1 crc XOR ethernet_polynomial_le
        else drop_bit 1 crc)
       (drop_bit 1 octet)"

fun frame_crc_loop :: "u32 \<Rightarrow> u8 list \<Rightarrow> u32" where
  "frame_crc_loop crc [] = crc"
| "frame_crc_loop crc (x # xs) = frame_crc_loop (frame_crc_bits 8 crc x) xs"

definition ethernet_frame_crc :: "u8 list \<Rightarrow> u32" where
  "ethernet_frame_crc data = NOT (frame_crc_loop 0xffffffff data)"

subsection \<open>The bit step is linear and injective\<close>

lemma crc_shift_alt: "crc_shift c = (if bit c 0 then crc_polynomial else 0) XOR drop_bit 1 c"
  by (simp add: crc_shift_def and_one_iff)

lemma crc_shift_xor: "crc_shift (a XOR b) = crc_shift a XOR crc_shift b"
  by (rule bit_word_eqI) (auto simp: crc_shift_alt bit_simps)

lemma crc_shift_funpow_xor: "(crc_shift ^^ n) (a XOR b) = (crc_shift ^^ n) a XOR (crc_shift ^^ n) b"
  by (induction n) (simp_all add: crc_shift_xor)

lemma crc_shift_zero [simp]: "crc_shift 0 = 0"
  by (simp add: crc_shift_alt)

lemma crc_shift_eq_zero: "crc_shift c = 0 \<Longrightarrow> c = 0"
proof -
  assume z: "crc_shift c = 0"
  have b31: "bit (crc_shift c) 31 = bit c 0"
    by (auto simp: crc_shift_alt crc_polynomial_def bit_simps dest: bit_u32_high)
  with z have c0: "\<not> bit c 0" by simp
  with z have d: "drop_bit 1 c = 0" by (simp add: crc_shift_alt)
  have "\<not> bit c n" for n
  proof (cases n)
    case 0
    with c0 show ?thesis by simp
  next
    case (Suc m)
    have "bit (drop_bit 1 c) m = bit c (Suc m)" by (simp add: bit_simps)
    with d Suc show ?thesis by simp
  qed
  then show "c = 0" by (simp add: bit_eq_iff)
qed

lemma crc_shift_inj: "crc_shift a = crc_shift b \<longleftrightarrow> a = b"
proof
  assume "crc_shift a = crc_shift b"
  then have "crc_shift (a XOR b) = 0" by (simp add: crc_shift_xor)
  then have "a XOR b = 0" by (rule crc_shift_eq_zero)
  then show "a = b" by (simp add: bit_eq_iff bit_simps)
qed simp

lemma crc_shift_funpow_inj: "(crc_shift ^^ n) a = (crc_shift ^^ n) b \<longleftrightarrow> a = b"
  by (induction n) (simp_all add: crc_shift_inj)

text \<open>Shifting a word whose low \<open>n\<close> bits are zero \<open>n\<close> times only moves it down.\<close>

lemma crc_shift_funpow_low_zero:
  "(\<And>i. i < n \<Longrightarrow> \<not> bit c i) \<Longrightarrow> (crc_shift ^^ n) c = drop_bit n c"
proof (induction n arbitrary: c)
  case 0
  then show ?case by simp
next
  case (Suc n)
  have s: "crc_shift c = drop_bit 1 c"
    using Suc.prems [of 0] by (simp add: crc_shift_alt)
  have "(crc_shift ^^ n) (drop_bit 1 c) = drop_bit n (drop_bit 1 c)"
    by (rule Suc.IH) (use Suc.prems in \<open>auto simp: bit_simps\<close>)
  then show ?case by (simp add: funpow_Suc_right s del: funpow.simps)
qed

lemma crc_shift_8: "(crc_shift ^^ 8) c = (crc_shift ^^ 8) (c AND 0xFF) XOR drop_bit 8 c"
proof -
  have split: "c = (c AND 0xFF) XOR (c AND NOT 0xFF)"
    by (rule bit_word_eqI) (auto simp: bit_simps)
  have m: "(0xFF :: u32) = mask 8" by (simp add: mask_eq_exp_minus_1)
  have "(crc_shift ^^ 8) (c AND NOT 0xFF) = drop_bit 8 (c AND NOT 0xFF)"
    by (rule crc_shift_funpow_low_zero) (auto simp: m bit_simps)
  also have "\<dots> = drop_bit 8 c"
    by (rule bit_word_eqI) (auto simp: m bit_simps dest: bit_u32_high)
  finally show ?thesis by (subst split) (simp add: crc_shift_funpow_xor del: funpow.simps)
qed

subsection \<open>The table holds eight shifts of its index\<close>

lemma length_generate_table [simp]: "length generate_table = 256"
  by (simp add: generate_table_def)

lemma generate_table_nth: "i < 256 \<Longrightarrow> generate_table ! i = (crc_shift ^^ 8) (of_nat i)"
  by (simp add: generate_table_def del: funpow.simps)

lemma unat_and_255: "unat ((c :: u32) AND 0xFF) < 256"
proof -
  have m: "(0xFF :: u32) = mask 8" by (simp add: mask_eq_exp_minus_1)
  have "(c AND 0xFF) < 256"
    using and_mask_less' [of 8 c] by (simp add: m)
  then show ?thesis by (simp add: word_less_nat_alt)
qed

lemma table_step: "generate_table ! unat ((c XOR ucast (u :: u8)) AND 0xFF) XOR drop_bit 8 c
    = (crc_shift ^^ 8) (c XOR ucast u)"
proof -
  have "generate_table ! unat ((c XOR ucast u) AND 0xFF) = (crc_shift ^^ 8) ((c XOR ucast u) AND 0xFF)"
    by (subst generate_table_nth [OF unat_and_255]) simp
  moreover have "drop_bit 8 (c XOR ucast u) = drop_bit 8 c"
    by (rule bit_word_eqI) (auto simp: bit_simps dest: bit_byte_high)
  ultimately show ?thesis
    by (subst crc_shift_8) (simp del: funpow.simps)
qed

lemma crc_table_loop_Cons:
  "crc_table_loop generate_table c (u # us) = crc_table_loop generate_table ((crc_shift ^^ 8) (c XOR ucast u)) us"
  by (simp add: table_step del: funpow.simps)

subsection \<open>Streaming, equivalence and injectivity\<close>

lemma crc_table_loop_append:
  "crc_table_loop table c (xs @ ys) = crc_table_loop table (crc_table_loop table c xs) ys"
  by (induction xs arbitrary: c) simp_all

lemma xor_ones_twice [simp]: "(a XOR b) XOR b = (a :: u32)"
  by (simp add: xor.assoc)

lemma crc32_update_append:
  "crc32_update table initial (xs @ ys) = crc32_update table (crc32_update table initial xs) ys"
  by (simp add: crc32_update_def crc_table_loop_append)

lemma crc32_update_Nil [simp]: "crc32_update table initial [] = initial"
  by (simp add: crc32_update_def)

lemma crc32_update_Cons:
  "crc32_update table initial (u # us) = crc32_update table (crc32_update table initial [u]) us"
  using crc32_update_append [of table initial "[u]" us] by simp

lemma crc_table_loop_inj:
  "crc_table_loop generate_table a bs = crc_table_loop generate_table b bs \<Longrightarrow> a = b"
proof (induction bs arbitrary: a b)
  case Nil
  then show ?case by simp
next
  case (Cons u us)
  from Cons.prems have "crc_table_loop generate_table ((crc_shift ^^ 8) (a XOR ucast u)) us
      = crc_table_loop generate_table ((crc_shift ^^ 8) (b XOR ucast u)) us"
    by (simp only: crc_table_loop_Cons)
  then have "(crc_shift ^^ 8) (a XOR ucast u) = (crc_shift ^^ 8) (b XOR ucast u)" by (rule Cons.IH)
  then have "a XOR ucast u = b XOR ucast u" by (simp only: crc_shift_funpow_inj)
  then have "(a XOR ucast u) XOR ucast u = (b XOR ucast u) XOR ucast u" by simp
  then show ?case by (simp add: xor.assoc)
qed

text \<open>Different starting values give different results on the same bytes.\<close>

lemma crc32_update_inj_initial:
  "crc32_update generate_table a bs = crc32_update generate_table b bs \<longleftrightarrow> a = b"
proof
  assume "crc32_update generate_table a bs = crc32_update generate_table b bs"
  then have "crc_table_loop generate_table (a XOR 0xFFFFFFFF) bs
      = crc_table_loop generate_table (b XOR 0xFFFFFFFF) bs"
    by (metis crc32_update_def xor_ones_twice)
  then have "a XOR 0xFFFFFFFF = b XOR 0xFFFFFFFF" by (rule crc_table_loop_inj)
  then show "a = b" by (metis xor_ones_twice)
qed simp

text \<open>The octet's shift register runs beside the CRC's: only their difference matters.\<close>

lemma frame_crc_bits_eq: "frame_crc_bits n crc octet = (crc_shift ^^ n) (crc XOR ucast octet) XOR ucast (drop_bit n octet)"
proof (induction n arbitrary: crc octet)
  case 0
  show ?case by (simp add: xor.assoc)
next
  case (Suc n)
  let ?crc = "if (crc XOR ucast octet) AND 1 \<noteq> 0 then drop_bit 1 crc XOR ethernet_polynomial_le
        else drop_bit 1 crc"
  have "?crc XOR ucast (drop_bit 1 octet) = crc_shift (crc XOR ucast octet)"
    by (rule bit_word_eqI)
      (auto simp: crc_shift_alt and_one_iff ethernet_polynomial_le_def crc_polynomial_def bit_simps dest: bit_byte_high)
  then have "frame_crc_bits (Suc n) crc octet
      = (crc_shift ^^ n) (crc_shift (crc XOR ucast octet)) XOR ucast (drop_bit n (drop_bit 1 octet))"
    by (simp add: Suc.IH)
  then show ?case by (simp add: funpow_Suc_right del: funpow.simps)
qed

lemma frame_crc_bits_octet: "frame_crc_bits 8 crc octet = (crc_shift ^^ 8) (crc XOR ucast octet)"
proof -
  have "drop_bit 8 octet = 0"
    by (rule bit_word_eqI) (auto simp: bit_simps dest: bit_byte_high)
  then show ?thesis by (simp add: frame_crc_bits_eq del: funpow.simps)
qed

lemma frame_crc_loop_eq: "frame_crc_loop crc bs = crc_table_loop generate_table crc bs"
  by (induction bs arbitrary: crc)
    (simp_all only: frame_crc_loop.simps crc_table_loop.simps(1) crc_table_loop_Cons frame_crc_bits_octet)

text \<open>C37: The bit-serial CRC the Ethernet driver runs over a frame and the table-driven CRC of the
  configuration check are the same function.\<close>

theorem frame_crc_is_table_crc: "ethernet_frame_crc bs = crc32_update generate_table 0 bs"
proof -
  have ones: "(0xFFFFFFFF :: u32) = - 1" by simp
  show ?thesis
    unfolding ethernet_frame_crc_def crc32_update_def frame_crc_loop_eq Let_def ones by (simp add: not_eq_complement)
qed

end
