(* ===== verification/CFloat.thy ===== *)
theory CFloat
  imports Prelude Complex_Main
begin

unbundle bit_operations_syntax

text \<open>
  The floating-point arithmetic the firmware uses, at the level of values: a \<open>float\<close> or
  \<open>double\<close> is not-a-number, an infinity, or a rational that the format can hold, and every
  operation computes the exact result and rounds it to the nearest value of the format,
  ties to even (the FPU's default mode). The sign of a zero is not kept: the firmware never
  divides by a variable, and comparisons do not tell \<open>-0\<close> from \<open>0\<close>. A conversion to
  \<open>int\<close> truncates; out of the range of the target it is undefined behaviour in C, here \<open>None\<close>.
\<close>

datatype fval = FNaN | FInf bool | FFin rat

subsection \<open>Rounding\<close>

fun ilog2_nat :: "nat \<Rightarrow> nat" where
  "ilog2_nat n = (if n < 2 then 0 else Suc (ilog2_nat (n div 2)))"

declare ilog2_nat.simps [simp del]

lemma ilog2_nat_bounds: "0 < n \<Longrightarrow> 2 ^ ilog2_nat n \<le> n \<and> n < 2 ^ Suc (ilog2_nat n)"
proof (induction n rule: ilog2_nat.induct)
  case (1 n)
  show ?case
  proof (cases "n < 2")
    case True
    with 1 show ?thesis by (simp add: ilog2_nat.simps [of n])
  next
    case False
    define q :: nat where "q = 2 ^ ilog2_nat (n div 2)"
    from False 1 have "q \<le> n div 2" "n div 2 < 2 * q" by (auto simp: q_def)
    then have "2 * q \<le> n \<and> n < 4 * q" by linarith
    with False show ?thesis by (simp add: ilog2_nat.simps [of n] q_def)
  qed
qed

definition pow2 :: "int \<Rightarrow> rat" where
  "pow2 e = (if 0 \<le> e then 2 ^ nat e else 1 / 2 ^ nat (- e))"

lemma pow2_pos [simp]: "0 < pow2 e"
  by (simp add: pow2_def)

lemma pow2_nonzero [simp]: "pow2 e \<noteq> 0"
  using pow2_pos [of e] by linarith

lemma pow2_nonneg [simp]: "0 \<le> pow2 e"
  using pow2_pos [of e] by linarith

lemma pow2_eq_powi: "pow2 e = 2 powi e"
  by (auto simp: pow2_def power_int_def field_simps)

lemma pow2_add: "pow2 (a + b) = pow2 a * pow2 b"
  by (simp add: pow2_eq_powi power_int_add)

lemma pow2_mono: "a \<le> b \<Longrightarrow> pow2 a \<le> pow2 b"
  by (simp add: pow2_eq_powi power_int_increasing)

text \<open>The exponent of a positive rational: \<open>2 ^ rat_exp x \<le> x < 2 ^ (rat_exp x + 1)\<close>.\<close>

definition rat_exp :: "rat \<Rightarrow> int" where
  "rat_exp x = (case quotient_of x of (n, d) \<Rightarrow>
     let e = int (ilog2_nat (nat n)) - int (ilog2_nat (nat d))
     in if pow2 e \<le> x then e else e - 1)"

definition round_half_even :: "rat \<Rightarrow> int" where
  "round_half_even x = (let f = \<lfloor>x\<rfloor>; r = x - of_int f in
     if r < 1 / 2 then f else if 1 / 2 < r then f + 1 else if even f then f else f + 1)"

text \<open>A format: precision \<open>p\<close>, smallest exponent of a unit in the last place, and the exponent at
  which finite values end.\<close>

record fformat =
  prec :: int
  ulp_min :: int
  e_max :: int

definition binary32 :: fformat where
  "binary32 = \<lparr>prec = 24, ulp_min = - 149, e_max = 128\<rparr>"

definition binary64 :: fformat where
  "binary64 = \<lparr>prec = 53, ulp_min = - 1074, e_max = 1024\<rparr>"

definition ulp_exp :: "fformat \<Rightarrow> rat \<Rightarrow> int" where
  "ulp_exp F x = max (rat_exp \<bar>x\<bar> - (prec F - 1)) (ulp_min F)"

definition round_rat :: "fformat \<Rightarrow> rat \<Rightarrow> rat" where
  "round_rat F x = (if x = 0 then 0 else
     let e = ulp_exp F x in of_int (round_half_even (x / pow2 e)) * pow2 e)"

definition fround :: "fformat \<Rightarrow> rat \<Rightarrow> fval" where
  "fround F x = (let y = round_rat F x in
     if pow2 (e_max F) \<le> \<bar>y\<bar> then FInf (x < 0) else FFin y)"

subsection \<open>Operations\<close>

fun fmul :: "fformat \<Rightarrow> fval \<Rightarrow> fval \<Rightarrow> fval" where
  "fmul F FNaN y = FNaN"
| "fmul F x FNaN = FNaN"
| "fmul F (FInf s) (FInf t) = FInf (s \<noteq> t)"
| "fmul F (FInf s) (FFin y) = (if y = 0 then FNaN else FInf (s \<noteq> (y < 0)))"
| "fmul F (FFin x) (FInf t) = (if x = 0 then FNaN else FInf ((x < 0) \<noteq> t))"
| "fmul F (FFin x) (FFin y) = fround F (x * y)"

text \<open>Division; the firmware's divisors are converted integers, so a zero divisor is \<open>+0\<close>.\<close>

fun fdiv :: "fformat \<Rightarrow> fval \<Rightarrow> fval \<Rightarrow> fval" where
  "fdiv F FNaN y = FNaN"
| "fdiv F x FNaN = FNaN"
| "fdiv F (FInf s) (FInf t) = FNaN"
| "fdiv F (FInf s) (FFin y) = FInf (s \<noteq> (y < 0))"
| "fdiv F (FFin x) (FInf t) = FFin 0"
| "fdiv F (FFin x) (FFin y) =
     (if y = 0 then (if x = 0 then FNaN else FInf (x < 0)) else fround F (x / y))"

definition fof_int :: "fformat \<Rightarrow> int \<Rightarrow> fval" where
  "fof_int F n = fround F (of_int n)"

fun fless :: "fval \<Rightarrow> fval \<Rightarrow> bool" where
  "fless FNaN y = False"
| "fless x FNaN = False"
| "fless (FInf s) (FInf t) = (s \<and> \<not> t)"
| "fless (FInf s) (FFin y) = s"
| "fless (FFin x) (FInf t) = (\<not> t)"
| "fless (FFin x) (FFin y) = (x < y)"

definition feq :: "fval \<Rightarrow> fval \<Rightarrow> bool" where
  "feq x y = (x \<noteq> FNaN \<and> x = y)"

definition fle :: "fval \<Rightarrow> fval \<Rightarrow> bool" where
  "fle x y = (fless x y \<or> feq x y)"

text \<open>C's conversion to \<open>int32_t\<close>: truncation towards zero, undefined out of range.\<close>

definition rat_trunc :: "rat \<Rightarrow> int" where
  "rat_trunc x = (if x < 0 then - \<lfloor>- x\<rfloor> else \<lfloor>x\<rfloor>)"

fun fto_int :: "fval \<Rightarrow> int option" where
  "fto_int FNaN = None"
| "fto_int (FInf s) = None"
| "fto_int (FFin x) = (let n = rat_trunc x in if - (2 ^ 31) \<le> n \<and> n < 2 ^ 31 then Some n else None)"

text \<open>The value of the 32 bits of a \<open>float\<close> in memory.\<close>

definition f32_of_bits :: "u32 \<Rightarrow> fval" where
  "f32_of_bits w =
     (let e = unat (drop_bit 23 w AND 0xFF); m = unat (w AND 0x7FFFFF); s = bit w 31
      in if e = 255 then (if m = 0 then FInf s else FNaN)
         else let v = (if e = 0 then of_nat m * pow2 (- 149) else of_nat (2 ^ 23 + m) * pow2 (int e - 150))
              in FFin (if s then - v else v))"

subsection \<open>The rounding error\<close>

lemma rat_exp_bounds:
  assumes "0 < x"
  shows "pow2 (rat_exp x) \<le> x \<and> x < pow2 (rat_exp x + 1)"
proof -
  obtain n d where q: "quotient_of x = (n, d)" by fastforce
  have x: "x = of_int n / of_int d" using q by (rule quotient_of_div)
  have d: "0 < d" using q by (rule quotient_of_denom_pos)
  have n: "0 < n" using assms x d by (simp add: zero_less_divide_iff)
  define a where "a = ilog2_nat (nat n)"
  define b where "b = ilog2_nat (nat d)"
  have an: "2 ^ a \<le> nat n" "nat n < 2 ^ Suc a" and bd: "2 ^ b \<le> nat d" "nat d < 2 ^ Suc b"
    using ilog2_nat_bounds [of "nat n"] ilog2_nat_bounds [of "nat d"] n d by (auto simp: a_def b_def)
  have "int (2 ^ a) \<le> n" "n < int (2 ^ Suc a)" "int (2 ^ b) \<le> d" "d < int (2 ^ Suc b)"
    using an bd n d by linarith+
  then have "(of_int (int (2 ^ a)) :: rat) \<le> of_int n" "(of_int n :: rat) < of_int (int (2 ^ Suc a))"
    "(of_int (int (2 ^ b)) :: rat) \<le> of_int d" "(of_int d :: rat) < of_int (int (2 ^ Suc b))"
    by (simp_all only: of_int_le_iff of_int_less_iff)
  then have N: "(2::rat) ^ a \<le> of_int n" "(of_int n :: rat) < 2 * 2 ^ a"
    and D: "(2::rat) ^ b \<le> of_int d" "(of_int d :: rat) < 2 * 2 ^ b" by simp_all
  have dpos: "(0::rat) < of_int d" using d by simp
  have p: "pow2 (int a - int b) = 2 ^ a / 2 ^ b"
    by (simp add: pow2_eq_powi power_int_diff)
  have p1: "pow2 (int a - int b - 1) = 2 ^ a / (2 * 2 ^ b)"
  proof -
    have "pow2 (int a - int b) = pow2 (int a - int b - 1) * 2"
      using pow2_add [of "int a - int b - 1" 1] by (simp add: pow2_def [of 1])
    then show ?thesis using p by (simp add: field_simps)
  qed
  have p2: "pow2 (int a - int b + 1) = 2 * (2 ^ a / 2 ^ b)"
    using pow2_add [of "int a - int b" 1] p by (simp add: pow2_def [of 1])
  have up: "x < pow2 (int a - int b + 1)"
    using frac_less [of "of_int n" "2 * 2 ^ a" "2 ^ b" "of_int d"] N D dpos n by (simp add: x p2)
  have lo: "pow2 (int a - int b - 1) \<le> x"
    unfolding x p1 by (rule frac_le) (use N D dpos n in auto)
  show ?thesis
    using up lo by (auto simp: rat_exp_def q a_def [symmetric] b_def [symmetric] Let_def)
qed

lemma round_half_even_error: "\<bar>of_int (round_half_even x) - x\<bar> \<le> 1 / 2"
proof -
  define f where "f = \<lfloor>x\<rfloor>"
  have "of_int f \<le> x" "x < of_int f + 1" using floor_correct [of x] by (simp_all add: f_def)
  then show ?thesis by (auto simp: round_half_even_def Let_def f_def [symmetric])
qed

lemma round_half_even_of_int [simp]: "round_half_even (of_int n) = n"
  by (simp add: round_half_even_def)

lemma round_half_even_mono: "x \<le> y \<Longrightarrow> round_half_even x \<le> round_half_even y"
proof -
  assume xy: "x \<le> y"
  define f g where "f = \<lfloor>x\<rfloor>" and "g = \<lfloor>y\<rfloor>"
  have fg: "f \<le> g" using xy by (simp add: f_def g_def floor_mono)
  have fx: "of_int f \<le> x" "x < of_int f + 1" and gy: "of_int g \<le> y" "y < of_int g + 1"
    using floor_correct [of x] floor_correct [of y] by (simp_all add: f_def g_def)
  show ?thesis
  proof (cases "f = g")
    case True
    with xy show ?thesis
      by (auto simp: round_half_even_def Let_def f_def [symmetric] g_def [symmetric])
  next
    case False
    with fg have "f + 1 \<le> g" by simp
    then show ?thesis
      by (auto simp: round_half_even_def Let_def f_def [symmetric] g_def [symmetric])
  qed
qed

text \<open>Values the format can hold are not changed by rounding.\<close>

lemma round_rat_dyadic:
  assumes "ulp_min F \<le> k" and x: "x = of_int m * pow2 k" and "ulp_exp F x \<le> k"
  shows "round_rat F x = x"
proof (cases "x = 0")
  case True
  then show ?thesis by (simp add: round_rat_def)
next
  case False
  let ?e = "ulp_exp F x"
  have "pow2 k = pow2 ?e * pow2 (k - ?e)" using pow2_add [of ?e "k - ?e"] by simp
  then have "x = of_int m * (pow2 ?e * pow2 (k - ?e))" using x by simp
  then have "x / pow2 ?e = of_int m * (pow2 ?e * pow2 (k - ?e)) / pow2 ?e" by (rule arg_cong)
  also have "\<dots> = of_int m * pow2 (k - ?e)" by simp
  also have "\<dots> = of_int (m * 2 ^ nat (k - ?e))"
    using assms(3) by (simp add: pow2_def [of "k - ?e"])
  finally have "round_half_even (x / pow2 ?e) = m * 2 ^ nat (k - ?e)"
    by (metis round_half_even_of_int)
  then have "round_rat F x = of_int (m * 2 ^ nat (k - ?e)) * pow2 ?e"
    using False by (simp add: round_rat_def Let_def)
  also have "\<dots> = of_int m * (pow2 (k - ?e) * pow2 ?e)"
    using assms(3) by (simp add: pow2_def [of "k - ?e"])
  also have "\<dots> = x" using x by (simp add: pow2_add [symmetric])
  finally show ?thesis .
qed

lemma pow2_less_cancel: "pow2 a < pow2 b \<Longrightarrow> a < b"
  by (meson linorder_not_le pow2_mono)

lemma rat_exp_less:
  assumes "0 < x" "x < pow2 e"
  shows "rat_exp x < e"
  using assms rat_exp_bounds [of x] by (meson le_less_trans pow2_less_cancel)

lemma round_rat_of_int:
  assumes "ulp_min F \<le> 0" "0 < prec F" "\<bar>of_int n\<bar> < pow2 (prec F)"
  shows "round_rat F (of_int n) = of_int n"
proof (cases "n = 0")
  case True
  then show ?thesis by (simp add: round_rat_def)
next
  case False
  have "rat_exp \<bar>of_int n\<bar> < prec F" using assms False by (intro rat_exp_less) auto
  then show ?thesis using assms by (intro round_rat_dyadic [of _ 0 _ n]) (auto simp: ulp_exp_def pow2_def)
qed

text \<open>Integers up to the precision are represented exactly.\<close>

lemma fround_of_int:
  assumes "ulp_min F \<le> 0" "0 < prec F" "prec F \<le> e_max F" "\<bar>of_int n\<bar> < pow2 (prec F)"
  shows "fround F (of_int n) = FFin (of_int n)"
  using round_rat_of_int [OF assms(1,2,4)] assms(4) pow2_mono [OF assms(3)] by (simp add: fround_def)

lemma fof_int_binary32 [simp]: "\<bar>n\<bar> < 16777216 \<Longrightarrow> fof_int binary32 n = FFin (of_int n)"
proof -
  assume "\<bar>n\<bar> < 16777216"
  then have "(of_int \<bar>n\<bar> :: rat) < of_int 16777216" by (simp only: of_int_less_iff)
  then show ?thesis unfolding fof_int_def by (intro fround_of_int) (simp_all add: binary32_def pow2_def)
qed

lemma fround_numeral [simp]:
  "(numeral w :: rat) < 16777216 \<Longrightarrow> fround binary32 (numeral w) = FFin (numeral w)"
  "(numeral w :: rat) < 9007199254740992 \<Longrightarrow> fround binary64 (numeral w) = FFin (numeral w)"
  using fround_of_int [of binary32 "numeral w"] fround_of_int [of binary64 "numeral w"]
  by (simp_all add: binary32_def binary64_def pow2_def)

text \<open>The relative error of a result that is not subnormal is at most half a unit in the last place.\<close>

lemma round_rat_error:
  assumes "x \<noteq> 0" "ulp_min F \<le> rat_exp \<bar>x\<bar> - (prec F - 1)"
  shows "\<bar>round_rat F x - x\<bar> \<le> \<bar>x\<bar> * pow2 (- prec F)"
proof -
  let ?e = "ulp_exp F x"
  have e: "?e = rat_exp \<bar>x\<bar> - (prec F - 1)" using assms(2) by (simp add: ulp_exp_def)
  have "\<bar>of_int (round_half_even (x / pow2 ?e)) - x / pow2 ?e\<bar> \<le> 1 / 2"
    by (rule round_half_even_error)
  then have "\<bar>of_int (round_half_even (x / pow2 ?e)) - x / pow2 ?e\<bar> * pow2 ?e \<le> 1 / 2 * pow2 ?e"
    by (rule mult_right_mono) simp
  moreover have "\<bar>of_int (round_half_even (x / pow2 ?e)) - x / pow2 ?e\<bar> * pow2 ?e
      = \<bar>(of_int (round_half_even (x / pow2 ?e)) - x / pow2 ?e) * pow2 ?e\<bar>"
    by (simp add: abs_mult)
  moreover have "(of_int (round_half_even (x / pow2 ?e)) - x / pow2 ?e) * pow2 ?e = round_rat F x - x"
    using assms(1) by (simp add: round_rat_def Let_def left_diff_distrib)
  ultimately have A: "\<bar>round_rat F x - x\<bar> \<le> 1 / 2 * pow2 ?e" by simp
  have "1 / 2 * pow2 ?e = pow2 (rat_exp \<bar>x\<bar> + (- prec F))"
    using pow2_add [of ?e "-1"] by (simp add: e pow2_def [of "-1"] algebra_simps)
  also have "\<dots> = pow2 (rat_exp \<bar>x\<bar>) * pow2 (- prec F)" by (rule pow2_add)
  also have "\<dots> \<le> \<bar>x\<bar> * pow2 (- prec F)"
    using rat_exp_bounds [of "\<bar>x\<bar>"] assms(1) by (intro mult_right_mono) auto
  finally show ?thesis using A by simp
qed

end
