(* ===== verification/Comms.thy ===== *)
theory Comms
  imports Prelude
begin

text \<open>
  The communication monitor \<open>RemoraComms\<close> (\<open>Src/modules/comms/RemoraComms.cpp\<close>): a module of the
  servo thread that turns "a packet came in since the last servo period" into the link status
  the main state machine follows. The constructor initialises no field, so nothing is assumed
  about the fields of a fresh object.
\<close>

definition DATA_ERR_MAX :: u8 where
  "DATA_ERR_MAX = 40"

record remora_comms =
  data :: bool
  status :: bool
  noDataCount :: u8

definition RemoraComms_update :: "remora_comms \<Rightarrow> remora_comms" where
  "RemoraComms_update c =
     (let c1 = (if data c then c\<lparr>noDataCount := 0, status := True\<rparr>
                else c\<lparr>noDataCount := noDataCount c + 1\<rparr>);
          c2 = (if noDataCount c1 > DATA_ERR_MAX then c1\<lparr>noDataCount := 0, status := False\<rparr> else c1)
      in c2\<lparr>data := False\<rparr>)"

definition dataReceived :: "remora_comms \<Rightarrow> remora_comms" where
  "dataReceived c = c\<lparr>data := True\<rparr>"

definition getStatus :: "remora_comms \<Rightarrow> bool" where
  "getStatus c = status c"

subsection \<open>What one period does\<close>

lemma RemoraComms_update_received:
  "RemoraComms_update (dataReceived c) = c\<lparr>data := False, status := True, noDataCount := 0\<rparr>"
  by (simp add: RemoraComms_update_def dataReceived_def Let_def DATA_ERR_MAX_def)

lemma RemoraComms_update_silent:
  "\<not> data c \<Longrightarrow> RemoraComms_update c =
     (if noDataCount c + 1 > 40 then c\<lparr>status := False, noDataCount := 0\<rparr>
      else c\<lparr>noDataCount := noDataCount c + 1\<rparr>)"
  by (simp add: RemoraComms_update_def Let_def DATA_ERR_MAX_def)

lemma RemoraComms_update_data [simp]: "data (RemoraComms_update c) = False"
  by (simp add: RemoraComms_update_def Let_def)

text \<open>Whatever the counter held, one period brings it into its range.\<close>

lemma RemoraComms_update_count: "noDataCount (RemoraComms_update c) \<le> 40"
  by (auto simp: RemoraComms_update_def Let_def DATA_ERR_MAX_def not_less)

lemma comms_silent_run:
  assumes "\<not> data c" "status c" "noDataCount c = 0" "k \<le> 40"
  shows "(RemoraComms_update ^^ k) c = c\<lparr>noDataCount := of_nat k\<rparr>"
  using assms(4)
proof (induction k)
  case 0
  then show ?case using assms(3) by simp
next
  case (Suc k)
  then have IH: "(RemoraComms_update ^^ k) c = c\<lparr>noDataCount := of_nat k\<rparr>" by simp
  have "unat (of_nat k + 1 :: u8) = Suc k"
    using Suc.prems by (simp add: unat_word_ariths unat_of_nat)
  then have "\<not> (of_nat k + 1 :: u8) > 40"
    using Suc.prems by (simp add: word_less_nat_alt)
  then show ?case using assms(1) by (simp add: IH RemoraComms_update_silent add.commute)
qed

lemma comms_lost_run:
  assumes "\<not> data c" "\<not> status c" "noDataCount c \<le> 40"
  shows "\<not> status ((RemoraComms_update ^^ k) c) \<and> \<not> data ((RemoraComms_update ^^ k) c)
    \<and> noDataCount ((RemoraComms_update ^^ k) c) \<le> 40"
proof (induction k)
  case 0
  then show ?case using assms by simp
next
  case (Suc k)
  then show ?case using RemoraComms_update_count by (auto simp: RemoraComms_update_silent)
qed

text \<open>After a period in which a packet arrived, and with no further packet, the link status
  stays up for exactly the next 40 servo periods and is down from the 41st on.\<close>

theorem comms_timeout:
  "getStatus ((RemoraComms_update ^^ k) (RemoraComms_update (dataReceived c))) \<longleftrightarrow> k \<le> 40"
proof -
  define d where "d = RemoraComms_update (dataReceived c)"
  have d: "\<not> data d" "status d" "noDataCount d = 0"
    by (simp_all add: d_def RemoraComms_update_received)
  have late: "\<not> status ((RemoraComms_update ^^ (j + 41)) d)" for j
  proof -
    have "(RemoraComms_update ^^ 41) d = RemoraComms_update ((RemoraComms_update ^^ 40) d)"
      by (simp add: numeral_eq_Suc)
    also have "\<dots> = RemoraComms_update (d\<lparr>noDataCount := 40\<rparr>)"
      using comms_silent_run [OF d, of 40] by simp
    also have "\<dots> = d\<lparr>status := False, noDataCount := 0\<rparr>"
      using d by (simp add: RemoraComms_update_silent)
    finally have "(RemoraComms_update ^^ 41) d = d\<lparr>status := False, noDataCount := 0\<rparr>" .
    then show ?thesis
      using comms_lost_run [of "(RemoraComms_update ^^ 41) d" j] d by (simp add: funpow_add)
  qed
  show ?thesis
  proof (cases "k \<le> 40")
    case True
    then show ?thesis using comms_silent_run [OF d True] d by (simp add: getStatus_def d_def)
  next
    case False
    then have "k = (k - 41) + 41" by simp
    then show ?thesis using late [of "k - 41"] False by (simp add: getStatus_def d_def)
  qed
qed

end
