(* ===== verification/Buffers.thy ===== *)
theory Buffers
  imports Comms
begin

text \<open>
  The packets exchanged with LinuxCNC and the two ping-pong buffers they live in
  (\<open>Inc/remora.h\<close>, and the accessors of \<open>Src/remora.cpp\<close>). A packet is a union of 64 raw bytes
  and a packed struct; it is modelled by its bytes, with one accessor per field at the field's
  packed offset (little-endian). A pointer to one of the two buffers is the buffer's index, so
  that a pointer taken before a swap still means the same buffer after it.
\<close>

definition BUFFER_SIZE :: nat where "BUFFER_SIZE = 64"
definition JOINTS :: nat where "JOINTS = 6"
definition VARIABLES :: nat where "VARIABLES = 4"

definition PRU_DATA :: u32 where "PRU_DATA = 0x64617461"
definition PRU_READ :: u32 where "PRU_READ = 0x72656164"
definition PRU_WRITE :: u32 where "PRU_WRITE = 0x77726974"
definition PRU_ACKNOWLEDGE :: u32 where "PRU_ACKNOWLEDGE = 0x61636b6e"

lemmas pru_defs = PRU_DATA_def PRU_READ_def PRU_WRITE_def PRU_ACKNOWLEDGE_def

subsection \<open>The packet unions\<close>

type_synonym packet = "u8 list"

definition rx_header :: "packet \<Rightarrow> u32" where
  "rx_header p = read_le32 p 0"

definition rx_jointFreqCmd :: "packet \<Rightarrow> nat \<Rightarrow> i32" where
  "rx_jointFreqCmd p j = read_le32 p (4 + 4 * j)"

definition rx_setPoint :: "packet \<Rightarrow> nat \<Rightarrow> u32" where
  "rx_setPoint p i = read_le32 p (28 + 4 * i)"

definition rx_jointEnable :: "packet \<Rightarrow> u8" where
  "rx_jointEnable p = nth_byte p 44"

definition rx_outputs :: "packet \<Rightarrow> u32" where
  "rx_outputs p = read_le32 p 45"

definition tx_header :: "packet \<Rightarrow> u32" where
  "tx_header p = read_le32 p 0"

definition tx_jointFeedback :: "packet \<Rightarrow> nat \<Rightarrow> i32" where
  "tx_jointFeedback p j = read_le32 p (4 + 4 * j)"

definition tx_inputs :: "packet \<Rightarrow> u32" where
  "tx_inputs p = read_le32 p 44"

definition tx_set_header :: "packet \<Rightarrow> u32 \<Rightarrow> packet" where
  "tx_set_header p w = blit p 0 (le32 w)"

definition tx_set_jointFeedback :: "packet \<Rightarrow> nat \<Rightarrow> i32 \<Rightarrow> packet" where
  "tx_set_jointFeedback p j w = blit p (4 + 4 * j) (le32 w)"

definition tx_set_inputs :: "packet \<Rightarrow> u32 \<Rightarrow> packet" where
  "tx_set_inputs p w = blit p 44 (le32 w)"

lemmas packet_defs = rx_header_def rx_jointFreqCmd_def rx_setPoint_def rx_jointEnable_def rx_outputs_def
  tx_header_def tx_jointFeedback_def tx_inputs_def tx_set_header_def tx_set_jointFeedback_def tx_set_inputs_def

lemma tx_set_length [simp]:
  "length p = 64 \<Longrightarrow> length (tx_set_header p w) = 64"
  "length p = 64 \<Longrightarrow> j < JOINTS \<Longrightarrow> length (tx_set_jointFeedback p j w) = 64"
  "length p = 64 \<Longrightarrow> length (tx_set_inputs p w) = 64"
  by (simp_all add: packet_defs JOINTS_def)

text \<open>The fields do not overlap: what one setter writes, the other accessors do not see.\<close>

lemma tx_set_get:
  assumes "length p = 64"
  shows "tx_header (tx_set_header p w) = w"
    and "j < JOINTS \<Longrightarrow> tx_jointFeedback (tx_set_header p w) j = tx_jointFeedback p j"
    and "tx_inputs (tx_set_header p w) = tx_inputs p"
    and "j < JOINTS \<Longrightarrow> tx_jointFeedback (tx_set_jointFeedback p j w) j = w"
    and "j < JOINTS \<Longrightarrow> i < JOINTS \<Longrightarrow> i \<noteq> j \<Longrightarrow> tx_jointFeedback (tx_set_jointFeedback p j w) i = tx_jointFeedback p i"
    and "j < JOINTS \<Longrightarrow> tx_header (tx_set_jointFeedback p j w) = tx_header p"
    and "j < JOINTS \<Longrightarrow> tx_inputs (tx_set_jointFeedback p j w) = tx_inputs p"
    and "tx_inputs (tx_set_inputs p w) = w"
    and "j < JOINTS \<Longrightarrow> tx_jointFeedback (tx_set_inputs p w) j = tx_jointFeedback p j"
    and "tx_header (tx_set_inputs p w) = tx_header p"
proof -
  assume "j < JOINTS" "i < JOINTS" "i \<noteq> j"
  then have "(4 + 4 * i) + 4 \<le> 4 + 4 * j \<or> (4 + 4 * j) + 4 \<le> 4 + 4 * i" by auto
  with assms \<open>j < JOINTS\<close> \<open>i < JOINTS\<close>
  show "tx_jointFeedback (tx_set_jointFeedback p j w) i = tx_jointFeedback p i"
    by (simp add: packet_defs JOINTS_def read_le32_blit_other)
qed (use assms in \<open>auto simp: packet_defs JOINTS_def read_le32_blit read_le32_blit_other\<close>)

subsection \<open>The ping-pong buffers\<close>

text \<open>\<open>RxPingPongBuffer\<close> and \<open>TxPingPongBuffer\<close> have the same shape: two buffers and the index of
  the current one.\<close>

record pingpong =
  buffers :: "packet list"
  currentBuffer :: int

type_synonym RxPingPongBuffer = pingpong
type_synonym TxPingPongBuffer = pingpong

definition deref :: "pingpong \<Rightarrow> int \<Rightarrow> packet" where
  "deref b i = buffers b ! nat i"

definition store :: "pingpong \<Rightarrow> int \<Rightarrow> packet \<Rightarrow> pingpong" where
  "store b i p = b\<lparr>buffers := (buffers b)[nat i := p]\<rparr>"

definition initRxPingPongBuffer :: "RxPingPongBuffer \<Rightarrow> RxPingPongBuffer" where
  "initRxPingPongBuffer b = b\<lparr>currentBuffer := 0\<rparr>"

definition initTxPingPongBuffer :: "TxPingPongBuffer \<Rightarrow> TxPingPongBuffer" where
  "initTxPingPongBuffer b = b\<lparr>currentBuffer := 0\<rparr>"

definition swapRxBuffers :: "RxPingPongBuffer \<Rightarrow> RxPingPongBuffer" where
  "swapRxBuffers b = b\<lparr>currentBuffer := 1 - currentBuffer b\<rparr>"

definition swapTxBuffers :: "TxPingPongBuffer \<Rightarrow> TxPingPongBuffer" where
  "swapTxBuffers b = b\<lparr>currentBuffer := 1 - currentBuffer b\<rparr>"

definition getCurrentRxBuffer :: "RxPingPongBuffer \<Rightarrow> int" where
  "getCurrentRxBuffer b = currentBuffer b"

definition getCurrentTxBuffer :: "TxPingPongBuffer \<Rightarrow> int" where
  "getCurrentTxBuffer b = currentBuffer b"

definition getAltRxBuffer :: "RxPingPongBuffer \<Rightarrow> int" where
  "getAltRxBuffer b = 1 - currentBuffer b"

definition getAltTxBuffer :: "TxPingPongBuffer \<Rightarrow> int" where
  "getAltTxBuffer b = 1 - currentBuffer b"

definition wf_pingpong :: "pingpong \<Rightarrow> bool" where
  "wf_pingpong b \<longleftrightarrow> length (buffers b) = 2 \<and> list_all (\<lambda>p. length p = BUFFER_SIZE) (buffers b)
     \<and> (currentBuffer b = 0 \<or> currentBuffer b = 1)"

text \<open>The two buffers after power-up: static storage, all zero.\<close>

definition zero_pingpong :: pingpong where
  "zero_pingpong = \<lparr>buffers = [replicate 64 0, replicate 64 0], currentBuffer = 0\<rparr>"

lemmas pp_defs = deref_def store_def initRxPingPongBuffer_def initTxPingPongBuffer_def swapRxBuffers_def
  swapTxBuffers_def getCurrentRxBuffer_def getCurrentTxBuffer_def getAltRxBuffer_def getAltTxBuffer_def

lemma wf_zero_pingpong: "wf_pingpong zero_pingpong"
  by (simp add: wf_pingpong_def zero_pingpong_def BUFFER_SIZE_def)

lemma wf_pingpong_cases:
  assumes "wf_pingpong b"
  obtains p0 p1 where "buffers b = [p0, p1]" "length p0 = 64" "length p1 = 64" "currentBuffer b \<in> {0, 1}"
  using assms by (cases "buffers b" rule: list.exhaust; cases "tl (buffers b)" rule: list.exhaust)
    (auto simp: wf_pingpong_def BUFFER_SIZE_def)

text \<open>The contract of a double buffer, for both instances: the pointer operations as parameters.\<close>

locale double_buffer =
  fixes cur :: "'b \<Rightarrow> 'i" and alt :: "'b \<Rightarrow> 'i" and swap :: "'b \<Rightarrow> 'b"
    and get :: "'b \<Rightarrow> 'i \<Rightarrow> 'p" and put :: "'b \<Rightarrow> 'i \<Rightarrow> 'p \<Rightarrow> 'b"
    and inv :: "'b \<Rightarrow> bool" and ok :: "'p \<Rightarrow> bool"
  assumes alt_cur: "inv b \<Longrightarrow> alt b \<noteq> cur b"
    and swap_cur: "inv b \<Longrightarrow> cur (swap b) = alt b"
    and swap_alt: "inv b \<Longrightarrow> alt (swap b) = cur b"
    and get_swap: "get (swap b) i = get b i"
    and get_put: "inv b \<Longrightarrow> i = cur b \<or> i = alt b \<Longrightarrow> get (put b i p) i = p"
    and get_put_other: "inv b \<Longrightarrow> i = cur b \<or> i = alt b \<Longrightarrow> j = cur b \<or> j = alt b \<Longrightarrow> i \<noteq> j \<Longrightarrow> get (put b i p) j = get b j"
    and cur_put: "cur (put b i p) = cur b"
    and alt_put: "alt (put b i p) = alt b"
    and inv_swap: "inv b \<Longrightarrow> inv (swap b)"
    and inv_put: "inv b \<Longrightarrow> ok p \<Longrightarrow> i = cur b \<or> i = alt b \<Longrightarrow> inv (put b i p)"
    and inv_get: "inv b \<Longrightarrow> i = cur b \<or> i = alt b \<Longrightarrow> ok (get b i)"
begin

text \<open>Filling the alternate buffer is not visible in the current one; swapping publishes it.\<close>

lemma fill_hidden: "inv b \<Longrightarrow> get (put b (alt b) p) (cur (put b (alt b) p)) = get b (cur b)"
  using alt_cur by (simp add: cur_put get_put_other)

lemma fill_published: "inv b \<Longrightarrow> ok p \<Longrightarrow> get (swap (put b (alt b) p)) (cur (swap (put b (alt b) p))) = p"
  by (simp add: swap_cur inv_put get_swap alt_put get_put)

text \<open>A write through the new current buffer leaves the retired one alone.\<close>

lemma retired_stable:
  "inv b \<Longrightarrow> get (put (swap b) (cur (swap b)) p) (cur b) = get b (cur b)"
  using alt_cur [of b]
  by (simp add: swap_cur swap_alt inv_swap get_put_other get_swap)

lemma swap_twice: "inv b \<Longrightarrow> cur (swap (swap b)) = cur b"
  by (simp add: swap_cur swap_alt inv_swap)

end

lemma pingpong_double_buffer:
  "double_buffer currentBuffer (\<lambda>b. 1 - currentBuffer b) (\<lambda>b. b\<lparr>currentBuffer := 1 - currentBuffer b\<rparr>)
     deref store wf_pingpong (\<lambda>p. length p = 64)"
proof unfold_locales
  fix b i p j
  show "wf_pingpong b \<Longrightarrow> i = currentBuffer b \<or> i = 1 - currentBuffer b \<Longrightarrow> deref (store b i p) i = p"
    by (auto simp: wf_pingpong_def pp_defs)
  show "wf_pingpong b \<Longrightarrow> i = currentBuffer b \<or> i = 1 - currentBuffer b \<Longrightarrow> j = currentBuffer b \<or> j = 1 - currentBuffer b
      \<Longrightarrow> i \<noteq> j \<Longrightarrow> deref (store b i p) j = deref b j"
    by (auto simp: wf_pingpong_def pp_defs)
  show "wf_pingpong b \<Longrightarrow> length p = 64 \<Longrightarrow> i = currentBuffer b \<or> i = 1 - currentBuffer b \<Longrightarrow> wf_pingpong (store b i p)"
    by (erule wf_pingpong_cases) (auto simp: wf_pingpong_def pp_defs BUFFER_SIZE_def)
  show "wf_pingpong b \<Longrightarrow> i = currentBuffer b \<or> i = 1 - currentBuffer b \<Longrightarrow> length (deref b i) = 64"
    by (erule wf_pingpong_cases) (auto simp: pp_defs)
qed (auto simp: wf_pingpong_def pp_defs)

interpretation rx: double_buffer getCurrentRxBuffer getAltRxBuffer swapRxBuffers deref store wf_pingpong "\<lambda>p. length p = 64"
  using pingpong_double_buffer
  by (simp add: getCurrentRxBuffer_def [abs_def] getAltRxBuffer_def [abs_def] swapRxBuffers_def [abs_def])

interpretation tx: double_buffer getCurrentTxBuffer getAltTxBuffer swapTxBuffers deref store wf_pingpong "\<lambda>p. length p = 64"
  using pingpong_double_buffer
  by (simp add: getCurrentTxBuffer_def [abs_def] getAltTxBuffer_def [abs_def] swapTxBuffers_def [abs_def])

lemma buffers_swap [simp, frame_simps]:
  "buffers (swapRxBuffers b) = buffers b" "buffers (swapTxBuffers b) = buffers b"
  by (simp_all add: pp_defs)

end
