(* ===== verification/HostLink.thy ===== *)
theory HostLink
  imports Buffers
begin

text \<open>
  The UDP data port: \<open>udp_data_callback\<close> of \<open>Src/remora.cpp\<close>, first as the function it computes when
  nothing interrupts it, then as the micro-steps the base-thread interrupt can fall between. The
  interrupt reads the current command buffer and writes the current feedback buffer
  (\<open>isr_writes\<close>); the theorems say that it never sees a half-copied command and that the reply is
  the feedback buffer as it was when the callback decided on the request.
\<close>

record link =
  rxPP :: RxPingPongBuffer
  txPP :: TxPingPongBuffer
  comms :: remora_comms

definition wf_link :: "link \<Rightarrow> bool" where
  "wf_link s \<longleftrightarrow> wf_pingpong (rxPP s) \<and> wf_pingpong (txPP s)"

text \<open>The result is \<open>None\<close> when \<open>memcpy\<close> runs past the 64 bytes of the packet union. The reply is
  sent if the allocation of its \<open>pbuf\<close> succeeds (with a null \<open>pbuf\<close> \<open>udp_send\<close> refuses).\<close>

definition udp_data_callback ::
  "bool \<Rightarrow> 'addr \<Rightarrow> u16 \<Rightarrow> u8 list \<Rightarrow> link \<Rightarrow> (link \<times> ('addr \<times> u16 \<times> u8 list) option) option" where
  "udp_data_callback alloc_ok addr port payload s =
     (let rxBuffer = getAltRxBuffer (rxPP s);
          txBuffer = getCurrentTxBuffer (txPP s)
      in case blit_checked (deref (rxPP s) rxBuffer) 0 payload of
           None \<Rightarrow> None
         | Some p \<Rightarrow>
             let s1 = s\<lparr>rxPP := store (rxPP s) rxBuffer p\<rparr>;
                 header = rx_header (deref (rxPP s1) rxBuffer);
                 (s2, txlen) =
                   (if header = PRU_READ \<or> header = PRU_WRITE then
                      if header = PRU_READ then
                        let sa = s1\<lparr>txPP := swapTxBuffers (txPP s1)\<rparr>
                        in (sa\<lparr>txPP := store (txPP sa) txBuffer (tx_set_header (deref (txPP sa) txBuffer) PRU_DATA),
                               comms := dataReceived (comms sa)\<rparr>, BUFFER_SIZE)
                      else if header = PRU_WRITE then
                        let sa = s1\<lparr>txPP := swapTxBuffers (txPP s1), rxPP := swapRxBuffers (rxPP s1)\<rparr>
                        in (sa\<lparr>txPP := store (txPP sa) txBuffer (tx_set_header (deref (txPP sa) txBuffer) PRU_ACKNOWLEDGE),
                               comms := dataReceived (comms sa)\<rparr>, BUFFER_SIZE)
                      else (s1, 0)
                    else (s1, 0))
             in Some (s2, if alloc_ok then Some (addr, port, take txlen (deref (txPP s2) txBuffer)) else None))"

subsection \<open>Functional behaviour on every branch\<close>

definition cur_cmd :: "link \<Rightarrow> packet" where
  "cur_cmd s = deref (rxPP s) (getCurrentRxBuffer (rxPP s))"

definition cur_fb :: "link \<Rightarrow> packet" where
  "cur_fb s = deref (txPP s) (getCurrentTxBuffer (txPP s))"

lemma wf_link_get [simp]:
  "wf_link s \<Longrightarrow> length (deref (rxPP s) (getAltRxBuffer (rxPP s))) = 64"
  "wf_link s \<Longrightarrow> length (deref (rxPP s) (getCurrentRxBuffer (rxPP s))) = 64"
  "wf_link s \<Longrightarrow> length (deref (txPP s) (getCurrentTxBuffer (txPP s))) = 64"
  by (auto simp: wf_link_def rx.inv_get tx.inv_get)

definition packet_of :: "link \<Rightarrow> u8 list \<Rightarrow> packet" where
  "packet_of s payload = blit (deref (rxPP s) (getAltRxBuffer (rxPP s))) 0 payload"

lemma packet_of_full: "length payload = 64 \<Longrightarrow> wf_link s \<Longrightarrow> packet_of s payload = payload"
  by (simp add: packet_of_def blit_def)

lemma length_packet_of [simp]: "wf_link s \<Longrightarrow> length payload \<le> 64 \<Longrightarrow> length (packet_of s payload) = 64"
  by (simp add: packet_of_def)

lemma deref_store_alt [simp]:
  "wf_link s \<Longrightarrow> deref (store (rxPP s) (getAltRxBuffer (rxPP s)) p) (getAltRxBuffer (rxPP s)) = p"
  by (simp add: wf_link_def rx.get_put)

lemma udp_data_callback_oversize:
  "wf_link s \<Longrightarrow> udp_data_callback ok addr port payload s = None \<longleftrightarrow> 64 < length payload"
  by (auto simp: udp_data_callback_def blit_checked_def Let_def split: if_splits)

definition fill :: "link \<Rightarrow> u8 list \<Rightarrow> link" where
  "fill s payload = s\<lparr>rxPP := store (rxPP s) (getAltRxBuffer (rxPP s)) (packet_of s payload)\<rparr>"

definition reply_of :: "u32 \<Rightarrow> link \<Rightarrow> packet" where
  "reply_of h s = tx_set_header (cur_fb s) h"

text \<open>The state after a request whose header is known.\<close>

definition retire_tx :: "u32 \<Rightarrow> link \<Rightarrow> link" where
  "retire_tx h s = s\<lparr>txPP := store (swapTxBuffers (txPP s)) (getCurrentTxBuffer (txPP s)) (reply_of h s),
     comms := dataReceived (comms s)\<rparr>"

lemma udp_data_callback_cases:
  assumes "wf_link s" "length payload \<le> 64"
  defines "h \<equiv> rx_header (packet_of s payload)"
  shows "udp_data_callback ok addr port payload s = Some
    (if h = PRU_READ then (retire_tx PRU_DATA (fill s payload),
       if ok then Some (addr, port, reply_of PRU_DATA s) else None)
     else if h = PRU_WRITE then
       ((retire_tx PRU_ACKNOWLEDGE (fill s payload))\<lparr>rxPP := swapRxBuffers (rxPP (fill s payload))\<rparr>,
        if ok then Some (addr, port, reply_of PRU_ACKNOWLEDGE s) else None)
     else (fill s payload, if ok then Some (addr, port, []) else None))"
proof -
  have len: "length (tx_set_header (deref (txPP s) (getCurrentTxBuffer (txPP s))) x) = 64" for x
    using assms(1) by simp
  have get: "deref (store (swapTxBuffers (txPP s)) (getCurrentTxBuffer (txPP s)) p) (getCurrentTxBuffer (txPP s)) = p" for p
    using assms(1) by (simp add: wf_link_def tx.get_put tx.inv_swap tx.swap_alt)
  show ?thesis
    using assms(1,2)
    by (simp add: udp_data_callback_def blit_checked_def Let_def h_def packet_of_def fill_def retire_tx_def
      reply_of_def cur_fb_def get tx.get_swap BUFFER_SIZE_def len)
qed

lemma wf_link_fill [simp]: "wf_link s \<Longrightarrow> length payload \<le> 64 \<Longrightarrow> wf_link (fill s payload)"
  by (simp add: wf_link_def fill_def rx.inv_put packet_of_def rx.inv_get)

lemma wf_link_retire [simp]: "wf_link s \<Longrightarrow> wf_link (retire_tx h s)"
  by (simp add: wf_link_def retire_tx_def tx.inv_put tx.inv_swap tx.swap_alt reply_of_def cur_fb_def tx.inv_get)

lemma cur_cmd_fill [simp, frame_simps]: "wf_link s \<Longrightarrow> cur_cmd (fill s payload) = cur_cmd s"
  by (simp add: wf_link_def cur_cmd_def fill_def rx.fill_hidden)

lemma rxPP_retire [simp, frame_simps]: "rxPP (retire_tx h s) = rxPP s"
  by (simp add: retire_tx_def)

lemma cur_cmd_swapped: "wf_link s \<Longrightarrow> length payload \<le> 64 \<Longrightarrow>
    cur_cmd (t\<lparr>rxPP := swapRxBuffers (rxPP (fill s payload))\<rparr>) = packet_of s payload"
  by (simp add: wf_link_def cur_cmd_def fill_def rx.fill_published packet_of_def rx.inv_get)

lemma comms_retire [simp]: "comms (retire_tx h s) = dataReceived (comms s)"
  by (simp add: retire_tx_def)

lemma udp_data_callback_wf:
  "wf_link s \<Longrightarrow> udp_data_callback ok addr port payload s = Some (s', r) \<Longrightarrow> wf_link s'"
proof -
  assume wf: "wf_link s" and res: "udp_data_callback ok addr port payload s = Some (s', r)"
  then have len: "length payload \<le> 64" by (metis linorder_not_le option.distinct(1) udp_data_callback_oversize)
  have rxwf: "wf_link (t\<lparr>rxPP := swapRxBuffers b\<rparr>)" if "wf_link t" "wf_pingpong b" for t b
    using that by (simp add: wf_link_def rx.inv_swap)
  have "wf_pingpong (rxPP (fill s payload))" using wf len wf_link_fill wf_link_def by blast
  with wf res len rxwf show ?thesis
    by (auto simp: udp_data_callback_cases split: if_splits)
qed

text \<open>C32: A 64-byte request whose header is \<open>writ\<close> makes exactly those 64 bytes the command the base
  thread reads from then on, and is answered with the feedback gathered so far under the header
  \<open>ackn\<close>; the communication monitor is told.\<close>

theorem udp_write_request:
  assumes "wf_link s" "length payload = 64" "rx_header payload = PRU_WRITE"
  shows "\<exists>s'. udp_data_callback True addr port payload s = Some (s', Some (addr, port, tx_set_header (cur_fb s) PRU_ACKNOWLEDGE))
    \<and> cur_cmd s' = payload \<and> data (comms s') \<and> wf_link s'"
proof -
  have p: "packet_of s payload = payload" using assms by (simp add: packet_of_full)
  let ?s' = "(retire_tx PRU_ACKNOWLEDGE (fill s payload))\<lparr>rxPP := swapRxBuffers (rxPP (fill s payload))\<rparr>"
  have "PRU_WRITE \<noteq> PRU_READ" by (simp add: pru_defs)
  then have "udp_data_callback True addr port payload s = Some (?s', Some (addr, port, reply_of PRU_ACKNOWLEDGE s))"
    using assms by (simp add: udp_data_callback_cases p)
  moreover note udp_data_callback_wf [OF assms(1) this]
  moreover have "cur_cmd ?s' = payload" using assms by (simp add: cur_cmd_swapped p)
  ultimately show ?thesis by (auto simp: reply_of_def dataReceived_def)
qed

theorem udp_write_request_witness:
  "\<exists>s'. udp_data_callback True () 27181 (le32 PRU_WRITE @ replicate 60 1)
      \<lparr>rxPP = zero_pingpong, txPP = zero_pingpong, comms = \<lparr>data = False, status = False, noDataCount = 0\<rparr>\<rparr>
    = Some (s', Some ((), 27181, tx_set_header (replicate 64 0) PRU_ACKNOWLEDGE))
    \<and> cur_cmd s' = le32 PRU_WRITE @ replicate 60 1 \<and> data (comms s') \<and> wf_link s'"
proof -
  let ?s = "\<lparr>rxPP = zero_pingpong, txPP = zero_pingpong, comms = \<lparr>data = False, status = False, noDataCount = 0\<rparr>\<rparr>"
  have "wf_link ?s" by (simp add: wf_link_def wf_zero_pingpong)
  moreover have "rx_header (le32 PRU_WRITE @ replicate 60 1) = PRU_WRITE"
    by (simp add: rx_header_def read_le32_def nth_byte_def le32_def un_le32_le32)
  moreover have "cur_fb ?s = replicate 64 0"
    by (simp add: cur_fb_def zero_pingpong_def pp_defs)
  ultimately show ?thesis using udp_write_request [of ?s "le32 PRU_WRITE @ replicate 60 1" "()" 27181] by simp
qed

text \<open>A request whose header is \<open>read\<close> is answered with the feedback gathered so far under the
  header \<open>data\<close>, retires that feedback buffer, and leaves the current command alone; a request with
  any other header changes neither the current command nor the current feedback nor the link monitor,
  and is answered with an empty datagram.\<close>

theorem udp_other_request:
  assumes "wf_link s" "length payload \<le> 64" "rx_header (packet_of s payload) \<noteq> PRU_WRITE"
  shows "\<exists>s' r. udp_data_callback True addr port payload s = Some (s', Some (addr, port, r))
    \<and> cur_cmd s' = cur_cmd s
    \<and> (if rx_header (packet_of s payload) = PRU_READ
       then r = tx_set_header (cur_fb s) PRU_DATA \<and> data (comms s')
            \<and> getCurrentTxBuffer (txPP s') = getAltTxBuffer (txPP s)
       else r = [] \<and> comms s' = comms s \<and> cur_fb s' = cur_fb s)"
proof (cases "rx_header (packet_of s payload) = PRU_READ")
  case True
  have "udp_data_callback True addr port payload s
      = Some (retire_tx PRU_DATA (fill s payload), Some (addr, port, reply_of PRU_DATA s))"
    using True assms by (simp add: udp_data_callback_cases)
  moreover have "cur_cmd (retire_tx PRU_DATA (fill s payload)) = cur_cmd s"
    using assms cur_cmd_fill [of s payload] by (simp add: cur_cmd_def)
  moreover have "getCurrentTxBuffer (txPP (retire_tx PRU_DATA (fill s payload))) = getAltTxBuffer (txPP s)"
    using assms by (simp add: retire_tx_def fill_def tx.cur_put tx.swap_cur wf_link_def)
  ultimately show ?thesis using True by (auto simp: reply_of_def dataReceived_def)
next
  case False
  then have "udp_data_callback True addr port payload s = Some (fill s payload, Some (addr, port, []))"
    using assms by (simp add: udp_data_callback_cases)
  then show ?thesis using False assms by (simp add: fill_def cur_fb_def cur_cmd_def wf_link_def rx.fill_hidden)
qed

theorem udp_other_request_witness:
  "\<exists>s' r. udp_data_callback True () 27181 (le32 PRU_READ)
      \<lparr>rxPP = zero_pingpong, txPP = zero_pingpong, comms = \<lparr>data = False, status = False, noDataCount = 0\<rparr>\<rparr>
    = Some (s', Some ((), 27181, r))
    \<and> r = tx_set_header (replicate 64 0) PRU_DATA \<and> getCurrentTxBuffer (txPP s') = 1"
proof -
  let ?s = "\<lparr>rxPP = zero_pingpong, txPP = zero_pingpong, comms = \<lparr>data = False, status = False, noDataCount = 0\<rparr>\<rparr>"
  have wf: "wf_link ?s" by (simp add: wf_link_def wf_zero_pingpong)
  have h: "rx_header (packet_of ?s (le32 PRU_READ)) = PRU_READ"
    by (simp add: packet_of_def zero_pingpong_def pp_defs rx_header_def read_le32_blit)
  moreover have "PRU_READ \<noteq> PRU_WRITE" by (simp add: pru_defs)
  moreover have "cur_fb ?s = replicate 64 0"
    by (simp add: cur_fb_def zero_pingpong_def pp_defs)
  moreover have "getAltTxBuffer (txPP ?s) = 1" by (simp add: zero_pingpong_def pp_defs)
  ultimately show ?thesis using udp_other_request [OF wf, of "le32 PRU_READ" "()" 27181] by (auto simp: h)
qed

text \<open>The copy of the request into the 64-byte packet union is not guarded: the callback writes out
  of the union's bounds exactly when the first \<open>pbuf\<close> of the datagram holds more than 64 bytes.\<close>

theorem udp_request_overrun:
  "wf_link s \<Longrightarrow> udp_data_callback ok addr port payload s = None \<longleftrightarrow> 64 < length payload"
  by (rule udp_data_callback_oversize)

theorem udp_request_overrun_witness:
  "udp_data_callback True () 27181 (replicate 65 0)
      \<lparr>rxPP = zero_pingpong, txPP = zero_pingpong, comms = \<lparr>data = False, status = False, noDataCount = 0\<rparr>\<rparr> = None"
  using udp_request_overrun [of "\<lparr>rxPP = zero_pingpong, txPP = zero_pingpong,
      comms = \<lparr>data = False, status = False, noDataCount = 0\<rparr>\<rparr>" True "()" 27181 "replicate 65 0"]
  by (simp add: wf_link_def wf_zero_pingpong)

subsection \<open>The callback under the base-thread interrupt\<close>

text \<open>What a base-thread run may do to the link: it changes the current feedback buffer only.\<close>

definition isr_writes :: "link \<Rightarrow> link \<Rightarrow> bool" where
  "isr_writes s s' \<longleftrightarrow> rxPP s' = rxPP s \<and> comms s' = comms s \<and> wf_pingpong (txPP s')
     \<and> getCurrentTxBuffer (txPP s') = getCurrentTxBuffer (txPP s)
     \<and> deref (txPP s') (getAltTxBuffer (txPP s)) = deref (txPP s) (getAltTxBuffer (txPP s))"

datatype cb_pc = CopyIn nat | Decide | Mark u32 | TakeOut nat nat | Done

record callback =
  lnk :: link
  pc :: cb_pc
  pkt :: "u8 list"
  rxptr :: int
  txptr :: int
  out :: "u8 list"

definition cb_start :: "link \<Rightarrow> u8 list \<Rightarrow> callback" where
  "cb_start s payload = \<lparr>lnk = s, pc = CopyIn 0, pkt = payload, rxptr = getAltRxBuffer (rxPP s),
     txptr = getCurrentTxBuffer (txPP s), out = []\<rparr>"

definition rx_byte :: "callback \<Rightarrow> nat \<Rightarrow> link" where
  "rx_byte c i = (lnk c)\<lparr>rxPP := store (rxPP (lnk c)) (rxptr c) ((deref (rxPP (lnk c)) (rxptr c))[i := pkt c ! i])\<rparr>"

definition mark_header :: "callback \<Rightarrow> u32 \<Rightarrow> link" where
  "mark_header c h = (lnk c)\<lparr>txPP := store (txPP (lnk c)) (txptr c) (tx_set_header (deref (txPP (lnk c)) (txptr c)) h),
     comms := dataReceived (comms (lnk c))\<rparr>"

text \<open>One rule per access the main loop makes, plus the interrupt, which may come before any of
  them; the two swaps of a write happen under \<open>__disable_irq\<close> and are one step.\<close>

inductive cb_step :: "callback \<Rightarrow> callback \<Rightarrow> bool" where
  copy_byte: "pc c = CopyIn i \<Longrightarrow> i < length (pkt c) \<Longrightarrow>
     cb_step c (c\<lparr>lnk := rx_byte c i, pc := CopyIn (Suc i)\<rparr>)"
| copy_done: "pc c = CopyIn i \<Longrightarrow> i = length (pkt c) \<Longrightarrow> cb_step c (c\<lparr>pc := Decide\<rparr>)"
| decide_read: "pc c = Decide \<Longrightarrow> rx_header (deref (rxPP (lnk c)) (rxptr c)) = PRU_READ \<Longrightarrow>
     cb_step c (c\<lparr>lnk := (lnk c)\<lparr>txPP := swapTxBuffers (txPP (lnk c))\<rparr>, pc := Mark PRU_DATA\<rparr>)"
| decide_write: "pc c = Decide \<Longrightarrow> rx_header (deref (rxPP (lnk c)) (rxptr c)) = PRU_WRITE \<Longrightarrow>
     cb_step c (c\<lparr>lnk := (lnk c)\<lparr>txPP := swapTxBuffers (txPP (lnk c)), rxPP := swapRxBuffers (rxPP (lnk c))\<rparr>,
       pc := Mark PRU_ACKNOWLEDGE\<rparr>)"
| decide_other: "pc c = Decide \<Longrightarrow> rx_header (deref (rxPP (lnk c)) (rxptr c)) \<noteq> PRU_READ \<Longrightarrow>
     rx_header (deref (rxPP (lnk c)) (rxptr c)) \<noteq> PRU_WRITE \<Longrightarrow> cb_step c (c\<lparr>pc := TakeOut 0 0\<rparr>)"
| mark: "pc c = Mark h \<Longrightarrow> cb_step c (c\<lparr>lnk := mark_header c h, pc := TakeOut 0 BUFFER_SIZE\<rparr>)"
| take_byte: "pc c = TakeOut i n \<Longrightarrow> i < n \<Longrightarrow>
     cb_step c (c\<lparr>out := out c @ [deref (txPP (lnk c)) (txptr c) ! i], pc := TakeOut (Suc i) n\<rparr>)"
| take_done: "pc c = TakeOut i n \<Longrightarrow> i = n \<Longrightarrow> cb_step c (c\<lparr>pc := Done\<rparr>)"
| isr: "isr_writes (lnk c) s' \<Longrightarrow> cb_step c (c\<lparr>lnk := s'\<rparr>)"

inductive_simps cb_step_Done: "cb_step (c\<lparr>pc := Done\<rparr>) d"

text \<open>What is true of the two command buffers at every point of the callback.\<close>

fun copied :: "cb_pc \<Rightarrow> nat \<Rightarrow> nat" where
  "copied (CopyIn i) n = i"
| "copied _ n = n"

definition cb_inv :: "link \<Rightarrow> u8 list \<Rightarrow> callback \<Rightarrow> bool" where
  "cb_inv s payload c \<longleftrightarrow>
     wf_link (lnk c) \<and> pkt c = payload \<and> rxptr c = getAltRxBuffer (rxPP s) \<and> txptr c = getCurrentTxBuffer (txPP s)
     \<and> copied (pc c) (length payload) \<le> length payload
     \<and> deref (rxPP (lnk c)) (getCurrentRxBuffer (rxPP s)) = cur_cmd s
     \<and> deref (rxPP (lnk c)) (rxptr c) = packet_of s (take (copied (pc c) (length payload)) payload)
     \<and> (getCurrentRxBuffer (rxPP (lnk c)) = getCurrentRxBuffer (rxPP s)
        \<or> (\<forall>i. pc c \<noteq> CopyIn i) \<and> pc c \<noteq> Decide \<and> getCurrentRxBuffer (rxPP (lnk c)) = getAltRxBuffer (rxPP s)
           \<and> rx_header (packet_of s payload) = PRU_WRITE)
     \<and> (case pc c of CopyIn i \<Rightarrow> getCurrentTxBuffer (txPP (lnk c)) = txptr c \<and> out c = []
          | Decide \<Rightarrow> getCurrentTxBuffer (txPP (lnk c)) = txptr c \<and> out c = []
          | Mark h \<Rightarrow> getCurrentTxBuffer (txPP (lnk c)) \<noteq> txptr c \<and> out c = []
          | TakeOut i n \<Rightarrow> n = 0 \<or> n = 64 \<and> getCurrentTxBuffer (txPP (lnk c)) \<noteq> txptr c
          | Done \<Rightarrow> True)"

lemma packet_of_step:
  assumes "wf_link s" "i < length payload" "length payload \<le> 64"
  shows "(packet_of s (take i payload))[i := payload ! i] = packet_of s (take (Suc i) payload)"
proof -
  let ?old = "deref (rxPP s) (getAltRxBuffer (rxPP s))"
  have len: "length ?old = 64" using assms(1) by simp
  have "(take i payload @ drop i ?old)[i := payload ! i] = take i payload @ (payload ! i) # drop (Suc i) ?old"
    using assms len by (simp add: list_update_append Cons_nth_drop_Suc [symmetric])
  also have "\<dots> = take (Suc i) payload @ drop (Suc i) ?old"
    using assms by (simp add: take_Suc_conv_app_nth)
  finally show ?thesis using assms by (simp add: packet_of_def blit_def min_absorb2)
qed

lemma cb_inv_start: "wf_link s \<Longrightarrow> cb_inv s payload (cb_start s payload)"
  by (simp add: cb_inv_def cb_start_def packet_of_def blit_def cur_cmd_def)

lemma cur_ne_alt: "getCurrentRxBuffer b \<noteq> getAltRxBuffer b"
  by (simp add: pp_defs) presburger

lemma getAltRxBuffer_cong: "getCurrentRxBuffer a = getCurrentRxBuffer b \<Longrightarrow> getAltRxBuffer a = getAltRxBuffer b"
  by (simp add: pp_defs)

lemma cb_step_inv:
  assumes "wf_link s" "length payload \<le> 64" "cb_step c d" "cb_inv s payload c"
  shows "cb_inv s payload d"
  using assms(3,4)
proof cases
  case (copy_byte i)
  have rxs: "rxptr c = getCurrentRxBuffer (rxPP (lnk c)) \<or> rxptr c = getAltRxBuffer (rxPP (lnk c))"
    "getCurrentRxBuffer (rxPP s) = getCurrentRxBuffer (rxPP (lnk c))" "rxptr c \<noteq> getCurrentRxBuffer (rxPP s)"
    "wf_pingpong (rxPP (lnk c))"
    using assms(4) copy_byte cur_ne_alt [of "rxPP s"] by (auto simp: cb_inv_def pp_defs wf_link_def)
  have len: "length (deref (rxPP (lnk c)) (rxptr c)) = 64"
    using rxs(1,4) by (auto simp: rx.inv_get)
  show ?thesis
    using assms copy_byte rxs len
    by (auto simp: cb_inv_def rx_byte_def rx.get_put rx.get_put_other rx.cur_put packet_of_step wf_link_def rx.inv_put)
next
  case (copy_done i)
  then show ?thesis using assms(4) by (auto simp: cb_inv_def)
next
  case decide_read
  then show ?thesis using assms(4) tx.alt_cur [of "txPP (lnk c)"]
    by (auto simp: cb_inv_def wf_link_def tx.inv_swap tx.swap_cur tx.alt_cur)
next
  case decide_write
  then show ?thesis using assms(4) tx.alt_cur [of "txPP (lnk c)"]
    by (auto simp: cb_inv_def wf_link_def tx.inv_swap tx.swap_cur tx.alt_cur rx.inv_swap rx.get_swap rx.swap_cur dest: getAltRxBuffer_cong)
next
  case decide_other
  then show ?thesis using assms(4) by (auto simp: cb_inv_def)
next
  case (mark h)
  have t: "txptr c = getAltTxBuffer (txPP (lnk c))" "wf_pingpong (txPP (lnk c))"
    using assms(1,4) mark by (auto simp: cb_inv_def wf_link_def wf_pingpong_def pp_defs)
  then show ?thesis using assms(4) mark
    by (auto simp: cb_inv_def mark_header_def wf_link_def tx.inv_put tx.inv_get tx.cur_put BUFFER_SIZE_def)
next
  case (take_byte i n)
  then show ?thesis using assms(4) by (auto simp: cb_inv_def)
next
  case (take_done i n)
  then show ?thesis using assms(4) by (auto simp: cb_inv_def)
next
  case (isr s')
  then show ?thesis using assms(4)
    by (auto simp: cb_inv_def isr_writes_def wf_link_def split: cb_pc.splits)
qed

lemma cb_run_inv:
  assumes "cb_step\<^sup>*\<^sup>* (cb_start s payload) c" "wf_link s" "length payload \<le> 64"
  shows "cb_inv s payload c"
  using assms(1) by (induction rule: rtranclp_induct) (auto intro: cb_inv_start cb_step_inv assms(2,3))

text \<open>C28: However the base-thread interrupt falls between the accesses of the callback, the command it
  reads is either the one in force before the request or the complete new one, never a mixture; and
  it is the new one only after a \<open>writ\<close> header.\<close>

theorem no_torn_command:
  assumes "cb_step\<^sup>*\<^sup>* (cb_start s payload) c" "wf_link s" "length payload \<le> 64"
  shows "cur_cmd (lnk c) = cur_cmd s
    \<or> cur_cmd (lnk c) = packet_of s payload \<and> rx_header (packet_of s payload) = PRU_WRITE"
proof -
  have inv: "cb_inv s payload c" using assms by (rule cb_run_inv)
  have "copied (pc c) (length payload) = length payload" if "\<forall>i. pc c \<noteq> CopyIn i"
    using that by (cases "pc c") auto
  with inv show ?thesis by (auto simp: cb_inv_def cur_cmd_def)
qed

theorem no_torn_command_witness:
  "\<exists>c. cb_step\<^sup>*\<^sup>* (cb_start \<lparr>rxPP = zero_pingpong, txPP = zero_pingpong,
        comms = \<lparr>data = False, status = False, noDataCount = 0\<rparr>\<rparr> (le32 PRU_WRITE)) c
     \<and> pc c = CopyIn 1 \<and> cur_cmd (lnk c) = replicate 64 0"
proof -
  let ?s = "\<lparr>rxPP = zero_pingpong, txPP = zero_pingpong, comms = \<lparr>data = False, status = False, noDataCount = 0\<rparr>\<rparr>"
  let ?c = "cb_start ?s (le32 PRU_WRITE)"
  let ?d = "?c\<lparr>lnk := rx_byte ?c 0, pc := CopyIn (Suc 0)\<rparr>"
  have "cb_step ?c ?d" by (rule cb_step.copy_byte) (simp_all add: cb_start_def)
  then have reach: "cb_step\<^sup>*\<^sup>* ?c ?d" by (rule r_into_rtranclp)
  have wf: "wf_link ?s" by (simp add: wf_link_def wf_zero_pingpong)
  have "cur_cmd ?s = replicate 64 0" by (simp add: cur_cmd_def zero_pingpong_def pp_defs)
  moreover have "cur_cmd (lnk ?d) = cur_cmd ?s"
  proof -
    have "getCurrentRxBuffer (rxPP (lnk ?d)) \<noteq> getAltRxBuffer (rxPP ?s)"
      by (simp add: cb_start_def rx_byte_def zero_pingpong_def pp_defs)
    then show ?thesis
      using no_torn_command [OF reach wf] cb_run_inv [OF reach wf] by (auto simp: cb_inv_def cur_cmd_def)
  qed
  ultimately show ?thesis using reach by (intro exI [of _ ?d]) simp
qed

text \<open>The reply: after the swap, the retired feedback buffer is out of the interrupt's reach. \<open>fb\<close> is the feedback as it stood at the
  swap and \<open>h\<close> the header of the reply; with no header there is nothing to send.\<close>

definition reply_header :: "u32 \<Rightarrow> u32 option" where
  "reply_header req = (if req = PRU_READ then Some PRU_DATA else if req = PRU_WRITE then Some PRU_ACKNOWLEDGE else None)"

definition reply_inv :: "packet \<Rightarrow> u32 option \<Rightarrow> callback \<Rightarrow> bool" where
  "reply_inv fb h c \<longleftrightarrow>
     (case pc c of
        Mark x \<Rightarrow> h = Some x \<and> out c = [] \<and> deref (txPP (lnk c)) (txptr c) = fb
      | TakeOut i n \<Rightarrow>
          (case h of None \<Rightarrow> n = 0 \<and> out c = []
           | Some x \<Rightarrow> n = 64 \<and> i \<le> n \<and> deref (txPP (lnk c)) (txptr c) = tx_set_header fb x \<and> out c = take i (tx_set_header fb x))
      | Done \<Rightarrow> out c = (case h of None \<Rightarrow> [] | Some x \<Rightarrow> tx_set_header fb x)
      | _ \<Rightarrow> False)"

lemma retired_is_alt:
  "wf_pingpong b \<Longrightarrow> getCurrentTxBuffer b \<noteq> t \<Longrightarrow> t = 0 \<or> t = 1 \<Longrightarrow> t = getAltTxBuffer b"
  by (auto simp: wf_pingpong_def pp_defs)

lemma cb_inv_tx:
  assumes "wf_link s" "cb_inv s payload c"
  shows "wf_pingpong (txPP (lnk c))" "length (deref (txPP (lnk c)) (txptr c)) = 64"
    "getCurrentTxBuffer (txPP (lnk c)) \<noteq> txptr c \<Longrightarrow> txptr c = getAltTxBuffer (txPP (lnk c))"
proof -
  show w: "wf_pingpong (txPP (lnk c))" using assms(2) by (simp add: cb_inv_def wf_link_def)
  have t: "txptr c = 0 \<or> txptr c = 1" using assms by (auto simp: cb_inv_def wf_link_def wf_pingpong_def pp_defs)
  show "length (deref (txPP (lnk c)) (txptr c)) = 64" using t w by (intro tx.inv_get) (auto simp: wf_pingpong_def pp_defs)
  show "getCurrentTxBuffer (txPP (lnk c)) \<noteq> txptr c \<Longrightarrow> txptr c = getAltTxBuffer (txPP (lnk c))"
    using retired_is_alt [OF w _ t] .
qed

lemma reply_step:
  assumes wf: "wf_link s" and ci: "cb_inv s payload c" and st: "cb_step c d" and inv: "reply_inv fb h c" and len: "length fb = 64"
  shows "reply_inv fb h d"
proof -
  note wfc = cb_inv_tx(1) [OF wf ci] and alt = cb_inv_tx(3) [OF wf ci]
  have l64: "length (tx_set_header fb x) = 64" for x using len by simp
  show ?thesis using st
  proof cases
    case (mark x)
    then have a: "txptr c = getAltTxBuffer (txPP (lnk c))" using ci alt by (simp add: cb_inv_def)
    have "deref (txPP (mark_header c x)) (txptr c) = tx_set_header (deref (txPP (lnk c)) (txptr c)) x"
      using a wfc by (simp add: mark_header_def tx.get_put)
    with inv mark show ?thesis by (auto simp: reply_inv_def BUFFER_SIZE_def)
  next
    case (take_byte i n)
    with inv l64 show ?thesis by (auto simp: reply_inv_def take_Suc_conv_app_nth split: option.splits)
  next
    case (take_done i n)
    with inv l64 show ?thesis by (auto simp: reply_inv_def split: option.splits)
  next
    case (isr s')
    with inv ci alt show ?thesis
      by (auto simp: reply_inv_def cb_inv_def isr_writes_def split: cb_pc.splits option.splits)
  qed (use inv in \<open>auto simp: reply_inv_def\<close>)
qed

lemma request_reply_run:
  assumes "cb_step\<^sup>*\<^sup>* c d" "reply_inv fb h c" "cb_inv s payload c" "wf_link s" "length payload \<le> 64" "length fb = 64"
  shows "reply_inv fb h d"
proof -
  have "reply_inv fb h d \<and> cb_inv s payload d" using assms(1)
  proof (induction rule: rtranclp_induct)
    case base
    show ?case using assms(2,3) by blast
  next
    case (step c d)
    then show ?case using reply_step [OF assms(4) _ step.hyps(2) _ assms(6)] cb_step_inv [OF assms(4,5) step.hyps(2)] by blast
  qed
  then show ?thesis by blast
qed

text \<open>C29: However the base-thread interrupt falls between the accesses of the callback, the reply of a run is the feedback buffer as it stood
  in that run at one instant, when the callback left its decision (the swap), under the header that answers the request; feedback that
  the interrupt writes later is never mixed into it. A request that is neither a read nor a write gets an empty reply.\<close>

theorem reply_is_snapshot:
  assumes "wf_link s" "length payload \<le> 64"
    and "cb_step\<^sup>*\<^sup>* (cb_start s payload) c1" "pc c1 = Decide" "cb_step c1 c2" "pc c2 \<noteq> Decide"
    and "cb_step\<^sup>*\<^sup>* c2 c" "pc c = Done"
  shows "out c = (case reply_header (rx_header (packet_of s payload)) of None \<Rightarrow> [] | Some h \<Rightarrow> tx_set_header (cur_fb (lnk c1)) h)"
proof -
  let ?h = "reply_header (rx_header (packet_of s payload))"
  have i1: "cb_inv s payload c1" by (rule cb_run_inv [OF assms(3,1,2)])
  have i2: "cb_inv s payload c2" by (rule cb_step_inv [OF assms(1,2,5) i1])
  have cur: "deref (txPP (lnk c1)) (txptr c1) = cur_fb (lnk c1)" "deref (rxPP (lnk c1)) (rxptr c1) = packet_of s payload" "out c1 = []"
    using i1 assms(4) by (auto simp: cb_inv_def cur_fb_def)
  have ne: "PRU_WRITE \<noteq> PRU_READ" by (simp add: pru_defs)
  have "reply_inv (cur_fb (lnk c1)) ?h c2" using assms(5)
  proof cases
    case decide_read
    then show ?thesis using cur by (simp add: reply_inv_def reply_header_def tx.get_swap)
  next
    case decide_write
    then show ?thesis using cur ne by (simp add: reply_inv_def reply_header_def tx.get_swap)
  next
    case decide_other
    then show ?thesis using cur by (simp add: reply_inv_def reply_header_def)
  qed (use assms(4,6) in simp_all)
  from request_reply_run [OF assms(7) this i2 assms(1,2)] have "reply_inv (cur_fb (lnk c1)) ?h c"
    using cb_inv_tx(2) [OF assms(1) i1] cur(1) by simp
  then show ?thesis using assms(8) by (simp add: reply_inv_def)
qed

subsection \<open>The micro-steps refine the function\<close>

lemma store_store [simp]: "store (store b i p) i q = store b i q"
  by (simp add: store_def)

lemma copy_run:
  assumes "wf_link s" "length payload \<le> 64" "i \<le> length payload"
  shows "cb_step\<^sup>*\<^sup>* (cb_start s payload)
    ((cb_start s payload)\<lparr>lnk := s\<lparr>rxPP := store (rxPP s) (getAltRxBuffer (rxPP s)) (packet_of s (take i payload))\<rparr>, pc := CopyIn i\<rparr>)"
  using assms(3)
proof (induction i)
  case 0
  have "store (rxPP s) (getAltRxBuffer (rxPP s)) (packet_of s []) = rxPP s"
    by (simp add: packet_of_def blit_def pp_defs)
  then show ?case by (simp add: cb_start_def)
next
  case (Suc i)
  let ?l = "\<lambda>i. s\<lparr>rxPP := store (rxPP s) (getAltRxBuffer (rxPP s)) (packet_of s (take i payload))\<rparr>"
  let ?c = "(cb_start s payload)\<lparr>lnk := ?l i, pc := CopyIn i\<rparr>"
  have "cb_step ?c (?c\<lparr>lnk := rx_byte ?c i, pc := CopyIn (Suc i)\<rparr>)"
    by (rule cb_step.copy_byte) (use Suc.prems in \<open>simp_all add: cb_start_def\<close>)
  moreover have "rx_byte ?c i = ?l (Suc i)"
    using assms Suc.prems by (simp add: rx_byte_def cb_start_def packet_of_step)
  ultimately show ?case using Suc by (simp add: cb_start_def rtranclp.rtrancl_into_rtrancl)
qed

lemma take_run:
  "pc c = TakeOut i n \<Longrightarrow> i \<le> n \<Longrightarrow> n \<le> length (deref (txPP (lnk c)) (txptr c)) \<Longrightarrow>
   cb_step\<^sup>*\<^sup>* c (c\<lparr>out := out c @ take (n - i) (drop i (deref (txPP (lnk c)) (txptr c))), pc := Done\<rparr>)"
proof (induction "n - i" arbitrary: i c)
  case 0
  then have "cb_step c (c\<lparr>pc := Done\<rparr>)" by (intro cb_step.take_done) auto
  with 0 show ?case by (simp add: r_into_rtranclp)
next
  case (Suc k)
  let ?m = "deref (txPP (lnk c)) (txptr c)"
  let ?d = "c\<lparr>out := out c @ [?m ! i], pc := TakeOut (Suc i) n\<rparr>"
  have "cb_step c ?d" by (rule cb_step.take_byte) (use Suc in auto)
  moreover have "cb_step\<^sup>*\<^sup>* ?d (?d\<lparr>out := out ?d @ take (n - Suc i) (drop (Suc i) ?m), pc := Done\<rparr>)"
    using Suc.hyps(1) [of "Suc i" ?d] Suc by simp
  moreover have "take (n - i) (drop i ?m) = ?m ! i # take (n - Suc i) (drop (Suc i) ?m)"
  proof -
    have "n - i = Suc (n - Suc i)" "i < length ?m" using Suc by auto
    then show ?thesis by (simp add: Cons_nth_drop_Suc [symmetric])
  qed
  ultimately show ?case by (simp add: converse_rtranclp_into_rtranclp)
qed

text \<open>C30: With no interrupt in between, the micro-steps of the callback run to completion and end in the
  state and with the reply that \<open>udp_data_callback\<close> computes.\<close>

theorem cb_refines_callback:
  assumes wf: "wf_link s" and len: "length payload \<le> 64"
    and res: "udp_data_callback True addr port payload s = Some (s', Some (addr, port, r))"
  shows "\<exists>c. cb_step\<^sup>*\<^sup>* (cb_start s payload) c \<and> pc c = Done \<and> lnk c = s' \<and> out c = r"
proof -
  let ?d = "(cb_start s payload)\<lparr>lnk := fill s payload, pc := CopyIn (length payload)\<rparr>"
  let ?e = "?d\<lparr>pc := Decide\<rparr>"
  have "cb_step\<^sup>*\<^sup>* (cb_start s payload) ?d"
    using copy_run [OF wf len, of "length payload"] by (simp add: fill_def)
  moreover have "cb_step ?d ?e" by (rule cb_step.copy_done) (simp_all add: cb_start_def)
  ultimately have e: "cb_step\<^sup>*\<^sup>* (cb_start s payload) ?e" by (rule rtranclp.rtrancl_into_rtrancl)
  have hdr: "deref (rxPP (lnk ?e)) (rxptr ?e) = packet_of s payload"
    using wf by (simp add: cb_start_def fill_def)
  have cfb: "cur_fb (fill s payload) = cur_fb s" by (simp add: cur_fb_def fill_def)
  have finish: "\<exists>c. cb_step\<^sup>*\<^sup>* (cb_start s payload) c \<and> pc c = Done \<and> lnk c = mark_header f h
      \<and> out c = tx_set_header (cur_fb s) h"
    if f: "cb_step ?e f" "pc f = Mark h" "out f = []" "txptr f = getCurrentTxBuffer (txPP s)"
      "txPP (lnk f) = swapTxBuffers (txPP s)" for f h
  proof -
    let ?g = "f\<lparr>lnk := mark_header f h, pc := TakeOut 0 BUFFER_SIZE\<rparr>"
    have dg: "deref (txPP (lnk ?g)) (txptr ?g) = tx_set_header (cur_fb s) h"
      using wf by (simp add: mark_header_def f wf_link_def tx.get_put tx.inv_swap tx.swap_alt tx.get_swap cur_fb_def)
    have "cb_step f ?g" using f(2) by (rule cb_step.mark)
    moreover have "cb_step\<^sup>*\<^sup>* ?g (?g\<lparr>out := tx_set_header (cur_fb s) h, pc := Done\<rparr>)"
      using take_run [of ?g 0 BUFFER_SIZE] dg wf
      by (simp add: BUFFER_SIZE_def f cur_fb_def)
    ultimately show ?thesis using e f(1)
      by (intro exI [of _ "?g\<lparr>out := tx_set_header (cur_fb s) h, pc := Done\<rparr>"])
        (auto intro: rtranclp_trans converse_rtranclp_into_rtranclp)
  qed
  consider (rd) "rx_header (packet_of s payload) = PRU_READ"
    | (wr) "rx_header (packet_of s payload) = PRU_WRITE" "PRU_WRITE \<noteq> PRU_READ"
    | (oth) "rx_header (packet_of s payload) \<noteq> PRU_READ" "rx_header (packet_of s payload) \<noteq> PRU_WRITE"
    by (auto simp: pru_defs)
  then show ?thesis
  proof cases
    case rd
    let ?f = "?e\<lparr>lnk := (lnk ?e)\<lparr>txPP := swapTxBuffers (txPP (lnk ?e))\<rparr>, pc := Mark PRU_DATA\<rparr>"
    have st: "cb_step ?e ?f" by (rule cb_step.decide_read) (use hdr rd in simp_all)
    have "s' = mark_header ?f PRU_DATA \<and> r = tx_set_header (cur_fb s) PRU_DATA"
      using res wf len rd
      by (auto simp: udp_data_callback_cases mark_header_def retire_tx_def reply_of_def cb_start_def fill_def cur_fb_def tx.get_swap)
    with finish [OF st] show ?thesis by (simp add: cb_start_def fill_def)
  next
    case wr
    let ?f = "?e\<lparr>lnk := (lnk ?e)\<lparr>txPP := swapTxBuffers (txPP (lnk ?e)), rxPP := swapRxBuffers (rxPP (lnk ?e))\<rparr>, pc := Mark PRU_ACKNOWLEDGE\<rparr>"
    have st: "cb_step ?e ?f" by (rule cb_step.decide_write) (use hdr wr in simp_all)
    have "s' = mark_header ?f PRU_ACKNOWLEDGE \<and> r = tx_set_header (cur_fb s) PRU_ACKNOWLEDGE"
      using res wf len wr
      by (auto simp: udp_data_callback_cases mark_header_def retire_tx_def reply_of_def cb_start_def fill_def cur_fb_def tx.get_swap)
    with finish [OF st] show ?thesis by (simp add: cb_start_def fill_def)
  next
    case oth
    let ?f = "?e\<lparr>pc := TakeOut 0 0\<rparr>"
    have "cb_step ?e ?f" by (rule cb_step.decide_other) (use hdr oth in simp_all)
    moreover have "cb_step ?f (?f\<lparr>pc := Done\<rparr>)" by (rule cb_step.take_done) simp_all
    moreover have "s' = fill s payload \<and> r = []" using res wf len oth by (auto simp: udp_data_callback_cases)
    ultimately show ?thesis using e
      by (intro exI [of _ "?f\<lparr>pc := Done\<rparr>"]) (auto simp: cb_start_def intro: rtranclp.rtrancl_into_rtrancl)
  qed
qed

theorem cb_refines_callback_witness:
  "\<exists>c. cb_step\<^sup>*\<^sup>* (cb_start \<lparr>rxPP = zero_pingpong, txPP = zero_pingpong,
        comms = \<lparr>data = False, status = False, noDataCount = 0\<rparr>\<rparr> (le32 PRU_WRITE)) c
     \<and> pc c = Done \<and> length (out c) = 64"
proof -
  let ?s = "\<lparr>rxPP = zero_pingpong, txPP = zero_pingpong, comms = \<lparr>data = False, status = False, noDataCount = 0\<rparr>\<rparr>"
  have wf: "wf_link ?s" by (simp add: wf_link_def wf_zero_pingpong)
  have len: "length (le32 PRU_WRITE) \<le> 64" by simp
  have h: "rx_header (packet_of ?s (le32 PRU_WRITE)) = PRU_WRITE"
    by (simp add: packet_of_def zero_pingpong_def pp_defs rx_header_def read_le32_blit)
  have ne: "PRU_WRITE \<noteq> PRU_READ" by (simp add: pru_defs)
  obtain s' where "udp_data_callback True () 1 (le32 PRU_WRITE) ?s = Some (s', Some ((), 1, reply_of PRU_ACKNOWLEDGE ?s))"
    using udp_data_callback_cases [OF wf len, of True "()" 1] h ne by simp
  from cb_refines_callback [OF wf len this]
  obtain c where "cb_step\<^sup>*\<^sup>* (cb_start ?s (le32 PRU_WRITE)) c" "pc c = Done" "out c = reply_of PRU_ACKNOWLEDGE ?s"
    by blast
  moreover have "length (reply_of PRU_ACKNOWLEDGE ?s) = 64"
    using tx_set_length(1) [OF wf_link_get(3) [OF wf]] by (simp add: reply_of_def cur_fb_def)
  ultimately show ?thesis by auto
qed

text \<open>A read request; the interrupt comes after the swap and overwrites the buffer that is current by then.\<close>

theorem reply_is_snapshot_witness:
  "\<exists>c. cb_step\<^sup>*\<^sup>* (cb_start \<lparr>rxPP = zero_pingpong, txPP = zero_pingpong,
        comms = \<lparr>data = False, status = False, noDataCount = 0\<rparr>\<rparr> (le32 PRU_READ)) c \<and> pc c = Done
     \<and> cur_fb (lnk c) = replicate 64 7 \<and> out c = tx_set_header (replicate 64 0) PRU_DATA"
proof -
  let ?s = "\<lparr>rxPP = zero_pingpong, txPP = zero_pingpong, comms = \<lparr>data = False, status = False, noDataCount = 0\<rparr>\<rparr>"
  let ?d = "(cb_start ?s (le32 PRU_READ))\<lparr>lnk := fill ?s (le32 PRU_READ), pc := CopyIn (length (le32 PRU_READ))\<rparr>"
  let ?e = "?d\<lparr>pc := Decide\<rparr>"
  let ?f = "?e\<lparr>lnk := (lnk ?e)\<lparr>txPP := swapTxBuffers (txPP (lnk ?e))\<rparr>, pc := Mark PRU_DATA\<rparr>"
  let ?b = "txPP (lnk ?f)"
  let ?g = "?f\<lparr>lnk := (lnk ?f)\<lparr>txPP := store ?b (getCurrentTxBuffer ?b) (replicate 64 7)\<rparr>\<rparr>"
  let ?k = "?g\<lparr>lnk := mark_header ?g PRU_DATA, pc := TakeOut 0 BUFFER_SIZE\<rparr>"
  have wf: "wf_link ?s" by (simp add: wf_link_def wf_zero_pingpong)
  have len: "length (le32 PRU_READ) \<le> 64" by simp
  have h: "rx_header (packet_of ?s (le32 PRU_READ)) = PRU_READ"
    by (simp add: packet_of_def zero_pingpong_def pp_defs rx_header_def read_le32_blit)
  have "cb_step\<^sup>*\<^sup>* (cb_start ?s (le32 PRU_READ)) ?d" using copy_run [OF wf len, of "length (le32 PRU_READ)"] by (simp add: fill_def)
  moreover have "cb_step ?d ?e" by (rule cb_step.copy_done) (simp_all add: cb_start_def)
  ultimately have r1: "cb_step\<^sup>*\<^sup>* (cb_start ?s (le32 PRU_READ)) ?e" by (rule rtranclp.rtrancl_into_rtrancl)
  have s2: "cb_step ?e ?f" by (rule cb_step.decide_read) (use h wf deref_store_alt [OF wf] in \<open>simp_all add: cb_start_def fill_def\<close>)
  have tp: "txPP (fill ?s (le32 PRU_READ)) = zero_pingpong" "getCurrentTxBuffer zero_pingpong = 0"
    by (simp_all add: fill_def zero_pingpong_def pp_defs)
  have "isr_writes (lnk ?f) (lnk ?g)"
    by (simp add: isr_writes_def cb_start_def tp) (simp add: zero_pingpong_def pp_defs wf_pingpong_def BUFFER_SIZE_def)
  from cb_step.isr [OF this] have s3: "cb_step ?f ?g" by simp
  have s4: "cb_step ?g ?k" by (rule cb_step.mark) simp
  have k: "length (deref (txPP (lnk ?k)) (txptr ?k)) = 64" "cur_fb (lnk ?k) = replicate 64 7"
    by (simp_all add: mark_header_def cb_start_def tp cur_fb_def) (simp_all add: zero_pingpong_def pp_defs)
  obtain c where c: "cb_step\<^sup>*\<^sup>* ?k c" "pc c = Done" "lnk c = lnk ?k"
    using take_run [of ?k 0 BUFFER_SIZE] k(1) by (force simp: BUFFER_SIZE_def)
  have r2: "cb_step\<^sup>*\<^sup>* ?f c" using s3 s4 c(1) by (meson converse_rtranclp_into_rtranclp)
  have "out c = tx_set_header (cur_fb (lnk ?e)) PRU_DATA"
    using reply_is_snapshot [OF wf len r1 _ s2 _ r2 c(2)] h by (simp add: reply_header_def)
  moreover have "cur_fb (lnk ?e) = replicate 64 0" by (simp add: cur_fb_def tp) (simp add: zero_pingpong_def pp_defs)
  moreover have "cb_step\<^sup>*\<^sup>* (cb_start ?s (le32 PRU_READ)) c" using r1 s2 r2 by (meson rtranclp.rtrancl_into_rtrancl rtranclp_trans)
  ultimately show ?thesis using c(2,3) k(2) by auto
qed

end
