(* ===== verification/Gpio.thy ===== *)
theory Gpio
  imports Prelude
begin

unbundle bit_operations_syntax

text \<open>
  The pin driver \<open>Pin\<close> (\<open>Src/drivers/pin\<close>): parsing of names such as \<open>PA_5\<close> or \<open>PC_13\<close>, the
  configuration of the pin, and reading and writing it. The GPIO ports are an output register
  and an input register each; what the pins outside read is a parameter of the state. Reading a
  string past its terminating zero, indexing the table of ports out of range and using a pin
  that was never configured are undefined behaviour, here \<open>None\<close>.
\<close>

datatype gpio_mode = GPIO_MODE_INPUT | GPIO_MODE_OUTPUT_PP
datatype gpio_pull = GPIO_NOPULL | GPIO_PULLUP | GPIO_PULLDOWN

definition NONE :: nat where "NONE = 0"
definition OPENDRAIN :: nat where "OPENDRAIN = 1"
definition PULLUP :: nat where "PULLUP = 2"
definition PULLDOWN :: nat where "PULLDOWN = 3"
definition PULLNONE :: nat where "PULLNONE = 4"

lemmas modifier_defs = NONE_def OPENDRAIN_def PULLUP_def PULLDOWN_def PULLNONE_def

record gpio =
  odr :: "nat \<Rightarrow> u16"
  idr :: "nat \<Rightarrow> u16"
  clocks :: "nat set"
  config :: "nat \<Rightarrow> nat \<Rightarrow> (gpio_mode \<times> gpio_pull option) option"

text \<open>\<open>pull\<close> is not assigned on every path of the constructor, and \<open>GPIOx\<close> and \<open>pin\<close> are not when
  the name is refused.\<close>

record pin =
  portAndPin :: string
  dir :: int
  mode :: gpio_mode
  pull :: "gpio_pull option"
  portIndex :: u8
  pinNumber :: u16
  pinMask :: u16
  GPIOx :: "nat option"

definition HAL_GPIO_WritePin :: "nat \<Rightarrow> u16 \<Rightarrow> bool \<Rightarrow> gpio \<Rightarrow> gpio" where
  "HAL_GPIO_WritePin port msk v g =
     g\<lparr>odr := (odr g)(port := (if v then odr g port OR msk else odr g port AND NOT msk))\<rparr>"

definition HAL_GPIO_ReadPin :: "nat \<Rightarrow> u16 \<Rightarrow> gpio \<Rightarrow> bool" where
  "HAL_GPIO_ReadPin port msk g = (idr g port AND msk \<noteq> 0)"

definition HAL_GPIO_Init :: "nat \<Rightarrow> u16 \<Rightarrow> gpio_mode \<Rightarrow> gpio_pull option \<Rightarrow> gpio \<Rightarrow> gpio" where
  "HAL_GPIO_Init port msk m pl g =
     g\<lparr>config := (config g)(port := (\<lambda>i. if bit msk i then Some (m, pl) else config g port i))\<rparr>"

text \<open>Character \<open>i\<close> of a \<open>std::string\<close>: the position after the last character reads as zero.\<close>

definition char_at :: "string \<Rightarrow> nat \<Rightarrow> int option" where
  "char_at s i = (if i < length s then Some (int (of_char (s ! i))) else if i = length s then Some 0 else None)"

definition initPin :: "pin \<Rightarrow> gpio \<Rightarrow> gpio option" where
  "initPin p g = (case GPIOx p of None \<Rightarrow> None
     | Some port \<Rightarrow> Some (HAL_GPIO_Init port (pinMask p) (mode p) (pull p) (HAL_GPIO_WritePin port (pinMask p) False g)))"

text \<open>\<open>1 << pinNumber\<close> is an \<open>int\<close> shift: defined below 32 only, then truncated to 16 bits.\<close>

definition configPin :: "pin \<Rightarrow> gpio \<Rightarrow> (pin \<times> gpio) option" where
  "configPin p g =
     (case char_at (portAndPin p) 0 of None \<Rightarrow> None
      | Some c0 \<Rightarrow>
        if c0 \<noteq> 80 then Some (p, g)
        else (case (char_at (portAndPin p) 1, char_at (portAndPin p) 3, char_at (portAndPin p) 4) of
          (Some c1, Some c3, Some c4) \<Rightarrow>
            let idx = word_of_int (c1 - 65);
                num = word_of_int (c3 - 48);
                pin2 = word_of_int (c4 - 48) :: u16;
                num' = (if pin2 \<le> 8 then num * 10 + pin2 else num);
                p' = p\<lparr>portIndex := idx, pinNumber := num'\<rparr>
            in if num' < 32 \<and> idx < 8 then
                 let p'' = p'\<lparr>pinMask := ucast (push_bit (unat num') (1 :: u32)), GPIOx := Some (unat idx)\<rparr>
                 in map_option (\<lambda>g'. (p'', g')) (initPin p'' (g\<lparr>clocks := insert (unat idx) (clocks g)\<rparr>))
               else None
        | _ \<Rightarrow> None))"

definition blank_pin :: "string \<Rightarrow> int \<Rightarrow> gpio_mode \<Rightarrow> gpio_pull option \<Rightarrow> pin" where
  "blank_pin s d m pl = \<lparr>portAndPin = s, dir = d, mode = m, pull = pl, portIndex = 0, pinNumber = 0, pinMask = 0, GPIOx = None\<rparr>"

definition Pin2 :: "string \<Rightarrow> int \<Rightarrow> gpio \<Rightarrow> (pin \<times> gpio) option" where
  "Pin2 s d g = configPin (blank_pin s d (if d = 0 then GPIO_MODE_INPUT else GPIO_MODE_OUTPUT_PP) (Some GPIO_NOPULL)) g"

definition Pin3 :: "string \<Rightarrow> int \<Rightarrow> nat \<Rightarrow> gpio \<Rightarrow> (pin \<times> gpio) option" where
  "Pin3 s d modifier g = configPin
     (if d = 0 then blank_pin s d GPIO_MODE_INPUT
        (if modifier = PULLUP then Some GPIO_PULLUP
         else if modifier = PULLDOWN then Some GPIO_PULLDOWN
         else if modifier = NONE \<or> modifier = PULLNONE then Some GPIO_NOPULL
         else None)
      else blank_pin s d GPIO_MODE_OUTPUT_PP (Some GPIO_NOPULL)) g"

definition pin_set :: "pin \<Rightarrow> bool \<Rightarrow> gpio \<Rightarrow> gpio option" where
  "pin_set p v g = (case GPIOx p of None \<Rightarrow> None | Some port \<Rightarrow> Some (HAL_GPIO_WritePin port (pinMask p) v g))"

definition pin_get :: "pin \<Rightarrow> gpio \<Rightarrow> bool option" where
  "pin_get p g = (case GPIOx p of None \<Rightarrow> None | Some port \<Rightarrow> Some (HAL_GPIO_ReadPin port (pinMask p) g))"

definition setAsOutput :: "pin \<Rightarrow> gpio \<Rightarrow> (pin \<times> gpio) option" where
  "setAsOutput p g = (let p' = p\<lparr>mode := GPIO_MODE_OUTPUT_PP, pull := Some GPIO_NOPULL\<rparr> in map_option (Pair p') (initPin p' g))"

definition setAsInput :: "pin \<Rightarrow> gpio \<Rightarrow> (pin \<times> gpio) option" where
  "setAsInput p g = (let p' = p\<lparr>mode := GPIO_MODE_INPUT, pull := Some GPIO_NOPULL\<rparr> in map_option (Pair p') (initPin p' g))"

definition pull_none :: "pin \<Rightarrow> gpio \<Rightarrow> (pin \<times> gpio) option" where
  "pull_none p g = (let p' = p\<lparr>pull := Some GPIO_NOPULL\<rparr> in map_option (Pair p') (initPin p' g))"

definition pull_up :: "pin \<Rightarrow> gpio \<Rightarrow> (pin \<times> gpio) option" where
  "pull_up p g = (let p' = p\<lparr>pull := Some GPIO_PULLUP\<rparr> in map_option (Pair p') (initPin p' g))"

definition pull_down :: "pin \<Rightarrow> gpio \<Rightarrow> (pin \<times> gpio) option" where
  "pull_down p g = (let p' = p\<lparr>pull := Some GPIO_PULLDOWN\<rparr> in map_option (Pair p') (initPin p' g))"

subsection \<open>Names and pins\<close>

definition digit :: "nat \<Rightarrow> char" where
  "digit n = char_of (48 + n)"

definition pin_name :: "nat \<Rightarrow> nat \<Rightarrow> string" where
  "pin_name port n = [CHR ''P'', char_of (65 + port), CHR ''_''] @ (if n < 10 then [digit n] else [digit (n div 10), digit (n mod 10)])"

definition pin_name2 :: "nat \<Rightarrow> nat \<Rightarrow> string" where
  "pin_name2 port n = [CHR ''P'', char_of (65 + port), CHR ''_'', digit (n div 10), digit (n mod 10)]"

lemma char_at_pin_name:
  assumes "port < 8" "n < 16"
  shows "char_at (pin_name port n) 0 = Some 80" "char_at (pin_name port n) 1 = Some (65 + int port)"
    "char_at (pin_name port n) 3 = Some (48 + int (if n < 10 then n else n div 10))"
    "char_at (pin_name port n) 4 = Some (if n < 10 then 0 else 48 + int (n mod 10))"
  using assms by (auto simp: char_at_def pin_name_def digit_def)

lemma char_at_pin_name2:
  assumes "port < 8" "n < 16"
  shows "char_at (pin_name2 port n) 0 = Some 80" "char_at (pin_name2 port n) 1 = Some (65 + int port)"
    "char_at (pin_name2 port n) 3 = Some (48 + int (n div 10))"
    "char_at (pin_name2 port n) 4 = Some (48 + int (n mod 10))"
  using assms by (auto simp: char_at_def pin_name2_def digit_def)

lemma configPin_eq:
  assumes "char_at (portAndPin p) 0 = Some 80" "char_at (portAndPin p) 1 = Some (65 + int port)"
    "char_at (portAndPin p) 3 = Some (48 + int a)" "char_at (portAndPin p) 4 = Some c"
    and c: "c = 0 \<and> n = a \<or> c = 48 + int b \<and> b \<le> 8 \<and> n = 10 * a + b"
    and "port < 8" "n < 16"
  shows "configPin p g = (let p' = p\<lparr>portIndex := of_nat port, pinNumber := of_nat n,
      pinMask := push_bit n 1, GPIOx := Some port\<rparr>
    in map_option (\<lambda>g'. (p', g')) (initPin p' (g\<lparr>clocks := insert port (clocks g)\<rparr>)))"
proof -
  have idx: "unat (of_nat port :: u8) = port" using \<open>port < 8\<close> by (simp add: unat_of_nat)
  have idx8: "(of_nat port :: u8) < 8" using \<open>port < 8\<close> idx by (simp add: word_less_nat_alt)
  have num: "(if word_of_int (c - 48) \<le> (8 :: u16) then of_nat a * 10 + word_of_int (c - 48) else of_nat a) = (of_nat n :: u16)"
  proof -
    from c consider (single) "c = 0" "n = a" | (two) "c - 48 = int b" "b \<le> 8" "n = 10 * a + b" by fastforce
    then show ?thesis
    proof cases
      case two
      have "(of_nat b :: u16) \<le> 8" using two(2) by (simp add: word_le_nat_alt unat_of_nat)
      then show ?thesis using two by (simp add: mult.commute)
    qed (simp add: word_le_nat_alt)
  qed
  have n: "unat (of_nat n :: u16) = n" using \<open>n < 16\<close> by (simp add: unat_of_nat)
  have n32: "(of_nat n :: u16) < 32" using \<open>n < 16\<close> n by (simp add: word_less_nat_alt)
  have mk: "ucast (push_bit n (1 :: u32)) = (push_bit n 1 :: u16)"
    using \<open>n < 16\<close> by (intro bit_word_eqI) (auto simp: bit_simps)
  have num': "word_of_int c - 48 \<le> (8 :: u16) \<Longrightarrow> of_nat a * 10 + (word_of_int c - 48) = (of_nat n :: u16)"
    "\<not> word_of_int c - 48 \<le> (8 :: u16) \<Longrightarrow> of_nat a = (of_nat n :: u16)"
    using num by (simp_all split: if_splits)
  show ?thesis
    using assms(1-4) idx8 n32 by (simp add: configPin_def Let_def num' idx n mk [simplified])
qed

text \<open>The result of configuring the pin \<open>n\<close> of a port by name.\<close>

definition named_pin :: "pin \<Rightarrow> nat \<Rightarrow> nat \<Rightarrow> pin" where
  "named_pin p port n = p\<lparr>portIndex := of_nat port, pinNumber := of_nat n, pinMask := push_bit n 1, GPIOx := Some port\<rparr>"

lemma configPin_name:
  assumes "port < 8" "n < 16" "portAndPin p = pin_name port n \<or> portAndPin p = pin_name2 port n \<and> n \<noteq> 9"
  shows "configPin p g = map_option (Pair (named_pin p port n)) (initPin (named_pin p port n) (g\<lparr>clocks := insert port (clocks g)\<rparr>))"
  using assms(3)
proof
  assume s: "portAndPin p = pin_name port n"
  have "\<not> n < 10 \<Longrightarrow> n mod 10 \<le> 8" using assms(2) by presburger
  then show ?thesis
    using configPin_eq [of p port "if n < 10 then n else n div 10" "if n < 10 then 0 else 48 + int (n mod 10)" n "n mod 10" g]
      char_at_pin_name [OF assms(1,2)] assms(1,2)
    by (simp add: s Let_def named_pin_def split: if_splits)
next
  assume s: "portAndPin p = pin_name2 port n \<and> n \<noteq> 9"
  then have "n \<noteq> 9" by simp
  then have "n mod 10 \<le> 8" using assms(2) by presburger
  then show ?thesis
    using configPin_eq [of p port "n div 10" "48 + int (n mod 10)" n "n mod 10" g]
      char_at_pin_name2 [OF assms(1,2)] assms(1,2)
    by (simp add: s Let_def named_pin_def)
qed

lemma named_pin_simps [simp]:
  "GPIOx (named_pin p port n) = Some port" "pinMask (named_pin p port n) = push_bit n 1"
  "mode (named_pin p port n) = mode p" "pull (named_pin p port n) = pull p"
  by (simp_all add: named_pin_def)

lemma bit_write_pin:
  assumes "n < 16"
  shows "bit (odr (HAL_GPIO_WritePin port (push_bit n 1) v g) q) m
    = (if q = port \<and> m = n then v else bit (odr g q) m)"
  using assms by (auto simp: HAL_GPIO_WritePin_def bit_simps dest: bit_u16_high)

text \<open>For every port \<open>A\<close> to \<open>H\<close> and pin 0 to 15, the name \<open>Px_n\<close> and, except for pin 9, the padded
  name \<open>Px_nn\<close> configure that pin: the
  pin object starts low and then drives exactly its own bit of its own port's output register.\<close>

theorem pin_by_name:
  assumes "port < 8" "n < 16" "s = pin_name port n \<or> s = pin_name2 port n \<and> n \<noteq> 9"
  shows "\<exists>p g' g''. Pin2 s d g = Some (p, g') \<and> \<not> bit (odr g' port) n \<and> pin_set p v g' = Some g''
    \<and> (\<forall>q m. bit (odr g'' q) m = (if q = port \<and> m = n then v else bit (odr g q) m))"
proof -
  let ?b = "blank_pin s d (if d = 0 then GPIO_MODE_INPUT else GPIO_MODE_OUTPUT_PP) (Some GPIO_NOPULL)"
  let ?p = "named_pin ?b port n"
  let ?g' = "HAL_GPIO_Init port (push_bit n 1) (mode ?b) (pull ?b)
    (HAL_GPIO_WritePin port (push_bit n 1) False (g\<lparr>clocks := insert port (clocks g)\<rparr>))"
  have "Pin2 s d g = Some (?p, ?g')"
    using assms by (simp add: Pin2_def configPin_name [OF assms(1,2)] initPin_def blank_pin_def)
  moreover have "pin_set ?p v ?g' = Some (HAL_GPIO_WritePin port (push_bit n 1) v ?g')"
    by (simp add: pin_set_def)
  moreover have odr: "odr ?g' = odr (HAL_GPIO_WritePin port (push_bit n 1) False g)"
    by (simp add: HAL_GPIO_Init_def HAL_GPIO_WritePin_def)
  moreover have "\<not> bit (odr ?g' port) n" by (simp only: odr bit_write_pin [OF assms(2)]) simp
  moreover have "bit (odr (HAL_GPIO_WritePin port (push_bit n 1) v ?g') q) m = (if q = port \<and> m = n then v else bit (odr g q) m)" for q m
    by (simp only: bit_write_pin [OF assms(2)] odr) simp
  ultimately show ?thesis by blast
qed

theorem pin_by_name_witness:
  "\<exists>p g' g''. Pin2 ''PC_13'' 1 \<lparr>odr = \<lambda>_. 0, idr = \<lambda>_. 0, clocks = {}, config = \<lambda>_ _. None\<rparr> = Some (p, g')
    \<and> \<not> bit (odr g' 2) 13 \<and> pin_set p True g' = Some g''
    \<and> bit (odr g'' 2) 13 \<and> \<not> bit (odr g'' 2) 12"
proof -
  have s: "''PC_13'' = pin_name 2 13" by code_simp
  let ?g = "\<lparr>odr = \<lambda>_. 0, idr = \<lambda>_. 0, clocks = {}, config = \<lambda>_ _. None\<rparr>"
  obtain p g' g'' where r: "Pin2 ''PC_13'' 1 ?g = Some (p, g')" "\<not> bit (odr g' 2) 13" "pin_set p True g' = Some g''"
    "\<And>q m. bit (odr g'' q) m = (if q = 2 \<and> m = 13 then True else bit (odr ?g q) m)"
    using pin_by_name [of 2 13 "''PC_13''" 1 ?g True] s by auto
  show ?thesis using r(1-3) r(4) [of 2 13] r(4) [of 2 12] by auto
qed

text \<open>The second digit is taken for a digit only up to 8, so the padded name of pin 9 of any port is
  read as pin 0: the pin object for \<open>Px_09\<close> drives the line of pin 0.\<close>

theorem padded_nine_is_pin_zero:
  assumes "port < 8"
  shows "\<exists>p g'. Pin2 (pin_name2 port 9) d g = Some (p, g') \<and> pinMask p = 1 \<and> GPIOx p = Some port"
proof -
  let ?b = "blank_pin (pin_name2 port 9) d (if d = 0 then GPIO_MODE_INPUT else GPIO_MODE_OUTPUT_PP) (Some GPIO_NOPULL)"
  have "(9 :: u16) \<le> 8 \<longleftrightarrow> False" by simp
  moreover have "unat (of_nat port :: u8) = port" using assms by (simp add: unat_of_nat)
  moreover have "(of_nat port :: u8) < 8" using assms by (simp add: word_less_nat_alt unat_of_nat)
  ultimately show ?thesis
    using char_at_pin_name2 [OF assms, of 9] assms
    by (simp add: Pin2_def configPin_def blank_pin_def Let_def initPin_def)
qed

theorem padded_nine_is_pin_zero_witness:
  "\<exists>p g'. Pin2 (pin_name2 0 9) 1 \<lparr>odr = \<lambda>_. 0, idr = \<lambda>_. 0, clocks = {}, config = \<lambda>_ _. None\<rparr> = Some (p, g')
    \<and> pinMask p = 1 \<and> GPIOx p = Some 0"
  using padded_nine_is_pin_zero [of 0 1 "\<lparr>odr = \<lambda>_. 0, idr = \<lambda>_. 0, clocks = {}, config = \<lambda>_ _. None\<rparr>"] by simp

end
