(* ===== verification/Pwm.thy ===== *)
theory Pwm
  imports CFloat HostLink
begin

unbundle bit_operations_syntax

text \<open>
  The PWM module (\<open>Src/modules/pwm\<close>) and the timer driver under it
  (\<open>Src/drivers/HardwarePwm\<close>). A timer is its auto-reload register, its four compare registers,
  its prescaler and its enable bits; the clock tree is a parameter (\<open>rcc\<close>). Tick counts are
  \<open>uint32_t\<close> and wrap; set points are the floats of the packet.
\<close>

subsection \<open>Timers and clocks\<close>

record rcc =
  PCLK1Freq :: u32
  PCLK2Freq :: u32
  CFGR_PPRE1 :: u32
  CFGR_PPRE2 :: u32

record tim =
  ARR :: u32
  PSC :: u32
  CCR :: "nat \<Rightarrow> u32"
  CCER :: "nat set"
  CEN :: bool
  UG :: bool

type_synonym timers = "nat \<Rightarrow> tim"

record pwm_board =
  tims :: timers
  tim_clocks :: "nat set"
  gpio_clocks :: "nat set"
  pin_af :: "nat \<times> nat \<Rightarrow> string option"

record PWM_Enabled_Pin =
  pwm_pin_name :: string
  gpio_port :: nat
  gpio_pin :: nat
  timer :: nat
  channel :: nat

definition pwm_pin :: "string \<Rightarrow> nat \<Rightarrow> nat \<Rightarrow> nat \<Rightarrow> nat \<Rightarrow> PWM_Enabled_Pin" where
  "pwm_pin s port n t ch = \<lparr>pwm_pin_name = s, gpio_port = port, gpio_pin = n, timer = t, channel = ch\<rparr>"

definition pwm_enabled_pins :: "PWM_Enabled_Pin list" where
  "pwm_enabled_pins =
    [pwm_pin ''PA_8'' 0 8 1 1, pwm_pin ''PA_9'' 0 9 1 2, pwm_pin ''PA_10'' 0 10 1 3, pwm_pin ''PA_11'' 0 11 1 4,
     pwm_pin ''PA_0'' 0 0 2 1, pwm_pin ''PA_1'' 0 1 2 2, pwm_pin ''PB_10'' 1 10 2 3, pwm_pin ''PB_2'' 1 2 2 4,
     pwm_pin ''PC_6'' 2 6 3 1, pwm_pin ''PC_7'' 2 7 3 2, pwm_pin ''PB_0'' 1 0 3 3, pwm_pin ''PB_1'' 1 1 3 4]"

fun find_pin :: "PWM_Enabled_Pin list \<Rightarrow> string \<Rightarrow> PWM_Enabled_Pin option" where
  "find_pin [] s = None"
| "find_pin (p # ps) s = (if s = pwm_pin_name p then Some p else find_pin ps s)"

definition find_compatible_pwm_pin :: "string \<Rightarrow> PWM_Enabled_Pin option" where
  "find_compatible_pwm_pin s = (if pwm_enabled_pins = [] then None else find_pin pwm_enabled_pins s)"

definition get_timer_clk_freq :: "rcc \<Rightarrow> nat \<Rightarrow> u32" where
  "get_timer_clk_freq r t =
     (if t \<in> {1, 8, 9, 10, 11} then PCLK2Freq r * (if CFGR_PPRE2 r < 4 then 1 else 2)
      else PCLK1Freq r * (if CFGR_PPRE1 r < 4 then 1 else 2))"

subsection \<open>HardwarePWM\<close>

text \<open>\<open>Init_Period\<close> and \<open>Init_Prescaler\<close> are the fields of the object's own timer handle.\<close>

record hwpwm =
  configured_pin :: PWM_Enabled_Pin
  Init_Period :: u32
  Init_Prescaler :: u32
  timer_clk_hz :: u32

definition set_tim :: "nat \<Rightarrow> (tim \<Rightarrow> tim) \<Rightarrow> timers \<Rightarrow> timers" where
  "set_tim t f ts = ts(t := f (ts t))"

definition TIM_DISABLE :: "tim \<Rightarrow> tim" where
  "TIM_DISABLE r = (if CCER r = {} then r\<lparr>CEN := False\<rparr> else r)"

text \<open>\<open>None\<close> is the division by a zero prescaler.\<close>

definition ticks_of_us :: "hwpwm \<Rightarrow> i32 \<Rightarrow> u32 option" where
  "ticks_of_us h us = (if Init_Prescaler h + 1 = 0 then None
     else Some ((timer_clk_hz h div (Init_Prescaler h + 1) * us) div 1000000))"

definition change_period :: "hwpwm \<Rightarrow> i32 \<Rightarrow> timers \<Rightarrow> (hwpwm \<times> timers) option" where
  "change_period h new_period_us ts =
     (case ticks_of_us h new_period_us of None \<Rightarrow> None
      | Some ticks \<Rightarrow>
        let period_ticks = (if ticks < 1 then 1 else ticks);
            t = timer (configured_pin h);
            ch = channel (configured_pin h);
            ts1 = set_tim t TIM_DISABLE ts;
            ts2 = set_tim t (\<lambda>r. r\<lparr>ARR := period_ticks - 1\<rparr>) ts1;
            ts3 = (if CCR (ts2 t) ch > period_ticks - 1
                   then set_tim t (\<lambda>r. r\<lparr>CCR := (CCR r)(ch := period_ticks - 1)\<rparr>) ts2 else ts2);
            ts4 = set_tim t (\<lambda>r. r\<lparr>UG := True\<rparr>) ts3;
            ts5 = set_tim t (\<lambda>r. r\<lparr>CEN := True\<rparr>) ts4
        in Some (h\<lparr>Init_Period := period_ticks - 1\<rparr>, ts5))"

definition change_pulsewidth :: "hwpwm \<Rightarrow> i32 \<Rightarrow> timers \<Rightarrow> timers option" where
  "change_pulsewidth h new_pulsewidth_us ts =
     (case ticks_of_us h new_pulsewidth_us of None \<Rightarrow> None
      | Some ticks \<Rightarrow>
        let t1 = (if ticks < 1 then 0 else ticks);
            t2 = (if t1 > Init_Period h then Init_Period h else t1)
        in Some (set_tim (timer (configured_pin h)) (\<lambda>r. r\<lparr>CCR := (CCR r)(channel (configured_pin h) := t2)\<rparr>) ts))"

text \<open>The three initialisation steps; the HAL calls they make are the register writes shown. They take effect
  at once, since \<open>main_init\<close> (\<open>Src/main_init.c\<close>) has enabled the clocks of timers 1 to 4 before; \<open>initialise_pwm_pins\<close> enables them again.\<close>

definition initialise_timers :: "rcc \<Rightarrow> hwpwm \<Rightarrow> pwm_board \<Rightarrow> hwpwm \<times> pwm_board" where
  "initialise_timers r h b =
     (let clk = get_timer_clk_freq r (timer (configured_pin h));
          h' = h\<lparr>timer_clk_hz := clk, Init_Prescaler := clk div 1000000 - 1, Init_Period := 0\<rparr>
      in (h', b\<lparr>tims := set_tim (timer (configured_pin h))
                 (\<lambda>x. x\<lparr>ARR := Init_Period h', PSC := Init_Prescaler h', UG := True\<rparr>) (tims b)\<rparr>))"

definition initialise_pwm_channels :: "hwpwm \<Rightarrow> pwm_board \<Rightarrow> pwm_board" where
  "initialise_pwm_channels h b =
     b\<lparr>tims := set_tim (timer (configured_pin h))
        (\<lambda>x. x\<lparr>CCR := (CCR x)(channel (configured_pin h) := Init_Period h div 2)\<rparr>) (tims b)\<rparr>"

definition initialise_pwm_pins :: "hwpwm \<Rightarrow> pwm_board \<Rightarrow> pwm_board" where
  "initialise_pwm_pins h b =
     (let t = timer (configured_pin h);
          port = gpio_port (configured_pin h);
          b1 = (if t \<in> {1, 2, 3, 4} then
                  b\<lparr>gpio_clocks := (if port < 7 then insert port (gpio_clocks b) else gpio_clocks b),
                    pin_af := (pin_af b)((port, gpio_pin (configured_pin h)) :=
                      Some (if t = 1 then ''GPIO_AF1_TIM1'' else if t = 2 then ''GPIO_AF1_TIM2''
                            else if t = 3 then ''GPIO_AF2_TIM3'' else if t = 4 then ''GPIO_AF2_TIM4'' else ''GPIO_AF1_TIM1''))\<rparr>
                else b);
          b2 = (if t \<in> {1, 2, 3, 4} then b1\<lparr>tim_clocks := insert t (tim_clocks b1)\<rparr> else b1)
      in b2\<lparr>tims := set_tim t (\<lambda>x. x\<lparr>CCER := insert (channel (configured_pin h)) (CCER x), CEN := True\<rparr>) (tims b2)\<rparr>)"

text \<open>The constructor dereferences the null pointer when the pin has no timer: \<open>None\<close>.\<close>

definition HardwarePWM_ctor :: "rcc \<Rightarrow> i32 \<Rightarrow> i32 \<Rightarrow> string \<Rightarrow> pwm_board \<Rightarrow> (hwpwm \<times> pwm_board) option" where
  "HardwarePWM_ctor r period_us width_us s b =
     (case find_compatible_pwm_pin s of None \<Rightarrow> None
      | Some p \<Rightarrow>
        let (h, b1) = initialise_timers r \<lparr>configured_pin = p, Init_Period = 0, Init_Prescaler = 0, timer_clk_hz = 0\<rparr> b;
            b2 = initialise_pwm_pins h (initialise_pwm_channels h b1)
        in (case change_period h period_us (tims b2) of None \<Rightarrow> None
           | Some (h', ts) \<Rightarrow>
             (case change_pulsewidth h' width_us ts of None \<Rightarrow> None
              | Some ts' \<Rightarrow> Some (h', b2\<lparr>tims := ts'\<rparr>))))"

definition HardwarePWM_dtor :: "hwpwm \<Rightarrow> pwm_board \<Rightarrow> pwm_board" where
  "HardwarePWM_dtor h b =
     (if timer (configured_pin h) \<in> {1, 2, 3, 4} then b\<lparr>tim_clocks := tim_clocks b - {timer (configured_pin h)}\<rparr> else b)"


subsection \<open>The PWM module\<close>

text \<open>The module reads its set points through pointers into \<open>rxPingPongBuffer.rxBuffers[0]\<close>; they are
  modelled by the index of the set point, and \<open>set_point\<close> reads that buffer whichever buffer is
  current.\<close>

definition DEFAULT_PWM_PERIOD :: int where "DEFAULT_PWM_PERIOD = 100"
definition PWMMAX :: int where "PWMMAX = 256"

record pwm =
  pwm_pin_str :: string
  pwmMax :: int
  hardware_PWM :: hwpwm
  ptrPwmPeriod :: nat
  ptrPwmPulseWidth :: nat
  pwmPeriod_us :: fval
  pwmPulseWidth :: fval
  pwmPulseWidth_us :: int
  variable_freq :: bool

definition set_point :: "RxPingPongBuffer \<Rightarrow> nat \<Rightarrow> fval" where
  "set_point b i = f32_of_bits (rx_setPoint (deref b 0) i)"

text \<open>\<open>(period * percent) / 100.0\<close>: the product in \<open>float\<close>, the quotient in \<open>double\<close>.\<close>

definition percent_us :: "fval \<Rightarrow> fval \<Rightarrow> int option" where
  "percent_us period percent = fto_int (fdiv binary64 (fmul binary32 period percent) (FFin 100))"

definition PWM_ctor :: "rcc \<Rightarrow> (nat \<Rightarrow> fval) \<Rightarrow> nat \<Rightarrow> nat \<Rightarrow> bool \<Rightarrow> int \<Rightarrow> int \<Rightarrow> string
    \<Rightarrow> pwm_board \<Rightarrow> (pwm \<times> pwm_board) option" where
  "PWM_ctor r sp ptrPeriod ptrWidth variable fixed_period_us mx s b =
     (let period0 = (if variable then sp ptrPeriod else fof_int binary32 fixed_period_us);
          period = (if fless period0 (FFin 1) then fof_int binary32 DEFAULT_PWM_PERIOD else period0);
          width = sp ptrWidth
      in case percent_us period width of None \<Rightarrow> None
       | Some width_us \<Rightarrow>
         (case fto_int period of None \<Rightarrow> None
          | Some period_us \<Rightarrow>
            (case HardwarePWM_ctor r (of_int period_us) (of_int width_us) s b of None \<Rightarrow> None
             | Some (h, b') \<Rightarrow> Some (\<lparr>pwm_pin_str = s, pwmMax = mx, hardware_PWM = h, ptrPwmPeriod = ptrPeriod,
                 ptrPwmPulseWidth = ptrWidth, pwmPeriod_us = period, pwmPulseWidth = width,
                 pwmPulseWidth_us = width_us, variable_freq = variable\<rparr>, b'))))"

definition setPwmMax :: "int \<Rightarrow> pwm \<Rightarrow> pwm" where
  "setPwmMax mx p = p\<lparr>pwmMax := mx\<rparr>"

text \<open>\<open>createPWM\<close>: the keys of the module's JSON object are the arguments (\<open>SP[i]\<close>,
  \<open>PWM Max\<close>, \<open>PWM Pin\<close>, \<open>Variable Freq\<close>, \<open>Period SP[i]\<close>, \<open>Period us\<close>); an index outside of
  the set points writes out of the pointer array's bounds.\<close>

definition createPWM :: "rcc \<Rightarrow> (nat \<Rightarrow> fval) \<Rightarrow> int \<Rightarrow> int \<Rightarrow> string \<Rightarrow> string \<Rightarrow> int \<Rightarrow> int
    \<Rightarrow> pwm_board \<Rightarrow> (pwm \<times> pwm_board) option" where
  "createPWM r sps sp mx s variable period_sp period_us b =
     (if sp < 0 \<or> int VARIABLES \<le> sp \<or> period_sp < 0 \<or> int VARIABLES \<le> period_sp then None
      else case PWM_ctor r sps (nat period_sp) (nat sp) (variable = ''True'') period_us mx s b of
        None \<Rightarrow> None | Some (p, b') \<Rightarrow> Some (setPwmMax mx p, b'))"

text \<open>The two blocks of \<open>PWM::update\<close>.\<close>

definition update_period :: "(nat \<Rightarrow> fval) \<Rightarrow> pwm \<Rightarrow> timers \<Rightarrow> (pwm \<times> timers) option" where
  "update_period sp p ts =
     (if variable_freq p \<and> \<not> feq (sp (ptrPwmPeriod p)) (FFin 0) \<and> \<not> feq (sp (ptrPwmPeriod p)) (pwmPeriod_us p)
      then let p1 = p\<lparr>pwmPeriod_us := sp (ptrPwmPeriod p)\<rparr>
        in case fto_int (pwmPeriod_us p1) of None \<Rightarrow> None
           | Some us \<Rightarrow>
             (case change_period (hardware_PWM p1) (of_int us) ts of None \<Rightarrow> None
              | Some (h, ts') \<Rightarrow> Some (p1\<lparr>hardware_PWM := h, pwmPulseWidth := FFin 0\<rparr>, ts'))
      else Some (p, ts))"

definition clamp_percent :: "fval \<Rightarrow> fval" where
  "clamp_percent w = (let w1 = (if fle w (FFin 0) then FFin 0 else w)
     in if fless (FFin 100) w1 then FFin 100 else w1)"

definition capped :: "int \<Rightarrow> fval \<Rightarrow> bool" where
  "capped mx w \<longleftrightarrow> 0 < mx \<and>
     fless (fof_int binary32 mx) (fmul binary32 (fdiv binary32 w (FFin 100)) (fof_int binary32 PWMMAX))"

definition update_width :: "(nat \<Rightarrow> fval) \<Rightarrow> pwm \<Rightarrow> timers \<Rightarrow> (pwm \<times> timers) option" where
  "update_width sp p ts =
     (if \<not> feq (sp (ptrPwmPulseWidth p)) (pwmPulseWidth p)
      then let p1 = p\<lparr>pwmPulseWidth := clamp_percent (sp (ptrPwmPulseWidth p))\<rparr>
        in case (if capped (pwmMax p1) (pwmPulseWidth p1)
                 then percent_us (pwmPeriod_us p1) (fof_int binary32 (pwmMax p1 * 100 div PWMMAX))
                 else percent_us (pwmPeriod_us p1) (pwmPulseWidth p1)) of None \<Rightarrow> None
           | Some us \<Rightarrow>
             (case change_pulsewidth (hardware_PWM p1) (of_int us) ts of None \<Rightarrow> None
              | Some ts' \<Rightarrow> Some (p1\<lparr>pwmPulseWidth_us := us\<rparr>, ts'))
      else Some (p, ts))"

definition PWM_update :: "(nat \<Rightarrow> fval) \<Rightarrow> pwm \<Rightarrow> timers \<Rightarrow> (pwm \<times> timers) option" where
  "PWM_update sp p ts = Option.bind (update_period sp p ts) (\<lambda>(p1, ts1). update_width sp p1 ts1)"

subsection \<open>Compare and reload registers\<close>

text \<open>What one object keeps about its own timer: the cached period is the reload value, and its own
  compare value is never beyond it (a compare value the counter cannot reach would keep the
  output on).\<close>

definition hwpwm_ok :: "hwpwm \<Rightarrow> timers \<Rightarrow> bool" where
  "hwpwm_ok h ts \<longleftrightarrow> ARR (ts (timer (configured_pin h))) = Init_Period h
     \<and> CCR (ts (timer (configured_pin h))) (channel (configured_pin h)) \<le> Init_Period h"

lemma CCR_TIM_DISABLE [simp]: "CCR (TIM_DISABLE r) = CCR r"
  by (simp add: TIM_DISABLE_def)

text \<open>What a change of period leaves in the registers of the timer.\<close>

lemma change_period_regs:
  assumes "change_period h us ts = Some (h', ts')"
  obtains t where "ticks_of_us h us = Some t"
    and "ARR (ts' (timer (configured_pin h))) = (if t < 1 then 1 else t) - 1"
    and "CCR (ts' (timer (configured_pin h))) (channel (configured_pin h))
      = min (CCR (ts (timer (configured_pin h))) (channel (configured_pin h))) (ARR (ts' (timer (configured_pin h))))"
    and "\<And>c. c \<noteq> channel (configured_pin h) \<Longrightarrow>
      CCR (ts' (timer (configured_pin h))) c = CCR (ts (timer (configured_pin h))) c"
    and "h' = h\<lparr>Init_Period := ARR (ts' (timer (configured_pin h)))\<rparr>"
proof -
  obtain t where t: "ticks_of_us h us = Some t"
    using assms by (auto simp: change_period_def split: option.splits)
  let ?tm = "timer (configured_pin h)" and ?ch = "channel (configured_pin h)"
  define k where "k = (if t < 1 then 1 else t) - 1"
  have ts': "ts' ?tm = (if k < CCR (ts ?tm) ?ch
      then (TIM_DISABLE (ts ?tm))\<lparr>ARR := k, CCR := (CCR (ts ?tm))(?ch := k), UG := True, CEN := True\<rparr>
      else (TIM_DISABLE (ts ?tm))\<lparr>ARR := k, UG := True, CEN := True\<rparr>)"
    and h': "h' = h\<lparr>Init_Period := k\<rparr>"
    using assms t unfolding k_def by (auto simp: change_period_def set_tim_def Let_def)
  show ?thesis
  proof (rule that [OF t])
    show "ARR (ts' ?tm) = (if t < 1 then 1 else t) - 1" by (simp add: ts' k_def)
    show "CCR (ts' ?tm) ?ch = min (CCR (ts ?tm) ?ch) (ARR (ts' ?tm))" by (auto simp: ts' min_def not_less)
    show "CCR (ts' ?tm) c = CCR (ts ?tm) c" if "c \<noteq> ?ch" for c using that by (simp add: ts')
    show "h' = h\<lparr>Init_Period := ARR (ts' ?tm)\<rparr>" by (simp add: h' ts')
  qed
qed

lemma change_period_ok: "change_period h us ts = Some (h', ts') \<Longrightarrow> hwpwm_ok h' ts' \<and> configured_pin h' = configured_pin h"
  by (auto simp: change_period_def hwpwm_ok_def set_tim_def TIM_DISABLE_def Let_def not_less split: option.splits)

lemma change_pulsewidth_ok: "hwpwm_ok h ts \<Longrightarrow> change_pulsewidth h us ts = Some ts' \<Longrightarrow> hwpwm_ok h ts'"
  by (auto simp: change_pulsewidth_def hwpwm_ok_def set_tim_def Let_def split: option.splits)

lemma update_period_ok:
  "hwpwm_ok (hardware_PWM p) ts \<Longrightarrow> update_period sp p ts = Some (p', ts') \<Longrightarrow> hwpwm_ok (hardware_PWM p') ts'"
  by (auto simp: update_period_def Let_def dest: change_period_ok split: if_splits option.splits)

lemma update_width_ok:
  "hwpwm_ok (hardware_PWM p) ts \<Longrightarrow> update_width sp p ts = Some (p', ts') \<Longrightarrow> hwpwm_ok (hardware_PWM p') ts'"
  by (auto simp: update_width_def Let_def dest: change_pulsewidth_ok split: if_splits option.splits)

lemma HardwarePWM_ctor_ok: "HardwarePWM_ctor r us w s b = Some (h, b') \<Longrightarrow> hwpwm_ok h (tims b')"
  by (auto simp: HardwarePWM_ctor_def Let_def dest!: change_period_ok dest: change_pulsewidth_ok split: option.splits prod.splits)

lemma PWM_ctor_ok: "PWM_ctor r sp i j v us mx s b = Some (p, b') \<Longrightarrow> hwpwm_ok (hardware_PWM p) (tims b')"
  by (auto simp: PWM_ctor_def Let_def dest!: HardwarePWM_ctor_ok split: option.splits prod.splits if_splits)

lemma PWM_update_ok:
  "hwpwm_ok (hardware_PWM p) ts \<Longrightarrow> PWM_update sp p ts = Some (p', ts') \<Longrightarrow> hwpwm_ok (hardware_PWM p') ts'"
  by (auto simp: PWM_update_def bind_eq_Some_conv dest: update_period_ok update_width_ok)

lemma createPWM_ok: "createPWM r sps sp mx s v period_sp us b = Some (p, b') \<Longrightarrow> hwpwm_ok (hardware_PWM p) (tims b')"
  by (auto simp: createPWM_def setPwmMax_def dest!: PWM_ctor_ok split: if_splits option.splits)

text \<open>An output touches no timer but its own, and stays on its pin.\<close>

definition pwm_timer :: "pwm \<Rightarrow> nat" where "pwm_timer p = timer (configured_pin (hardware_PWM p))"

lemma change_period_frame:
  "change_period h us ts = Some (h', ts') \<Longrightarrow> configured_pin h' = configured_pin h \<and> (\<forall>t. t \<noteq> timer (configured_pin h) \<longrightarrow> ts' t = ts t)"
  by (auto simp: change_period_def set_tim_def Let_def split: option.splits)

lemma change_pulsewidth_frame: "change_pulsewidth h us ts = Some ts' \<Longrightarrow> t \<noteq> timer (configured_pin h) \<Longrightarrow> ts' t = ts t"
  by (auto simp: change_pulsewidth_def set_tim_def Let_def split: option.splits)

lemma initialise_frame:
  "t \<noteq> timer (configured_pin h) \<Longrightarrow> tims (snd (initialise_timers r h b)) t = tims b t"
  "t \<noteq> timer (configured_pin h) \<Longrightarrow> tims (initialise_pwm_channels h b) t = tims b t"
  "t \<noteq> timer (configured_pin h) \<Longrightarrow> tims (initialise_pwm_pins h b) t = tims b t"
  "configured_pin (fst (initialise_timers r h b)) = configured_pin h"
  by (simp_all add: initialise_timers_def initialise_pwm_channels_def initialise_pwm_pins_def set_tim_def Let_def)

lemma HardwarePWM_ctor_frame:
  assumes "HardwarePWM_ctor r us w s b = Some (h, b')" "t \<noteq> timer (configured_pin h)"
  shows "tims b' t = tims b t"
proof -
  obtain q h1 b1 ts ts' where p: "initialise_timers r \<lparr>configured_pin = q, Init_Period = 0, Init_Prescaler = 0, timer_clk_hz = 0\<rparr> b = (h1, b1)"
      "change_period h1 us (tims (initialise_pwm_pins h1 (initialise_pwm_channels h1 b1))) = Some (h, ts)" "change_pulsewidth h w ts = Some ts'"
      "tims b' = ts'"
    using assms(1) by (auto simp: HardwarePWM_ctor_def Let_def split: option.splits prod.splits)
  have "configured_pin h1 = q" "configured_pin h = q" using initialise_frame(4) [of r] p(1) change_period_frame [OF p(2)] by (metis fst_conv hwpwm.select_convs(1))+
  then show ?thesis using assms(2) p change_period_frame [OF p(2)] change_pulsewidth_frame [OF p(3)] initialise_frame(1) [of t _ r b]
    by (metis hwpwm.select_convs(1) initialise_frame(2,3) snd_conv)
qed

lemma createPWM_frame:
  "createPWM r sps sp mx s v period_sp us b = Some (p, b') \<Longrightarrow> t \<noteq> pwm_timer p \<Longrightarrow> tims b' t = tims b t"
  by (auto simp: createPWM_def PWM_ctor_def setPwmMax_def pwm_timer_def Let_def dest: HardwarePWM_ctor_frame split: if_splits option.splits)

lemma PWM_update_frame:
  assumes "PWM_update sp p ts = Some (p', ts')"
  shows "pwm_timer p' = pwm_timer p \<and> (\<forall>t. t \<noteq> pwm_timer p \<longrightarrow> ts' t = ts t)"
proof -
  obtain p1 ts1 where u: "update_period sp p ts = Some (p1, ts1)" "update_width sp p1 ts1 = Some (p', ts')"
    using assms by (auto simp: PWM_update_def bind_eq_Some_conv)
  have "pwm_timer p1 = pwm_timer p \<and> (\<forall>t. t \<noteq> pwm_timer p \<longrightarrow> ts1 t = ts t)"
    using u(1) by (auto simp: update_period_def pwm_timer_def Let_def dest!: change_period_frame split: if_splits option.splits)
  moreover have "pwm_timer p' = pwm_timer p1 \<and> (\<forall>t. t \<noteq> pwm_timer p1 \<longrightarrow> ts' t = ts1 t)"
    using u(2) by (auto simp: update_width_def pwm_timer_def Let_def dest: change_pulsewidth_frame split: if_splits option.splits)
  ultimately show ?thesis by simp
qed

text \<open>The outputs of a configuration, created one after the other on the board: the values of \<open>SP[i]\<close>, \<open>PWM Max\<close>, \<open>PWM Pin\<close>,
  \<open>Variable Freq\<close>, \<open>Period SP[i]\<close> and \<open>Period us\<close> of each; and updates of them, in any order, each with the set points of its time.\<close>

type_synonym pwm_config = "int \<times> int \<times> string \<times> string \<times> int \<times> int"

fun make_pwms :: "rcc \<Rightarrow> (nat \<Rightarrow> fval) \<Rightarrow> pwm_config list \<Rightarrow> pwm_board \<Rightarrow> (pwm list \<times> pwm_board) option" where
  "make_pwms r sps [] b = Some ([], b)"
| "make_pwms r sps ((sp, mx, s, v, period_sp, us) # cs) b =
     (case createPWM r sps sp mx s v period_sp us b of None \<Rightarrow> None
      | Some (p, b1) \<Rightarrow> map_option (\<lambda>(ps, b2). (p # ps, b2)) (make_pwms r sps cs b1))"

fun pwm_updates :: "(nat \<times> (nat \<Rightarrow> fval)) list \<Rightarrow> pwm list \<Rightarrow> timers \<Rightarrow> (pwm list \<times> timers) option" where
  "pwm_updates [] ps ts = Some (ps, ts)"
| "pwm_updates ((i, sp) # us) ps ts =
     (if i < length ps then
        (case PWM_update sp (ps ! i) ts of None \<Rightarrow> None | Some (p, ts1) \<Rightarrow> pwm_updates us (ps[i := p]) ts1)
      else None)"

definition pwms_ok :: "pwm list \<Rightarrow> timers \<Rightarrow> bool" where
  "pwms_ok ps ts \<longleftrightarrow> (\<forall>p \<in> set ps. hwpwm_ok (hardware_PWM p) ts)"

lemma hwpwm_ok_cong: "ts (pwm_timer p) = ts' (pwm_timer p) \<Longrightarrow> hwpwm_ok (hardware_PWM p) ts \<longleftrightarrow> hwpwm_ok (hardware_PWM p) ts'"
  by (simp add: hwpwm_ok_def pwm_timer_def)

lemma make_pwms_frame: "make_pwms r sps cs b = Some (ps, b') \<Longrightarrow> t \<notin> pwm_timer ` set ps \<Longrightarrow> tims b' t = tims b t"
  by (induction r sps cs b arbitrary: ps rule: make_pwms.induct) (auto split: option.splits dest: createPWM_frame)

lemma make_pwms_ok: "make_pwms r sps cs b = Some (ps, b') \<Longrightarrow> distinct (map pwm_timer ps) \<Longrightarrow> pwms_ok ps (tims b')"
proof (induction r sps cs b arbitrary: ps rule: make_pwms.induct)
  case (2 r sps sp mx s v period_sp us cs b)
  then obtain p b1 qs where p: "createPWM r sps sp mx s v period_sp us b = Some (p, b1)" "make_pwms r sps cs b1 = Some (qs, b')" "ps = p # qs"
    by (auto split: option.splits)
  have "pwms_ok qs (tims b')" using 2(1) [OF p(1) refl p(2)] 2(3) p(3) by simp
  moreover have "tims b' (pwm_timer p) = tims b1 (pwm_timer p)" using make_pwms_frame [OF p(2)] 2(3) p(3) by simp
  then have "hwpwm_ok (hardware_PWM p) (tims b')" using createPWM_ok [OF p(1)] hwpwm_ok_cong by metis
  ultimately show ?case by (simp add: p(3) pwms_ok_def)
qed (simp add: pwms_ok_def)

lemma pwm_updates_ok:
  "pwm_updates us ps ts = Some (ps', ts') \<Longrightarrow> pwms_ok ps ts \<Longrightarrow> distinct (map pwm_timer ps) \<Longrightarrow>
     pwms_ok ps' ts' \<and> map pwm_timer ps' = map pwm_timer ps"
proof (induction us ps ts rule: pwm_updates.induct)
  case (2 i sp us ps ts)
  then obtain p ts1 where i: "i < length ps" "PWM_update sp (ps ! i) ts = Some (p, ts1)" "pwm_updates us (ps[i := p]) ts1 = Some (ps', ts')"
    by (auto split: if_splits option.splits)
  note f = PWM_update_frame [OF i(2)]
  have t: "map pwm_timer (ps[i := p]) = map pwm_timer ps" using f i(1) by (simp add: map_update) (metis list_update_id nth_map)
  have "hwpwm_ok (hardware_PWM q) ts1" if q: "q \<in> set (ps[i := p])" for q
  proof -
    obtain j where j: "j < length ps" "q = (ps[i := p]) ! j" using q by (auto simp: in_set_conv_nth)
    show ?thesis
    proof (cases "j = i")
      case True
      have "hwpwm_ok (hardware_PWM (ps ! i)) ts" using 2(3) i(1) by (simp add: pwms_ok_def)
      then show ?thesis using PWM_update_ok [OF _ i(2)] j True i(1) by simp
    next
      case False
      then have q: "q = ps ! j" using j by simp
      have "pwm_timer (ps ! j) \<noteq> pwm_timer (ps ! i)" using 2(4) False i(1) j(1) by (auto simp: distinct_conv_nth)
      then have "ts1 (pwm_timer q) = ts (pwm_timer q)" using f q by simp
      moreover have "hwpwm_ok (hardware_PWM q) ts" using 2(3) j(1) q by (simp add: pwms_ok_def)
      ultimately show ?thesis using hwpwm_ok_cong by metis
    qed
  qed
  then have ok: "pwms_ok (ps[i := p]) ts1" by (simp add: pwms_ok_def)
  have "distinct (map pwm_timer (ps[i := p]))" unfolding t by (rule 2(4))
  from 2(1) [OF i(1,2) refl i(3) ok this] show ?case using t by simp
qed simp

text \<open>C38: In a configuration whose PWM outputs are on different timers, from their creation on and through any updates of them, in
  any order and with any set points, the compare value of each output's channel never exceeds the reload value of its timer (the
  counter always reaches it). Outputs that share a timer, which the configuration allows, do not have this:
  \<open>pwm_shared_timer_clash\<close>.\<close>

theorem pwm_compare_in_range:
  assumes "make_pwms r sps cs b = Some (ps, b1)" "distinct (map (\<lambda>p. timer (configured_pin (hardware_PWM p))) ps)"
    and "pwm_updates us ps (tims b1) = Some (ps', ts)" "p \<in> set ps'"
  shows "CCR (ts (timer (configured_pin (hardware_PWM p)))) (channel (configured_pin (hardware_PWM p)))
    \<le> ARR (ts (timer (configured_pin (hardware_PWM p))))"
proof -
  have d: "distinct (map pwm_timer ps)" using assms(2) by (simp add: pwm_timer_def [abs_def])
  have "pwms_ok ps' ts" using pwm_updates_ok [OF assms(3) make_pwms_ok [OF assms(1) d] d] by blast
  then show ?thesis using assms(4) by (simp add: pwms_ok_def hwpwm_ok_def)
qed

subsection \<open>Ticks\<close>

lemma unat_ticks_1MHz:
  assumes "us < 2 ^ 31" "timer_clk_hz h div (Init_Prescaler h + 1) = 1000000"
    "ticks_of_us h (of_nat us) = Some t"
  shows "unat t = (1000000 * us) mod 2 ^ 32 div 1000000"
proof -
  have "t = (1000000 * of_nat us) div 1000000"
    using assms by (auto simp: ticks_of_us_def split: if_splits)
  moreover have "unat (1000000 * of_nat us :: u32) = (1000000 * us) mod 2 ^ 32"
    by (simp add: unat_word_ariths unat_of_nat mod_mult_right_eq)
  ultimately show ?thesis by (simp add: unat_div_distrib)
qed

lemma period_exact_iff:
  assumes "0 < us" "us < 2 ^ 31" "timer_clk_hz h div (Init_Prescaler h + 1) = 1000000"
    "change_period h (of_nat us) ts = Some (h', ts')"
  shows "unat (ARR (ts' (timer (configured_pin h)))) + 1 = us \<longleftrightarrow> us \<le> 4294"
proof -
  obtain t where t: "ticks_of_us h (of_nat us) = Some t"
    and arr: "ARR (ts' (timer (configured_pin h))) = (if t < 1 then 1 else t) - 1"
    using assms(4) by (rule change_period_regs)
  have ut: "unat t = (1000000 * us) mod 2 ^ 32 div 1000000"
    by (rule unat_ticks_1MHz [OF assms(2,3) t])
  show ?thesis
  proof (cases "us \<le> 4294")
    case True
    then have "1000000 * us < 2 ^ 32" by simp
    then have "unat t = us" using ut by simp
    moreover then have "\<not> t < 1" using assms(1) by (simp add: word_less_nat_alt)
    ultimately show ?thesis using True arr assms(1) by (simp add: unat_sub word_le_nat_alt)
  next
    case False
    have "1000000 * us mod 2 ^ 32 \<le> 4294967295"
      using mod_less_divisor [of "2 ^ 32 :: nat" "1000000 * us"] by simp
    then have "unat t \<le> 4294967295 div 1000000" unfolding ut by (rule div_le_mono)
    then have "unat t \<le> 4294" by simp
    then have "unat ((if t < 1 then 1 else t) - 1) + 1 \<le> 4294"
      by (auto simp: unat_sub word_le_nat_alt word_less_nat_alt)
    then show ?thesis using False arr by simp
  qed
qed

lemma prescaler_1MHz:
  assumes "clk = of_nat (k * 1000000)" "0 < k" "k \<le> 4294"
  shows "(clk :: u32) div ((clk div 1000000 - 1) + 1) = 1000000"
proof -
  have kk: "k * 1000000 < 2 ^ 32" using assms(3) by simp
  have u: "unat clk = k * 1000000"
    unfolding assms(1) unat_of_nat using kk by simp
  moreover have "unat (clk div 1000000) = k" using u by (simp add: unat_div_distrib)
  ultimately have "unat (clk div (clk div 1000000)) = 1000000" using assms(2) by (simp add: unat_div_distrib)
  then show ?thesis by (simp add: word_unat_eq_iff)
qed

text \<open>With a timer clock that is a whole number of MHz, the prescaler the driver computes gives one
  tick per microsecond, and the period in effect is the requested one exactly for requests up to
  4294 us; beyond, the 32-bit product of ticks wraps and the output runs at another frequency.\<close>

theorem pwm_period_exact_up_to_4294:
  assumes "get_timer_clk_freq r (timer (configured_pin h0)) = of_nat (k * 1000000)" "0 < k" "k \<le> 4294"
    and "0 < us" "us < 2 ^ 31"
    and "change_period (fst (initialise_timers r h0 b)) (of_nat us) ts = Some (h', ts')"
  shows "unat (ARR (ts' (timer (configured_pin h0)))) + 1 = us \<longleftrightarrow> us \<le> 4294"
proof -
  let ?h = "fst (initialise_timers r h0 b)"
  have "timer_clk_hz ?h div (Init_Prescaler ?h + 1) = 1000000"
    using prescaler_1MHz [OF assms(1-3)] by (simp add: initialise_timers_def Let_def)
  moreover have "configured_pin ?h = configured_pin h0" by (simp add: initialise_timers_def Let_def)
  ultimately show ?thesis using period_exact_iff [OF assms(4,5) _ assms(6)] by simp
qed

text \<open>The clock tree of the NUCLEO-F446RE build: 45 MHz on APB1 and 90 MHz on APB2, both prescaled,
  so that the timers run at 90 and 180 MHz.\<close>

definition nucleo_rcc :: rcc where
  "nucleo_rcc = \<lparr>PCLK1Freq = 45000000, PCLK2Freq = 90000000, CFGR_PPRE1 = 5, CFGR_PPRE2 = 4\<rparr>"

text \<open>A board with its timers off.\<close>

definition off_board :: pwm_board where
  "off_board = \<lparr>tims = \<lambda>_. \<lparr>ARR = 0, PSC = 0, CCR = \<lambda>_. 0, CCER = {}, CEN = False, UG = False\<rparr>,
     tim_clocks = {}, gpio_clocks = {}, pin_af = \<lambda>_. None\<rparr>"

theorem pwm_period_exact_up_to_4294_witness:
  "\<exists>ts'. (\<exists>h'. change_period (fst (initialise_timers nucleo_rcc
        \<lparr>configured_pin = pwm_pin ''PA_8'' 0 8 1 1, Init_Period = 0, Init_Prescaler = 0, timer_clk_hz = 0\<rparr> off_board)) 5000
        (\<lambda>_. \<lparr>ARR = 0, PSC = 0, CCR = \<lambda>_. 0, CCER = {}, CEN = True, UG = False\<rparr>) = Some (h', ts'))
     \<and> unat (ARR (ts' 1)) + 1 \<noteq> 5000"
proof -
  let ?h0 = "\<lparr>configured_pin = pwm_pin ''PA_8'' 0 8 1 1, Init_Period = 0, Init_Prescaler = 0, timer_clk_hz = 0\<rparr>"
  let ?ts = "\<lambda>_ :: nat. \<lparr>ARR = 0, PSC = 0, CCR = \<lambda>_. 0, CCER = {}, CEN = True, UG = False\<rparr>"
  have clk: "get_timer_clk_freq nucleo_rcc (Suc 0) = 180000000"
    by (simp add: get_timer_clk_freq_def nucleo_rcc_def)
  obtain h' ts' where r: "change_period (fst (initialise_timers nucleo_rcc ?h0 off_board)) (of_nat 5000) ?ts = Some (h', ts')"
    by (simp add: change_period_def ticks_of_us_def initialise_timers_def Let_def pwm_pin_def clk)
  have t1: "timer (configured_pin ?h0) = 1" by (simp add: pwm_pin_def)
  have "unat (ARR (ts' 1)) + 1 \<noteq> 5000"
    using pwm_period_exact_up_to_4294 [of nucleo_rcc ?h0 180 5000 off_board ?ts h' ts'] r clk t1 by simp
  then show ?thesis using r by auto
qed

text \<open>When LinuxCNC changes the period of a variable-frequency output and sets its duty to zero in
  the same command, the duty block sees no change (the forced re-run compares with zero): the module
  records a duty of zero while the compare register keeps its old value, cut to the new period, and
  the next update with the same set points leaves it so.\<close>

theorem pwm_zero_duty_not_applied:
  assumes "variable_freq p" "sp (ptrPwmPeriod p) = FFin q" "q \<noteq> 0" "pwmPeriod_us p \<noteq> FFin q"
    and "sp (ptrPwmPulseWidth p) = FFin 0" "PWM_update sp p ts = Some (p', ts')"
  shows "pwmPulseWidth p' = FFin 0 \<and> PWM_update sp p' ts' = Some (p', ts')
    \<and> (let t = timer (configured_pin (hardware_PWM p)); ch = channel (configured_pin (hardware_PWM p))
       in CCR (ts' t) ch = min (CCR (ts t) ch) (ARR (ts' t)))"
proof -
  have nq: "\<not> feq (FFin q) (FFin 0)" "\<not> feq (FFin q) (pwmPeriod_us p)" using assms(3,4) by (auto simp: feq_def)
  obtain us h where us: "fto_int (FFin q) = Some us"
    and cp: "change_period (hardware_PWM p) (of_int us) ts = Some (h, ts')"
    and p': "p' = p\<lparr>pwmPeriod_us := FFin q, hardware_PWM := h, pwmPulseWidth := FFin 0\<rparr>"
    using assms nq
    by (auto simp: PWM_update_def update_period_def update_width_def Let_def feq_def bind_eq_Some_conv
      simp del: fto_int.simps split: option.splits if_splits)
  have "PWM_update sp p' ts' = Some (p', ts')"
    using assms by (simp add: p' PWM_update_def update_period_def update_width_def feq_def)
  moreover have "CCR (ts' t) ch = min (CCR (ts t) ch) (ARR (ts' t))"
    if "t = timer (configured_pin (hardware_PWM p))" "ch = channel (configured_pin (hardware_PWM p))" for t ch
    using cp that by (auto elim: change_period_regs)
  ultimately show ?thesis by (simp add: p')
qed

lemma change_period_some: "Init_Prescaler h + 1 \<noteq> 0 \<Longrightarrow> \<exists>h' ts'. change_period h us ts = Some (h', ts')"
  by (simp add: change_period_def ticks_of_us_def Let_def)

lemma change_pulsewidth_some: "Init_Prescaler h + 1 \<noteq> 0 \<Longrightarrow> \<exists>ts'. change_pulsewidth h us ts = Some ts'"
  by (simp add: change_pulsewidth_def ticks_of_us_def Let_def)

lemma HardwarePWM_ctor_some:
  assumes "find_compatible_pwm_pin s = Some p" "get_timer_clk_freq r (timer p) div 1000000 \<noteq> 0"
  shows "\<exists>h b'. HardwarePWM_ctor r us w s b = Some (h, b')"
proof -
  obtain h b1 where i: "initialise_timers r \<lparr>configured_pin = p, Init_Period = 0, Init_Prescaler = 0, timer_clk_hz = 0\<rparr> b = (h, b1)"
    by fastforce
  then have n: "Init_Prescaler h + 1 \<noteq> 0" using assms(2) by (auto simp: initialise_timers_def Let_def)
  obtain h' ts where c: "change_period h us (tims (initialise_pwm_pins h (initialise_pwm_channels h b1))) = Some (h', ts)"
    using change_period_some [OF n] by blast
  then have "Init_Prescaler h' = Init_Prescaler h" by (auto elim: change_period_regs)
  with n obtain ts' where "change_pulsewidth h' w ts = Some ts'" using change_pulsewidth_some by metis
  with assms i c show ?thesis by (simp add: HardwarePWM_ctor_def)
qed

text \<open>Set points of 1000 us and 25 percent.\<close>

definition demo_points :: "nat \<Rightarrow> fval" where
  "demo_points i = (if i = 0 then FFin 1000 else FFin 25)"

lemma demo_values:
  "percent_us (FFin 1000) (FFin 25) = Some 250" "fto_int (FFin 1000) = Some 1000"
  by (simp_all add: percent_us_def rat_trunc_def Let_def)

lemma demo_pin: "find_compatible_pwm_pin ''PA_8'' = Some (pwm_pin ''PA_8'' 0 8 1 1)"
  by (simp add: find_compatible_pwm_pin_def pwm_enabled_pins_def pwm_pin_def)

lemma demo_clk: "get_timer_clk_freq nucleo_rcc (Suc 0) = 180000000"
  by (simp add: get_timer_clk_freq_def nucleo_rcc_def)

lemma demo_ctor: "\<exists>p b'. PWM_ctor nucleo_rcc demo_points 0 1 True 0 0 ''PA_8'' off_board = Some (p, b')
    \<and> variable_freq p \<and> ptrPwmPeriod p = 0 \<and> ptrPwmPulseWidth p = 1 \<and> pwmPeriod_us p = FFin 1000
    \<and> hwpwm_ok (hardware_PWM p) (tims b') \<and> Init_Prescaler (hardware_PWM p) + 1 \<noteq> 0"
proof -
  obtain h b' where h: "HardwarePWM_ctor nucleo_rcc 1000 250 ''PA_8'' off_board = Some (h, b')"
    using HardwarePWM_ctor_some [OF demo_pin] demo_clk by (fastforce simp: pwm_pin_def)
  moreover have "Init_Prescaler h + 1 \<noteq> 0"
    using h by (auto simp: HardwarePWM_ctor_def demo_pin initialise_timers_def Let_def demo_clk pwm_pin_def
      elim!: change_period_regs split: option.splits)
  ultimately show ?thesis
    using HardwarePWM_ctor_ok [OF h]
    by (simp add: PWM_ctor_def demo_points_def demo_values Let_def del: fto_int.simps)
qed

text \<open>Two outputs, the first with a period that follows set point 0 and the second with a fixed one of 1000 us; both duties follow set
  point 1. On the pins \<open>PA_8\<close> and \<open>PA_0\<close> they are on different timers, on \<open>PA_8\<close> and \<open>PA_9\<close> on one.\<close>

definition two_pwms :: "string \<Rightarrow> pwm_config list" where
  "two_pwms s = [(1, 0, ''PA_8'', ''True'', 0, 0), (1, 0, s, ''False'', 0, 1000)]"

definition faster_points :: "nat \<Rightarrow> fval" where
  "faster_points i = (if i = 0 then FFin 100 else FFin 25)"

lemma mhz: "(180000000 :: u32) div 1000000 = 180" "(90000000 :: u32) div 1000000 = 90"
  by simp_all

lemma ctor_1000:
  assumes "find_compatible_pwm_pin s = Some q" "get_timer_clk_freq nucleo_rcc (timer q) = clk" "clk = 90000000 \<or> clk = 180000000"
  shows "\<exists>b'. HardwarePWM_ctor nucleo_rcc 1000 250 s b = Some (\<lparr>configured_pin = q, Init_Period = 999,
      Init_Prescaler = clk div 1000000 - 1, timer_clk_hz = clk\<rparr>, b') \<and> CCR (tims b' (timer q)) (channel q) = 250"
  using assms(3) by (elim disjE) (simp_all add: HardwarePWM_ctor_def assms(1,2) initialise_timers_def Let_def change_period_def change_pulsewidth_def
      ticks_of_us_def set_tim_def)

lemma demo_update:
  assumes "hardware_PWM p = \<lparr>configured_pin = pwm_pin ''PA_8'' 0 8 1 1, Init_Period = 999, Init_Prescaler = 179, timer_clk_hz = 180000000\<rparr>"
    "variable_freq p" "ptrPwmPeriod p = 0" "ptrPwmPulseWidth p = 1" "pwmPeriod_us p = FFin 1000" "pwmMax p = 0"
  shows "\<exists>p' ts'. PWM_update faster_points p ts = Some (p', ts') \<and> ARR (ts' 1) = 99 \<and> (\<forall>c. c \<noteq> 1 \<longrightarrow> CCR (ts' 1) c = CCR (ts 1) c)
    \<and> configured_pin (hardware_PWM p') = pwm_pin ''PA_8'' 0 8 1 1"
proof -
  obtain h ts1 where c: "change_period (hardware_PWM p) 100 ts = Some (h, ts1)" "ticks_of_us (hardware_PWM p) 100 = Some 100"
    using change_period_some [of "hardware_PWM p"] by (fastforce simp: assms(1) ticks_of_us_def)
  have r: "ARR (ts1 1) = 99" "\<And>c. c \<noteq> 1 \<Longrightarrow> CCR (ts1 1) c = CCR (ts 1) c" "configured_pin h = pwm_pin ''PA_8'' 0 8 1 1" "Init_Prescaler h = 179"
    using c by (auto elim!: change_period_regs simp: assms(1) pwm_pin_def)
  obtain ts2 where w: "change_pulsewidth h 25 ts1 = Some ts2" using change_pulsewidth_some [of h] r(4) by auto
  have r2: "ARR (ts2 1) = ARR (ts1 1)" "\<And>c. c \<noteq> 1 \<Longrightarrow> CCR (ts2 1) c = CCR (ts1 1) c"
    using w r(3) by (auto simp: change_pulsewidth_def set_tim_def pwm_pin_def Let_def split: option.splits)
  have f: "fto_int (FFin 100) = Some 100" "percent_us (FFin 100) (FFin 25) = Some 25"
    by (simp_all add: percent_us_def rat_trunc_def Let_def)
  have cap: "\<not> capped 0 w" "clamp_percent (FFin 25) = FFin 25" for w by (simp_all add: capped_def clamp_percent_def fle_def feq_def Let_def)
  have p1: "update_period faster_points p ts = Some (p\<lparr>pwmPeriod_us := FFin 100, hardware_PWM := h, pwmPulseWidth := FFin 0\<rparr>, ts1)"
    using assms c(1) f(1) by (simp add: update_period_def faster_points_def feq_def Let_def del: fto_int.simps)
  have "update_width faster_points (p\<lparr>pwmPeriod_us := FFin 100, hardware_PWM := h, pwmPulseWidth := FFin 0\<rparr>) ts1
      = Some (p\<lparr>pwmPeriod_us := FFin 100, hardware_PWM := h, pwmPulseWidth := FFin 25, pwmPulseWidth_us := 25\<rparr>, ts2)"
    using assms w f(2) cap by (simp add: update_width_def faster_points_def feq_def Let_def)
  then have "PWM_update faster_points p ts = Some (p\<lparr>pwmPeriod_us := FFin 100, hardware_PWM := h, pwmPulseWidth := FFin 25, pwmPulseWidth_us := 25\<rparr>, ts2)"
    using p1 by (simp add: PWM_update_def)
  then show ?thesis using r r2 by auto
qed

lemma fof_int_1000: "fof_int binary32 1000 = FFin 1000"
  by code_simp

lemma createPWM_1000:
  assumes "find_compatible_pwm_pin s = Some q" "get_timer_clk_freq nucleo_rcc (timer q) = clk" "clk = 90000000 \<or> clk = 180000000"
    and "v = ''True'' \<or> v = ''False'' \<and> us = 1000"
  shows "\<exists>p b'. createPWM nucleo_rcc demo_points 1 0 s v 0 us b = Some (p, b') \<and> CCR (tims b' (timer q)) (channel q) = 250
    \<and> hardware_PWM p = \<lparr>configured_pin = q, Init_Period = 999, Init_Prescaler = clk div 1000000 - 1, timer_clk_hz = clk\<rparr>
    \<and> (variable_freq p \<longleftrightarrow> v = ''True'') \<and> ptrPwmPeriod p = 0 \<and> ptrPwmPulseWidth p = 1 \<and> pwmPeriod_us p = FFin 1000 \<and> pwmMax p = 0
    \<and> pwmPulseWidth p = FFin 25"
proof -
  obtain b' where "HardwarePWM_ctor nucleo_rcc 1000 250 s b = Some (\<lparr>configured_pin = q, Init_Period = 999,
      Init_Prescaler = clk div 1000000 - 1, timer_clk_hz = clk\<rparr>, b')" "CCR (tims b' (timer q)) (channel q) = 250"
    using ctor_1000 [OF assms(1-3)] by blast
  then show ?thesis using assms(4)
    by (auto simp: createPWM_def PWM_ctor_def setPwmMax_def VARIABLES_def demo_points_def demo_values fof_int_1000 Let_def simp del: fto_int.simps)
qed

lemma two_pwms_run:
  assumes "find_compatible_pwm_pin s = Some q" "get_timer_clk_freq nucleo_rcc (timer q) \<in> {90000000, 180000000}" "\<not> (timer q = 1 \<and> channel q = 1)"
  shows "\<exists>p1 p2 b p1' ts. make_pwms nucleo_rcc demo_points (two_pwms s) off_board = Some ([p1, p2], b)
    \<and> pwm_updates [(0, faster_points), (1, faster_points)] [p1, p2] (tims b) = Some ([p1', p2], ts)
    \<and> configured_pin (hardware_PWM p1) = pwm_pin ''PA_8'' 0 8 1 1 \<and> configured_pin (hardware_PWM p1') = pwm_pin ''PA_8'' 0 8 1 1
    \<and> configured_pin (hardware_PWM p2) = q \<and> ARR (ts 1) = 99 \<and> CCR (ts (timer q)) (channel q) = 250"
proof -
  have clk: "get_timer_clk_freq nucleo_rcc (timer (pwm_pin ''PA_8'' 0 8 1 1)) = 180000000" by (simp add: pwm_pin_def demo_clk)
  obtain p1 b1 where p1: "createPWM nucleo_rcc demo_points 1 0 ''PA_8'' ''True'' 0 0 off_board = Some (p1, b1)"
      "hardware_PWM p1 = \<lparr>configured_pin = pwm_pin ''PA_8'' 0 8 1 1, Init_Period = 999, Init_Prescaler = 180000000 div 1000000 - 1, timer_clk_hz = 180000000\<rparr>"
      "variable_freq p1" "ptrPwmPeriod p1 = 0" "ptrPwmPulseWidth p1 = 1" "pwmPeriod_us p1 = FFin 1000" "pwmMax p1 = 0"
    using createPWM_1000 [OF demo_pin clk, of "''True''" 0 off_board] by auto
  have h1: "hardware_PWM p1 = \<lparr>configured_pin = pwm_pin ''PA_8'' 0 8 1 1, Init_Period = 999, Init_Prescaler = 179, timer_clk_hz = 180000000\<rparr>"
    unfolding p1(2) by simp
  obtain p2 b2 where p2: "createPWM nucleo_rcc demo_points 1 0 s ''False'' 0 1000 b1 = Some (p2, b2)" "CCR (tims b2 (timer q)) (channel q) = 250"
      "configured_pin (hardware_PWM p2) = q" "\<not> variable_freq p2" "ptrPwmPulseWidth p2 = 1" "pwmPulseWidth p2 = FFin 25"
    using createPWM_1000 [OF assms(1) refl, of "''False''" 1000 b1] assms(2) by auto
  obtain p1' ts where u: "PWM_update faster_points p1 (tims b2) = Some (p1', ts)" "ARR (ts 1) = 99" "\<forall>c. c \<noteq> 1 \<longrightarrow> CCR (ts 1) c = CCR (tims b2 1) c"
      "configured_pin (hardware_PWM p1') = pwm_pin ''PA_8'' 0 8 1 1"
    using demo_update [OF h1 p1(3-7), of "tims b2"] by blast
  have "pwm_timer p1 = 1" by (simp add: pwm_timer_def h1 pwm_pin_def)
  then have "ts t = tims b2 t" if "t \<noteq> 1" for t using PWM_update_frame [OF u(1)] that by simp
  then have "CCR (ts (timer q)) (channel q) = 250" using p2(2) u(3) assms(3) by (cases "timer q = 1") auto
  moreover have "PWM_update faster_points p2 ts = Some (p2, ts)"
    using p2(4-6) by (simp add: PWM_update_def update_period_def update_width_def faster_points_def feq_def)
  then have "pwm_updates [(0, faster_points), (1, faster_points)] [p1, p2] (tims b2) = Some ([p1', p2], ts)" using u(1) by simp
  moreover have "make_pwms nucleo_rcc demo_points (two_pwms s) off_board = Some ([p1, p2], b2)" using p1(1) p2(1) by (simp add: two_pwms_def)
  moreover have "configured_pin (hardware_PWM p1) = pwm_pin ''PA_8'' 0 8 1 1" by (simp add: h1)
  ultimately show ?thesis using u(2,4) p2(3) by blast
qed

theorem pwm_compare_in_range_witness:
  "\<exists>ps b ps' ts. make_pwms nucleo_rcc demo_points (two_pwms ''PA_0'') off_board = Some (ps, b)
    \<and> pwm_updates [(0, faster_points), (1, faster_points)] ps (tims b) = Some (ps', ts)
    \<and> CCR (ts 1) 1 \<le> ARR (ts 1) \<and> CCR (ts 2) 1 \<le> ARR (ts 2) \<and> CCR (ts 2) 1 = 250"
proof -
  let ?q = "pwm_pin ''PA_0'' 0 0 2 1"
  have q: "find_compatible_pwm_pin ''PA_0'' = Some ?q" "get_timer_clk_freq nucleo_rcc (timer ?q) \<in> {90000000, 180000000}" "\<not> (timer ?q = 1 \<and> channel ?q = 1)"
    by (simp_all add: find_compatible_pwm_pin_def pwm_enabled_pins_def pwm_pin_def get_timer_clk_freq_def nucleo_rcc_def)
  obtain p1 p2 b p1' ts where r: "make_pwms nucleo_rcc demo_points (two_pwms ''PA_0'') off_board = Some ([p1, p2], b)"
      "pwm_updates [(0, faster_points), (1, faster_points)] [p1, p2] (tims b) = Some ([p1', p2], ts)"
      "configured_pin (hardware_PWM p1) = pwm_pin ''PA_8'' 0 8 1 1" "configured_pin (hardware_PWM p1') = pwm_pin ''PA_8'' 0 8 1 1"
      "configured_pin (hardware_PWM p2) = ?q" "CCR (ts (timer ?q)) (channel ?q) = 250"
    using two_pwms_run [OF q] by blast
  have d: "distinct (map (\<lambda>p. timer (configured_pin (hardware_PWM p))) [p1, p2])" by (simp add: r(3,5) pwm_pin_def)
  show ?thesis using r(1,2,6) pwm_compare_in_range [OF r(1) d r(2), of p1'] pwm_compare_in_range [OF r(1) d r(2), of p2]
    by (auto simp: r(4,5) pwm_pin_def)
qed

text \<open>The second output keeps a compare value of 250 when the first one has set the period of their timer to 100: the line of the second
  stays on.\<close>

theorem pwm_shared_timer_clash:
  "\<exists>p1 p2 b ps' ts. make_pwms nucleo_rcc demo_points (two_pwms ''PA_9'') off_board = Some ([p1, p2], b)
    \<and> configured_pin (hardware_PWM p2) = pwm_pin ''PA_9'' 0 9 1 2
    \<and> pwm_updates [(0, faster_points), (1, faster_points)] [p1, p2] (tims b) = Some (ps', ts)
    \<and> ARR (ts 1) = 99 \<and> CCR (ts 1) 2 = 250"
proof -
  let ?q = "pwm_pin ''PA_9'' 0 9 1 2"
  have q: "find_compatible_pwm_pin ''PA_9'' = Some ?q" "get_timer_clk_freq nucleo_rcc (timer ?q) \<in> {90000000, 180000000}" "\<not> (timer ?q = 1 \<and> channel ?q = 1)"
    by (simp_all add: find_compatible_pwm_pin_def pwm_enabled_pins_def pwm_pin_def get_timer_clk_freq_def nucleo_rcc_def)
  show ?thesis using two_pwms_run [OF q] by (fastforce simp: pwm_pin_def)
qed

theorem pwm_zero_duty_not_applied_witness:
  "\<exists>p b' p' ts'. PWM_ctor nucleo_rcc demo_points 0 1 True 0 0 ''PA_8'' off_board = Some (p, b')
    \<and> PWM_update (\<lambda>i. if i = 0 then FFin 500 else FFin 0) p (tims b') = Some (p', ts')
    \<and> pwmPulseWidth p' = FFin 0
    \<and> PWM_update (\<lambda>i. if i = 0 then FFin 500 else FFin 0) p' ts' = Some (p', ts')"
proof -
  let ?sp = "\<lambda>i :: nat. if i = 0 then FFin 500 else FFin 0"
  obtain p b' where c: "PWM_ctor nucleo_rcc demo_points 0 1 True 0 0 ''PA_8'' off_board = Some (p, b')"
    and f: "variable_freq p" "ptrPwmPeriod p = 0" "ptrPwmPulseWidth p = 1" "pwmPeriod_us p = FFin 1000"
    and ok: "hwpwm_ok (hardware_PWM p) (tims b')" and n: "Init_Prescaler (hardware_PWM p) + 1 \<noteq> 0"
    using demo_ctor by blast
  obtain h ts where cp: "change_period (hardware_PWM p) 500 (tims b') = Some (h, ts)"
    using change_period_some [OF n] by blast
  have "fto_int (FFin 500) = Some 500" by (simp add: rat_trunc_def Let_def)
  then obtain p' where u: "PWM_update ?sp p (tims b') = Some (p', ts)"
    using f cp by (simp add: PWM_update_def update_period_def update_width_def feq_def Let_def del: fto_int.simps)
  show ?thesis
    using c u pwm_zero_duty_not_applied [of p ?sp 500 "tims b'" p' ts] f by auto
qed

subsection \<open>Where the set points are read\<close>

text \<open>The set points a PWM output reads are those of receive buffer 0 only: a write request that
  arrives while buffer 0 is the current one is the next command of every other module, and leaves all
  set points of the PWM outputs as they were.\<close>

theorem pwm_misses_second_buffer:
  assumes "wf_link s" "length payload = 64" "rx_header payload = PRU_WRITE" "getCurrentRxBuffer (rxPP s) = 0"
  shows "\<exists>s' r. udp_data_callback ok addr port payload s = Some (s', r) \<and> cur_cmd s' = payload
    \<and> set_point (rxPP s') = set_point (rxPP s)"
proof -
  have p: "packet_of s payload = payload" using assms by (simp add: packet_of_full)
  let ?s' = "(retire_tx PRU_ACKNOWLEDGE (fill s payload))\<lparr>rxPP := swapRxBuffers (rxPP (fill s payload))\<rparr>"
  have "PRU_WRITE \<noteq> PRU_READ" by (simp add: pru_defs)
  then have "\<exists>r. udp_data_callback ok addr port payload s = Some (?s', r)"
    using assms by (simp add: udp_data_callback_cases p)
  moreover have "cur_cmd ?s' = payload" using assms by (simp add: cur_cmd_swapped p)
  moreover have "deref (rxPP ?s') 0 = deref (rxPP s) 0"
    using assms(1,4) by (simp add: fill_def rx.get_swap pp_defs)
  then have "set_point (rxPP ?s') = set_point (rxPP s)" by (simp add: set_point_def fun_eq_iff)
  ultimately show ?thesis by blast
qed

theorem pwm_misses_second_buffer_witness:
  "\<exists>s' r. udp_data_callback True () 27181 (le32 PRU_WRITE @ replicate 60 1)
      \<lparr>rxPP = zero_pingpong, txPP = zero_pingpong, comms = \<lparr>data = False, status = False, noDataCount = 0\<rparr>\<rparr>
    = Some (s', r) \<and> cur_cmd s' = le32 PRU_WRITE @ replicate 60 1 \<and> set_point (rxPP s') = set_point zero_pingpong"
proof -
  let ?s = "\<lparr>rxPP = zero_pingpong, txPP = zero_pingpong, comms = \<lparr>data = False, status = False, noDataCount = 0\<rparr>\<rparr>"
  have "wf_link ?s" by (simp add: wf_link_def wf_zero_pingpong)
  moreover have "rx_header (le32 PRU_WRITE @ replicate 60 1) = PRU_WRITE"
    by (simp add: rx_header_def read_le32_def nth_byte_def le32_def un_le32_le32)
  moreover have "getCurrentRxBuffer (rxPP ?s) = 0" by (simp add: zero_pingpong_def pp_defs)
  ultimately show ?thesis
    using pwm_misses_second_buffer [of ?s "le32 PRU_WRITE @ replicate 60 1" True "()" 27181] by simp
qed

end
