(* ===== verification/Stepgen.thy ===== *)
theory Stepgen
  imports CFloat HostLink Gpio
begin

unbundle bit_operations_syntax

text \<open>
  The step generator (\<open>Src/modules/stepgen\<close>), one per joint, run by the base-thread interrupt: a
  direct digital synthesiser whose bit 22 clocks the step pin. The scale and the scaled command are
  \<open>float\<close>s (\<open>CFloat\<close>); the accumulator is a 32-bit register that wraps. The frequency command is
  read from the current command buffer and the step count is written to the current feedback
  buffer (\<open>HostLink\<close>).
\<close>

definition STEPBIT :: nat where "STEPBIT = 22"

record stepgen =
  jointNumber :: int
  joint_mask :: u8
  stepPin :: pin
  directionPin :: pin
  isEnabled :: bool
  isForward :: bool
  lastDir :: bool
  isStepping :: bool
  frequencyCommand :: i32
  rawCount :: i32
  DDSaccumulator :: i32
  DDSaddValue :: i32
  frequencyScale :: fval
  stepBit :: nat

definition frequency_scale :: "nat \<Rightarrow> int \<Rightarrow> fval" where
  "frequency_scale bitpos threadFreq = fdiv binary32 (fof_int binary32 (2 ^ bitpos)) (fof_int binary32 threadFreq)"

text \<open>The constructor; \<open>m\<close> is the memory of the object before it, for the fields it does not set
  (\<open>isStepping\<close>, \<open>frequencyCommand\<close>, \<open>DDSaddValue\<close>). \<open>1 << jointNumber\<close> is a shift of an \<open>int\<close>.\<close>

definition Stepgen_ctor :: "stepgen \<Rightarrow> int \<Rightarrow> int \<Rightarrow> string \<Rightarrow> string \<Rightarrow> nat \<Rightarrow> gpio \<Rightarrow> (stepgen \<times> gpio) option" where
  "Stepgen_ctor m threadFreq joint step direction bitpos g =
     (case Pin2 step 1 g of None \<Rightarrow> None
      | Some (sp, g1) \<Rightarrow>
        (case Pin2 direction 1 g1 of None \<Rightarrow> None
         | Some (dp, g2) \<Rightarrow>
           if joint < 0 \<or> 31 \<le> joint then None
           else Some (m\<lparr>jointNumber := joint, joint_mask := push_bit (nat joint) 1, stepPin := sp, directionPin := dp,
             isEnabled := True, isForward := False, lastDir := True, rawCount := 0, DDSaccumulator := 0,
             frequencyScale := frequency_scale bitpos threadFreq, stepBit := bitpos\<rparr>, g2)))"

text \<open>\<open>this->frequencyCommand * this->frequencyScale\<close>, converted to \<open>int32_t\<close>.\<close>

definition dds_add :: "int \<Rightarrow> fval \<Rightarrow> int option" where
  "dds_add f scale = fto_int (fmul binary32 (fof_int binary32 f) scale)"

definition makePulses :: "stepgen \<Rightarrow> link \<Rightarrow> gpio \<Rightarrow> (stepgen \<times> link \<times> gpio) option" where
  "makePulses sg s g =
     (let rxData = getCurrentRxBuffer (rxPP s);
          txData = getCurrentTxBuffer (txPP s);
          sg1 = sg\<lparr>isEnabled := (rx_jointEnable (deref (rxPP s) rxData) AND joint_mask sg \<noteq> 0)\<rparr>
      in if \<not> isEnabled sg1 then Some (sg1, s, g)
         else if jointNumber sg < 0 \<or> int JOINTS \<le> jointNumber sg then None
         else (let cmd = rx_jointFreqCmd (deref (rxPP s) rxData) (nat (jointNumber sg)) in
           case dds_add (sint cmd) (frequencyScale sg1) of None \<Rightarrow> None
         | Some a \<Rightarrow>
             let acc = DDSaccumulator sg1;
                 acc' = acc + word_of_int a;
                 stepNow = (acc XOR acc') AND push_bit (stepBit sg1) 1;
                 sg2 = sg1\<lparr>frequencyCommand := cmd, DDSaddValue := word_of_int a, DDSaccumulator := acc',
                            isForward := (0 < a)\<rparr>
             in if lastDir sg2 \<noteq> isForward sg2 then
                  map_option (\<lambda>g'. (sg2\<lparr>lastDir := isForward sg2\<rparr>, s, g')) (pin_set (directionPin sg2) (isForward sg2) g)
                else if stepNow \<noteq> 0 then
                  (case pin_set (stepPin sg2) True g of None \<Rightarrow> None
                   | Some g' \<Rightarrow>
                     let rc = (if isForward sg2 then rawCount sg2 + 1 else rawCount sg2 - 1)
                     in Some (sg2\<lparr>rawCount := rc, isStepping := True\<rparr>,
                          s\<lparr>txPP := store (txPP s) txData (tx_set_jointFeedback (deref (txPP s) txData) (nat (jointNumber sg)) rc)\<rparr>, g'))
                else Some (sg2, s, g)))"

definition stopPulses :: "stepgen \<Rightarrow> gpio \<Rightarrow> (stepgen \<times> gpio) option" where
  "stopPulses sg g = map_option (\<lambda>g'. (sg\<lparr>isStepping := False\<rparr>, g')) (pin_set (stepPin sg) False g)"

definition setEnabled :: "bool \<Rightarrow> stepgen \<Rightarrow> stepgen" where
  "setEnabled st sg = sg\<lparr>isEnabled := st\<rparr>"

subsection \<open>The scaled command\<close>

lemma rat_exp_lower: "pow2 e \<le> x \<Longrightarrow> e \<le> rat_exp x"
proof -
  assume "pow2 e \<le> x"
  moreover then have "0 < x" using pow2_pos [of e] by linarith
  then have "x < pow2 (rat_exp x + 1)" using rat_exp_bounds by blast
  ultimately have "pow2 e < pow2 (rat_exp x + 1)" by linarith
  then show ?thesis using pow2_less_cancel by fastforce
qed

text \<open>A \<open>float\<close> operation whose exact result is of ordinary size: finite, with a relative error of at
  most \<open>2 ^ - 24\<close>.\<close>

lemma fround_binary32_error:
  assumes "1 / 16 \<le> \<bar>x\<bar>" "\<bar>x\<bar> \<le> 2 ^ 30"
  shows "\<exists>y. fround binary32 x = FFin y \<and> \<bar>y - x\<bar> \<le> \<bar>x\<bar> / 16777216"
proof -
  have "pow2 (- 4) \<le> \<bar>x\<bar>" using assms(1) by (simp add: pow2_def)
  then have "- 4 \<le> rat_exp \<bar>x\<bar>" by (rule rat_exp_lower)
  then have "\<bar>round_rat binary32 x - x\<bar> \<le> \<bar>x\<bar> * pow2 (- 24)"
    using assms(1) round_rat_error [of x binary32] by (fastforce simp: binary32_def)
  then have e: "\<bar>round_rat binary32 x - x\<bar> \<le> \<bar>x\<bar> / 16777216" by (simp add: pow2_def)
  also have "\<bar>x\<bar> / 16777216 \<le> 64" using assms(2) by simp
  finally have "\<bar>round_rat binary32 x\<bar> \<le> 2 ^ 31" using assms(2) by (simp add: abs_le_iff)
  moreover have "(2 :: rat) ^ 31 < pow2 128" by (simp add: pow2_def)
  ultimately have "fround binary32 x = FFin (round_rat binary32 x)"
    by (simp add: fround_def binary32_def Let_def)
  then show ?thesis using e by blast
qed

lemma frequency_scale_error:
  assumes "0 < T" "T < 16777216"
  obtains c where "frequency_scale 22 T = FFin c" "0 < c"
    "\<bar>c - 4194304 / of_int T\<bar> \<le> 4194304 / of_int T / 16777216"
proof -
  define q where "q = 4194304 / rat_of_int T"
  have T: "0 < rat_of_int T" "rat_of_int T < 16777216" "1 \<le> rat_of_int T" using assms by simp_all
  have "q \<le> 4194304 / 1" unfolding q_def using T by (intro divide_left_mono) auto
  moreover have "4194304 / 16777216 \<le> q" unfolding q_def using T by (intro divide_left_mono) auto
  ultimately have q: "1 / 4 \<le> q" "q \<le> 4194304" by simp_all
  then have aq: "\<bar>q\<bar> = q" by simp
  obtain c where c: "fround binary32 q = FFin c" "\<bar>c - q\<bar> \<le> q / 16777216"
    using fround_binary32_error [of q] q unfolding aq by auto
  have "0 < c" using c(2) q by linarith
  moreover have "frequency_scale 22 T = FFin c"
    using c T assms by (simp add: frequency_scale_def q_def)
  ultimately show ?thesis using that c unfolding q_def by blast
qed

lemma rat_trunc_error: "\<bar>of_int (rat_trunc x) - x\<bar> < 1"
  using floor_correct [of x] floor_correct [of "- x"] by (simp add: rat_trunc_def) linarith

lemma rat_trunc_bound: "\<bar>x\<bar> \<le> of_int n \<Longrightarrow> \<bar>rat_trunc x\<bar> \<le> n"
proof -
  assume x: "\<bar>x\<bar> \<le> of_int n"
  then have "x < of_int (n + 1)" "- x < of_int (n + 1)" by (simp_all add: abs_le_iff)
  then have "\<lfloor>x\<rfloor> \<le> n" "\<lfloor>- x\<rfloor> \<le> n" by (simp_all add: floor_le_iff)
  moreover have "0 \<le> n" using x abs_ge_zero [of x] by linarith
  moreover have "\<not> x < 0 \<longrightarrow> 0 \<le> \<lfloor>x\<rfloor>" "x < 0 \<longrightarrow> 0 \<le> \<lfloor>- x\<rfloor>" by simp_all
  ultimately show ?thesis unfolding rat_trunc_def by (cases "x < 0") (simp_all only: if_True if_False abs_le_iff simp_thms, linarith+)
qed

lemma dds_add_error:
  assumes "0 < T" "T < 16777216" "\<bar>f\<bar> \<le> T"
  shows "\<exists>a. dds_add f (frequency_scale 22 T) = Some a \<and> \<bar>a * T - f * 4194304\<bar> < 2 * T
    \<and> (f < 0 \<longrightarrow> a \<le> 0) \<and> (0 < f \<longrightarrow> 0 \<le> a) \<and> (f = 0 \<longrightarrow> a = 0)"
proof (cases "f = 0")
  case True
  obtain c where "frequency_scale 22 T = FFin c" by (rule frequency_scale_error [OF assms(1,2)])
  with True have "dds_add f (frequency_scale 22 T) = Some 0"
    by (simp add: dds_add_def fround_def round_rat_def rat_trunc_def Let_def not_le)
  then show ?thesis using True assms by simp
next
  case False
  obtain c where c: "frequency_scale 22 T = FFin c" "0 < c"
    and ce: "\<bar>c - 4194304 / of_int T\<bar> \<le> 4194304 / of_int T / 16777216"
    by (rule frequency_scale_error [OF assms(1,2)])
  define q where "q = 4194304 / rat_of_int T"
  define F where "F = rat_of_int f"
  note ce = ce [folded q_def]
  have T: "0 < rat_of_int T" "rat_of_int T < 16777216" "1 \<le> rat_of_int T" using assms by simp_all
  have F: "1 \<le> \<bar>F\<bar>" "\<bar>F\<bar> \<le> of_int T" using False assms(3) unfolding F_def by linarith+
  have "4194304 / 16777216 \<le> q" unfolding q_def using T by (intro divide_left_mono) auto
  then have q: "1 / 4 \<le> q" by simp
  have "\<bar>F\<bar> * q \<le> of_int T * q" using F q by (intro mult_right_mono) auto
  also have "\<dots> = 4194304" using T by (simp add: q_def)
  finally have Fq: "\<bar>F\<bar> * q \<le> 4194304" .
  have "\<bar>F * c - F * q\<bar> = \<bar>F\<bar> * \<bar>c - q\<bar>" by (simp add: abs_mult [symmetric] right_diff_distrib)
  also have "\<dots> \<le> \<bar>F\<bar> * (q / 16777216)" using ce by (intro mult_left_mono) auto
  also have "\<dots> = \<bar>F\<bar> * q / 16777216" by simp
  also have "\<dots> \<le> 1 / 4" using Fq by linarith
  finally have e1: "\<bar>F * c - F * q\<bar> \<le> 1 / 4" .
  have c8: "1 / 8 \<le> c" using ce q by linarith
  have "1 * c \<le> \<bar>F\<bar> * c" using F(1) c(2) by (intro mult_right_mono) auto
  then have p1: "1 / 16 \<le> \<bar>F * c\<bar>" using c8 c(2) unfolding abs_mult by linarith
  have aFq: "\<bar>F * q\<bar> \<le> 4194304" using Fq q by (simp add: abs_mult)
  then have p2: "\<bar>F * c\<bar> \<le> 4194305" using e1 by linarith
  have "\<bar>F * c\<bar> \<le> 2 ^ 30" using p2 by simp
  then obtain y where y: "fround binary32 (F * c) = FFin y" "\<bar>y - F * c\<bar> \<le> \<bar>F * c\<bar> / 16777216"
    using fround_binary32_error [OF p1] by blast
  have e2: "\<bar>y - F * q\<bar> \<le> 3 / 4" using y(2) p2 e1 by linarith
  have yb: "\<bar>y\<bar> \<le> of_int 4194306" using e2 aFq by linarith
  define a where "a = rat_trunc y"
  have "\<bar>a\<bar> \<le> 4194306" unfolding a_def using rat_trunc_bound [OF yb] .
  then have "- 2147483648 \<le> a \<and> a < 2147483648" by linarith
  then have some: "fto_int (FFin y) = Some a" by (simp add: Let_def a_def [symmetric])
  have dds: "dds_add f (frequency_scale 22 T) = Some a"
    using c(1) y(1) some assms by (simp add: dds_add_def F_def del: fto_int.simps)
  have "\<bar>of_int a - F * q\<bar> < 2" using rat_trunc_error [of y] e2 unfolding a_def by linarith
  then have "\<bar>of_int a - F * q\<bar> * of_int T < 2 * of_int T" using T by (intro mult_strict_right_mono)
  moreover have "\<bar>of_int a - F * q\<bar> * of_int T = \<bar>of_int a * of_int T - F * 4194304\<bar>"
  proof -
    have "\<bar>of_int a - F * q\<bar> * of_int T = \<bar>of_int a - F * q\<bar> * \<bar>of_int T\<bar>" using T by simp
    also have "\<dots> = \<bar>of_int a * of_int T - F * (q * of_int T)\<bar>"
      by (simp only: abs_mult [symmetric] left_diff_distrib mult.assoc)
    finally show ?thesis using T by (simp add: q_def)
  qed
  ultimately have "\<bar>rat_of_int (a * T - f * 4194304)\<bar> < rat_of_int (2 * T)" by (simp add: F_def)
  then have err: "\<bar>a * T - f * 4194304\<bar> < 2 * T" by linarith
  have sgn: "y \<le> 0" if "f < 0"
  proof -
    have "F * c < 0" using that c(2) by (simp add: F_def mult_less_0_iff)
    then show ?thesis using y(2) by linarith
  qed
  have sgp: "0 \<le> y" if "0 < f"
  proof -
    have "0 < F * c" using that c(2) by (simp add: F_def)
    then show ?thesis using y(2) by linarith
  qed
  have "f < 0 \<longrightarrow> a \<le> 0" "0 < f \<longrightarrow> 0 \<le> a"
    using sgn sgp unfolding a_def rat_trunc_def by auto
  then show ?thesis using dds err False by blast
qed

subsection \<open>What one base period does\<close>

definition enabled_for :: "stepgen \<Rightarrow> link \<Rightarrow> bool" where
  "enabled_for sg s \<longleftrightarrow> rx_jointEnable (cur_cmd s) AND joint_mask sg \<noteq> 0"

definition command_for :: "stepgen \<Rightarrow> link \<Rightarrow> i32" where
  "command_for sg s = rx_jointFreqCmd (cur_cmd s) (nat (jointNumber sg))"

text \<open>A step generator as \<open>createStepgen\<close> makes it: joint in range, both pins configured.\<close>

definition wf_stepgen :: "stepgen \<Rightarrow> bool" where
  "wf_stepgen sg \<longleftrightarrow> 0 \<le> jointNumber sg \<and> jointNumber sg < int JOINTS \<and> stepBit sg = 22
     \<and> GPIOx (stepPin sg) \<noteq> None \<and> GPIOx (directionPin sg) \<noteq> None"

lemma makePulses_disabled:
  "\<not> enabled_for sg s \<Longrightarrow> makePulses sg s g = Some (sg\<lparr>isEnabled := False\<rparr>, s, g)"
  by (simp add: makePulses_def enabled_for_def cur_cmd_def)

text \<open>The bits of the accumulator: whether bit 22 changes when \<open>a\<close> is added is whether the sum
  crosses a multiple of \<open>2 ^ 22\<close>.\<close>

definition steps_of :: "int \<Rightarrow> int" where
  "steps_of x = x div 2 ^ STEPBIT"

lemma bit_22_wrap: "bit (word_of_int x :: i32) 22 \<longleftrightarrow> odd (steps_of x)"
  unfolding bit_word_of_int_iff by (simp add: steps_of_def STEPBIT_def bit_iff_odd)

lemma steps_of_add:
  assumes "\<bar>a\<bar> \<le> 2 ^ STEPBIT"
  shows "steps_of (x + a) - steps_of x = (if even (steps_of (x + a)) = even (steps_of x) then 0 else if 0 < a then 1 else - 1)"
proof -
  have b: "- 4194304 \<le> a" "a \<le> 4194304" using assms by (simp_all add: STEPBIT_def)
  have "x div 4194304 - 1 \<le> (x + a) div 4194304" "(x + a) div 4194304 \<le> x div 4194304 + 1" using b by linarith+
  moreover have "0 \<le> a \<Longrightarrow> x div 4194304 \<le> (x + a) div 4194304" "a \<le> 0 \<Longrightarrow> (x + a) div 4194304 \<le> x div 4194304"
    by (simp_all add: zdiv_mono1)
  ultimately have "(x + a) div 4194304 = x div 4194304 \<or> 0 < a \<and> (x + a) div 4194304 = x div 4194304 + 1
      \<or> a < 0 \<and> (x + a) div 4194304 = x div 4194304 - 1" by linarith
  then show ?thesis by (auto simp: steps_of_def STEPBIT_def)
qed

lemma step_bit_iff:
  "((acc XOR acc') AND push_bit 22 1 \<noteq> (0 :: i32)) = (bit acc 22 \<noteq> bit acc' 22)"
  unfolding bit_iff_and_push_bit_not_eq_0 [symmetric] by (simp add: bit_xor_iff)

text \<open>One enabled tick of a generator whose direction already is the commanded one, as an equation.\<close>

lemma makePulses_settled:
  assumes "wf_stepgen sg" "enabled_for sg s"
    and "dds_add (sint (command_for sg s)) (frequencyScale sg) = Some a"
    and "DDSaccumulator sg = word_of_int x" "\<bar>a\<bar> \<le> 2 ^ STEPBIT" "lastDir sg = (0 < a)"
  defines "d \<equiv> steps_of (x + a) - steps_of x"
  defines "sg' \<equiv> sg\<lparr>isEnabled := True, frequencyCommand := command_for sg s, DDSaddValue := word_of_int a,
      DDSaccumulator := word_of_int (x + a), isForward := (0 < a)\<rparr>"
  shows "makePulses sg s g = (if d = 0 then Some (sg', s, g) else
    map_option (\<lambda>g'. (sg'\<lparr>rawCount := rawCount sg + word_of_int d, isStepping := True\<rparr>,
      s\<lparr>txPP := store (txPP s) (getCurrentTxBuffer (txPP s))
        (tx_set_jointFeedback (cur_fb s) (nat (jointNumber sg)) (rawCount sg + word_of_int d))\<rparr>, g'))
     (pin_set (stepPin sg) True g))"
proof -
  have d: "d = (if even (steps_of (x + a)) = even (steps_of x) then 0 else if 0 < a then 1 else - 1)"
    unfolding d_def by (rule steps_of_add [OF assms(5)])
  have bits: "((DDSaccumulator sg XOR (DDSaccumulator sg + word_of_int a)) AND push_bit (stepBit sg) 1 \<noteq> 0) = (d \<noteq> 0)"
  proof -
    have "stepBit sg = 22" using assms(1) by (simp add: wf_stepgen_def)
    moreover have "DDSaccumulator sg + word_of_int a = word_of_int (x + a)" by (simp add: assms(4))
    ultimately show ?thesis unfolding assms(4) d
      by (simp only: step_bit_iff bit_22_wrap wi_hom_add) auto
  qed
  have acc: "DDSaccumulator sg + word_of_int a = word_of_int (x + a)" by (simp add: assms(4))
  have j: "\<not> (jointNumber sg < 0 \<or> int JOINTS \<le> jointNumber sg)" using assms(1) by (simp add: wf_stepgen_def)
  have e: "(rx_jointEnable (deref (rxPP s) (getCurrentRxBuffer (rxPP s))) AND joint_mask sg = 0) = False"
    using assms(2) by (simp add: enabled_for_def cur_cmd_def)
  note cmd = command_for_def [of sg s, unfolded cur_cmd_def, symmetric]
  show ?thesis
  proof (cases "d = 0")
    case True
    then show ?thesis
      using assms(6) bits
      by (simp add: makePulses_def Let_def e j cmd assms(3) acc sg'_def)
  next
    case False
    have rcs: "0 < a \<Longrightarrow> (word_of_int d :: i32) = 1" "\<not> 0 < a \<Longrightarrow> (word_of_int d :: i32) = - 1"
      using d False by (auto split: if_splits)
    show ?thesis
    proof (cases "pin_set (stepPin sg) True g")
      case None
      then show ?thesis
        using False assms(6) bits by (simp add: makePulses_def Let_def e j cmd assms(3) acc)
    next
      case (Some g')
      then show ?thesis
        using False assms(6) bits rcs
        by (cases "0 < a") (simp_all add: makePulses_def Let_def e j cmd assms(3) assms(4) sg'_def cur_fb_def)
    qed
  qed
qed

subsection \<open>Runs of base periods\<close>

text \<open>A base period for one generator: \<open>makePulses\<close> in the first pass of the thread, \<open>stopPulses\<close> in the
  second.\<close>

definition base_tick :: "stepgen \<times> link \<times> gpio \<Rightarrow> (stepgen \<times> link \<times> gpio) option" where
  "base_tick = (\<lambda>(sg, s, g). Option.bind (makePulses sg s g)
     (\<lambda>(sg1, s1, g1). Option.bind (stopPulses sg1 g1) (\<lambda>(sg2, g2). Some (sg2, s1, g2))))"

fun base_ticks :: "nat \<Rightarrow> stepgen \<times> link \<times> gpio \<Rightarrow> (stepgen \<times> link \<times> gpio) option" where
  "base_ticks 0 w = Some w"
| "base_ticks (Suc n) w = Option.bind (base_ticks n w) base_tick"

lemma pin_set_some: "GPIOx p \<noteq> None \<Longrightarrow> \<exists>g'. pin_set p v g = Some g'"
  by (auto simp: pin_set_def)

text \<open>What a settled tick does, up to the pins: the accumulator advances by \<open>a\<close>, and the count and the
  feedback by the number of crossings.\<close>

lemma base_tick_settled:
  assumes "wf_stepgen sg" "wf_link s" "enabled_for sg s"
    and "dds_add (sint (command_for sg s)) (frequencyScale sg) = Some a"
    and "DDSaccumulator sg = word_of_int x" "\<bar>a\<bar> \<le> 2 ^ STEPBIT" "lastDir sg = (0 < a)"
  shows "\<exists>sg' s' g'. base_tick (sg, s, g) = Some (sg', s', g') \<and> wf_stepgen sg' \<and> wf_link s'
    \<and> jointNumber sg' = jointNumber sg \<and> joint_mask sg' = joint_mask sg \<and> frequencyScale sg' = frequencyScale sg
    \<and> lastDir sg' = (0 < a) \<and> DDSaccumulator sg' = word_of_int (x + a) \<and> isr_writes s s'
    \<and> rawCount sg' = rawCount sg + word_of_int (steps_of (x + a) - steps_of x)
    \<and> tx_jointFeedback (cur_fb s') (nat (jointNumber sg)) =
        (if steps_of (x + a) = steps_of x then tx_jointFeedback (cur_fb s) (nat (jointNumber sg)) else rawCount sg')"
proof -
  have j: "nat (jointNumber sg) < JOINTS" and gp: "GPIOx (stepPin sg) \<noteq> None"
    using assms(1) by (auto simp: wf_stepgen_def)
  have len: "length (cur_fb s) = 64" using assms(2) by (simp add: cur_fb_def)
  note mk = makePulses_settled [OF assms(1,3-7), of g]
  show ?thesis
  proof (cases "steps_of (x + a) - steps_of x = 0")
    case True
    obtain g' where "pin_set (stepPin sg) False g = Some g'" using pin_set_some [OF gp] by blast
    then show ?thesis
      using True assms mk by (auto simp: base_tick_def stopPulses_def wf_stepgen_def isr_writes_def wf_link_def)
  next
    case False
    obtain g1 where g1: "pin_set (stepPin sg) True g = Some g1" using pin_set_some [OF gp] by blast
    obtain g2 where g2: "pin_set (stepPin sg) False g1 = Some g2" using pin_set_some [OF gp] by blast
    let ?fb = "\<lambda>w. tx_set_jointFeedback (cur_fb s) (nat (jointNumber sg)) w"
    let ?t = "\<lambda>w. s\<lparr>txPP := store (txPP s) (getCurrentTxBuffer (txPP s)) (?fb w)\<rparr>"
    have wf: "wf_link (?t w)" for w
      using assms(2) len j by (simp add: wf_link_def tx.inv_put)
    have isr: "isr_writes s (?t w)" for w
      using assms(2) len j tx.alt_cur [of "txPP s"]
      by (simp add: isr_writes_def wf_link_def tx.inv_put tx.cur_put tx.get_put_other)
    have cf: "cur_fb (?t w) = ?fb w" for w
      using assms(2) by (simp add: wf_link_def cur_fb_def tx.cur_put tx.get_put)
    show ?thesis
      using False assms mk g1 g2 wf isr cf tx_set_get(4) [OF len j]
      by (auto simp: base_tick_def stopPulses_def wf_stepgen_def)
  qed
qed

lemma isr_writes_cmd: "isr_writes s s' \<Longrightarrow> cur_cmd s' = cur_cmd s"
  by (simp add: isr_writes_def cur_cmd_def)

lemma isr_writes_trans: "isr_writes s t \<Longrightarrow> isr_writes t u \<Longrightarrow> isr_writes s u"
  by (auto simp: isr_writes_def pp_defs)

lemma isr_writes_refl: "wf_link s \<Longrightarrow> isr_writes s s"
  by (simp add: isr_writes_def wf_link_def)

lemma steps_of_mono: "x \<le> y \<Longrightarrow> steps_of x \<le> steps_of y"
  by (simp add: steps_of_def zdiv_mono1 STEPBIT_def)

lemma steps_of_run:
  assumes "steps_of (x + int (Suc n) * a) = steps_of x"
  shows "steps_of (x + int n * a) = steps_of x"
proof (cases "0 \<le> a")
  case True
  then have "x \<le> x + int n * a" "x + int n * a \<le> x + int (Suc n) * a" by (simp_all add: algebra_simps)
  then show ?thesis using assms steps_of_mono by (metis order_antisym)
next
  case False
  then have "x + int n * a \<le> x" "x + int (Suc n) * a \<le> x + int n * a"
    by (simp_all add: algebra_simps mult_nonpos_nonneg)
  then show ?thesis using assms steps_of_mono by (metis order_antisym)
qed

lemma base_ticks_settled:
  assumes "wf_stepgen sg" "wf_link s" "enabled_for sg s"
    and "dds_add (sint (command_for sg s)) (frequencyScale sg) = Some a"
    and "DDSaccumulator sg = word_of_int x" "\<bar>a\<bar> \<le> 2 ^ STEPBIT" "lastDir sg = (0 < a)"
  shows "\<exists>sg' s' g'. base_ticks n (sg, s, g) = Some (sg', s', g') \<and> wf_stepgen sg' \<and> wf_link s'
    \<and> jointNumber sg' = jointNumber sg \<and> joint_mask sg' = joint_mask sg \<and> frequencyScale sg' = frequencyScale sg
    \<and> lastDir sg' = (0 < a) \<and> DDSaccumulator sg' = word_of_int (x + int n * a) \<and> isr_writes s s'
    \<and> rawCount sg' = rawCount sg + word_of_int (steps_of (x + int n * a) - steps_of x)
    \<and> tx_jointFeedback (cur_fb s') (nat (jointNumber sg)) =
        (if steps_of (x + int n * a) = steps_of x then tx_jointFeedback (cur_fb s) (nat (jointNumber sg)) else rawCount sg')"
proof (induction n)
  case 0
  then show ?case using assms isr_writes_refl by simp
next
  case (Suc n)
  let ?y = "x + int n * a"
  obtain sg1 s1 g1 where r1: "base_ticks n (sg, s, g) = Some (sg1, s1, g1)" "wf_stepgen sg1" "wf_link s1"
      "jointNumber sg1 = jointNumber sg" "joint_mask sg1 = joint_mask sg" "frequencyScale sg1 = frequencyScale sg"
      "lastDir sg1 = (0 < a)" "DDSaccumulator sg1 = word_of_int ?y" "isr_writes s s1"
      "rawCount sg1 = rawCount sg + word_of_int (steps_of ?y - steps_of x)"
    and fb1: "tx_jointFeedback (cur_fb s1) (nat (jointNumber sg)) =
        (if steps_of ?y = steps_of x then tx_jointFeedback (cur_fb s) (nat (jointNumber sg)) else rawCount sg1)"
    using Suc.IH by blast
  have cmd: "enabled_for sg1 s1" "command_for sg1 s1 = command_for sg s"
    using assms(3) r1(4,5) isr_writes_cmd [OF r1(9)] by (simp_all add: enabled_for_def command_for_def)
  have z: "?y + a = x + int (Suc n) * a" by (simp add: algebra_simps)
  obtain sg2 s2 g2 where r2: "base_tick (sg1, s1, g1) = Some (sg2, s2, g2)" "wf_stepgen sg2" "wf_link s2"
      "jointNumber sg2 = jointNumber sg1" "joint_mask sg2 = joint_mask sg1" "frequencyScale sg2 = frequencyScale sg1"
      "lastDir sg2 = (0 < a)" "DDSaccumulator sg2 = word_of_int (?y + a)" "isr_writes s1 s2"
      "rawCount sg2 = rawCount sg1 + word_of_int (steps_of (?y + a) - steps_of ?y)"
    and fb2: "tx_jointFeedback (cur_fb s2) (nat (jointNumber sg1)) =
        (if steps_of (?y + a) = steps_of ?y then tx_jointFeedback (cur_fb s1) (nat (jointNumber sg1)) else rawCount sg2)"
    using base_tick_settled [OF r1(2,3) cmd(1), of a ?y g1] r1 cmd(2) assms(4,6) by metis
  have "tx_jointFeedback (cur_fb s2) (nat (jointNumber sg)) =
      (if steps_of (x + int (Suc n) * a) = steps_of x then tx_jointFeedback (cur_fb s) (nat (jointNumber sg)) else rawCount sg2)"
    using fb1 fb2 r1(4) r2(10) steps_of_run [of x n a] unfolding z by (auto split: if_splits)
  moreover have "rawCount sg2 = rawCount sg + word_of_int (steps_of (x + int (Suc n) * a) - steps_of x)"
    using r1(10) r2(10) by (simp add: z)
  moreover have "base_ticks (Suc n) (sg, s, g) = Some (sg2, s2, g2)" using r1(1) r2(1) by simp
  ultimately show ?case
    using r1 r2 isr_writes_trans [OF r1(9) r2(9)] by (metis z)
qed

text \<open>C31: For a thread frequency \<open>T\<close> of at most \<open>2 ^ 21\<close> Hz, a joint that is enabled, whose direction
  output is settled, and whose command is \<open>f\<close> steps per second with \<open>\<bar>f\<bar> < T\<close>, has moved after \<open>n\<close> base
  periods by \<open>N\<close> steps with \<open>N = f * n / T\<close> up to one step plus one step in \<open>2 ^ 21\<close> periods: the float
  scaling, the truncation to an integer increment and the wrap-around of the accumulator cost no more.
  Its position register changed by exactly \<open>N\<close>, and the current feedback shows it if \<open>N\<close> is not zero.\<close>

theorem step_rate:
  assumes "wf_stepgen sg" "wf_link s" "enabled_for sg s"
    and "0 < T" "T \<le> 2097152" "frequencyScale sg = frequency_scale 22 T"
    and "\<bar>sint (command_for sg s)\<bar> < T" "lastDir sg = (0 < sint (command_for sg s))"
  shows "\<exists>sg' s' g' N. base_ticks n (sg, s, g) = Some (sg', s', g')
    \<and> rawCount sg' = rawCount sg + word_of_int N
    \<and> \<bar>N * T - sint (command_for sg s) * int n\<bar> * 2097152 \<le> T * (2097152 + int n)
    \<and> (N \<noteq> 0 \<longrightarrow> tx_jointFeedback (cur_fb s') (nat (jointNumber sg)) = rawCount sg')"
proof -
  define f where "f = sint (command_for sg s)"
  obtain a where a: "dds_add f (frequencyScale sg) = Some a" "\<bar>a * T - f * 4194304\<bar> < 2 * T"
      "f < 0 \<longrightarrow> a \<le> 0" "0 < f \<longrightarrow> 0 \<le> a" "f = 0 \<longrightarrow> a = 0"
    using dds_add_error [of T f] assms(4-7) by (auto simp: f_def)
  have "0 < a" if "0 < f"
  proof (rule ccontr)
    assume "\<not> 0 < a"
    then have "a = 0" using a(4) that by simp
    then show False using a(2) that assms(5) by simp
  qed
  then have sgn: "(0 < a) = (0 < f)" using a(3,5) by (cases f "0 :: int" rule: linorder_cases) auto
  have "\<bar>a\<bar> < 4194305"
  proof (rule ccontr)
    assume "\<not> \<bar>a\<bar> < 4194305"
    then have "4194305 * T \<le> \<bar>a\<bar> * T" using assms(4) by (intro mult_right_mono) auto
    moreover have "\<bar>a\<bar> * T = \<bar>a * T\<bar>" using assms(4) by (simp add: abs_mult)
    moreover have "\<bar>a * T\<bar> \<le> \<bar>f * 4194304\<bar> + 2 * T" using a(2) by linarith
    moreover have "\<bar>f * 4194304\<bar> \<le> (T - 1) * 4194304" using assms(7) by (simp add: f_def abs_mult)
    ultimately have "4194305 * T \<le> (T - 1) * 4194304 + 2 * T" by linarith
    then show False using assms(5) by (simp add: algebra_simps)
  qed
  then have ab: "\<bar>a\<bar> \<le> 2 ^ STEPBIT" by (simp add: STEPBIT_def)
  define x where "x = sint (DDSaccumulator sg)"
  have x: "DDSaccumulator sg = word_of_int x" by (simp add: x_def)
  have dir: "lastDir sg = (0 < a)" using assms(8) sgn by (simp add: f_def)
  define N where "N = steps_of (x + int n * a) - steps_of x"
  obtain sg' s' g' where r: "base_ticks n (sg, s, g) = Some (sg', s', g')" "rawCount sg' = rawCount sg + word_of_int N"
    and fb: "N \<noteq> 0 \<longrightarrow> tx_jointFeedback (cur_fb s') (nat (jointNumber sg)) = rawCount sg'"
    using base_ticks_settled [OF assms(1-3) a(1) [unfolded f_def] x ab dir, of n g] unfolding N_def by force
  have "\<bar>N * 4194304 - int n * a\<bar> < 4194304"
    unfolding N_def steps_of_def STEPBIT_def
    using pos_mod_bound [of 4194304 "x + int n * a"] pos_mod_bound [of 4194304 x]
      pos_mod_sign [of 4194304 "x + int n * a"] pos_mod_sign [of 4194304 x]
      mult_div_mod_eq [of 4194304 "x + int n * a"] mult_div_mod_eq [of 4194304 x]
    by (simp add: left_diff_distrib)
  then have "\<bar>N * 4194304 - int n * a\<bar> * T \<le> 4194304 * T" using assms(4) by (intro mult_right_mono) auto
  moreover have "\<bar>N * 4194304 - int n * a\<bar> * T = \<bar>(N * 4194304 - int n * a) * T\<bar>"
    using assms(4) by (simp add: abs_mult)
  ultimately have e1: "\<bar>N * 4194304 * T - int n * (a * T)\<bar> \<le> 4194304 * T"
    by (simp add: left_diff_distrib mult.assoc)
  have "\<bar>int n * (a * T) - int n * (f * 4194304)\<bar> = int n * \<bar>a * T - f * 4194304\<bar>"
    by (simp add: right_diff_distrib [symmetric] abs_mult)
  also have "\<dots> \<le> int n * (2 * T)" using a(2) by (intro mult_left_mono) auto
  finally have e2: "\<bar>int n * (a * T) - int n * (f * 4194304)\<bar> \<le> 2 * (int n * T)" by simp
  have "\<bar>N * T - f * int n\<bar> * 4194304 = \<bar>N * 4194304 * T - int n * (f * 4194304)\<bar>"
  proof -
    have "(N * T - f * int n) * 4194304 = N * 4194304 * T - int n * (f * 4194304)" by (simp add: algebra_simps)
    then show ?thesis by (metis abs_mult abs_numeral)
  qed
  also have "\<dots> \<le> 4194304 * T + 2 * (int n * T)" using e1 e2 by linarith
  finally have "\<bar>N * T - f * int n\<bar> * 2097152 \<le> T * (2097152 + int n)" by (simp add: algebra_simps)
  then show ?thesis using r fb unfolding f_def by blast
qed

text \<open>A joint 0 commanded at 1000 steps per second, with its pins on \<open>PA_0\<close> and \<open>PA_1\<close>.\<close>

definition demo_packet :: packet where
  "demo_packet = replicate 4 0 @ le32 1000 @ replicate 36 0 @ [1] @ replicate 19 0"

definition demo_link :: "packet \<Rightarrow> link" where
  "demo_link p = \<lparr>rxPP = \<lparr>buffers = [p, replicate 64 0], currentBuffer = 0\<rparr>, txPP = zero_pingpong,
     comms = \<lparr>data = False, status = True, noDataCount = 0\<rparr>\<rparr>"

definition demo_stepgen :: "int \<Rightarrow> bool \<Rightarrow> i32 \<Rightarrow> stepgen" where
  "demo_stepgen T d count = \<lparr>jointNumber = 0, joint_mask = 1,
     stepPin = (blank_pin ''PA_0'' 1 GPIO_MODE_OUTPUT_PP (Some GPIO_NOPULL))\<lparr>GPIOx := Some 0, pinMask := 1\<rparr>,
     directionPin = (blank_pin ''PA_1'' 1 GPIO_MODE_OUTPUT_PP (Some GPIO_NOPULL))\<lparr>GPIOx := Some 0, pinMask := 2\<rparr>,
     isEnabled = True, isForward = d, lastDir = d, isStepping = False, frequencyCommand = 0, rawCount = count,
     DDSaccumulator = 0, DDSaddValue = 0, frequencyScale = frequency_scale 22 T, stepBit = 22\<rparr>"

definition zero_gpio :: gpio where
  "zero_gpio = \<lparr>odr = \<lambda>_. 0, idr = \<lambda>_. 0, clocks = {}, config = \<lambda>_ _. None\<rparr>"

lemma demo_packet_fields:
  "length demo_packet = 64" "rx_jointFreqCmd demo_packet 0 = 1000" "rx_jointEnable demo_packet = 1"
  using un_le32_le32 [of 1000]
  by (simp_all add: demo_packet_def rx_jointFreqCmd_def rx_jointEnable_def read_le32_def nth_byte_def nth_append le32_def nth_Cons')

lemma wf_demo_link: "length p = 64 \<Longrightarrow> wf_link (demo_link p)"
  using wf_zero_pingpong by (simp add: demo_link_def wf_link_def) (simp add: wf_pingpong_def BUFFER_SIZE_def)

lemma cur_cmd_demo_link: "cur_cmd (demo_link p) = p"
  by (simp add: cur_cmd_def demo_link_def pp_defs)

lemma wf_demo_stepgen: "wf_stepgen (demo_stepgen T d c)"
  by (simp add: demo_stepgen_def wf_stepgen_def blank_pin_def JOINTS_def)

theorem step_rate_witness:
  "\<exists>sg' s' g' N. base_ticks 40000 (demo_stepgen 40000 True 7, demo_link demo_packet, zero_gpio) = Some (sg', s', g')
    \<and> rawCount sg' = 7 + word_of_int N \<and> \<bar>N * 40000 - 40000000\<bar> * 2097152 \<le> 40000 * 2137152"
proof -
  have c: "command_for (demo_stepgen 40000 True 7) (demo_link demo_packet) = 1000"
    by (simp add: command_for_def cur_cmd_demo_link demo_stepgen_def demo_packet_fields)
  have "enabled_for (demo_stepgen 40000 True 7) (demo_link demo_packet)"
    by (simp add: enabled_for_def cur_cmd_demo_link demo_stepgen_def demo_packet_fields)
  then have "\<exists>sg' s' g' N. base_ticks 40000 (demo_stepgen 40000 True 7, demo_link demo_packet, zero_gpio) = Some (sg', s', g')
    \<and> rawCount sg' = rawCount (demo_stepgen 40000 True 7) + word_of_int N
    \<and> \<bar>N * 40000 - sint (1000 :: i32) * int 40000\<bar> * 2097152 \<le> 40000 * (2097152 + int 40000)
    \<and> (N \<noteq> 0 \<longrightarrow> tx_jointFeedback (cur_fb s') (nat (jointNumber (demo_stepgen 40000 True 7))) = rawCount sg')"
    using step_rate [OF wf_demo_stepgen wf_demo_link, of demo_packet 40000 True 7 40000 40000 zero_gpio]
    by (simp only: c demo_packet_fields) (simp add: demo_stepgen_def)
  then show ?thesis by (simp add: demo_stepgen_def) blast
qed

subsection \<open>Pulses, direction and position\<close>

lemma make_pulses_cases:
  assumes "makePulses sg s g = Some (sg', s', g')"
  shows "(s' = s \<and> g' = g \<and> rawCount sg' = rawCount sg \<and> lastDir sg' = lastDir sg)
    \<or> (lastDir sg' = (\<not> lastDir sg) \<and> s' = s \<and> rawCount sg' = rawCount sg
        \<and> pin_set (directionPin sg) (lastDir sg') g = Some g')
    \<or> (lastDir sg' = lastDir sg \<and> isStepping sg'
        \<and> rawCount sg' = (if lastDir sg then rawCount sg + 1 else rawCount sg - 1)
        \<and> s' = s\<lparr>txPP := store (txPP s) (getCurrentTxBuffer (txPP s))
              (tx_set_jointFeedback (cur_fb s) (nat (jointNumber sg)) (rawCount sg'))\<rparr>
        \<and> pin_set (stepPin sg) True g = Some g')"
proof (cases "rx_jointEnable (deref (rxPP s) (getCurrentRxBuffer (rxPP s))) AND joint_mask sg = 0")
  case True
  then show ?thesis using assms by (auto simp: makePulses_def)
next
  case False
  let ?cmd = "rx_jointFreqCmd (deref (rxPP s) (getCurrentRxBuffer (rxPP s))) (nat (jointNumber sg))"
  have j: "\<not> (jointNumber sg < 0 \<or> int JOINTS \<le> jointNumber sg)"
    using False assms by (simp add: makePulses_def Let_def split: if_splits)
  obtain a where a: "dds_add (sint ?cmd) (frequencyScale sg) = Some a"
    using False j assms by (cases "dds_add (sint ?cmd) (frequencyScale sg)") (simp_all add: makePulses_def Let_def)
  let ?now = "(DDSaccumulator sg XOR (DDSaccumulator sg + word_of_int a)) AND push_bit (stepBit sg) 1 \<noteq> 0"
  consider "lastDir sg \<noteq> (0 < a)" | "lastDir sg = (0 < a)" "\<not> ?now" | "lastDir sg = (0 < a)" ?now by blast
  then show ?thesis
  proof cases
    case 1
    then show ?thesis using assms False j
      by (cases "pin_set (directionPin sg) (0 < a) g"; cases "0 < a") (simp_all add: makePulses_def Let_def a, auto)
  next
    case 2
    then show ?thesis using assms False j by (simp add: makePulses_def Let_def a) auto
  next
    case 3
    then show ?thesis using assms False j
      by (cases "pin_set (stepPin sg) True g"; cases "0 < a") (simp_all add: makePulses_def Let_def a cur_fb_def, auto)
  qed
qed

text \<open>What \<open>makePulses\<close> does to the outside is one of three things: nothing; a flip of the direction
  output with no step; or a step, that is the step pin raised with the direction output as it was,
  the position moved by one in that direction, and the new position in the current feedback.\<close>

theorem make_pulses_effects:
  assumes "makePulses sg s g = Some (sg', s', g')"
  shows "(s' = s \<and> g' = g \<and> rawCount sg' = rawCount sg \<and> lastDir sg' = lastDir sg)
    \<or> (lastDir sg' = (\<not> lastDir sg) \<and> s' = s \<and> rawCount sg' = rawCount sg
        \<and> pin_set (directionPin sg) (lastDir sg') g = Some g')
    \<or> (lastDir sg' = lastDir sg \<and> isStepping sg'
        \<and> rawCount sg' = (if lastDir sg then rawCount sg + 1 else rawCount sg - 1)
        \<and> s' = s\<lparr>txPP := store (txPP s) (getCurrentTxBuffer (txPP s))
              (tx_set_jointFeedback (cur_fb s) (nat (jointNumber sg)) (rawCount sg'))\<rparr>
        \<and> pin_set (stepPin sg) True g = Some g')"
  by (rule make_pulses_cases [OF assms])

theorem make_pulses_effects_witness:
  "\<exists>sg' g'. makePulses (demo_stepgen 40000 False 7) (demo_link demo_packet) zero_gpio = Some (sg', demo_link demo_packet, g')
    \<and> lastDir sg' \<and> rawCount sg' = 7"
proof -
  let ?sg = "demo_stepgen 40000 False 7" and ?s = "demo_link demo_packet"
  have c: "rx_jointFreqCmd (deref (rxPP ?s) (getCurrentRxBuffer (rxPP ?s))) (nat (jointNumber ?sg)) = 1000"
    and e: "rx_jointEnable (deref (rxPP ?s) (getCurrentRxBuffer (rxPP ?s))) AND joint_mask ?sg \<noteq> 0"
    using demo_packet_fields by (simp_all add: demo_link_def pp_defs demo_stepgen_def)
  obtain a where a: "dds_add 1000 (frequency_scale 22 40000) = Some a" "\<bar>a * 40000 - 1000 * 4194304\<bar> < 2 * 40000"
    using dds_add_error [of 40000 1000] by auto
  then have "0 < a" by linarith
  obtain g' where g': "pin_set (directionPin ?sg) True zero_gpio = Some g'"
    by (simp add: pin_set_def demo_stepgen_def blank_pin_def)
  have r: "makePulses ?sg ?s zero_gpio = Some (?sg\<lparr>isEnabled := True, frequencyCommand := 1000,
      DDSaddValue := word_of_int a, DDSaccumulator := word_of_int a, isForward := True, lastDir := True\<rparr>, ?s, g')"
    using a(1) c e g' \<open>0 < a\<close> by (simp add: makePulses_def Let_def demo_stepgen_def JOINTS_def)
  show ?thesis using make_pulses_effects [OF r] r by (auto simp: demo_stepgen_def)
qed

text \<open>Feedback is written on a step only, into the buffer that is current at that moment, and a
  request retires that buffer: when a joint stands still, the position in the reply to the request after
  the next is the one that was in the other feedback buffer before, and not the joint's position.\<close>

theorem idle_joint_reports_other_buffer:
  assumes "wf_stepgen sg" "wf_link s" "enabled_for sg s" "command_for sg s = 0" "\<not> lastDir sg"
    and "frequencyScale sg = frequency_scale 22 T" "0 < T" "T < 16777216"
    and "length rd = 64" "rx_header rd = PRU_READ"
    and "udp_data_callback True addr port rd s = Some (s1, r1)"
    and "base_ticks n (sg, s1, g) = Some (sg', s2, g')"
    and "udp_data_callback True addr port rd s2 = Some (s3, r2)"
  shows "\<exists>reply. r2 = Some (addr, port, reply)
    \<and> tx_jointFeedback reply (nat (jointNumber sg))
        = tx_jointFeedback (deref (txPP s) (getAltTxBuffer (txPP s))) (nat (jointNumber sg))
    \<and> rawCount sg' = rawCount sg"
proof -
  let ?j = "nat (jointNumber sg)"
  have j: "?j < JOINTS" using assms(1) by (auto simp: wf_stepgen_def)
  have rd: "packet_of t rd = rd" if "wf_link t" for t using that assms(9) by (simp add: packet_of_full)
  have s1: "s1 = retire_tx PRU_DATA (fill s rd)" and wf1: "wf_link s1"
    using assms(2,9-11) by (auto simp: udp_data_callback_cases rd)
  have cmd1: "cur_cmd s1 = cur_cmd s"
    using s1 assms(2) cur_cmd_fill [of s rd] by (simp add: cur_cmd_def)
  have fb1: "cur_fb s1 = deref (txPP s) (getAltTxBuffer (txPP s))"
    using assms(2) tx.alt_cur [of "txPP s"]
    by (simp add: s1 cur_fb_def retire_tx_def fill_def wf_link_def tx.cur_put tx.swap_cur tx.get_put_other
      tx.inv_swap tx.swap_alt tx.get_swap)
  have e1: "enabled_for sg s1" and c1: "command_for sg s1 = 0"
    using assms(3,4) cmd1 by (simp_all add: enabled_for_def command_for_def)
  obtain a where "dds_add 0 (frequencyScale sg) = Some a" "a = 0"
    using dds_add_error [of T 0] assms(6-8) by auto
  then have d0: "dds_add (sint (command_for sg s1)) (frequencyScale sg) = Some 0" by (simp add: c1)
  have x: "DDSaccumulator sg = word_of_int (sint (DDSaccumulator sg))" by simp
  have r: "wf_link s2" "rawCount sg' = rawCount sg" "tx_jointFeedback (cur_fb s2) ?j = tx_jointFeedback (cur_fb s1) ?j"
    using base_ticks_settled [OF assms(1) wf1 e1 d0 x, of n g] assms(5,12) by simp_all
  have "r2 = Some (addr, port, reply_of PRU_DATA s2)"
    using r(1) assms(9,10,13) by (simp add: udp_data_callback_cases rd)
  moreover have "length (cur_fb s2) = 64" using r(1) by (simp add: cur_fb_def)
  ultimately show ?thesis using r fb1 j by (simp add: reply_of_def tx_set_get)
qed

text \<open>A joint that stands at 7 while the other feedback buffer still says 0.\<close>

definition idle_packet :: packet where
  "idle_packet = replicate 44 0 @ [1] @ replicate 19 0"

theorem idle_joint_reports_other_buffer_witness:
  "\<exists>s1 r1 sg' s2 g' s3 reply.
    udp_data_callback True () 27181 (le32 PRU_READ @ replicate 60 0) (demo_link idle_packet) = Some (s1, r1)
    \<and> base_ticks 40 (demo_stepgen 40000 False 7, s1, zero_gpio) = Some (sg', s2, g')
    \<and> udp_data_callback True () 27181 (le32 PRU_READ @ replicate 60 0) s2 = Some (s3, Some ((), 27181, reply))
    \<and> rawCount sg' = 7 \<and> tx_jointFeedback reply 0 = 0"
proof -
  let ?sg = "demo_stepgen 40000 False 7" and ?s = "demo_link idle_packet"
  let ?rd = "le32 PRU_READ @ replicate 60 0"
  have rd: "length ?rd = 64" "rx_header ?rd = PRU_READ"
    by (simp_all add: rx_header_def read_le32_def nth_byte_def le32_def un_le32_le32)
  have len: "length idle_packet = 64" by (simp add: idle_packet_def)
  have en: "rx_jointEnable idle_packet = 1" "rx_jointFreqCmd idle_packet 0 = 0"
    by (simp_all add: idle_packet_def rx_jointFreqCmd_def rx_jointEnable_def read_le32_def nth_byte_def nth_append un_le32_def)
  have e: "enabled_for ?sg ?s" "command_for ?sg ?s = 0"
    by (simp_all add: enabled_for_def command_for_def cur_cmd_demo_link en demo_stepgen_def)
  have p: "packet_of t ?rd = ?rd" if "wf_link t" for t using that by (intro packet_of_full) (simp_all add: rd)
  have r1: "udp_data_callback True () 27181 ?rd ?s = Some (retire_tx PRU_DATA (fill ?s ?rd), Some ((), 27181, reply_of PRU_DATA ?s))"
    using wf_demo_link [OF len] rd by (simp add: udp_data_callback_cases p)
  let ?s1 = "retire_tx PRU_DATA (fill ?s ?rd)"
  have wf1: "wf_link ?s1" using wf_demo_link [OF len] by simp
  have cmd1: "cur_cmd ?s1 = cur_cmd ?s"
    using wf_demo_link [OF len] cur_cmd_fill [of ?s ?rd] by (simp add: cur_cmd_def)
  have e1: "enabled_for ?sg ?s1" "command_for ?sg ?s1 = 0"
    using e cmd1 by (simp_all add: enabled_for_def command_for_def)
  have d0: "dds_add (sint (command_for ?sg ?s1)) (frequencyScale ?sg) = Some 0"
    unfolding e1 using dds_add_error [of 40000 0] by (auto simp: demo_stepgen_def)
  obtain sg' s2 g' where r2: "base_ticks 40 (?sg, ?s1, zero_gpio) = Some (sg', s2, g')" "wf_link s2"
    using base_ticks_settled [OF wf_demo_stepgen wf1 e1(1) d0, of 0 40 zero_gpio] by (auto simp: demo_stepgen_def)
  obtain s3 where r3: "udp_data_callback True () 27181 ?rd s2 = Some (s3, Some ((), 27181, reply_of PRU_DATA s2))"
    using r2(2) rd by (simp add: udp_data_callback_cases p)
  have "tx_jointFeedback (deref (txPP ?s) (getAltTxBuffer (txPP ?s))) 0 = 0"
    by (simp add: demo_link_def pp_defs zero_pingpong_def tx_jointFeedback_def read_le32_def nth_byte_def un_le32_def)
  then show ?thesis
    using idle_joint_reports_other_buffer [OF wf_demo_stepgen wf_demo_link [OF len] e _ _ _ _ rd r1 r2(1) r3, of 40000]
      r1 r2(1) r3 by (auto simp: demo_stepgen_def)
qed

end
