(* ===== verification/DigitalIO.thy ===== *)
theory DigitalIO
  imports HostLink Gpio
begin

unbundle bit_operations_syntax

text \<open>
  The servo-thread modules over GPIO pins: \<open>DigitalPin\<close>, \<open>Blink\<close> and \<open>Debug\<close>
  (\<open>Src/modules/digitalPin\<close>, \<open>blink\<close>, \<open>debug\<close>). A digital input copies a pin to a bit of the inputs
  of the current feedback buffer, a digital output copies a bit of the outputs of the current command
  buffer to a pin.
\<close>

subsection \<open>Digital pins\<close>

record digital_pin =
  dp_mode :: int
  dp_invert :: bool
  dp_mask :: u32
  dp_pin :: pin

text \<open>\<open>1 << bitNumber\<close> is undefined outside of \<open>0..31\<close>.\<close>

definition DigitalPin_ctor :: "int \<Rightarrow> string \<Rightarrow> int \<Rightarrow> bool \<Rightarrow> nat \<Rightarrow> gpio \<Rightarrow> (digital_pin \<times> gpio) option" where
  "DigitalPin_ctor m name bitNumber inverted modifier g =
     (case Pin3 name m modifier g of None \<Rightarrow> None
      | Some (p, g') \<Rightarrow> if bitNumber < 0 \<or> 32 \<le> bitNumber then None
          else Some (\<lparr>dp_mode = m, dp_invert = inverted, dp_mask = push_bit (nat bitNumber) 1, dp_pin = p\<rparr>, g'))"

definition modifier_of :: "string \<Rightarrow> nat" where
  "modifier_of s = (if s = ''Open Drain'' then OPENDRAIN else if s = ''Pull Up'' then PULLUP
     else if s = ''Pull Down'' then PULLDOWN else if s = ''Pull None'' then PULLNONE else NONE)"

text \<open>\<open>createDigitalPin\<close> with the values of the keys \<open>Pin\<close>, \<open>Mode\<close>, \<open>Invert\<close>, \<open>Modifier\<close> and \<open>Data Bit\<close>;
  an unknown mode creates nothing (\<open>Some (None, g)\<close>).\<close>

definition createDigitalPin :: "string \<Rightarrow> string \<Rightarrow> string \<Rightarrow> string \<Rightarrow> int \<Rightarrow> gpio \<Rightarrow> (digital_pin option \<times> gpio) option" where
  "createDigitalPin name md inverted modifier dataBit g =
     (if md = ''Output'' then map_option (apfst Some) (DigitalPin_ctor 1 name dataBit (inverted = ''True'') (modifier_of modifier) g)
      else if md = ''Input'' then map_option (apfst Some) (DigitalPin_ctor 0 name dataBit (inverted = ''True'') (modifier_of modifier) g)
      else Some (None, g))"

definition DigitalPin_update :: "digital_pin \<Rightarrow> link \<Rightarrow> gpio \<Rightarrow> (link \<times> gpio) option" where
  "DigitalPin_update d s g =
     (let rx = getCurrentRxBuffer (rxPP s); tx = getCurrentTxBuffer (txPP s)
      in if dp_mode d = 0 then
           (case pin_get (dp_pin d) g of None \<Rightarrow> None
            | Some level \<Rightarrow>
              let pinState = (if dp_invert d then \<not> level else level);
                  old = tx_inputs (deref (txPP s) tx);
                  new = (if pinState then old OR dp_mask d else old AND NOT (dp_mask d))
              in Some (s\<lparr>txPP := store (txPP s) tx (tx_set_inputs (deref (txPP s) tx) new)\<rparr>, g))
         else
           let raw = (rx_outputs (deref (rxPP s) rx) AND dp_mask d \<noteq> 0);
               pinState = (if dp_invert d then \<not> raw else raw)
           in map_option (Pair s) (pin_set (dp_pin d) pinState g))"

lemma and_push_bit_iff: "((w :: 'a::len word) AND push_bit k 1 \<noteq> 0) = bit w k"
  by (simp only: bit_iff_and_push_bit_not_eq_0)

lemma bit_set_clear:
  "k < 32 \<Longrightarrow> bit ((w :: u32) OR push_bit k 1) i = (i = k \<or> bit w i)"
  "k < 32 \<Longrightarrow> bit ((w :: u32) AND NOT (push_bit k 1)) i = (i \<noteq> k \<and> bit w i)"
  by (auto simp: bit_simps dest: bit_u32_high)

lemma DigitalPin_input:
  assumes "wf_link s" "dp_mode d = 0" "dp_mask d = push_bit k 1" "k < 32" "pin_get (dp_pin d) g = Some level"
  shows "\<exists>s'. DigitalPin_update d s g = Some (s', g) \<and> rxPP s' = rxPP s \<and> comms s' = comms s
    \<and> (\<forall>i. bit (tx_inputs (cur_fb s')) i = (if i = k then level \<noteq> dp_invert d else bit (tx_inputs (cur_fb s)) i))
    \<and> (\<forall>j < JOINTS. tx_jointFeedback (cur_fb s') j = tx_jointFeedback (cur_fb s) j)"
proof -
  have len: "length (cur_fb s) = 64" using assms(1) by (simp add: cur_fb_def)
  let ?p = "\<lambda>w. tx_set_inputs (cur_fb s) w"
  let ?t = "\<lambda>w. s\<lparr>txPP := store (txPP s) (getCurrentTxBuffer (txPP s)) (?p w)\<rparr>"
  have cf: "cur_fb (?t w) = ?p w" for w
    using assms(1) by (simp add: wf_link_def cur_fb_def tx.cur_put tx.get_put)
  show ?thesis
    using assms(2-5) by (auto simp: DigitalPin_update_def cur_fb_def [symmetric] Let_def cf tx_set_get [OF len] bit_set_clear
      simp del: push_bit_of_1)
qed

lemma DigitalPin_output:
  assumes "dp_mode d \<noteq> 0" "dp_mask d = push_bit k 1" "k < 32"
  shows "DigitalPin_update d s g = map_option (Pair s) (pin_set (dp_pin d) (bit (rx_outputs (cur_cmd s)) k \<noteq> dp_invert d) g)"
  using assms by (cases "bit (rx_outputs (cur_cmd s)) k")
    (auto simp: DigitalPin_update_def cur_cmd_def Let_def and_push_bit_iff simp del: push_bit_of_1)

text \<open>A pin made by the driver for port \<open>port\<close> and line \<open>n\<close>.\<close>

definition drives :: "pin \<Rightarrow> nat \<Rightarrow> nat \<Rightarrow> bool" where
  "drives p port n \<longleftrightarrow> GPIOx p = Some port \<and> pinMask p = push_bit n 1 \<and> n < 16"

lemma Pin2_drives:
  assumes "port < 8" "n < 16" "s = pin_name port n \<or> s = pin_name2 port n \<and> n \<noteq> 9"
  shows "\<exists>p g'. Pin2 s d g = Some (p, g') \<and> drives p port n"
  using configPin_name [OF assms(1,2), of "blank_pin s d (if d = 0 then GPIO_MODE_INPUT else GPIO_MODE_OUTPUT_PP) (Some GPIO_NOPULL)"] assms
  by (simp add: Pin2_def initPin_def drives_def blank_pin_def)

lemma pin_set_drives: "drives p port n \<Longrightarrow> pin_set p v g = Some (HAL_GPIO_WritePin port (push_bit n 1) v g)"
  by (simp add: pin_set_def drives_def)

lemma pin_get_drives: "drives p port n \<Longrightarrow> pin_get p g = Some (bit (idr g port) n)"
  by (simp add: pin_get_def drives_def HAL_GPIO_ReadPin_def and_push_bit_iff del: push_bit_of_1)

text \<open>A digital input on line \<open>n\<close> of a port sets its data bit in the inputs sent to LinuxCNC to the
  level of that line, inverted if so configured, and changes no other bit and no joint feedback.\<close>

theorem digital_input_bit:
  assumes "wf_link s" "dp_mode d = 0" "dp_mask d = push_bit k 1" "k < 32" "drives (dp_pin d) port n"
  shows "\<exists>s'. DigitalPin_update d s g = Some (s', g) \<and> rxPP s' = rxPP s \<and> comms s' = comms s
    \<and> (\<forall>i. bit (tx_inputs (cur_fb s')) i = (if i = k then bit (idr g port) n \<noteq> dp_invert d else bit (tx_inputs (cur_fb s)) i))
    \<and> (\<forall>j < JOINTS. tx_jointFeedback (cur_fb s') j = tx_jointFeedback (cur_fb s) j)"
  by (rule DigitalPin_input [OF assms(1-4) pin_get_drives [OF assms(5)]])

text \<open>A digital output drives its line to its data bit of the current command, inverted if so
  configured, and no other line of any port.\<close>

theorem digital_output_line:
  assumes "dp_mode d \<noteq> 0" "dp_mask d = push_bit k 1" "k < 32" "drives (dp_pin d) port n"
  shows "\<exists>g'. DigitalPin_update d s g = Some (s, g')
    \<and> (\<forall>q m. bit (odr g' q) m = (if q = port \<and> m = n then bit (rx_outputs (cur_cmd s)) k \<noteq> dp_invert d else bit (odr g q) m))"
proof -
  have "n < 16" using assms(4) by (simp add: drives_def)
  then show ?thesis
    using DigitalPin_output [OF assms(1-3)] bit_write_pin [of n port]
    by (simp add: pin_set_drives [OF assms(4)] del: push_bit_of_1)
qed

definition demo_input :: digital_pin where
  "demo_input = \<lparr>dp_mode = 0, dp_invert = True, dp_mask = push_bit 3 1,
     dp_pin = (blank_pin ''PC_13'' 0 GPIO_MODE_INPUT (Some GPIO_NOPULL))\<lparr>GPIOx := Some 2, pinMask := push_bit 13 1\<rparr>\<rparr>"

lemma demo_drives: "drives (dp_pin demo_input) 2 13"
  by (simp add: drives_def demo_input_def blank_pin_def)

theorem digital_input_bit_witness:
  "\<exists>s'. DigitalPin_update demo_input \<lparr>rxPP = zero_pingpong, txPP = zero_pingpong, comms = \<lparr>data = False, status = False, noDataCount = 0\<rparr>\<rparr>
        \<lparr>odr = \<lambda>_. 0, idr = \<lambda>_. 0, clocks = {}, config = \<lambda>_ _. None\<rparr>
      = Some (s', \<lparr>odr = \<lambda>_. 0, idr = \<lambda>_. 0, clocks = {}, config = \<lambda>_ _. None\<rparr>)
    \<and> bit (tx_inputs (cur_fb s')) 3"
  using digital_input_bit [of "\<lparr>rxPP = zero_pingpong, txPP = zero_pingpong, comms = \<lparr>data = False, status = False, noDataCount = 0\<rparr>\<rparr>" demo_input 3 2 13
      "\<lparr>odr = \<lambda>_. 0, idr = \<lambda>_. 0, clocks = {}, config = \<lambda>_ _. None\<rparr>"] demo_drives wf_zero_pingpong
  by (auto simp: wf_link_def demo_input_def)

theorem digital_output_line_witness:
  "\<exists>g'. DigitalPin_update (demo_input\<lparr>dp_mode := 1\<rparr>) \<lparr>rxPP = zero_pingpong, txPP = zero_pingpong, comms = \<lparr>data = False, status = False, noDataCount = 0\<rparr>\<rparr>
        \<lparr>odr = \<lambda>_. 0, idr = \<lambda>_. 0, clocks = {}, config = \<lambda>_ _. None\<rparr>
      = Some (\<lparr>rxPP = zero_pingpong, txPP = zero_pingpong, comms = \<lparr>data = False, status = False, noDataCount = 0\<rparr>\<rparr>, g') \<and> bit (odr g' 2) 13"
proof -
  have "rx_outputs (cur_cmd \<lparr>rxPP = zero_pingpong, txPP = zero_pingpong, comms = \<lparr>data = False, status = False, noDataCount = 0\<rparr>\<rparr>) = 0"
    by (simp add: cur_cmd_def zero_pingpong_def pp_defs rx_outputs_def read_le32_def nth_byte_def un_le32_def)
  then show ?thesis
    using digital_output_line [of "demo_input\<lparr>dp_mode := 1\<rparr>" 3 2 13 "\<lparr>rxPP = zero_pingpong, txPP = zero_pingpong, comms = \<lparr>data = False, status = False, noDataCount = 0\<rparr>\<rparr>"
        "\<lparr>odr = \<lambda>_. 0, idr = \<lambda>_. 0, clocks = {}, config = \<lambda>_ _. None\<rparr>"] demo_drives
    by (auto simp: demo_input_def)
qed

subsection \<open>Blink and Debug\<close>

record blink =
  bState :: bool
  periodCount :: u32
  blinkCount :: u32
  blinkPin :: pin

text \<open>The division of the two \<open>uint32_t\<close>s is undefined for a frequency of zero.\<close>

definition Blink_ctor :: "string \<Rightarrow> u32 \<Rightarrow> u32 \<Rightarrow> gpio \<Rightarrow> (blink \<times> gpio) option" where
  "Blink_ctor name threadFreq freq g =
     (if freq = 0 then None
      else (case Pin2 name 1 g of None \<Rightarrow> None
       | Some (p, g1) \<Rightarrow>
           map_option (\<lambda>g2. (\<lparr>bState = False, periodCount = threadFreq div freq, blinkCount = 0, blinkPin = p\<rparr>, g2))
             (pin_set p False g1)))"

definition Blink_update :: "blink \<Rightarrow> gpio \<Rightarrow> (blink \<times> gpio) option" where
  "Blink_update b g =
     (let b1 = b\<lparr>blinkCount := blinkCount b + 1\<rparr>
      in if blinkCount b1 \<ge> periodCount b1 div 2 then
           (let b2 = b1\<lparr>bState := \<not> bState b1\<rparr>
            in map_option (Pair (b2\<lparr>blinkCount := 0\<rparr>)) (pin_set (blinkPin b2) (bState b2) g))
         else Some (b1, g))"

text \<open>\<open>Debug::update\<close> toggles a static variable shared by all instances.\<close>

record debug =
  debug_bState :: bool
  debugPin :: pin

definition Debug_ctor :: "string \<Rightarrow> bool \<Rightarrow> gpio \<Rightarrow> (debug \<times> gpio) option" where
  "Debug_ctor name b g = map_option (apfst (\<lambda>p. \<lparr>debug_bState = b, debugPin = p\<rparr>)) (Pin2 name 1 g)"

definition Debug_update :: "debug \<Rightarrow> bool \<Rightarrow> gpio \<Rightarrow> (bool \<times> gpio) option" where
  "Debug_update d static_value g = map_option (Pair (\<not> static_value)) (pin_set (debugPin d) (\<not> static_value) g)"

fun blink_ticks :: "nat \<Rightarrow> blink \<Rightarrow> gpio \<Rightarrow> (blink \<times> gpio) option" where
  "blink_ticks 0 b g = Some (b, g)"
| "blink_ticks (Suc n) b g = Option.bind (blink_ticks n b g) (\<lambda>(b', g'). Blink_update b' g')"

definition half_period :: "u32 \<Rightarrow> nat" where
  "half_period p = max 1 (unat p div 2)"

lemma half_period_reached:
  assumes "c < half_period p"
  shows "(p div 2 \<le> of_nat c + 1) = (Suc c = half_period p)"
proof -
  have "unat p < 2 ^ 32" using unsigned_less [of p] by simp
  then have "Suc c < 2 ^ 32" using assms by (auto simp: half_period_def max_def split: if_splits)
  then have u: "unat (of_nat c + 1 :: u32) = Suc c" by (simp add: unat_word_ariths unat_of_nat)
  show ?thesis using assms by (auto simp: word_le_nat_alt u unat_div_distrib half_period_def max_def split: if_splits)
qed

lemma blink_run:
  assumes "drives (blinkPin b) port m" "\<not> bState b" "blinkCount b = 0" "\<not> bit (odr g port) m"
  shows "\<exists>b' g'. blink_ticks n b g = Some (b', g') \<and> blinkPin b' = blinkPin b \<and> periodCount b' = periodCount b
    \<and> bState b' = odd (n div half_period (periodCount b)) \<and> blinkCount b' = of_nat (n mod half_period (periodCount b))
    \<and> bit (odr g' port) m = bState b'"
proof (induction n)
  case 0
  then show ?case using assms by (simp add: half_period_def)
next
  case (Suc n)
  let ?h = "half_period (periodCount b)"
  have h: "0 < ?h" by (simp add: half_period_def)
  obtain b1 g1 where IH: "blink_ticks n b g = Some (b1, g1)" "blinkPin b1 = blinkPin b" "periodCount b1 = periodCount b"
      "bState b1 = odd (n div ?h)" "blinkCount b1 = of_nat (n mod ?h)" "bit (odr g1 port) m = bState b1"
    using Suc.IH by blast
  have r: "(periodCount b div 2 \<le> of_nat (n mod ?h) + 1) = (Suc (n mod ?h) = ?h)"
    using h by (intro half_period_reached) simp
  have m: "m < 16" and d1: "drives (blinkPin b1) port m" using assms(1) IH(2) by (simp_all add: drives_def)
  show ?case
  proof (cases "Suc (n mod ?h) = ?h")
    case True
    then show ?thesis
      using IH r pin_set_drives [OF d1] bit_write_pin [OF m, of port] h
      by (simp add: Blink_update_def Let_def div_Suc mod_Suc del: push_bit_of_1)
  next
    case False
    then show ?thesis
      using IH r h by (simp add: Blink_update_def Let_def div_Suc mod_Suc add.commute)
  qed
qed

text \<open>A blink output is a square wave: after \<open>n\<close> servo periods its line is high exactly in the odd
  half-waves, each \<open>threadFreq / freq / 2\<close> periods long (one period at the least).\<close>

theorem blink_square_wave:
  assumes "drives (blinkPin b) port m" "Blink_ctor name threadFreq freq g0 = Some (b, g)"
  shows "\<exists>b' g'. blink_ticks n b g = Some (b', g')
    \<and> bit (odr g' port) m = odd (n div max 1 (unat (threadFreq div freq) div 2))"
proof -
  obtain p g1 where "Pin2 name 1 g0 = Some (p, g1)" and b: "b = \<lparr>bState = False, periodCount = threadFreq div freq, blinkCount = 0, blinkPin = p\<rparr>"
    and g: "pin_set p False g1 = Some g"
    using assms(2) by (auto simp: Blink_ctor_def split: if_splits option.splits)
  have d: "drives p port m" using assms(1) b by simp
  have "m < 16" using d by (simp add: drives_def)
  then have "\<not> bit (odr g port) m"
    using g pin_set_drives [OF d, of False g1] bit_write_pin [of m port False g1 port m] by (simp del: push_bit_of_1)
  then show ?thesis
    using blink_run [of b port m g n] assms(1) b by (auto simp: half_period_def)
qed

theorem blink_square_wave_witness:
  "\<exists>b g b' g'. Blink_ctor ''PC_13'' 1000 4 \<lparr>odr = \<lambda>_. 0, idr = \<lambda>_. 0, clocks = {}, config = \<lambda>_ _. None\<rparr> = Some (b, g)
    \<and> blink_ticks 130 b g = Some (b', g') \<and> bit (odr g' 2) 13"
proof -
  let ?g0 = "\<lparr>odr = \<lambda>_. 0, idr = \<lambda>_. 0, clocks = {}, config = \<lambda>_ _. None\<rparr>"
  have "''PC_13'' = pin_name 2 13" by code_simp
  then obtain p g1 where p: "Pin2 ''PC_13'' 1 ?g0 = Some (p, g1)" "drives p 2 13"
    using Pin2_drives [of 2 13 "''PC_13''" 1 ?g0] by auto
  obtain b g where c: "Blink_ctor ''PC_13'' 1000 4 ?g0 = Some (b, g)" "drives (blinkPin b) 2 13"
    using p pin_set_drives [OF p(2)] by (simp add: Blink_ctor_def)
  have "(1000 :: u32) div 4 = 250" by simp
  then show ?thesis using blink_square_wave [OF c(2,1), of 130] c(1) by auto
qed

end
