(* ===== verification/Threads.thy ===== *)
theory Threads
  imports Stepgen DigitalIO Pwm
begin

unbundle bit_operations_syntax

text \<open>
  Modules and threads (\<open>Src/modules/module.cpp\<close>, \<open>Src/thread\<close>, \<open>Src/interrupt\<close>). A module is the base
  class's counters and one of the derived objects; objects live in a heap (a list) and the threads
  hold pointers into it (indices), so that the step generators that a thread lists twice, for the
  main pass and for the pass after it, are the same objects. The world is what modules act on: the
  link to LinuxCNC, the ports, the PWM timers, and the static variable of \<open>Debug\<close>.
\<close>

record world =
  wlink :: link
  wgpio :: gpio
  wtims :: timers
  wdebug :: bool

subsection \<open>Modules\<close>

text \<open>The state of the one \<open>RemoraComms\<close> object is part of the link.\<close>

datatype module_obj = MStepgen stepgen | MDigitalPin digital_pin | MBlink blink | MPWM pwm | MDebug debug | MComms

fun obj_update :: "module_obj \<Rightarrow> world \<Rightarrow> (module_obj \<times> world) option" where
  "obj_update (MStepgen sg) w =
     map_option (\<lambda>(sg', s', g'). (MStepgen sg', w\<lparr>wlink := s', wgpio := g'\<rparr>)) (makePulses sg (wlink w) (wgpio w))"
| "obj_update (MDigitalPin d) w =
     map_option (\<lambda>(s', g'). (MDigitalPin d, w\<lparr>wlink := s', wgpio := g'\<rparr>)) (DigitalPin_update d (wlink w) (wgpio w))"
| "obj_update (MBlink b) w = map_option (\<lambda>(b', g'). (MBlink b', w\<lparr>wgpio := g'\<rparr>)) (Blink_update b (wgpio w))"
| "obj_update (MPWM p) w =
     map_option (\<lambda>(p', ts'). (MPWM p', w\<lparr>wtims := ts'\<rparr>)) (PWM_update (set_point (rxPP (wlink w))) p (wtims w))"
| "obj_update (MDebug d) w =
     map_option (\<lambda>(v, g'). (MDebug d, w\<lparr>wdebug := v, wgpio := g'\<rparr>)) (Debug_update d (wdebug w) (wgpio w))"
| "obj_update MComms w = Some (MComms, w\<lparr>wlink := (wlink w)\<lparr>comms := RemoraComms_update (comms (wlink w))\<rparr>\<rparr>)"

fun obj_updatePost :: "module_obj \<Rightarrow> world \<Rightarrow> (module_obj \<times> world) option" where
  "obj_updatePost (MStepgen sg) w = map_option (\<lambda>(sg', g'). (MStepgen sg', w\<lparr>wgpio := g'\<rparr>)) (stopPulses sg (wgpio w))"
| "obj_updatePost ob w = Some (ob, w)"

text \<open>No module of the firmware does anything in \<open>slowUpdate\<close>.\<close>

definition obj_slowUpdate :: "module_obj \<Rightarrow> world \<Rightarrow> (module_obj \<times> world) option" where
  "obj_slowUpdate ob w = Some (ob, w)"

record module =
  updateCount :: i32
  counter :: i32
  body :: module_obj

definition Module_ctor :: "module_obj \<Rightarrow> module" where
  "Module_ctor ob = \<lparr>updateCount = 1, counter = 0, body = ob\<rparr>"

definition Module_ctor_slow :: "int \<Rightarrow> int \<Rightarrow> module_obj \<Rightarrow> module option" where
  "Module_ctor_slow threadFreq slowUpdateFreq ob =
     (if slowUpdateFreq = 0 then None
      else Some \<lparr>updateCount = word_of_int (sgn threadFreq * sgn slowUpdateFreq * (\<bar>threadFreq\<bar> div \<bar>slowUpdateFreq\<bar>)),
                 counter = 0, body = ob\<rparr>)"

definition runModule :: "module \<Rightarrow> world \<Rightarrow> (module \<times> world) option" where
  "runModule m w =
     (let m1 = m\<lparr>counter := counter m + 1\<rparr>
      in Option.bind (if updateCount m1 \<le>s counter m1
                      then map_option (\<lambda>(ob, w'). (m1\<lparr>body := ob, counter := 0\<rparr>, w')) (obj_slowUpdate (body m1) w)
                      else Some (m1, w))
           (\<lambda>(m2, w2). map_option (\<lambda>(ob, w'). (m2\<lparr>body := ob\<rparr>, w')) (obj_update (body m2) w2)))"

definition runModulePost :: "module \<Rightarrow> world \<Rightarrow> (module \<times> world) option" where
  "runModulePost m w = map_option (\<lambda>(ob, w'). (m\<lparr>body := ob\<rparr>, w')) (obj_updatePost (body m) w)"

lemma runModule_body:
  "runModule m w = Some (m', w') \<Longrightarrow> obj_update (body m) w = Some (body m', w')"
  by (auto simp: runModule_def obj_slowUpdate_def Let_def split: if_splits)

lemma runModule_some: "(\<exists>m' w'. runModule m w = Some (m', w')) \<longleftrightarrow> (\<exists>r. obj_update (body m) w = Some r)"
  by (auto simp: runModule_def obj_slowUpdate_def Let_def)

subsection \<open>Threads\<close>

record thread =
  slice :: u8
  frequency :: u32
  hasThreadPost :: bool
  vThread :: "nat list"
  vThreadPost :: "nat list"
  semaphore :: bool
  execute :: bool

text \<open>The constructor does not set \<open>hasThreadPost\<close>: it is whatever the memory holds.\<close>

definition pruThread_ctor :: "bool \<Rightarrow> u8 \<Rightarrow> u32 \<Rightarrow> thread" where
  "pruThread_ctor junk sl freq = \<lparr>slice = sl, frequency = freq, hasThreadPost = junk, vThread = [], vThreadPost = [],
     semaphore = False, execute = False\<rparr>"

definition registerModule :: "nat \<Rightarrow> thread \<Rightarrow> thread" where
  "registerModule m t = t\<lparr>vThread := vThread t @ [m]\<rparr>"

definition registerModulePost :: "nat \<Rightarrow> thread \<Rightarrow> thread" where
  "registerModulePost m t = t\<lparr>vThreadPost := vThreadPost t @ [m], hasThreadPost := True\<rparr>"

text \<open>Calling a virtual method of each object of a vector of pointers; a dangling pointer is \<open>None\<close>.\<close>

fun run_list :: "('m \<Rightarrow> 'w \<Rightarrow> ('m \<times> 'w) option) \<Rightarrow> nat list \<Rightarrow> 'm list \<Rightarrow> 'w \<Rightarrow> ('m list \<times> 'w) option" where
  "run_list f [] heap w = Some (heap, w)"
| "run_list f (i # is) heap w =
     (if i < length heap then
        (case f (heap ! i) w of None \<Rightarrow> None
         | Some (m', w') \<Rightarrow> run_list f is (heap[i := m']) w')
      else None)"

text \<open>\<open>pruThread::run\<close>; it never returns (\<open>None\<close>) if it is entered with the semaphore taken. The delay
  loop between the passes has no effect on the state.\<close>

definition run :: "thread \<Rightarrow> module list \<Rightarrow> world \<Rightarrow> (thread \<times> module list \<times> world) option" where
  "run t heap w =
     (if \<not> execute t then Some (t, heap, w)
      else if semaphore t then None
      else
        (let t1 = t\<lparr>semaphore := True\<rparr>
         in case run_list runModule (vThread t1) heap w of None \<Rightarrow> None
          | Some (heap1, w1) \<Rightarrow>
            (case (if hasThreadPost t1 then run_list runModulePost (vThreadPost t1) heap1 w1 else Some (heap1, w1)) of
               None \<Rightarrow> None
             | Some (heap2, w2) \<Rightarrow> Some (t1\<lparr>execute := False, semaphore := False\<rparr>, heap2, w2))))"

text \<open>The timer interrupt of a thread: the base thread (slice 0) runs in it, the servo thread is
  only marked to run.\<close>

definition timerTick :: "thread \<Rightarrow> module list \<Rightarrow> world \<Rightarrow> (thread \<times> module list \<times> world) option" where
  "timerTick t heap w =
     (let t1 = t\<lparr>execute := True\<rparr> in if slice t = 0 then run t1 heap w else Some (t1, heap, w))"

subsection \<open>Interrupt dispatch\<close>

definition PERIPH_COUNT_IRQn :: nat where "PERIPH_COUNT_IRQn = 8"
definition BASE_PERIOD :: int where "BASE_PERIOD = 1000000 div 40000"
definition SERVO_PERIOD :: int where "SERVO_PERIOD = 1000000 div 1000"

text \<open>The vector table holds owners by number; a number outside of the table writes past it.\<close>

definition Interrupt_Register :: "int \<Rightarrow> 'o \<Rightarrow> 'o option list \<Rightarrow> 'o option list option" where
  "Interrupt_Register n owner table =
     (if 0 \<le> n \<and> nat n < length table then Some (table[nat n := Some owner]) else None)"

definition SLICE_Wrapper :: "nat \<Rightarrow> 'o option list \<Rightarrow> 'o option" where
  "SLICE_Wrapper n table = (if n < length table then table ! n else None)"

text \<open>The registers of a thread's timer; the base thread's is TIM5 and the servo thread's TIM4. The
  period register is loaded from the compiled-in frequency, not from the thread's.\<close>

record thread_timer =
  tt_enabled :: bool
  tt_psc :: u32
  tt_arr :: u32
  tt_cnt :: u32
  tt_uie :: bool

definition startTimer :: "thread \<Rightarrow> (nat \<Rightarrow> thread_timer) \<Rightarrow> (nat \<Rightarrow> thread_timer)" where
  "startTimer t tt =
     (if slice t = 0 then tt(5 := (tt 5)\<lparr>tt_psc := 86, tt_arr := word_of_int BASE_PERIOD, tt_cnt := 0, tt_uie := True, tt_enabled := True\<rparr>)
      else if slice t = 1 then tt(4 := (tt 4)\<lparr>tt_psc := 86, tt_arr := word_of_int SERVO_PERIOD, tt_cnt := 0, tt_uie := True, tt_enabled := True\<rparr>)
      else tt)"

definition startThread :: "thread \<Rightarrow> 'o \<Rightarrow> 'o option list \<Rightarrow> (nat \<Rightarrow> thread_timer) \<Rightarrow> ('o option list \<times> (nat \<Rightarrow> thread_timer)) option" where
  "startThread t owner table tt =
     (case Interrupt_Register (uint (slice t)) owner table of None \<Rightarrow> None
      | Some table' \<Rightarrow> Some (table', startTimer t tt))"

subsection \<open>The contract of a pass over modules\<close>

text \<open>What a thread needs from the modules it runs: each keeps its own well-formedness and the
  invariant of the world, and has an effect of the kind the pass allows.\<close>

locale guarded_pass =
  fixes f :: "'m \<Rightarrow> 'w \<Rightarrow> ('m \<times> 'w) option" and ok :: "'m \<Rightarrow> bool" and winv :: "'w \<Rightarrow> bool" and eff :: "'w \<Rightarrow> 'w \<Rightarrow> bool"
  assumes keeps: "ok m \<Longrightarrow> winv w \<Longrightarrow> f m w = Some (m', w') \<Longrightarrow> ok m' \<and> winv w' \<and> eff w w'"
    and eff_refl: "winv w \<Longrightarrow> eff w w"
    and eff_trans: "eff u v \<Longrightarrow> eff v w \<Longrightarrow> eff u w"
begin

definition all_ok :: "nat list \<Rightarrow> 'm list \<Rightarrow> bool" where
  "all_ok is heap \<longleftrightarrow> (\<forall>i \<in> set is. i < length heap \<and> ok (heap ! i))"

lemma all_ok_update: "all_ok (i # is) heap \<Longrightarrow> ok m \<Longrightarrow> all_ok is (heap[i := m])"
  by (auto simp: all_ok_def nth_list_update)

lemma pass_partial:
  assumes "all_ok is heap" "winv w" "run_list f is heap w = Some (heap', w')"
  shows "winv w' \<and> eff w w'"
  using assms
proof (induction "is" arbitrary: heap w)
  case Nil
  then show ?case by (simp add: eff_refl)
next
  case (Cons i "is")
  then have i: "i < length heap" "ok (heap ! i)" by (simp_all add: all_ok_def)
  obtain m w1 where m: "f (heap ! i) w = Some (m, w1)" "run_list f is (heap[i := m]) w1 = Some (heap', w')"
    using Cons.prems(3) i(1) by (auto split: option.splits)
  then have k: "ok m" "winv w1" "eff w w1" using keeps [OF i(2) Cons.prems(2)] by auto
  show ?case using Cons.IH [OF all_ok_update [OF Cons.prems(1) k(1)] k(2) m(2)] k(3) eff_trans by blast
qed

end

text \<open>A pass whose modules always return.\<close>

locale module_pass = guarded_pass +
  assumes total: "ok m \<Longrightarrow> winv w \<Longrightarrow> \<exists>m' w'. f m w = Some (m', w')"
begin

lemma pass:
  assumes "all_ok is heap" "winv w"
  shows "\<exists>heap' w'. run_list f is heap w = Some (heap', w') \<and> winv w' \<and> eff w w' \<and> all_ok is heap'
    \<and> length heap' = length heap \<and> (\<forall>k. k \<notin> set is \<longrightarrow> heap' ! k = heap ! k)"
  using assms
proof (induction "is" arbitrary: heap w)
  case Nil
  then show ?case by (simp add: all_ok_def eff_refl)
next
  case (Cons i "is")
  then have i: "i < length heap" "ok (heap ! i)" by (simp_all add: all_ok_def)
  obtain m w1 where m: "f (heap ! i) w = Some (m, w1)" using total [OF i(2) Cons.prems(2)] by blast
  then have k: "ok m" "winv w1" "eff w w1" using keeps [OF i(2) Cons.prems(2)] by auto
  obtain heap' w' where IH: "run_list f is (heap[i := m]) w1 = Some (heap', w')" "winv w'" "eff w1 w'" "all_ok is heap'"
      "length heap' = length heap" "\<forall>k. k \<notin> set is \<longrightarrow> heap' ! k = heap[i := m] ! k"
    using Cons.IH [OF all_ok_update [OF Cons.prems(1) k(1)] k(2)] by auto
  have "all_ok (i # is) heap'"
    using IH(4-6) i(1) k(1) by (cases "i \<in> set is") (auto simp: all_ok_def)
  then show ?case using m IH i(1) k(3) eff_trans by (auto intro!: exI)
qed

end

text \<open>A pass after which something holds of every module it ran: each run establishes it, and the
  runs of the others do not undo it.\<close>

locale establishing_pass = module_pass +
  fixes est :: "'a \<Rightarrow> 'b \<Rightarrow> bool"
  assumes establishes: "ok m \<Longrightarrow> winv w \<Longrightarrow> f m w = Some (m', w') \<Longrightarrow> est m' w'"
    and stable: "ok m \<Longrightarrow> est m w \<Longrightarrow> eff w w' \<Longrightarrow> est m w'"
begin

lemma pass_establishes:
  assumes "all_ok is heap" "winv w" "run_list f is heap w = Some (heap', w')"
  shows "\<forall>i \<in> set is. est (heap' ! i) w'"
  using assms
proof (induction "is" arbitrary: heap w)
  case Nil
  then show ?case by simp
next
  case (Cons i "is")
  then have i: "i < length heap" "ok (heap ! i)" by (simp_all add: all_ok_def)
  obtain m w1 where m: "f (heap ! i) w = Some (m, w1)" using total [OF i(2) Cons.prems(2)] by blast
  then have k: "ok m" "winv w1" "est m w1"
    using keeps [OF i(2) Cons.prems(2)] establishes [OF i(2) Cons.prems(2)] by auto
  have r: "run_list f is (heap[i := m]) w1 = Some (heap', w')" using Cons.prems(3) i(1) m by simp
  note ok' = all_ok_update [OF Cons.prems(1) k(1)]
  have IH: "\<forall>i \<in> set is. est (heap' ! i) w'" by (rule Cons.IH [OF ok' k(2) r])
  moreover have "est (heap' ! i) w'" if "i \<notin> set is"
  proof -
    have "heap' ! i = m" "eff w1 w'" using pass [OF ok' k(2)] r that i(1) by auto
    then show ?thesis using stable [OF k(1) k(3)] by simp
  qed
  ultimately show ?case by auto
qed

end

subsection \<open>The base thread\<close>

text \<open>A step generator for thread frequency \<open>T\<close>, and a world whose commands it can scale.\<close>

definition base_module :: "int \<Rightarrow> module \<Rightarrow> bool" where
  "base_module T m \<longleftrightarrow> 0 < T \<and> T < 16777216 \<and>
     (\<exists>sg. body m = MStepgen sg \<and> wf_stepgen sg \<and> frequencyScale sg = frequency_scale 22 T)"

definition base_world :: "int \<Rightarrow> world \<Rightarrow> bool" where
  "base_world T w \<longleftrightarrow> wf_link (wlink w) \<and> (\<forall>j < JOINTS. \<bar>sint (rx_jointFreqCmd (cur_cmd (wlink w)) j)\<bar> \<le> T)"

definition base_effect :: "world \<Rightarrow> world \<Rightarrow> bool" where
  "base_effect w w' \<longleftrightarrow> isr_writes (wlink w) (wlink w') \<and> wtims w' = wtims w \<and> wdebug w' = wdebug w"

lemma makePulses_total:
  assumes "wf_stepgen sg" "0 < T" "T < 16777216" "frequencyScale sg = frequency_scale 22 T"
    "\<forall>j < JOINTS. \<bar>sint (rx_jointFreqCmd (cur_cmd s) j)\<bar> \<le> T"
  shows "\<exists>r. makePulses sg s g = Some r"
proof -
  have j: "\<not> (jointNumber sg < 0 \<or> int JOINTS \<le> jointNumber sg)" "nat (jointNumber sg) < JOINTS"
    using assms(1) by (auto simp: wf_stepgen_def)
  obtain a where a: "dds_add (sint (rx_jointFreqCmd (cur_cmd s) (nat (jointNumber sg)))) (frequencyScale sg) = Some a"
    using dds_add_error [OF assms(2,3), of "sint (rx_jointFreqCmd (cur_cmd s) (nat (jointNumber sg)))"] assms(4,5) j by auto
  obtain g1 g2 where "\<And>v. pin_set (directionPin sg) v g = Some (g1 v)" "pin_set (stepPin sg) True g = Some g2"
    using assms(1) by (auto simp: wf_stepgen_def pin_set_def)
  then show ?thesis
    using a j(1) by (auto simp: makePulses_def Let_def cur_cmd_def [symmetric] simp del: split_paired_Ex)
qed

lemma makePulses_keeps:
  assumes "makePulses sg s g = Some (sg', s', g')"
  shows "jointNumber sg' = jointNumber sg \<and> stepPin sg' = stepPin sg \<and> directionPin sg' = directionPin sg
    \<and> stepBit sg' = stepBit sg \<and> frequencyScale sg' = frequencyScale sg"
  using assms by (auto simp: makePulses_def Let_def split: if_splits option.splits)

lemma makePulses_isr:
  assumes "wf_stepgen sg" "wf_link s" "makePulses sg s g = Some (sg', s', g')"
  shows "isr_writes s s' \<and> wf_link s'"
proof -
  have j: "nat (jointNumber sg) < JOINTS" using assms(1) by (auto simp: wf_stepgen_def)
  have len: "length (cur_fb s) = 64" using assms(2) by (simp add: cur_fb_def)
  have "s' = s \<or> (\<exists>w. s' = s\<lparr>txPP := store (txPP s) (getCurrentTxBuffer (txPP s)) (tx_set_jointFeedback (cur_fb s) (nat (jointNumber sg)) w)\<rparr>)"
    using make_pulses_cases [OF assms(3)] by blast
  then show ?thesis
    using assms(2) isr_writes_refl len j tx.alt_cur [of "txPP s"]
    by (auto simp: isr_writes_def wf_link_def tx.inv_put tx.cur_put tx.get_put_other)
qed

lemma base_effect_trans: "base_effect u v \<Longrightarrow> base_effect v w \<Longrightarrow> base_effect u w"
  using isr_writes_trans by (auto simp: base_effect_def)

lemma base_world_isr: "base_world T w \<Longrightarrow> isr_writes (wlink w) (wlink w') \<Longrightarrow> wf_link (wlink w') \<Longrightarrow> base_world T w'"
  using isr_writes_cmd by (simp add: base_world_def)

lemma base_module_run:
  assumes "base_module T m" "base_world T w"
  shows "\<exists>m' w'. runModule m w = Some (m', w')"
    and "runModule m w = Some (m', w') \<Longrightarrow> base_module T m' \<and> base_world T w' \<and> base_effect w w'"
proof -
  obtain sg where sg: "body m = MStepgen sg" "wf_stepgen sg" "frequencyScale sg = frequency_scale 22 T" "0 < T" "T < 16777216"
    using assms(1) by (auto simp: base_module_def)
  have "\<exists>r. makePulses sg (wlink w) (wgpio w) = Some r"
    using assms(2) sg by (intro makePulses_total [of _ T]) (auto simp: base_world_def)
  then have "\<exists>r. obj_update (body m) w = Some r" using sg(1) by auto
  then show "\<exists>m' w'. runModule m w = Some (m', w')" using runModule_some by blast
  show "base_module T m' \<and> base_world T w' \<and> base_effect w w'" if r0: "runModule m w = Some (m', w')"
  proof -
    obtain sg' s' g' where mk: "makePulses sg (wlink w) (wgpio w) = Some (sg', s', g')"
      and r: "body m' = MStepgen sg'" "w' = w\<lparr>wlink := s', wgpio := g'\<rparr>"
      using runModule_body [OF r0] sg(1) by auto
    have "isr_writes (wlink w) s' \<and> wf_link s'"
      using makePulses_isr [OF sg(2) _ mk] assms(2) by (simp add: base_world_def)
    then show ?thesis
      using makePulses_keeps [OF mk] r sg assms(2) base_world_isr [OF assms(2), of w']
      by (auto simp: base_module_def base_effect_def wf_stepgen_def)
  qed
qed

text \<open>The pass after it only lowers lines.\<close>

definition lowers :: "world \<Rightarrow> world \<Rightarrow> bool" where
  "lowers w w' \<longleftrightarrow> wlink w' = wlink w \<and> wtims w' = wtims w \<and> wdebug w' = wdebug w
     \<and> (\<forall>q m. bit (odr (wgpio w') q) m \<longrightarrow> bit (odr (wgpio w) q) m)"

definition step_line_low :: "module \<Rightarrow> world \<Rightarrow> bool" where
  "step_line_low m w \<longleftrightarrow> (\<exists>sg port. body m = MStepgen sg \<and> GPIOx (stepPin sg) = Some port \<and> \<not> isStepping sg
     \<and> odr (wgpio w) port AND pinMask (stepPin sg) = 0)"

lemma base_module_post:
  assumes "base_module T m" "base_world T w"
  shows "\<exists>m' w'. runModulePost m w = Some (m', w')"
    and "runModulePost m w = Some (m', w') \<Longrightarrow> base_module T m' \<and> base_world T w' \<and> lowers w w' \<and> step_line_low m' w'"
proof -
  obtain sg port where sg: "body m = MStepgen sg" "wf_stepgen sg" "frequencyScale sg = frequency_scale 22 T" "0 < T" "T < 16777216"
    "GPIOx (stepPin sg) = Some port"
    using assms(1) by (auto simp: base_module_def wf_stepgen_def)
  have r: "runModulePost m w = Some (m\<lparr>body := MStepgen (sg\<lparr>isStepping := False\<rparr>)\<rparr>,
      w\<lparr>wgpio := HAL_GPIO_WritePin port (pinMask (stepPin sg)) False (wgpio w)\<rparr>)"
    using sg by (simp add: runModulePost_def stopPulses_def pin_set_def)
  then show "\<exists>m' w'. runModulePost m w = Some (m', w')" by blast
  have "(a AND NOT b) AND b = 0" for a b :: u16 by (rule bit_word_eqI) (simp add: bit_simps)
  then show "base_module T m' \<and> base_world T w' \<and> lowers w w' \<and> step_line_low m' w'" if "runModulePost m w = Some (m', w')"
    using that r sg assms(2)
    by (auto simp: base_module_def base_world_def lowers_def step_line_low_def wf_stepgen_def HAL_GPIO_WritePin_def bit_simps
      split: if_splits)
qed

lemma step_line_low_stable: "step_line_low m w \<Longrightarrow> lowers w w' \<Longrightarrow> step_line_low m w'"
proof -
  assume "step_line_low m w" "lowers w w'"
  then obtain sg port where sg: "body m = MStepgen sg" "GPIOx (stepPin sg) = Some port" "\<not> isStepping sg"
    "odr (wgpio w) port AND pinMask (stepPin sg) = 0" by (auto simp: step_line_low_def)
  have "odr (wgpio w') port AND pinMask (stepPin sg) = 0"
  proof (rule bit_word_eqI)
    fix n
    show "bit (odr (wgpio w') port AND pinMask (stepPin sg)) n = bit (0 :: u16) n"
      using \<open>lowers w w'\<close> arg_cong [OF sg(4), of "\<lambda>x. bit x n"] by (auto simp: lowers_def bit_simps)
  qed
  then show ?thesis using sg by (auto simp: step_line_low_def)
qed

text \<open>The two passes of the base thread at frequency \<open>T\<close>.\<close>

interpretation base_main: module_pass runModule "base_module T" "base_world T" base_effect for T
proof unfold_locales
  show "base_world T w \<Longrightarrow> base_effect w w" for w
    using isr_writes_refl by (simp add: base_effect_def base_world_def)
  show "base_effect u v \<Longrightarrow> base_effect v w \<Longrightarrow> base_effect u w" for u v w by (rule base_effect_trans)
qed (fact base_module_run)+

interpretation base_post: establishing_pass runModulePost "base_module T" "base_world T" lowers step_line_low for T
proof unfold_locales
  show "base_module T m \<Longrightarrow> base_world T w \<Longrightarrow> \<exists>m' w'. runModulePost m w = Some (m', w')" for m w
    by (rule base_module_post(1))
  show "base_module T m \<Longrightarrow> base_world T w \<Longrightarrow> runModulePost m w = Some (m', w') \<Longrightarrow>
      base_module T m' \<and> base_world T w' \<and> lowers w w'" for m w m' w'
    using base_module_post(2) by blast
  show "base_module T m \<Longrightarrow> base_world T w \<Longrightarrow> runModulePost m w = Some (m', w') \<Longrightarrow> step_line_low m' w'" for m w m' w'
    using base_module_post(2) by blast
  show "step_line_low m w \<Longrightarrow> lowers w w' \<Longrightarrow> step_line_low m w'" for m w w' by (rule step_line_low_stable)
qed (auto simp: lowers_def)

text \<open>C35: A run of the base thread over step generators, from any state of the link whose commands are
  at most the thread frequency in size, returns with its semaphore free, and does to the link only what
  the interference model of the receive callback allows: the command buffers, the monitor and the retired
  feedback buffer are as they were. It ends every pulse: the step lines of all generators of the
  second pass are low.\<close>

theorem base_thread_run:
  assumes "execute t" "\<not> semaphore t" "hasThreadPost t" "base_world T w"
    and "\<forall>i \<in> set (vThread t) \<union> set (vThreadPost t). i < length heap \<and> base_module T (heap ! i)"
  shows "\<exists>t' heap' w'. run t heap w = Some (t', heap', w') \<and> \<not> execute t' \<and> \<not> semaphore t'
    \<and> isr_writes (wlink w) (wlink w') \<and> wtims w' = wtims w
    \<and> (\<forall>i \<in> set (vThreadPost t). step_line_low (heap' ! i) w')"
proof -
  have ok1: "base_main.all_ok T (vThread t) heap" using assms(5) by (simp add: base_main.all_ok_def)
  obtain heap1 w1 where p1: "run_list runModule (vThread t) heap w = Some (heap1, w1)" "base_world T w1" "base_effect w w1"
      "base_main.all_ok T (vThread t) heap1" "length heap1 = length heap" "\<forall>k. k \<notin> set (vThread t) \<longrightarrow> heap1 ! k = heap ! k"
    using base_main.pass [OF ok1 assms(4)] by blast
  have ok2: "base_post.all_ok T (vThreadPost t) heap1"
    unfolding base_post.all_ok_def
  proof
    fix i
    assume "i \<in> set (vThreadPost t)"
    then show "i < length heap1 \<and> base_module T (heap1 ! i)"
      using assms(5) p1(4-6) by (cases "i \<in> set (vThread t)") (auto simp: base_main.all_ok_def)
  qed
  obtain heap2 w2 where p2: "run_list runModulePost (vThreadPost t) heap1 w1 = Some (heap2, w2)" "lowers w1 w2"
    using base_post.pass [OF ok2 p1(2)] by blast
  have "\<forall>i \<in> set (vThreadPost t). step_line_low (heap2 ! i) w2"
    by (rule base_post.pass_establishes [OF ok2 p1(2) p2(1)])
  then show ?thesis
    using assms(1-3) p1 p2 by (auto simp: run_def base_effect_def lowers_def)
qed

definition demo_world :: "packet \<Rightarrow> world" where
  "demo_world p = \<lparr>wlink = demo_link p, wgpio = zero_gpio, wtims = tims off_board, wdebug = False\<rparr>"

lemma idle_packet_fields: "length idle_packet = 64" "j < JOINTS \<Longrightarrow> rx_jointFreqCmd idle_packet j = 0"
  by (simp_all add: idle_packet_def JOINTS_def rx_jointFreqCmd_def read_le32_def nth_byte_def nth_append un_le32_def)

theorem base_thread_run_witness:
  "\<exists>t' heap' w'. run ((registerModulePost 0 (registerModule 0 (pruThread_ctor False 0 40000)))\<lparr>execute := True\<rparr>)
       [Module_ctor (MStepgen (demo_stepgen 40000 False 7))] (demo_world idle_packet) = Some (t', heap', w')
     \<and> step_line_low (heap' ! 0) w'"
proof -
  let ?t = "(registerModulePost 0 (registerModule 0 (pruThread_ctor False 0 40000)))\<lparr>execute := True\<rparr>"
  let ?heap = "[Module_ctor (MStepgen (demo_stepgen 40000 False 7))]"
  have "base_module 40000 (?heap ! 0)"
    using wf_demo_stepgen by (simp add: base_module_def Module_ctor_def) (simp add: demo_stepgen_def)
  moreover have "base_world 40000 (demo_world idle_packet)"
    using wf_demo_link idle_packet_fields by (simp add: base_world_def demo_world_def cur_cmd_demo_link)
  ultimately show ?thesis
    using base_thread_run [of ?t 40000 "demo_world idle_packet" ?heap]
    by (auto simp: registerModule_def registerModulePost_def pruThread_ctor_def)
qed

subsection \<open>The servo thread\<close>

text \<open>The modules \<open>loadModules\<close> puts on the servo thread, over configured pins.\<close>

fun servo_obj :: "module_obj \<Rightarrow> bool" where
  "servo_obj (MStepgen sg) = False"
| "servo_obj ob = True"

definition servo_effect :: "world \<Rightarrow> world \<Rightarrow> bool" where
  "servo_effect w w' \<longleftrightarrow> rxPP (wlink w') = rxPP (wlink w)
     \<and> getCurrentTxBuffer (txPP (wlink w')) = getCurrentTxBuffer (txPP (wlink w))
     \<and> (\<forall>j < JOINTS. tx_jointFeedback (cur_fb (wlink w')) j = tx_jointFeedback (cur_fb (wlink w)) j)"

lemma DigitalPin_servo:
  assumes "wf_link s" "DigitalPin_update d s g = Some (s', g')"
  shows "wf_link s' \<and> rxPP s' = rxPP s \<and> getCurrentTxBuffer (txPP s') = getCurrentTxBuffer (txPP s)
    \<and> (\<forall>j < JOINTS. tx_jointFeedback (cur_fb s') j = tx_jointFeedback (cur_fb s) j)"
proof -
  have len: "length (cur_fb s) = 64" using assms(1) by (simp add: cur_fb_def)
  let ?t = "\<lambda>w. s\<lparr>txPP := store (txPP s) (getCurrentTxBuffer (txPP s)) (tx_set_inputs (cur_fb s) w)\<rparr>"
  have cf: "cur_fb (?t w) = tx_set_inputs (cur_fb s) w" for w
    using assms(1) by (simp add: wf_link_def cur_fb_def tx.cur_put tx.get_put)
  have wf: "wf_link (?t w)" for w
    using assms(1) len by (simp add: wf_link_def tx.inv_put)
  have "s' = s \<or> (\<exists>w. s' = ?t w)"
    using assms(2) by (auto simp: DigitalPin_update_def Let_def cur_fb_def split: if_splits option.splits)
  then show ?thesis
    using assms(1) cf wf tx_set_get(9) [OF len] by (auto simp: tx.cur_put)
qed

lemma servo_module_run:
  assumes "servo_obj (body m)" "wf_link (wlink w)" "runModule m w = Some (m', w')"
  shows "servo_obj (body m') \<and> wf_link (wlink w') \<and> servo_effect w w'"
proof -
  have r: "obj_update (body m) w = Some (body m', w')" by (rule runModule_body [OF assms(3)])
  show ?thesis
  proof (cases "body m")
    case (MDigitalPin d)
    then obtain s' g' where "DigitalPin_update d (wlink w) (wgpio w) = Some (s', g')" "wlink w' = s'" "body m' = MDigitalPin d"
      using r by auto
    then show ?thesis using DigitalPin_servo [OF assms(2)] by (simp add: servo_effect_def)
  qed (use r assms(1,2) in \<open>auto simp: servo_effect_def wf_link_def cur_fb_def dest!: sym [of _ "body m'"]\<close>)
qed

interpretation servo_pass: guarded_pass runModule "\<lambda>m. servo_obj (body m)" "\<lambda>w. wf_link (wlink w)" servo_effect
proof unfold_locales
  show "servo_obj (body m) \<Longrightarrow> wf_link (wlink w) \<Longrightarrow> runModule m w = Some (m', w') \<Longrightarrow>
      servo_obj (body m') \<and> wf_link (wlink w') \<and> servo_effect w w'" for m w m' w'
    by (rule servo_module_run)
qed (auto simp: servo_effect_def)

text \<open>C36: A run of the servo thread over any modules that are not step generators leaves the command
  buffers and their order alone, keeps the current feedback buffer current, and does not touch the
  position of any joint in it.\<close>

theorem servo_thread_frame:
  assumes "run t heap w = Some (t', heap', w')" "wf_link (wlink w)" "\<not> hasThreadPost t"
    and "\<forall>i \<in> set (vThread t). i < length heap \<and> servo_obj (body (heap ! i))"
  shows "wf_link (wlink w') \<and> rxPP (wlink w') = rxPP (wlink w)
    \<and> getCurrentTxBuffer (txPP (wlink w')) = getCurrentTxBuffer (txPP (wlink w))
    \<and> (\<forall>j < JOINTS. tx_jointFeedback (cur_fb (wlink w')) j = tx_jointFeedback (cur_fb (wlink w)) j)"
proof (cases "execute t")
  case True
  then obtain heap1 where r: "run_list runModule (vThread t) heap w = Some (heap1, w')"
    using assms(1,3) by (auto simp: run_def Let_def split: if_splits option.splits)
  have "servo_pass.all_ok (vThread t) heap" using assms(4) by (simp add: servo_pass.all_ok_def)
  from servo_pass.pass_partial [OF this assms(2) r] show ?thesis by (simp add: servo_effect_def)
next
  case False
  then show ?thesis using assms(1,2) by (simp add: run_def)
qed

theorem servo_thread_frame_witness:
  "\<exists>t' heap' w'. run ((registerModule 0 (pruThread_ctor False 1 1000))\<lparr>execute := True\<rparr>)
       [Module_ctor (MDigitalPin demo_input)] (demo_world idle_packet) = Some (t', heap', w')
     \<and> rxPP (wlink w') = rxPP (demo_link idle_packet)"
proof -
  let ?t = "(registerModule 0 (pruThread_ctor False 1 1000))\<lparr>execute := True\<rparr>" and ?w = "demo_world idle_packet"
  let ?heap = "[Module_ctor (MDigitalPin demo_input)]"
  have wf: "wf_link (wlink ?w)" using wf_demo_link idle_packet_fields by (simp add: demo_world_def)
  have "pin_get (dp_pin demo_input) (wgpio ?w) = Some False"
    by (simp add: pin_get_drives [OF demo_drives] demo_world_def zero_gpio_def)
  then have "\<exists>r. obj_update (body (?heap ! 0)) ?w = Some r"
    by (simp add: Module_ctor_def DigitalPin_update_def demo_input_def Let_def)
  then obtain m' w' where "runModule (?heap ! 0) ?w = Some (m', w')" using runModule_some by blast
  then obtain t' heap' where r: "run ?t ?heap ?w = Some (t', heap', w')"
    by (simp add: run_def registerModule_def pruThread_ctor_def Let_def)
  show ?thesis
    using servo_thread_frame [OF r wf] r
    by (auto simp: registerModule_def pruThread_ctor_def Module_ctor_def demo_world_def)
qed

end
