(* ===== verification/Flash.thy ===== *)
theory Flash
  imports Prelude
begin

unbundle bit_operations_syntax

text \<open>
  The internal flash: the driver functions the firmware calls (\<open>HAL_FLASH_*\<close> of
  \<open>Drivers/STM32F4xx_HAL_Driver\<close>) and the interface over them (\<open>Src/flash_if.cpp\<close>). The memory is
  a function from addresses to bytes. What programming does to a cell is the hardware's and a
  parameter: \<open>cell old new\<close> is the content of a cell that held \<open>old\<close> after programming \<open>new\<close>; the
  documented behaviour used by some theorems is that an erased cell takes the new value
  (\<open>erased_takes\<close>), and that programming only clears bits. An access outside of the memory is a bus
  fault, here \<open>None\<close>.
\<close>

datatype hal_status = HAL_OK | HAL_ERROR

record flash =
  cells :: "nat \<Rightarrow> u8"
  locked :: bool

definition FLASH_BASE :: nat where "FLASH_BASE = 0x8000000"
definition FLASH_END :: nat where "FLASH_END = 0x8080000"
definition JSON_STORAGE_ADDRESS :: nat where "JSON_STORAGE_ADDRESS = 0x8060000"
definition JSON_UPLOAD_ADDRESS :: nat where "JSON_UPLOAD_ADDRESS = 0x8050000"
definition USER_FLASH_LAST_PAGE_ADDRESS :: nat where "USER_FLASH_LAST_PAGE_ADDRESS = 0x8060000"
definition USER_FLASH_END_ADDRESS :: nat where "USER_FLASH_END_ADDRESS = 0x807FFFF"
definition JSON_SECTOR :: nat where "JSON_SECTOR = 7"

lemmas flash_addrs = FLASH_BASE_def FLASH_END_def JSON_STORAGE_ADDRESS_def JSON_UPLOAD_ADDRESS_def
  USER_FLASH_LAST_PAGE_ADDRESS_def USER_FLASH_END_ADDRESS_def JSON_SECTOR_def

type_synonym cell = "u8 \<Rightarrow> u8 \<Rightarrow> u8"

definition erased_takes :: "cell \<Rightarrow> bool" where
  "erased_takes cell \<longleftrightarrow> (\<forall>d. cell 0xFF d = d)"

subsection \<open>The driver\<close>

definition HAL_FLASH_Unlock :: "flash \<Rightarrow> hal_status \<times> flash" where
  "HAL_FLASH_Unlock fl = (HAL_OK, fl\<lparr>locked := False\<rparr>)"

definition HAL_FLASH_Lock :: "flash \<Rightarrow> flash" where
  "HAL_FLASH_Lock fl = fl\<lparr>locked := True\<rparr>"

definition program_bytes :: "cell \<Rightarrow> nat \<Rightarrow> u8 list \<Rightarrow> (nat \<Rightarrow> u8) \<Rightarrow> (nat \<Rightarrow> u8)" where
  "program_bytes cell a bs m = (\<lambda>x. if a \<le> x \<and> x < a + length bs then cell (m x) (bs ! (x - a)) else m x)"

text \<open>Programming one byte, half-word or word (a list of 1, 2 or 4 bytes): refused by the hardware when
  the interface is locked or the address is not aligned.\<close>

definition HAL_FLASH_Program :: "cell \<Rightarrow> nat \<Rightarrow> u8 list \<Rightarrow> flash \<Rightarrow> (hal_status \<times> flash) option" where
  "HAL_FLASH_Program cell addr bs fl =
     (if addr < FLASH_BASE \<or> FLASH_END < addr + length bs then None
      else if locked fl \<or> addr mod length bs \<noteq> 0 then Some (HAL_ERROR, fl)
      else Some (HAL_OK, fl\<lparr>cells := program_bytes cell addr bs (cells fl)\<rparr>))"

text \<open>The sectors of the STM32F446xE: four of 16 KB, one of 64 KB, three of 128 KB.\<close>

definition sector_start :: "nat \<Rightarrow> nat" where
  "sector_start n = FLASH_BASE + (if n \<le> 4 then n * 0x4000 else 0x20000 * (n - 4))"

definition in_sector :: "nat \<Rightarrow> nat \<Rightarrow> bool" where
  "in_sector n a \<longleftrightarrow> n \<le> 7 \<and> sector_start n \<le> a \<and> a < (if n = 7 then FLASH_END else sector_start (Suc n))"

text \<open>Erasing a locked flash has no effect and sets no error flag, so that it is reported as success.\<close>

definition HAL_FLASHEx_Erase :: "nat \<Rightarrow> flash \<Rightarrow> hal_status \<times> flash" where
  "HAL_FLASHEx_Erase n fl =
     (HAL_OK, if locked fl then fl else fl\<lparr>cells := (\<lambda>a. if in_sector n a then 0xFF else cells fl a)\<rparr>)"

definition flash_byte :: "flash \<Rightarrow> nat \<Rightarrow> u8 option" where
  "flash_byte fl a = (if FLASH_BASE \<le> a \<and> a < FLASH_END then Some (cells fl a) else None)"

definition flash_bytes :: "flash \<Rightarrow> nat \<Rightarrow> nat \<Rightarrow> u8 list option" where
  "flash_bytes fl a n = (if n = 0 then Some []
     else if FLASH_BASE \<le> a \<and> a + n \<le> FLASH_END then Some (map (cells fl) [a..<a + n]) else None)"

definition flash_word :: "flash \<Rightarrow> nat \<Rightarrow> u32" where
  "flash_word fl a = un_le32 (cells fl a) (cells fl (a + 1)) (cells fl (a + 2)) (cells fl (a + 3))"

subsection \<open>The interface\<close>

text \<open>Each test of \<open>GetSector\<close> leaves out the last byte of the sector.\<close>

definition GetSector :: "nat \<Rightarrow> nat" where
  "GetSector a =
     (if a < 0x8003FFF \<and> a \<ge> 0x8000000 then 0
      else if a < 0x8007FFF \<and> a \<ge> 0x8004000 then 1
      else if a < 0x800BFFF \<and> a \<ge> 0x8008000 then 2
      else if a < 0x800FFFF \<and> a \<ge> 0x800C000 then 3
      else if a < 0x801FFFF \<and> a \<ge> 0x8010000 then 4
      else if a < 0x803FFFF \<and> a \<ge> 0x8020000 then 5
      else if a < 0x805FFFF \<and> a \<ge> 0x8040000 then 6
      else if a < 0x807FFFF \<and> a \<ge> 0x8060000 then 7
      else 0)"

definition FLASH_If_Init :: "flash \<Rightarrow> flash" where
  "FLASH_If_Init fl = snd (HAL_FLASH_Unlock fl)"

definition FLASH_If_Erase :: "nat \<Rightarrow> flash \<Rightarrow> int \<times> flash" where
  "FLASH_If_Erase StartSector fl =
     (if StartSector \<le> USER_FLASH_LAST_PAGE_ADDRESS then
        (case HAL_FLASHEx_Erase (GetSector StartSector) fl of
           (HAL_OK, fl') \<Rightarrow> (0, fl')
         | (HAL_ERROR, fl') \<Rightarrow> (1, fl'))
      else (1, fl))"

text \<open>Returns the code, the address after the last word written, and the flash.\<close>

fun FLASH_If_Write :: "cell \<Rightarrow> nat \<Rightarrow> u32 list \<Rightarrow> flash \<Rightarrow> (nat \<times> nat \<times> flash) option" where
  "FLASH_If_Write cell a [] fl = Some (0, a, fl)"
| "FLASH_If_Write cell a (w # ws) fl =
     (if a \<le> USER_FLASH_END_ADDRESS - 4 then
        (case HAL_FLASH_Program cell a (le32 w) fl of None \<Rightarrow> None
         | Some (HAL_OK, fl') \<Rightarrow> if flash_word fl' a \<noteq> w then Some (2, a, fl') else FLASH_If_Write cell (a + 4) ws fl'
         | Some (HAL_ERROR, fl') \<Rightarrow> Some (1, a, fl'))
      else Some (0, a, fl))"

subsection \<open>Sectors\<close>

lemma in_sector_upload: "in_sector 6 a \<longleftrightarrow> 0x8040000 \<le> a \<and> a < 0x8060000"
  and in_sector_storage: "in_sector 7 a \<longleftrightarrow> 0x8060000 \<le> a \<and> a < 0x8080000"
  by (auto simp: in_sector_def sector_start_def flash_addrs)

text \<open>C39: For every address of a sector but its last byte, \<open>GetSector\<close> names the sector
  that holds the address; for the last byte of any sector it names sector 0, which holds the vector
  table.\<close>

theorem get_sector_correct:
  assumes "in_sector n a"
  shows "GetSector a = (if in_sector n (Suc a) then n else 0)"
proof -
  have "n = 0 \<or> n = 1 \<or> n = 2 \<or> n = 3 \<or> n = 4 \<or> n = 5 \<or> n = 6 \<or> n = 7"
    using assms by (simp add: in_sector_def) linarith
  then show ?thesis
    using assms by (elim disjE) (simp_all add: in_sector_def sector_start_def flash_addrs GetSector_def)
qed

theorem get_sector_correct_witness: "GetSector JSON_UPLOAD_ADDRESS = 6"
proof -
  have "in_sector 6 JSON_UPLOAD_ADDRESS" "in_sector 6 (Suc JSON_UPLOAD_ADDRESS)"
    by (simp_all add: in_sector_upload JSON_UPLOAD_ADDRESS_def)
  then show ?thesis using get_sector_correct [of 6 JSON_UPLOAD_ADDRESS] by simp
qed

subsection \<open>Programming\<close>

lemma HAL_FLASH_Program_cells:
  assumes "HAL_FLASH_Program cell a bs fl = Some (st, fl')" "x < a \<or> a + length bs \<le> x"
  shows "cells fl' x = cells fl x"
  using assms by (auto simp: HAL_FLASH_Program_def program_bytes_def split: if_splits)

lemma HAL_FLASH_Program_erased:
  assumes "erased_takes cell" "\<not> locked fl" "FLASH_BASE \<le> a" "a + length bs \<le> FLASH_END" "a mod length bs = 0"
    and "\<forall>i < length bs. cells fl (a + i) = 0xFF"
  shows "\<exists>fl'. HAL_FLASH_Program cell a bs fl = Some (HAL_OK, fl') \<and> \<not> locked fl'
    \<and> (\<forall>i < length bs. cells fl' (a + i) = bs ! i) \<and> (\<forall>x. x < a \<or> a + length bs \<le> x \<longrightarrow> cells fl' x = cells fl x)"
  using assms by (auto simp: HAL_FLASH_Program_def program_bytes_def erased_takes_def)

lemma FLASH_If_Write_below:
  "FLASH_If_Write cell a ws fl = Some (r, a', fl') \<Longrightarrow> x < a \<Longrightarrow> cells fl' x = cells fl x"
  by (induction cell a ws fl rule: FLASH_If_Write.induct)
    (auto split: if_splits option.splits hal_status.splits dest!: HAL_FLASH_Program_cells)

lemma FLASH_If_Write_result:
  assumes "FLASH_If_Write cell a ws fl = Some (0, a', fl')"
  shows "\<exists>k \<le> length ws. a' = a + 4 * k \<and> (\<forall>i < k. flash_word fl' (a + 4 * i) = ws ! i)
    \<and> (k < length ws \<longrightarrow> USER_FLASH_END_ADDRESS - 4 < a')"
  using assms
proof (induction cell a ws fl rule: FLASH_If_Write.induct)
  case (1 cell a fl)
  then show ?case by simp
next
  case (2 cell a w ws fl)
  show ?case
  proof (cases "a \<le> USER_FLASH_END_ADDRESS - 4")
    case True
    then obtain fl1 where p: "HAL_FLASH_Program cell a (le32 w) fl = Some (HAL_OK, fl1)" "flash_word fl1 a = w"
      "FLASH_If_Write cell (a + 4) ws fl1 = Some (0, a', fl')"
      using "2.prems" by (auto split: option.splits if_splits hal_status.splits)
    obtain k where k: "k \<le> length ws" "a' = a + 4 + 4 * k" "\<forall>i < k. flash_word fl' (a + 4 + 4 * i) = ws ! i"
      "k < length ws \<longrightarrow> USER_FLASH_END_ADDRESS - 4 < a'"
      using "2.IH" [OF True p(1) refl refl _ p(3)] p(2) by auto
    have "flash_word fl' a = w"
      using FLASH_If_Write_below [OF p(3)] p(2) by (simp add: flash_word_def)
    then have "\<forall>i < Suc k. flash_word fl' (a + 4 * i) = (w # ws) ! i"
      using k(3) by (auto simp: less_Suc_eq_0_disj add.assoc)
    then show ?thesis using k by (intro exI [of _ "Suc k"]) auto
  next
    case False
    then show ?thesis using "2.prems" by (auto intro!: exI [of _ 0])
  qed
qed

text \<open>When \<open>FLASH_If_Write\<close> reports success, every word up to the address it stopped at reads back
  as given, whatever the cells held before; it stops short of the data only at the end of the user
  flash, and then it still reports success.\<close>

theorem flash_write_readback:
  assumes "FLASH_If_Write cell a ws fl = Some (0, a', fl')"
  shows "\<exists>k \<le> length ws. a' = a + 4 * k \<and> (\<forall>i < k. flash_word fl' (a + 4 * i) = ws ! i)
    \<and> (k < length ws \<longrightarrow> USER_FLASH_END_ADDRESS - 4 < a')"
  by (rule FLASH_If_Write_result [OF assms])

theorem flash_write_readback_witness:
  "\<exists>fl'. FLASH_If_Write (AND) JSON_STORAGE_ADDRESS [7] \<lparr>cells = \<lambda>_. 0xFF, locked = False\<rparr> = Some (0, JSON_STORAGE_ADDRESS + 4, fl')
    \<and> flash_word fl' JSON_STORAGE_ADDRESS = 7"
proof -
  let ?fl = "\<lparr>cells = \<lambda>_. 0xFF, locked = False\<rparr>"
  let ?fl' = "?fl\<lparr>cells := program_bytes (AND) JSON_STORAGE_ADDRESS (le32 7) (cells ?fl)\<rparr>"
  have p: "HAL_FLASH_Program (AND) JSON_STORAGE_ADDRESS (le32 7) ?fl = Some (HAL_OK, ?fl')"
    by (simp add: HAL_FLASH_Program_def flash_addrs)
  have "flash_word ?fl' JSON_STORAGE_ADDRESS = 7"
    by (simp add: flash_word_def program_bytes_def le32_def un_le32_def nth_Cons')
  then have r: "FLASH_If_Write (AND) JSON_STORAGE_ADDRESS [7] ?fl = Some (0, JSON_STORAGE_ADDRESS + 4, ?fl')"
    using p by (simp add: flash_addrs)
  show ?thesis using flash_write_readback [OF r] r by auto
qed

end
