(* ===== verification/ConfigStore.thy ===== *)
theory ConfigStore
  imports Crc32 Flash
begin

unbundle bit_operations_syntax

text \<open>
  The configuration file in flash (\<open>Src/remora.cpp\<close>): a file arrives in the upload area (sector 6) with
  512 bytes of metadata in front, is checked by its CRC, and is copied to the storage area (sector 7),
  from where it is read at start-up. \<open>crc32\<close> is a global variable that \<open>checkJson\<close> runs on from
  whatever value it has.
\<close>

definition METADATA_LEN :: nat where "METADATA_LEN = 512"

record config_state =
  newJson :: bool
  crc32_var :: u32

definition meta_crc32 :: "flash \<Rightarrow> u32" where
  "meta_crc32 fl = flash_word fl JSON_UPLOAD_ADDRESS"

definition meta_length :: "flash \<Rightarrow> u32" where
  "meta_length fl = flash_word fl (JSON_UPLOAD_ADDRESS + 4)"

definition meta_jsonLength :: "flash \<Rightarrow> u32" where
  "meta_jsonLength fl = flash_word fl (JSON_UPLOAD_ADDRESS + 8)"

text \<open>The number of bytes under the CRC: the JSON length rounded up to a multiple of 4, as the
  \<open>uint32_t\<close> sum of the loop condition.\<close>

definition crc_span :: "u32 \<Rightarrow> nat" where
  "crc_span jsonLength =
     (let md = unat (jsonLength mod 4); padding = (if 0 < md then 4 - md else 0) in unat (jsonLength + of_nat padding))"

fun crc_bytes :: "u32 list \<Rightarrow> u32 \<Rightarrow> u8 list \<Rightarrow> u32" where
  "crc_bytes table c [] = c"
| "crc_bytes table c (b # bs) = crc_bytes table (crc32_update table c [b]) bs"

definition checkJson :: "flash \<Rightarrow> config_state \<Rightarrow> (int \<times> config_state) option" where
  "checkJson fl st =
     (let table = generate_table
      in if unat (meta_length fl) > USER_FLASH_END_ADDRESS - JSON_UPLOAD_ADDRESS then Some (- 1, st\<lparr>newJson := False\<rparr>)
         else (case flash_bytes fl (JSON_UPLOAD_ADDRESS + METADATA_LEN) (crc_span (meta_jsonLength fl)) of
             None \<Rightarrow> None
           | Some bs \<Rightarrow>
               let st1 = st\<lparr>crc32_var := crc_bytes table (crc32_var st) bs\<rparr>
               in if crc32_var st1 \<noteq> meta_crc32 fl then Some (- 1, st1\<lparr>newJson := False\<rparr>)
                  else Some (1, st1\<lparr>newJson := False\<rparr>)))"

text \<open>The copy loop of \<open>moveJson\<close>: programming stops, but not the loop, at the first failure.\<close>

fun copy_json :: "cell \<Rightarrow> nat \<Rightarrow> nat \<Rightarrow> hal_status \<Rightarrow> flash \<Rightarrow> flash option" where
  "copy_json cell i 0 status fl = Some fl"
| "copy_json cell i (Suc n) status fl =
     (if status = HAL_OK then
        (case flash_byte fl (JSON_UPLOAD_ADDRESS + METADATA_LEN + i) of None \<Rightarrow> None
         | Some b \<Rightarrow>
           (case HAL_FLASH_Program cell (JSON_STORAGE_ADDRESS + 4 + i) [b] fl of None \<Rightarrow> None
            | Some (status', fl') \<Rightarrow> copy_json cell (Suc i) n status' fl'))
      else copy_json cell (Suc i) n status fl)"

text \<open>\<open>jsonLength\<close> is a \<open>uint16_t\<close>.\<close>

definition moveJson :: "cell \<Rightarrow> flash \<Rightarrow> flash option" where
  "moveJson cell fl =
     (let jsonLength = ucast (meta_jsonLength fl) :: u16;
          fl1 = snd (HAL_FLASH_Unlock fl);
          fl2 = snd (FLASH_If_Erase JSON_STORAGE_ADDRESS fl1)
      in case HAL_FLASH_Program cell JSON_STORAGE_ADDRESS (le32 (ucast jsonLength)) fl2 of None \<Rightarrow> None
         | Some (status, fl3) \<Rightarrow>
             map_option HAL_FLASH_Lock (copy_json cell 0 (unat (ucast (meta_jsonLength fl3) :: u16)) status fl3))"

definition clearJsonUploadArea :: "flash \<Rightarrow> flash" where
  "clearJsonUploadArea fl = HAL_FLASH_Lock (snd (FLASH_If_Erase JSON_UPLOAD_ADDRESS (snd (HAL_FLASH_Unlock fl))))"

text \<open>What start-up appends to the JSON string: the default configuration when the storage area is
  empty, else the stored bytes.\<close>

definition jsonFromFlash :: "u8 list \<Rightarrow> flash \<Rightarrow> u8 list \<Rightarrow> u8 list option" where
  "jsonFromFlash defaultConfig fl strJson =
     (let jsonLength = flash_word fl JSON_STORAGE_ADDRESS
      in if jsonLength = 0xFFFFFFFF then Some (strJson @ defaultConfig)
         else map_option (\<lambda>bs. strJson @ bs) (flash_bytes fl (JSON_STORAGE_ADDRESS + 4) (unat jsonLength)))"

subsection \<open>The check\<close>

lemma crc_bytes_eq: "crc_bytes table c bs = crc32_update table c bs"
proof (induction bs arbitrary: c)
  case (Cons b bs)
  then show ?case using crc32_update_append [of table c "[b]" bs] by simp
qed simp

definition crc_region :: "flash \<Rightarrow> u8 list option" where
  "crc_region fl = flash_bytes fl (JSON_UPLOAD_ADDRESS + METADATA_LEN) (crc_span (meta_jsonLength fl))"

lemma checkJson_cases:
  "checkJson fl st =
     (if unat (meta_length fl) > 0x2FFFF then Some (- 1, st\<lparr>newJson := False\<rparr>)
      else map_option (\<lambda>bs. let c = crc32_update generate_table (crc32_var st) bs
        in (if c = meta_crc32 fl then 1 else - 1, st\<lparr>crc32_var := c, newJson := False\<rparr>)) (crc_region fl))"
  by (simp add: checkJson_def crc_region_def crc_bytes_eq Let_def flash_addrs split: option.split)

text \<open>From a fresh start (the global \<open>crc32\<close> is zero) the check accepts a file whose length field
  is in range exactly when the CRC-32 of its padded JSON is the one in its metadata, and clears the
  request to check.\<close>

theorem check_json_fresh:
  assumes "crc32_var st = 0" "unat (meta_length fl) \<le> 0x2FFFF" "crc_region fl = Some bs"
  shows "\<exists>r st'. checkJson fl st = Some (r, st') \<and> (0 < r \<longleftrightarrow> crc32_update generate_table 0 bs = meta_crc32 fl)
    \<and> \<not> newJson st'"
  using assms by (auto simp: checkJson_cases Let_def)

text \<open>The check does not start its CRC from zero: after a check that left another value in the global
  \<open>crc32\<close>, which every failed check of a file with a nonzero CRC does, a file with a correct CRC is
  rejected.\<close>

theorem stale_crc_rejects_good_file:
  assumes "crc32_var st \<noteq> 0" "unat (meta_length fl) \<le> 0x2FFFF" "crc_region fl = Some bs"
    and "meta_crc32 fl = crc32_update generate_table 0 bs"
  shows "\<exists>st'. checkJson fl st = Some (- 1, st')"
proof -
  have "crc32_update generate_table (crc32_var st) bs \<noteq> crc32_update generate_table 0 bs"
    using assms(1) by (simp add: crc32_update_inj_initial)
  then show ?thesis using assms(2-4) by (simp add: checkJson_cases Let_def)
qed

subsection \<open>Files in flash\<close>

definition holds :: "flash \<Rightarrow> nat \<Rightarrow> u8 list \<Rightarrow> bool" where
  "holds fl a d \<longleftrightarrow> (\<forall>i < length d. cells fl (a + i) = d ! i)"

lemma holds_append: "holds fl a (d @ e) \<longleftrightarrow> holds fl a d \<and> holds fl (a + length d) e"
  using bytes_at_append [of "\<lambda>i. cells fl (a + i)" d e] by (simp add: holds_def bytes_at_def add.assoc)

lemma holds_le32: "holds fl a (le32 w) \<Longrightarrow> flash_word fl a = w"
proof -
  assume "holds fl a (le32 w)"
  then have h: "\<And>i. i < 4 \<Longrightarrow> cells fl (a + i) = le32 w ! i" by (simp add: holds_def)
  show ?thesis
    using h [of 0] h [of 1] h [of 2] h [of 3] un_le32_le32 [of w]
    by (simp add: flash_word_def le32_def nth_Cons')
qed

lemma flash_bytes_holds:
  assumes "holds fl a d" "FLASH_BASE \<le> a" "a + length d \<le> FLASH_END"
  shows "flash_bytes fl a (length d) = Some d"
proof -
  have "map (cells fl) [a..<a + length d] = d"
    using assms(1) by (intro nth_equalityI) (simp_all add: holds_def)
  then show ?thesis using assms(2,3) by (simp add: flash_bytes_def)
qed

text \<open>A configuration file as the host makes it: the metadata, then the JSON; the CRC is that of the
  JSON padded with zeros to a whole number of words.\<close>

definition padded :: "u8 list \<Rightarrow> u8 list" where
  "padded json = json @ replicate ((4 - length json mod 4) mod 4) 0"

definition config_header :: "u8 list \<Rightarrow> u8 list" where
  "config_header json = le32 (crc32_update generate_table 0 (padded json)) @ le32 (of_nat (length (padded json) div 4))
     @ le32 (of_nat (length json)) @ replicate 500 0"

lemma length_config_header [simp]: "length (config_header json) = METADATA_LEN"
  by (simp add: config_header_def METADATA_LEN_def)

lemma length_padded: "length (padded json) \<le> length json + 3" "length (padded json) mod 4 = 0"
proof -
  have "(4 - length json mod 4) mod 4 \<le> 3" by simp
  then show "length (padded json) \<le> length json + 3" by (simp add: padded_def)
  have "length json mod 4 < 4" by simp
  then have "length json mod 4 = 0 \<or> length json mod 4 = 1 \<or> length json mod 4 = 2 \<or> length json mod 4 = 3" by linarith
  then have "(length json mod 4 + (4 - length json mod 4) mod 4) mod 4 = 0" by auto
  then show "length (padded json) mod 4 = 0" by (simp add: padded_def mod_add_left_eq)
qed

lemma config_header_meta:
  assumes "holds fl JSON_UPLOAD_ADDRESS (config_header json)" "length json < 2 ^ 32"
  shows "meta_crc32 fl = crc32_update generate_table 0 (padded json)"
    and "meta_length fl = of_nat (length (padded json) div 4)"
    and "meta_jsonLength fl = of_nat (length json)"
  using assms(1)
  by (auto simp: config_header_def holds_append meta_crc32_def meta_length_def meta_jsonLength_def add.assoc intro!: holds_le32)

lemma crc_span_length:
  assumes "length json + 3 < 2 ^ 32"
  shows "crc_span (of_nat (length json)) = length (padded json)"
proof -
  let ?n = "length json"
  have m: "unat ((of_nat ?n :: u32) mod 4) = ?n mod 4"
    using assms by (simp add: unat_mod_distrib unat_of_nat)
  have "crc_span (of_nat ?n) = unat (of_nat (?n + (4 - ?n mod 4) mod 4) :: u32)"
    by (simp add: crc_span_def m Let_def)
  also have "\<dots> = ?n + (4 - ?n mod 4) mod 4"
  proof -
    have "(4 - ?n mod 4) mod 4 \<le> 3" by simp
    then show ?thesis using assms by (intro unat_of_nat_small) simp
  qed
  finally show ?thesis by (simp add: padded_def)
qed

lemma config_file_fields:
  assumes "holds fl JSON_UPLOAD_ADDRESS (config_header json @ padded json)" "length json \<le> 0x2F000"
  shows "crc_region fl = Some (padded json)" and "unat (meta_length fl) \<le> 0x2FFFF"
    and "meta_crc32 fl = crc32_update generate_table 0 (padded json)"
proof -
  have h: "holds fl JSON_UPLOAD_ADDRESS (config_header json)" "holds fl (JSON_UPLOAD_ADDRESS + METADATA_LEN) (padded json)"
    using assms(1) by (simp_all add: holds_append)
  note meta = config_header_meta [OF h(1)]
  have len: "length (padded json) \<le> 0x2F003" using length_padded(1) [of json] assms(2) by linarith
  have "unat (of_nat (length (padded json) div 4) :: u32) = length (padded json) div 4"
    using len by (intro unat_of_nat_small) (simp add: less_mult_imp_div_less)
  then show "unat (meta_length fl) \<le> 0x2FFFF" using meta(2) assms(2) len by simp
  show "crc_region fl = Some (padded json)"
    using flash_bytes_holds [OF h(2)] len crc_span_length [of json] meta(3) assms(2)
    by (simp add: crc_region_def flash_addrs METADATA_LEN_def)
  show "meta_crc32 fl = crc32_update generate_table 0 (padded json)" using meta(1) assms(2) by simp
qed

text \<open>A well-formed configuration file in the upload area is accepted by the first check.\<close>

theorem check_json_accepts_file:
  assumes "holds fl JSON_UPLOAD_ADDRESS (config_header json @ padded json)" "crc32_var st = 0"
    and "length json \<le> 0x2F000"
  shows "\<exists>st'. checkJson fl st = Some (1, st')"
  using config_file_fields [OF assms(1,3)] assms(2) by (simp add: checkJson_cases Let_def)

lemma holds_nth: "holds fl a d \<Longrightarrow> i < length d \<Longrightarrow> cells fl (a + i) = d ! i"
  by (simp add: holds_def)

subsection \<open>The copy to the storage area\<close>

lemma copy_json_run:
  assumes "erased_takes cell" "\<not> locked fl" "JSON_UPLOAD_ADDRESS + METADATA_LEN + i + n \<le> JSON_STORAGE_ADDRESS"
    and "\<forall>k. i \<le> k \<and> k < i + n \<longrightarrow> cells fl (JSON_STORAGE_ADDRESS + 4 + k) = 0xFF"
  shows "\<exists>fl'. copy_json cell i n HAL_OK fl = Some fl'
    \<and> (\<forall>k. i \<le> k \<and> k < i + n \<longrightarrow> cells fl' (JSON_STORAGE_ADDRESS + 4 + k) = cells fl (JSON_UPLOAD_ADDRESS + METADATA_LEN + k))
    \<and> (\<forall>x < JSON_STORAGE_ADDRESS + 4 + i. cells fl' x = cells fl x)"
  using assms(2-4)
proof (induction n arbitrary: i fl)
  case 0
  show ?case by auto
next
  case (Suc n)
  let ?src = "JSON_UPLOAD_ADDRESS + METADATA_LEN + i" and ?dst = "JSON_STORAGE_ADDRESS + 4 + i"
  have r: "flash_byte fl ?src = Some (cells fl ?src)"
    using Suc.prems(2) by (simp add: flash_byte_def flash_addrs METADATA_LEN_def)
  obtain fl1 where p: "HAL_FLASH_Program cell ?dst [cells fl ?src] fl = Some (HAL_OK, fl1)" "\<not> locked fl1"
      "cells fl1 ?dst = cells fl ?src" "\<And>x. x < ?dst \<or> ?dst + 1 \<le> x \<Longrightarrow> cells fl1 x = cells fl x"
    using HAL_FLASH_Program_erased [OF assms(1) Suc.prems(1), of ?dst "[cells fl ?src]"] Suc.prems(2,3)
    by (auto simp: flash_addrs METADATA_LEN_def)
  have "\<forall>k. Suc i \<le> k \<and> k < Suc i + n \<longrightarrow> cells fl1 (JSON_STORAGE_ADDRESS + 4 + k) = 0xFF"
    using Suc.prems(3) p(4) by auto
  then obtain fl2 where IH: "copy_json cell (Suc i) n HAL_OK fl1 = Some fl2"
      "\<forall>k. Suc i \<le> k \<and> k < Suc i + n \<longrightarrow> cells fl2 (JSON_STORAGE_ADDRESS + 4 + k) = cells fl1 (JSON_UPLOAD_ADDRESS + METADATA_LEN + k)"
      "\<forall>x < JSON_STORAGE_ADDRESS + 4 + Suc i. cells fl2 x = cells fl1 x"
    using Suc.IH [OF p(2), of "Suc i"] Suc.prems(2) by auto
  have src: "cells fl1 (JSON_UPLOAD_ADDRESS + METADATA_LEN + k) = cells fl (JSON_UPLOAD_ADDRESS + METADATA_LEN + k)"
    if "k < i + Suc n" for k
    using that Suc.prems(2) p(4) by (simp add: flash_addrs METADATA_LEN_def)
  have "cells fl2 (JSON_STORAGE_ADDRESS + 4 + k) = cells fl (JSON_UPLOAD_ADDRESS + METADATA_LEN + k)"
    if "i \<le> k" "k < i + Suc n" for k
    using that IH(2,3) p(3) src [of k] by (cases "k = i") auto
  moreover have "\<forall>x < ?dst. cells fl2 x = cells fl x" using IH(3) p(4) by simp
  ultimately show ?case using r p(1) IH(1) by auto
qed

lemma FLASH_If_Erase_storage:
  "\<not> locked fl \<Longrightarrow> FLASH_If_Erase JSON_STORAGE_ADDRESS fl
    = (0, fl\<lparr>cells := (\<lambda>a. if 0x8060000 \<le> a \<and> a < 0x8080000 then 0xFF else cells fl a)\<rparr>)"
  by (simp add: FLASH_If_Erase_def HAL_FLASHEx_Erase_def GetSector_def in_sector_storage flash_addrs)

lemma FLASH_If_Erase_upload:
  "\<not> locked fl \<Longrightarrow> FLASH_If_Erase JSON_UPLOAD_ADDRESS fl
    = (0, fl\<lparr>cells := (\<lambda>a. if 0x8040000 \<le> a \<and> a < 0x8060000 then 0xFF else cells fl a)\<rparr>)"
  by (simp add: FLASH_If_Erase_def HAL_FLASHEx_Erase_def GetSector_def in_sector_upload flash_addrs)

text \<open>\<open>moveJson\<close>, when the truncated length stays in the upload sector.\<close>

lemma moveJson_run:
  assumes "erased_takes cell" "unat (meta_jsonLength fl) mod 65536 \<le> 65024"
  defines "n \<equiv> unat (meta_jsonLength fl) mod 65536"
  shows "\<exists>fl'. moveJson cell fl = Some fl' \<and> flash_word fl' JSON_STORAGE_ADDRESS = of_nat n
    \<and> (\<forall>k < n. cells fl' (JSON_STORAGE_ADDRESS + 4 + k) = cells fl (JSON_UPLOAD_ADDRESS + METADATA_LEN + k))"
proof -
  let ?fl2 = "fl\<lparr>locked := False, cells := (\<lambda>a. if 0x8060000 \<le> a \<and> a < 0x8080000 then 0xFF else cells fl a)\<rparr>"
  have n: "n < 2 ^ 16" using assms(2) by (simp add: n_def)
  have u16: "(ucast (meta_jsonLength fl) :: u16) = of_nat n"
    unfolding n_def by (rule ucast_u16)
  have u: "unat (of_nat n :: u16) = n" using n by (intro unat_of_nat_small) simp
  have w: "ucast (of_nat n :: u16) = (of_nat n :: u32)" by (metis u of_nat_unat)
  have e: "snd (FLASH_If_Erase JSON_STORAGE_ADDRESS (snd (HAL_FLASH_Unlock fl))) = ?fl2"
    by (simp add: HAL_FLASH_Unlock_def FLASH_If_Erase_storage cong: if_cong)
  obtain fl3 where p: "HAL_FLASH_Program cell JSON_STORAGE_ADDRESS (le32 (of_nat n)) ?fl2 = Some (HAL_OK, fl3)" "\<not> locked fl3"
      "\<And>i. i < 4 \<Longrightarrow> cells fl3 (JSON_STORAGE_ADDRESS + i) = le32 (of_nat n) ! i"
      "\<And>x. x < JSON_STORAGE_ADDRESS \<or> JSON_STORAGE_ADDRESS + 4 \<le> x \<Longrightarrow> cells fl3 x = cells ?fl2 x"
  proof -
    have "\<exists>fl'. HAL_FLASH_Program cell JSON_STORAGE_ADDRESS (le32 (of_nat n)) ?fl2 = Some (HAL_OK, fl') \<and> \<not> locked fl'
      \<and> (\<forall>i < length (le32 (of_nat n)). cells fl' (JSON_STORAGE_ADDRESS + i) = le32 (of_nat n) ! i)
      \<and> (\<forall>x. x < JSON_STORAGE_ADDRESS \<or> JSON_STORAGE_ADDRESS + length (le32 (of_nat n)) \<le> x \<longrightarrow> cells fl' x = cells ?fl2 x)"
      by (rule HAL_FLASH_Program_erased [OF assms(1)]) (simp_all add: flash_addrs)
    then show ?thesis unfolding length_le32 using that by blast
  qed
  have meta3: "meta_jsonLength fl3 = meta_jsonLength fl"
    using p(4) by (simp add: meta_jsonLength_def flash_word_def flash_addrs)
  obtain fl4 where c: "copy_json cell 0 n HAL_OK fl3 = Some fl4"
      "\<forall>k. 0 \<le> k \<and> k < 0 + n \<longrightarrow> cells fl4 (JSON_STORAGE_ADDRESS + 4 + k) = cells fl3 (JSON_UPLOAD_ADDRESS + METADATA_LEN + k)"
      "\<forall>x < JSON_STORAGE_ADDRESS + 4 + 0. cells fl4 x = cells fl3 x"
    using copy_json_run [OF assms(1) p(2), of 0 n] assms(2) p(4) by (auto simp: flash_addrs METADATA_LEN_def n_def)
  have "moveJson cell fl = Some (HAL_FLASH_Lock fl4)"
    unfolding moveJson_def Let_def e u16 w using p(1) c(1) by (simp add: meta3 u16 u)
  moreover have "flash_word (HAL_FLASH_Lock fl4) JSON_STORAGE_ADDRESS = of_nat n"
  proof (rule holds_le32)
    show "holds (HAL_FLASH_Lock fl4) JSON_STORAGE_ADDRESS (le32 (of_nat n))"
      using c(3) p(3) by (simp add: holds_def HAL_FLASH_Lock_def)
  qed
  moreover have "cells fl3 (JSON_UPLOAD_ADDRESS + METADATA_LEN + k) = cells fl (JSON_UPLOAD_ADDRESS + METADATA_LEN + k)" if "k < n" for k
    using p(4) that assms(2) by (simp add: flash_addrs METADATA_LEN_def n_def)
  ultimately show ?thesis using c(2) by (auto simp: HAL_FLASH_Lock_def)
qed

text \<open>C34: A file with up to 65024 bytes of JSON that \<open>moveJson\<close> copies to the storage area is what the
  next start reads from there, byte for byte.\<close>

theorem move_then_load:
  assumes "erased_takes cell" "holds fl JSON_UPLOAD_ADDRESS (config_header json @ json)" "length json \<le> 65024"
  shows "\<exists>fl'. moveJson cell fl = Some fl' \<and> jsonFromFlash defaultConfig fl' s = Some (s @ json)"
proof -
  have h: "holds fl JSON_UPLOAD_ADDRESS (config_header json)" "holds fl (JSON_UPLOAD_ADDRESS + METADATA_LEN) json"
    using assms(2) by (simp_all add: holds_append)
  have "meta_jsonLength fl = of_nat (length json)" using config_header_meta(3) [OF h(1)] assms(3) by simp
  then have n: "unat (meta_jsonLength fl) = length json" using assms(3) by (simp add: unat_of_nat_small)
  obtain fl' where m: "moveJson cell fl = Some fl'" "flash_word fl' JSON_STORAGE_ADDRESS = of_nat (length json)"
      "\<forall>k < length json. cells fl' (JSON_STORAGE_ADDRESS + 4 + k) = cells fl (JSON_UPLOAD_ADDRESS + METADATA_LEN + k)"
    using moveJson_run [OF assms(1), of fl] n assms(3) by auto
  have "holds fl' (JSON_STORAGE_ADDRESS + 4) json" using m(3) h(2) by (simp add: holds_def)
  then have "flash_bytes fl' (JSON_STORAGE_ADDRESS + 4) (length json) = Some json"
    using assms(3) by (intro flash_bytes_holds) (simp_all add: flash_addrs)
  moreover have u: "unat (of_nat (length json) :: u32) = length json" using assms(3) by (simp add: unat_of_nat_small)
  moreover have "(of_nat (length json) :: u32) \<noteq> 0xFFFFFFFF"
  proof
    assume "(of_nat (length json) :: u32) = 0xFFFFFFFF"
    then have "unat (of_nat (length json) :: u32) = unat (0xFFFFFFFF :: u32)" by simp
    then show False using assms(3) u by simp
  qed
  ultimately show ?thesis using m(1,2) by (simp add: jsonFromFlash_def Let_def)
qed

text \<open>The copy keeps only the low 16 bits of the length: for a JSON of 65536 bytes or more the stored
  length is not the file's, so the next start cannot read the file back.\<close>

theorem move_truncates_length:
  assumes "erased_takes cell" "65536 \<le> unat (meta_jsonLength fl)"
    and "unat (meta_jsonLength fl) mod 65536 \<le> 65024"
  shows "\<exists>fl'. moveJson cell fl = Some fl'
    \<and> unat (flash_word fl' JSON_STORAGE_ADDRESS) = unat (meta_jsonLength fl) mod 65536
    \<and> unat (flash_word fl' JSON_STORAGE_ADDRESS) \<noteq> unat (meta_jsonLength fl)"
proof -
  let ?n = "unat (meta_jsonLength fl) mod 65536"
  obtain fl' where m: "moveJson cell fl = Some fl'" "flash_word fl' JSON_STORAGE_ADDRESS = of_nat ?n"
    using moveJson_run [OF assms(1,3)] by blast
  have "?n < 65536" by simp
  then have "?n < 2 ^ LENGTH(32)" by (simp del: mod_less_divisor)
  then have "unat (of_nat ?n :: u32) = ?n" by (rule unat_of_nat_small)
  then show ?thesis using m assms(2) \<open>?n < 65536\<close> by (intro exI [of _ fl']) (simp only: m(2), simp)
qed

subsection \<open>Concrete files\<close>

text \<open>A flash that is erased but for one block of bytes, and a small configuration in it.\<close>

definition image_flash :: "nat \<Rightarrow> u8 list \<Rightarrow> flash" where
  "image_flash a d = \<lparr>cells = (\<lambda>x. if a \<le> x \<and> x < a + length d then d ! (x - a) else 0xFF), locked = True\<rparr>"

lemma holds_image_flash: "holds (image_flash a d) a d"
  by (simp add: holds_def image_flash_def)

definition demo_json :: "u8 list" where
  "demo_json = [0x7B, 0x7D, 0x0A]"

definition demo_flash :: flash where
  "demo_flash = image_flash JSON_UPLOAD_ADDRESS (config_header demo_json @ padded demo_json)"

lemma demo_flash_holds:
  "holds demo_flash JSON_UPLOAD_ADDRESS (config_header demo_json @ padded demo_json)"
  "holds demo_flash JSON_UPLOAD_ADDRESS (config_header demo_json @ demo_json)"
proof -
  show h: "holds demo_flash JSON_UPLOAD_ADDRESS (config_header demo_json @ padded demo_json)"
    unfolding demo_flash_def by (rule holds_image_flash)
  then show "holds demo_flash JSON_UPLOAD_ADDRESS (config_header demo_json @ demo_json)"
    by (simp add: holds_append padded_def)
qed

lemma length_demo_json: "length demo_json = 3"
  by (simp add: demo_json_def)

theorem check_json_fresh_witness:
  "\<exists>r st'. checkJson demo_flash \<lparr>newJson = True, crc32_var = 0\<rparr> = Some (r, st') \<and> 0 < r \<and> \<not> newJson st'"
  using check_json_fresh [of "\<lparr>newJson = True, crc32_var = 0\<rparr>" demo_flash "padded demo_json"]
    config_file_fields [OF demo_flash_holds(1)] by (auto simp: length_demo_json)

theorem stale_crc_rejects_good_file_witness:
  "\<exists>st'. checkJson demo_flash \<lparr>newJson = True, crc32_var = 1\<rparr> = Some (- 1, st')"
  using stale_crc_rejects_good_file [of "\<lparr>newJson = True, crc32_var = 1\<rparr>" demo_flash "padded demo_json"]
    config_file_fields [OF demo_flash_holds(1)] by (simp add: length_demo_json)

theorem check_json_accepts_file_witness:
  "\<exists>st'. checkJson demo_flash \<lparr>newJson = True, crc32_var = 0\<rparr> = Some (1, st')"
  using check_json_accepts_file [OF demo_flash_holds(1), of "\<lparr>newJson = True, crc32_var = 0\<rparr>"]
  by (simp add: length_demo_json)

lemma erased_takes_and: "erased_takes (AND)"
proof -
  have "(0xFF :: u8) AND d = d" for d
  proof -
    have "(0xFF :: u8) = - 1" by simp
    then show ?thesis by (simp only: and.left_neutral)
  qed
  then show ?thesis by (simp add: erased_takes_def)
qed

theorem move_then_load_witness:
  "\<exists>fl'. moveJson (AND) demo_flash = Some fl' \<and> jsonFromFlash [] fl' [] = Some [0x7B, 0x7D, 0x0A]"
  using move_then_load [OF erased_takes_and demo_flash_holds(2), of "[]" "[]"] by (simp add: length_demo_json) (simp add: demo_json_def)

theorem move_truncates_length_witness:
  "\<exists>fl'. moveJson (AND) (image_flash JSON_UPLOAD_ADDRESS (le32 0 @ le32 0 @ le32 65540)) = Some fl'
    \<and> unat (flash_word fl' JSON_STORAGE_ADDRESS) = 4"
proof -
  let ?fl = "image_flash JSON_UPLOAD_ADDRESS (le32 0 @ le32 0 @ le32 65540)"
  have "holds ?fl (JSON_UPLOAD_ADDRESS + 8) (le32 65540)"
    using holds_image_flash [of JSON_UPLOAD_ADDRESS "le32 0 @ le32 0 @ le32 65540"] by (simp add: holds_append add.commute)
  then have "meta_jsonLength ?fl = 65540" by (simp add: meta_jsonLength_def holds_le32)
  then show ?thesis using move_truncates_length [OF erased_takes_and, of ?fl] by auto
qed

end
