(* ===== verification/Tftp.thy ===== *)
theory Tftp
  imports ConfigStore
begin

unbundle bit_operations_syntax

text \<open>
  The TFTP server that takes a new configuration (\<open>Src/tftpserver.cpp\<close>): a write request opens a
  connection, each data packet is programmed into the upload area of the flash and acknowledged, and a
  packet shorter than a full block ends the transfer. What lwIP does for it (allocating control blocks,
  connections and packet buffers, which may fail) comes in as flags; a packet is its bytes and
  whether it is a chain of several buffers. \<open>None\<close> also stands for a packet too short for the fields read from it (2 bytes of a
  request, 4 of a data packet): the code reads on in the pool buffer, where an earlier packet has left its bytes.
\<close>

definition TFTP_DATA_PKT_HDR_LEN :: nat where "TFTP_DATA_PKT_HDR_LEN = 4"
definition TFTP_DATA_PKT_LEN_MAX :: nat where "TFTP_DATA_PKT_LEN_MAX = 516"
definition TFTP_WRQ :: u8 where "TFTP_WRQ = 2"
definition TFTP_ACK :: u8 where "TFTP_ACK = 4"

record tftp_connection_args =
  block :: int
  tot_bytes :: int

text \<open>\<open>connection\<close> is the data connection's arguments while its callback is installed, \<open>sent\<close> the
  datagrams sent so far, \<open>unfreed\<close> the number of received packet buffers nobody frees.\<close>

record tftp =
  connection :: "tftp_connection_args option"
  Flash_Write_Address :: nat
  total_count :: nat
  tftp_flash :: flash
  json_flag :: bool
  sent :: "u8 list list"
  unfreed :: nat

definition IAP_tftp_decode_op :: "u8 list \<Rightarrow> u8 option" where
  "IAP_tftp_decode_op buf = (if 1 < length buf then Some (buf ! 1) else None)"

definition IAP_tftp_extract_block :: "u8 list \<Rightarrow> u16 option" where
  "IAP_tftp_extract_block buf = (if 3 < length buf then Some (un_be16 (buf ! 2) (buf ! 3)) else None)"

definition IAP_tftp_set_opcode :: "u8 list \<Rightarrow> u8 \<Rightarrow> u8 list" where
  "IAP_tftp_set_opcode buf op = (buf[0 := 0])[1 := op]"

definition IAP_tftp_set_block :: "u8 list \<Rightarrow> u16 \<Rightarrow> u8 list" where
  "IAP_tftp_set_block buf b = (buf[2 := be16 b ! 0])[3 := be16 b ! 1]"

text \<open>The block number is an \<open>int\<close> passed as a 16-bit number.\<close>

definition IAP_tftp_send_ack_packet :: "bool \<Rightarrow> int \<Rightarrow> tftp \<Rightarrow> tftp" where
  "IAP_tftp_send_ack_packet pbuf_ok b st =
     (let packet = IAP_tftp_set_block (IAP_tftp_set_opcode (replicate 4 0) TFTP_ACK) (word_of_int b)
      in if pbuf_ok then st\<lparr>sent := sent st @ [packet]\<rparr> else st)"

definition IAP_tftp_cleanup_wr :: "tftp \<Rightarrow> tftp" where
  "IAP_tftp_cleanup_wr st = st\<lparr>connection := None\<rparr>"

text \<open>The loop that programs the 512-byte buffer, two half-words a round, while the status is good. The
  status of the first half-word of a round is overwritten by that of the second.\<close>

fun program_block :: "cell \<Rightarrow> nat \<Rightarrow> u8 list \<Rightarrow> hal_status \<Rightarrow> flash \<Rightarrow> flash option" where
  "program_block cell a (b0 # b1 # b2 # b3 # bs) status fl =
     (if status = HAL_OK then
        (case HAL_FLASH_Program cell a [b0, b1] fl of None \<Rightarrow> None
         | Some (_, fl1) \<Rightarrow>
           (case HAL_FLASH_Program cell (a + 2) [b2, b3] fl1 of None \<Rightarrow> None
            | Some (status', fl2) \<Rightarrow> program_block cell (a + 4) bs status' fl2))
      else Some fl)"
| "program_block cell a bs status fl = Some fl"

definition write_block :: "cell \<Rightarrow> u8 list \<Rightarrow> tftp \<Rightarrow> tftp option" where
  "write_block cell pkt st =
     (let n = length pkt - TFTP_DATA_PKT_HDR_LEN
      in if 512 < n then None
         else
           (let data_buffer = drop TFTP_DATA_PKT_HDR_LEN pkt @ replicate (512 - n) 0;
                (status, fl) = HAL_FLASH_Unlock (tftp_flash st)
            in map_option (\<lambda>fl'. st\<lparr>total_count := total_count st + n, tftp_flash := HAL_FLASH_Lock fl',
                   Flash_Write_Address := Flash_Write_Address st + 512\<rparr>)
                 (program_block cell (Flash_Write_Address st) data_buffer status fl)))"

definition IAP_wrq_recv_callback :: "cell \<Rightarrow> bool \<Rightarrow> u8 list \<Rightarrow> bool \<Rightarrow> tftp_connection_args \<Rightarrow> tftp \<Rightarrow> tftp option" where
  "IAP_wrq_recv_callback cell pbuf_ok pkt chained args st =
     (if chained then Some (st\<lparr>unfreed := unfreed st + 1\<rparr>)
      else (case IAP_tftp_extract_block pkt of None \<Rightarrow> None
        | Some b \<Rightarrow>
          let n = length pkt - TFTP_DATA_PKT_HDR_LEN in
          (case (if TFTP_DATA_PKT_HDR_LEN < length pkt \<and> uint b = block args + 1
                 then map_option (\<lambda>st'. (args\<lparr>block := block args + 1, tot_bytes := tot_bytes args + int n\<rparr>, st')) (write_block cell pkt st)
                 else if uint b = block args + 1 then Some (args\<lparr>block := block args + 1\<rparr>, st)
                 else Some (args, st)) of None \<Rightarrow> None
           | Some (args', st1) \<Rightarrow>
             let st2 = IAP_tftp_send_ack_packet pbuf_ok (block args') (st1\<lparr>connection := Some args'\<rparr>)
             in if length pkt < TFTP_DATA_PKT_LEN_MAX
                then Some ((IAP_tftp_cleanup_wr st2)\<lparr>json_flag := True\<rparr>)
                else Some st2)))"

definition IAP_tftp_process_write :: "bool \<Rightarrow> bool \<Rightarrow> tftp \<Rightarrow> tftp" where
  "IAP_tftp_process_write args_ok pbuf_ok st =
     (if \<not> args_ok then IAP_tftp_cleanup_wr st
      else
        (let st1 = st\<lparr>connection := Some \<lparr>block = 0, tot_bytes = 0\<rparr>, total_count := 0\<rparr>;
             (status, fl) = HAL_FLASH_Unlock (tftp_flash st1);
             fl' = (if status = HAL_OK then snd (HAL_FLASHEx_Erase JSON_SECTOR fl) else fl);
             st2 = st1\<lparr>tftp_flash := HAL_FLASH_Lock fl', Flash_Write_Address := JSON_UPLOAD_ADDRESS\<rparr>
         in IAP_tftp_send_ack_packet pbuf_ok 0 st2))"

definition IAP_tftp_recv_callback :: "bool \<Rightarrow> bool \<Rightarrow> bool \<Rightarrow> bool \<Rightarrow> u8 list \<Rightarrow> tftp \<Rightarrow> tftp option" where
  "IAP_tftp_recv_callback pcb_ok bind_ok args_ok pbuf_ok pkt st =
     (if \<not> pcb_ok \<or> \<not> bind_ok then Some (st\<lparr>unfreed := unfreed st + 1\<rparr>)
      else (case IAP_tftp_decode_op pkt of None \<Rightarrow> None
        | Some op \<Rightarrow> Some (if op \<noteq> TFTP_WRQ then st else IAP_tftp_process_write args_ok pbuf_ok st)))"

subsection \<open>One block\<close>

text \<open>The packet the client sends for block \<open>n\<close>, and the acknowledgement for it.\<close>

definition data_packet :: "nat \<Rightarrow> u8 list \<Rightarrow> u8 list" where
  "data_packet n c = [0, 3] @ be16 (of_nat n) @ c"

definition ack_packet :: "nat \<Rightarrow> u8 list" where
  "ack_packet n = [0, 4] @ be16 (of_nat n)"

lemma ack_sent: "IAP_tftp_send_ack_packet True (int n) st = st\<lparr>sent := sent st @ [ack_packet n]\<rparr>"
  by (simp add: IAP_tftp_send_ack_packet_def IAP_tftp_set_block_def IAP_tftp_set_opcode_def ack_packet_def
    TFTP_ACK_def be16_def numeral_eq_Suc)

lemma extract_block_data [simp]: "IAP_tftp_extract_block (data_packet n c) = Some (of_nat n)"
  by (simp add: IAP_tftp_extract_block_def data_packet_def be16_def un_be16_be16)

lemma length_data_packet [simp]: "length (data_packet n c) = length c + 4"
  by (simp add: data_packet_def)

lemma drop_data_packet [simp]: "drop 4 (data_packet n c) = c"
  by (simp add: data_packet_def be16_def)

lemma program_bytes_append:
  "program_bytes cell (a + length xs) ys (program_bytes cell a xs m) = program_bytes cell a (xs @ ys) m"
proof
  fix x
  consider "x < a" | "a \<le> x" "x < a + length xs" | "a + length xs \<le> x" by linarith
  then show "program_bytes cell (a + length xs) ys (program_bytes cell a xs m) x = program_bytes cell a (xs @ ys) m x"
  proof cases
    case 2
    then have "x - a < length xs" by linarith
    with 2 show ?thesis by (simp add: program_bytes_def nth_append)
  next
    case 3
    then show ?thesis by (auto simp: program_bytes_def nth_append add.assoc)
  qed (simp add: program_bytes_def)
qed

lemma HAL_FLASH_Program_pair:
  assumes "\<not> locked fl" "FLASH_BASE \<le> a" "a + 2 \<le> FLASH_END" "a mod 2 = 0"
  shows "HAL_FLASH_Program cell a [b0, b1] fl = Some (HAL_OK, fl\<lparr>cells := program_bytes cell a [b0, b1] (cells fl)\<rparr>)"
proof -
  have len: "length [b0, b1] = 2" by simp
  show ?thesis unfolding HAL_FLASH_Program_def len using assms by simp
qed

lemma program_block_run:
  assumes "\<not> locked fl" "FLASH_BASE \<le> a" "a + 4 * k \<le> FLASH_END" "a mod 2 = 0" "length bs = 4 * k"
  shows "program_block cell a bs HAL_OK fl = Some (fl\<lparr>cells := program_bytes cell a bs (cells fl)\<rparr>)"
  using assms
proof (induction k arbitrary: a bs fl)
  case 0
  have "program_bytes cell a [] (cells fl) = cells fl" by (rule ext) (auto simp: program_bytes_def)
  then show ?case using 0 by simp
next
  case (Suc k)
  have "length bs = Suc (Suc (Suc (Suc (4 * k))))" using Suc.prems(5) by simp
  then obtain b0 b1 b2 b3 rest where bs: "bs = b0 # b1 # b2 # b3 # rest" "length rest = 4 * k"
    by (auto simp: length_Suc_conv)
  let ?m1 = "program_bytes cell a [b0, b1] (cells fl)"
  let ?m2 = "program_bytes cell (a + 2) [b2, b3] ?m1"
  have m2: "?m2 = program_bytes cell a [b0, b1, b2, b3] (cells fl)"
    using program_bytes_append [of cell a "[b0, b1]" "[b2, b3]"] by simp
  have m3: "program_bytes cell (a + 4) rest ?m2 = program_bytes cell a bs (cells fl)"
    using program_bytes_append [of cell a "[b0, b1, b2, b3]" rest "cells fl"] unfolding m2 bs(1)
    by (simp add: numeral_eq_Suc)
  have p1: "HAL_FLASH_Program cell a [b0, b1] fl = Some (HAL_OK, fl\<lparr>cells := ?m1\<rparr>)"
    using Suc.prems by (intro HAL_FLASH_Program_pair) simp_all
  have p2: "HAL_FLASH_Program cell (a + 2) [b2, b3] (fl\<lparr>cells := ?m1\<rparr>) = Some (HAL_OK, fl\<lparr>cells := ?m2\<rparr>)"
    using Suc.prems HAL_FLASH_Program_pair [of "fl\<lparr>cells := ?m1\<rparr>" "a + 2" cell b2 b3] by simp
  have "(a + 4) mod 2 = 0" using Suc.prems(4) by presburger
  then have "program_block cell (a + 4) rest HAL_OK (fl\<lparr>cells := ?m2\<rparr>)
      = Some (fl\<lparr>cells := program_bytes cell (a + 4) rest ?m2\<rparr>)"
    using Suc.IH [of "fl\<lparr>cells := ?m2\<rparr>" "a + 4" rest] Suc.prems bs(2) by simp
  then show ?case using p1 p2 m3 by (simp add: bs(1))
qed

subsection \<open>Whole transfers\<close>

definition pad512 :: "u8 list \<Rightarrow> u8 list" where
  "pad512 c = c @ replicate (512 - length c) 0"

text \<open>A server in the middle of a transfer: block \<open>n\<close> was the last one, the next goes to erased cells.\<close>

definition receiving :: "nat \<Rightarrow> nat \<Rightarrow> tftp \<Rightarrow> bool" where
  "receiving n a st \<longleftrightarrow> (\<exists>tot. connection st = Some \<lparr>block = int n, tot_bytes = tot\<rparr>) \<and> Flash_Write_Address st = a
     \<and> FLASH_BASE \<le> a \<and> a mod 2 = 0 \<and> n < 65535"

lemma write_block_run:
  assumes "receiving n a st" "length c \<le> 512" "a + 512 \<le> FLASH_END"
  shows "write_block cell (data_packet m c) st = Some (st\<lparr>total_count := total_count st + length c,
     tftp_flash := \<lparr>cells = program_bytes cell a (pad512 c) (cells (tftp_flash st)), locked = True\<rparr>,
     Flash_Write_Address := a + 512\<rparr>)"
proof -
  have "program_block cell a (pad512 c) HAL_OK ((tftp_flash st)\<lparr>locked := False\<rparr>)
      = Some ((tftp_flash st)\<lparr>locked := False, cells := program_bytes cell a (pad512 c) (cells (tftp_flash st))\<rparr>)"
    using assms program_block_run [of "(tftp_flash st)\<lparr>locked := False\<rparr>" a 128 "pad512 c" cell]
    by (simp add: receiving_def pad512_def)
  then show ?thesis
    using assms(1,2) by (cases "tftp_flash st") (simp add: write_block_def TFTP_DATA_PKT_HDR_LEN_def HAL_FLASH_Unlock_def
      HAL_FLASH_Lock_def pad512_def receiving_def Let_def)
qed

lemma length_pad512 [simp]: "length c \<le> 512 \<Longrightarrow> length (pad512 c) = 512"
  by (simp add: pad512_def)

lemma write_block_erased:
  assumes "erased_takes cell" "receiving n a st" "length c \<le> 512" "a + 512 \<le> FLASH_END"
    and "\<forall>i < 512. cells (tftp_flash st) (a + i) = 0xFF"
  shows "\<exists>st'. write_block cell (data_packet m c) st = Some st' \<and> Flash_Write_Address st' = a + 512
    \<and> holds (tftp_flash st') a (pad512 c) \<and> (\<forall>x. x < a \<or> a + 512 \<le> x \<longrightarrow> cells (tftp_flash st') x = cells (tftp_flash st) x)
    \<and> connection st' = connection st \<and> sent st' = sent st \<and> json_flag st' = json_flag st \<and> unfreed st' = unfreed st"
  using assms(1,3,5) write_block_run [OF assms(2-4), of cell m]
  by (auto simp: holds_def program_bytes_def erased_takes_def)

lemma uint_block: "n < 65535 \<Longrightarrow> uint (of_nat (Suc n) :: u16) = int n + 1"
proof -
  assume "n < 65535"
  then have "unat (of_nat (Suc n) :: u16) = Suc n" by (intro unat_of_nat_small) simp
  then show ?thesis by (metis of_nat_Suc uint_nat add.commute)
qed

lemma receive_block:
  assumes "erased_takes cell" "receiving n a st" "0 < length c" "length c \<le> 512" "a + 512 \<le> FLASH_END"
    and "\<forall>i < 512. cells (tftp_flash st) (a + i) = 0xFF" "connection st = Some args"
  shows "\<exists>st'. IAP_wrq_recv_callback cell True (data_packet (Suc n) c) False args st = Some st'
    \<and> holds (tftp_flash st') a (pad512 c) \<and> (\<forall>x. x < a \<or> a + 512 \<le> x \<longrightarrow> cells (tftp_flash st') x = cells (tftp_flash st) x)
    \<and> sent st' = sent st @ [ack_packet (Suc n)] \<and> unfreed st' = unfreed st
    \<and> (if length c < 512 then connection st' = None \<and> json_flag st'
       else (\<exists>tot. connection st' = Some \<lparr>block = int (Suc n), tot_bytes = tot\<rparr>) \<and> Flash_Write_Address st' = a + 512
         \<and> json_flag st' = json_flag st)"
proof -
  obtain st1 where w: "write_block cell (data_packet (Suc n) c) st = Some st1" "Flash_Write_Address st1 = a + 512"
    "holds (tftp_flash st1) a (pad512 c)" "\<forall>x. x < a \<or> a + 512 \<le> x \<longrightarrow> cells (tftp_flash st1) x = cells (tftp_flash st) x"
    "connection st1 = connection st" "sent st1 = sent st" "json_flag st1 = json_flag st" "unfreed st1 = unfreed st"
    using write_block_erased [OF assms(1,2,4,5,6)] by blast
  have b: "block args = int n" "n < 65535" using assms(2,7) by (auto simp: receiving_def)
  have ack: "IAP_tftp_send_ack_packet True (int n + 1) t = t\<lparr>sent := sent t @ [ack_packet (Suc n)]\<rparr>" for t
    using ack_sent [of "Suc n" t] by (simp add: add.commute)
  show ?thesis
    using w b uint_block [OF b(2)] assms(3,4)
    by (cases args) (auto simp: IAP_wrq_recv_callback_def TFTP_DATA_PKT_HDR_LEN_def TFTP_DATA_PKT_LEN_MAX_def
      IAP_tftp_cleanup_wr_def Let_def ack holds_def)
qed

lemma receive_empty:
  assumes "receiving n a st" "connection st = Some args"
  shows "\<exists>st'. IAP_wrq_recv_callback cell True (data_packet (Suc n) []) False args st = Some st'
    \<and> tftp_flash st' = tftp_flash st \<and> sent st' = sent st @ [ack_packet (Suc n)] \<and> connection st' = None \<and> json_flag st'"
proof -
  have b: "block args = int n" "n < 65535" using assms by (auto simp: receiving_def)
  have ack: "IAP_tftp_send_ack_packet True (int n + 1) t = t\<lparr>sent := sent t @ [ack_packet (Suc n)]\<rparr>" for t
    using ack_sent [of "Suc n" t] by (simp add: add.commute)
  show ?thesis
    using b uint_block [OF b(2)]
    by (auto simp: IAP_wrq_recv_callback_def TFTP_DATA_PKT_HDR_LEN_def TFTP_DATA_PKT_LEN_MAX_def IAP_tftp_cleanup_wr_def Let_def ack)
qed

text \<open>The data packets of a file: full blocks, then a shorter (perhaps empty) last one; and what the
  server does with a sequence of packets while the connection is open.\<close>

function file_packets :: "nat \<Rightarrow> u8 list \<Rightarrow> u8 list list" where
  "file_packets n d = (if length d < 512 then [data_packet n d] else data_packet n (take 512 d) # file_packets (Suc n) (drop 512 d))"
  by auto
termination by (relation "measure (length \<circ> snd)") auto

declare file_packets.simps [simp del]

fun tftp_run :: "cell \<Rightarrow> u8 list list \<Rightarrow> tftp \<Rightarrow> tftp option" where
  "tftp_run cell [] st = Some st"
| "tftp_run cell (p # ps) st =
     (case connection st of None \<Rightarrow> Some st
      | Some args \<Rightarrow> Option.bind (IAP_wrq_recv_callback cell True p False args st) (tftp_run cell ps))"

lemma tftp_run_file:
  assumes "erased_takes cell" "receiving n a st" "a + length d + 512 \<le> FLASH_END" "n + length d div 512 < 65535"
    and "\<forall>i < length d + 512. cells (tftp_flash st) (a + i) = 0xFF"
  shows "\<exists>st'. tftp_run cell (file_packets (Suc n) d) st = Some st' \<and> connection st' = None \<and> json_flag st'
    \<and> holds (tftp_flash st') a (d @ replicate ((512 - length d mod 512) mod 512) 0)
    \<and> (\<forall>x < a. cells (tftp_flash st') x = cells (tftp_flash st) x)
    \<and> sent st' = sent st @ map ack_packet [Suc n..<n + length d div 512 + 2]"
  using assms(2-)
proof (induction "Suc n" d arbitrary: n a st rule: file_packets.induct)
  case (1 d)
  obtain args where c: "connection st = Some args" using "1.prems"(1) by (auto simp: receiving_def)
  show ?case
  proof (cases "length d < 512")
    case short: True
    show ?thesis
    proof (cases "d = []")
      case True
      then show ?thesis using receive_empty [OF "1.prems"(1) c, of cell] c by (auto simp: file_packets.simps holds_def)
    next
      case False
      have e: "\<forall>i < 512. cells (tftp_flash st) (a + i) = 0xFF" using "1.prems"(4) by simp
      obtain st' where "IAP_wrq_recv_callback cell True (data_packet (Suc n) d) False args st = Some st'"
        "holds (tftp_flash st') a (pad512 d)" "\<forall>x. x < a \<or> a + 512 \<le> x \<longrightarrow> cells (tftp_flash st') x = cells (tftp_flash st) x"
        "sent st' = sent st @ [ack_packet (Suc n)]" "connection st' = None" "json_flag st'"
        using receive_block [OF assms(1) "1.prems"(1) _ _ _ e c, of d] False short "1.prems"(2) by auto
      then show ?thesis using c short False by (simp add: file_packets.simps pad512_def)
    qed
  next
    case long: False
    let ?c = "take 512 d" and ?d = "drop 512 d"
    have e: "\<forall>i < 512. cells (tftp_flash st) (a + i) = 0xFF" using "1.prems"(4) by simp
    obtain st1 where r: "IAP_wrq_recv_callback cell True (data_packet (Suc n) ?c) False args st = Some st1"
        "holds (tftp_flash st1) a (pad512 ?c)" "\<forall>x. x < a \<or> a + 512 \<le> x \<longrightarrow> cells (tftp_flash st1) x = cells (tftp_flash st) x"
        "sent st1 = sent st @ [ack_packet (Suc n)]" and
        r2: "\<exists>tot. connection st1 = Some \<lparr>block = int (Suc n), tot_bytes = tot\<rparr>" "Flash_Write_Address st1 = a + 512"
    proof -
      have lc: "length ?c = 512" using long by simp
      show ?thesis
        using receive_block [OF assms(1) "1.prems"(1) _ _ _ e c, of ?c] lc "1.prems"(2) that
        by (simp del: length_take) blast
    qed
    have dv: "length d div 512 = Suc (length ?d div 512)" "length d mod 512 = length ?d mod 512"
      using long by (simp_all add: le_div_geq le_mod_geq)
    have rec: "receiving (Suc n) (a + 512) st1"
      using r2 "1.prems"(1,3) dv long by (auto simp: receiving_def mod2_eq_if)
    have er: "\<forall>i < length ?d + 512. cells (tftp_flash st1) (a + 512 + i) = 0xFF"
      using r(3) "1.prems"(4) long by (simp add: add.assoc)
    obtain st' where IH: "tftp_run cell (file_packets (Suc (Suc n)) ?d) st1 = Some st'" "connection st' = None" "json_flag st'"
        "holds (tftp_flash st') (a + 512) (?d @ replicate ((512 - length ?d mod 512) mod 512) 0)"
        "\<forall>x < a + 512. cells (tftp_flash st') x = cells (tftp_flash st1) x"
        "sent st' = sent st1 @ map ack_packet [Suc (Suc n)..<Suc n + length ?d div 512 + 2]"
      using "1.hyps" [OF long rec _ _ er] "1.prems"(2,3) dv long by auto
    have "pad512 ?c = ?c" using long by (simp add: pad512_def)
    then have "holds (tftp_flash st') a ?c" using r(2) IH(5) long by (simp add: holds_def)
    then have "holds (tftp_flash st') a (?c @ (?d @ replicate ((512 - length ?d mod 512) mod 512) 0))"
      using IH(4) long by (subst holds_append) simp
    then have "holds (tftp_flash st') a (d @ replicate ((512 - length d mod 512) mod 512) 0)"
      using dv(2) by (simp flip: append_assoc)
    moreover have "tftp_run cell (file_packets (Suc n) d) st = Some st'"
      using long c r(1) IH(1) by (simp add: file_packets.simps [of "Suc n" d])
    moreover have "\<forall>x < a. cells (tftp_flash st') x = cells (tftp_flash st) x" using IH(5) r(3) by simp
    moreover have "sent st' = sent st @ map ack_packet [Suc n..<n + length d div 512 + 2]"
    proof -
      have "[Suc n..<n + length d div 512 + 2] = Suc n # [Suc (Suc n)..<Suc n + length ?d div 512 + 2]"
        unfolding dv(1) by (subst upt_conv_Cons) simp_all
      then show ?thesis by (simp only: IH(6) r(4) list.map append_assoc append_Cons append_Nil)
    qed
    ultimately show ?thesis using IH(2,3) by blast
  qed
qed

text \<open>What a write request does.\<close>

lemma write_request_run:
  assumes "IAP_tftp_recv_callback True True True True (b # TFTP_WRQ # rest) st = Some st'"
  shows "receiving 0 JSON_UPLOAD_ADDRESS st' \<and> sent st' = sent st @ [ack_packet 0]
    \<and> (\<forall>x. cells (tftp_flash st') x = (if in_sector 7 x then 0xFF else cells (tftp_flash st) x))"
  using assms ack_sent [of 0]
  by (auto simp: IAP_tftp_recv_callback_def IAP_tftp_decode_op_def IAP_tftp_process_write_def Let_def HAL_FLASH_Unlock_def
    HAL_FLASH_Lock_def HAL_FLASHEx_Erase_def JSON_SECTOR_def receiving_def FLASH_BASE_def JSON_UPLOAD_ADDRESS_def)

text \<open>C33: A write request followed by the packets of a file of up to 65024 bytes, in order, with the upload
  sector erased before: the upload area holds the file padded with zeros to whole blocks, every
  block is acknowledged once and in order, the connection is closed and a check of the new
  configuration is requested.\<close>

theorem tftp_upload:
  assumes "erased_takes cell" "\<forall>x. in_sector 6 x \<longrightarrow> cells (tftp_flash st) x = 0xFF" "length d \<le> 65024"
    and "IAP_tftp_recv_callback True True True True (b # TFTP_WRQ # rest) st = Some st1"
  shows "\<exists>st'. tftp_run cell (file_packets 1 d) st1 = Some st' \<and> connection st' = None \<and> json_flag st'
    \<and> holds (tftp_flash st') JSON_UPLOAD_ADDRESS (d @ replicate ((512 - length d mod 512) mod 512) 0)
    \<and> sent st' = sent st @ map ack_packet [0..<length d div 512 + 2]"
proof -
  have r: "receiving 0 JSON_UPLOAD_ADDRESS st1" "sent st1 = sent st @ [ack_packet 0]"
      "\<forall>x. cells (tftp_flash st1) x = (if in_sector 7 x then 0xFF else cells (tftp_flash st) x)"
    using write_request_run [OF assms(4)] by auto
  have e: "\<forall>i < length d + 512. cells (tftp_flash st1) (JSON_UPLOAD_ADDRESS + i) = 0xFF"
    using r(3) assms(2,3) by (simp add: in_sector_upload in_sector_storage JSON_UPLOAD_ADDRESS_def)
  have dv: "length d div 512 \<le> 65024 div 512" using assms(3) by (rule div_le_mono)
  obtain st' where "tftp_run cell (file_packets (Suc 0) d) st1 = Some st'" "connection st' = None" "json_flag st'"
    "holds (tftp_flash st') JSON_UPLOAD_ADDRESS (d @ replicate ((512 - length d mod 512) mod 512) 0)"
    "sent st' = sent st1 @ map ack_packet [Suc 0..<0 + length d div 512 + 2]"
    using tftp_run_file [OF assms(1) r(1) _ _ e] assms(3) dv by (auto simp: flash_addrs)
  moreover have "map ack_packet [0..<length d div 512 + 2] = ack_packet 0 # map ack_packet [Suc 0..<0 + length d div 512 + 2]"
    by (subst upt_conv_Cons) simp_all
  ultimately show ?thesis using r(2) by (intro exI [of _ st']) simp
qed

text \<open>A server at rest over a flash, and one that has just answered a write request.\<close>

definition idle_tftp :: "flash \<Rightarrow> tftp" where
  "idle_tftp fl = \<lparr>connection = None, Flash_Write_Address = 0, total_count = 0, tftp_flash = fl, json_flag = False,
     sent = [], unfreed = 0\<rparr>"

definition open_tftp :: "flash \<Rightarrow> tftp" where
  "open_tftp fl = IAP_tftp_process_write True True (idle_tftp fl)"

lemma open_tftp_request:
  "IAP_tftp_recv_callback True True True True (0 # TFTP_WRQ # [0x63, 0]) (idle_tftp fl) = Some (open_tftp fl)"
  by (simp add: IAP_tftp_recv_callback_def IAP_tftp_decode_op_def open_tftp_def)

lemma open_tftp_receiving: "receiving 0 JSON_UPLOAD_ADDRESS (open_tftp fl)"
  using write_request_run [OF open_tftp_request] by blast

lemma open_tftp_connection: "connection (open_tftp fl) = Some \<lparr>block = 0, tot_bytes = 0\<rparr>"
  by (simp add: open_tftp_def IAP_tftp_process_write_def HAL_FLASH_Unlock_def Let_def IAP_tftp_send_ack_packet_def)

theorem tftp_upload_witness:
  "\<exists>st'. tftp_run (AND) (file_packets 1 [1, 2, 3]) (open_tftp (image_flash 0 [])) = Some st' \<and> connection st' = None
    \<and> sent st' = [ack_packet 0, ack_packet 1]"
  using tftp_upload [OF erased_takes_and _ _ open_tftp_request, of "image_flash 0 []" "[1, 2, 3]"]
  by (auto simp: image_flash_def idle_tftp_def numeral_2_eq_2)

text \<open>The write request erases sector 7, where the stored configuration is, and not the sector the
  upload goes to: from the request on the stored configuration is lost (a restart finds none), and
  what an earlier upload left in the upload area is still there.\<close>

theorem write_request_erases_stored_config:
  assumes "IAP_tftp_recv_callback True True True True (b # TFTP_WRQ # rest) st = Some st1"
  shows "jsonFromFlash defaultConfig (tftp_flash st1) s = Some (s @ defaultConfig)
    \<and> (\<forall>x. in_sector 6 x \<longrightarrow> cells (tftp_flash st1) x = cells (tftp_flash st) x)"
proof -
  have r: "\<forall>x. cells (tftp_flash st1) x = (if in_sector 7 x then 0xFF else cells (tftp_flash st) x)"
    using write_request_run [OF assms] by blast
  have "holds (tftp_flash st1) JSON_STORAGE_ADDRESS (le32 0xFFFFFFFF)"
    using r by (auto simp: holds_def in_sector_storage JSON_STORAGE_ADDRESS_def le32_def nth_Cons')
  then have "flash_word (tftp_flash st1) JSON_STORAGE_ADDRESS = 0xFFFFFFFF" by (rule holds_le32)
  moreover have "\<not> (in_sector 6 x \<and> in_sector 7 x)" for x by (simp add: in_sector_upload in_sector_storage)
  ultimately show ?thesis using r by (auto simp: jsonFromFlash_def)
qed

theorem write_request_erases_stored_config_witness:
  "jsonFromFlash [] (tftp_flash (open_tftp (image_flash JSON_STORAGE_ADDRESS (le32 1 @ [0x7B])))) [] = Some []"
  using write_request_erases_stored_config [OF open_tftp_request] by simp

text \<open>A block that is programmed over cells that are not erased leaves the conjunction of the old
  and the new bytes, if programming can only clear bits: an upload after a failed one (the upload area is
  erased after a successful check only) is stored wrongly, unless it repeats what is there.\<close>

theorem upload_over_old_data:
  assumes "receiving n a st" "0 < length c" "length c \<le> 512" "a + 512 \<le> FLASH_END" "connection st = Some args"
  shows "\<exists>st'. IAP_wrq_recv_callback (AND) True (data_packet (Suc n) c) False args st = Some st'
    \<and> (\<forall>i < length c. cells (tftp_flash st') (a + i) = cells (tftp_flash st) (a + i) AND c ! i)
    \<and> sent st' = sent st @ [ack_packet (Suc n)]"
proof -
  have b: "block args = int n" "n < 65535" using assms(1,5) by (auto simp: receiving_def)
  have ack: "IAP_tftp_send_ack_packet True (int n + 1) t = t\<lparr>sent := sent t @ [ack_packet (Suc n)]\<rparr>" for t
    using ack_sent [of "Suc n" t] by (simp add: add.commute)
  have "pad512 c ! i = c ! i" if "i < length c" for i using that by (simp add: pad512_def nth_append)
  then show ?thesis
    using b uint_block [OF b(2)] assms(2,3) write_block_run [OF assms(1,3,4), of "(AND)" "Suc n"]
    by (auto simp: IAP_wrq_recv_callback_def TFTP_DATA_PKT_HDR_LEN_def TFTP_DATA_PKT_LEN_MAX_def
      IAP_tftp_cleanup_wr_def Let_def ack program_bytes_def)
qed

theorem upload_over_old_data_witness:
  "\<exists>st'. IAP_wrq_recv_callback (AND) True (data_packet 1 [0x7D]) False \<lparr>block = 0, tot_bytes = 0\<rparr>
      (open_tftp (image_flash JSON_UPLOAD_ADDRESS [0x7B])) = Some st'
    \<and> cells (tftp_flash st') JSON_UPLOAD_ADDRESS = 0x79"
proof -
  let ?fl = "image_flash JSON_UPLOAD_ADDRESS [0x7B]"
  have "cells (tftp_flash (open_tftp ?fl)) JSON_UPLOAD_ADDRESS = 0x7B"
    using write_request_run [OF open_tftp_request, of ?fl]
    by (simp add: idle_tftp_def image_flash_def in_sector_storage JSON_UPLOAD_ADDRESS_def)
  then show ?thesis
    using upload_over_old_data [OF open_tftp_receiving _ _ _ open_tftp_connection, of "[0x7D]" ?fl]
    by (auto simp: flash_addrs)
qed

text \<open>Data of more than 512 bytes in the packet of the expected block overruns the 512-byte buffer on
  the callback's stack.\<close>

theorem tftp_long_block_overruns:
  assumes "receiving n a st" "connection st = Some args" "512 < length c"
  shows "IAP_wrq_recv_callback cell ok (data_packet (Suc n) c) False args st = None"
proof -
  have b: "block args = int n" "n < 65535" using assms by (auto simp: receiving_def)
  have "c \<noteq> []" using assms(3) by auto
  then show ?thesis
    using b uint_block [OF b(2)] assms(3)
    by (simp add: IAP_wrq_recv_callback_def TFTP_DATA_PKT_HDR_LEN_def write_block_def)
qed

theorem tftp_long_block_overruns_witness:
  "IAP_wrq_recv_callback (AND) True (data_packet 1 (replicate 513 0)) False \<lparr>block = 0, tot_bytes = 0\<rparr>
     (open_tftp (image_flash 0 [])) = None"
  using tftp_long_block_overruns [OF open_tftp_receiving open_tftp_connection, of "replicate 513 0"] by simp

text \<open>A packet that is not the next block writes nothing and repeats the last acknowledgement; but if
  it is shorter than a full block it still ends the transfer and requests the check of a file that is not
  complete.\<close>

theorem tftp_stray_packet:
  assumes "receiving n a st" "connection st = Some args" "m \<noteq> Suc n" "m < 65536"
  shows "\<exists>st'. IAP_wrq_recv_callback cell True (data_packet m c) False args st = Some st'
    \<and> tftp_flash st' = tftp_flash st \<and> sent st' = sent st @ [ack_packet n]
    \<and> (if length c < 512 then connection st' = None \<and> json_flag st' else connection st' = connection st)"
proof -
  have b: "block args = int n" using assms by (auto simp: receiving_def)
  have "unat (of_nat m :: u16) = m" using assms(4) by (intro unat_of_nat_small) simp
  then have u: "uint (of_nat m :: u16) = int m" by (metis uint_nat)
  show ?thesis
    using b u assms(2,3)
    by (auto simp: IAP_wrq_recv_callback_def TFTP_DATA_PKT_HDR_LEN_def TFTP_DATA_PKT_LEN_MAX_def IAP_tftp_cleanup_wr_def Let_def
      ack_sent)
qed

theorem tftp_stray_packet_witness:
  "\<exists>st'. IAP_wrq_recv_callback (AND) True (data_packet 7 [1]) False \<lparr>block = 0, tot_bytes = 0\<rparr>
     (open_tftp (image_flash 0 [])) = Some st' \<and> connection st' = None \<and> json_flag st'"
  using tftp_stray_packet [OF open_tftp_receiving open_tftp_connection, of 7 "(AND)" "[1]"] by auto

end
