(* ===== verification/MainLoop.thy ===== *)
theory MainLoop
  imports Threads Tftp
begin

unbundle bit_operations_syntax

text \<open>
  The main program (\<open>main\<close> and \<open>runThreads\<close> of \<open>Src/remora.cpp\<close>): the state machine that reads the
  configuration, makes the threads and modules, starts the timers, and then follows the status of the
  link, and the loop around it that installs a new configuration. What the JSON library makes of
  a text is a parameter (\<open>deserializeJson\<close>), as are the clock tree and the memory the constructors do not
  initialise. Every \<open>None\<close> is a fault of the program: a null string, a division by zero, an access
  outside of an array, or a wait that never ends.
\<close>

datatype State = ST_SETUP | ST_START | ST_IDLE | ST_RUNNING | ST_STOP | ST_RESET | ST_WDRESET

text \<open>A JSON object by its keys: strings (a missing one is the null pointer) and numbers (a missing one is 0).\<close>

record json_object =
  jstr :: "string \<Rightarrow> string option"
  jint :: "string \<Rightarrow> int"
  juint :: "string \<Rightarrow> u32"

record json_doc =
  doc_Threads :: "json_object list"
  doc_Modules :: "json_object list"

record env =
  deserializeJson :: "u8 list \<Rightarrow> json_doc option"
  defaultConfig :: "u8 list"
  clock_tree :: rcc
  junk_stepgen :: stepgen
  junk_comms :: remora_comms
  junk_post :: bool

record firmware =
  currentState :: State
  prevState :: State
  base_freq :: u32
  servo_freq :: u32
  configError :: bool
  threadsRunning :: bool
  staticConfig :: bool
  baseThread :: thread
  servoThread :: thread
  modules :: "module list"
  mworld :: world
  board :: pwm_board
  vectors :: "nat option list"
  thread_timers :: "nat \<Rightarrow> thread_timer"
  strJson :: "u8 list"
  doc :: json_doc
  cfg :: config_state
  mflash :: flash

subsection \<open>Configuration\<close>

definition deserialiseJSON :: "env \<Rightarrow> firmware \<Rightarrow> firmware" where
  "deserialiseJSON e st =
     (if staticConfig st then st
      else (case deserializeJson e (takeWhile (\<lambda>b. b \<noteq> 0) (strJson st)) of
          Some d \<Rightarrow> st\<lparr>doc := d\<rparr>
        | None \<Rightarrow> st\<lparr>configError := True\<rparr>))"

fun thread_freqs :: "json_object list \<Rightarrow> u32 \<times> u32 \<Rightarrow> (u32 \<times> u32) option" where
  "thread_freqs [] f = Some f"
| "thread_freqs (ob # obs) (b, s) =
     (case jstr ob ''Thread'' of None \<Rightarrow> None
      | Some configor \<Rightarrow>
          if configor = ''Base'' then thread_freqs obs (juint ob ''Frequency'', s)
          else if configor = ''Servo'' then thread_freqs obs (b, juint ob ''Frequency'')
          else thread_freqs obs (b, s))"

definition configThreads :: "firmware \<Rightarrow> firmware option" where
  "configThreads st =
     (if configError st then Some st
      else map_option (\<lambda>(b, s). st\<lparr>base_freq := b, servo_freq := s\<rparr>)
             (thread_freqs (doc_Threads (doc st)) (base_freq st, servo_freq st)))"

definition createThreads :: "env \<Rightarrow> firmware \<Rightarrow> firmware" where
  "createThreads e st = st\<lparr>baseThread := pruThread_ctor (junk_post e) 0 (base_freq st),
     servoThread := pruThread_ctor (junk_post e) 1 (servo_freq st)\<rparr>"

subsection \<open>Modules from the configuration\<close>

definition register_servo :: "module_obj \<Rightarrow> firmware \<Rightarrow> firmware" where
  "register_servo ob st = st\<lparr>modules := modules st @ [Module_ctor ob],
     servoThread := registerModule (length (modules st)) (servoThread st)\<rparr>"

definition register_base :: "module_obj \<Rightarrow> firmware \<Rightarrow> firmware" where
  "register_base ob st = st\<lparr>modules := modules st @ [Module_ctor ob],
     baseThread := registerModulePost (length (modules st)) (registerModule (length (modules st)) (baseThread st))\<rparr>"

definition set_gpio :: "gpio \<Rightarrow> firmware \<Rightarrow> firmware" where
  "set_gpio g st = st\<lparr>mworld := (mworld st)\<lparr>wgpio := g\<rparr>\<rparr>"

definition createStepgen :: "env \<Rightarrow> json_object \<Rightarrow> firmware \<Rightarrow> firmware option" where
  "createStepgen e ob st =
     (case (jstr ob ''Step Pin'', jstr ob ''Direction Pin'') of
        (Some step, Some direction) \<Rightarrow>
          map_option (\<lambda>(sg, g). register_base (MStepgen sg) (set_gpio g st))
            (Stepgen_ctor (junk_stepgen e) (sint (base_freq st)) (jint ob ''Joint Number'') step direction STEPBIT (wgpio (mworld st)))
      | _ \<Rightarrow> None)"

definition createBlink :: "json_object \<Rightarrow> firmware \<Rightarrow> firmware option" where
  "createBlink ob st =
     (case jstr ob ''Pin'' of None \<Rightarrow> None
      | Some name \<Rightarrow>
          map_option (\<lambda>(b, g). register_servo (MBlink b) (set_gpio g st))
            (Blink_ctor name (servo_freq st) (word_of_int (jint ob ''Frequency'')) (wgpio (mworld st))))"

definition loadDigitalPin :: "json_object \<Rightarrow> firmware \<Rightarrow> firmware option" where
  "loadDigitalPin ob st =
     (case (jstr ob ''Pin'', jstr ob ''Mode'', jstr ob ''Invert'', jstr ob ''Modifier'') of
        (Some name, Some md, Some invert, Some modifier) \<Rightarrow>
          map_option (\<lambda>(d, g). (case d of None \<Rightarrow> set_gpio g st | Some dp \<Rightarrow> register_servo (MDigitalPin dp) (set_gpio g st)))
            (createDigitalPin name md invert modifier (jint ob ''Data Bit'') (wgpio (mworld st)))
      | _ \<Rightarrow> None)"

definition loadPWM :: "env \<Rightarrow> json_object \<Rightarrow> firmware \<Rightarrow> firmware option" where
  "loadPWM e ob st =
     (case (jstr ob ''PWM Pin'', jstr ob ''Hardware PWM'', jstr ob ''Variable Freq'') of
        (Some name, Some hardware, Some variable) \<Rightarrow>
          map_option (\<lambda>(p, b). register_servo (MPWM p) (st\<lparr>board := b, mworld := (mworld st)\<lparr>wtims := tims b\<rparr>\<rparr>))
            (createPWM (clock_tree e) (set_point (rxPP (wlink (mworld st)))) (jint ob ''SP[i]'') (jint ob ''PWM Max'') name variable
               (jint ob ''Period SP[i]'') (jint ob ''Period us'') ((board st)\<lparr>tims := wtims (mworld st)\<rparr>))
      | _ \<Rightarrow> None)"

text \<open>One round of the loop of \<open>loadModules\<close>.\<close>

definition load_module :: "env \<Rightarrow> json_object \<Rightarrow> firmware \<Rightarrow> firmware option" where
  "load_module e ob st =
     (case jstr ob ''Thread'' of None \<Rightarrow> None
      | Some thr \<Rightarrow>
          if thr = ''Base'' then
            (case jstr ob ''Type'' of None \<Rightarrow> None
             | Some ty \<Rightarrow> if ty = ''Stepgen'' then createStepgen e ob st else Some st)
          else if thr = ''Servo'' then
            (case jstr ob ''Type'' of None \<Rightarrow> None
             | Some ty \<Rightarrow> if ty = ''Blink'' then createBlink ob st
                else if ty = ''Digital Pin'' then loadDigitalPin ob st
                else if ty = ''PWM'' then loadPWM e ob st
                else Some st)
          else Some st)"

fun load_loop :: "env \<Rightarrow> json_object list \<Rightarrow> firmware \<Rightarrow> firmware option" where
  "load_loop e [] st = Some st"
| "load_loop e (ob # obs) st = Option.bind (load_module e ob st) (load_loop e obs)"

definition loadModules :: "env \<Rightarrow> firmware \<Rightarrow> firmware option" where
  "loadModules e st =
     (let st1 = register_servo MComms (st\<lparr>mworld := (mworld st)\<lparr>wlink := (wlink (mworld st))\<lparr>comms := junk_comms e\<rparr>\<rparr>\<rparr>)
      in if configError st1 then Some st1 else load_loop e (doc_Modules (doc st1)) st1)"

subsection \<open>The state machine\<close>

text \<open>\<open>while (n-- > 0) rxBuffer[n] = 0\<close>\<close>

fun clear_bytes :: "nat \<Rightarrow> packet \<Rightarrow> packet" where
  "clear_bytes 0 p = p"
| "clear_bytes (Suc n) p = clear_bytes n (p[n := 0])"

definition reset_rx :: "link \<Rightarrow> link" where
  "reset_rx s = (let pruRxData = getCurrentRxBuffer (rxPP s)
     in s\<lparr>rxPP := store (rxPP s) pruRxData (clear_bytes BUFFER_SIZE (deref (rxPP s) pruRxData))\<rparr>)"

definition run_servo :: "firmware \<Rightarrow> firmware option" where
  "run_servo st = map_option (\<lambda>(t, heap, w). st\<lparr>servoThread := t, modules := heap, mworld := w\<rparr>)
     (run (servoThread st) (modules st) (mworld st))"

definition start_threads :: "firmware \<Rightarrow> firmware option" where
  "start_threads st =
     (case startThread (baseThread st) 0 (vectors st) (thread_timers st) of None \<Rightarrow> None
      | Some (v1, tt1) \<Rightarrow>
        (case startThread (servoThread st) 1 v1 tt1 of None \<Rightarrow> None
         | Some (v2, tt2) \<Rightarrow> Some (st\<lparr>vectors := v2, thread_timers := tt2, threadsRunning := True\<rparr>)))"

definition link_status :: "firmware \<Rightarrow> bool" where
  "link_status st = getStatus (comms (wlink (mworld st)))"

definition setup_tasks :: "env \<Rightarrow> firmware \<Rightarrow> firmware option" where
  "setup_tasks e st =
     (case jsonFromFlash (defaultConfig e) (mflash st) (strJson st) of None \<Rightarrow> None
      | Some js \<Rightarrow>
        let st1 = st\<lparr>strJson := js,
              staticConfig := (if flash_word (mflash st) JSON_STORAGE_ADDRESS = 0xFFFFFFFF then staticConfig st else False)\<rparr>
        in (case configThreads (deserialiseJSON e st1) of None \<Rightarrow> None
            | Some st2 \<Rightarrow> loadModules e (createThreads e st2)))"

definition runThreads :: "env \<Rightarrow> firmware \<Rightarrow> firmware option" where
  "runThreads e st =
     (case currentState st of
        ST_SETUP \<Rightarrow> map_option (\<lambda>s. s\<lparr>currentState := ST_START\<rparr>) (setup_tasks e (st\<lparr>prevState := currentState st\<rparr>))
      | ST_START \<Rightarrow>
          (let st1 = st\<lparr>prevState := currentState st\<rparr>
           in map_option (\<lambda>s. s\<lparr>currentState := ST_IDLE\<rparr>) (if \<not> threadsRunning st1 then start_threads st1 else Some st1))
      | ST_IDLE \<Rightarrow>
          map_option (\<lambda>s. if link_status s then s\<lparr>currentState := ST_RUNNING\<rparr> else s) (run_servo (st\<lparr>prevState := currentState st\<rparr>))
      | ST_RUNNING \<Rightarrow>
          map_option (\<lambda>s. if link_status s = False then s\<lparr>currentState := ST_RESET\<rparr> else s) (run_servo (st\<lparr>prevState := currentState st\<rparr>))
      | ST_STOP \<Rightarrow> map_option (\<lambda>s. s\<lparr>currentState := ST_STOP\<rparr>) (run_servo (st\<lparr>prevState := currentState st\<rparr>))
      | ST_RESET \<Rightarrow> Some (st\<lparr>prevState := currentState st, mworld := (mworld st)\<lparr>wlink := reset_rx (wlink (mworld st))\<rparr>,
                          currentState := ST_IDLE\<rparr>)
      | ST_WDRESET \<Rightarrow> Some st)"

text \<open>A round of the main loop, with what the network does in it as a parameter: it goes on, or installs the new
  configuration and restarts with the flash it has written.\<close>

datatype outcome = Continue firmware | Reboot flash

definition main_iteration :: "env \<Rightarrow> cell \<Rightarrow> (firmware \<Rightarrow> firmware option) \<Rightarrow> firmware \<Rightarrow> outcome option" where
  "main_iteration e cell EthernetTasks st =
     (case Option.bind (runThreads e st) EthernetTasks of None \<Rightarrow> None
      | Some st2 \<Rightarrow>
          if newJson (cfg st2) then
            (case checkJson (mflash st2) (cfg st2) of None \<Rightarrow> None
             | Some (r, c) \<Rightarrow>
                 if 0 < r then map_option (\<lambda>fl. Reboot (clearJsonUploadArea fl)) (moveJson cell (mflash st2))
                 else Some (Continue (st2\<lparr>cfg := c\<rparr>)))
          else Some (Continue st2))"

text \<open>What \<open>main\<close> starts the loop with, over the memory and flash \<open>st\<close> it finds.\<close>

definition main_start :: "firmware \<Rightarrow> firmware" where
  "main_start st = st\<lparr>currentState := ST_SETUP, prevState := ST_RESET,
     mworld := (mworld st)\<lparr>wlink := (wlink (mworld st))\<lparr>rxPP := initRxPingPongBuffer (rxPP (wlink (mworld st))),
       txPP := initTxPingPongBuffer (txPP (wlink (mworld st)))\<rparr>\<rparr>\<rparr>"

subsection \<open>What a run keeps\<close>

text \<open>A module stays what it is: a step generator keeps its joint, pins and scale, and a module of the servo
  thread stays one.\<close>

fun same_kind :: "module_obj \<Rightarrow> module_obj \<Rightarrow> bool" where
  "same_kind (MStepgen a) (MStepgen b) \<longleftrightarrow> jointNumber b = jointNumber a \<and> stepPin b = stepPin a
     \<and> directionPin b = directionPin a \<and> stepBit b = stepBit a \<and> frequencyScale b = frequencyScale a"
| "same_kind a b \<longleftrightarrow> servo_obj a \<and> servo_obj b"

lemma same_kind_refl: "same_kind a a"
  by (cases a) auto

lemma same_kind_trans: "same_kind a b \<Longrightarrow> same_kind b c \<Longrightarrow> same_kind a c"
  by (cases a; cases b; cases c) auto

lemma same_kind_servo: "same_kind a b \<Longrightarrow> servo_obj a \<Longrightarrow> servo_obj b"
  by (cases a; cases b) auto

lemma same_kind_stepgen: "same_kind (MStepgen a) b \<Longrightarrow> \<exists>sg. b = MStepgen sg \<and> frequencyScale sg = frequencyScale a"
  by (cases b) auto

lemma obj_update_kind: "obj_update ob w = Some (ob', w') \<Longrightarrow> same_kind ob ob'"
  by (cases ob) (auto dest: makePulses_keeps)

lemma obj_updatePost_kind: "obj_updatePost ob w = Some (ob', w') \<Longrightarrow> same_kind ob ob'"
  by (cases ob) (auto simp: stopPulses_def)

lemma run_list_related:
  assumes "run_list f is heap w = Some (heap', w')"
    and "\<And>m w m' w'. f m w = Some (m', w') \<Longrightarrow> R m m'" "\<And>m. R m m" "\<And>a b c. R a b \<Longrightarrow> R b c \<Longrightarrow> R a c"
  shows "list_all2 R heap heap'"
  using assms(1)
proof (induction "is" arbitrary: heap w)
  case Nil
  then show ?case using assms(3) by (simp add: list_all2_refl)
next
  case (Cons i "is")
  then obtain m w1 where m: "i < length heap" "f (heap ! i) w = Some (m, w1)" "run_list f is (heap[i := m]) w1 = Some (heap', w')"
    by (auto split: if_splits option.splits)
  have "R (heap ! k) (heap[i := m] ! k)" if "k < length heap" for k
    using that assms(2) [OF m(2)] assms(3) by (cases "k = i") simp_all
  moreover have "list_all2 R (heap[i := m]) heap'" by (rule Cons.IH [OF m(3)])
  ultimately show ?case using assms(4) by (auto simp: list_all2_conv_all_nth) blast
qed

abbreviation same_kinds :: "module list \<Rightarrow> module list \<Rightarrow> bool" where
  "same_kinds \<equiv> list_all2 (\<lambda>m m'. same_kind (body m) (body m'))"

lemma runModule_kind: "runModule m w = Some (m', w') \<Longrightarrow> same_kind (body m) (body m')"
  using runModule_body obj_update_kind by blast

lemma runModulePost_kind: "runModulePost m w = Some (m', w') \<Longrightarrow> same_kind (body m) (body m')"
  using obj_updatePost_kind by (auto simp: runModulePost_def)

lemma runModule_kinds: "run_list runModule is heap w = Some (heap', w') \<Longrightarrow> same_kinds heap heap'"
  by (rule run_list_related [where R = "\<lambda>m m'. same_kind (body m) (body m')"])
    (auto dest: runModule_kind intro: same_kind_refl same_kind_trans)

lemma runModulePost_kinds: "run_list runModulePost is heap w = Some (heap', w') \<Longrightarrow> same_kinds heap heap'"
  by (rule run_list_related [where R = "\<lambda>m m'. same_kind (body m) (body m')"])
    (auto dest: runModulePost_kind intro: same_kind_refl same_kind_trans)

lemma same_kinds_trans: "same_kinds a b \<Longrightarrow> same_kinds b c \<Longrightarrow> same_kinds a c"
  by (rule list_all2_trans [of _ "\<lambda>m m'. same_kind (body m) (body m')"]) (auto intro: same_kind_trans)

lemma same_kinds_refl: "same_kinds a a"
  by (simp add: list_all2_refl same_kind_refl)

lemma makePulses_wf: "makePulses sg s g = Some (sg', s', g') \<Longrightarrow> wf_link s \<Longrightarrow> wf_link s'"
proof -
  assume r: "makePulses sg s g = Some (sg', s', g')" and wf: "wf_link s"
  have len: "length (deref (txPP s) (getCurrentTxBuffer (txPP s))) = 64" using wf by simp
  have j: "s' = s \<or> nat (jointNumber sg) < JOINTS"
    using r by (auto simp: makePulses_def Let_def split: if_splits option.splits)
  show ?thesis
    using make_pulses_cases [OF r] wf j len by (auto simp: wf_link_def cur_fb_def tx.inv_put)
qed

lemma obj_update_wf: "obj_update ob w = Some (ob', w') \<Longrightarrow> wf_link (wlink w) \<Longrightarrow> wf_link (wlink w')"
proof (cases ob)
  case MComms
  then show "obj_update ob w = Some (ob', w') \<Longrightarrow> wf_link (wlink w) \<Longrightarrow> wf_link (wlink w')" by (auto simp: wf_link_def)
qed (auto dest: makePulses_wf DigitalPin_servo)

interpretation link_pass: guarded_pass runModule "\<lambda>_. True" "\<lambda>w. wf_link (wlink w)" "\<lambda>_ _. True"
  using runModule_body obj_update_wf by unfold_locales blast+

interpretation link_post: guarded_pass runModulePost "\<lambda>_. True" "\<lambda>w. wf_link (wlink w)" "\<lambda>_ w. wf_link (wlink w)"
proof unfold_locales
  show "True \<Longrightarrow> wf_link (wlink w) \<Longrightarrow> runModulePost m w = Some (m', w') \<Longrightarrow> True \<and> wf_link (wlink w') \<and> wf_link (wlink w')" for m w m' w'
    by (cases "body m") (auto simp: runModulePost_def)
qed auto

lemma run_list_bounded: "run_list f is heap w = Some r \<Longrightarrow> \<forall>i \<in> set is. i < length heap"
  by (induction "is" arbitrary: heap w) (fastforce split: if_splits option.splits)+

lemma run_list_wf:
  "run_list runModule is heap w = Some (heap', w') \<Longrightarrow> wf_link (wlink w) \<Longrightarrow> wf_link (wlink w')"
  "run_list runModulePost is heap w = Some (heap', w') \<Longrightarrow> wf_link (wlink w) \<Longrightarrow> wf_link (wlink w')"
proof -
  assume r: "run_list runModule is heap w = Some (heap', w')" and wf: "wf_link (wlink w)"
  have "link_pass.all_ok is heap" using run_list_bounded [OF r] by (simp add: link_pass.all_ok_def)
  from link_pass.pass_partial [OF this wf r] show "wf_link (wlink w')" by simp
next
  assume r: "run_list runModulePost is heap w = Some (heap', w')" and wf: "wf_link (wlink w)"
  have "link_post.all_ok is heap" using run_list_bounded [OF r] by (simp add: link_post.all_ok_def)
  from link_post.pass_partial [OF this wf r] show "wf_link (wlink w')" by simp
qed

text \<open>What a run of a thread does not change.\<close>

definition same_thread :: "thread \<Rightarrow> thread \<Rightarrow> bool" where
  "same_thread t t' \<longleftrightarrow> slice t' = slice t \<and> frequency t' = frequency t \<and> vThread t' = vThread t
     \<and> vThreadPost t' = vThreadPost t \<and> hasThreadPost t' = hasThreadPost t \<and> (\<not> semaphore t \<longrightarrow> \<not> semaphore t')"

lemma run_keeps:
  assumes "run t heap w = Some (t', heap', w')" "wf_link (wlink w)"
  shows "same_thread t t' \<and> same_kinds heap heap' \<and> wf_link (wlink w')"
proof (cases "execute t")
  case True
  then obtain heap1 w1 where p: "\<not> semaphore t" "run_list runModule (vThread t) heap w = Some (heap1, w1)"
    "if hasThreadPost t then run_list runModulePost (vThreadPost t) heap1 w1 = Some (heap', w') else heap' = heap1 \<and> w' = w1"
    "t' = t\<lparr>semaphore := False, execute := False\<rparr>"
    using assms(1) by (auto simp: run_def Let_def split: if_splits option.splits)
  have w1: "wf_link (wlink w1)" "same_kinds heap heap1" using run_list_wf(1) [OF p(2) assms(2)] runModule_kinds [OF p(2)] by auto
  have "wf_link (wlink w') \<and> same_kinds heap1 heap'"
    using p(3) w1 run_list_wf(2) runModulePost_kinds same_kinds_refl by (auto split: if_splits)
  then show ?thesis using w1(2) p(1,4) same_kinds_trans by (auto simp: same_thread_def)
next
  case False
  then show ?thesis using assms by (auto simp: run_def same_thread_def same_kinds_refl)
qed

lemma timerTick_keeps:
  assumes "timerTick t heap w = Some (t', heap', w')" "wf_link (wlink w)"
  shows "same_thread t t' \<and> same_kinds heap heap' \<and> wf_link (wlink w')"
proof (cases "slice t = 0")
  case True
  then have "run (t\<lparr>execute := True\<rparr>) heap w = Some (t', heap', w')" using assms(1) by (simp add: timerTick_def Let_def)
  from run_keeps [OF this assms(2)] show ?thesis by (simp add: same_thread_def)
next
  case False
  then show ?thesis using assms by (auto simp: timerTick_def Let_def same_thread_def same_kinds_refl)
qed

subsection \<open>The threads after loading\<close>

text \<open>The base thread holds step generators scaled for the configured frequency, the servo thread the other
  modules, and no thread is running.\<close>

definition base_entry :: "u32 \<Rightarrow> module \<Rightarrow> bool" where
  "base_entry f m \<longleftrightarrow> (\<exists>sg. body m = MStepgen sg \<and> frequencyScale sg = frequency_scale STEPBIT (sint f))"

definition entries :: "('m \<Rightarrow> bool) \<Rightarrow> nat list \<Rightarrow> 'm list \<Rightarrow> bool" where
  "entries P is heap \<longleftrightarrow> (\<forall>i \<in> set is. i < length heap \<and> P (heap ! i))"

lemma entries_Nil [simp]: "entries P [] heap"
  by (simp add: entries_def)

lemma entries_grow: "entries P is heap \<Longrightarrow> entries P is (heap @ [m])"
  by (auto simp: entries_def nth_append)

lemma entries_register: "entries P is heap \<Longrightarrow> P m \<Longrightarrow> entries P (is @ [length heap]) (heap @ [m])"
  by (auto simp: entries_def nth_append)

lemma entries_related:
  "entries P is heap \<Longrightarrow> list_all2 R heap heap' \<Longrightarrow> (\<And>m m'. P m \<Longrightarrow> R m m' \<Longrightarrow> P m') \<Longrightarrow> entries P is heap'"
  by (auto simp: entries_def list_all2_conv_all_nth)

definition threads_wf :: "firmware \<Rightarrow> bool" where
  "threads_wf st \<longleftrightarrow> slice (baseThread st) = 0 \<and> slice (servoThread st) = 1
     \<and> \<not> semaphore (baseThread st) \<and> \<not> semaphore (servoThread st)
     \<and> entries (base_entry (base_freq st)) (vThread (baseThread st)) (modules st)
     \<and> entries (base_entry (base_freq st)) (vThreadPost (baseThread st)) (modules st)
     \<and> entries (\<lambda>m. servo_obj (body m)) (vThread (servoThread st)) (modules st)"

text \<open>What loading a module leaves alone.\<close>

definition same_system :: "firmware \<Rightarrow> firmware \<Rightarrow> bool" where
  "same_system st st' \<longleftrightarrow> currentState st' = currentState st \<and> base_freq st' = base_freq st \<and> servo_freq st' = servo_freq st
     \<and> threadsRunning st' = threadsRunning st \<and> vectors st' = vectors st \<and> thread_timers st' = thread_timers st
     \<and> mflash st' = mflash st \<and> rxPP (wlink (mworld st')) = rxPP (wlink (mworld st)) \<and> txPP (wlink (mworld st')) = txPP (wlink (mworld st))"

lemma same_system_refl: "same_system st st"
  by (simp add: same_system_def)

lemma same_system_trans: "same_system a b \<Longrightarrow> same_system b c \<Longrightarrow> same_system a c"
  by (simp add: same_system_def)

lemma set_gpio_keeps [simp]: "threads_wf (set_gpio g st) = threads_wf st" "same_system st (set_gpio g st)"
  "base_freq (set_gpio g st) = base_freq st"
  by (simp_all add: set_gpio_def threads_wf_def same_system_def)

lemma register_servo_keeps:
  "threads_wf st \<Longrightarrow> servo_obj ob \<Longrightarrow> threads_wf (register_servo ob st)"
  "same_system st (register_servo ob st)"
  by (auto simp: threads_wf_def same_system_def register_servo_def registerModule_def Module_ctor_def entries_grow entries_register)

lemma register_base_keeps:
  "threads_wf st \<Longrightarrow> frequencyScale sg = frequency_scale STEPBIT (sint (base_freq st)) \<Longrightarrow> threads_wf (register_base (MStepgen sg) st)"
  "same_system st (register_base ob st)"
  by (auto simp: threads_wf_def same_system_def register_base_def registerModule_def registerModulePost_def
    entries_grow entries_register Module_ctor_def base_entry_def)

lemma Stepgen_ctor_scale:
  "Stepgen_ctor m f j s d bp g = Some (sg, g') \<Longrightarrow> frequencyScale sg = frequency_scale bp f"
  by (auto simp: Stepgen_ctor_def split: option.splits if_splits)

lemmas register_keeps = register_servo_keeps register_base_keeps

lemma createStepgen_keeps:
  assumes "createStepgen e ob st = Some st'" "threads_wf st"
  shows "threads_wf st' \<and> same_system st st'"
proof -
  obtain sg g f j s d where c: "Stepgen_ctor (junk_stepgen e) (sint (base_freq st)) j s d STEPBIT f = Some (sg, g)"
    and st': "st' = register_base (MStepgen sg) (set_gpio g st)"
    using assms(1) by (auto simp: createStepgen_def split: option.splits)
  show ?thesis
    using Stepgen_ctor_scale [OF c] assms(2) register_base_keeps [where st = "set_gpio g st"]
      same_system_trans [OF set_gpio_keeps(2) [of st g]]
    by (simp add: st')
qed

lemma servo_keeps_gpio:
  assumes "threads_wf st" "servo_obj ob"
  shows "threads_wf (register_servo ob (set_gpio g st)) \<and> same_system st (register_servo ob (set_gpio g st))"
  using assms register_servo_keeps [where st = "set_gpio g st"] same_system_trans [OF set_gpio_keeps(2) [of st g]] by simp

lemma createBlink_keeps:
  "createBlink ob st = Some st' \<Longrightarrow> threads_wf st \<Longrightarrow> threads_wf st' \<and> same_system st st'"
  by (auto simp: createBlink_def servo_keeps_gpio split: option.splits)

lemma loadDigitalPin_keeps:
  "loadDigitalPin ob st = Some st' \<Longrightarrow> threads_wf st \<Longrightarrow> threads_wf st' \<and> same_system st st'"
  by (auto simp: loadDigitalPin_def servo_keeps_gpio split: option.splits)

lemma loadPWM_keeps:
  assumes "loadPWM e ob st = Some st'" "threads_wf st"
  shows "threads_wf st' \<and> same_system st st'"
proof -
  obtain p b where st': "st' = register_servo (MPWM p) (st\<lparr>board := b, mworld := (mworld st)\<lparr>wtims := tims b\<rparr>\<rparr>)"
    using assms(1) by (auto simp: loadPWM_def split: option.splits)
  have "threads_wf (st\<lparr>board := b, mworld := (mworld st)\<lparr>wtims := tims b\<rparr>\<rparr>)"
    and "same_system st (st\<lparr>board := b, mworld := (mworld st)\<lparr>wtims := tims b\<rparr>\<rparr>)"
    using assms(2) by (simp_all add: threads_wf_def same_system_def)
  then show ?thesis using register_servo_keeps same_system_trans st' by auto
qed

lemma load_module_keeps:
  "load_module e ob st = Some st' \<Longrightarrow> threads_wf st \<Longrightarrow> threads_wf st' \<and> same_system st st'"
  using createStepgen_keeps createBlink_keeps loadDigitalPin_keeps loadPWM_keeps
  by (fastforce simp: load_module_def same_system_refl split: option.splits if_splits)

lemma load_loop_keeps:
  "load_loop e obs st = Some st' \<Longrightarrow> threads_wf st \<Longrightarrow> threads_wf st' \<and> same_system st st'"
proof (induction obs arbitrary: st)
  case Nil
  then show ?case by (simp add: same_system_refl)
next
  case (Cons ob obs)
  then obtain st1 where "load_module e ob st = Some st1" "load_loop e obs st1 = Some st'"
    by (auto simp: bind_eq_Some_conv)
  then show ?case using Cons.IH load_module_keeps Cons.prems(2) same_system_trans by blast
qed

lemma createThreads_wf: "threads_wf (createThreads e st)"
  by (simp add: createThreads_def threads_wf_def pruThread_ctor_def)

lemma loadModules_keeps:
  assumes "loadModules e st = Some st'" "threads_wf st"
  shows "threads_wf st' \<and> same_system st st'"
proof -
  let ?c = "st\<lparr>mworld := (mworld st)\<lparr>wlink := (wlink (mworld st))\<lparr>comms := junk_comms e\<rparr>\<rparr>\<rparr>"
  have c: "threads_wf ?c" "same_system st ?c" using assms(2) by (simp_all add: threads_wf_def same_system_def)
  have "threads_wf (register_servo MComms ?c)" "same_system st (register_servo MComms ?c)"
    using register_servo_keeps c same_system_trans by auto
  then show ?thesis
    using assms(1) load_loop_keeps same_system_trans by (fastforce simp: loadModules_def Let_def split: if_splits)
qed

lemma setup_tasks_keeps:
  assumes "setup_tasks e st = Some st'"
  shows "threads_wf st' \<and> currentState st' = currentState st \<and> threadsRunning st' = threadsRunning st \<and> vectors st' = vectors st
    \<and> rxPP (wlink (mworld st')) = rxPP (wlink (mworld st)) \<and> txPP (wlink (mworld st')) = txPP (wlink (mworld st))"
proof -
  obtain js st1 st2 where p: "st1 = deserialiseJSON e (st\<lparr>strJson := js,
      staticConfig := (if flash_word (mflash st) JSON_STORAGE_ADDRESS = 0xFFFFFFFF then staticConfig st else False)\<rparr>)"
      "configThreads st1 = Some st2" "loadModules e (createThreads e st2) = Some st'"
    using assms by (auto simp: setup_tasks_def Let_def split: option.splits)
  have "currentState st1 = currentState st \<and> threadsRunning st1 = threadsRunning st \<and> vectors st1 = vectors st \<and> mworld st1 = mworld st"
    unfolding p(1) by (auto simp: deserialiseJSON_def split: option.splits)
  moreover have "currentState st2 = currentState st1 \<and> threadsRunning st2 = threadsRunning st1 \<and> vectors st2 = vectors st1 \<and> mworld st2 = mworld st1"
    using p(2) by (auto simp: configThreads_def split: if_splits)
  moreover have "currentState (createThreads e st2) = currentState st2 \<and> threadsRunning (createThreads e st2) = threadsRunning st2
      \<and> vectors (createThreads e st2) = vectors st2 \<and> mworld (createThreads e st2) = mworld st2"
    by (simp add: createThreads_def)
  ultimately show ?thesis
    using loadModules_keeps [OF p(3) createThreads_wf] by (simp add: same_system_def)
qed

subsection \<open>Reachable states\<close>

text \<open>The steps of the firmware: a round of the state machine, a packet on the data port, and the two timer
  interrupts, once their owners are in the vector table. An interrupt inside of a round is a step before or
  after it here; inside of the receive callback it is the interference of \<open>HostLink\<close>.\<close>

inductive fw_step :: "env \<Rightarrow> firmware \<Rightarrow> firmware \<Rightarrow> bool" for e where
  main: "runThreads e st = Some st' \<Longrightarrow> fw_step e st st'"
| packet: "currentState st \<noteq> ST_SETUP \<Longrightarrow> udp_data_callback ok (addr :: u32) port payload (wlink (mworld st)) = Some (l, r)
    \<Longrightarrow> fw_step e st (st\<lparr>mworld := (mworld st)\<lparr>wlink := l\<rparr>\<rparr>)"
| base_tick: "SLICE_Wrapper 0 (vectors st) = Some 0 \<Longrightarrow> timerTick (baseThread st) (modules st) (mworld st) = Some (t, heap, w)
    \<Longrightarrow> fw_step e st (st\<lparr>baseThread := t, modules := heap, mworld := w\<rparr>)"
| servo_tick: "SLICE_Wrapper 1 (vectors st) = Some 1 \<Longrightarrow> timerTick (servoThread st) (modules st) (mworld st) = Some (t, heap, w)
    \<Longrightarrow> fw_step e st (st\<lparr>servoThread := t, modules := heap, mworld := w\<rparr>)"

inductive_cases fw_stepE: "fw_step e st st'"

text \<open>The memory \<open>main\<close> finds: no thread started, an empty vector table, buffers of static storage.\<close>

definition boot :: "firmware \<Rightarrow> bool" where
  "boot st \<longleftrightarrow> \<not> threadsRunning st \<and> vectors st = replicate PERIPH_COUNT_IRQn None \<and> wf_link (wlink (mworld st))"

inductive reach :: "env \<Rightarrow> firmware \<Rightarrow> bool" for e where
  start: "boot st \<Longrightarrow> reach e (main_start st)"
| step: "reach e st \<Longrightarrow> fw_step e st st' \<Longrightarrow> reach e st'"

text \<open>What holds in each state of the machine.\<close>

definition started :: "firmware \<Rightarrow> bool" where
  "started st \<longleftrightarrow> threadsRunning st \<and> vectors st = [Some 0, Some 1] @ replicate 6 None
     \<and> tt_enabled (thread_timers st 5) \<and> tt_psc (thread_timers st 5) = 86 \<and> tt_arr (thread_timers st 5) = 25
     \<and> tt_enabled (thread_timers st 4) \<and> tt_psc (thread_timers st 4) = 86 \<and> tt_arr (thread_timers st 4) = 1000"

definition fw_inv :: "firmware \<Rightarrow> bool" where
  "fw_inv st \<longleftrightarrow> wf_link (wlink (mworld st)) \<and>
     (case currentState st of
        ST_SETUP \<Rightarrow> \<not> threadsRunning st \<and> vectors st = replicate 8 None
      | ST_START \<Rightarrow> threads_wf st \<and> \<not> threadsRunning st \<and> vectors st = replicate 8 None
      | ST_IDLE \<Rightarrow> threads_wf st \<and> started st
      | ST_RUNNING \<Rightarrow> threads_wf st \<and> started st
      | ST_RESET \<Rightarrow> threads_wf st \<and> started st
      | ST_STOP \<Rightarrow> False
      | ST_WDRESET \<Rightarrow> False)"

lemma servo_ofs: "same_kind (body m) (body m') \<Longrightarrow> servo_obj (body m) \<Longrightarrow> servo_obj (body m')"
  by (rule same_kind_servo)

lemma base_entry_kind: "base_entry f m \<Longrightarrow> same_kind (body m) (body m') \<Longrightarrow> base_entry f m'"
  using same_kind_stepgen by (fastforce simp: base_entry_def)

text \<open>A run of either thread, anywhere.\<close>

lemma threads_wf_run:
  assumes "threads_wf st" "same_kinds (modules st) heap" "same_thread (baseThread st) b" "same_thread (servoThread st) s"
  shows "threads_wf (st\<lparr>baseThread := b, servoThread := s, modules := heap, mworld := w\<rparr>)"
proof -
  have "entries (base_entry f) is (modules st) \<Longrightarrow> entries (base_entry f) is heap"
    and "entries (\<lambda>m. servo_obj (body m)) is (modules st) \<Longrightarrow> entries (\<lambda>m. servo_obj (body m)) is heap" for f "is"
    using entries_related [OF _ assms(2)] base_entry_kind servo_ofs by blast+
  then show ?thesis using assms by (simp add: threads_wf_def same_thread_def)
qed

lemma same_thread_refl: "same_thread t t"
  by (simp add: same_thread_def)

lemma run_servo_keeps:
  assumes "run_servo st = Some st'" "threads_wf st" "wf_link (wlink (mworld st))"
  shows "threads_wf st' \<and> wf_link (wlink (mworld st')) \<and> currentState st' = currentState st \<and> (started st \<longrightarrow> started st')
    \<and> base_freq st' = base_freq st"
proof -
  obtain t heap w where r: "run (servoThread st) (modules st) (mworld st) = Some (t, heap, w)"
    and st': "st' = st\<lparr>servoThread := t, modules := heap, mworld := w\<rparr>"
    using assms(1) by (auto simp: run_servo_def)
  note k = run_keeps [OF r assms(3)]
  have "threads_wf (st\<lparr>baseThread := baseThread st, servoThread := t, modules := heap, mworld := w\<rparr>)"
    using k assms(2) same_thread_refl by (intro threads_wf_run) auto
  then show ?thesis using k by (simp add: st' started_def)
qed

lemma start_threads_run:
  assumes "threads_wf st" "vectors st = replicate 8 None"
  shows "\<exists>st'. start_threads st = Some st' \<and> threads_wf st' \<and> started st' \<and> mworld st' = mworld st \<and> base_freq st' = base_freq st"
  using assms by (auto simp: start_threads_def startThread_def Interrupt_Register_def startTimer_def threads_wf_def started_def
    BASE_PERIOD_def SERVO_PERIOD_def numeral_eq_Suc)

lemma wf_link_reset: "wf_link s \<Longrightarrow> wf_link (reset_rx s)"
proof -
  have "length (clear_bytes n p) = length p" for n p by (induction n arbitrary: p) auto
  then show "wf_link s \<Longrightarrow> wf_link (reset_rx s)" by (simp add: reset_rx_def wf_link_def Let_def rx.inv_put rx.inv_get)
qed

lemma wf_link_init: "wf_link s \<Longrightarrow> wf_link (s\<lparr>rxPP := initRxPingPongBuffer (rxPP s), txPP := initTxPingPongBuffer (txPP s)\<rparr>)"
  by (simp add: wf_link_def wf_pingpong_def initRxPingPongBuffer_def initTxPingPongBuffer_def)

lemma threads_wf_link [simp]:
  "threads_wf (st\<lparr>mworld := w\<rparr>) = threads_wf st" "threads_wf (st\<lparr>currentState := c\<rparr>) = threads_wf st"
  "threads_wf (st\<lparr>prevState := c\<rparr>) = threads_wf st"
  by (simp_all add: threads_wf_def)

lemma started_link [simp]:
  "started (st\<lparr>mworld := w\<rparr>) = started st" "started (st\<lparr>currentState := c\<rparr>) = started st"
  "started (st\<lparr>prevState := c\<rparr>) = started st"
  by (simp_all add: started_def)

lemma runThreads_inv:
  assumes "fw_inv st" "runThreads e st = Some st'"
  shows "fw_inv st'"
proof (cases "currentState st")
  case ST_SETUP
  then obtain s where "setup_tasks e (st\<lparr>prevState := ST_SETUP\<rparr>) = Some s" "st' = s\<lparr>currentState := ST_START\<rparr>"
    using assms(2) by (auto simp: runThreads_def)
  then show ?thesis using assms(1) setup_tasks_keeps [of e "st\<lparr>prevState := ST_SETUP\<rparr>" s] ST_SETUP
    by (simp add: fw_inv_def wf_link_def)
next
  case ST_START
  then have pre: "threads_wf (st\<lparr>prevState := ST_START\<rparr>)" "vectors (st\<lparr>prevState := ST_START\<rparr>) = replicate 8 None"
    "\<not> threadsRunning st" "wf_link (wlink (mworld st))" using assms(1) by (simp_all add: fw_inv_def)
  then show ?thesis
    using start_threads_run [OF pre(1,2)] assms(2) ST_START by (auto simp: runThreads_def fw_inv_def)
next
  case ST_IDLE
  then obtain s where "run_servo (st\<lparr>prevState := ST_IDLE\<rparr>) = Some s"
      "st' = (if link_status s then s\<lparr>currentState := ST_RUNNING\<rparr> else s)"
    using assms(2) by (auto simp: runThreads_def)
  then show ?thesis using assms(1) run_servo_keeps [of "st\<lparr>prevState := ST_IDLE\<rparr>" s] ST_IDLE by (simp add: fw_inv_def)
next
  case ST_RUNNING
  then obtain s where "run_servo (st\<lparr>prevState := ST_RUNNING\<rparr>) = Some s"
      "st' = (if link_status s then s else s\<lparr>currentState := ST_RESET\<rparr>)"
    using assms(2) by (auto simp: runThreads_def)
  then show ?thesis using assms(1) run_servo_keeps [of "st\<lparr>prevState := ST_RUNNING\<rparr>" s] ST_RUNNING by (simp add: fw_inv_def)
next
  case ST_RESET
  then show ?thesis using assms wf_link_reset by (auto simp: runThreads_def fw_inv_def)
qed (use assms(1) in \<open>simp_all add: fw_inv_def\<close>)

lemma fw_step_inv:
  assumes "fw_inv st" "fw_step e st st'"
  shows "fw_inv st'"
  using assms(2)
proof (cases rule: fw_step.cases)
  case main
  then show ?thesis using runThreads_inv assms(1) by blast
next
  case (packet ok addr port payload l r)
  then show ?thesis using assms(1) udp_data_callback_wf by (auto simp: fw_inv_def split: State.splits)
next
  case (base_tick t heap w)
  have wf: "wf_link (wlink (mworld st))" using assms(1) by (simp add: fw_inv_def)
  note k = timerTick_keeps [OF base_tick(3) wf]
  have "threads_wf st \<Longrightarrow> threads_wf (st\<lparr>baseThread := t, servoThread := servoThread st, modules := heap, mworld := w\<rparr>)"
    using k same_thread_refl by (intro threads_wf_run) auto
  then show ?thesis using assms(1) k by (auto simp: fw_inv_def base_tick(1) started_def split: State.splits)
next
  case (servo_tick t heap w)
  have wf: "wf_link (wlink (mworld st))" using assms(1) by (simp add: fw_inv_def)
  note k = timerTick_keeps [OF servo_tick(3) wf]
  have "threads_wf st \<Longrightarrow> threads_wf (st\<lparr>baseThread := baseThread st, servoThread := t, modules := heap, mworld := w\<rparr>)"
    using k same_thread_refl by (intro threads_wf_run) auto
  then show ?thesis using assms(1) k by (auto simp: fw_inv_def servo_tick(1) started_def split: State.splits)
qed

lemma reach_inv: "reach e st \<Longrightarrow> fw_inv st"
proof (induction rule: reach.induct)
  case (start st)
  then show ?case using wf_link_init by (simp add: fw_inv_def main_start_def boot_def PERIPH_COUNT_IRQn_def)
next
  case (step st st')
  then show ?case using fw_step_inv by blast
qed

text \<open>C2: In every reachable state the firmware is in one of its five live states (\<open>ST_STOP\<close> and
  \<open>ST_WDRESET\<close> are never entered), the threads have been started exactly when it is past \<open>ST_START\<close>, with both
  interrupt owners in the vector table, no thread ever waits for its semaphore, and whatever
  the configuration says, the step generators of the base thread are scaled for the configured
  frequency while the timers run at the compiled-in ones.\<close>

theorem main_state_invariant:
  assumes "reach e st"
  shows "currentState st \<in> {ST_SETUP, ST_START, ST_IDLE, ST_RUNNING, ST_RESET}
    \<and> (threadsRunning st \<longleftrightarrow> currentState st \<in> {ST_IDLE, ST_RUNNING, ST_RESET})
    \<and> wf_link (wlink (mworld st))
    \<and> (threadsRunning st \<longrightarrow> SLICE_Wrapper 0 (vectors st) = Some 0 \<and> SLICE_Wrapper 1 (vectors st) = Some 1
        \<and> \<not> semaphore (baseThread st) \<and> \<not> semaphore (servoThread st)
        \<and> entries (base_entry (base_freq st)) (vThread (baseThread st)) (modules st)
        \<and> tt_psc (thread_timers st 5) = 86 \<and> tt_arr (thread_timers st 5) = 25 \<and> tt_arr (thread_timers st 4) = 1000)"
  using reach_inv [OF assms] by (auto simp: fw_inv_def started_def threads_wf_def SLICE_Wrapper_def split: State.splits)

subsection \<open>Loss of communication\<close>

text \<open>The reset access by access, as the base-thread interrupt finds it: the pointer to the current buffer is taken once, then one
  byte is cleared in each round of the loop, from the last to the first.\<close>

record reset_loop =
  rlink :: link
  pruRxData :: int
  left :: nat

definition reset_start :: "link \<Rightarrow> reset_loop" where
  "reset_start s = \<lparr>rlink = s, pruRxData = getCurrentRxBuffer (rxPP s), left = BUFFER_SIZE\<rparr>"

fun reset_byte :: "nat \<Rightarrow> reset_loop \<Rightarrow> reset_loop" where
  "reset_byte n r = r\<lparr>left := n, rlink := (rlink r)\<lparr>rxPP := store (rxPP (rlink r)) (pruRxData r)
     ((deref (rxPP (rlink r)) (pruRxData r))[n := 0])\<rparr>\<rparr>"

inductive reset_step :: "reset_loop \<Rightarrow> reset_loop \<Rightarrow> bool" where
  clear: "left r = Suc n \<Longrightarrow> reset_step r (reset_byte n r)"
| isr: "isr_writes (rlink r) l \<Longrightarrow> reset_step r (r\<lparr>rlink := l\<rparr>)"

text \<open>The loop without interrupts is \<open>reset_rx\<close>.\<close>

fun reset_bytes :: "nat \<Rightarrow> reset_loop \<Rightarrow> reset_loop" where
  "reset_bytes 0 r = r"
| "reset_bytes (Suc n) r = reset_bytes n (reset_byte n r)"

lemma reset_bytes_run: "left r = n \<Longrightarrow> reset_step\<^sup>*\<^sup>* r (reset_bytes n r)"
proof (induction n arbitrary: r)
  case (Suc n)
  have "reset_step r (reset_byte n r)" using Suc.prems by (rule reset_step.clear)
  moreover have "reset_step\<^sup>*\<^sup>* (reset_byte n r) (reset_bytes n (reset_byte n r))" by (rule Suc.IH) simp
  ultimately show ?case by (simp del: reset_byte.simps)
qed simp

lemma left_reset_bytes: "left r = n \<Longrightarrow> left (reset_bytes n r) = 0"
  by (induction n arbitrary: r) simp_all

lemma reset_partly: "left r = n + k \<Longrightarrow> \<exists>r'. reset_step\<^sup>*\<^sup>* r r' \<and> left r' = n"
proof (induction k arbitrary: r)
  case (Suc k)
  have "reset_step r (reset_byte (n + k) r)" using Suc.prems by (intro reset_step.clear) simp
  moreover obtain r' where "reset_step\<^sup>*\<^sup>* (reset_byte (n + k) r) r'" "left r' = n" using Suc.IH [of "reset_byte (n + k) r"] by auto
  ultimately show ?case using converse_rtranclp_into_rtranclp by metis
qed auto

lemma store_same: "store (store b i p) i q = store b i q" "store b i (deref b i) = b"
  by (simp_all add: store_def deref_def)

lemma reset_bytes_rx:
  "wf_pingpong (rxPP (rlink r)) \<Longrightarrow> pruRxData r = getCurrentRxBuffer (rxPP (rlink r)) \<Longrightarrow>
     rlink (reset_bytes n r) = (rlink r)\<lparr>rxPP := store (rxPP (rlink r)) (pruRxData r) (clear_bytes n (deref (rxPP (rlink r)) (pruRxData r)))\<rparr>"
proof (induction n arbitrary: r)
  case 0
  then show ?case by (simp add: store_same)
next
  case (Suc n)
  let ?b = "rxPP (rlink r)" and ?p = "(deref (rxPP (rlink r)) (pruRxData r))[n := 0]"
  have l: "length ?p = 64" using Suc.prems by (simp add: rx.inv_get)
  have b: "wf_pingpong (store ?b (pruRxData r) ?p)" "getCurrentRxBuffer (store ?b (pruRxData r) ?p) = getCurrentRxBuffer ?b"
      "deref (store ?b (pruRxData r) ?p) (pruRxData r) = ?p"
    using Suc.prems l by (simp_all add: rx.inv_put rx.cur_put rx.get_put)
  show ?case using Suc.IH [of "reset_byte n r"] Suc.prems(2) b by (simp add: store_same)
qed

lemma reset_uninterrupted:
  assumes "wf_link s"
  shows "rlink (reset_bytes 64 (reset_start s)) = reset_rx s"
  using assms reset_bytes_rx [of "reset_start s" 64] by (simp add: reset_start_def wf_link_def reset_rx_def Let_def BUFFER_SIZE_def)

definition cleared :: "nat \<Rightarrow> packet \<Rightarrow> packet" where
  "cleared n p = take n p @ replicate (length p - n) 0"

lemma cleared_step: "n < length p \<Longrightarrow> (cleared (Suc n) p)[n := 0] = cleared n p"
  by (rule nth_equalityI) (auto simp: cleared_def nth_append nth_list_update)

lemma nth_byte_cleared: "nth_byte (cleared n p) i = (if i < n then nth_byte p i else 0)"
  by (auto simp: nth_byte_def cleared_def nth_append)

lemma cleared_fields:
  "44 < n \<Longrightarrow> j < JOINTS \<Longrightarrow> rx_jointFreqCmd (cleared n p) j = rx_jointFreqCmd p j"
  "n \<le> 44 \<Longrightarrow> rx_jointEnable (cleared n p) = 0"
  by (simp_all add: rx_jointFreqCmd_def rx_jointEnable_def read_le32_def nth_byte_cleared JOINTS_def)

text \<open>What is true at every moment of the reset.\<close>

definition reset_inv :: "link \<Rightarrow> reset_loop \<Rightarrow> bool" where
  "reset_inv s r \<longleftrightarrow> wf_link (rlink r) \<and> pruRxData r = getCurrentRxBuffer (rxPP (rlink r)) \<and> left r \<le> 64
     \<and> cur_cmd (rlink r) = cleared (left r) (cur_cmd s)"

lemma reset_run_inv:
  assumes "wf_link s" "reset_step\<^sup>*\<^sup>* (reset_start s) r"
  shows "reset_inv s r"
  using assms(2)
proof (induction rule: rtranclp_induct)
  case base
  have "length (cur_cmd s) = 64" using assms(1) by (simp add: cur_cmd_def wf_link_def rx.inv_get)
  then show ?case using assms(1) by (simp add: reset_inv_def reset_start_def BUFFER_SIZE_def cleared_def)
next
  case (step r r')
  have len: "length (cur_cmd s) = 64" using assms(1) by (simp add: cur_cmd_def wf_link_def rx.inv_get)
  from step.hyps(2) show ?case
  proof cases
    case (clear n)
    let ?b = "rxPP (rlink r)"
    have r: "wf_pingpong ?b" "wf_pingpong (txPP (rlink r))" "pruRxData r = getCurrentRxBuffer ?b" "left r \<le> 64"
        "deref ?b (getCurrentRxBuffer ?b) = cleared (left r) (cur_cmd s)"
      using step.IH by (simp_all add: reset_inv_def wf_link_def cur_cmd_def)
    have n: "n < length (cur_cmd s)" using clear(2) r(4) len by simp
    have l: "length (cleared n (cur_cmd s)) = 64" using len n by (simp add: cleared_def)
    have r': "rlink r' = (rlink r)\<lparr>rxPP := store ?b (getCurrentRxBuffer ?b) (cleared n (cur_cmd s))\<rparr>" "left r' = n" "pruRxData r' = getCurrentRxBuffer ?b"
      using clear r(3,5) cleared_step [OF n] by simp_all
    have "n \<le> 64" using n len by simp
    then show ?thesis using r l by (simp add: reset_inv_def r' wf_link_def cur_cmd_def rx.inv_put rx.cur_put rx.get_put)
  next
    case (isr l)
    then show ?thesis using step.IH by (auto simp: reset_inv_def isr_writes_def wf_link_def cur_cmd_def)
  qed
qed

text \<open>C27: While the reset clears the current command in place, with the base-thread interrupt between any two of its accesses, the
  interrupt finds at every moment either all joints disabled or every joint's frequency command as it was before the reset; when the
  loop ends the command is all zeros, and without interrupts the loop does what \<open>reset_rx\<close> does in one step.\<close>

theorem reset_interrupt_safe:
  assumes "wf_link s" "reset_step\<^sup>*\<^sup>* (reset_start s) r"
  shows "(rx_jointEnable (cur_cmd (rlink r)) = 0 \<or> (\<forall>j < JOINTS. rx_jointFreqCmd (cur_cmd (rlink r)) j = rx_jointFreqCmd (cur_cmd s) j))
    \<and> (left r = 0 \<longrightarrow> cur_cmd (rlink r) = replicate 64 0)
    \<and> rlink (reset_bytes 64 (reset_start s)) = reset_rx s"
proof -
  have len: "length (cur_cmd s) = 64" using assms(1) by (simp add: cur_cmd_def wf_link_def rx.inv_get)
  have c: "cur_cmd (rlink r) = cleared (left r) (cur_cmd s)" using reset_run_inv [OF assms] by (simp add: reset_inv_def)
  have "rx_jointEnable (cleared k p) = 0 \<or> (\<forall>j < JOINTS. rx_jointFreqCmd (cleared k p) j = rx_jointFreqCmd p j)" for k p
    using cleared_fields [of k] by (cases "k \<le> 44") auto
  moreover have "cleared 0 (cur_cmd s) = replicate 64 0" using len by (simp add: cleared_def)
  ultimately show ?thesis using c reset_uninterrupted [OF assms(1)] by auto
qed

lemma clear_bytes_cleared: "n \<le> length p \<Longrightarrow> clear_bytes n (cleared n p) = cleared 0 p"
  by (induction n) (simp_all add: cleared_step)

lemma clear_bytes_zero: "length p = 64 \<Longrightarrow> clear_bytes 64 p = replicate 64 0"
  using clear_bytes_cleared [of 64 p] by (simp add: cleared_def)

text \<open>A command of zeros disables every joint: no pin moves and no position changes.\<close>

lemma zero_command_idle:
  assumes "cur_cmd s = replicate 64 0"
  shows "makePulses sg s g = Some (sg\<lparr>isEnabled := False\<rparr>, s, g)"
proof -
  have "rx_jointEnable (deref (rxPP s) (getCurrentRxBuffer (rxPP s))) = 0"
    using assms by (simp add: cur_cmd_def rx_jointEnable_def nth_byte_def)
  then show ?thesis by (simp add: makePulses_def Let_def)
qed

lemma cur_cmd_reset: "wf_link s \<Longrightarrow> cur_cmd (reset_rx s) = replicate 64 0"
  by (simp add: reset_rx_def Let_def cur_cmd_def wf_link_def rx.cur_put rx.get_put BUFFER_SIZE_def clear_bytes_zero rx.inv_get)

text \<open>A step of the firmware that is not a write request.\<close>

inductive quiet_step :: "env \<Rightarrow> firmware \<Rightarrow> firmware \<Rightarrow> bool" for e where
  quiet_main: "runThreads e st = Some st' \<Longrightarrow> quiet_step e st st'"
| quiet_packet: "udp_data_callback ok (addr :: u32) port payload (wlink (mworld st)) = Some (l, r)
    \<Longrightarrow> rx_header (packet_of (wlink (mworld st)) payload) \<noteq> PRU_WRITE \<Longrightarrow> quiet_step e st (st\<lparr>mworld := (mworld st)\<lparr>wlink := l\<rparr>\<rparr>)"
| quiet_base: "SLICE_Wrapper 0 (vectors st) = Some 0 \<Longrightarrow> timerTick (baseThread st) (modules st) (mworld st) = Some (t, heap, w)
    \<Longrightarrow> quiet_step e st (st\<lparr>baseThread := t, modules := heap, mworld := w\<rparr>)"
| quiet_servo: "SLICE_Wrapper 1 (vectors st) = Some 1 \<Longrightarrow> timerTick (servoThread st) (modules st) (mworld st) = Some (t, heap, w)
    \<Longrightarrow> quiet_step e st (st\<lparr>servoThread := t, modules := heap, mworld := w\<rparr>)"

lemma quiet_step_fw: "quiet_step e st st' \<Longrightarrow> currentState st \<noteq> ST_SETUP \<Longrightarrow> fw_step e st st'"
  by (induction rule: quiet_step.induct) (auto intro: fw_step.intros)

text \<open>A module that has not moved: a step generator with the same joint, pins, position and phase; any other module stays one.\<close>

fun standing :: "module_obj \<Rightarrow> module_obj \<Rightarrow> bool" where
  "standing (MStepgen a) (MStepgen b) \<longleftrightarrow> jointNumber b = jointNumber a \<and> stepPin b = stepPin a \<and> directionPin b = directionPin a
     \<and> rawCount b = rawCount a \<and> DDSaccumulator b = DDSaccumulator a"
| "standing a b \<longleftrightarrow> servo_obj a \<and> servo_obj b"

abbreviation all_standing :: "module list \<Rightarrow> module list \<Rightarrow> bool" where
  "all_standing \<equiv> list_all2 (\<lambda>m m'. standing (body m) (body m'))"

lemma standing_refl: "standing a a"
  by (cases a) auto

lemma standing_trans: "standing a b \<Longrightarrow> standing b c \<Longrightarrow> standing a c"
  by (cases a; cases b; cases c) auto

lemma standing_servo: "servo_obj a \<Longrightarrow> servo_obj b \<Longrightarrow> standing a b"
  by (cases a; cases b) auto

lemma all_standing_refl: "all_standing a a"
  by (simp add: list_all2_refl standing_refl)

lemma all_standing_trans: "all_standing a b \<Longrightarrow> all_standing b c \<Longrightarrow> all_standing a c"
  by (rule list_all2_trans [of _ "\<lambda>m m'. standing (body m) (body m')"]) (auto intro: standing_trans)

text \<open>The step lines of the modules, and what an interrupt may do while nothing is commanded: end a pulse.\<close>

definition step_lines :: "module list \<Rightarrow> (nat \<times> nat) set" where
  "step_lines heap = {(q, k). \<exists>m \<in> set heap. \<exists>sg. body m = MStepgen sg \<and> GPIOx (stepPin sg) = Some q \<and> bit (pinMask (stepPin sg)) k}"

definition ends_pulses :: "(nat \<times> nat) set \<Rightarrow> world \<Rightarrow> world \<Rightarrow> bool" where
  "ends_pulses S w w' \<longleftrightarrow> lowers w w' \<and> (\<forall>q k. bit (odr (wgpio w) q) k \<and> \<not> bit (odr (wgpio w') q) k \<longrightarrow> (q, k) \<in> S)"

lemma ends_pulses_refl: "ends_pulses S w w"
  by (simp add: ends_pulses_def lowers_def)

lemma ends_pulses_trans: "ends_pulses S u v \<Longrightarrow> ends_pulses S v w \<Longrightarrow> ends_pulses S u w"
  unfolding ends_pulses_def lowers_def by metis

text \<open>A pass over modules that meet \<open>ok\<close>, in worlds that meet \<open>winv\<close>: what it keeps and what it does.\<close>

lemma run_list_effect:
  assumes "run_list f is heap w = Some (heap', w')" "\<forall>i \<in> set is. ok (heap ! i)" "winv w"
    and "\<And>m w m' w'. ok m \<Longrightarrow> winv w \<Longrightarrow> f m w = Some (m', w') \<Longrightarrow> ok m' \<and> winv w' \<and> standing (body m) (body m') \<and> eff w w'"
    and "\<And>w. eff w w" "\<And>u v w. eff u v \<Longrightarrow> eff v w \<Longrightarrow> eff u w"
  shows "all_standing heap heap' \<and> winv w' \<and> eff w w'"
  using assms(1-3)
proof (induction "is" arbitrary: heap w)
  case Nil
  then show ?case using assms(5) by (simp add: all_standing_refl)
next
  case (Cons i "is")
  then obtain m w1 where m: "i < length heap" "f (heap ! i) w = Some (m, w1)" "run_list f is (heap[i := m]) w1 = Some (heap', w')"
    by (auto split: if_splits option.splits)
  then have k: "ok m" "winv w1" "standing (body (heap ! i)) (body m)" "eff w w1" using assms(4) [OF _ Cons.prems(3) m(2)] Cons.prems(2) by auto
  have "\<forall>j \<in> set is. ok (heap[i := m] ! j)"
  proof
    fix j
    assume "j \<in> set is"
    then show "ok (heap[i := m] ! j)" using Cons.prems(2) k(1) m(1) by (cases "j = i") auto
  qed
  from Cons.IH [OF m(3) this k(2)] have r: "all_standing (heap[i := m]) heap'" "winv w'" "eff w1 w'" by auto
  have "standing (body (heap ! j)) (body (heap[i := m] ! j))" if "j < length heap" for j
    using that k(3) standing_refl by (cases "j = i") simp_all
  then have "all_standing heap (heap[i := m])" by (simp add: list_all2_conv_all_nth)
  then show ?case using r k(4) assms(6) all_standing_trans by blast
qed

definition at_rest :: "world \<Rightarrow> bool" where
  "at_rest w \<longleftrightarrow> wf_link (wlink w) \<and> cur_cmd (wlink w) = replicate 64 0"

lemma base_pass_rest:
  assumes "run_list runModule is heap w = Some (heap', w')" "\<forall>i \<in> set is. \<exists>sg. body (heap ! i) = MStepgen sg" "at_rest w"
  shows "all_standing heap heap' \<and> at_rest w' \<and> w' = w"
proof (rule run_list_effect [OF assms(1), where eff = "\<lambda>w w'. w' = w" and ok = "\<lambda>m. \<exists>sg. body m = MStepgen sg"])
  fix m v m' v'
  assume "\<exists>sg. body m = MStepgen sg" "at_rest v" "runModule m v = Some (m', v')"
  then show "(\<exists>sg. body m' = MStepgen sg) \<and> at_rest v' \<and> standing (body m) (body m') \<and> v' = v"
    using runModule_body [of m v m' v'] zero_command_idle [of "wlink v" _ "wgpio v"]
    by (auto simp: at_rest_def dest!: sym [of _ "body m'"])
qed (use assms(2,3) in auto)

definition pins_in :: "(nat \<times> nat) set \<Rightarrow> module \<Rightarrow> bool" where
  "pins_in S m \<longleftrightarrow> (\<forall>sg q k. body m = MStepgen sg \<and> GPIOx (stepPin sg) = Some q \<and> bit (pinMask (stepPin sg)) k \<longrightarrow> (q, k) \<in> S)"

lemma post_module_rest:
  assumes "pins_in S m" "at_rest w" "runModulePost m w = Some (m', w')"
  shows "pins_in S m' \<and> at_rest w' \<and> standing (body m) (body m') \<and> ends_pulses S w w'"
proof (cases "body m")
  case (MStepgen sg)
  then obtain port where p: "GPIOx (stepPin sg) = Some port" "m' = m\<lparr>body := MStepgen (sg\<lparr>isStepping := False\<rparr>)\<rparr>"
      "w' = w\<lparr>wgpio := HAL_GPIO_WritePin port (pinMask (stepPin sg)) False (wgpio w)\<rparr>"
    using assms(3) by (auto simp: runModulePost_def stopPulses_def pin_set_def split: option.splits)
  have "bit (pinMask (stepPin sg)) k \<Longrightarrow> (port, k) \<in> S" for k using assms(1) MStepgen p(1) by (auto simp: pins_in_def)
  then have "ends_pulses S w w'"
    by (auto simp: p(3) ends_pulses_def lowers_def HAL_GPIO_WritePin_def bit_simps split: if_splits dest: bit_imp_le_length)
  then show ?thesis using assms(1,2) MStepgen p(1,2) by (simp add: p(3) at_rest_def pins_in_def)
qed (use assms in \<open>auto simp: runModulePost_def ends_pulses_refl pins_in_def\<close>)

lemma post_pass_rest:
  assumes "run_list runModulePost is heap w = Some (heap', w')" "at_rest w"
  shows "all_standing heap heap' \<and> at_rest w' \<and> ends_pulses (step_lines heap) w w'"
proof (rule run_list_effect [OF assms(1), where ok = "pins_in (step_lines heap)"])
  show "\<forall>i \<in> set is. pins_in (step_lines heap) (heap ! i)"
    using run_list_bounded [OF assms(1)] by (fastforce simp: step_lines_def pins_in_def)
  show "at_rest w" by (rule assms(2))
qed (erule (2) post_module_rest | rule ends_pulses_refl | erule (1) ends_pulses_trans)+

lemma servo_pass_rest:
  assumes "run_list runModule is heap w = Some (heap', w')" "\<forall>i \<in> set is. servo_obj (body (heap ! i))" "at_rest w"
  shows "all_standing heap heap' \<and> at_rest w'"
proof -
  have "all_standing heap heap' \<and> at_rest w' \<and> True"
  proof (rule run_list_effect [OF assms(1), where eff = "\<lambda>_ _. True" and ok = "\<lambda>m. servo_obj (body m)"])
    fix m v m' v'
    assume a: "servo_obj (body m)" "at_rest v" "runModule m v = Some (m', v')"
    have "servo_obj (body m') \<and> wf_link (wlink v') \<and> servo_effect v v'" using servo_module_run [OF a(1) _ a(3)] a(2) by (simp add: at_rest_def)
    then show "servo_obj (body m') \<and> at_rest v' \<and> standing (body m) (body m') \<and> True"
      using a(1,2) standing_servo by (auto simp: at_rest_def servo_effect_def cur_cmd_def)
  qed (use assms(2,3) in auto)
  then show ?thesis by simp
qed

lemma step_lines_standing: "all_standing heap heap' \<Longrightarrow> step_lines heap' = step_lines heap"
proof -
  assume a: "all_standing heap heap'"
  have s: "\<exists>sg'. b = MStepgen sg' \<and> stepPin sg' = stepPin sg" if "standing (MStepgen sg) b" for sg b using that by (cases b) auto
  have s': "\<exists>sg. a = MStepgen sg \<and> stepPin sg' = stepPin sg" if "standing a (MStepgen sg')" for sg' a using that by (cases a) auto
  have "(\<exists>m \<in> set heap'. \<exists>sg. body m = MStepgen sg \<and> GPIOx (stepPin sg) = Some q \<and> bit (pinMask (stepPin sg)) k)
      \<longleftrightarrow> (\<exists>m \<in> set heap. \<exists>sg. body m = MStepgen sg \<and> GPIOx (stepPin sg) = Some q \<and> bit (pinMask (stepPin sg)) k)" for q k
  proof
    assume "\<exists>m \<in> set heap'. \<exists>sg. body m = MStepgen sg \<and> GPIOx (stepPin sg) = Some q \<and> bit (pinMask (stepPin sg)) k"
    then obtain i sg where i: "i < length heap'" "body (heap' ! i) = MStepgen sg" "GPIOx (stepPin sg) = Some q" "bit (pinMask (stepPin sg)) k"
      by (auto simp: in_set_conv_nth)
    then have "i < length heap" "standing (body (heap ! i)) (MStepgen sg)" using a by (auto simp: list_all2_conv_all_nth)
    then show "\<exists>m \<in> set heap. \<exists>sg. body m = MStepgen sg \<and> GPIOx (stepPin sg) = Some q \<and> bit (pinMask (stepPin sg)) k"
      using s' i(3,4) nth_mem by metis
  next
    assume "\<exists>m \<in> set heap. \<exists>sg. body m = MStepgen sg \<and> GPIOx (stepPin sg) = Some q \<and> bit (pinMask (stepPin sg)) k"
    then obtain i sg where i: "i < length heap" "body (heap ! i) = MStepgen sg" "GPIOx (stepPin sg) = Some q" "bit (pinMask (stepPin sg)) k"
      by (auto simp: in_set_conv_nth)
    then have "i < length heap'" "standing (MStepgen sg) (body (heap' ! i))" using a by (auto simp: list_all2_conv_all_nth)
    then show "\<exists>m \<in> set heap'. \<exists>sg. body m = MStepgen sg \<and> GPIOx (stepPin sg) = Some q \<and> bit (pinMask (stepPin sg)) k"
      using s i(3,4) nth_mem by metis
  qed
  then show ?thesis by (simp add: step_lines_def)
qed

text \<open>The interrupt and the servo thread at rest.\<close>

lemma base_tick_rest:
  assumes "timerTick t heap w = Some (t', heap', w')" "slice t = 0" "at_rest w" "entries (base_entry f) (vThread t) heap"
  shows "all_standing heap heap' \<and> at_rest w' \<and> ends_pulses (step_lines heap) w w'"
proof (cases "semaphore t")
  case False
  then obtain heap1 w1 where p: "run_list runModule (vThread t) heap w = Some (heap1, w1)"
      "if hasThreadPost t then run_list runModulePost (vThreadPost t) heap1 w1 = Some (heap', w') else heap' = heap1 \<and> w' = w1"
    using assms(1,2) by (auto simp: timerTick_def run_def Let_def split: if_splits option.splits)
  have "\<forall>i \<in> set (vThread t). \<exists>sg. body (heap ! i) = MStepgen sg" using assms(4) by (auto simp: entries_def base_entry_def)
  from base_pass_rest [OF p(1) this assms(3)] have a: "all_standing heap heap1" "w1 = w" by auto
  then have "hasThreadPost t \<Longrightarrow> all_standing heap1 heap' \<and> at_rest w' \<and> ends_pulses (step_lines heap) w w'"
    using p(2) post_pass_rest [of "vThreadPost t" heap1 w heap' w'] assms(3) step_lines_standing [OF a(1)] by simp
  then show ?thesis using a p(2) assms(3) all_standing_trans [OF a(1)] ends_pulses_refl by (cases "hasThreadPost t") auto
qed (use assms(1,2) in \<open>simp add: timerTick_def run_def\<close>)

lemma servo_run_rest:
  assumes "run t heap w = Some (t', heap', w')" "at_rest w" "entries (\<lambda>m. servo_obj (body m)) (vThread t) heap"
  shows "all_standing heap heap' \<and> at_rest w'"
proof (cases "execute t")
  case True
  then obtain heap1 w1 where p: "run_list runModule (vThread t) heap w = Some (heap1, w1)"
      "if hasThreadPost t then run_list runModulePost (vThreadPost t) heap1 w1 = Some (heap', w') else heap' = heap1 \<and> w' = w1"
    using assms(1) by (auto simp: run_def Let_def split: if_splits option.splits)
  have "\<forall>i \<in> set (vThread t). servo_obj (body (heap ! i))" using assms(3) by (simp add: entries_def)
  from servo_pass_rest [OF p(1) this assms(2)] have a: "all_standing heap heap1" "at_rest w1" by auto
  then show ?thesis using p(2) post_pass_rest [of "vThreadPost t" heap1 w1 heap' w'] all_standing_trans [OF a(1)]
    by (cases "hasThreadPost t") auto
qed (use assms(1,2) in \<open>simp add: run_def all_standing_refl\<close>)

definition resting :: "module list \<Rightarrow> firmware \<Rightarrow> bool" where
  "resting heap st \<longleftrightarrow> fw_inv st \<and> currentState st \<in> {ST_IDLE, ST_RUNNING, ST_RESET} \<and> at_rest (mworld st) \<and> all_standing heap (modules st)"

lemma resting_threads: "resting heap st \<Longrightarrow> threads_wf st"
  by (auto simp: resting_def fw_inv_def)

lemma quiet_main_rest:
  assumes "resting heap st" "runThreads e st = Some st'"
  shows "at_rest (mworld st') \<and> all_standing heap (modules st') \<and> currentState st' \<in> {ST_IDLE, ST_RUNNING, ST_RESET}"
proof -
  have w: "at_rest (mworld st)" "all_standing heap (modules st)" "entries (\<lambda>m. servo_obj (body m)) (vThread (servoThread st)) (modules st)"
    using assms(1) resting_threads [OF assms(1)] by (simp_all add: resting_def threads_wf_def)
  have servo: "at_rest (mworld s) \<and> all_standing heap (modules s) \<and> currentState s = currentState st" if "run_servo (st\<lparr>prevState := c\<rparr>) = Some s" for s c
    using that servo_run_rest [OF _ w(1,3)] w(2) all_standing_trans by (fastforce simp: run_servo_def)
  consider "currentState st = ST_RESET" | "currentState st = ST_IDLE" | "currentState st = ST_RUNNING" using assms(1) by (auto simp: resting_def)
  then show ?thesis
  proof cases
    case 1
    have "at_rest ((mworld st)\<lparr>wlink := reset_rx (wlink (mworld st))\<rparr>)" using w(1) wf_link_reset cur_cmd_reset by (simp add: at_rest_def)
    then show ?thesis using assms(2) 1 w(2) by (auto simp: runThreads_def)
  next
    case 2
    then obtain s where s: "run_servo (st\<lparr>prevState := ST_IDLE\<rparr>) = Some s" "st' = (if link_status s then s\<lparr>currentState := ST_RUNNING\<rparr> else s)"
      using assms(2) by (auto simp: runThreads_def)
    show ?thesis using servo [OF s(1)] s(2) 2 by simp
  next
    case 3
    then obtain s where s: "run_servo (st\<lparr>prevState := ST_RUNNING\<rparr>) = Some s" "st' = (if link_status s then s else s\<lparr>currentState := ST_RESET\<rparr>)"
      using assms(2) by (auto simp: runThreads_def)
    show ?thesis using servo [OF s(1)] s(2) 3 by simp
  qed
qed

lemma quiet_packet_cmd:
  assumes "udp_data_callback ok addr port payload s = Some (l, r)" "rx_header (packet_of s payload) \<noteq> PRU_WRITE" "wf_link s"
  shows "cur_cmd l = cur_cmd s"
proof -
  have "length payload \<le> 64" using assms(1) udp_data_callback_oversize [OF assms(3), of ok addr port payload] by (cases "64 < length payload") auto
  then have "l = retire_tx PRU_DATA (fill s payload) \<or> l = fill s payload"
    using udp_data_callback_cases [OF assms(3), of payload ok addr port] assms(1,2) by (auto split: if_splits)
  moreover have "cur_cmd (retire_tx PRU_DATA (fill s payload)) = cur_cmd (fill s payload)" by (simp add: cur_cmd_def)
  ultimately show ?thesis using cur_cmd_fill [OF assms(3), of payload] by auto
qed

lemma quiet_step_rest:
  assumes "resting heap st" "quiet_step e st st'"
  shows "resting heap st'"
proof -
  have "currentState st \<noteq> ST_SETUP" using assms(1) by (auto simp: resting_def)
  then have inv: "fw_inv st'" using fw_step_inv [OF _ quiet_step_fw [OF assms(2)]] assms(1) by (simp add: resting_def)
  have t: "threads_wf st" by (rule resting_threads [OF assms(1)])
  from assms(2) have "at_rest (mworld st') \<and> all_standing heap (modules st') \<and> currentState st' \<in> {ST_IDLE, ST_RUNNING, ST_RESET}"
  proof cases
    case quiet_main
    then show ?thesis by (rule quiet_main_rest [OF assms(1)])
  next
    case (quiet_packet ok addr port payload l r)
    have wf: "wf_link (wlink (mworld st))" using assms(1) by (simp add: resting_def at_rest_def)
    then have "wf_link l" "cur_cmd l = cur_cmd (wlink (mworld st))"
      using udp_data_callback_wf [OF wf quiet_packet(2)] quiet_packet_cmd [OF quiet_packet(2,3) wf] by simp_all
    then show ?thesis using assms(1) quiet_packet(1) by (simp add: resting_def at_rest_def)
  next
    case (quiet_base t' heap' w)
    have "all_standing (modules st) heap' \<and> at_rest w"
      using base_tick_rest [OF quiet_base(3), of "base_freq st"] t assms(1) by (simp add: threads_wf_def resting_def)
    then show ?thesis using assms(1) quiet_base(1) all_standing_trans by (auto simp: resting_def)
  next
    case (quiet_servo t' heap' w)
    then have "heap' = modules st" "w = mworld st" using t by (auto simp: timerTick_def threads_wf_def)
    then show ?thesis using assms(1) quiet_servo(1) by (auto simp: resting_def)
  qed
  then show ?thesis using inv by (simp add: resting_def)
qed

text \<open>C26: When a round in \<open>ST_RUNNING\<close> finds the link down, the machine enters \<open>ST_RESET\<close>, and the next round, whatever packets and
  interrupts come before it, clears the command and leaves the machine idle. From then on, through any rounds of the main loop,
  packets that are not write requests and timer interrupts, the command stays zero, every step generator keeps its position and its phase,
  and an interrupt of the base thread leaves the link alone, raises no line of any port and lowers none but step lines.\<close>

theorem comms_loss_stops_joints:
  assumes "reach e st" "currentState st = ST_RUNNING" "runThreads e st = Some st1" "\<not> link_status st1"
  shows "currentState st1 = ST_RESET
    \<and> (\<forall>st2. (fw_step e)\<^sup>*\<^sup>* st1 st2 \<and> currentState st2 = ST_RESET \<longrightarrow>
        (\<exists>st3. runThreads e st2 = Some st3 \<and> currentState st3 = ST_IDLE
          \<and> (\<forall>st4. (quiet_step e)\<^sup>*\<^sup>* st3 st4 \<longrightarrow>
               cur_cmd (wlink (mworld st4)) = replicate 64 0
               \<and> list_all2 (\<lambda>m m'. standing (body m) (body m')) (modules st2) (modules st4)
               \<and> (\<forall>t heap w. timerTick (baseThread st4) (modules st4) (mworld st4) = Some (t, heap, w) \<longrightarrow>
                    ends_pulses (step_lines (modules st2)) (mworld st4) w))))"
proof -
  obtain s where "st1 = (if \<not> link_status s then s\<lparr>currentState := ST_RESET\<rparr> else s)"
    using assms(2,3) by (auto simp: runThreads_def)
  then have c: "currentState st1 = ST_RESET" using assms(4) by (auto split: if_splits)
  have "\<exists>st3. runThreads e st2 = Some st3 \<and> currentState st3 = ST_IDLE
      \<and> (\<forall>st4. (quiet_step e)\<^sup>*\<^sup>* st3 st4 \<longrightarrow> cur_cmd (wlink (mworld st4)) = replicate 64 0 \<and> all_standing (modules st2) (modules st4)
        \<and> (\<forall>t heap w. timerTick (baseThread st4) (modules st4) (mworld st4) = Some (t, heap, w) \<longrightarrow>
             ends_pulses (step_lines (modules st2)) (mworld st4) w))"
    if st2: "(fw_step e)\<^sup>*\<^sup>* st1 st2" "currentState st2 = ST_RESET" for st2
  proof -
    have "fw_inv st2" using st2(1) runThreads_inv [OF reach_inv [OF assms(1)] assms(3)]
      by (induction rule: rtranclp_induct) (auto intro: fw_step_inv)
    obtain st3 where st3: "runThreads e st2 = Some st3" "currentState st3 = ST_IDLE" "modules st3 = modules st2"
        "wlink (mworld st3) = reset_rx (wlink (mworld st2))"
      using st2(2) by (simp add: runThreads_def)
    have "wf_link (wlink (mworld st2))" using \<open>fw_inv st2\<close> by (simp add: fw_inv_def)
    then have rest: "resting (modules st2) st3"
      using runThreads_inv [OF \<open>fw_inv st2\<close> st3(1)] st3 wf_link_reset cur_cmd_reset by (simp add: resting_def at_rest_def all_standing_refl)
    have r: "resting (modules st2) st4" if "(quiet_step e)\<^sup>*\<^sup>* st3 st4" for st4
      using that by (induction rule: rtranclp_induct) (auto intro: quiet_step_rest rest)
    have "ends_pulses (step_lines (modules st2)) (mworld st4) w"
      if "(quiet_step e)\<^sup>*\<^sup>* st3 st4" "timerTick (baseThread st4) (modules st4) (mworld st4) = Some (t, heap, w)" for st4 t heap w
      using base_tick_rest [OF that(2), of "base_freq st4"] r [OF that(1)] resting_threads [OF r [OF that(1)]]
        step_lines_standing [of "modules st2" "modules st4"] by (simp add: resting_def threads_wf_def)
    then show ?thesis using st3(1,2) r unfolding resting_def at_rest_def by blast
  qed
  then show ?thesis using c by blast
qed

text \<open>The reset clears the current command buffer only: when that is buffer 1, every set point of a PWM
  output stays as it was, so a spindle or heater keeps running after the link is lost.\<close>

theorem comms_loss_keeps_pwm:
  assumes "reach e st" "currentState st = ST_RESET" "getCurrentRxBuffer (rxPP (wlink (mworld st))) = 1"
  shows "\<exists>st'. runThreads e st = Some st' \<and> currentState st' = ST_IDLE
    \<and> set_point (rxPP (wlink (mworld st'))) = set_point (rxPP (wlink (mworld st)))"
proof -
  have wf: "wf_pingpong (rxPP (wlink (mworld st)))" using reach_inv [OF assms(1)] by (simp add: fw_inv_def wf_link_def)
  have "deref (store b 1 p) 0 = deref b 0" if "wf_pingpong b" for b p
    using that by (simp add: pp_defs)
  then show ?thesis
    using assms(2,3) wf by (simp add: runThreads_def reset_rx_def Let_def set_point_def fun_eq_iff)
qed

subsection \<open>A concrete run\<close>

text \<open>A board with an empty configuration, whose monitor object happens to find in its memory that the link is
  up and about to be declared lost.\<close>

definition demo_env :: env where
  "demo_env = \<lparr>deserializeJson = (\<lambda>_. Some \<lparr>doc_Threads = [], doc_Modules = []\<rparr>), defaultConfig = [], clock_tree = nucleo_rcc,
     junk_stepgen = demo_stepgen 40000 False 0, junk_comms = \<lparr>data = False, status = True, noDataCount = 40\<rparr>, junk_post = False\<rparr>"

definition demo_state :: "State \<Rightarrow> State \<Rightarrow> bool \<Rightarrow> thread \<Rightarrow> thread \<Rightarrow> module list \<Rightarrow> link \<Rightarrow> nat option list
    \<Rightarrow> (nat \<Rightarrow> thread_timer) \<Rightarrow> firmware" where
  "demo_state c p r bt st ms l v tt = \<lparr>currentState = c, prevState = p, base_freq = 40000, servo_freq = 1000, configError = False,
     threadsRunning = r, staticConfig = False, baseThread = bt, servoThread = st, modules = ms,
     mworld = \<lparr>wlink = l, wgpio = zero_gpio, wtims = tims off_board, wdebug = False\<rparr>, board = off_board, vectors = v,
     thread_timers = tt, strJson = [], doc = \<lparr>doc_Threads = [], doc_Modules = []\<rparr>,
     cfg = \<lparr>newJson = False, crc32_var = 0\<rparr>, mflash = image_flash 0 []\<rparr>"

definition demo_thread :: "u8 \<Rightarrow> nat list \<Rightarrow> bool \<Rightarrow> thread" where
  "demo_thread s ms ex = \<lparr>slice = s, frequency = (if s = 0 then 40000 else 1000), hasThreadPost = False, vThread = ms, vThreadPost = [],
     semaphore = False, execute = ex\<rparr>"

definition demo_links :: "remora_comms \<Rightarrow> link" where
  "demo_links c = \<lparr>rxPP = zero_pingpong, txPP = zero_pingpong, comms = c\<rparr>"

definition demo_timers :: "nat \<Rightarrow> thread_timer" where
  "demo_timers n = \<lparr>tt_enabled = True, tt_psc = 86, tt_arr = (if n = 5 then 25 else 1000), tt_cnt = 0, tt_uie = True\<rparr>"

lemmas demo_defs = demo_state_def demo_thread_def demo_links_def demo_env_def

lemma wf_demo_links: "wf_link (demo_links c)"
  by (simp add: demo_links_def wf_link_def wf_zero_pingpong)

definition demo_boot :: firmware where
  "demo_boot = demo_state ST_SETUP ST_SETUP False (demo_thread 0 [] False) (demo_thread 1 [] False) []
     (demo_links \<lparr>data = False, status = False, noDataCount = 0\<rparr>) (replicate 8 None) demo_timers"

definition demo_up :: "State \<Rightarrow> State \<Rightarrow> bool \<Rightarrow> link \<Rightarrow> firmware" where
  "demo_up c p ex l = demo_state c p True (demo_thread 0 [] False) (demo_thread 1 [0] ex) [Module_ctor MComms] l
     ([Some 0, Some 1] @ replicate 6 None) demo_timers"

lemma demo_setup: "runThreads demo_env (main_start demo_boot)
    = Some (demo_state ST_START ST_SETUP False (demo_thread 0 [] False) (demo_thread 1 [0] False) [Module_ctor MComms]
        (demo_links \<lparr>data = False, status = True, noDataCount = 40\<rparr>) (replicate 8 None) demo_timers)"
  by (simp add: runThreads_def main_start_def demo_boot_def demo_defs setup_tasks_def jsonFromFlash_def flash_word_def image_flash_def
    un_le32_def deserialiseJSON_def configThreads_def createThreads_def loadModules_def register_servo_def registerModule_def
    pruThread_ctor_def initRxPingPongBuffer_def initTxPingPongBuffer_def zero_pingpong_def)

lemma demo_start: "runThreads demo_env (demo_state ST_START ST_SETUP False (demo_thread 0 [] False) (demo_thread 1 [0] False)
      [Module_ctor MComms] l (replicate 8 None) demo_timers) = Some (demo_up ST_IDLE ST_START False l)"
  by (auto simp: runThreads_def demo_defs demo_up_def start_threads_def startThread_def Interrupt_Register_def startTimer_def
    demo_timers_def BASE_PERIOD_def SERVO_PERIOD_def numeral_eq_Suc fun_eq_iff)

lemma demo_idle: "status (comms l) \<Longrightarrow> runThreads demo_env (demo_up ST_IDLE p False l) = Some (demo_up ST_RUNNING ST_IDLE False l)"
  by (simp add: runThreads_def demo_defs demo_up_def run_servo_def run_def link_status_def getStatus_def)

lemma demo_tick: "fw_step demo_env (demo_up c p False l) (demo_up c p True l)"
proof -
  have "timerTick (servoThread (demo_up c p False l)) (modules (demo_up c p False l)) (mworld (demo_up c p False l))
      = Some (demo_thread 1 [0] True, modules (demo_up c p False l), mworld (demo_up c p False l))"
    by (simp add: timerTick_def demo_up_def demo_defs)
  from fw_step.servo_tick [OF _ this] show ?thesis by (simp add: demo_up_def demo_defs SLICE_Wrapper_def)
qed

lemma demo_lost: "runThreads demo_env (demo_up ST_RUNNING p True (demo_links \<lparr>data = False, status = True, noDataCount = 40\<rparr>))
    = Some (demo_up ST_RESET ST_RUNNING False (demo_links \<lparr>data = False, status = False, noDataCount = 0\<rparr>))"
  by (simp add: runThreads_def demo_defs demo_up_def run_servo_def run_def runModule_def obj_slowUpdate_def Module_ctor_def
    link_status_def getStatus_def RemoraComms_update_def DATA_ERR_MAX_def)

lemma demo_reach:
  "reach demo_env (demo_up ST_IDLE ST_START False (demo_links \<lparr>data = False, status = True, noDataCount = 40\<rparr>))"
  "reach demo_env (demo_up ST_RUNNING ST_IDLE True (demo_links \<lparr>data = False, status = True, noDataCount = 40\<rparr>))"
  "reach demo_env (demo_up ST_RESET ST_RUNNING False (demo_links \<lparr>data = False, status = False, noDataCount = 0\<rparr>))"
proof -
  have b: "reach demo_env (main_start demo_boot)"
    using wf_demo_links by (intro reach.start) (simp add: boot_def demo_boot_def demo_state_def PERIPH_COUNT_IRQn_def)
  note s = reach.step [OF _ fw_step.main]
  show i: "reach demo_env (demo_up ST_IDLE ST_START False (demo_links \<lparr>data = False, status = True, noDataCount = 40\<rparr>))"
    by (rule s [OF s [OF b demo_setup] demo_start])
  have "reach demo_env (demo_up ST_RUNNING ST_IDLE False (demo_links \<lparr>data = False, status = True, noDataCount = 40\<rparr>))"
    by (rule s [OF i demo_idle]) (simp add: demo_links_def)
  then show r: "reach demo_env (demo_up ST_RUNNING ST_IDLE True (demo_links \<lparr>data = False, status = True, noDataCount = 40\<rparr>))"
    using demo_tick reach.step by blast
  show "reach demo_env (demo_up ST_RESET ST_RUNNING False (demo_links \<lparr>data = False, status = False, noDataCount = 0\<rparr>))"
    by (rule s [OF r demo_lost])
qed

theorem main_state_invariant_witness:
  "currentState (demo_up ST_RESET ST_RUNNING False (demo_links \<lparr>data = False, status = False, noDataCount = 0\<rparr>)) = ST_RESET
   \<and> threadsRunning (demo_up ST_RESET ST_RUNNING False (demo_links \<lparr>data = False, status = False, noDataCount = 0\<rparr>))"
  using main_state_invariant [OF demo_reach(3)] by (simp add: demo_up_def demo_state_def)

text \<open>A board with one joint, configured by a file that says nothing else.\<close>

definition axis_object :: json_object where
  "axis_object = \<lparr>jstr = [''Thread'' \<mapsto> ''Base'', ''Type'' \<mapsto> ''Stepgen'', ''Step Pin'' \<mapsto> ''PA_0'', ''Direction Pin'' \<mapsto> ''PA_1''],
     jint = (\<lambda>_. 0), juint = (\<lambda>_. 0)\<rparr>"

definition axis_env :: env where
  "axis_env = demo_env\<lparr>deserializeJson := (\<lambda>_. Some \<lparr>doc_Threads = [], doc_Modules = [axis_object]\<rparr>)\<rparr>"

definition axis_state :: "State \<Rightarrow> State \<Rightarrow> bool \<Rightarrow> bool \<Rightarrow> link \<Rightarrow> nat option list \<Rightarrow> stepgen \<Rightarrow> gpio \<Rightarrow> firmware" where
  "axis_state c p r ex l v sg g = (demo_state c p r ((demo_thread 0 [1] False)\<lparr>vThreadPost := [1], hasThreadPost := True\<rparr>) (demo_thread 1 [0] ex)
     [Module_ctor MComms, Module_ctor (MStepgen sg)] l v demo_timers)\<lparr>doc := \<lparr>doc_Threads = [], doc_Modules = [axis_object]\<rparr>,
     mworld := \<lparr>wlink = l, wgpio = g, wtims = tims off_board, wdebug = False\<rparr>\<rparr>"

abbreviation both_vectors :: "nat option list" where "both_vectors \<equiv> [Some 0, Some 1] @ replicate 6 None"

lemma axis_stepgen:
  obtains sg g where "Stepgen_ctor (demo_stepgen 40000 False 0) 40000 0 ''PA_0'' ''PA_1'' STEPBIT zero_gpio = Some (sg, g)"
    "GPIOx (stepPin sg) = Some 0" "pinMask (stepPin sg) = 1"
proof -
  have n: "''PA_0'' = pin_name 0 0" "''PA_1'' = pin_name 0 1" by code_simp+
  obtain sp g1 where 1: "Pin2 ''PA_0'' 1 zero_gpio = Some (sp, g1)" "drives sp 0 0" using Pin2_drives [of 0 0 "''PA_0''" 1 zero_gpio] n by auto
  obtain dp g2 where 2: "Pin2 ''PA_1'' 1 g1 = Some (dp, g2)" using Pin2_drives [of 0 1 "''PA_1''" 1 g1] n by auto
  obtain sg where "Stepgen_ctor (demo_stepgen 40000 False 0) 40000 0 ''PA_0'' ''PA_1'' STEPBIT zero_gpio = Some (sg, g2)" "stepPin sg = sp"
    using 1 2 by (simp add: Stepgen_ctor_def demo_stepgen_def)
  then show thesis using 1(2) that [of sg g2] by (simp add: drives_def)
qed

lemma axis_reach:
  assumes "Stepgen_ctor (demo_stepgen 40000 False 0) 40000 0 ''PA_0'' ''PA_1'' STEPBIT zero_gpio = Some (sg, g)"
  shows "reach axis_env (axis_state ST_RUNNING ST_IDLE True True (demo_links \<lparr>data = False, status = True, noDataCount = 40\<rparr>) both_vectors sg g)"
proof -
  let ?l = "demo_links \<lparr>data = False, status = True, noDataCount = 40\<rparr>"
  have b: "reach axis_env (main_start demo_boot)"
    using wf_demo_links by (intro reach.start) (simp add: boot_def demo_boot_def demo_state_def PERIPH_COUNT_IRQn_def)
  note s = reach.step [OF _ fw_step.main]
  have 1: "runThreads axis_env (main_start demo_boot) = Some (axis_state ST_START ST_SETUP False False ?l (replicate 8 None) sg g)"
    using assms by (simp add: axis_env_def runThreads_def main_start_def demo_boot_def demo_defs setup_tasks_def jsonFromFlash_def flash_word_def
      image_flash_def un_le32_def deserialiseJSON_def configThreads_def createThreads_def loadModules_def register_servo_def registerModule_def
      pruThread_ctor_def initRxPingPongBuffer_def initTxPingPongBuffer_def zero_pingpong_def axis_state_def load_module_def axis_object_def
      createStepgen_def set_gpio_def register_base_def registerModulePost_def)
  have 2: "runThreads axis_env (axis_state ST_START ST_SETUP False False ?l (replicate 8 None) sg g)
      = Some (axis_state ST_IDLE ST_START True False ?l both_vectors sg g)"
    by (auto simp: runThreads_def demo_defs axis_state_def start_threads_def startThread_def Interrupt_Register_def startTimer_def
      demo_timers_def BASE_PERIOD_def SERVO_PERIOD_def numeral_eq_Suc fun_eq_iff)
  have 3: "runThreads axis_env (axis_state ST_IDLE ST_START True False ?l both_vectors sg g)
      = Some (axis_state ST_RUNNING ST_IDLE True False ?l both_vectors sg g)"
    by (simp add: runThreads_def demo_defs axis_state_def run_servo_def run_def link_status_def getStatus_def)
  have "timerTick (servoThread (axis_state ST_RUNNING ST_IDLE True False ?l both_vectors sg g))
      (modules (axis_state ST_RUNNING ST_IDLE True False ?l both_vectors sg g)) (mworld (axis_state ST_RUNNING ST_IDLE True False ?l both_vectors sg g))
      = Some (demo_thread 1 [0] True, modules (axis_state ST_RUNNING ST_IDLE True False ?l both_vectors sg g),
          mworld (axis_state ST_RUNNING ST_IDLE True False ?l both_vectors sg g))"
    by (simp add: timerTick_def axis_state_def demo_defs)
  from fw_step.servo_tick [OF _ this]
  have 4: "fw_step axis_env (axis_state ST_RUNNING ST_IDLE True False ?l both_vectors sg g) (axis_state ST_RUNNING ST_IDLE True True ?l both_vectors sg g)"
    by (simp add: axis_state_def demo_defs SLICE_Wrapper_def)
  show ?thesis by (rule reach.step [OF s [OF s [OF s [OF b 1] 2] 3] 4])
qed

text \<open>The link is lost; after the reset an interrupt of the base thread finds the joint at rest.\<close>

theorem comms_loss_stops_joints_witness:
  "\<exists>sg g st2 st3 t heap w.
     reach axis_env (axis_state ST_RUNNING ST_IDLE True True (demo_links \<lparr>data = False, status = True, noDataCount = 40\<rparr>) both_vectors sg g)
     \<and> runThreads axis_env (axis_state ST_RUNNING ST_IDLE True True (demo_links \<lparr>data = False, status = True, noDataCount = 40\<rparr>) both_vectors sg g) = Some st2
     \<and> runThreads axis_env st2 = Some st3 \<and> currentState st3 = ST_IDLE \<and> cur_cmd (wlink (mworld st3)) = replicate 64 0
     \<and> timerTick (baseThread st3) (modules st3) (mworld st3) = Some (t, heap, w)
     \<and> ends_pulses (step_lines (modules st2)) (mworld st3) w \<and> (0, 0) \<in> step_lines (modules st2)"
proof -
  obtain sg g where sg: "Stepgen_ctor (demo_stepgen 40000 False 0) 40000 0 ''PA_0'' ''PA_1'' STEPBIT zero_gpio = Some (sg, g)"
      "GPIOx (stepPin sg) = Some 0" "pinMask (stepPin sg) = 1" by (rule axis_stepgen)
  let ?l = "demo_links \<lparr>data = False, status = True, noDataCount = 40\<rparr>" and ?l2 = "demo_links \<lparr>data = False, status = False, noDataCount = 0\<rparr>"
  let ?st = "axis_state ST_RUNNING ST_IDLE True True ?l both_vectors sg g"
  let ?st2 = "(axis_state ST_RESET ST_RUNNING True False ?l2 both_vectors sg g)"
  have 2: "runThreads axis_env ?st = Some ?st2"
    by (simp add: runThreads_def axis_state_def demo_defs run_servo_def run_def runModule_def obj_slowUpdate_def Module_ctor_def
      link_status_def getStatus_def RemoraComms_update_def DATA_ERR_MAX_def)
  have c: "currentState ?st = ST_RUNNING" "currentState ?st2 = ST_RESET" "\<not> link_status ?st2"
    by (simp_all add: axis_state_def demo_defs link_status_def getStatus_def)
  from comms_loss_stops_joints [OF axis_reach [OF sg(1)] c(1) 2 c(3)] c(2)
  obtain st3 where st3: "runThreads axis_env ?st2 = Some st3" "currentState st3 = ST_IDLE"
      "\<forall>st4. (quiet_step axis_env)\<^sup>*\<^sup>* st3 st4 \<longrightarrow> cur_cmd (wlink (mworld st4)) = replicate 64 0
        \<and> list_all2 (\<lambda>m m'. standing (body m) (body m')) (modules ?st2) (modules st4)
        \<and> (\<forall>t heap w. timerTick (baseThread st4) (modules st4) (mworld st4) = Some (t, heap, w) \<longrightarrow> ends_pulses (step_lines (modules ?st2)) (mworld st4) w)"
    by blast
  have z: "cur_cmd (wlink (mworld st3)) = replicate 64 0"
    and e: "\<And>t heap w. timerTick (baseThread st3) (modules st3) (mworld st3) = Some (t, heap, w) \<Longrightarrow> ends_pulses (step_lines (modules ?st2)) (mworld st3) w"
    using st3(3) by blast+
  have m: "modules st3 = [Module_ctor MComms, Module_ctor (MStepgen sg)]"
      "baseThread st3 = (demo_thread 0 [1] False)\<lparr>vThreadPost := [1], hasThreadPost := True\<rparr>"
    using st3(1) by (auto simp: runThreads_def axis_state_def demo_state_def)
  have "\<exists>t heap w. timerTick (baseThread st3) (modules st3) (mworld st3) = Some (t, heap, w)"
    by (simp add: m timerTick_def run_def demo_thread_def Module_ctor_def runModule_def runModulePost_def obj_slowUpdate_def zero_command_idle [OF z]
      stopPulses_def pin_set_def sg(2))
  moreover have "(0, 0) \<in> step_lines (modules ?st2)" using sg(2,3) by (simp add: step_lines_def axis_state_def demo_state_def Module_ctor_def)
  ultimately show ?thesis using axis_reach [OF sg(1)] 2 st3(1,2) z e by blast
qed

text \<open>A reset with one interrupt after 20 bytes, in which the feedback buffer is written.\<close>

theorem reset_interrupt_safe_witness:
  "\<exists>(r :: reset_loop) r'. rx_jointFreqCmd (cur_cmd (demo_link demo_packet)) 0 = 1000 \<and> left r = 44 \<and> rx_jointEnable (cur_cmd (rlink r)) = 0
     \<and> isr_writes (rlink r) (rlink r') \<and> cur_fb (rlink r') \<noteq> cur_fb (rlink r) \<and> cur_cmd (rlink (reset_bytes 44 r')) = replicate 64 0"
proof -
  let ?s = "demo_link demo_packet"
  have wf: "wf_link ?s" "length (cur_cmd ?s) = 64" using wf_demo_link demo_packet_fields(1) by (simp_all add: cur_cmd_demo_link)
  obtain r where r: "reset_step\<^sup>*\<^sup>* (reset_start ?s) r" "left r = 44"
    using reset_partly [of "reset_start ?s" 44 20] by (auto simp: reset_start_def BUFFER_SIZE_def)
  have inv: "wf_link (rlink r)" "cur_cmd (rlink r) = cleared 44 (cur_cmd ?s)" using reset_run_inv [OF wf(1) r(1)] r(2) by (simp_all add: reset_inv_def)
  let ?t = "txPP (rlink r)" and ?p = "if cur_fb (rlink r) = replicate 64 7 then replicate 64 8 else replicate 64 7"
  let ?l = "(rlink r)\<lparr>txPP := store ?t (getCurrentTxBuffer ?t) ?p\<rparr>"
  have t: "wf_pingpong ?t" "length ?p = 64" using inv(1) by (simp_all add: wf_link_def)
  have w: "isr_writes (rlink r) ?l" "cur_fb ?l = ?p"
    using t tx.alt_cur [of ?t] by (simp_all add: isr_writes_def cur_fb_def tx.inv_put tx.cur_put tx.get_put tx.get_put_other)
  have "cur_fb ?l \<noteq> cur_fb (rlink r)" unfolding w(2) by simp
  moreover have "reset_step\<^sup>*\<^sup>* (reset_start ?s) (reset_bytes 44 (r\<lparr>rlink := ?l\<rparr>))"
    using r(1) reset_step.isr [OF w(1)] reset_bytes_run [of "r\<lparr>rlink := ?l\<rparr>" 44] r(2)
    by (metis (no_types, lifting) rtranclp.rtrancl_into_rtrancl rtranclp_trans reset_loop.ext_inject reset_loop.surjective reset_loop.update_convs(1))
  then have "cur_cmd (rlink (reset_bytes 44 (r\<lparr>rlink := ?l\<rparr>))) = replicate 64 0"
    using reset_interrupt_safe [OF wf(1)] left_reset_bytes [of "r\<lparr>rlink := ?l\<rparr>" 44] r(2) by simp
  moreover have "rx_jointFreqCmd (cur_cmd ?s) 0 = 1000" using demo_packet_fields by (simp add: cur_cmd_demo_link)
  moreover have "rx_jointEnable (cur_cmd (rlink r)) = 0" by (simp add: inv(2) cleared_fields(2))
  ultimately show ?thesis using r(2) w(1) by (intro exI [of _ r] exI [of _ "r\<lparr>rlink := ?l\<rparr>"]) simp
qed

text \<open>A write request that comes in just before the reset.\<close>

definition demo_late :: link where
  "demo_late = (let l = demo_links \<lparr>data = False, status = False, noDataCount = 0\<rparr>; p = le32 PRU_WRITE @ replicate 60 1
     in (retire_tx PRU_ACKNOWLEDGE (fill l p))\<lparr>rxPP := swapRxBuffers (rxPP (fill l p))\<rparr>)"

lemma demo_late_reach: "reach demo_env (demo_up ST_RESET ST_RUNNING False demo_late)"
proof -
  let ?l = "demo_links \<lparr>data = False, status = False, noDataCount = 0\<rparr>" and ?p = "le32 PRU_WRITE @ replicate 60 1"
  have p: "packet_of ?l ?p = ?p" "rx_header ?p = PRU_WRITE" "length ?p = 64"
    using wf_demo_links [of "\<lparr>data = False, status = False, noDataCount = 0\<rparr>"]
    by (simp_all add: packet_of_full rx_header_def read_le32_def nth_byte_def le32_def un_le32_le32)
  have "PRU_WRITE \<noteq> PRU_READ" by (simp add: pru_defs)
  then have "udp_data_callback True (0 :: u32) 27181 ?p ?l = Some (demo_late, Some (0, 27181, reply_of PRU_ACKNOWLEDGE ?l))"
    using p wf_demo_links by (simp add: udp_data_callback_cases demo_late_def Let_def)
  then have "fw_step demo_env (demo_up ST_RESET ST_RUNNING False ?l) ((demo_up ST_RESET ST_RUNNING False ?l)\<lparr>mworld :=
      (mworld (demo_up ST_RESET ST_RUNNING False ?l))\<lparr>wlink := demo_late\<rparr>\<rparr>)"
    by (intro fw_step.packet) (simp_all add: demo_up_def demo_state_def)
  moreover have "(demo_up ST_RESET ST_RUNNING False ?l)\<lparr>mworld := (mworld (demo_up ST_RESET ST_RUNNING False ?l))\<lparr>wlink := demo_late\<rparr>\<rparr>
      = demo_up ST_RESET ST_RUNNING False demo_late"
    by (simp add: demo_up_def demo_state_def)
  ultimately show ?thesis using reach.step [OF demo_reach(3)] by simp
qed

theorem comms_loss_keeps_pwm_witness:
  "\<exists>st'. runThreads demo_env (demo_up ST_RESET ST_RUNNING False demo_late) = Some st' \<and> currentState st' = ST_IDLE
    \<and> set_point (rxPP (wlink (mworld st'))) = set_point (rxPP demo_late)"
proof -
  have "getCurrentRxBuffer (rxPP demo_late) = 1"
    by (simp add: demo_late_def Let_def demo_links_def fill_def zero_pingpong_def pp_defs)
  then show ?thesis using comms_loss_keeps_pwm [OF demo_late_reach] by (simp add: demo_up_def demo_state_def)
qed

subsection \<open>A new configuration, from the network to the next start\<close>

lemma padding_le: "(4 - n mod 4) mod 4 \<le> (512 - n mod 512) mod (512 :: nat)"
proof -
  define m where "m = n mod 512"
  have m: "m < 512" "n mod 4 = m mod 4" by (simp_all add: m_def mod_mod_cancel)
  show ?thesis
  proof (cases "m mod 4 = 0")
    case False
    have "m = 4 * (m div 4) + m mod 4" "m div 4 < 128" using m(1) by (simp_all add: less_mult_imp_div_less)
    then have "4 - m mod 4 \<le> 512 - m" by linarith
    moreover have "0 < m" using False by (cases m) simp_all
    ultimately show ?thesis unfolding m(2) m_def [symmetric] using False by simp
  qed (simp add: m(2))
qed

lemma holds_config_file:
  assumes "holds fl JSON_UPLOAD_ADDRESS ((config_header json @ json) @ replicate ((512 - length (config_header json @ json) mod 512) mod 512) 0)"
  shows "holds fl JSON_UPLOAD_ADDRESS (config_header json @ padded json)"
proof -
  let ?n = "length json" and ?p = "(512 - length (config_header json @ json) mod 512) mod 512"
  have "?p = (512 - ?n mod 512) mod 512" by (simp add: METADATA_LEN_def)
  moreover have "(4 - ?n mod 4) mod 4 \<le> (512 - ?n mod 512) mod 512" by (rule padding_le)
  ultimately have "replicate ?p (0 :: u8) = replicate ((4 - ?n mod 4) mod 4) 0 @ replicate (?p - (4 - ?n mod 4) mod 4) 0"
    by (simp flip: replicate_add)
  then have "(config_header json @ json) @ replicate ?p 0 = (config_header json @ padded json) @ replicate (?p - (4 - ?n mod 4) mod 4) 0"
    by (simp add: padded_def)
  then show ?thesis using assms by (simp only: holds_append)
qed

lemma moveJson_config:
  assumes "erased_takes cell" "holds fl JSON_UPLOAD_ADDRESS (config_header json @ json)" "length json \<le> 65024"
  shows "\<exists>fl'. moveJson cell fl = Some fl' \<and> flash_word fl' JSON_STORAGE_ADDRESS = of_nat (length json)
    \<and> holds fl' (JSON_STORAGE_ADDRESS + 4) json"
proof -
  have h: "holds fl JSON_UPLOAD_ADDRESS (config_header json)" "holds fl (JSON_UPLOAD_ADDRESS + METADATA_LEN) json"
    using assms(2) by (simp_all add: holds_append)
  have "meta_jsonLength fl = of_nat (length json)" using config_header_meta(3) [OF h(1)] assms(3) by simp
  then have n: "unat (meta_jsonLength fl) = length json" using assms(3) by (simp add: unat_of_nat_small)
  show ?thesis using moveJson_run [OF assms(1), of fl] n assms(3) h(2) by (auto simp: holds_def)
qed

lemma clear_upload_keeps_storage: "0x8060000 \<le> a \<Longrightarrow> cells (clearJsonUploadArea fl) a = cells fl a"
  by (simp add: clearJsonUploadArea_def HAL_FLASH_Lock_def HAL_FLASH_Unlock_def FLASH_If_Erase_upload)

lemma load_stored:
  assumes "flash_word fl JSON_STORAGE_ADDRESS = of_nat (length json)" "holds fl (JSON_STORAGE_ADDRESS + 4) json" "length json \<le> 65024"
  shows "jsonFromFlash d fl s = Some (s @ json)"
proof -
  have u: "unat (of_nat (length json) :: u32) = length json" using assms(3) by (simp add: unat_of_nat_small)
  have "(of_nat (length json) :: u32) \<noteq> 0xFFFFFFFF"
  proof
    assume "(of_nat (length json) :: u32) = 0xFFFFFFFF"
    then have "unat (of_nat (length json) :: u32) = unat (0xFFFFFFFF :: u32)" by simp
    then show False using assms(3) u by simp
  qed
  moreover have "flash_bytes fl (JSON_STORAGE_ADDRESS + 4) (length json) = Some json"
    using assms(2,3) by (intro flash_bytes_holds) (simp_all add: flash_addrs)
  ultimately show ?thesis using assms(1) u by (simp add: jsonFromFlash_def Let_def)
qed

text \<open>C3: A configuration file uploaded by TFTP, in order and with the upload area erased, to a firmware that has
  checked none since its start: the next round of the main loop installs it and restarts, the restarted
  firmware reads exactly this JSON, and the upload area is erased for the next upload.\<close>

theorem config_update_end_to_end:
  assumes "erased_takes cell" "\<forall>x. in_sector 6 x \<longrightarrow> cells (tftp_flash t) x = 0xFF" "length json \<le> 64512"
    and "IAP_tftp_recv_callback True True True True (b # TFTP_WRQ # rest) t = Some t1"
    and "tftp_run cell (file_packets 1 (config_header json @ json)) t1 = Some t2"
    and "runThreads e st = Some st1" "crc32_var (cfg st1) = 0"
  shows "\<exists>fl. main_iteration e cell (\<lambda>s. Some (s\<lparr>mflash := tftp_flash t2, cfg := (cfg s)\<lparr>newJson := json_flag t2\<rparr>\<rparr>)) st = Some (Reboot fl)
    \<and> jsonFromFlash d fl s = Some (s @ json) \<and> (\<forall>x. in_sector 6 x \<longrightarrow> cells fl x = 0xFF)"
proof -
  let ?file = "config_header json @ json"
  have len: "length ?file \<le> 65024" using assms(3) by (simp add: METADATA_LEN_def)
  have r: "receiving 0 JSON_UPLOAD_ADDRESS t1" "\<forall>x. cells (tftp_flash t1) x = (if in_sector 7 x then 0xFF else cells (tftp_flash t) x)"
    using write_request_run [OF assms(4)] by auto
  have e: "\<forall>i < length ?file + 512. cells (tftp_flash t1) (JSON_UPLOAD_ADDRESS + i) = 0xFF"
    using r(2) assms(2) len by (simp add: in_sector_upload in_sector_storage JSON_UPLOAD_ADDRESS_def)
  have dv: "length ?file div 512 \<le> 65024 div 512" using len by (rule div_le_mono)
  have t2: "json_flag t2" "holds (tftp_flash t2) JSON_UPLOAD_ADDRESS (?file @ replicate ((512 - length ?file mod 512) mod 512) 0)"
    using tftp_run_file [OF assms(1) r(1) _ _ e] len dv assms(5) by (auto simp: flash_addrs)
  let ?fl = "tftp_flash t2" and ?st = "(cfg st1)\<lparr>newJson := json_flag t2\<rparr>"
  have h: "holds ?fl JSON_UPLOAD_ADDRESS (config_header json @ padded json)" by (rule holds_config_file [OF t2(2)])
  then have h': "holds ?fl JSON_UPLOAD_ADDRESS (config_header json @ json)" by (simp add: padded_def holds_append)
  have "length json \<le> 0x2F000" using assms(3) by simp
  note f = config_file_fields [OF h this]
  have chk: "\<exists>c. checkJson ?fl ?st = Some (1, c)" using f assms(7) by (simp add: checkJson_cases Let_def)
  obtain fl' where m: "moveJson cell ?fl = Some fl'" "flash_word fl' JSON_STORAGE_ADDRESS = of_nat (length json)"
    "holds fl' (JSON_STORAGE_ADDRESS + 4) json"
    using moveJson_config [OF assms(1) h'] assms(3) by auto
  have "flash_word (clearJsonUploadArea fl') JSON_STORAGE_ADDRESS = of_nat (length json)"
    using m(2) by (simp add: flash_word_def clear_upload_keeps_storage JSON_STORAGE_ADDRESS_def)
  moreover have "holds (clearJsonUploadArea fl') (JSON_STORAGE_ADDRESS + 4) json"
    using m(3) by (simp add: holds_def clear_upload_keeps_storage JSON_STORAGE_ADDRESS_def)
  ultimately have "jsonFromFlash d (clearJsonUploadArea fl') s = Some (s @ json)"
    using load_stored assms(3) by simp
  moreover have "\<forall>x. in_sector 6 x \<longrightarrow> cells (clearJsonUploadArea fl') x = 0xFF"
    by (simp add: clearJsonUploadArea_def HAL_FLASH_Lock_def HAL_FLASH_Unlock_def FLASH_If_Erase_upload in_sector_upload)
  moreover have "main_iteration e cell (\<lambda>s. Some (s\<lparr>mflash := ?fl, cfg := (cfg s)\<lparr>newJson := json_flag t2\<rparr>\<rparr>)) st
      = Some (Reboot (clearJsonUploadArea fl'))"
    using assms(6) chk m(1) t2(1) by (auto simp: main_iteration_def)
  ultimately show ?thesis by blast
qed

theorem config_update_end_to_end_witness:
  "\<exists>t2 fl. tftp_run (AND) (file_packets 1 (config_header demo_json @ demo_json)) (open_tftp (image_flash 0 [])) = Some t2
    \<and> main_iteration demo_env (AND) (\<lambda>s. Some (s\<lparr>mflash := tftp_flash t2, cfg := (cfg s)\<lparr>newJson := json_flag t2\<rparr>\<rparr>))
        (main_start demo_boot) = Some (Reboot fl)
    \<and> jsonFromFlash [] fl [] = Some [0x7B, 0x7D, 0x0A]"
proof -
  let ?file = "config_header demo_json @ demo_json" and ?t1 = "open_tftp (image_flash 0 [])"
  have c: "cells (tftp_flash ?t1) x = 0xFF" for x
    using write_request_run [OF open_tftp_request, of "image_flash 0 []"] by (simp add: idle_tftp_def image_flash_def)
  have n: "length ?file = 515" by (simp add: METADATA_LEN_def length_demo_json)
  obtain t2 where t2: "tftp_run (AND) (file_packets (Suc 0) ?file) ?t1 = Some t2"
    using tftp_run_file [OF erased_takes_and open_tftp_receiving, of ?file "image_flash 0 []"] c n by (auto simp: flash_addrs)
  then have t2': "tftp_run (AND) (file_packets 1 ?file) ?t1 = Some t2" by simp
  have "cells (tftp_flash (idle_tftp (image_flash 0 []))) x = 0xFF" for x by (simp add: idle_tftp_def image_flash_def)
  then show ?thesis
    using config_update_end_to_end [OF erased_takes_and _ _ open_tftp_request t2' demo_setup, of "[]" "[]"] t2'
    by (auto simp: length_demo_json demo_state_def) (simp add: demo_json_def)
qed

end
