(* ===== verification/Wiz5500.thy ===== *)
theory Wiz5500
  imports Prelude "HOL-Library.Monad_Syntax"
begin

unbundle bit_operations_syntax

text \<open>
  The driver of the Ethernet chip (\<open>Ethernet/W5500/w5500.c\<close>, \<open>w5500.h\<close>) over the SPI bus of
  \<open>Src/w5x00_spi.cpp\<close>. The chip is hardware and a parameter: \<open>spi c out n\<close> is one frame (chip select, the
  bytes \<open>out\<close> written, \<open>n\<close> bytes read, deselect), giving the bytes read and the chip after it. What the theorems use of
  the data sheet is in the predicates \<open>w5500_reads\<close>, \<open>w5500_writes\<close> and \<open>w5500_completes\<close>. \<open>None\<close> is a loop
  that does not end (the critical section entered twice, a poll that never succeeds) or a write out of a buffer.
\<close>

type_synonym 'c bus = "'c \<Rightarrow> u8 list \<Rightarrow> nat \<Rightarrow> u8 list \<times> 'c"

record 'c wiz =
  chip :: 'c
  spin_lock :: bool

subsection \<open>The critical section and one frame\<close>

definition wizchip_critical_section_lock :: "'c wiz \<Rightarrow> 'c wiz option" where
  "wizchip_critical_section_lock w = (if spin_lock w then None else Some (w\<lparr>spin_lock := True\<rparr>))"

definition wizchip_critical_section_unlock :: "'c wiz \<Rightarrow> 'c wiz" where
  "wizchip_critical_section_unlock w = w\<lparr>spin_lock := False\<rparr>"

definition spi_frame :: "'c bus \<Rightarrow> u8 list \<Rightarrow> nat \<Rightarrow> 'c wiz \<Rightarrow> (u8 list \<times> 'c wiz) option" where
  "spi_frame spi out n w =
     do { w1 \<leftarrow> wizchip_critical_section_lock w;
          let (bs, c) = spi (chip w1) out n;
          Some (bs, wizchip_critical_section_unlock (w1\<lparr>chip := c\<rparr>)) }"

subsection \<open>Addresses\<close>

definition W5500_SPI_READ :: u32 where "W5500_SPI_READ = 0"
definition W5500_SPI_WRITE :: u32 where "W5500_SPI_WRITE = 4"

definition WIZCHIP_SREG_BLOCK :: "nat \<Rightarrow> u32" where "WIZCHIP_SREG_BLOCK n = of_nat (1 + 4 * n)"
definition WIZCHIP_TXBUF_BLOCK :: "nat \<Rightarrow> u32" where "WIZCHIP_TXBUF_BLOCK n = of_nat (2 + 4 * n)"
definition WIZCHIP_RXBUF_BLOCK :: "nat \<Rightarrow> u32" where "WIZCHIP_RXBUF_BLOCK n = of_nat (3 + 4 * n)"

definition io_addr :: "u16 \<Rightarrow> u32 \<Rightarrow> u32" where
  "io_addr off blk = push_bit 8 (ucast off) + push_bit 3 blk"

definition WIZCHIP_OFFSET_INC :: "u32 \<Rightarrow> nat \<Rightarrow> u32" where
  "WIZCHIP_OFFSET_INC a n = a + push_bit 8 (of_nat n)"

definition Sn_CR :: "nat \<Rightarrow> u32" where "Sn_CR n = io_addr 0x0001 (WIZCHIP_SREG_BLOCK n)"
definition Sn_IR :: "nat \<Rightarrow> u32" where "Sn_IR n = io_addr 0x0002 (WIZCHIP_SREG_BLOCK n)"
definition Sn_SR :: "nat \<Rightarrow> u32" where "Sn_SR n = io_addr 0x0003 (WIZCHIP_SREG_BLOCK n)"
definition Sn_TXBUF_SIZE :: "nat \<Rightarrow> u32" where "Sn_TXBUF_SIZE n = io_addr 0x001F (WIZCHIP_SREG_BLOCK n)"
definition Sn_TX_FSR :: "nat \<Rightarrow> u32" where "Sn_TX_FSR n = io_addr 0x0020 (WIZCHIP_SREG_BLOCK n)"
definition Sn_TX_WR :: "nat \<Rightarrow> u32" where "Sn_TX_WR n = io_addr 0x0024 (WIZCHIP_SREG_BLOCK n)"
definition Sn_RX_RSR :: "nat \<Rightarrow> u32" where "Sn_RX_RSR n = io_addr 0x0026 (WIZCHIP_SREG_BLOCK n)"
definition Sn_RX_RD :: "nat \<Rightarrow> u32" where "Sn_RX_RD n = io_addr 0x0028 (WIZCHIP_SREG_BLOCK n)"

lemmas wiz_regs = Sn_CR_def Sn_IR_def Sn_SR_def Sn_TXBUF_SIZE_def Sn_TX_FSR_def Sn_TX_WR_def Sn_RX_RSR_def Sn_RX_RD_def

text \<open>The three bytes in front of every frame.\<close>

definition addr_bytes :: "u32 \<Rightarrow> u8 list" where
  "addr_bytes a = [ucast (drop_bit 16 (a AND 0x00FF0000)), ucast (drop_bit 8 (a AND 0x0000FF00)), ucast (a AND 0x000000FF)]"

subsection \<open>Bytes and blocks\<close>

definition WIZCHIP_READ :: "'c bus \<Rightarrow> u32 \<Rightarrow> 'c wiz \<Rightarrow> (u8 \<times> 'c wiz) option" where
  "WIZCHIP_READ spi a w = map_option (apfst (\<lambda>bs. nth_byte bs 0)) (spi_frame spi (addr_bytes (a OR W5500_SPI_READ)) 1 w)"

definition WIZCHIP_WRITE :: "'c bus \<Rightarrow> u32 \<Rightarrow> u8 \<Rightarrow> 'c wiz \<Rightarrow> 'c wiz option" where
  "WIZCHIP_WRITE spi a wb w = map_option snd (spi_frame spi (addr_bytes (a OR W5500_SPI_WRITE) @ [wb]) 0 w)"

definition WIZCHIP_READ_BUF :: "'c bus \<Rightarrow> u32 \<Rightarrow> u16 \<Rightarrow> 'c wiz \<Rightarrow> (u8 list \<times> 'c wiz) option" where
  "WIZCHIP_READ_BUF spi a len w = spi_frame spi (addr_bytes (a OR W5500_SPI_READ)) (unat len) w"

definition WIZCHIP_WRITE_BUF :: "'c bus \<Rightarrow> u32 \<Rightarrow> u8 list \<Rightarrow> u16 \<Rightarrow> 'c wiz \<Rightarrow> 'c wiz option" where
  "WIZCHIP_WRITE_BUF spi a buf len w =
     (if length buf < unat len then None
      else map_option snd (spi_frame spi (addr_bytes (a OR W5500_SPI_WRITE) @ take (unat len) buf) 0 w))"

text \<open>Two reads of a 16-bit register, most significant byte first, and two writes.\<close>

definition read16 :: "'c bus \<Rightarrow> u32 \<Rightarrow> 'c wiz \<Rightarrow> (u16 \<times> 'c wiz) option" where
  "read16 spi a w =
     do { (h, w1) \<leftarrow> WIZCHIP_READ spi a w;
          (l, w2) \<leftarrow> WIZCHIP_READ spi (WIZCHIP_OFFSET_INC a 1) w1;
          Some (push_bit 8 (ucast h) + ucast l, w2) }"

definition write16 :: "'c bus \<Rightarrow> u32 \<Rightarrow> u16 \<Rightarrow> 'c wiz \<Rightarrow> 'c wiz option" where
  "write16 spi a v w =
     do { w1 \<leftarrow> WIZCHIP_WRITE spi a (ucast (drop_bit 8 v)) w;
          WIZCHIP_WRITE spi (WIZCHIP_OFFSET_INC a 1) (ucast v) w1 }"

text \<open>A 16-bit register the chip changes is read until two readings agree; zero is believed at once if
  the reading before it, if any, was zero too.\<close>

partial_function (option) stable_read :: "'c bus \<Rightarrow> u32 \<Rightarrow> u16 \<Rightarrow> 'c wiz \<Rightarrow> (u16 \<times> 'c wiz) option" where
  "stable_read spi a val w =
     do { (val1, w1) \<leftarrow> read16 spi a w;
          (val2, w2) \<leftarrow> (if val1 \<noteq> 0 then read16 spi a w1 else Some (val, w1));
          (if val2 \<noteq> val1 then stable_read spi a val2 w2 else Some (val2, w2)) }"

definition getSn_TX_FSR :: "'c bus \<Rightarrow> nat \<Rightarrow> 'c wiz \<Rightarrow> (u16 \<times> 'c wiz) option" where
  "getSn_TX_FSR spi sn w = stable_read spi (Sn_TX_FSR sn) 0 w"

definition getSn_RX_RSR :: "'c bus \<Rightarrow> nat \<Rightarrow> 'c wiz \<Rightarrow> (u16 \<times> 'c wiz) option" where
  "getSn_RX_RSR spi sn w = stable_read spi (Sn_RX_RSR sn) 0 w"

definition getSn_TxMAX :: "'c bus \<Rightarrow> nat \<Rightarrow> 'c wiz \<Rightarrow> (u16 \<times> 'c wiz) option" where
  "getSn_TxMAX spi sn w = map_option (apfst (\<lambda>k. push_bit 10 (ucast k))) (WIZCHIP_READ spi (Sn_TXBUF_SIZE sn) w)"

definition wiz_send_data :: "'c bus \<Rightarrow> nat \<Rightarrow> u8 list \<Rightarrow> u16 \<Rightarrow> 'c wiz \<Rightarrow> 'c wiz option" where
  "wiz_send_data spi sn buf len w =
     (if len = 0 then Some w
      else do { (ptr, w1) \<leftarrow> read16 spi (Sn_TX_WR sn) w;
                w2 \<leftarrow> WIZCHIP_WRITE_BUF spi (io_addr ptr (WIZCHIP_TXBUF_BLOCK sn)) buf len w1;
                write16 spi (Sn_TX_WR sn) (ptr + len) w2 })"

definition wiz_recv_data :: "'c bus \<Rightarrow> nat \<Rightarrow> u16 \<Rightarrow> 'c wiz \<Rightarrow> (u8 list \<times> 'c wiz) option" where
  "wiz_recv_data spi sn len w =
     (if len = 0 then Some ([], w)
      else do { (ptr, w1) \<leftarrow> read16 spi (Sn_RX_RD sn) w;
                (bs, w2) \<leftarrow> WIZCHIP_READ_BUF spi (io_addr ptr (WIZCHIP_RXBUF_BLOCK sn)) len w1;
                w3 \<leftarrow> write16 spi (Sn_RX_RD sn) (ptr + len) w2;
                Some (bs, w3) })"

definition wiz_recv_ignore :: "'c bus \<Rightarrow> nat \<Rightarrow> u16 \<Rightarrow> 'c wiz \<Rightarrow> 'c wiz option" where
  "wiz_recv_ignore spi sn len w =
     do { (ptr, w1) \<leftarrow> read16 spi (Sn_RX_RD sn) w; write16 spi (Sn_RX_RD sn) (ptr + len) w1 }"

subsection \<open>The chip, as its data sheet has it\<close>

text \<open>\<open>mem c blk off\<close> is what the chip's byte \<open>off\<close> of block \<open>blk\<close> reads as. Registers of the socket block the chip
  changes by itself: command, interrupt, status, and the sizes and pointers on its side of the buffers.\<close>

definition volatile :: "u8 \<Rightarrow> u16 \<Rightarrow> bool" where
  "volatile blk off \<longleftrightarrow> blk = 1 \<and> off \<in> {0x01, 0x02, 0x03, 0x20, 0x21, 0x22, 0x23, 0x26, 0x27, 0x2A, 0x2B}"

type_synonym 'c view = "'c \<Rightarrow> u8 \<Rightarrow> u16 \<Rightarrow> u8"

definition settled :: "'c view \<Rightarrow> 'c \<Rightarrow> 'c \<Rightarrow> bool" where
  "settled mem c c' \<longleftrightarrow> (\<forall>blk off. \<not> volatile blk off \<longrightarrow> mem c' blk off = mem c blk off)"

definition overwrite :: "(u8 \<Rightarrow> u16 \<Rightarrow> u8) \<Rightarrow> u8 \<Rightarrow> u16 \<Rightarrow> u8 list \<Rightarrow> u8 \<Rightarrow> u16 \<Rightarrow> u8" where
  "overwrite m blk off bs = (\<lambda>b a. if b = blk \<and> unat (a - off) < length bs then bs ! unat (a - off) else m b a)"

definition w5500_reads :: "'c bus \<Rightarrow> 'c view \<Rightarrow> bool" where
  "w5500_reads spi mem \<longleftrightarrow> (\<forall>c off blk n. blk < 32 \<longrightarrow>
     (\<exists>c'. spi c (be16 off @ [of_nat (8 * unat blk)]) n = (map (\<lambda>i. mem c blk (off + of_nat i)) [0..<n], c') \<and> settled mem c c'))"

text \<open>Bytes written to the registers of socket 0 are stored there. Bytes written to its transmit buffer are stored
  behind the address modulo the size of the buffer, so that only a block that fits into it reads back; the size is
  \<open>Sn_TXBUF_SIZE\<close> kilobytes.\<close>

definition tx_holds :: "(u16 \<Rightarrow> u8) \<Rightarrow> u16 \<Rightarrow> u8 list \<Rightarrow> bool" where
  "tx_holds m a d \<longleftrightarrow> (\<forall>i < length d. m (a + of_nat i) = d ! i)"

definition updated :: "'c view \<Rightarrow> 'c \<Rightarrow> u8 \<Rightarrow> u16 \<Rightarrow> u8 list \<Rightarrow> 'c \<Rightarrow> bool" where
  "updated mem c blk off bs c' \<longleftrightarrow>
     (\<forall>b a. \<not> volatile b a \<and> b \<noteq> 2 \<longrightarrow> mem c' b a = overwrite (mem c) blk off bs b a)
     \<and> (blk = 2 \<and> length bs \<le> 1024 * unat (mem c 1 0x1F) \<longrightarrow> tx_holds (mem c' 2) off bs)
     \<and> (blk \<noteq> 2 \<longrightarrow> mem c' 2 = mem c 2)"

definition w5500_writes :: "'c bus \<Rightarrow> 'c view \<Rightarrow> bool" where
  "w5500_writes spi mem \<longleftrightarrow> (\<forall>c off blk bs. blk \<in> {1, 2} \<and> length bs < 65536 \<longrightarrow>
     (\<exists>c'. spi c (be16 off @ [of_nat (8 * unat blk + 4)] @ bs) 0 = ([], c') \<and> updated mem c blk off bs c'))"

text \<open>The chip finishes a transmission: \<open>pending c = Some k\<close> says that one is under way and done within
  \<open>k\<close> more frames; when it is done the command register reads zero and the interrupt register says
  sent or timed out.\<close>

definition w5500_completes :: "'c bus \<Rightarrow> 'c view \<Rightarrow> ('c \<Rightarrow> nat option) \<Rightarrow> bool" where
  "w5500_completes spi mem pending \<longleftrightarrow>
     (\<forall>c bs c'. spi c (be16 0x01 @ [12] @ [0x20]) 0 = (bs, c') \<longrightarrow> pending c' \<noteq> None)
     \<and> (\<forall>c out n bs c' k. spi c out n = (bs, c') \<and> 0 < n \<and> pending c = Some k \<longrightarrow> (\<exists>k' \<le> k - 1. pending c' = Some k'))
     \<and> (\<forall>c. pending c = Some 0 \<longrightarrow> mem c 1 0x01 = 0 \<and> mem c 1 0x02 AND 0x18 \<noteq> 0)"

lemma add_or_disjoint: "(a :: u32) AND b = 0 \<Longrightarrow> a OR b = a + b"
  by (metis add_0 word_plus_and_or)

lemma ucast_of_nat_unat: "(ucast (w :: 'a::len word) :: 'b::len word) = of_nat (unat w)"
  by (simp only: of_nat_unat)

lemma io_addr_nat: "io_addr off (ucast (blk :: u8)) = of_nat (256 * unat off + 8 * unat blk)"
  unfolding io_addr_def push_bit_eq_mult ucast_of_nat_unat by (simp add: mult.commute del: of_nat_unat)

lemma io_addr_write: "io_addr off (ucast (blk :: u8)) OR W5500_SPI_WRITE = of_nat (256 * unat off + 8 * unat blk + 4)"
proof -
  have "io_addr off (ucast blk) = push_bit 3 (push_bit 5 (ucast off) + ucast blk)"
    by (simp add: io_addr_def push_bit_eq_mult algebra_simps)
  moreover have "push_bit 3 z AND (4 :: u32) = 0" for z
  proof -
    have "push_bit 3 z AND push_bit 2 (1 :: u32) = 0" by (rule bit_word_eqI) (auto simp: bit_simps simp del: push_bit_of_1)
    then show ?thesis by simp
  qed
  ultimately have "io_addr off (ucast blk) OR 4 = io_addr off (ucast blk) + 4" by (simp add: add_or_disjoint)
  then show ?thesis by (simp add: W5500_SPI_WRITE_def io_addr_nat)
qed

lemma byte_masks:
  "ucast (drop_bit 16 ((a :: u32) AND 0x00FF0000)) = (ucast (drop_bit 16 a) :: u8)"
  "ucast (drop_bit 8 (a AND 0x0000FF00)) = (ucast (drop_bit 8 a) :: u8)"
  "ucast (a AND 0x000000FF) = (ucast a :: u8)"
proof -
  have "bit (ucast (drop_bit 16 (a AND 0x00FF0000)) :: u8) k = bit (ucast (drop_bit 16 a) :: u8) k
      \<and> bit (ucast (drop_bit 8 (a AND 0x0000FF00)) :: u8) k = bit (ucast (drop_bit 8 a) :: u8) k
      \<and> bit (ucast (a AND 0x000000FF) :: u8) k = bit (ucast a :: u8) k" if "k < 8" for k
  proof -
    have "k = 0 \<or> k = 1 \<or> k = 2 \<or> k = 3 \<or> k = 4 \<or> k = 5 \<or> k = 6 \<or> k = 7" using that by linarith
    then show ?thesis by (elim disjE) (simp_all add: bit_simps)
  qed
  then show "ucast (drop_bit 16 (a AND 0x00FF0000)) = (ucast (drop_bit 16 a) :: u8)"
    "ucast (drop_bit 8 (a AND 0x0000FF00)) = (ucast (drop_bit 8 a) :: u8)" "ucast (a AND 0x000000FF) = (ucast a :: u8)"
    by (auto intro!: bit_word_eqI)
qed

lemma byte_of_nat:
  assumes "n < 2 ^ 32"
  shows "(ucast (drop_bit j (of_nat n :: u32)) :: u8) = of_nat (n div 2 ^ j)"
proof -
  have "unat (of_nat n :: u32) = n" using assms by (intro unat_of_nat_small) simp
  then show ?thesis
    by (simp add: word_unat_eq_iff unsigned_ucast_eq unsigned_take_bit_eq take_bit_eq_mod unat_drop_bit_eq drop_bit_eq_div [where 'a = nat] unsigned_of_nat)
qed

lemma addr_bytes_nat:
  assumes "n < 2 ^ 32"
  shows "addr_bytes (of_nat n) = [of_nat (n div 65536), of_nat (n div 256), of_nat n]"
  using byte_of_nat [OF assms, of 16] byte_of_nat [OF assms, of 8] byte_of_nat [OF assms, of 0]
  unfolding addr_bytes_def byte_masks by simp

lemma be16_nat: "be16 off = [of_nat (unat off div 256), of_nat (unat off)]"
  by (simp add: be16_def word_unat_eq_iff unsigned_ucast_eq unsigned_take_bit_eq take_bit_eq_mod unat_drop_bit_eq drop_bit_eq_div [where 'a = nat] unsigned_of_nat)

lemma addr_bytes_io:
  assumes "blk < (32 :: u8)" "rw < 8"
  shows "addr_bytes (of_nat (256 * unat off + 8 * unat blk + rw)) = be16 off @ [of_nat (8 * unat blk + rw)]"
proof -
  have "unat blk < 32" using assms(1) by (simp add: word_less_nat_alt)
  then have l: "8 * unat blk + rw < 256" using assms(2) by linarith
  have "unat off < 2 ^ LENGTH(16)" by (rule unsigned_less)
  then have n: "256 * unat off + (8 * unat blk + rw) < 2 ^ 32" using l by simp
  have d: "(256 * unat off + (8 * unat blk + rw)) div 256 = unat off" using l by simp
  moreover have "(256 * unat off + (8 * unat blk + rw)) div 65536 = unat off div 256"
    using d div_mult2_eq [of "256 * unat off + (8 * unat blk + rw)" 256 256] by simp
  moreover have "(of_nat (256 * unat off + (8 * unat blk + rw)) :: u8) = of_nat (8 * unat blk + rw)"
  proof -
    have "(of_nat (256 * unat off) :: u8) = 0" 
      by (simp add: word_unat_eq_iff unsigned_of_nat take_bit_eq_mod del: of_nat_mult)
    then show ?thesis by (simp only: of_nat_add add_0)
  qed
  ultimately show ?thesis using addr_bytes_nat [OF n] by (simp only: add.assoc be16_nat) simp
qed

subsection \<open>Register and buffer accesses\<close>

lemma spi_frame_run:
  "\<not> spin_lock w \<Longrightarrow> spi (chip w) out n = (bs, c) \<Longrightarrow> spi_frame spi out n w = Some (bs, w\<lparr>chip := c\<rparr>)"
  by (cases w) (simp add: spi_frame_def wizchip_critical_section_lock_def wizchip_critical_section_unlock_def)

lemma read_header: "blk < (32 :: u8) \<Longrightarrow> addr_bytes (io_addr off (ucast blk) OR W5500_SPI_READ) = be16 off @ [of_nat (8 * unat blk)]"
  using addr_bytes_io [of blk 0 off] by (simp only: W5500_SPI_READ_def or.right_neutral io_addr_nat add_0_right)

lemma write_header: "blk < (32 :: u8) \<Longrightarrow> addr_bytes (io_addr off (ucast blk) OR W5500_SPI_WRITE) = be16 off @ [of_nat (8 * unat blk + 4)]"
  using addr_bytes_io [of blk 4 off] by (simp only: io_addr_write)

lemma WIZCHIP_READ_run:
  assumes "w5500_reads spi mem" "blk < 32" "\<not> spin_lock w"
  shows "\<exists>c. WIZCHIP_READ spi (io_addr off (ucast blk)) w = Some (mem (chip w) blk off, w\<lparr>chip := c\<rparr>) \<and> settled mem (chip w) c"
proof -
  obtain c where "spi (chip w) (be16 off @ [of_nat (8 * unat blk)]) 1 = ([mem (chip w) blk off], c)" "settled mem (chip w) c"
    using assms(1) [unfolded w5500_reads_def, rule_format, OF assms(2), where c = "chip w" and off = off and n = 1] by auto
  then show ?thesis using spi_frame_run [OF assms(3)] by (auto simp: WIZCHIP_READ_def read_header [OF assms(2)] nth_byte_def)
qed

lemma WIZCHIP_READ_BUF_run:
  assumes "w5500_reads spi mem" "blk < 32" "\<not> spin_lock w"
  shows "\<exists>c. WIZCHIP_READ_BUF spi (io_addr off (ucast blk)) len w
      = Some (map (\<lambda>i. mem (chip w) blk (off + of_nat i)) [0..<unat len], w\<lparr>chip := c\<rparr>) \<and> settled mem (chip w) c"
proof -
  obtain c where "spi (chip w) (be16 off @ [of_nat (8 * unat blk)]) (unat len) = (map (\<lambda>i. mem (chip w) blk (off + of_nat i)) [0..<unat len], c)"
    "settled mem (chip w) c"
    using assms(1,2) unfolding w5500_reads_def by blast
  then show ?thesis using spi_frame_run [OF assms(3)] by (auto simp: WIZCHIP_READ_BUF_def read_header [OF assms(2)])
qed

lemma write_run:
  assumes "w5500_writes spi mem" "blk \<in> {1, 2}" "length bs < 65536"
  shows "\<exists>c'. spi c (be16 off @ [of_nat (8 * unat blk + 4)] @ bs) 0 = ([], c') \<and> updated mem c blk off bs c'"
  using assms unfolding w5500_writes_def by blast

lemma socket_blocks: "blk \<in> {1, 2} \<Longrightarrow> blk < (32 :: u8)"
  by auto

lemma WIZCHIP_WRITE_run:
  assumes "w5500_writes spi mem" "blk \<in> {1, 2}" "\<not> spin_lock w"
  shows "\<exists>c. WIZCHIP_WRITE spi (io_addr off (ucast blk)) b w = Some (w\<lparr>chip := c\<rparr>) \<and> updated mem (chip w) blk off [b] c
    \<and> spi (chip w) (be16 off @ [of_nat (8 * unat blk + 4)] @ [b]) 0 = ([], c)"
  using write_run [OF assms(1,2), of "[b]" "chip w" off] spi_frame_run [OF assms(3)]
  by (fastforce simp: WIZCHIP_WRITE_def write_header [OF socket_blocks [OF assms(2)]])

lemma WIZCHIP_WRITE_BUF_run:
  assumes "w5500_writes spi mem" "blk \<in> {1, 2}" "\<not> spin_lock w" "unat len \<le> length buf"
  shows "\<exists>c. WIZCHIP_WRITE_BUF spi (io_addr off (ucast blk)) buf len w = Some (w\<lparr>chip := c\<rparr>)
    \<and> updated mem (chip w) blk off (take (unat len) buf) c"
proof -
  have "unat len < 65536" using unsigned_less [of len] by simp
  then show ?thesis
    using write_run [OF assms(1,2), of "take (unat len) buf" "chip w" off] spi_frame_run [OF assms(3)] assms(4)
    by (fastforce simp: WIZCHIP_WRITE_BUF_def write_header [OF socket_blocks [OF assms(2)]])
qed

lemma offset_inc: "1 + off \<noteq> 0 \<Longrightarrow> WIZCHIP_OFFSET_INC (io_addr off (ucast (blk :: u8))) 1 = io_addr (1 + off) (ucast blk)"
  unfolding WIZCHIP_OFFSET_INC_def io_addr_nat by (simp add: unatSuc push_bit_eq_mult)

lemma word16_value: "push_bit 8 (ucast h) + ucast l = un_be16 h l"
proof -
  have "push_bit 8 (ucast h) AND (ucast l :: u16) = 0"
    by (rule bit_word_eqI) (auto simp: bit_simps dest: bit_byte_high)
  then have "push_bit 8 (ucast h) OR (ucast l :: u16) = push_bit 8 (ucast h) + ucast l" by (metis add_0 word_plus_and_or)
  then show ?thesis by (simp add: un_be16_def un_le16_def or.commute)
qed

definition word_at :: "'c view \<Rightarrow> 'c \<Rightarrow> u8 \<Rightarrow> u16 \<Rightarrow> u16" where
  "word_at mem c blk off = un_be16 (mem c blk off) (mem c blk (1 + off))"

lemma read16_run:
  assumes "w5500_reads spi mem" "blk < 32" "\<not> spin_lock w" "1 + off \<noteq> 0" "\<not> volatile blk (1 + off)"
  shows "\<exists>c. read16 spi (io_addr off (ucast blk)) w = Some (word_at mem (chip w) blk off, w\<lparr>chip := c\<rparr>) \<and> settled mem (chip w) c"
proof -
  obtain c1 where c1: "WIZCHIP_READ spi (io_addr off (ucast blk)) w = Some (mem (chip w) blk off, w\<lparr>chip := c1\<rparr>)" "settled mem (chip w) c1"
    using WIZCHIP_READ_run [OF assms(1-3)] by blast
  obtain c2 where c2: "WIZCHIP_READ spi (io_addr (1 + off) (ucast blk)) (w\<lparr>chip := c1\<rparr>) = Some (mem c1 blk (1 + off), w\<lparr>chip := c2\<rparr>)"
      "settled mem c1 c2"
    using WIZCHIP_READ_run [OF assms(1,2), of "w\<lparr>chip := c1\<rparr>"] assms(3) by fastforce
  have "mem c1 blk (1 + off) = mem (chip w) blk (1 + off)" using c1(2) assms(5) by (simp add: settled_def)
  moreover have "settled mem (chip w) c2" using c1(2) c2(2) by (simp add: settled_def)
  ultimately show ?thesis using c1(1) c2(1) offset_inc [OF assms(4), of blk]
    by (intro exI [of _ c2]) (simp add: read16_def word_at_def word16_value)
qed

lemma overwrite_cong: "m b a = m' b a \<Longrightarrow> overwrite m blk off bs b a = overwrite m' blk off bs b a"
  by (simp add: overwrite_def)

lemma overwrite_two:
  assumes "1 + off \<noteq> 0"
  shows "overwrite (overwrite m blk off [x]) blk (1 + off) [y] = overwrite m blk off [x, y]"
proof (intro ext)
  fix b a
  have s: "a - (1 + off) = 0 \<longleftrightarrow> a - off = 1" by (auto simp: algebra_simps)
  have u0: "unat (a - off) = 0 \<longleftrightarrow> a - off = 0" "unat (a - off) = Suc 0 \<longleftrightarrow> a - off = 1" for a
    by (metis unat_eq_zero) (metis One_nat_def unat_1 word_unat_eq_iff)
  have "a - (1 + off) = 0 \<longleftrightarrow> unat (a - (1 + off)) < 1" by (simp add: unat_eq_zero)
  then show "overwrite (overwrite m blk off [x]) blk (1 + off) [y] b a = overwrite m blk off [x, y] b a"
    using s u0 by (auto simp: overwrite_def less_Suc_eq)
qed

lemma write16_run:
  assumes "w5500_writes spi mem" "blk = 1" "\<not> spin_lock w" "1 + off \<noteq> 0"
  shows "\<exists>c. write16 spi (io_addr off (ucast blk)) v w = Some (w\<lparr>chip := c\<rparr>) \<and> updated mem (chip w) blk off (be16 v) c"
proof -
  have b: "blk \<in> {1, 2}" using assms(2) by simp
  obtain c1 where c1: "WIZCHIP_WRITE spi (io_addr off (ucast blk)) (ucast (drop_bit 8 v)) w = Some (w\<lparr>chip := c1\<rparr>)"
      "updated mem (chip w) blk off [ucast (drop_bit 8 v)] c1"
    using WIZCHIP_WRITE_run [OF assms(1) b assms(3)] by blast
  obtain c2 where c2: "WIZCHIP_WRITE spi (io_addr (1 + off) (ucast blk)) (ucast v) (w\<lparr>chip := c1\<rparr>) = Some (w\<lparr>chip := c2\<rparr>)"
      "updated mem c1 blk (1 + off) [ucast v] c2"
    using WIZCHIP_WRITE_run [OF assms(1) b, of "w\<lparr>chip := c1\<rparr>"] assms(3) by fastforce
  have "mem c2 b a = overwrite (mem (chip w)) blk off (be16 v) b a" if nv: "\<not> volatile b a" "b \<noteq> 2" for b a
  proof -
    have "overwrite (mem c1) blk (1 + off) [ucast v] b a = overwrite (overwrite (mem (chip w)) blk off [ucast (drop_bit 8 v)]) blk (1 + off) [ucast v] b a"
      using c1(2) nv by (intro overwrite_cong) (simp add: updated_def)
    then show ?thesis using c2(2) nv overwrite_two [OF assms(4)] by (simp add: updated_def be16_def)
  qed
  then have "updated mem (chip w) blk off (be16 v) c2" using c1(2) c2(2) assms(2) by (simp add: updated_def)
  then show ?thesis using c1(1) c2(1) offset_inc [OF assms(4), of blk] by (intro exI [of _ c2]) (simp add: write16_def)
qed

subsection \<open>The receive and transmit pointers\<close>

definition rx_ptr :: "'c view \<Rightarrow> 'c \<Rightarrow> u16" where "rx_ptr mem c = word_at mem c 1 0x28"
definition tx_ptr :: "'c view \<Rightarrow> 'c \<Rightarrow> u16" where "tx_ptr mem c = word_at mem c 1 0x24"

text \<open>A view of the receive side, and of the transmit side, that the chip leaves alone.\<close>

definition rx_view :: "'c view \<Rightarrow> 'c \<Rightarrow> u16 \<times> (u16 \<Rightarrow> u8)" where "rx_view mem c = (rx_ptr mem c, mem c 3)"
definition tx_view :: "'c view \<Rightarrow> 'c \<Rightarrow> u16 \<times> (u16 \<Rightarrow> u8)" where "tx_view mem c = (tx_ptr mem c, mem c 2)"

lemmas wiz_views = rx_view_def tx_view_def rx_ptr_def tx_ptr_def word_at_def

lemma volatile_buffers [simp]: "\<not> volatile 2 a" "\<not> volatile 3 a" "\<not> volatile 1 0x28" "\<not> volatile 1 0x29" "\<not> volatile 1 0x24" "\<not> volatile 1 0x25"
  by (simp_all add: volatile_def)

lemma settled_views: "settled mem c c' \<Longrightarrow> rx_view mem c' = rx_view mem c \<and> tx_view mem c' = tx_view mem c"
  by (simp add: settled_def wiz_views fun_eq_iff)

lemma settled_trans: "settled mem a b \<Longrightarrow> settled mem b c \<Longrightarrow> settled mem a c"
  by (simp add: settled_def)

lemma reg_blocks [simp]: "WIZCHIP_SREG_BLOCK 0 = ucast (1 :: u8)" "WIZCHIP_TXBUF_BLOCK 0 = ucast (2 :: u8)" "WIZCHIP_RXBUF_BLOCK 0 = ucast (3 :: u8)"
  by (simp_all add: WIZCHIP_SREG_BLOCK_def WIZCHIP_TXBUF_BLOCK_def WIZCHIP_RXBUF_BLOCK_def)

lemma be16_nth: "be16 v ! 0 = ucast (drop_bit 8 v)" "be16 v ! 1 = ucast v" "be16 v ! Suc 0 = ucast v"
  by (simp_all add: be16_def)

lemma updated_rx_rd: "updated mem c 1 0x28 (be16 v) c' \<Longrightarrow> rx_view mem c' = (v, mem c 3) \<and> tx_view mem c' = tx_view mem c"
  by (simp add: updated_def wiz_views overwrite_def fun_eq_iff be16_nth un_be16_be16)

lemma updated_tx_wr: "updated mem c 1 0x24 (be16 v) c' \<Longrightarrow> tx_view mem c' = (v, mem c 2) \<and> rx_view mem c' = rx_view mem c"
  by (simp add: updated_def wiz_views overwrite_def fun_eq_iff be16_nth un_be16_be16)

lemma updated_cr: "updated mem c 1 0x01 [b] c' \<Longrightarrow> rx_view mem c' = rx_view mem c \<and> tx_view mem c' = tx_view mem c"
  "updated mem c 1 0x02 [b] c' \<Longrightarrow> rx_view mem c' = rx_view mem c \<and> tx_view mem c' = tx_view mem c"
  by (simp_all add: updated_def wiz_views overwrite_def fun_eq_iff)

lemma wiz_recv_data_run:
  assumes "w5500_reads spi mem" "w5500_writes spi mem" "\<not> spin_lock w" "rx_view mem (chip w) = (rd, m)"
  shows "\<exists>c. wiz_recv_data spi 0 len w = Some (map (\<lambda>i. m (rd + of_nat i)) [0..<unat len], w\<lparr>chip := c\<rparr>)
    \<and> rx_view mem c = (rd + len, m)"
proof (cases "len = 0")
  case True
  then show ?thesis using assms(4) by (auto simp: wiz_recv_data_def intro!: exI [of _ "chip w"])
next
  case False
  obtain c1 where c1: "read16 spi (Sn_RX_RD 0) w = Some (rd, w\<lparr>chip := c1\<rparr>)" "settled mem (chip w) c1"
    using read16_run [OF assms(1) _ assms(3), where blk = 1 and off = "0x28"] assms(4) by (auto simp: Sn_RX_RD_def wiz_views)
  have m1: "mem c1 3 = m" using settled_views [OF c1(2)] assms(4) by (simp add: rx_view_def)
  obtain c2 where c2: "WIZCHIP_READ_BUF spi (io_addr rd (WIZCHIP_RXBUF_BLOCK 0)) len (w\<lparr>chip := c1\<rparr>)
      = Some (map (\<lambda>i. m (rd + of_nat i)) [0..<unat len], w\<lparr>chip := c2\<rparr>)" "settled mem c1 c2"
    using WIZCHIP_READ_BUF_run [OF assms(1), where blk = 3 and w = "w\<lparr>chip := c1\<rparr>" and off = rd and len = len] assms(3) m1 by auto
  obtain c3 where c3: "write16 spi (Sn_RX_RD 0) (rd + len) (w\<lparr>chip := c2\<rparr>) = Some (w\<lparr>chip := c3\<rparr>)"
      "updated mem c2 1 0x28 (be16 (rd + len)) c3"
    using write16_run [OF assms(2), where blk = 1 and w = "w\<lparr>chip := c2\<rparr>" and off = "0x28" and v = "rd + len"] assms(3) by (auto simp: Sn_RX_RD_def)
  have "rx_view mem c3 = (rd + len, m)"
    using updated_rx_rd [OF c3(2)] settled_views [OF c2(2)] m1 by (simp add: rx_view_def)
  then show ?thesis using False c1(1) c2(1) c3(1) by (auto simp: wiz_recv_data_def)
qed

lemma wiz_recv_ignore_run:
  assumes "w5500_reads spi mem" "w5500_writes spi mem" "\<not> spin_lock w" "rx_view mem (chip w) = (rd, m)"
  shows "\<exists>c. wiz_recv_ignore spi 0 len w = Some (w\<lparr>chip := c\<rparr>) \<and> rx_view mem c = (rd + len, m)"
proof -
  obtain c1 where c1: "read16 spi (Sn_RX_RD 0) w = Some (rd, w\<lparr>chip := c1\<rparr>)" "settled mem (chip w) c1"
    using read16_run [OF assms(1) _ assms(3), where blk = 1 and off = "0x28"] assms(4) by (auto simp: Sn_RX_RD_def wiz_views)
  obtain c3 where c3: "write16 spi (Sn_RX_RD 0) (rd + len) (w\<lparr>chip := c1\<rparr>) = Some (w\<lparr>chip := c3\<rparr>)"
      "updated mem c1 1 0x28 (be16 (rd + len)) c3"
    using write16_run [OF assms(2), where blk = 1 and w = "w\<lparr>chip := c1\<rparr>" and off = "0x28" and v = "rd + len"] assms(3) by (auto simp: Sn_RX_RD_def)
  have "rx_view mem c3 = (rd + len, m)"
    using updated_rx_rd [OF c3(2)] settled_views [OF c1(2)] assms(4) by (simp add: rx_view_def)
  then show ?thesis using c1(1) c3(1) by (auto simp: wiz_recv_ignore_def)
qed

text \<open>Data written for transmission.\<close>

lemma wiz_send_data_run:
  assumes "w5500_reads spi mem" "w5500_writes spi mem" "\<not> spin_lock w" "tx_ptr mem (chip w) = wr" "unat len \<le> length buf"
    and "unat len \<le> 1024 * unat (mem (chip w) 1 0x1F)"
  shows "\<exists>c m. wiz_send_data spi 0 buf len w = Some (w\<lparr>chip := c\<rparr>) \<and> tx_view mem c = (wr + len, m) \<and> tx_holds m wr (take (unat len) buf)"
proof (cases "len = 0")
  case True
  then show ?thesis using assms(4) by (auto simp: wiz_send_data_def tx_holds_def tx_view_def intro!: exI [of _ "chip w"])
next
  case False
  obtain c1 where c1: "read16 spi (Sn_TX_WR 0) w = Some (wr, w\<lparr>chip := c1\<rparr>)" "settled mem (chip w) c1"
    using read16_run [OF assms(1) _ assms(3), where blk = 1 and off = "0x24"] assms(4) by (auto simp: Sn_TX_WR_def wiz_views)
  obtain c2 where c2: "WIZCHIP_WRITE_BUF spi (io_addr wr (WIZCHIP_TXBUF_BLOCK 0)) buf len (w\<lparr>chip := c1\<rparr>) = Some (w\<lparr>chip := c2\<rparr>)"
      "updated mem c1 2 wr (take (unat len) buf) c2"
    using WIZCHIP_WRITE_BUF_run [OF assms(2), where blk = 2 and w = "w\<lparr>chip := c1\<rparr>" and off = wr and len = len and buf = buf] assms(3,5) by auto
  obtain c3 where c3: "write16 spi (Sn_TX_WR 0) (wr + len) (w\<lparr>chip := c2\<rparr>) = Some (w\<lparr>chip := c3\<rparr>)"
      "updated mem c2 1 0x24 (be16 (wr + len)) c3"
    using write16_run [OF assms(2), where blk = 1 and w = "w\<lparr>chip := c2\<rparr>" and off = "0x24" and v = "wr + len"] assms(3) by (auto simp: Sn_TX_WR_def)
  have "mem c1 1 0x1F = mem (chip w) 1 0x1F" using c1(2) by (simp add: settled_def volatile_def)
  then have "tx_holds (mem c2 2) wr (take (unat len) buf)" using c2(2) assms(5,6) by (simp add: updated_def)
  then show ?thesis using False c1(1) c2(1) c3(1) updated_tx_wr [OF c3(2)] by (auto simp: wiz_send_data_def)
qed

text \<open>The received size while no frame arrives between the readings.\<close>

definition w5500_quiet :: "'c bus \<Rightarrow> 'c view \<Rightarrow> bool" where
  "w5500_quiet spi mem \<longleftrightarrow> (\<forall>c out n bs c'. spi c out n = (bs, c') \<and> 0 < n \<longrightarrow> mem c' 1 0x26 = mem c 1 0x26 \<and> mem c' 1 0x27 = mem c 1 0x27)"

lemma WIZCHIP_READ_frame:
  "WIZCHIP_READ spi a w = Some (b, w') \<Longrightarrow> \<exists>out bs. spi (chip w) out 1 = (bs, chip w') \<and> \<not> spin_lock w'"
  by (fastforce simp: WIZCHIP_READ_def spi_frame_def wizchip_critical_section_lock_def wizchip_critical_section_unlock_def
    split: prod.splits if_splits)

lemma quiet_read:
  "w5500_quiet spi mem \<Longrightarrow> WIZCHIP_READ spi a w = Some (b, w') \<Longrightarrow> mem (chip w') 1 0x26 = mem (chip w) 1 0x26 \<and> mem (chip w') 1 0x27 = mem (chip w) 1 0x27"
  using WIZCHIP_READ_frame unfolding w5500_quiet_def by (metis zero_less_one)

lemma read16_rsr:
  assumes "w5500_reads spi mem" "w5500_quiet spi mem" "\<not> spin_lock w"
  shows "\<exists>c. read16 spi (Sn_RX_RSR 0) w = Some (word_at mem (chip w) 1 0x26, w\<lparr>chip := c\<rparr>) \<and> settled mem (chip w) c
    \<and> word_at mem c 1 0x26 = word_at mem (chip w) 1 0x26"
proof -
  obtain c1 where c1: "WIZCHIP_READ spi (io_addr 0x26 (ucast (1 :: u8))) w = Some (mem (chip w) 1 0x26, w\<lparr>chip := c1\<rparr>)" "settled mem (chip w) c1"
    using WIZCHIP_READ_run [OF assms(1) _ assms(3), where blk = 1] by fastforce
  obtain c2 where c2: "WIZCHIP_READ spi (io_addr 0x27 (ucast (1 :: u8))) (w\<lparr>chip := c1\<rparr>) = Some (mem c1 1 0x27, w\<lparr>chip := c2\<rparr>)" "settled mem c1 c2"
    using WIZCHIP_READ_run [OF assms(1), where blk = 1 and w = "w\<lparr>chip := c1\<rparr>"] assms(3) by fastforce
  have q: "mem c1 1 0x26 = mem (chip w) 1 0x26" "mem c1 1 0x27 = mem (chip w) 1 0x27" "mem c2 1 0x26 = mem c1 1 0x26" "mem c2 1 0x27 = mem c1 1 0x27"
    using quiet_read [OF assms(2) c1(1)] quiet_read [OF assms(2) c2(1)] by simp_all
  have "WIZCHIP_OFFSET_INC (io_addr 0x26 (ucast (1 :: u8))) 1 = io_addr 0x27 (ucast (1 :: u8))"
    using offset_inc [where off = "0x26" and blk = 1] by simp
  then have "read16 spi (Sn_RX_RSR 0) w = Some (un_be16 (mem (chip w) 1 0x26) (mem c1 1 0x27), w\<lparr>chip := c2\<rparr>)"
    using c1(1) c2(1) by (simp add: read16_def Sn_RX_RSR_def word16_value del: ucast_1)
  then show ?thesis using q settled_trans [OF c1(2) c2(2)] by (intro exI [of _ c2]) (simp add: word_at_def)
qed

lemma getSn_RX_RSR_run:
  assumes "w5500_reads spi mem" "w5500_quiet spi mem" "\<not> spin_lock w"
  shows "\<exists>c. getSn_RX_RSR spi 0 w = Some (word_at mem (chip w) 1 0x26, w\<lparr>chip := c\<rparr>) \<and> settled mem (chip w) c
    \<and> word_at mem c 1 0x26 = word_at mem (chip w) 1 0x26"
proof -
  obtain c1 where c1: "read16 spi (Sn_RX_RSR 0) w = Some (word_at mem (chip w) 1 0x26, w\<lparr>chip := c1\<rparr>)" "settled mem (chip w) c1"
      "word_at mem c1 1 0x26 = word_at mem (chip w) 1 0x26"
    using read16_rsr [OF assms] by blast
  obtain c2 where c2: "read16 spi (Sn_RX_RSR 0) (w\<lparr>chip := c1\<rparr>) = Some (word_at mem c1 1 0x26, w\<lparr>chip := c2\<rparr>)" "settled mem c1 c2"
      "word_at mem c2 1 0x26 = word_at mem c1 1 0x26"
    using read16_rsr [OF assms(1,2), of "w\<lparr>chip := c1\<rparr>"] assms(3) by fastforce
  show ?thesis
  proof (cases "word_at mem (chip w) 1 0x26 = 0")
    case True
    then show ?thesis using c1 by (auto simp: getSn_RX_RSR_def stable_read.simps [of spi "Sn_RX_RSR 0" 0 w])
  next
    case False
    then show ?thesis using c1 c2 settled_trans [OF c1(2) c2(2)]
      by (auto simp: getSn_RX_RSR_def stable_read.simps [of spi "Sn_RX_RSR 0" 0 w])
  qed
qed

lemma WIZCHIP_WRITE_CR_run:
  assumes "w5500_writes spi mem" "\<not> spin_lock w"
  shows "\<exists>c. WIZCHIP_WRITE spi (Sn_CR 0) b w = Some (w\<lparr>chip := c\<rparr>) \<and> rx_view mem c = rx_view mem (chip w) \<and> tx_view mem c = tx_view mem (chip w)
    \<and> spi (chip w) (be16 0x01 @ [12] @ [b]) 0 = ([], c)"
proof -
  have i: "Sn_CR 0 = io_addr 0x01 (ucast (1 :: u8))" by (simp add: Sn_CR_def)
  obtain c where "WIZCHIP_WRITE spi (io_addr 0x01 (ucast (1 :: u8))) b w = Some (w\<lparr>chip := c\<rparr>)" "updated mem (chip w) 1 0x01 [b] c"
    "spi (chip w) (be16 0x01 @ [of_nat (8 * unat (1 :: u8) + 4)] @ [b]) 0 = ([], c)"
    using WIZCHIP_WRITE_run [OF assms(1) _ assms(2), where blk = 1 and off = "0x01" and b = b] by auto
  then show ?thesis using updated_cr(1) unfolding i by fastforce
qed

end
