(* ===== verification/WizLwip.thy ===== *)
theory WizLwip
  imports Wiz5500
begin

unbundle bit_operations_syntax

text \<open>
  Ethernet frames between the chip and the network stack (\<open>Src/w5x00_lwip.c\<close>, and \<open>EthernetTasks\<close> of
  \<open>Src/remora.cpp\<close>). A received frame sits in the chip's buffer behind its length (plus 2, most
  significant byte first). The network stack, the heap and the packet buffers are parameters: what
  \<open>EthernetTasks\<close> does here is to hand over at most one frame.
\<close>

definition ETHERNET_MTU :: nat where "ETHERNET_MTU = 1500"
definition Sn_CR_SEND :: u8 where "Sn_CR_SEND = 0x20"
definition Sn_CR_RECV :: u8 where "Sn_CR_RECV = 0x40"
definition Sn_IR_SENDOK :: u8 where "Sn_IR_SENDOK = 0x10"
definition Sn_IR_TIMEOUT :: u8 where "Sn_IR_TIMEOUT = 0x08"

subsection \<open>Sending\<close>

partial_function (option) wait_cr :: "'c bus \<Rightarrow> nat \<Rightarrow> 'c wiz \<Rightarrow> 'c wiz option" where
  "wait_cr spi sn w = do { (b, w1) \<leftarrow> WIZCHIP_READ spi (Sn_CR sn) w; (if b \<noteq> 0 then wait_cr spi sn w1 else Some w1) }"

partial_function (option) wait_ir :: "'c bus \<Rightarrow> nat \<Rightarrow> 'c wiz \<Rightarrow> (bool \<times> 'c wiz) option" where
  "wait_ir spi sn w =
     do { (b, w1) \<leftarrow> WIZCHIP_READ spi (Sn_IR sn) w;
          (if b AND 0x1F AND Sn_IR_SENDOK \<noteq> 0 then map_option (Pair True) (WIZCHIP_WRITE spi (Sn_IR sn) (Sn_IR_SENDOK AND 0x1F) w1)
           else if b AND 0x1F AND Sn_IR_TIMEOUT \<noteq> 0 then map_option (Pair False) (WIZCHIP_WRITE spi (Sn_IR sn) (Sn_IR_TIMEOUT AND 0x1F) w1)
           else wait_ir spi sn w1) }"

definition send_lwip :: "'c bus \<Rightarrow> nat \<Rightarrow> u8 list \<Rightarrow> u16 \<Rightarrow> 'c wiz \<Rightarrow> (int \<times> 'c wiz) option" where
  "send_lwip spi sn buf len0 w =
     do { (_, w1) \<leftarrow> WIZCHIP_READ spi (Sn_SR sn) w;
          (freesize, w2) \<leftarrow> getSn_TxMAX spi sn w1;
          let len = (if len0 > freesize then freesize else len0);
          w3 \<leftarrow> wiz_send_data spi sn buf len w2;
          w4 \<leftarrow> WIZCHIP_WRITE spi (Sn_CR sn) Sn_CR_SEND w3;
          w5 \<leftarrow> wait_cr spi sn w4;
          (sent, w6) \<leftarrow> wait_ir spi sn w5;
          Some (if sent then uint len else - 1, w6) }"

text \<open>A packet buffer chain: the payload of each and the total length from it on.\<close>

type_synonym pbuf_chain = "(u8 list \<times> nat) list"

fun gather :: "pbuf_chain \<Rightarrow> u8 list \<Rightarrow> nat \<Rightarrow> (u8 list \<times> nat) option" where
  "gather [] frame tot_len = Some (frame, tot_len)"
| "gather ((payload, tot) # qs) frame tot_len =
     do { frame' \<leftarrow> blit_checked frame tot_len payload;
          (if length payload = tot then Some (frame', tot_len + length payload) else gather qs frame' (tot_len + length payload)) }"

definition netif_output :: "'c bus \<Rightarrow> pbuf_chain \<Rightarrow> 'c wiz \<Rightarrow> 'c wiz option" where
  "netif_output spi p w =
     do { (tx_frame, n) \<leftarrow> gather p (replicate 1542 0) 0;
          let tot_len = (if n < 60 then 60 else n);
          (_, w1) \<leftarrow> send_lwip spi 0 tx_frame (of_nat tot_len) w;
          Some w1 }"

subsection \<open>Receiving\<close>

definition recv_lwip :: "'c bus \<Rightarrow> nat \<Rightarrow> u8 list \<Rightarrow> u16 \<Rightarrow> 'c wiz \<Rightarrow> (int \<times> u8 list \<times> 'c wiz) option" where
  "recv_lwip spi sn buf len w =
     do { (n, w1) \<leftarrow> getSn_RX_RSR spi sn w;
          (if n > 0 then
             do { (head, w2) \<leftarrow> wiz_recv_data spi sn 2 w1;
                  w3 \<leftarrow> WIZCHIP_WRITE spi (Sn_CR sn) Sn_CR_RECV w2;
                  let pack_len = push_bit 8 (ucast (head ! 0)) + ucast (head ! 1) - 2;
                  (if pack_len > len then
                     do { w4 \<leftarrow> wiz_recv_ignore spi sn pack_len w3;
                          w5 \<leftarrow> WIZCHIP_WRITE spi (Sn_CR sn) Sn_CR_RECV w4;
                          Some (0, buf, w5) }
                   else
                     do { (bs, w4) \<leftarrow> wiz_recv_data spi sn pack_len w3;
                          buf' \<leftarrow> blit_checked buf 0 bs;
                          w5 \<leftarrow> WIZCHIP_WRITE spi (Sn_CR sn) Sn_CR_RECV w4;
                          Some (uint pack_len, buf', w5) }) }
           else Some (uint n, buf, w1)) }"

text \<open>\<open>pack\<close> is the heap buffer of \<open>ETHERNET_MTU\<close> bytes, replaced by a new one (\<open>fresh\<close>) after each frame. The network stack
  has the state \<open>'s\<close>: \<open>input_frame\<close> is \<open>g_netif.input\<close> on a frame (with the copy into a packet buffer, if one is free),
  \<open>check_timeouts\<close> is \<open>sys_check_timeouts\<close>; either may send frames of its own.\<close>

type_synonym ('s, 'c) stack_call = "'s \<Rightarrow> 'c wiz \<Rightarrow> ('s \<times> 'c wiz) option"

definition EthernetTasks ::
  "'c bus \<Rightarrow> (u8 list \<Rightarrow> ('s, 'c) stack_call) \<Rightarrow> ('s, 'c) stack_call \<Rightarrow> bool \<Rightarrow> u8 list \<Rightarrow> u8 list \<Rightarrow> 's \<Rightarrow> 'c wiz
    \<Rightarrow> ('s \<times> u8 list \<times> 'c wiz) option" where
  "EthernetTasks spi input_frame check_timeouts pbuf_ok fresh pack s w =
     do { (n, w1) \<leftarrow> getSn_RX_RSR spi 0 w;
          (if n > 0 then
             do { (r, pack', w2) \<leftarrow> recv_lwip spi 0 pack n w1;
                  let pack_len = (word_of_int r :: u16);
                  (s3, w3) \<leftarrow> (if pack_len \<noteq> 0 \<and> pbuf_ok then input_frame (take (unat pack_len) pack') s w2 else Some (s, w2));
                  (s4, w4) \<leftarrow> check_timeouts s3 w3;
                  Some (s4, if pack_len \<noteq> 0 then fresh else pack', w4) }
           else Some (s, pack, w1)) }"

subsection \<open>A received frame\<close>

text \<open>The chip's buffer holds a record at its read pointer.\<close>

definition rx_record :: "'c view \<Rightarrow> 'c \<Rightarrow> u16 \<Rightarrow> u8 list \<Rightarrow> bool" where
  "rx_record mem c rd frame \<longleftrightarrow> rx_ptr mem c = rd \<and> tx_holds (mem c 3) rd (be16 (of_nat (length frame + 2)) @ frame)"

lemma tx_holds_append: "tx_holds m a (d @ e) \<longleftrightarrow> tx_holds m a d \<and> tx_holds m (a + of_nat (length d)) e"
  using bytes_at_append [of "\<lambda>i. m (a + of_nat i)" d e] by (simp add: tx_holds_def bytes_at_def add.assoc)

lemma tx_holds_read: "tx_holds m a d \<Longrightarrow> map (\<lambda>i. m (a + of_nat i)) [0..<length d] = d"
  by (intro nth_equalityI) (simp_all add: tx_holds_def)

lemma recv_lwip_head:
  assumes "w5500_reads spi mem" "w5500_writes spi mem" "w5500_quiet spi mem" "\<not> spin_lock w"
    and "rx_view mem (chip w) = (rd, m)" "word_at mem (chip w) 1 0x26 = n" "n \<noteq> 0"
  shows "\<exists>c1 c2 c3. getSn_RX_RSR spi 0 w = Some (n, w\<lparr>chip := c1\<rparr>)
    \<and> wiz_recv_data spi 0 2 (w\<lparr>chip := c1\<rparr>) = Some ([m rd, m (rd + 1)], w\<lparr>chip := c2\<rparr>)
    \<and> WIZCHIP_WRITE spi (Sn_CR 0) Sn_CR_RECV (w\<lparr>chip := c2\<rparr>) = Some (w\<lparr>chip := c3\<rparr>)
    \<and> rx_view mem c3 = (rd + 2, m)"
proof -
  obtain c1 where c1: "getSn_RX_RSR spi 0 w = Some (n, w\<lparr>chip := c1\<rparr>)" "settled mem (chip w) c1"
    using getSn_RX_RSR_run [OF assms(1,3,4)] assms(6) by blast
  have v1: "rx_view mem c1 = (rd, m)" using settled_views [OF c1(2)] assms(5) by simp
  obtain c2 where c2: "wiz_recv_data spi 0 2 (w\<lparr>chip := c1\<rparr>) = Some ([m rd, m (rd + 1)], w\<lparr>chip := c2\<rparr>)" "rx_view mem c2 = (rd + 2, m)"
    using wiz_recv_data_run [OF assms(1,2), of "w\<lparr>chip := c1\<rparr>" rd m 2] assms(4) v1 by (auto simp: upt_rec)
  obtain c3 where "WIZCHIP_WRITE spi (Sn_CR 0) Sn_CR_RECV (w\<lparr>chip := c2\<rparr>) = Some (w\<lparr>chip := c3\<rparr>)" "rx_view mem c3 = (rd + 2, m)"
    using WIZCHIP_WRITE_CR_run [OF assms(2), of "w\<lparr>chip := c2\<rparr>" Sn_CR_RECV] assms(4) c2(2) by auto
  then show ?thesis using c1(1) c2(1) by blast
qed

lemma pack_len_of_head: "push_bit 8 (ucast h) + ucast l - 2 = un_be16 h l - 2"
  by (simp only: word16_value)

lemma be16_head: "be16 v = [h, l] \<Longrightarrow> un_be16 h l = v"
  using un_be16_be16 [of v] by (simp add: be16_def)

lemma rx_record_head:
  assumes "rx_record mem c rd frame"
  shows "\<exists>m. rx_view mem c = (rd, m) \<and> un_be16 (m rd) (m (rd + 1)) = of_nat (length frame + 2) \<and> tx_holds m (rd + 2) frame"
proof -
  have "tx_holds (mem c 3) rd (be16 (of_nat (length frame + 2)))" "tx_holds (mem c 3) (rd + 2) frame"
    using assms by (simp_all add: rx_record_def tx_holds_append)
  then have "mem c 3 rd = be16 (of_nat (length frame + 2)) ! 0" "mem c 3 (rd + 1) = be16 (of_nat (length frame + 2)) ! 1"
    by (auto simp: tx_holds_def dest: spec [of _ 0] spec [of _ 1])
  then have "un_be16 (mem c 3 rd) (mem c 3 (rd + 1)) = of_nat (length frame + 2)" by (simp add: be16_def un_be16_be16)
  then show ?thesis using assms \<open>tx_holds (mem c 3) (rd + 2) frame\<close> by (auto simp: rx_record_def rx_view_def)
qed

text \<open>What \<open>recv_lwip\<close> does with the length in front of the frame.\<close>

lemma recv_lwip_run:
  assumes "w5500_reads spi mem" "w5500_writes spi mem" "w5500_quiet spi mem" "\<not> spin_lock w"
    and "rx_view mem (chip w) = (rd, m)" "word_at mem (chip w) 1 0x26 = n" "n \<noteq> 0"
    and "pl = un_be16 (m rd) (m (rd + 1)) - 2"
  shows "pl \<le> len \<Longrightarrow> \<exists>c. rx_view mem c = (rd + 2 + pl, m) \<and> recv_lwip spi 0 buf len w =
      (if unat pl \<le> length buf then Some (uint pl, blit buf 0 (map (\<lambda>i. m (rd + 2 + of_nat i)) [0..<unat pl]), w\<lparr>chip := c\<rparr>) else None)"
    and "len < pl \<Longrightarrow> \<exists>c. rx_view mem c = (rd + 2 + pl, m) \<and> recv_lwip spi 0 buf len w = Some (0, buf, w\<lparr>chip := c\<rparr>)"
proof -
  obtain c1 c2 c3 where h: "getSn_RX_RSR spi 0 w = Some (n, w\<lparr>chip := c1\<rparr>)"
      "wiz_recv_data spi 0 2 (w\<lparr>chip := c1\<rparr>) = Some ([m rd, m (rd + 1)], w\<lparr>chip := c2\<rparr>)"
      "WIZCHIP_WRITE spi (Sn_CR 0) Sn_CR_RECV (w\<lparr>chip := c2\<rparr>) = Some (w\<lparr>chip := c3\<rparr>)" "rx_view mem c3 = (rd + 2, m)"
    using recv_lwip_head [OF assms(1-7)] by blast
  have pl: "push_bit 8 (ucast (m rd)) + ucast (m (rd + 1)) - 2 = pl" using assms(8) by (simp only: word16_value)
  have n: "0 < n" using assms(7) by (simp add: word_gt_0)
  show "\<exists>c. rx_view mem c = (rd + 2 + pl, m) \<and> recv_lwip spi 0 buf len w =
      (if unat pl \<le> length buf then Some (uint pl, blit buf 0 (map (\<lambda>i. m (rd + 2 + of_nat i)) [0..<unat pl]), w\<lparr>chip := c\<rparr>) else None)"
    if "pl \<le> len"
  proof -
    obtain c4 where c4: "wiz_recv_data spi 0 pl (w\<lparr>chip := c3\<rparr>) = Some (map (\<lambda>i. m (rd + 2 + of_nat i)) [0..<unat pl], w\<lparr>chip := c4\<rparr>)"
        "rx_view mem c4 = (rd + 2 + pl, m)"
      using wiz_recv_data_run [OF assms(1,2), of "w\<lparr>chip := c3\<rparr>" "rd + 2" m pl] assms(4) h(4) by auto
    obtain c5 where "WIZCHIP_WRITE spi (Sn_CR 0) Sn_CR_RECV (w\<lparr>chip := c4\<rparr>) = Some (w\<lparr>chip := c5\<rparr>)" "rx_view mem c5 = (rd + 2 + pl, m)"
      using WIZCHIP_WRITE_CR_run [OF assms(2), of "w\<lparr>chip := c4\<rparr>" Sn_CR_RECV] assms(4) c4(2) by auto
    then show ?thesis using h leD [OF that] n c4(1) pl
      by (intro exI [of _ c5]) (simp add: recv_lwip_def blit_checked_def)
  qed
  show "\<exists>c. rx_view mem c = (rd + 2 + pl, m) \<and> recv_lwip spi 0 buf len w = Some (0, buf, w\<lparr>chip := c\<rparr>)" if "len < pl"
  proof -
    obtain c4 where c4: "wiz_recv_ignore spi 0 pl (w\<lparr>chip := c3\<rparr>) = Some (w\<lparr>chip := c4\<rparr>)" "rx_view mem c4 = (rd + 2 + pl, m)"
      using wiz_recv_ignore_run [OF assms(1,2), of "w\<lparr>chip := c3\<rparr>" "rd + 2" m pl] assms(4) h(4) by auto
    obtain c5 where "WIZCHIP_WRITE spi (Sn_CR 0) Sn_CR_RECV (w\<lparr>chip := c4\<rparr>) = Some (w\<lparr>chip := c5\<rparr>)" "rx_view mem c5 = (rd + 2 + pl, m)"
      using WIZCHIP_WRITE_CR_run [OF assms(2), of "w\<lparr>chip := c4\<rparr>" Sn_CR_RECV] assms(4) c4(2) by auto
    then show ?thesis using h that n c4(1) pl
      by (intro exI [of _ c5]) (simp add: recv_lwip_def)
  qed
qed

text \<open>What \<open>EthernetTasks\<close> does with it.\<close>

lemma EthernetTasks_run:
  assumes "w5500_reads spi mem" "w5500_writes spi mem" "w5500_quiet spi mem" "\<not> spin_lock w"
    and "rx_view mem (chip w) = (rd, m)" "word_at mem (chip w) 1 0x26 = n" "n \<noteq> 0"
    and "pl = un_be16 (m rd) (m (rd + 1)) - 2"
  shows "pl \<le> n \<Longrightarrow> \<exists>c. rx_view mem c = (rd + 2 + pl, m) \<and> EthernetTasks spi inp tmo ok fresh pack s w =
      (if unat pl \<le> length pack
       then do { (s3, w3) \<leftarrow> (if pl \<noteq> 0 \<and> ok then inp (map (\<lambda>i. m (rd + 2 + of_nat i)) [0..<unat pl]) s (w\<lparr>chip := c\<rparr>) else Some (s, w\<lparr>chip := c\<rparr>));
                 (s4, w4) \<leftarrow> tmo s3 w3;
                 Some (s4, if pl \<noteq> 0 then fresh else pack, w4) }
       else None)"
    and "n < pl \<Longrightarrow> \<exists>c. rx_view mem c = (rd + 2 + pl, m)
      \<and> EthernetTasks spi inp tmo ok fresh pack s w = do { (s4, w4) \<leftarrow> tmo s (w\<lparr>chip := c\<rparr>); Some (s4, pack, w4) }"
proof -
  obtain c1 where c1: "getSn_RX_RSR spi 0 w = Some (n, w\<lparr>chip := c1\<rparr>)" "settled mem (chip w) c1" "word_at mem c1 1 0x26 = n"
    using getSn_RX_RSR_run [OF assms(1,3,4)] assms(6) by blast
  have v1: "rx_view mem c1 = (rd, m)" using settled_views [OF c1(2)] assms(5) by simp
  have r: "word_of_int (uint pl) = pl" by simp
  have n: "0 < n" using assms(7) by (simp add: word_gt_0)
  have w1: "\<not> spin_lock (w\<lparr>chip := c1\<rparr>)" "rx_view mem (chip (w\<lparr>chip := c1\<rparr>)) = (rd, m)" "word_at mem (chip (w\<lparr>chip := c1\<rparr>)) 1 0x26 = n"
    using assms(4) v1 c1(3) by simp_all
  note run = recv_lwip_run [OF assms(1-3) w1 assms(7,8), of n pack]
  show "\<exists>c. rx_view mem c = (rd + 2 + pl, m) \<and> EthernetTasks spi inp tmo ok fresh pack s w =
      (if unat pl \<le> length pack
       then do { (s3, w3) \<leftarrow> (if pl \<noteq> 0 \<and> ok then inp (map (\<lambda>i. m (rd + 2 + of_nat i)) [0..<unat pl]) s (w\<lparr>chip := c\<rparr>) else Some (s, w\<lparr>chip := c\<rparr>));
                 (s4, w4) \<leftarrow> tmo s3 w3;
                 Some (s4, if pl \<noteq> 0 then fresh else pack, w4) }
       else None)" if le: "pl \<le> n"
  proof -
    obtain c where c: "rx_view mem c = (rd + 2 + pl, m)" "recv_lwip spi 0 pack n (w\<lparr>chip := c1\<rparr>) =
        (if unat pl \<le> length pack then Some (uint pl, blit pack 0 (map (\<lambda>i. m (rd + 2 + of_nat i)) [0..<unat pl]), w\<lparr>chip := c\<rparr>) else None)"
      using run(1) [OF le] by auto
    have "blit pack 0 [] = pack" by (simp add: blit_def)
    then show ?thesis using c c1(1) n r by (intro exI [of _ c]) (auto simp: EthernetTasks_def blit_def)
  qed
  show "\<exists>c. rx_view mem c = (rd + 2 + pl, m) \<and> EthernetTasks spi inp tmo ok fresh pack s w = do { (s4, w4) \<leftarrow> tmo s (w\<lparr>chip := c\<rparr>); Some (s4, pack, w4) }"
    if "n < pl"
    using run(2) [OF that] c1(1) n by (auto simp: EthernetTasks_def)
qed

text \<open>A chip that is its memory: reads leave it alone, the command to send is done at once.\<close>

definition mem_chip :: "(u8 \<Rightarrow> u16 \<Rightarrow> u8) bus" where
  "mem_chip c out n =
     (let off = un_be16 (out ! 0) (out ! 1); blk = drop_bit 3 (out ! 2); c' = overwrite c blk off (drop 3 out) in
      if 0 < n then (map (\<lambda>i. c blk (off + of_nat i)) [0..<n], c)
      else ([], if out = [0, 1, 12, 0x20] then c'(1 := (c' 1)(0x01 := 0, 0x02 := 0x10)) else c'))"

lemma mem_chip_header:
  assumes "blk < (32 :: u8)" "r < 8"
  shows "drop_bit 3 (of_nat (8 * unat blk + r) :: u8) = blk"
proof -
  have "unat blk < 32" using assms(1) by (simp add: word_less_nat_alt)
  then have "unat (of_nat (8 * unat blk + r) :: u8) = 8 * unat blk + r" using assms(2) by (intro unat_of_nat_small) simp
  then have "unat (drop_bit 3 (of_nat (8 * unat blk + r) :: u8)) = (8 * unat blk + r) div 8"
    unfolding unat_drop_bit_eq by (simp only: drop_bit_eq_div) simp
  also have "\<dots> = unat blk" using assms(2) by simp
  finally show ?thesis by (simp only: word_unat_eq_iff)
qed

lemma mem_chip_frame:
  assumes "blk < (32 :: u8)" "r < 8"
  shows "mem_chip c (be16 off @ [of_nat (8 * unat blk + r)] @ bs) n =
     (if 0 < n then (map (\<lambda>i. c blk (off + of_nat i)) [0..<n], c)
      else ([], if be16 off @ [of_nat (8 * unat blk + r)] @ bs = [0, 1, 12, 0x20]
                then (overwrite c blk off bs)(1 := (overwrite c blk off bs 1)(0x01 := 0, 0x02 := 0x10)) else overwrite c blk off bs))"
  using mem_chip_header [OF assms] by (simp add: mem_chip_def be16_def un_be16_be16 Let_def numeral_2_eq_2 numeral_3_eq_3)

lemma mem_chip_reads: "w5500_reads mem_chip (\<lambda>c. c)"
proof -
  have "\<exists>c'. mem_chip c (be16 off @ [of_nat (8 * unat blk)]) n = (map (\<lambda>i. c blk (off + of_nat i)) [0..<n], c') \<and> settled (\<lambda>c. c) c c'"
    if "blk < 32" for c off blk n
    using mem_chip_frame [OF that, of 0 c off "[]" n] by (auto simp: settled_def overwrite_def be16_def)
  then show ?thesis by (simp add: w5500_reads_def)
qed

lemma mem_chip_writes: "w5500_writes mem_chip (\<lambda>c. c)"
proof -
  have "\<exists>c'. mem_chip c (be16 off @ [of_nat (8 * unat blk + 4)] @ bs) 0 = ([], c') \<and> updated (\<lambda>c. c) c blk off bs c'"
    if "blk \<in> {1, 2}" "length bs < 65536" for c off blk and bs :: "u8 list"
  proof -
    have "tx_holds (overwrite c blk off bs blk) off bs" using that(2) by (auto simp: tx_holds_def overwrite_def unat_of_nat_small)
    moreover have "blk \<noteq> 2 \<Longrightarrow> overwrite c blk off bs 2 = c 2" by (auto simp: overwrite_def)
    ultimately show ?thesis using mem_chip_frame [OF socket_blocks [OF that(1)], of 4 c off bs 0]
      by (auto simp: updated_def volatile_def)
  qed
  then show ?thesis by (simp add: w5500_writes_def)
qed

lemma mem_chip_quiet: "w5500_quiet mem_chip (\<lambda>c. c)"
  by (auto simp: w5500_quiet_def mem_chip_def Let_def)

definition mem_chip_pending :: "(u8 \<Rightarrow> u16 \<Rightarrow> u8) \<Rightarrow> nat option" where
  "mem_chip_pending c = (if c 1 0x01 = 0 \<and> c 1 0x02 AND 0x18 \<noteq> 0 then Some 0 else None)"

lemma mem_chip_completes: "w5500_completes mem_chip (\<lambda>c. c) mem_chip_pending"
proof -
  have "mem_chip c (be16 0x01 @ [12] @ [0x20]) 0 = (bs, c') \<Longrightarrow> mem_chip_pending c' \<noteq> None" for c bs c'
    by (auto simp: mem_chip_def mem_chip_pending_def be16_def Let_def)
  moreover have "mem_chip c out n = (bs, c') \<Longrightarrow> 0 < n \<Longrightarrow> c' = c" for c out n bs c' 
    by (auto simp: mem_chip_def Let_def)
  ultimately show ?thesis by (fastforce simp: w5500_completes_def mem_chip_pending_def split: if_splits)
qed

lemmas mem_chip_facts = mem_chip_reads mem_chip_writes mem_chip_quiet mem_chip_completes

text \<open>A chip with \<open>n\<close> bytes received that start with \<open>bs\<close>, and a transmit buffer of 2 kilobytes.\<close>

definition chip_with :: "u16 \<Rightarrow> u8 list \<Rightarrow> u8 \<Rightarrow> u16 \<Rightarrow> u8" where
  "chip_with n bs = (\<lambda>b a. if b = 3 then nth_byte bs (unat a)
     else if b = 1 \<and> a = 0x26 then ucast (drop_bit 8 n) else if b = 1 \<and> a = 0x27 then ucast n else if b = 1 \<and> a = 0x1F then 2 else 0)"

lemma chip_with_facts:
  "word_at (\<lambda>c. c) (chip_with n bs) 1 0x26 = n" "rx_ptr (\<lambda>c. c) (chip_with n bs) = 0"
  "length bs < 65536 \<Longrightarrow> tx_holds (chip_with n bs 3) 0 bs"
  by (auto simp: word_at_def chip_with_def rx_ptr_def un_be16_be16 tx_holds_def nth_byte_def unat_of_nat_small) (simp add: un_be16_def un_le16_def)

text \<open>C4: A frame of up to 1500 bytes that the chip has received in full, behind its length, is handed to the network stack byte for
  byte (unless no packet buffer is free), then the timers of the stack are checked; the read pointer of the chip is behind the
  frame when the stack sees it, and the heap buffer is then a new one.\<close>

theorem ethernet_frame_received:
  assumes "w5500_reads spi mem" "w5500_writes spi mem" "w5500_quiet spi mem" "\<not> spin_lock w"
    and "rx_record mem (chip w) rd frame" "word_at mem (chip w) 1 0x26 = n" "length frame + 2 \<le> unat n"
    and "frame \<noteq> []" "length frame \<le> ETHERNET_MTU" "length pack = ETHERNET_MTU"
  shows "\<exists>c. EthernetTasks spi input_frame check_timeouts pbuf_ok fresh pack s w
      = do { (s3, w3) \<leftarrow> (if pbuf_ok then input_frame frame s (w\<lparr>chip := c\<rparr>) else Some (s, w\<lparr>chip := c\<rparr>));
             (s4, w4) \<leftarrow> check_timeouts s3 w3;
             Some (s4, fresh, w4) }
    \<and> rx_ptr mem c = rd + of_nat (length frame + 2) \<and> mem c 3 = mem (chip w) 3"
proof -
  obtain m where m: "rx_view mem (chip w) = (rd, m)" "un_be16 (m rd) (m (rd + 1)) = of_nat (length frame + 2)" "tx_holds m (rd + 2) frame"
    using rx_record_head [OF assms(5)] by blast
  have pl: "(of_nat (length frame) :: u16) = un_be16 (m rd) (m (rd + 1)) - 2" by (simp add: m(2))
  have u: "unat (of_nat (length frame) :: u16) = length frame"
    using assms(9) by (intro unat_of_nat_small) (simp add: ETHERNET_MTU_def)
  have le: "(of_nat (length frame) :: u16) \<le> n" using assms(7) by (simp add: word_le_nat_alt u del: of_nat_unat)
  have n0: "n \<noteq> 0" using assms(7) by auto
  have nz: "(of_nat (length frame) :: u16) \<noteq> 0" using u assms(8) by (metis length_0_conv unat_0)
  show ?thesis
    using EthernetTasks_run(1) [OF assms(1-4) m(1) assms(6) n0 pl le, of input_frame check_timeouts pbuf_ok fresh pack s]
      tx_holds_read [OF m(3)] m(1) u nz assms(9,10)
    by (auto simp: rx_view_def add.assoc add.commute [of 2])
qed

theorem ethernet_frame_received_witness:
  "\<exists>c. EthernetTasks mem_chip (\<lambda>f s w. Some (s @ [f], w)) (\<lambda>s w. Some (s, w)) True [] (replicate 1500 0) []
        \<lparr>chip = chip_with 5 [0, 5, 7, 8, 9], spin_lock = False\<rparr>
      = Some ([[7, 8, 9]], [], \<lparr>chip = c, spin_lock = False\<rparr>) \<and> rx_ptr (\<lambda>c. c) c = 5"
proof -
  have "rx_record (\<lambda>c. c) (chip_with 5 [0, 5, 7, 8, 9]) 0 [7, 8, 9]"
    using chip_with_facts(2) [where n = 5 and bs = "[0, 5, 7, 8, 9]"] chip_with_facts(3) [where n = 5 and bs = "[0, 5, 7, 8, 9]"]
    by (simp add: rx_record_def be16_def)
  then show ?thesis
    using ethernet_frame_received [OF mem_chip_facts(1-3), where w = "\<lparr>chip = chip_with 5 [0, 5, 7, 8, 9], spin_lock = False\<rparr>"
        and rd = 0 and frame = "[7, 8, 9]" and n = 5 and pack = "replicate 1500 0" and pbuf_ok = True and fresh = "[]"
        and input_frame = "\<lambda>f s w. Some (s @ [f], w)" and check_timeouts = "\<lambda>s w. Some (s, w)" and s = "[]"]
    by (fastforce simp: chip_with_facts(1) ETHERNET_MTU_def)
qed

text \<open>C40: The size of the heap buffer is not part of the check: \<open>recv_lwip\<close> is given the number of bytes the chip has received, so a
  frame of more than 1500 bytes (a tagged one, say) is copied past the end of the buffer.\<close>

theorem ethernet_large_frame_overruns:
  assumes "w5500_reads spi mem" "w5500_writes spi mem" "w5500_quiet spi mem" "\<not> spin_lock w"
    and "rx_record mem (chip w) rd frame" "word_at mem (chip w) 1 0x26 = n" "length frame + 2 \<le> unat n"
    and "ETHERNET_MTU < length frame" "length pack = ETHERNET_MTU"
  shows "EthernetTasks spi input_frame check_timeouts pbuf_ok fresh pack s w = None"
proof -
  obtain m where m: "rx_view mem (chip w) = (rd, m)" "un_be16 (m rd) (m (rd + 1)) = of_nat (length frame + 2)" "tx_holds m (rd + 2) frame"
    using rx_record_head [OF assms(5)] by blast
  have pl: "(of_nat (length frame) :: u16) = un_be16 (m rd) (m (rd + 1)) - 2" by (simp add: m(2))
  have "unat n < 65536" using unsigned_less [of n] by simp
  then have u: "unat (of_nat (length frame) :: u16) = length frame" using assms(7) by (intro unat_of_nat_small) simp
  have le: "(of_nat (length frame) :: u16) \<le> n" using assms(7) by (simp add: word_le_nat_alt u del: of_nat_unat)
  have n0: "n \<noteq> 0" using assms(7) by auto
  show ?thesis
    using EthernetTasks_run(1) [OF assms(1-4) m(1) assms(6) n0 pl le, of input_frame check_timeouts pbuf_ok fresh pack s] u assms(8,9) by auto
qed

theorem ethernet_large_frame_overruns_witness:
  "EthernetTasks mem_chip (\<lambda>f s w. Some (s @ [f], w)) (\<lambda>s w. Some (s, w)) True [] (replicate 1500 0) []
     \<lparr>chip = chip_with 0x5DF (0x05 # 0xDF # replicate 1501 0), spin_lock = False\<rparr> = None"
proof -
  have be: "be16 0x5DF = [0x05, 0xDF]" by (simp add: be16_def)
  have "rx_record (\<lambda>c. c) (chip_with 0x5DF (0x05 # 0xDF # replicate 1501 0)) 0 (replicate 1501 0)"
    using chip_with_facts(2) [where n = "0x5DF" and bs = "0x05 # 0xDF # replicate 1501 0"]
      chip_with_facts(3) [where n = "0x5DF" and bs = "0x05 # 0xDF # replicate 1501 0"] be by (simp add: rx_record_def)
  then show ?thesis
    using ethernet_large_frame_overruns [OF mem_chip_facts(1-3), where w = "\<lparr>chip = chip_with 0x5DF (0x05 # 0xDF # replicate 1501 0), spin_lock = False\<rparr>"
        and rd = 0 and frame = "replicate 1501 0" and n = "0x5DF" and pack = "replicate 1500 0"]
    by (simp add: chip_with_facts(1) ETHERNET_MTU_def)
qed

text \<open>A length field of 0 wraps around to 65534, and dropping that many bytes moves the read pointer once around, back to
  where it was: the driver never gets past such a record.\<close>

theorem ethernet_short_record_stays:
  assumes "w5500_reads spi mem" "w5500_writes spi mem" "w5500_quiet spi mem" "\<not> spin_lock w"
    and "rx_ptr mem (chip w) = rd" "word_at mem (chip w) 1 0x26 = n" "0 < n" "n < 65534"
    and "mem (chip w) 3 rd = 0" "mem (chip w) 3 (rd + 1) = 0"
  shows "\<exists>c. EthernetTasks spi input_frame check_timeouts pbuf_ok fresh pack s w = do { (s4, w4) \<leftarrow> check_timeouts s (w\<lparr>chip := c\<rparr>); Some (s4, pack, w4) }
    \<and> rx_ptr mem c = rd \<and> mem c 3 = mem (chip w) 3"
proof -
  have v: "rx_view mem (chip w) = (rd, mem (chip w) 3)" using assms(5) by (simp add: rx_view_def)
  have pl: "(65534 :: u16) = un_be16 (mem (chip w) 3 rd) (mem (chip w) 3 (rd + 1)) - 2"
    using assms(9,10) by (simp add: un_be16_def un_le16_def)
  have n0: "n \<noteq> 0" using assms(7) by auto
  have "rd + 2 + 65534 = rd" by (simp add: add.assoc)
  then show ?thesis
    using EthernetTasks_run(2) [OF assms(1-4) v assms(6) n0 pl assms(8), of input_frame check_timeouts pbuf_ok fresh pack s] by (auto simp: rx_view_def)
qed

text \<open>While no frame arrives, a round of \<open>EthernetTasks\<close> leaves the whole network stack as it is: its timers are not
  checked either, so ARP entries do not age and nothing is sent again until some frame comes in.\<close>

theorem timers_wait_for_frames:
  assumes "w5500_reads spi mem" "w5500_quiet spi mem" "\<not> spin_lock w" "word_at mem (chip w) 1 0x26 = 0"
  shows "\<exists>c. EthernetTasks spi input_frame check_timeouts pbuf_ok fresh pack s w = Some (s, pack, w\<lparr>chip := c\<rparr>) \<and> settled mem (chip w) c"
  using getSn_RX_RSR_run [OF assms(1-3)] assms(4) by (auto simp: EthernetTasks_def)

theorem timers_wait_for_frames_witness:
  "\<exists>c. EthernetTasks mem_chip (\<lambda>f s w. None) (\<lambda>s w. None) True [] [] () \<lparr>chip = chip_with 0 [], spin_lock = False\<rparr>
      = Some ((), [], \<lparr>chip = c, spin_lock = False\<rparr>)"
  using timers_wait_for_frames [OF mem_chip_facts(1,3), where w = "\<lparr>chip = chip_with 0 [], spin_lock = False\<rparr>" and pbuf_ok = True
      and input_frame = "\<lambda>f s w. None" and check_timeouts = "\<lambda>s w. None" and fresh = "[]" and pack = "[]" and s = "()"]
  by (auto simp: chip_with_facts(1))

subsection \<open>A frame sent\<close>

lemma completes_read:
  assumes "w5500_completes spi mem pending" "pending (chip w) = Some k" "WIZCHIP_READ spi a w = Some (b, w')"
  shows "\<exists>k' \<le> k - 1. pending (chip w') = Some k'"
  using WIZCHIP_READ_frame [OF assms(3)] assms(1,2) unfolding w5500_completes_def by (metis zero_less_one)

lemma completes_busy:
  assumes "w5500_completes spi mem pending" "pending c = Some k" "mem c 1 0x01 \<noteq> 0 \<or> mem c 1 0x02 AND 0x18 = 0"
  shows "k \<noteq> 0"
  using assms unfolding w5500_completes_def by metis

lemma socket_reg: "Sn_CR 0 = io_addr 0x01 (ucast (1 :: u8))" "Sn_IR 0 = io_addr 0x02 (ucast (1 :: u8))"
  "Sn_SR 0 = io_addr 0x03 (ucast (1 :: u8))" "Sn_TXBUF_SIZE 0 = io_addr 0x1F (ucast (1 :: u8))"
  by (simp_all add: wiz_regs)

text \<open>Both polls end while the chip works on its command.\<close>

lemma wait_cr_run:
  assumes "w5500_reads spi mem" "w5500_completes spi mem pending"
  shows "\<not> spin_lock w \<Longrightarrow> pending (chip w) = Some k \<Longrightarrow>
    \<exists>c k'. wait_cr spi 0 w = Some (w\<lparr>chip := c\<rparr>) \<and> settled mem (chip w) c \<and> pending c = Some k'"
proof (induction k arbitrary: w rule: less_induct)
  case (less k)
  obtain c1 where c1: "WIZCHIP_READ spi (Sn_CR 0) w = Some (mem (chip w) 1 0x01, w\<lparr>chip := c1\<rparr>)" "settled mem (chip w) c1"
    using WIZCHIP_READ_run [OF assms(1) _ less.prems(1), where blk = 1] by (fastforce simp: socket_reg)
  obtain k1 where k1: "k1 \<le> k - 1" "pending c1 = Some k1" using completes_read [OF assms(2) less.prems(2) c1(1)] by auto
  show ?case
  proof (cases "mem (chip w) 1 0x01 = 0")
    case True
    then show ?thesis using c1 k1 by (auto simp: wait_cr.simps [of spi 0 w])
  next
    case False
    then have "k \<noteq> 0" using completes_busy [OF assms(2) less.prems(2)] by simp
    then have "k1 < k" using k1(1) by linarith
    then obtain c k' where c: "wait_cr spi 0 (w\<lparr>chip := c1\<rparr>) = Some (w\<lparr>chip := c1, chip := c\<rparr>)" "settled mem c1 c" "pending c = Some k'"
      using less.IH [of k1 "w\<lparr>chip := c1\<rparr>"] less.prems(1) k1(2) by auto
    then show ?thesis using False c1(1) settled_trans [OF c1(2) c(2)] by (auto simp: wait_cr.simps [of spi 0 w])
  qed
qed

lemma ir_flags: "(b :: u8) AND 0x18 \<noteq> 0 \<longleftrightarrow> b AND 0x1F AND Sn_IR_SENDOK \<noteq> 0 \<or> b AND 0x1F AND Sn_IR_TIMEOUT \<noteq> 0"
proof -
  have "b AND 0x18 = (b AND 0x1F AND 0x10) OR (b AND 0x1F AND 0x08)"
    by (simp add: and.assoc flip: bit.conj_disj_distrib)
  then show ?thesis by (simp add: Sn_IR_SENDOK_def Sn_IR_TIMEOUT_def or_eq_0_iff)
qed

lemma wait_ir_run:
  assumes "w5500_reads spi mem" "w5500_writes spi mem" "w5500_completes spi mem pending"
  shows "\<not> spin_lock w \<Longrightarrow> pending (chip w) = Some k \<Longrightarrow>
    \<exists>r c. wait_ir spi 0 w = Some (r, w\<lparr>chip := c\<rparr>) \<and> tx_view mem c = tx_view mem (chip w)"
proof (induction k arbitrary: w rule: less_induct)
  case (less k)
  obtain c1 where c1: "WIZCHIP_READ spi (Sn_IR 0) w = Some (mem (chip w) 1 0x02, w\<lparr>chip := c1\<rparr>)" "settled mem (chip w) c1"
    using WIZCHIP_READ_run [OF assms(1) _ less.prems(1), where blk = 1] by (fastforce simp: socket_reg)
  obtain k1 where k1: "k1 \<le> k - 1" "pending c1 = Some k1" using completes_read [OF assms(3) less.prems(2) c1(1)] by auto
  have "\<exists>c. WIZCHIP_WRITE spi (Sn_IR 0) x (w\<lparr>chip := c1\<rparr>) = Some (w\<lparr>chip := c\<rparr>) \<and> tx_view mem c = tx_view mem (chip w)" for x
    using WIZCHIP_WRITE_run [OF assms(2), where blk = 1 and w = "w\<lparr>chip := c1\<rparr>" and off = "0x02" and b = x] less.prems(1) updated_cr(2) settled_views [OF c1(2)]
    by (fastforce simp: socket_reg)
  then obtain cs where cs: "WIZCHIP_WRITE spi (Sn_IR 0) x (w\<lparr>chip := c1\<rparr>) = Some (w\<lparr>chip := cs x\<rparr>)" "tx_view mem (cs x) = tx_view mem (chip w)" for x
    by metis
  show ?case
  proof (cases "mem (chip w) 1 0x02 AND 0x18 = 0")
    case True
    then have "k \<noteq> 0" using completes_busy [OF assms(3) less.prems(2)] by simp
    then have "k1 < k" using k1(1) by linarith
    then obtain r c where c: "wait_ir spi 0 (w\<lparr>chip := c1\<rparr>) = Some (r, w\<lparr>chip := c1, chip := c\<rparr>)" "tx_view mem c = tx_view mem c1"
      using less.IH [of k1 "w\<lparr>chip := c1\<rparr>"] less.prems(1) k1(2) by auto
    then show ?thesis using True c1(1) settled_views [OF c1(2)] ir_flags [of "mem (chip w) 1 0x02"] by (auto simp: wait_ir.simps [of spi 0 w])
  next
    case False
    then show ?thesis using c1(1) cs ir_flags [of "mem (chip w) 1 0x02"] by (auto simp: wait_ir.simps [of spi 0 w])
  qed
qed

lemma send_lwip_run:
  assumes "w5500_reads spi mem" "w5500_writes spi mem" "w5500_completes spi mem pending" "\<not> spin_lock w" "tx_ptr mem (chip w) = wr"
    and "mem (chip w) 1 0x1F = k" "unat k < 64" "unat len \<le> 1024 * unat k" "unat len \<le> length buf"
  shows "\<exists>r c m. send_lwip spi 0 buf len w = Some (r, w\<lparr>chip := c\<rparr>) \<and> tx_view mem c = (wr + len, m) \<and> tx_holds m wr (take (unat len) buf)"
proof -
  obtain c1 where c1: "WIZCHIP_READ spi (Sn_SR 0) w = Some (mem (chip w) 1 0x03, w\<lparr>chip := c1\<rparr>)" "settled mem (chip w) c1"
    using WIZCHIP_READ_run [OF assms(1) _ assms(4), where blk = 1] by (fastforce simp: socket_reg)
  have k1: "mem c1 1 0x1F = k" using c1(2) assms(6) by (simp add: settled_def volatile_def)
  obtain c2 where c2: "WIZCHIP_READ spi (Sn_TXBUF_SIZE 0) (w\<lparr>chip := c1\<rparr>) = Some (k, w\<lparr>chip := c2\<rparr>)" "settled mem c1 c2"
    using WIZCHIP_READ_run [OF assms(1), where blk = 1 and w = "w\<lparr>chip := c1\<rparr>" and off = "0x1F"] assms(4) k1 by (fastforce simp: socket_reg)
  have k2: "mem c2 1 0x1F = k" using c2(2) k1 by (simp add: settled_def volatile_def)
  have "push_bit 10 (ucast k :: u16) = of_nat (1024 * unat k)" by (simp add: push_bit_eq_mult mult.commute)
  then have max: "\<not> push_bit 10 (ucast k :: u16) < len" using assms(7,8)
    by (simp add: word_less_nat_alt unat_of_nat_small del: of_nat_unat of_nat_mult)
  have t2: "tx_ptr mem c2 = wr" using settled_views [OF c1(2)] settled_views [OF c2(2)] assms(5) by (simp add: tx_view_def)
  obtain c3 m where c3: "wiz_send_data spi 0 buf len (w\<lparr>chip := c2\<rparr>) = Some (w\<lparr>chip := c3\<rparr>)" "tx_view mem c3 = (wr + len, m)"
      "tx_holds m wr (take (unat len) buf)"
    using wiz_send_data_run [OF assms(1,2), where w = "w\<lparr>chip := c2\<rparr>" and wr = wr and len = len and buf = buf] assms(4,8,9) t2 k2 by auto
  obtain c4 where c4: "WIZCHIP_WRITE spi (Sn_CR 0) Sn_CR_SEND (w\<lparr>chip := c3\<rparr>) = Some (w\<lparr>chip := c4\<rparr>)" "tx_view mem c4 = tx_view mem c3"
      "spi c3 (be16 0x01 @ [12] @ [0x20]) 0 = ([], c4)"
    using WIZCHIP_WRITE_CR_run [OF assms(2), of "w\<lparr>chip := c3\<rparr>" Sn_CR_SEND] assms(4) by (auto simp: Sn_CR_SEND_def)
  then obtain j where j: "pending c4 = Some j" using assms(3) unfolding w5500_completes_def by blast
  obtain c5 j5 where c5: "wait_cr spi 0 (w\<lparr>chip := c4\<rparr>) = Some (w\<lparr>chip := c5\<rparr>)" "settled mem c4 c5" "pending c5 = Some j5"
    using wait_cr_run [OF assms(1,3), of "w\<lparr>chip := c4\<rparr>" j] assms(4) j by auto
  obtain r c6 where c6: "wait_ir spi 0 (w\<lparr>chip := c5\<rparr>) = Some (r, w\<lparr>chip := c6\<rparr>)" "tx_view mem c6 = tx_view mem c5"
    using wait_ir_run [OF assms(1-3), of "w\<lparr>chip := c5\<rparr>" j5] assms(4) c5(3) by auto
  have "tx_view mem c6 = (wr + len, m)" using c6(2) settled_views [OF c5(2)] c4(2) c3(2) by simp
  then show ?thesis using c1(1) c2(1) c3(1,3) c4(1) c5(1) c6(1) max by (auto simp: send_lwip_def getSn_TxMAX_def)
qed

text \<open>A chain whose lengths add up.\<close>

fun chain_ok :: "pbuf_chain \<Rightarrow> bool" where
  "chain_ok [] \<longleftrightarrow> True"
| "chain_ok ((payload, tot) # qs) \<longleftrightarrow> tot = length payload + length (concat (map fst qs)) \<and> chain_ok qs"

lemma blit_blit: "off + length a + length b \<le> length f \<Longrightarrow> blit (blit f off a) (off + length a) b = blit f off (a @ b)"
  by (simp add: blit_def ac_simps)

lemma gather_chain:
  "chain_ok p \<Longrightarrow> off + length (concat (map fst p)) \<le> length frame \<Longrightarrow>
    gather p frame off = Some (blit frame off (concat (map fst p)), off + length (concat (map fst p)))"
proof (induction p arbitrary: frame off rule: chain_ok.induct)
  case 1
  then show ?case by (simp add: blit_def)
next
  case (2 payload tot qs)
  have "length payload = tot \<Longrightarrow> concat (map fst qs) = []" using 2(2) by (simp del: concat_eq_Nil_conv)
  moreover have "gather qs (blit frame off payload) (off + length payload)
      = Some (blit (blit frame off payload) (off + length payload) (concat (map fst qs)), off + length payload + length (concat (map fst qs)))"
    using 2 by (intro 2(1)) simp_all
  ultimately show ?case using 2(3) by (simp add: blit_checked_def blit_blit add.assoc del: concat_eq_Nil_conv)
qed

text \<open>C5: A frame in a chain of packet buffers is sent: with a chip that completes its transmissions \<open>netif_output\<close> returns, both polls
  included, and the transmit buffer holds the payloads of the chain in order, padded with zeros to 60 bytes, between the old and
  the new write pointer.\<close>

theorem netif_output_sends:
  assumes "w5500_reads spi mem" "w5500_writes spi mem" "w5500_completes spi mem pending" "\<not> spin_lock w" "tx_ptr mem (chip w) = wr"
    and "mem (chip w) 1 0x1F = k" "2 \<le> unat k" "unat k < 64"
    and "chain_ok p" "d = concat (map fst p)" "length d \<le> 1542"
  shows "\<exists>c m. netif_output spi p w = Some (w\<lparr>chip := c\<rparr>) \<and> tx_view mem c = (wr + of_nat (max 60 (length d)), m)
    \<and> tx_holds m wr (d @ replicate (60 - length d) 0)"
proof -
  let ?f = "blit (replicate 1542 0) 0 d" and ?n = "if length d < 60 then 60 else length d"
  have g: "gather p (replicate 1542 0) 0 = Some (?f, length d)"
    using gather_chain [OF assms(9), of 0 "replicate 1542 0"] assms(10,11) by simp
  have n: "?n \<le> 1542" "?n = max 60 (length d)" using assms(11) by auto
  then have u: "unat (of_nat ?n :: u16) = ?n" by (intro unat_of_nat_small) simp
  have l: "length ?f = 1542" using assms(11) by simp
  have fits: "unat (of_nat ?n :: u16) \<le> 1024 * unat k" "unat (of_nat ?n :: u16) \<le> length ?f"
    unfolding u l using n(1) assms(7) by linarith+
  have t: "take (unat (of_nat ?n :: u16)) ?f = d @ replicate (60 - length d) 0"
    unfolding u using assms(11) by (auto simp: blit_def)
  show ?thesis
    using send_lwip_run [OF assms(1-6,8) fits] g unfolding t by (fastforce simp: netif_output_def n(2) max_def)
qed

theorem netif_output_sends_witness:
  "\<exists>c m. netif_output mem_chip [([1, 2], 5), ([3, 4, 5], 3)] \<lparr>chip = chip_with 0 [], spin_lock = False\<rparr> = Some \<lparr>chip = c, spin_lock = False\<rparr>
    \<and> tx_view (\<lambda>c. c) c = (60, m) \<and> tx_holds m 0 ([1, 2, 3, 4, 5] @ replicate 55 0)"
  using netif_output_sends [OF mem_chip_facts(1,2,4), where w = "\<lparr>chip = chip_with 0 [], spin_lock = False\<rparr>" and wr = 0 and k = 2
      and p = "[([1, 2], 5), ([3, 4, 5], 3)]" and d = "[1, 2, 3, 4, 5]"]
  by (simp add: chip_with_def tx_ptr_def word_at_def un_be16_def un_le16_def max_def)

end
