(* ===== verification/Timeouts.thy ===== *)
theory Timeouts
  imports Prelude "HOL-Library.Multiset"
begin

text \<open>
  The timers of the network stack (\<open>lwip/src/core/timeouts.c\<close>): a list of due times in the order in which they come
  up, over a millisecond clock that wraps around. The handlers (ARP, DHCP, DNS, reassembly, TCP) are parameters; the
  state has the clock (\<open>uwTick\<close>, which \<open>sys_now\<close> of \<open>Src/arch/sys_arch.c\<close> reads), the free entries of the
  pool \<open>MEMP_SYS_TIMEOUT\<close>, and a part for whatever else the handlers work on. The timer names of debug builds are left out.
\<close>

definition LWIP_MAX_TIMEOUT :: u32 where "LWIP_MAX_TIMEOUT = 0x7fffffff"

definition TIME_LESS_THAN :: "u32 \<Rightarrow> u32 \<Rightarrow> bool" where
  "TIME_LESS_THAN t compare_to \<longleftrightarrow> t - compare_to > LWIP_MAX_TIMEOUT"

datatype sys_timeout_handler = Null | Cyclic_timer | Tcp_timer | Other_handler nat

record sys_timeo =
  time :: u32
  h :: sys_timeout_handler
  arg :: nat

record 'w timers =
  next_timeout :: "sys_timeo list"
  current_timeout_due_time :: u32
  tcpip_tcp_timer_active :: bool
  timeo_free :: nat
  uwTick :: u32
  others :: 'w

definition sys_now :: "'w timers \<Rightarrow> u32" where "sys_now st = uwTick st"

text \<open>The intervals of \<open>lwip_cyclic_timers\<close> as configured: TCP, IP reassembly, ARP, DHCP coarse and fine, DNS.\<close>

definition lwip_cyclic_timers :: "u32 list" where "lwip_cyclic_timers = [250, 1000, 1000, 60000, 500, 1000]"
definition TCP_TMR_INTERVAL :: u32 where "TCP_TMR_INTERVAL = 250"

record 'w handlers =
  cyclic_handler :: "nat \<Rightarrow> 'w timers \<Rightarrow> 'w timers"
  tcp_tmr :: "'w timers \<Rightarrow> 'w timers"
  tcp_pcbs :: "'w timers \<Rightarrow> bool"
  other_handler :: "nat \<Rightarrow> nat \<Rightarrow> 'w timers \<Rightarrow> 'w timers"
  check_free_ooseq :: "'w timers \<Rightarrow> 'w timers"

subsection \<open>The list\<close>

fun insert_after :: "sys_timeo \<Rightarrow> sys_timeo list \<Rightarrow> sys_timeo list" where
  "insert_after new [] = []"
| "insert_after new [t] = [t, new]"
| "insert_after new (t # t' # ts) =
     (if TIME_LESS_THAN (time new) (time t') then t # new # t' # ts else t # insert_after new (t' # ts))"

definition insert_timeout :: "sys_timeo \<Rightarrow> sys_timeo list \<Rightarrow> sys_timeo list" where
  "insert_timeout new ts =
     (case ts of [] \<Rightarrow> [new] | t # _ \<Rightarrow> if TIME_LESS_THAN (time new) (time t) then new # ts else insert_after new ts)"

definition sys_timeout_abs :: "u32 \<Rightarrow> sys_timeout_handler \<Rightarrow> nat \<Rightarrow> 'w timers \<Rightarrow> 'w timers" where
  "sys_timeout_abs abs_time handler a st =
     (if timeo_free st = 0 then st
      else st\<lparr>timeo_free := timeo_free st - 1,
              next_timeout := insert_timeout \<lparr>time = abs_time, h = handler, arg = a\<rparr> (next_timeout st)\<rparr>)"

definition sys_timeout :: "u32 \<Rightarrow> sys_timeout_handler \<Rightarrow> nat \<Rightarrow> 'w timers \<Rightarrow> 'w timers" where
  "sys_timeout msecs handler a st = sys_timeout_abs (sys_now st + msecs) handler a st"

fun unlink_timeout :: "sys_timeout_handler \<Rightarrow> nat \<Rightarrow> sys_timeo list \<Rightarrow> sys_timeo list option" where
  "unlink_timeout handler a [] = None"
| "unlink_timeout handler a (t # ts) =
     (if h t = handler \<and> arg t = a then Some ts else map_option (Cons t) (unlink_timeout handler a ts))"

definition sys_untimeout :: "sys_timeout_handler \<Rightarrow> nat \<Rightarrow> 'w timers \<Rightarrow> 'w timers" where
  "sys_untimeout handler a st =
     (case unlink_timeout handler a (next_timeout st) of
        None \<Rightarrow> st | Some ts \<Rightarrow> st\<lparr>next_timeout := ts, timeo_free := timeo_free st + 1\<rparr>)"

subsection \<open>The handlers of the module\<close>

definition tcpip_tcp_timer :: "'w handlers \<Rightarrow> 'w timers \<Rightarrow> 'w timers" where
  "tcpip_tcp_timer hs st =
     (let st1 = tcp_tmr hs st in
      if tcp_pcbs hs st1 then sys_timeout TCP_TMR_INTERVAL Tcp_timer 0 st1 else st1\<lparr>tcpip_tcp_timer_active := False\<rparr>)"

definition tcp_timer_needed :: "'w handlers \<Rightarrow> 'w timers \<Rightarrow> 'w timers" where
  "tcp_timer_needed hs st =
     (if \<not> tcpip_tcp_timer_active st \<and> tcp_pcbs hs st
      then sys_timeout TCP_TMR_INTERVAL Tcp_timer 0 (st\<lparr>tcpip_tcp_timer_active := True\<rparr>) else st)"

definition lwip_cyclic_timer :: "'w handlers \<Rightarrow> nat \<Rightarrow> 'w timers \<Rightarrow> 'w timers" where
  "lwip_cyclic_timer hs i st =
     (let st1 = cyclic_handler hs i st;
          now = sys_now st1;
          next_timeout_time = current_timeout_due_time st1 + lwip_cyclic_timers ! i in
      if TIME_LESS_THAN next_timeout_time now then sys_timeout_abs (now + lwip_cyclic_timers ! i) Cyclic_timer i st1
      else sys_timeout_abs next_timeout_time Cyclic_timer i st1)"

definition sys_timeouts_init :: "'w timers \<Rightarrow> 'w timers" where
  "sys_timeouts_init st = fold (\<lambda>i. sys_timeout (lwip_cyclic_timers ! i) Cyclic_timer i) [1..<length lwip_cyclic_timers] st"

definition call_handler :: "'w handlers \<Rightarrow> sys_timeout_handler \<Rightarrow> nat \<Rightarrow> 'w timers \<Rightarrow> 'w timers" where
  "call_handler hs handler a st =
     (case handler of Null \<Rightarrow> st | Cyclic_timer \<Rightarrow> lwip_cyclic_timer hs a st | Tcp_timer \<Rightarrow> tcpip_tcp_timer hs st
      | Other_handler f \<Rightarrow> other_handler hs f a st)"

text \<open>The loop runs until the first entry is not due; a handler that schedules itself for now keeps it running.\<close>

partial_function (option) check_loop :: "'w handlers \<Rightarrow> u32 \<Rightarrow> 'w timers \<Rightarrow> 'w timers option" where
  "check_loop hs now st0 =
     (let st = check_free_ooseq hs st0 in
      case next_timeout st of
        [] \<Rightarrow> Some st
      | t # ts \<Rightarrow>
          (if TIME_LESS_THAN now (time t) then Some st
           else check_loop hs now (call_handler hs (h t) (arg t)
                  (st\<lparr>next_timeout := ts, current_timeout_due_time := time t, timeo_free := timeo_free st + 1\<rparr>))))"

definition sys_check_timeouts :: "'w handlers \<Rightarrow> 'w timers \<Rightarrow> 'w timers option" where
  "sys_check_timeouts hs st = check_loop hs (sys_now st) st"

definition sys_restart_timeouts :: "'w timers \<Rightarrow> 'w timers" where
  "sys_restart_timeouts st =
     (case next_timeout st of [] \<Rightarrow> st
      | t0 # _ \<Rightarrow> st\<lparr>next_timeout := map (\<lambda>t. t\<lparr>time := (time t - time t0) + sys_now st\<rparr>) (next_timeout st)\<rparr>)"

definition sys_timeouts_sleeptime :: "'w timers \<Rightarrow> u32" where
  "sys_timeouts_sleeptime st =
     (case next_timeout st of [] \<Rightarrow> 0xFFFFFFFF
      | t # _ \<Rightarrow> if TIME_LESS_THAN (time t) (sys_now st) then 0 else time t - sys_now st)"

subsection \<open>Order of due times\<close>

text \<open>Due times are compared by the distance from some earlier moment \<open>b\<close>; as long as they are less than \<open>2 ^ 31\<close>
  milliseconds (24.8 days) from it, the comparison is that of the distances.\<close>

definition after :: "u32 \<Rightarrow> u32 \<Rightarrow> nat" where "after b t = unat (t - b)"
definition near :: "u32 \<Rightarrow> u32 \<Rightarrow> bool" where "near b t \<longleftrightarrow> after b t < 2 ^ 31"

lemma time_less_after:
  assumes "near b t" "near b c"
  shows "TIME_LESS_THAN t c \<longleftrightarrow> after b t < after b c"
proof -
  have d: "t - c = (t - b) - (c - b)" by simp
  have u: "unat ((t - b) - (c - b)) = (if after b c \<le> after b t then after b t - after b c else after b t + 2 ^ 32 - after b c)"
    using unat_sub_if' [of "t - b" "c - b"] by (simp add: after_def)
  have "TIME_LESS_THAN t c \<longleftrightarrow> 2147483647 < unat (t - c)" by (simp add: TIME_LESS_THAN_def LWIP_MAX_TIMEOUT_def word_less_nat_alt)
  then have "TIME_LESS_THAN t c \<longleftrightarrow> 2 ^ 31 \<le> unat (t - c)" by auto
  then show ?thesis unfolding d u using assms by (auto simp: near_def)
qed

definition timeouts_ok :: "u32 \<Rightarrow> sys_timeo list \<Rightarrow> bool" where
  "timeouts_ok b ts \<longleftrightarrow> sorted (map (\<lambda>t. after b (time t)) ts) \<and> (\<forall>t \<in> set ts. near b (time t))"

lemma insert_after_place:
  assumes "timeouts_ok b (t # ts)" "near b (time new)" "after b (time t) \<le> after b (time new)"
  shows "insert_after new (t # ts) = filter (\<lambda>t. after b (time t) \<le> after b (time new)) (t # ts) @ [new]
      @ filter (\<lambda>t. after b (time new) < after b (time t)) (t # ts)"
  using assms
proof (induction new "t # ts" arbitrary: t ts rule: insert_after.induct)
  case (2 new t)
  then show ?case by simp
next
  case (3 new t t' ts)
  have l: "TIME_LESS_THAN (time new) (time t') \<longleftrightarrow> after b (time new) < after b (time t')"
    using 3 time_less_after [of b "time new" "time t'"] by (simp add: timeouts_ok_def)
  show ?case
  proof (cases "after b (time new) < after b (time t')")
    case True
    then have "\<forall>x \<in> set (t' # ts). after b (time new) < after b (time x)" using 3(2) by (auto simp: timeouts_ok_def)
    then show ?thesis using True l 3(4) by (auto simp: filter_empty_conv filter_id_conv)
  next
    case False
    then have "insert_after new (t' # ts) = filter (\<lambda>t. after b (time t) \<le> after b (time new)) (t' # ts) @ [new]
        @ filter (\<lambda>t. after b (time new) < after b (time t)) (t' # ts)"
      using l 3 by (intro 3(1)) (auto simp: timeouts_ok_def)
    then show ?thesis using False l 3(4) by simp
  qed
qed

lemma insert_timeout_place:
  assumes "timeouts_ok b ts" "near b (time new)"
  shows "insert_timeout new ts = filter (\<lambda>t. after b (time t) \<le> after b (time new)) ts @ [new]
      @ filter (\<lambda>t. after b (time new) < after b (time t)) ts"
proof (cases ts)
  case (Cons t ts')
  have l: "TIME_LESS_THAN (time new) (time t) \<longleftrightarrow> after b (time new) < after b (time t)"
    using assms Cons time_less_after [of b "time new" "time t"] by (simp add: timeouts_ok_def)
  show ?thesis
  proof (cases "after b (time new) < after b (time t)")
    case True
    then have "\<forall>x \<in> set ts. after b (time new) < after b (time x)" using assms(1) Cons by (auto simp: timeouts_ok_def)
    then show ?thesis using True l Cons by (auto simp: insert_timeout_def filter_empty_conv filter_id_conv)
  next
    case False
    then show ?thesis using insert_after_place [of b t ts' new] assms l Cons by (simp add: insert_timeout_def)
  qed
qed (simp add: insert_timeout_def)

lemma insert_timeout_ok:
  assumes "timeouts_ok b ts" "near b (time new)"
  shows "timeouts_ok b (insert_timeout new ts) \<and> mset (insert_timeout new ts) = add_mset new (mset ts)"
proof -
  have "sorted (map (\<lambda>t. after b (time t)) (filter P ts))" for P
    using assms(1) by (auto simp: timeouts_ok_def intro: sorted_filter)
  moreover have "mset (filter (\<lambda>t. after b (time t) \<le> after b (time new)) ts) + mset (filter (\<lambda>t. after b (time new) < after b (time t)) ts) = mset ts"
    by (induction ts) auto
  ultimately show ?thesis using assms unfolding insert_timeout_place [OF assms]
    by (auto simp: timeouts_ok_def sorted_append)
qed

text \<open>A queue of entries with deadlines: what the stack's timers need of it. The earliest entry is in front, and when it
  lies in the future no entry is due.\<close>

locale deadline_queue =
  fixes put :: "'e \<Rightarrow> 'q \<Rightarrow> 'q"
    and pop :: "'q \<Rightarrow> ('e \<times> 'q) option"
    and elems :: "'q \<Rightarrow> 'e multiset"
    and deadline :: "'e \<Rightarrow> nat"
    and ok :: "'q \<Rightarrow> bool"
    and good :: "'e \<Rightarrow> bool"
  assumes put: "ok q \<Longrightarrow> good e \<Longrightarrow> ok (put e q) \<and> elems (put e q) = add_mset e (elems q)"
    and pop_None: "ok q \<Longrightarrow> pop q = None \<Longrightarrow> elems q = {#}"
    and pop_Some: "ok q \<Longrightarrow> pop q = Some (e, q') \<Longrightarrow> ok q' \<and> elems q = add_mset e (elems q') \<and> (\<forall>x \<in># elems q'. deadline e \<le> deadline x)"
begin

text \<open>How often the entries can still come up before \<open>now\<close> when each is put back at \<open>now\<close> or later.\<close>

definition urgency :: "nat \<Rightarrow> 'q \<Rightarrow> nat" where
  "urgency now q = (\<Sum>e \<in># elems q. if deadline e < now then 2 else if deadline e = now then 1 else 0)"

lemma nothing_due: "ok q \<Longrightarrow> pop q = Some (e, q') \<Longrightarrow> now < deadline e \<Longrightarrow> \<forall>x \<in># elems q. now < deadline x"
  using pop_Some by fastforce

lemma put_back:
  assumes "ok q" "pop q = Some (e, q')" "deadline e \<le> now" "good e'" "now \<le> deadline e'" "deadline e = now \<Longrightarrow> now < deadline e'"
  shows "ok (put e' q') \<and> elems (put e' q') = add_mset e' (elems q') \<and> urgency now (put e' q') < urgency now q"
  using pop_Some [OF assms(1,2)] put [of q' e'] assms(3-6) by (auto simp: urgency_def)

end

definition pop_timeout :: "sys_timeo list \<Rightarrow> (sys_timeo \<times> sys_timeo list) option" where
  "pop_timeout ts = (case ts of [] \<Rightarrow> None | t # ts' \<Rightarrow> Some (t, ts'))"

interpretation tq: deadline_queue insert_timeout pop_timeout mset "\<lambda>t. after b (time t)" "timeouts_ok b" "\<lambda>t. near b (time t)" for b
proof (unfold_locales, goal_cases)
  case (1 q e)
  then show ?case by (rule insert_timeout_ok)
next
  case (2 q)
  then show ?case by (simp add: pop_timeout_def split: list.splits)
next
  case (3 q e q')
  then show ?case by (auto simp: pop_timeout_def timeouts_ok_def split: list.splits)
qed

text \<open>A new timeout goes behind every timeout that is due before it or at the same time, and before all others: the list is in
  the order of the due times, and of the calls for equal ones, although the clock wraps around.\<close>

theorem sys_timeout_keeps_order:
  assumes "timeouts_ok b (next_timeout st)" "near b (sys_now st + msecs)" "timeo_free st \<noteq> 0"
    and "due = after b (sys_now st + msecs)"
  shows "next_timeout (sys_timeout msecs handler a st)
      = filter (\<lambda>t. after b (time t) \<le> due) (next_timeout st) @ [\<lparr>time = sys_now st + msecs, h = handler, arg = a\<rparr>]
        @ filter (\<lambda>t. due < after b (time t)) (next_timeout st)
    \<and> timeouts_ok b (next_timeout (sys_timeout msecs handler a st)) \<and> timeo_free (sys_timeout msecs handler a st) = timeo_free st - 1"
  using insert_timeout_place [OF assms(1), of "\<lparr>time = sys_now st + msecs, h = handler, arg = a\<rparr>"]
    insert_timeout_ok [OF assms(1), of "\<lparr>time = sys_now st + msecs, h = handler, arg = a\<rparr>"] assms(2-4)
  by (simp add: sys_timeout_def sys_timeout_abs_def)

definition demo_timers :: "u32 \<Rightarrow> sys_timeo list \<Rightarrow> nat timers" where
  "demo_timers now ts = \<lparr>next_timeout = ts, current_timeout_due_time = 0, tcpip_tcp_timer_active = False, timeo_free = 6, uwTick = now, others = 0\<rparr>"

theorem sys_timeout_keeps_order_witness:
  "map time (next_timeout (sys_timeout 500 Cyclic_timer 4 (demo_timers 0xFFFFFF00
      [\<lparr>time = 0xFFFFFFF0, h = Cyclic_timer, arg = 1\<rparr>, \<lparr>time = 1000, h = Cyclic_timer, arg = 2\<rparr>]))) = [0xFFFFFFF0, 244, 1000]"
proof -
  let ?st = "demo_timers 0xFFFFFF00 [\<lparr>time = 0xFFFFFFF0, h = Cyclic_timer, arg = 1\<rparr>, \<lparr>time = 1000, h = Cyclic_timer, arg = 2\<rparr>]"
  have a: "after 0xFFFFFF00 0xFFFFFFF0 = 240" "after 0xFFFFFF00 1000 = 1256" "after 0xFFFFFF00 244 = 500" by (simp_all add: after_def)
  have n: "sys_now ?st + 500 = 244" by (simp add: demo_timers_def sys_now_def)
  have ok: "timeouts_ok 0xFFFFFF00 (next_timeout ?st)" by (simp add: demo_timers_def timeouts_ok_def near_def a)
  have d: "near 0xFFFFFF00 (sys_now ?st + 500)" "500 = after 0xFFFFFF00 (sys_now ?st + 500)" unfolding n near_def a by simp_all
  show ?thesis
    using sys_timeout_keeps_order [OF ok d(1) _ d(2), of Cyclic_timer 4] unfolding n by (simp add: demo_timers_def a)
qed

subsection \<open>Running what is due\<close>

text \<open>Handlers that leave the list of timers alone and take, together, less than \<open>2 ^ 29\<close> milliseconds.\<close>

definition same_timers :: "'w timers \<Rightarrow> 'w timers \<Rightarrow> bool" where
  "same_timers st st' \<longleftrightarrow> next_timeout st' = next_timeout st \<and> current_timeout_due_time st' = current_timeout_due_time st
     \<and> timeo_free st' = timeo_free st"

definition quiet_handlers :: "'w handlers \<Rightarrow> u32 \<Rightarrow> bool" where
  "quiet_handlers hs now \<longleftrightarrow> (\<forall>st. after now (sys_now st) < 2 ^ 29 \<longrightarrow>
     (\<forall>i. same_timers st (cyclic_handler hs i st) \<and> after now (sys_now (cyclic_handler hs i st)) < 2 ^ 29)
     \<and> same_timers st (check_free_ooseq hs st) \<and> after now (sys_now (check_free_ooseq hs st)) < 2 ^ 29)"

text \<open>All timers are cyclic ones and none is more than 12 days late or ahead.\<close>

definition cyclic_only :: "u32 \<Rightarrow> sys_timeo list \<Rightarrow> bool" where
  "cyclic_only now ts \<longleftrightarrow> timeouts_ok (now - 2 ^ 30) ts \<and> (\<forall>t \<in> set ts. h t = Cyclic_timer \<and> arg t \<in> {1..5})"

definition owner :: "sys_timeo \<Rightarrow> sys_timeout_handler \<times> nat" where "owner t = (h t, arg t)"

lemma after_add: "after b t + unat x < 2 ^ 32 \<Longrightarrow> after b (t + x) = after b t + unat x"
proof -
  have "t + x - b = (t - b) + x" by simp
  then show "after b t + unat x < 2 ^ 32 \<Longrightarrow> ?thesis" using unat_add_lem [of "t - b" x] by (simp only: after_def) simp
qed

lemma after_now: "after (now - 2 ^ 30) t = 2 ^ 30 + after now t" if "after now t < 2 ^ 31"
proof -
  have "after (now - 2 ^ 30) (now + (t - now)) = after (now - 2 ^ 30) now + unat (t - now)"
    by (rule after_add) (use that in \<open>simp add: after_def\<close>)
  then show ?thesis by (simp add: after_def)
qed

lemma intervals: "i \<in> {1..5} \<Longrightarrow> 500 \<le> unat (lwip_cyclic_timers ! i) \<and> unat (lwip_cyclic_timers ! i) \<le> 60000"
proof -
  assume "i \<in> {1..5}"
  then have "i = 1 \<or> i = 2 \<or> i = 3 \<or> i = 4 \<or> i = 5" by auto
  then show ?thesis by (auto simp: lwip_cyclic_timers_def)
qed

lemma cyclic_timer_step:
  assumes "quiet_handlers hs now" "after now (sys_now st) < 2 ^ 29" "timeo_free st \<noteq> 0" "i \<in> {1..5}"
    and "current_timeout_due_time st = d" "after (now - 2 ^ 30) d \<le> 2 ^ 30"
  shows "\<exists>x. next_timeout (lwip_cyclic_timer hs i st) = insert_timeout \<lparr>time = x, h = Cyclic_timer, arg = i\<rparr> (next_timeout st)
    \<and> timeo_free (lwip_cyclic_timer hs i st) = timeo_free st - 1 \<and> after now (sys_now (lwip_cyclic_timer hs i st)) < 2 ^ 29
    \<and> near (now - 2 ^ 30) x \<and> 2 ^ 30 \<le> after (now - 2 ^ 30) x
    \<and> (after (now - 2 ^ 30) d = 2 ^ 30 \<longrightarrow> 2 ^ 30 < after (now - 2 ^ 30) x)"
proof -
  define st1 where "st1 = cyclic_handler hs i st"
  have q: "same_timers st st1" "after now (sys_now st1) < 2 ^ 29"
    using assms(1,2) by (simp_all add: quiet_handlers_def st1_def)
  note iv = intervals [OF assms(4)]
  define iv where "iv = lwip_cyclic_timers ! i"
  have ivb: "500 \<le> unat iv" "unat iv \<le> 60000" using iv by (simp_all add: iv_def)
  have kn: "after (now - 2 ^ 30) (sys_now st1) = 2 ^ 30 + after now (sys_now st1)" using q(2) by (intro after_now) simp
  have kd: "after (now - 2 ^ 30) (d + iv) = after (now - 2 ^ 30) d + unat iv" using assms(6) ivb by (intro after_add) simp
  have kr: "after (now - 2 ^ 30) (sys_now st1 + iv) = 2 ^ 30 + after now (sys_now st1) + unat iv"
    using after_add [of "now - 2 ^ 30" "sys_now st1" iv] q(2) ivb kn by simp
  have less: "TIME_LESS_THAN (d + iv) (sys_now st1) \<longleftrightarrow> after (now - 2 ^ 30) d + unat iv < 2 ^ 30 + after now (sys_now st1)"
    using time_less_after [of "now - 2 ^ 30" "d + iv" "sys_now st1"] assms(6) q(2) ivb kn kd by (simp add: near_def)
  define x where "x = (if TIME_LESS_THAN (d + iv) (sys_now st1) then sys_now st1 + iv else d + iv)"
  have run: "lwip_cyclic_timer hs i st = sys_timeout_abs x Cyclic_timer i st1"
    using q(1) assms(5) by (simp add: lwip_cyclic_timer_def st1_def [symmetric] iv_def [symmetric] x_def same_timers_def Let_def)
  have x: "near (now - 2 ^ 30) x" "2 ^ 30 \<le> after (now - 2 ^ 30) x" "after (now - 2 ^ 30) d = 2 ^ 30 \<Longrightarrow> 2 ^ 30 < after (now - 2 ^ 30) x"
    using less kd kr assms(6) q(2) ivb by (auto simp: x_def near_def)
  show ?thesis
    using q assms(3) x by (intro exI [of _ x]) (auto simp: run sys_timeout_abs_def same_timers_def sys_now_def)
qed

lemma check_loop_returns:
  assumes "quiet_handlers hs now"
  shows "cyclic_only now (next_timeout st) \<Longrightarrow> after now (sys_now st) < 2 ^ 29 \<Longrightarrow>
    \<exists>st'. check_loop hs now st = Some st' \<and> (\<forall>t \<in> set (next_timeout st'). TIME_LESS_THAN now (time t))
      \<and> image_mset owner (mset (next_timeout st')) = image_mset owner (mset (next_timeout st)) \<and> timeouts_ok (now - 2 ^ 30) (next_timeout st')
      \<and> timeo_free st' = timeo_free st"
proof (induction "tq.urgency (now - 2 ^ 30) (2 ^ 30) (next_timeout st)" arbitrary: st rule: less_induct)
  case less
  let ?b = "now - 2 ^ 30"
  define st1 where "st1 = check_free_ooseq hs st"
  have q: "next_timeout st1 = next_timeout st" "timeo_free st1 = timeo_free st" "after now (sys_now st1) < 2 ^ 29"
    using assms less.prems(2) by (auto simp: quiet_handlers_def st1_def same_timers_def)
  have nb: "near ?b now" "after ?b now = 2 ^ 30" using after_now [of now now] by (simp_all add: near_def after_def)
  have ok: "timeouts_ok ?b (next_timeout st)" using less.prems(1) by (simp add: cyclic_only_def)
  show ?case
  proof (cases "next_timeout st")
    case Nil
    then show ?thesis using q by (auto simp: check_loop.simps [of hs now st] st1_def [symmetric] timeouts_ok_def)
  next
    case (Cons t ts)
    have lt: "TIME_LESS_THAN now (time x) \<longleftrightarrow> 2 ^ 30 < after ?b (time x)" if "x \<in> set (next_timeout st)" for x
      using time_less_after [OF nb(1), of "time x"] nb(2) ok that by (auto simp: timeouts_ok_def)
    have p: "pop_timeout (next_timeout st) = Some (t, ts)" using Cons by (simp add: pop_timeout_def)
    show ?thesis
    proof (cases "2 ^ 30 < after ?b (time t)")
      case True
      then have "\<forall>x \<in> set (next_timeout st). 2 ^ 30 < after ?b (time x)" using tq.nothing_due [OF ok p] by simp
      then show ?thesis using q ok lt Cons by (auto simp: check_loop.simps [of hs now st] st1_def [symmetric])
    next
      case False
      define st2 where "st2 = st1\<lparr>next_timeout := ts, current_timeout_due_time := time t, timeo_free := timeo_free st1 + 1\<rparr>"
      have t: "h t = Cyclic_timer" "arg t \<in> {1..5}" using less.prems(1) Cons by (auto simp: cyclic_only_def)
      have s2: "after now (sys_now st2) < 2 ^ 29" "timeo_free st2 \<noteq> 0" "current_timeout_due_time st2 = time t" "next_timeout st2 = ts"
        using q(3) by (simp_all add: st2_def sys_now_def)
      obtain x where x: "next_timeout (lwip_cyclic_timer hs (arg t) st2) = insert_timeout \<lparr>time = x, h = Cyclic_timer, arg = arg t\<rparr> ts"
          "timeo_free (lwip_cyclic_timer hs (arg t) st2) = timeo_free st" "after now (sys_now (lwip_cyclic_timer hs (arg t) st2)) < 2 ^ 29"
          "near ?b x" "2 ^ 30 \<le> after ?b x" "after ?b (time t) = 2 ^ 30 \<longrightarrow> 2 ^ 30 < after ?b x"
        using cyclic_timer_step [OF assms s2(1,2) t(2) s2(3)] False s2(4) q(2) by (auto simp: st2_def)
      let ?new = "\<lparr>time = x, h = Cyclic_timer, arg = arg t\<rparr>"
      have pb: "timeouts_ok ?b (insert_timeout ?new ts)" "mset (insert_timeout ?new ts) = add_mset ?new (mset ts)"
          "tq.urgency ?b (2 ^ 30) (insert_timeout ?new ts) < tq.urgency ?b (2 ^ 30) (next_timeout st)"
        using tq.put_back [OF ok p, of "2 ^ 30" ?new] False x(4-6) by auto
      have c: "cyclic_only now (insert_timeout ?new ts)"
        using pb(1) less.prems(1) Cons t mset_eq_setD [of "insert_timeout ?new ts" "?new # ts"] pb(2) by (auto simp: cyclic_only_def)
      have r: "check_loop hs now st = check_loop hs now (lwip_cyclic_timer hs (arg t) st2)"
        using lt Cons False q(1) t(1) by (simp add: check_loop.simps [of hs now st] st1_def [symmetric] st2_def call_handler_def)
      have o: "image_mset owner (mset (insert_timeout ?new ts)) = image_mset owner (mset (next_timeout st))"
        using pb(2) Cons t(1) by (simp add: owner_def)
      show ?thesis using less.hyps [of "lwip_cyclic_timer hs (arg t) st2"] pb(3) c x(1-3) r o by auto
    qed
  qed
qed

text \<open>C20: While the stack runs its cyclic timers only and their handlers leave the list alone, \<open>sys_check_timeouts\<close> returns,
  whatever the clock reads and however late the timers are (up to 12 days): afterwards no timer is due any more, none is lost
  or doubled, and the pool has as many free entries as before.\<close>

theorem check_timeouts_returns:
  assumes "quiet_handlers hs (sys_now st)" "cyclic_only (sys_now st) (next_timeout st)"
  shows "\<exists>st'. sys_check_timeouts hs st = Some st' \<and> (\<forall>t \<in> set (next_timeout st'). TIME_LESS_THAN (sys_now st) (time t))
    \<and> image_mset owner (mset (next_timeout st')) = image_mset owner (mset (next_timeout st)) \<and> timeo_free st' = timeo_free st"
  using check_loop_returns [OF assms(1,2)] by (auto simp: sys_check_timeouts_def after_def)

definition demo_handlers :: "nat handlers" where
  "demo_handlers = \<lparr>cyclic_handler = (\<lambda>i st. st\<lparr>others := others st + 1\<rparr>), tcp_tmr = (\<lambda>st. st), tcp_pcbs = (\<lambda>st. False),
     other_handler = (\<lambda>f a st. st), check_free_ooseq = (\<lambda>st. st)\<rparr>"

lemma demo_handlers_quiet: "quiet_handlers demo_handlers now"
  by (simp add: quiet_handlers_def demo_handlers_def same_timers_def sys_now_def)

theorem check_timeouts_returns_witness:
  "\<exists>st'. sys_check_timeouts demo_handlers (demo_timers 300 [\<lparr>time = 0xFFFFFFF0, h = Cyclic_timer, arg = 4\<rparr>, \<lparr>time = 1000, h = Cyclic_timer, arg = 2\<rparr>]) = Some st'
    \<and> image_mset owner (mset (next_timeout st')) = {#(Cyclic_timer, 4), (Cyclic_timer, 2)#}"
proof -
  let ?st = "demo_timers 300 [\<lparr>time = 0xFFFFFFF0, h = Cyclic_timer, arg = 4\<rparr>, \<lparr>time = 1000, h = Cyclic_timer, arg = 2\<rparr>]"
  have n: "sys_now ?st = 300" by (simp add: demo_timers_def sys_now_def)
  have a: "after (300 - 2 ^ 30) 0xFFFFFFF0 = 1073741508" "after (300 - 2 ^ 30) 1000 = 1073742524" by (simp_all add: after_def)
  have "cyclic_only 300 (next_timeout ?st)" unfolding cyclic_only_def timeouts_ok_def near_def using a by (simp add: demo_timers_def)
  then show ?thesis using check_timeouts_returns [of demo_handlers ?st] demo_handlers_quiet unfolding n by (auto simp: demo_timers_def owner_def)
qed

end
