(* ===== verification/Chksum.thy ===== *)
theory Chksum
  imports Prelude
begin

unbundle bit_operations_syntax

text \<open>
  The Internet checksum: the three C routines of \<open>lwip/src/core/inet_chksum.c\<close>, the Thumb-2 routine the firmware is built
  with (\<open>Src/arch/checksum.c\<close>), and the checksums of headers, of chains of packet buffers and of UDP and TCP packets
  built on whichever of them is selected (\<open>LWIP_CHKSUM\<close>, a parameter). Memory is the list of the bytes from the start address on;
  the routines that look at the alignment get the address too.
\<close>

definition FOLD_U32T :: "u32 \<Rightarrow> u32" where "FOLD_U32T u = drop_bit 16 u + (u AND 0x0000ffff)"
definition SWAP_BYTES_IN_WORD :: "u32 \<Rightarrow> u32" where "SWAP_BYTES_IN_WORD w = push_bit 8 (w AND 0xff) OR drop_bit 8 (w AND 0xff00)"
definition lwip_htons :: "u16 \<Rightarrow> u16" where "lwip_htons x = push_bit 8 x OR drop_bit 8 x"

subsection \<open>The three C routines\<close>

fun chksum1_loop :: "u8 list \<Rightarrow> u32 \<Rightarrow> u32" where
  "chksum1_loop (a # b # bs) acc = chksum1_loop bs (acc + ucast (push_bit 8 (ucast a :: u16) OR ucast b))"
| "chksum1_loop [a] acc = acc + ucast (push_bit 8 (ucast a :: u16))"
| "chksum1_loop [] acc = acc"

definition standard_chksum1 :: "u8 list \<Rightarrow> u16" where
  "standard_chksum1 data =
     (let acc = FOLD_U32T (chksum1_loop data 0);
          acc' = (if acc AND 0xffff0000 \<noteq> 0 then FOLD_U32T acc else acc) in
      lwip_htons (ucast acc'))"

text \<open>The bytes at odd positions are the high ones; \<open>t\<close> collects the bytes at the two ends.\<close>

fun halfwords :: "u8 list \<Rightarrow> u32 \<Rightarrow> u32 \<times> u8 list" where
  "halfwords (a # b # bs) acc = halfwords bs (acc + ucast (un_le16 a b))"
| "halfwords bs acc = (acc, bs)"

definition align2 :: "nat \<Rightarrow> u8 list \<Rightarrow> u8 \<times> u8 list" where
  "align2 addr data = (if odd addr \<and> data \<noteq> [] then (hd data, tl data) else (0, data))"

definition finish_chksum :: "nat \<Rightarrow> u32 \<Rightarrow> u8 \<Rightarrow> u8 list \<Rightarrow> u16" where
  "finish_chksum addr acc first rest =
     (let t = un_le16 (if rest = [] then 0 else hd rest) first;
          s = FOLD_U32T (FOLD_U32T (acc + ucast t)) in
      ucast (if odd addr then SWAP_BYTES_IN_WORD s else s))"

definition standard_chksum2 :: "nat \<Rightarrow> u8 list \<Rightarrow> u16" where
  "standard_chksum2 addr data =
     (let (first, bs) = align2 addr data; (acc, rest) = halfwords bs 0 in finish_chksum addr acc first rest)"

definition add_carry :: "u32 \<Rightarrow> u32 \<Rightarrow> u32" where
  "add_carry x y = (let s = x + y in if s < x then s + 1 else s)"

fun words_loop :: "u8 list \<Rightarrow> u32 \<Rightarrow> u32 \<times> u8 list" where
  "words_loop (a # b # c # d # e # f # g # i # bs) acc = words_loop bs (add_carry (add_carry acc (un_le32 a b c d)) (un_le32 e f g i))"
| "words_loop bs acc = (acc, bs)"

definition align4 :: "nat \<Rightarrow> u8 list \<Rightarrow> u32 \<times> u8 list" where
  "align4 addr bs = (if \<not> 4 dvd addr \<and> 1 < length bs then (ucast (un_le16 (bs ! 0) (bs ! 1)), drop 2 bs) else (0, bs))"

definition standard_chksum3 :: "nat \<Rightarrow> u8 list \<Rightarrow> u16" where
  "standard_chksum3 addr data =
     (let (first, bs) = align2 addr data;
          (acc, bs2) = align4 (if odd addr \<and> data \<noteq> [] then addr + 1 else addr) bs;
          (sum3, bs3) = words_loop bs2 acc;
          (sum4, rest) = halfwords bs3 (FOLD_U32T sum3) in
      finish_chksum addr sum4 first rest)"

subsection \<open>The Thumb-2 routine\<close>

fun halfwords_carry :: "u8 list \<Rightarrow> u32 \<Rightarrow> u32 \<times> u8 list" where
  "halfwords_carry (a # b # bs) r2 = halfwords_carry bs (add_carry r2 (ucast (un_le16 a b)))"
| "halfwords_carry bs r2 = (r2, bs)"

definition rev16 :: "u32 \<Rightarrow> u32" where
  "rev16 w = push_bit 8 (w AND 0x00FF00FF) OR (drop_bit 8 w AND 0x00FF00FF)"

text \<open>The first byte goes to the high half of a halfword; a halfword is then added if that aligns the address to 4 (with less than two bytes
  left the routine goes straight to the last byte); pairs of words, halfwords and the last byte are added with end-around carry.\<close>

definition thumb2_checksum :: "nat \<Rightarrow> u8 list \<Rightarrow> u16" where
  "thumb2_checksum addr data =
     (if odd addr \<and> data = [] then 0
      else
        let (first, bs) = align2 addr data;
            r2 = push_bit 8 (ucast first);
            (h, bs2) = align4 (if odd addr then addr + 1 else addr) bs;
            (r3, bs3) = words_loop bs2 (r2 + h);
            (r4, bs4) = halfwords_carry bs3 r3;
            r5 = (case bs4 of [] \<Rightarrow> r4 | b # _ \<Rightarrow> add_carry r4 (ucast b));
            r6 = FOLD_U32T (FOLD_U32T r5) in
        ucast (if odd addr then rev16 r6 else r6))"

subsection \<open>Checksums of packets\<close>

text \<open>\<open>LWIP_CHKSUM\<close> is one of the routines on a block at some address; a block is given with its address.\<close>

type_synonym chksum = "nat \<Rightarrow> u8 list \<Rightarrow> u16"

definition inet_chksum :: "chksum \<Rightarrow> nat \<Rightarrow> u8 list \<Rightarrow> u16" where
  "inet_chksum chk addr data = NOT (chk addr data)"

fun chksum_chain :: "chksum \<Rightarrow> (nat \<times> u8 list) list \<Rightarrow> u32 \<Rightarrow> bool \<Rightarrow> u32 \<times> bool" where
  "chksum_chain chk [] acc swapped = (acc, swapped)"
| "chksum_chain chk ((addr, payload) # qs) acc swapped =
     (let acc1 = FOLD_U32T (acc + ucast (chk addr payload)) in
      if odd (length payload) then chksum_chain chk qs (SWAP_BYTES_IN_WORD acc1) (\<not> swapped)
      else chksum_chain chk qs acc1 swapped)"

definition inet_chksum_pbuf :: "chksum \<Rightarrow> (nat \<times> u8 list) list \<Rightarrow> u16" where
  "inet_chksum_pbuf chk p =
     (let (acc, swapped) = chksum_chain chk p 0 False;
          acc' = (if swapped then SWAP_BYTES_IN_WORD acc else acc) in
      ucast (NOT (acc' AND 0xffff)))"

definition inet_cksum_pseudo_base :: "chksum \<Rightarrow> (nat \<times> u8 list) list \<Rightarrow> u8 \<Rightarrow> u16 \<Rightarrow> u32 \<Rightarrow> u16" where
  "inet_cksum_pseudo_base chk p proto proto_len acc0 =
     (let (acc, swapped) = chksum_chain chk p acc0 False;
          acc1 = (if swapped then SWAP_BYTES_IN_WORD acc else acc);
          acc2 = acc1 + ucast (lwip_htons (ucast proto)) + ucast (lwip_htons proto_len);
          acc3 = FOLD_U32T (FOLD_U32T acc2) in
      ucast (NOT (acc3 AND 0xffff)))"

definition pseudo_addresses :: "u32 \<Rightarrow> u32 \<Rightarrow> u32" where
  "pseudo_addresses src dest =
     FOLD_U32T (FOLD_U32T ((src AND 0xffff) + (drop_bit 16 src AND 0xffff) + (dest AND 0xffff) + (drop_bit 16 dest AND 0xffff)))"

definition inet_chksum_pseudo :: "chksum \<Rightarrow> (nat \<times> u8 list) list \<Rightarrow> u8 \<Rightarrow> u16 \<Rightarrow> u32 \<Rightarrow> u32 \<Rightarrow> u16" where
  "inet_chksum_pseudo chk p proto proto_len src dest = inet_cksum_pseudo_base chk p proto proto_len (pseudo_addresses src dest)"

definition ip_chksum_pseudo :: "chksum \<Rightarrow> (nat \<times> u8 list) list \<Rightarrow> u8 \<Rightarrow> u16 \<Rightarrow> u32 \<Rightarrow> u32 \<Rightarrow> u16" where
  "ip_chksum_pseudo chk p proto proto_len src dest = inet_chksum_pseudo chk p proto proto_len src dest"

text \<open>Over the first \<open>chksum_len\<close> bytes only.\<close>

fun chksum_chain_partial :: "chksum \<Rightarrow> (nat \<times> u8 list) list \<Rightarrow> nat \<Rightarrow> u32 \<Rightarrow> bool \<Rightarrow> u32 \<times> bool" where
  "chksum_chain_partial chk [] chksum_len acc swapped = (acc, swapped)"
| "chksum_chain_partial chk ((addr, payload) # qs) chksum_len acc swapped =
     (if chksum_len = 0 then (acc, swapped)
      else
        let chklen = min (length payload) chksum_len;
            acc1 = FOLD_U32T (acc + ucast (chk addr (take chklen payload))) in
        if odd (length payload) then chksum_chain_partial chk qs (chksum_len - chklen) (SWAP_BYTES_IN_WORD acc1) (\<not> swapped)
        else chksum_chain_partial chk qs (chksum_len - chklen) acc1 swapped)"

definition inet_cksum_pseudo_partial_base :: "chksum \<Rightarrow> (nat \<times> u8 list) list \<Rightarrow> u8 \<Rightarrow> u16 \<Rightarrow> u16 \<Rightarrow> u32 \<Rightarrow> u16" where
  "inet_cksum_pseudo_partial_base chk p proto proto_len chksum_len acc0 =
     (let (acc, swapped) = chksum_chain_partial chk p (unat chksum_len) acc0 False;
          acc1 = (if swapped then SWAP_BYTES_IN_WORD acc else acc);
          acc2 = acc1 + ucast (lwip_htons (ucast proto)) + ucast (lwip_htons proto_len);
          acc3 = FOLD_U32T (FOLD_U32T acc2) in
      ucast (NOT (acc3 AND 0xffff)))"

definition inet_chksum_pseudo_partial :: "chksum \<Rightarrow> (nat \<times> u8 list) list \<Rightarrow> u8 \<Rightarrow> u16 \<Rightarrow> u16 \<Rightarrow> u32 \<Rightarrow> u32 \<Rightarrow> u16" where
  "inet_chksum_pseudo_partial chk p proto proto_len chksum_len src dest =
     inet_cksum_pseudo_partial_base chk p proto proto_len chksum_len (pseudo_addresses src dest)"

definition ip_chksum_pseudo_partial :: "chksum \<Rightarrow> (nat \<times> u8 list) list \<Rightarrow> u8 \<Rightarrow> u16 \<Rightarrow> u16 \<Rightarrow> u32 \<Rightarrow> u32 \<Rightarrow> u16" where
  "ip_chksum_pseudo_partial chk p proto proto_len chksum_len src dest = inet_chksum_pseudo_partial chk p proto proto_len chksum_len src dest"

lemma chain_partial_full:
  "length (concat (map snd p)) < n \<Longrightarrow> chksum_chain_partial chk p n acc swapped = chksum_chain chk p acc swapped"
  by (induction p arbitrary: n acc swapped) (auto simp: Let_def min_def)

lemma pseudo_partial_full:
  "length (concat (map snd p)) < unat n \<Longrightarrow>
    ip_chksum_pseudo_partial chk p proto proto_len n src dest = ip_chksum_pseudo chk p proto proto_len src dest"
  by (simp add: ip_chksum_pseudo_partial_def inet_chksum_pseudo_partial_def inet_cksum_pseudo_partial_base_def chain_partial_full
      ip_chksum_pseudo_def inet_chksum_pseudo_def inet_cksum_pseudo_base_def)

subsection \<open>Sums in ones' complement\<close>

text \<open>Two numbers stand for the same ones' complement sum of 16-bit words if they agree modulo \<open>2 ^ 16 - 1\<close> and are
  both zero or both not (zero has two representations, and only a sum of zeros gives the first).\<close>

definition same_sum :: "nat \<Rightarrow> nat \<Rightarrow> bool" where
  "same_sum n m \<longleftrightarrow> n mod 65535 = m mod 65535 \<and> (n = 0 \<longleftrightarrow> m = 0)"

text \<open>The bytes as one little-endian number.\<close>

primrec byte_sum :: "u8 list \<Rightarrow> nat" where
  "byte_sum [] = 0"
| "byte_sum (b # bs) = unat b + 256 * byte_sum bs"

lemma same_sum_refl [simp]: "same_sum n n"
  by (simp add: same_sum_def)

lemma same_sum_trans [trans]: "same_sum n m \<Longrightarrow> same_sum m k \<Longrightarrow> same_sum n k"
  by (simp add: same_sum_def)

lemma same_sum_sym: "same_sum n m \<Longrightarrow> same_sum m n"
  by (simp add: same_sum_def)

lemma same_sum_add: "same_sum n m \<Longrightarrow> same_sum k l \<Longrightarrow> same_sum (n + k) (m + l)"
  unfolding same_sum_def by (metis add_is_0 mod_add_cong)

lemma same_sum_mult: "same_sum n m \<Longrightarrow> 0 < k \<Longrightarrow> same_sum (k * n) (k * m)"
  unfolding same_sum_def by (metis mod_mult_cong mult_is_0 not_gr_zero)

lemma same_sum_65536: "same_sum (65536 * n) n"
  using mod_mult_self1 [of n n 65535] by (simp add: same_sum_def)

lemma same_sum_unique: "same_sum n m \<Longrightarrow> n \<le> 65535 \<Longrightarrow> m \<le> 65535 \<Longrightarrow> n = m"
  unfolding same_sum_def
  by (metis le_neq_implies_less mod_less mod_self)

lemma same_sum_high: "same_sum (65536 * n + k) (n + k)"
  by (intro same_sum_add same_sum_65536 same_sum_refl)

subsection \<open>Values of the operations\<close>

lemma unat_byte: "unat (a :: u8) < 256"
  using unsigned_less [of a] by simp

lemma or_sum: "(x :: 'a::len word) AND y = 0 \<Longrightarrow> unat x + unat y < 2 ^ LENGTH('a) \<Longrightarrow> unat (x OR y) = unat x + unat y"
  by (metis add_0 unat_add_lem word_plus_and_or)

lemma unat_high_byte: "unat (push_bit 8 (ucast (b :: u8)) :: u16) = 256 * unat b"
proof -
  have "push_bit 8 (ucast b :: u16) = of_nat (256 * unat b)" by (simp add: push_bit_eq_mult mult.commute)
  then show ?thesis using unat_byte [of b] by (simp add: unat_of_nat_small del: of_nat_mult of_nat_unat)
qed

lemma unat_high_half: "unat (push_bit 16 (ucast (w :: u16)) :: u32) = 65536 * unat w"
proof -
  have "push_bit 16 (ucast w :: u32) = of_nat (65536 * unat w)" by (simp add: push_bit_eq_mult mult.commute)
  moreover have "unat w < 65536" using unsigned_less [of w] by simp
  ultimately show ?thesis by (simp add: unat_of_nat_small del: of_nat_mult of_nat_unat)
qed

lemma unat_ucast_up: "unat (ucast (w :: u16) :: u32) = unat w" "unat (ucast (a :: u8) :: u16) = unat a" "unat (ucast (a :: u8) :: u32) = unat a"
  using unsigned_less [of w, where 'a = nat] unat_byte [of a]
  by (simp_all add: unsigned_ucast_eq unsigned_take_bit_eq take_bit_nat_eq_self)

lemma unat_un_le16: "unat (un_le16 a b) = unat a + 256 * unat b"
proof -
  have "ucast a AND push_bit 8 (ucast b) = (0 :: u16)" by (rule bit_word_eqI) (auto simp: bit_simps dest: bit_byte_high)
  then show ?thesis using unat_byte [of a] unat_byte [of b] or_sum [of "ucast a :: u16" "push_bit 8 (ucast b)"]
    by (simp add: un_le16_def unat_high_byte unat_ucast_up)
qed

lemma un_le32_halves: "un_le32 a b c d = ucast (un_le16 a b) OR push_bit 16 (ucast (un_le16 c d))"
  by (rule bit_word_eqI) (auto simp: un_le32_def un_le16_def bit_simps dest: bit_byte_high)

lemma unat_un_le32: "unat (un_le32 a b c d) = unat a + 256 * unat b + 65536 * (unat c + 256 * unat d)"
proof -
  have "ucast (un_le16 a b) AND push_bit 16 (ucast (un_le16 c d)) = (0 :: u32)" by (rule bit_word_eqI) (auto simp: bit_simps dest: bit_u16_high)
  moreover have "unat (un_le16 a b) < 65536" "unat (un_le16 c d) < 65536" using unsigned_less [of "un_le16 a b"] unsigned_less [of "un_le16 c d"] by simp_all
  ultimately show ?thesis using or_sum [of "ucast (un_le16 a b) :: u32" "push_bit 16 (ucast (un_le16 c d))"]
    by (simp add: un_le32_halves unat_high_half unat_ucast_up unat_un_le16 del: unat_ucast_up(2,3))
qed

lemma unat_FOLD: "unat (FOLD_U32T u) = unat u div 65536 + unat u mod 65536"
proof -
  have "u AND 0xffff = take_bit 16 u" by (simp add: take_bit_eq_mask mask_eq_exp_minus_1)
  then have "unat (u AND 0xffff) = unat u mod 65536" by (simp only: unsigned_take_bit_eq) (simp add: take_bit_eq_mod)
  moreover have "unat (drop_bit 16 u) = unat u div 65536" by (simp add: unat_drop_bit_eq drop_bit_eq_div [where 'a = nat])
  moreover have "unat u div 65536 + unat u mod 65536 < 2 ^ 32" using unsigned_less [of u, where 'a = nat] by simp
  ultimately show ?thesis using unat_add_lem [of "drop_bit 16 u" "u AND 0xffff"] by (simp add: FOLD_U32T_def)
qed

lemma same_sum_FOLD: "same_sum (unat (FOLD_U32T u)) (unat u)"
  unfolding unat_FOLD using same_sum_sym [OF same_sum_high [of "unat u div 65536" "unat u mod 65536"]] by simp

lemma FOLD_FOLD: "unat (FOLD_U32T (FOLD_U32T u)) < 65536"
proof -
  have "unat u < 65536 * 65536" using unsigned_less [of u] by simp
  then have "unat u div 65536 < 65536" by (simp add: less_mult_imp_div_less)
  then have "unat (FOLD_U32T u) < 65536 + 65535" unfolding unat_FOLD by simp
  then have "unat (FOLD_U32T u) div 65536 = 0 \<or> unat (FOLD_U32T u) div 65536 = 1 \<and> unat (FOLD_U32T u) mod 65536 < 65535"
    by (auto simp: div_nat_eqI mod_if)
  then show ?thesis unfolding unat_FOLD [of "FOLD_U32T u"] by auto
qed

lemma FOLD_small: "unat u < 131071 \<Longrightarrow> unat (FOLD_U32T u) < 65536"
proof -
  assume "unat u < 131071"
  then have "unat u div 65536 = 0 \<or> unat u div 65536 = 1 \<and> unat u mod 65536 < 65535" by (auto simp: div_nat_eqI mod_if)
  then show ?thesis unfolding unat_FOLD by auto
qed

lemma swaps:
  "SWAP_BYTES_IN_WORD (ucast (un_le16 a b)) = ucast (un_le16 b a)" "rev16 (ucast (un_le16 a b)) = ucast (un_le16 b a)"
  "lwip_htons (un_le16 a b) = un_le16 b a"
proof -
  have m: "(0xff :: u32) = mask 8" "(0xff00 :: u32) = push_bit 8 (mask 8)" "(0x00FF00FF :: u32) = mask 8 OR push_bit 16 (mask 8)"
    by (simp_all add: mask_eq_exp_minus_1)
  show "SWAP_BYTES_IN_WORD (ucast (un_le16 a b)) = ucast (un_le16 b a)"
    unfolding SWAP_BYTES_IN_WORD_def m by (rule bit_word_eqI) (auto simp: un_le16_def bit_simps dest: bit_byte_high)
  show "rev16 (ucast (un_le16 a b)) = ucast (un_le16 b a)"
    unfolding rev16_def m by (rule bit_word_eqI) (auto simp: un_le16_def bit_simps dest: bit_byte_high)
  show "lwip_htons (un_le16 a b) = un_le16 b a"
    unfolding lwip_htons_def by (rule bit_word_eqI) (auto simp: un_le16_def bit_simps dest: bit_byte_high)
qed

lemma halfword_bytes: "unat (w :: u32) < 65536 \<Longrightarrow> \<exists>a b. w = ucast (un_le16 a b)"
proof -
  assume "unat w < 65536"
  then have "w = ucast (ucast w :: u16)"
    by (simp add: word_unat_eq_iff unsigned_ucast_eq unsigned_take_bit_eq take_bit_nat_eq_self)
  then show ?thesis using un_le16_le16 [of "ucast w"] by metis
qed

lemma same_sum_swap: "same_sum (256 * unat (un_le16 a b)) (unat (un_le16 b a))"
proof -
  have "256 * unat (un_le16 a b) = 65536 * unat b + 256 * unat a" by (simp add: unat_un_le16)
  then show ?thesis using same_sum_high [of "unat b" "256 * unat a"] by (simp only: unat_un_le16)
qed

lemma same_sum_add_carry: "same_sum (unat (add_carry x y)) (unat x + unat y)"
proof (cases "unat x + unat y < 2 ^ 32")
  case True
  then have "unat (x + y) = unat x + unat y" using unat_add_lem [of x y] by simp
  then show ?thesis by (simp add: add_carry_def Let_def word_less_nat_alt)
next
  case False
  then have u: "unat (x + y) = unat x + unat y - 2 ^ 32" using unat_plus_if' [of x y] by simp
  then have l: "unat (x + y) < unat x" "unat (x + y) + 1 < 2 ^ 32" using unsigned_less [of x, where 'a = nat] unsigned_less [of y, where 'a = nat] False by simp_all
  then have "unat (x + y + 1) = unat (x + y) + 1" using unat_add_lem [of "x + y" 1] by simp
  then have "unat (add_carry x y) = unat (x + y) + 1" using l(1) by (simp add: add_carry_def Let_def word_less_nat_alt)
  moreover have "unat x + unat y = 65536 * (65536 * 1) + unat (x + y)" using u False by simp
  moreover have "same_sum (65536 * (65536 * 1) + unat (x + y)) (1 + unat (x + y))"
    by (intro same_sum_add same_sum_refl same_sum_trans [OF same_sum_65536] same_sum_65536)
  ultimately show ?thesis using same_sum_sym by (simp add: add.commute)
qed

subsection \<open>The loops\<close>

text \<open>A block of two bytes adds its halfword.\<close>

lemma byte_sum_two: "same_sum (unat (un_le16 a b) + byte_sum bs) (byte_sum (a # b # bs))"
proof -
  have "byte_sum (a # b # bs) = 65536 * byte_sum bs + (unat a + 256 * unat b)" by simp
  then show ?thesis using same_sum_sym [OF same_sum_high [of "byte_sum bs" "unat a + 256 * unat b"]]
    by (simp only: unat_un_le16 add.commute [of _ "byte_sum bs"])
qed

lemma byte_sum_append: "byte_sum (xs @ ys) = byte_sum xs + 256 ^ length xs * byte_sum ys"
  by (induction xs) (simp_all add: algebra_simps)

lemma byte_sum_even_append:
  assumes "even (length xs)"
  shows "same_sum (byte_sum xs + byte_sum ys) (byte_sum (xs @ ys))"
proof -
  obtain k where k: "length xs = 2 * k" using assms by (auto elim: evenE)
  have "same_sum (65536 ^ k * n) n" for n
  proof (induction k)
    case (Suc k)
    have "same_sum (65536 * (65536 ^ k * n)) n" using same_sum_trans [OF same_sum_65536 Suc.IH] .
    then show ?case by (simp add: mult.assoc)
  qed simp
  then have "same_sum (256 ^ length xs * byte_sum ys) (byte_sum ys)" by (simp add: k power_mult)
  then show ?thesis unfolding byte_sum_append by (rule same_sum_sym [OF same_sum_add [OF same_sum_refl]])
qed

lemma byte_sum_odd_append:
  assumes "odd (length xs)"
  shows "same_sum (byte_sum xs + 256 * byte_sum ys) (byte_sum (xs @ ys))"
proof -
  obtain b bs where xs: "xs = b # bs" using assms by (cases xs) auto
  have "same_sum (256 * (byte_sum bs + byte_sum ys)) (256 * byte_sum (bs @ ys))"
    using byte_sum_even_append [of bs ys] assms xs by (intro same_sum_mult) auto
  then have "same_sum (unat b + 256 * (byte_sum bs + byte_sum ys)) (unat b + 256 * byte_sum (bs @ ys))"
    by (rule same_sum_add [OF same_sum_refl])
  then show ?thesis by (simp add: xs algebra_simps)
qed

lemma halfwords_sum:
  assumes "halfwords bs acc = (s, rest)" "unat acc + 65536 * (length bs div 2) < 2 ^ 32"
  shows "same_sum (unat s + byte_sum rest) (unat acc + byte_sum bs) \<and> length rest \<le> 1 \<and> unat s \<le> unat acc + 65535 * (length bs div 2)"
  using assms
proof (induction bs acc rule: halfwords.induct)
  case (1 a b bs acc)
  have w: "unat (un_le16 a b) < 65536" using unsigned_less [of "un_le16 a b", where 'a = nat] by simp
  have u: "unat (acc + ucast (un_le16 a b)) = unat acc + unat (un_le16 a b)"
    using w 1(3) unat_add_lem [of acc "ucast (un_le16 a b)"] by (simp add: unat_ucast_up)
  have h: "same_sum (unat s + byte_sum rest) (unat acc + unat (un_le16 a b) + byte_sum bs)" "length rest \<le> 1"
      "unat s \<le> unat acc + unat (un_le16 a b) + 65535 * (length bs div 2)"
    using 1 w unfolding u [symmetric] by (auto simp: u)
  have "same_sum (unat acc + (unat (un_le16 a b) + byte_sum bs)) (unat acc + byte_sum (a # b # bs))"
    by (intro same_sum_add same_sum_refl byte_sum_two)
  then show ?case using same_sum_trans [OF h(1)] h(2,3) w by (simp add: add.assoc)
qed auto

lemma halfwords_carry_sum:
  assumes "halfwords_carry bs acc = (s, rest)"
  shows "same_sum (unat s + byte_sum rest) (unat acc + byte_sum bs) \<and> length rest \<le> 1"
  using assms
proof (induction bs acc rule: halfwords_carry.induct)
  case (1 a b bs acc)
  have h: "same_sum (unat s + byte_sum rest) (unat (add_carry acc (ucast (un_le16 a b))) + byte_sum bs)" "length rest \<le> 1" using 1 by auto
  have "same_sum (unat (add_carry acc (ucast (un_le16 a b))) + byte_sum bs) (unat acc + unat (un_le16 a b) + byte_sum bs)"
    using same_sum_add [OF same_sum_add_carry same_sum_refl, of acc "ucast (un_le16 a b)"] by (simp add: unat_ucast_up)
  moreover have "same_sum (unat acc + (unat (un_le16 a b) + byte_sum bs)) (unat acc + byte_sum (a # b # bs))"
    by (intro same_sum_add same_sum_refl byte_sum_two)
  ultimately have "same_sum (unat (add_carry acc (ucast (un_le16 a b))) + byte_sum bs) (unat acc + byte_sum (a # b # bs))"
    unfolding add.assoc by (rule same_sum_trans)
  then show ?case using same_sum_trans [OF h(1)] h(2) by simp
qed auto

lemma byte_sum_four: "same_sum (unat (un_le32 a b c d) + byte_sum bs) (byte_sum (a # b # c # d # bs))"
proof -
  have "byte_sum (a # b # c # d # bs) = 65536 * (65536 * byte_sum bs) + unat (un_le32 a b c d)" by (simp add: unat_un_le32)
  moreover have "same_sum (65536 * (65536 * byte_sum bs) + unat (un_le32 a b c d)) (byte_sum bs + unat (un_le32 a b c d))"
    by (intro same_sum_add same_sum_refl same_sum_trans [OF same_sum_65536] same_sum_65536)
  ultimately have "same_sum (byte_sum (a # b # c # d # bs)) (byte_sum bs + unat (un_le32 a b c d))" by metis
  then show ?thesis by (simp only: same_sum_sym add.commute)
qed

lemma words_loop_sum:
  assumes "words_loop bs acc = (s, rest)"
  shows "same_sum (unat s + byte_sum rest) (unat acc + byte_sum bs) \<and> length rest < 8"
  using assms
proof (induction bs acc rule: words_loop.induct)
  case (1 a b c d e f g i bs acc)
  let ?x = "un_le32 a b c d" and ?y = "un_le32 e f g i"
  let ?r = "add_carry (add_carry acc ?x) ?y"
  have h: "same_sum (unat s + byte_sum rest) (unat ?r + byte_sum bs)" "length rest < 8"
    using 1 by auto
  have "same_sum (unat ?r) (unat acc + unat ?x + unat ?y)"
    by (rule same_sum_trans [OF same_sum_add_carry same_sum_add [OF same_sum_add_carry same_sum_refl]])
  then have "same_sum (unat ?r + byte_sum bs) (unat acc + unat ?x + unat ?y + byte_sum bs)" by (rule same_sum_add [OF _ same_sum_refl])
  moreover have "same_sum (unat acc + (unat ?x + (unat ?y + byte_sum bs))) (unat acc + byte_sum (a # b # c # d # e # f # g # i # bs))"
    by (rule same_sum_add [OF same_sum_refl same_sum_trans [OF same_sum_add [OF same_sum_refl byte_sum_four] byte_sum_four]])
  ultimately have "same_sum (unat ?r + byte_sum bs) (unat acc + byte_sum (a # b # c # d # e # f # g # i # bs))"
    unfolding add.assoc by (rule same_sum_trans)
  then show ?case using same_sum_trans [OF h(1)] h(2) by simp
qed auto

subsection \<open>The routines compute the sum of the bytes\<close>

lemma swap_value:
  assumes "unat (s :: u32) < 65536"
  shows "same_sum (unat (ucast (SWAP_BYTES_IN_WORD s) :: u16)) (256 * unat s)" "same_sum (unat (ucast (rev16 s) :: u16)) (256 * unat s)"
    "unat (SWAP_BYTES_IN_WORD s) < 65536" "same_sum (unat (SWAP_BYTES_IN_WORD s)) (256 * unat s)" "unat (ucast s :: u16) = unat s"
proof -
  obtain a b where s: "s = ucast (un_le16 a b)" using halfword_bytes [OF assms] by blast
  have u: "(ucast (ucast w :: u32) :: u16) = w" for w :: u16 by (rule bit_word_eqI) (simp add: bit_simps)
  have v: "same_sum (unat (un_le16 b a)) (256 * unat s)" using same_sum_sym [OF same_sum_swap [of a b]] by (simp add: s unat_ucast_up)
  show "same_sum (unat (ucast (SWAP_BYTES_IN_WORD s) :: u16)) (256 * unat s)" "same_sum (unat (ucast (rev16 s) :: u16)) (256 * unat s)"
    "same_sum (unat (SWAP_BYTES_IN_WORD s)) (256 * unat s)"
    using v by (simp_all only: s swaps u unat_ucast_up)
  show "unat (SWAP_BYTES_IN_WORD s) < 65536"
    unfolding s swaps unat_ucast_up using unsigned_less [of "un_le16 b a", where 'a = nat] by simp
  show "unat (ucast s :: u16) = unat s" by (simp only: s u unat_ucast_up)
qed

lemma align2_sum:
  assumes "align2 addr data = (first, bs)" "same_sum n (256 * unat first + byte_sum bs)"
  shows "same_sum (if odd addr then 256 * n else n) (byte_sum data)"
proof (cases "odd addr \<and> data \<noteq> []")
  case True
  then have d: "data = first # bs" using assms(1) by (auto simp: align2_def)
  have "same_sum (256 * n) (256 * (256 * unat first + byte_sum bs))" by (rule same_sum_mult [OF assms(2)]) simp
  also have "256 * (256 * unat first + byte_sum bs) = 65536 * unat first + 256 * byte_sum bs" by simp
  also have "same_sum (65536 * unat first + 256 * byte_sum bs) (unat first + 256 * byte_sum bs)" by (rule same_sum_high)
  finally show ?thesis using True d by simp
next
  case False
  then have "first = 0" "bs = data" "odd addr \<Longrightarrow> data = []" using assms(1) by (auto simp: align2_def)
  then show ?thesis using assms(2) same_sum_mult [OF assms(2), of 256] by auto
qed

lemma align2_length: "align2 addr data = (first, bs) \<Longrightarrow> length bs \<le> length data"
  by (auto simp: align2_def split: if_splits)

lemma finish_chksum_sum:
  assumes "align2 addr data = (first, bs)" "same_sum (unat acc + byte_sum rest) (byte_sum bs)" "length rest \<le> 1" "unat acc + 65536 < 2 ^ 32"
  shows "same_sum (unat (finish_chksum addr acc first rest)) (byte_sum data)"
proof -
  define t where "t = un_le16 (if rest = [] then 0 else hd rest) first"
  define s where "s = FOLD_U32T (FOLD_U32T (acc + ucast t))"
  have t: "unat t = byte_sum rest + 256 * unat first" using assms(3) by (cases rest) (auto simp: t_def unat_un_le16)
  have "unat t < 65536" using unsigned_less [of t, where 'a = nat] by simp
  then have u: "unat (acc + ucast t) = unat acc + unat t" using assms(4) unat_add_lem [of acc "ucast t"] by (simp add: unat_ucast_up)
  have sm: "unat s < 65536" by (simp add: s_def FOLD_FOLD)
  have "same_sum (unat s) (unat (acc + ucast t))" unfolding s_def by (rule same_sum_trans [OF same_sum_FOLD same_sum_FOLD])
  also have "unat (acc + ucast t) = 256 * unat first + (unat acc + byte_sum rest)" by (simp only: u t ac_simps)
  also have "same_sum (256 * unat first + (unat acc + byte_sum rest)) (256 * unat first + byte_sum bs)" by (rule same_sum_add [OF same_sum_refl assms(2)])
  finally have "same_sum (if odd addr then 256 * unat s else unat s) (byte_sum data)" by (rule align2_sum [OF assms(1)])
  then show ?thesis using swap_value [OF sm] same_sum_trans
    unfolding finish_chksum_def Let_def t_def [symmetric] s_def [symmetric] by (auto split: if_splits)
qed

lemma align4_sum:
  assumes "align4 addr bs = (x, bs')"
  shows "same_sum (unat x + byte_sum bs') (byte_sum bs) \<and> unat x < 65536 \<and> length bs' \<le> length bs"
proof (cases "\<not> 4 dvd addr \<and> 1 < length bs")
  case True
  then obtain a b cs where bs: "bs = a # b # cs" by (cases bs; cases "tl bs") auto
  then have "x = ucast (un_le16 a b)" "bs' = cs" using assms True by (simp_all add: align4_def)
  then show ?thesis using bs byte_sum_two [of a b cs] unsigned_less [of "un_le16 a b", where 'a = nat] by (simp only: unat_ucast_up) simp
qed (use assms in \<open>auto simp: align4_def\<close>)

lemma chksum1_loop_sum:
  "unat acc + 65536 * length bs < 2 ^ 32 \<Longrightarrow>
    same_sum (unat (chksum1_loop bs acc)) (unat acc + 256 * byte_sum bs)"
proof (induction bs acc rule: chksum1_loop.induct)
  case (1 a b bs acc)
  have w: "unat (un_le16 b a) < 65536" using unsigned_less [of "un_le16 b a", where 'a = nat] by simp
  have e: "push_bit 8 (ucast a) OR ucast b = un_le16 b a" by (simp add: un_le16_def or.commute)
  have u: "unat (acc + ucast (un_le16 b a)) = unat acc + unat (un_le16 b a)"
    using w 1(2) unat_add_lem [of acc "ucast (un_le16 b a)"] by (simp add: unat_ucast_up)
  have "unat (acc + ucast (un_le16 b a)) + 65536 * length bs < 2 ^ 32" unfolding u using 1(2) w by simp
  then have "same_sum (unat (chksum1_loop (a # b # bs) acc)) (unat acc + unat (un_le16 b a) + 256 * byte_sum bs)"
    using 1(1) unfolding e u by (simp only: chksum1_loop.simps e)
  also have "same_sum \<dots> (unat acc + 256 * unat (un_le16 a b) + 256 * byte_sum bs)"
    by (rule same_sum_add [OF same_sum_add [OF same_sum_refl same_sum_sym [OF same_sum_swap]] same_sum_refl])
  also have "\<dots> = unat acc + 256 * (unat (un_le16 a b) + byte_sum bs)" by simp
  also have "same_sum \<dots> (unat acc + 256 * byte_sum (a # b # bs))"
    by (rule same_sum_add [OF same_sum_refl same_sum_mult [OF byte_sum_two]]) simp
  finally show ?case .
next
  case (2 a acc)
  have "unat (acc + ucast (push_bit 8 (ucast a :: u16))) = unat acc + 256 * unat a"
    using 2 unat_byte [of a] unat_add_lem [of acc "ucast (push_bit 8 (ucast a :: u16))"] by (simp add: unat_ucast_up unat_high_byte)
  then show ?case by simp
qed simp

lemma high_half_zero: "(w :: u32) AND 0xffff0000 = 0 \<Longrightarrow> unat w < 65536"
proof -
  assume h: "w AND 0xffff0000 = 0"
  have m: "(0xffff0000 :: u32) = NOT (mask 16)" by (simp add: mask_eq_exp_minus_1)
  have "w = (w AND mask 16) OR (w AND NOT (mask 16))" by (simp flip: bit.conj_disj_distrib)
  then have "w = take_bit 16 w" using h unfolding m by (simp add: take_bit_eq_mask)
  then have "unat w = take_bit 16 (unat w)" by (metis unsigned_take_bit_eq)
  moreover have "take_bit 16 (unat w) < 2 ^ 16" by (rule take_bit_nat_less_exp)
  ultimately show ?thesis by simp
qed

lemma standard_chksum1_sum:
  assumes "length data < 65536"
  shows "same_sum (unat (standard_chksum1 data)) (byte_sum data)"
proof -
  define acc where "acc = FOLD_U32T (chksum1_loop data 0)"
  define acc' where "acc' = (if acc AND 0xffff0000 \<noteq> 0 then FOLD_U32T acc else acc)"
  have b: "unat acc' < 65536" using FOLD_FOLD high_half_zero by (simp add: acc'_def acc_def)
  then obtain x y where x: "acc' = ucast (un_le16 x y)" using halfword_bytes by blast
  have "same_sum (unat acc') (unat acc)" using same_sum_FOLD by (simp add: acc'_def)
  also have "same_sum (unat acc) (unat (chksum1_loop data 0))" unfolding acc_def by (rule same_sum_FOLD)
  also have "same_sum (unat (chksum1_loop data 0)) (256 * byte_sum data)" using chksum1_loop_sum [of 0 data] assms by simp
  finally have "same_sum (256 * unat acc') (256 * (256 * byte_sum data))" by (rule same_sum_mult) simp
  then have s: "same_sum (256 * unat (un_le16 x y)) (65536 * byte_sum data)" by (simp add: x unat_ucast_up)
  have "(ucast (ucast (un_le16 x y) :: u32) :: u16) = un_le16 x y" by (rule bit_word_eqI) (simp add: bit_simps)
  then have "standard_chksum1 data = un_le16 y x"
    unfolding standard_chksum1_def Let_def acc_def [symmetric] acc'_def [symmetric] by (simp only: x swaps)
  then show ?thesis using same_sum_trans [OF same_sum_sym [OF same_sum_swap] same_sum_trans [OF s same_sum_65536]] by simp
qed

lemma standard_chksum2_sum:
  assumes "length data < 65536"
  shows "same_sum (unat (standard_chksum2 addr data)) (byte_sum data)"
proof -
  obtain first bs where a: "align2 addr data = (first, bs)" by fastforce
  obtain s rest where h: "halfwords bs 0 = (s, rest)" by fastforce
  have l: "length bs < 65536" using align2_length [OF a] assms by simp
  have hs: "same_sum (unat s + byte_sum rest) (byte_sum bs)" "length rest \<le> 1" "unat s \<le> 65535 * (length bs div 2)"
    using halfwords_sum [OF h] l by simp_all
  then have "unat s + 65536 < 2 ^ 32" using l by simp
  then show ?thesis using finish_chksum_sum [OF a hs(1,2)] by (simp add: standard_chksum2_def a h)
qed

lemma standard_chksum3_sum:
  "same_sum (unat (standard_chksum3 addr data)) (byte_sum data)"
proof -
  obtain first bs where a: "align2 addr data = (first, bs)" by fastforce
  define addr' where "addr' = (if odd addr \<and> data \<noteq> [] then addr + 1 else addr)"
  obtain x bs2 where x: "align4 addr' bs = (x, bs2)" by fastforce
  obtain s3 bs3 where w: "words_loop bs2 x = (s3, bs3)" by fastforce
  obtain s4 rest where h: "halfwords bs3 (FOLD_U32T s3) = (s4, rest)" by fastforce
  have "unat (FOLD_U32T s3) < 131072"
  proof -
    have "unat s3 div 65536 < 65536" using unsigned_less [of s3, where 'a = nat] by (simp add: less_mult_imp_div_less)
    then show ?thesis unfolding unat_FOLD using mod_less_divisor [of 65536 "unat s3"] by linarith
  qed
  moreover have "length bs3 < 8" using words_loop_sum [OF w] by simp
  then have "length bs3 div 2 \<le> 3" by simp
  ultimately have "unat (FOLD_U32T s3) + 65536 * (length bs3 div 2) < 131072 + 65536 * 4" by linarith
  then have hs: "same_sum (unat s4 + byte_sum rest) (unat (FOLD_U32T s3) + byte_sum bs3)" "length rest \<le> 1" "unat s4 + 65536 < 2 ^ 32"
    using halfwords_sum [OF h] by auto
  note hs(1)
  also have "same_sum (unat (FOLD_U32T s3) + byte_sum bs3) (unat s3 + byte_sum bs3)" by (rule same_sum_add [OF same_sum_FOLD same_sum_refl])
  also have "same_sum (unat s3 + byte_sum bs3) (unat x + byte_sum bs2)" using words_loop_sum [OF w] by simp
  also have "same_sum (unat x + byte_sum bs2) (byte_sum bs)" using align4_sum [OF x] by simp
  finally show ?thesis using finish_chksum_sum [OF a _ hs(2,3)] x w h by (simp add: standard_chksum3_def a addr'_def [symmetric])
qed

lemma thumb2_checksum_sum:
  "same_sum (unat (thumb2_checksum addr data)) (byte_sum data)"
proof (cases "odd addr \<and> data = []")
  case True
  then show ?thesis by (simp add: thumb2_checksum_def)
next
  case False
  obtain first bs where a: "align2 addr data = (first, bs)" by fastforce
  define addr' where "addr' = (if odd addr then addr + 1 else addr)"
  define r2 where "r2 = (push_bit 8 (ucast first) :: u32)"
  obtain x bs2 where x: "align4 addr' bs = (x, bs2)" by fastforce
  obtain r3 bs3 where w: "words_loop bs2 (r2 + x) = (r3, bs3)" by fastforce
  obtain r4 bs4 where h: "halfwords_carry bs3 r3 = (r4, bs4)" by fastforce
  define r5 where "r5 = (case bs4 of [] \<Rightarrow> r4 | b # _ \<Rightarrow> add_carry r4 (ucast b))"
  define r6 where "r6 = FOLD_U32T (FOLD_U32T r5)"
  have "r2 = of_nat (256 * unat first)" by (simp add: r2_def push_bit_eq_mult mult.commute)
  then have f: "unat r2 = 256 * unat first" using unat_byte [of first] by (simp add: unat_of_nat_small del: of_nat_mult of_nat_unat)
  have x2: "unat (r2 + x) = 256 * unat first + unat x"
    using unat_byte [of first] align4_sum [OF x] unat_add_lem [of r2 x] f by simp
  have t: "same_sum (unat r5) (unat r4 + byte_sum bs4)"
  proof (cases bs4)
    case (Cons b bs')
    then have "bs' = []" using halfwords_carry_sum [OF h] by simp
    then show ?thesis using Cons same_sum_add_carry [of r4 "ucast b"] by (simp add: r5_def unat_ucast_up)
  qed (simp add: r5_def)
  have "same_sum (unat r6) (unat r5)" unfolding r6_def by (rule same_sum_trans [OF same_sum_FOLD same_sum_FOLD])
  also note t
  also have "same_sum (unat r4 + byte_sum bs4) (unat r3 + byte_sum bs3)" using halfwords_carry_sum [OF h] by simp
  also have "same_sum (unat r3 + byte_sum bs3) (unat (r2 + x) + byte_sum bs2)" using words_loop_sum [OF w] by simp
  also have "unat (r2 + x) + byte_sum bs2 = 256 * unat first + (unat x + byte_sum bs2)" by (simp add: x2)
  also have "same_sum (256 * unat first + (unat x + byte_sum bs2)) (256 * unat first + byte_sum bs)"
    using align4_sum [OF x] by (intro same_sum_add [OF same_sum_refl]) simp
  finally have r: "same_sum (if odd addr then 256 * unat r6 else unat r6) (byte_sum data)" by (rule align2_sum [OF a])
  have "thumb2_checksum addr data = ucast (if odd addr then rev16 r6 else r6)"
    using x w h unfolding thumb2_checksum_def if_not_P [OF False]
    by (simp add: a addr'_def [symmetric] r2_def [symmetric] r5_def [symmetric] r6_def [symmetric])
  moreover have "unat r6 < 65536" by (simp add: r6_def FOLD_FOLD)
  ultimately show ?thesis using r swap_value [of r6] same_sum_trans by (auto split: if_splits)
qed

subsection \<open>What a checksum routine is for\<close>

text \<open>The contract of \<open>LWIP_CHKSUM\<close> for blocks of up to 65535 bytes, and what the packet code makes of it.\<close>

lemma unat_not16: "unat (NOT (w :: u16)) = 65535 - unat w"
proof -
  have "NOT w = - 1 - w" by (simp add: not_eq_complement)
  moreover have "unat (- 1 - w) = 65535 - unat w"
    using unat_sub [of w "- 1 :: u16"] by (simp add: unsigned_minus_1_eq_mask mask_eq_exp_minus_1)
  ultimately show ?thesis by (simp only:)
qed

lemma not_low_half:
  assumes "unat (s :: u32) < 65536"
  shows "unat (ucast (NOT (s AND 0xffff)) :: u16) = 65535 - unat s"
proof -
  have m: "(0xffff :: u32) = mask 16" by (simp add: mask_eq_exp_minus_1)
  have "(ucast (NOT (s AND 0xffff)) :: u16) = NOT (ucast s)" unfolding m by (rule bit_word_eqI) (auto simp: bit_simps)
  then show ?thesis using swap_value(5) [OF assms] by (simp add: unat_not16)
qed

lemma length_concat_member: "xs \<in> set xss \<Longrightarrow> length xs \<le> length (concat xss)"
  by (induction xss) auto

locale internet_checksum =
  fixes chk :: chksum
  assumes chk_sum: "length bs < 65536 \<Longrightarrow> same_sum (unat (chk addr bs)) (byte_sum bs)"
begin

lemma chk_unique:
  assumes "length bs < 65536" "same_sum (unat (v :: u16)) (byte_sum bs)"
  shows "chk addr bs = v"
proof -
  have "unat (chk addr bs) = unat v"
    using same_sum_unique [OF same_sum_trans [OF chk_sum same_sum_sym]] assms unsigned_less [of v, where 'a = nat]
      unsigned_less [of "chk addr bs", where 'a = nat] by simp
  then show ?thesis by (simp add: word_unat_eq_iff)
qed

text \<open>The accumulator stands for the bytes so far, with the two halves swapped after an odd number of them.\<close>

definition holds_sum :: "u32 \<Rightarrow> bool \<Rightarrow> nat \<Rightarrow> bool" where
  "holds_sum acc swapped n \<longleftrightarrow> unat acc < 65536 \<and> same_sum (unat acc) (if swapped then 256 * n else n)"

lemma chain_sum:
  assumes "\<forall>(addr, bs) \<in> set p. length bs < 65536" "holds_sum acc swapped (n + byte_sum done)" "swapped = odd (length done)"
    and "chksum_chain chk p acc swapped = (acc', swapped')"
  shows "holds_sum acc' swapped' (n + byte_sum (done @ concat (map snd p))) \<and> swapped' = odd (length (done @ concat (map snd p)))"
  using assms
proof (induction p arbitrary: acc swapped "done")
  case (Cons q p)
  obtain addr bs where q: "q = (addr, bs)" by fastforce
  define acc1 where "acc1 = FOLD_U32T (acc + ucast (chk addr bs))"
  let ?n = "n + byte_sum done" and ?n' = "n + byte_sum (done @ bs)"
  have c: "unat (chk addr bs) < 65536" "same_sum (unat (chk addr bs)) (byte_sum bs)"
    using chk_sum [of bs addr] Cons.prems(1) q unsigned_less [of "chk addr bs", where 'a = nat] by auto
  have a: "unat acc < 65536" "same_sum (unat acc) (if swapped then 256 * ?n else ?n)" using Cons.prems(2) by (simp_all add: holds_sum_def)
  have u: "unat (acc + ucast (chk addr bs)) = unat acc + unat (chk addr bs)"
    using a(1) c(1) unat_add_lem [of acc "ucast (chk addr bs)"] by (simp add: unat_ucast_up)
  have l: "unat acc1 < 65536" unfolding acc1_def by (rule FOLD_small) (use u a(1) c(1) in simp)
  have "same_sum (unat acc1) ((if swapped then 256 * ?n else ?n) + byte_sum bs)"
    unfolding acc1_def using same_sum_trans [OF same_sum_FOLD] same_sum_add [OF a(2) c(2)] by (simp add: u)
  also have "same_sum ((if swapped then 256 * ?n else ?n) + byte_sum bs) (if swapped then 256 * ?n' else ?n')"
  proof (cases swapped)
    case True
    have "same_sum (256 * ?n + byte_sum bs) (256 * ?n + 65536 * byte_sum bs)" by (rule same_sum_add [OF same_sum_refl same_sum_sym [OF same_sum_65536]])
    also have "\<dots> = 256 * n + 256 * (byte_sum done + 256 * byte_sum bs)" by simp
    also have "same_sum \<dots> (256 * n + 256 * byte_sum (done @ bs))"
      using byte_sum_odd_append [of "done" bs] Cons.prems(3) True by (intro same_sum_add [OF same_sum_refl] same_sum_mult) simp_all
    finally show ?thesis using True by (simp add: algebra_simps)
  next
    case False
    then show ?thesis using same_sum_add [OF same_sum_refl byte_sum_even_append, of "done" n bs] Cons.prems(3) by (simp add: add.assoc)
  qed
  finally have s1: "same_sum (unat acc1) (if swapped then 256 * ?n' else ?n')" .
  define sw where "sw = (swapped \<noteq> odd (length bs))"
  define acc2 where "acc2 = (if odd (length bs) then SWAP_BYTES_IN_WORD acc1 else acc1)"
  have "holds_sum acc2 sw ?n'"
  proof (cases "odd (length bs)")
    case True
    have "same_sum (unat acc2) (256 * unat acc1)" using swap_value(4) [OF l] True by (simp add: acc2_def)
    also have "same_sum (256 * unat acc1) (256 * (if swapped then 256 * ?n' else ?n'))" by (rule same_sum_mult [OF s1]) simp
    finally have f: "same_sum (unat acc2) (256 * (if swapped then 256 * ?n' else ?n'))" .
    have "same_sum (unat acc2) (if sw then 256 * ?n' else ?n')"
    proof (cases swapped)
      case True
      then have "same_sum (unat acc2) (65536 * ?n')" using f by simp
      then show ?thesis using same_sum_trans [OF _ same_sum_65536] True \<open>odd (length bs)\<close> by (simp add: sw_def)
    next
      case False
      then show ?thesis using f \<open>odd (length bs)\<close> by (simp add: sw_def)
    qed
    then show ?thesis using swap_value(3) [OF l] True by (simp add: holds_sum_def acc2_def)
  next
    case False
    then show ?thesis using s1 l by (simp add: holds_sum_def acc2_def sw_def)
  qed
  moreover have "chksum_chain chk p acc2 sw = (acc', swapped')"
    using Cons.prems(4) by (simp add: q acc1_def [symmetric] acc2_def sw_def Let_def split: if_splits)
  moreover have "sw = odd (length (done @ bs))" using Cons.prems(3) by (simp add: sw_def)
  ultimately have "holds_sum acc' swapped' (n + byte_sum ((done @ bs) @ concat (map snd p))) \<and> swapped' = odd (length ((done @ bs) @ concat (map snd p)))"
    using Cons.prems(1) by (intro Cons.IH) simp_all
  then show ?case unfolding q list.map snd_conv concat.simps append_assoc .
qed (simp add: holds_sum_def)

lemma chain_total:
  assumes "\<forall>(addr, bs) \<in> set p. length bs < 65536" "unat acc < 65536" "chksum_chain chk p acc False = (acc', swapped')"
    and "r = (if swapped' then SWAP_BYTES_IN_WORD acc' else acc')"
  shows "unat r < 65536 \<and> same_sum (unat r) (unat acc + byte_sum (concat (map snd p)))"
proof -
  have "holds_sum acc False (unat acc + byte_sum [])" using assms(2) by (simp add: holds_sum_def)
  moreover have "False = odd (length ([] :: u8 list))" by simp
  ultimately have "holds_sum acc' swapped' (unat acc + byte_sum ([] @ concat (map snd p)))"
    by (rule conjunct1 [OF chain_sum [OF assms(1) _ _ assms(3)]])
  then have h: "holds_sum acc' swapped' (unat acc + byte_sum (concat (map snd p)))" unfolding append_Nil .
  show ?thesis
  proof (cases swapped')
    case True
    then have l: "unat acc' < 65536" "same_sum (unat acc') (256 * (unat acc + byte_sum (concat (map snd p))))" using h by (simp_all add: holds_sum_def)
    have "same_sum (unat r) (256 * unat acc')" using swap_value(4) [OF l(1)] True assms(4) by simp
    also have "same_sum (256 * unat acc') (256 * (256 * (unat acc + byte_sum (concat (map snd p)))))" by (rule same_sum_mult [OF l(2)]) simp
    also have "\<dots> = 65536 * (unat acc + byte_sum (concat (map snd p)))" by simp
    also have "same_sum \<dots> (unat acc + byte_sum (concat (map snd p)))" by (rule same_sum_65536)
    finally show ?thesis using swap_value(3) [OF l(1)] True assms(4) by simp
  next
    case False
    then show ?thesis using h assms(4) by (simp add: holds_sum_def)
  qed
qed

lemma inet_chksum_pbuf_sum:
  assumes "\<forall>(addr, bs) \<in> set p. length bs < 65536"
  shows "\<exists>x \<le> 65535. unat (inet_chksum_pbuf chk p) = 65535 - x \<and> same_sum x (byte_sum (concat (map snd p)))"
proof -
  obtain acc sw where c: "chksum_chain chk p 0 False = (acc, sw)" by fastforce
  define r where "r = (if sw then SWAP_BYTES_IN_WORD acc else acc)"
  have r: "unat r < 65536" "same_sum (unat r) (byte_sum (concat (map snd p)))" using chain_total [OF assms _ c r_def] by simp_all
  then have "unat (inet_chksum_pbuf chk p) = 65535 - unat r" using not_low_half [OF r(1)] by (simp add: inet_chksum_pbuf_def c r_def)
  then show ?thesis using r by (intro exI [of _ "unat r"]) simp
qed

text \<open>A chain of packet buffers has the checksum of its bytes in one block.\<close>

lemma chain_is_block:
  assumes "length (concat (map snd p)) < 65536"
  shows "inet_chksum_pbuf chk p = inet_chksum chk addr (concat (map snd p))"
proof -
  have "length bs < 65536" if "(a, bs) \<in> set p" for a bs
  proof -
    have "bs \<in> set (map snd p)" using that by force
    then have "length bs \<le> length (concat (map snd p))" by (rule length_concat_member)
    then show ?thesis using assms by simp
  qed
  then obtain x where x: "x \<le> 65535" "unat (inet_chksum_pbuf chk p) = 65535 - x" "same_sum x (byte_sum (concat (map snd p)))"
    using inet_chksum_pbuf_sum [of p] by auto
  have c: "unat (chk addr (concat (map snd p))) < 65536" using unsigned_less [of "chk addr (concat (map snd p))", where 'a = nat] by simp
  then have "x = unat (chk addr (concat (map snd p)))"
    using same_sum_unique [OF same_sum_trans [OF x(3) same_sum_sym [OF chk_sum [OF assms]]] x(1)] by simp
  then show ?thesis using x(2) by (simp add: inet_chksum_def word_unat_eq_iff unat_not16)
qed

text \<open>The checksum with a pseudo header is the complement of the sum over pseudo header and data.\<close>

definition header_sum :: "u8 \<Rightarrow> u16 \<Rightarrow> u32 \<Rightarrow> u32 \<Rightarrow> nat" where
  "header_sum proto proto_len src dest =
     unat (pseudo_addresses src dest) + unat (lwip_htons (ucast proto)) + unat (lwip_htons proto_len)"

lemma pseudo_sum:
  assumes "\<forall>(addr, bs) \<in> set p. length bs < 65536"
  shows "\<exists>x \<le> 65535. unat (inet_chksum_pseudo chk p proto proto_len src dest) = 65535 - x
    \<and> same_sum x (byte_sum (concat (map snd p)) + header_sum proto proto_len src dest)"
proof -
  define acc where "acc = pseudo_addresses src dest"
  have a: "unat acc < 65536" by (simp add: acc_def pseudo_addresses_def FOLD_FOLD)
  obtain acc' sw where c: "chksum_chain chk p acc False = (acc', sw)" by fastforce
  define r where "r = (if sw then SWAP_BYTES_IN_WORD acc' else acc')"
  have r: "unat r < 65536" "same_sum (unat r) (unat acc + byte_sum (concat (map snd p)))" using chain_total [OF assms a c r_def] by simp_all
  define h1 where "h1 = lwip_htons (ucast proto)" define h2 where "h2 = lwip_htons proto_len"
  have h: "unat h1 < 65536" "unat h2 < 65536" using unsigned_less [of h1, where 'a = nat] unsigned_less [of h2, where 'a = nat] by simp_all
  have u: "unat (r + ucast h1 + ucast h2) = unat r + unat h1 + unat h2"
    using r(1) h unat_add_lem [of r "ucast h1"] unat_add_lem [of "r + ucast h1" "ucast h2"] by (simp add: unat_ucast_up)
  define s where "s = FOLD_U32T (FOLD_U32T (r + ucast h1 + ucast h2))"
  have s: "unat s < 65536" by (simp add: s_def FOLD_FOLD)
  have "same_sum (unat s) (unat (r + ucast h1 + ucast h2))" unfolding s_def by (rule same_sum_trans [OF same_sum_FOLD same_sum_FOLD])
  also have "unat (r + ucast h1 + ucast h2) = unat r + (unat h1 + unat h2)" by (simp add: u)
  also have "same_sum \<dots> (unat acc + byte_sum (concat (map snd p)) + (unat h1 + unat h2))" by (rule same_sum_add [OF r(2) same_sum_refl])
  finally have "same_sum (unat s) (byte_sum (concat (map snd p)) + header_sum proto proto_len src dest)"
    by (simp add: header_sum_def acc_def h1_def h2_def ac_simps)
  moreover have "unat (inet_chksum_pseudo chk p proto proto_len src dest) = 65535 - unat s"
    using not_low_half [OF s] by (simp add: inet_chksum_pseudo_def inet_cksum_pseudo_base_def acc_def [symmetric] c r_def [symmetric] h1_def [symmetric] h2_def [symmetric] s_def [symmetric])
  ultimately show ?thesis using s by (intro exI [of _ "unat s"]) simp
qed

end

interpretation std1: internet_checksum "\<lambda>addr. standard_chksum1"
  by unfold_locales (rule standard_chksum1_sum)

interpretation std2: internet_checksum standard_chksum2
  by unfold_locales (rule standard_chksum2_sum)

interpretation std3: internet_checksum standard_chksum3
  by unfold_locales (rule standard_chksum3_sum)

interpretation thumb2: internet_checksum thumb2_checksum
  by unfold_locales (rule thumb2_checksum_sum)

text \<open>C21: The assembly routine the firmware is built with gives, for any block of up to 65535 bytes at any address, what each of
  the three C routines of lwIP gives.\<close>

theorem checksum_routines_agree:
  assumes "length data < 65536"
  shows "thumb2_checksum addr data = standard_chksum1 data \<and> standard_chksum2 addr data = standard_chksum1 data
    \<and> standard_chksum3 addr data = standard_chksum1 data"
  using thumb2.chk_unique [OF assms standard_chksum1_sum [OF assms]] std2.chk_unique [OF assms standard_chksum1_sum [OF assms]]
    std3.chk_unique [OF assms standard_chksum1_sum [OF assms]] by simp

theorem checksum_routines_agree_witness:
  "thumb2_checksum 3 [0xFF, 0x01, 0x45] = standard_chksum1 [0xFF, 0x01, 0x45] \<and> standard_chksum1 [0xFF, 0x01, 0x45] = 0x0244"
  using checksum_routines_agree [of "[0xFF, 0x01, 0x45]" 3]
  by (simp add: standard_chksum1_def FOLD_U32T_def lwip_htons_def Let_def)

text \<open>The two bytes of the checksum field at an even position.\<close>

lemma byte_sum_field:
  assumes "even (length pre)"
  shows "same_sum (byte_sum (pre @ le16 c @ post)) (byte_sum (pre @ [0, 0] @ post) + unat c)"
proof -
  have "byte_sum (le16 c @ post) = unat (un_le16 (ucast c) (ucast (drop_bit 8 c))) + 65536 * byte_sum post"
    by (simp add: le16_def unat_un_le16)
  then have f: "byte_sum (le16 c @ post) = unat c + 65536 * byte_sum post" by (simp add: un_le16_le16)
  have "same_sum (byte_sum (pre @ le16 c @ post)) (byte_sum pre + (unat c + 65536 * byte_sum post))"
    using same_sum_sym [OF byte_sum_even_append [OF assms, of "le16 c @ post"]] unfolding f .
  also have "\<dots> = (byte_sum pre + byte_sum ([0, 0] @ post)) + unat c" by simp
  also have "same_sum \<dots> (byte_sum (pre @ [0, 0] @ post) + unat c)" by (rule same_sum_add [OF byte_sum_even_append [OF assms] same_sum_refl])
  finally show ?thesis .
qed

lemma stored_checksum_verifies:
  assumes "concat (map snd p) = pre @ [0, 0] @ post" "concat (map snd p') = pre @ le16 stored @ post" "even (length pre)"
    and "length (concat (map snd p)) < 65536"
    and "c = ip_chksum_pseudo thumb2_checksum p proto proto_len src dest" "stored = c \<or> c = 0 \<and> stored = 0xFFFF"
  shows "ip_chksum_pseudo thumb2_checksum p' proto proto_len src dest = 0"
proof -
  have len: "length (concat (map snd p')) = length (concat (map snd p))" using assms(1,2) by simp
  have ps: "\<forall>(addr, bs) \<in> set q. length bs < 65536" if "length (concat (map snd q)) < 65536" for q :: "(nat \<times> u8 list) list"
    using that length_concat_member [of _ "map snd q"] by force
  let ?h = "thumb2.header_sum proto proto_len src dest"
  obtain x where x: "x \<le> 65535" "unat c = 65535 - x" "same_sum x (byte_sum (concat (map snd p)) + ?h)"
    using thumb2.pseudo_sum [OF ps [OF assms(4)], of proto proto_len src dest] assms(5) by (auto simp: ip_chksum_pseudo_def)
  obtain y where y: "y \<le> 65535" "unat (ip_chksum_pseudo thumb2_checksum p' proto proto_len src dest) = 65535 - y"
      "same_sum y (byte_sum (concat (map snd p')) + ?h)"
    using thumb2.pseudo_sum [OF ps, of p' proto proto_len src dest] assms(4) len by (auto simp: ip_chksum_pseudo_def)
  have "same_sum (byte_sum (concat (map snd p')) + ?h) (byte_sum (concat (map snd p)) + unat stored + ?h)"
    unfolding assms(1,2) by (rule same_sum_add [OF byte_sum_field [OF assms(3)] same_sum_refl])
  also have "\<dots> = (byte_sum (concat (map snd p)) + ?h) + unat stored" by simp
  also have "same_sum \<dots> (x + unat stored)" by (rule same_sum_add [OF same_sum_sym [OF x(3)] same_sum_refl])
  also have "same_sum (x + unat stored) 65535"
  proof (cases "c = 0")
    case True
    then have "x = 65535" "unat stored = 65535 \<or> unat stored = 0" using x(1,2) assms(6) by auto
    then show ?thesis by (auto simp: same_sum_def)
  next
    case False
    then show ?thesis using x(1,2) assms(6) by simp
  qed
  finally have "same_sum y 65535" using same_sum_trans [OF y(3)] by simp
  then have "y = 65535" using same_sum_unique y(1) by simp
  then show ?thesis using y(2) by (simp add: unat_eq_zero)
qed

text \<open>C22: What the sender of a UDP packet stores as its checksum makes the receiver's sum come out as zero: the sum is computed with the
  field zeroed, over the packet and the pseudo header, and stored at an even position, where \<open>udp_sendto_if_src\<close> stores \<open>0xFFFF\<close> for a
  sum of zero; a sum stored as it is, zero or not, verifies as well. How the packet is split into buffers, and where they lie in memory,
  does not matter on either side.\<close>

theorem packet_checksum_verifies:
  assumes "concat (map snd p) = pre @ [0, 0] @ post" "concat (map snd p') = pre @ le16 stored @ post" "even (length pre)"
    and "length (concat (map snd p)) < 65536"
    and "c = ip_chksum_pseudo thumb2_checksum p proto proto_len src dest" "stored = c \<or> c = 0 \<and> stored = 0xFFFF"
  shows "ip_chksum_pseudo thumb2_checksum p' proto proto_len src dest = 0"
  by (rule stored_checksum_verifies [OF assms])

theorem packet_checksum_verifies_witness:
  "ip_chksum_pseudo thumb2_checksum [(0, [1, 2] @ le16 (ip_chksum_pseudo thumb2_checksum [(0, [1]), (7, [2, 0, 0, 5])] 17 5 0x0a0a0a0a 0x0b0a0a0a) @ [5])]
     17 5 0x0a0a0a0a 0x0b0a0a0a = 0"
proof -
  let ?c = "ip_chksum_pseudo thumb2_checksum [(0, [1]), (7, [2, 0, 0, 5])] 17 5 0x0a0a0a0a 0x0b0a0a0a"
  have "?c \<noteq> 0"
    by (simp add: ip_chksum_pseudo_def inet_chksum_pseudo_def inet_cksum_pseudo_base_def thumb2_checksum_def pseudo_addresses_def FOLD_U32T_def
        align2_def align4_def rev16_def un_le16_def add_carry_def lwip_htons_def SWAP_BYTES_IN_WORD_def Let_def)
  then show ?thesis
    using packet_checksum_verifies [where p = "[(0, [1]), (7, [2, 0, 0, 5])]" and pre = "[1, 2]" and post = "[5]" and c = ?c
        and stored = ?c and p' = "[(0, [1, 2] @ le16 ?c @ [5])]" and proto = 17 and proto_len = 5 and src = "0x0a0a0a0a" and dest = "0x0b0a0a0a"]
    by simp
qed

end
