(* ===== verification/Pbuf.thy ===== *)
theory Pbuf
  imports Prelude "HOL-Library.Monad_Syntax"
begin

unbundle bit_operations_syntax

text \<open>
  Packet buffers (\<open>lwip/src/core/pbuf.c\<close>): a packet is a chain of \<open>struct pbuf\<close> on a heap of addresses, each with the memory its
  payload pointer goes into. \<open>None\<close> is undefined behaviour: a null or dangling pointer followed, or memory outside of the
  buffer's accessed; the assertions of the code are off. Allocation from the pools is modelled with the pools; the heap
  (\<open>mem_malloc\<close>) is a parameter that gives the address and the memory of a block of a size, if there is one. Custom packet
  buffers, which only IP fragmentation uses, and memory shared between two buffers are not modelled.
\<close>

datatype pbuf_type = PBUF_RAM | PBUF_ROM | PBUF_REF | PBUF_POOL

text \<open>\<open>blk\<close> is the memory behind the structure (or the memory it refers to), \<open>beg\<close> where in it the payload pointer is.\<close>

record pbuf =
  nxt :: "nat option"
  blk :: "u8 list"
  beg :: nat
  ptot :: u16
  plen :: u16
  ptype :: pbuf_type
  pref :: u8

text \<open>A free element of the pool keeps the bytes it last had.\<close>

record pmem =
  store :: "nat \<Rightarrow> pbuf option"
  pool :: "(nat \<times> u8 list) list"
  refs :: "nat list"

type_synonym malloc = "nat \<Rightarrow> (nat \<times> u8 list) option"

definition PBUF_TRANSPORT :: nat where "PBUF_TRANSPORT = 54"
definition PBUF_IP :: nat where "PBUF_IP = 34"
definition PBUF_LINK :: nat where "PBUF_LINK = 14"
definition PBUF_RAW :: nat where "PBUF_RAW = 0"
definition MEM_ALIGN_SIZE :: "nat \<Rightarrow> nat" where "MEM_ALIGN_SIZE n = (n + 3) div 4 * 4"
definition SIZEOF_STRUCT_PBUF :: nat where "SIZEOF_STRUCT_PBUF = 16"
definition PBUF_POOL_BUFSIZE :: nat where "PBUF_POOL_BUFSIZE = MEM_ALIGN_SIZE (1460 + 20 + 20 + 14)"
definition PBUF_POOL_SIZE :: nat where "PBUF_POOL_SIZE = 24"

definition pbuf_at :: "nat option \<Rightarrow> pmem \<Rightarrow> (nat \<times> pbuf) option" where
  "pbuf_at p m = (case p of None \<Rightarrow> None | Some a \<Rightarrow> map_option (\<lambda>x. (a, x)) (store m a))"

definition set_pbuf :: "nat \<Rightarrow> pbuf \<Rightarrow> pmem \<Rightarrow> pmem" where
  "set_pbuf a x m = m\<lparr>store := (store m)(a \<mapsto> x)\<rparr>"

text \<open>\<open>n\<close> bytes at \<open>payload + off\<close>, read and written.\<close>

definition payload_read :: "pbuf \<Rightarrow> nat \<Rightarrow> nat \<Rightarrow> u8 list option" where
  "payload_read x off n = (if beg x + off + n \<le> length (blk x) then Some (take n (drop (beg x + off) (blk x))) else None)"

definition payload_write :: "nat \<Rightarrow> nat \<Rightarrow> u8 list \<Rightarrow> pmem \<Rightarrow> pmem option" where
  "payload_write a off bs m =
     do { x \<leftarrow> store m a;
          blk' \<leftarrow> blit_checked (blk x) (beg x + off) bs;
          Some (set_pbuf a (x\<lparr>blk := blk'\<rparr>) m) }"

definition pbuf_init_alloced_pbuf :: "u8 list \<Rightarrow> nat \<Rightarrow> u16 \<Rightarrow> u16 \<Rightarrow> pbuf_type \<Rightarrow> pbuf" where
  "pbuf_init_alloced_pbuf mem payload tot len type =
     \<lparr>nxt = None, blk = mem, beg = payload, ptot = tot, plen = len, ptype = type, pref = 1\<rparr>"

subsection \<open>Releasing\<close>

definition release :: "nat \<Rightarrow> pbuf \<Rightarrow> pmem \<Rightarrow> pmem" where
  "release a x m =
     (let m1 = m\<lparr>store := (store m)(a := None)\<rparr> in
      case ptype x of
        PBUF_POOL \<Rightarrow> m1\<lparr>pool := (a, blk x) # pool m1\<rparr>
      | PBUF_ROM \<Rightarrow> m1\<lparr>refs := a # refs m1\<rparr>
      | PBUF_REF \<Rightarrow> m1\<lparr>refs := a # refs m1\<rparr>
      | PBUF_RAM \<Rightarrow> m1)"

partial_function (option) pbuf_free_loop :: "nat option \<Rightarrow> u8 \<Rightarrow> pmem \<Rightarrow> (u8 \<times> pmem) option" where
  "pbuf_free_loop p count m =
     (case p of None \<Rightarrow> Some (count, m)
      | Some _ \<Rightarrow>
          do { (a, x) \<leftarrow> pbuf_at p m;
               let r = pref x - 1;
               (if r = 0 then pbuf_free_loop (nxt x) (count + 1) (release a x m)
                else Some (count, set_pbuf a (x\<lparr>pref := r\<rparr>) m)) })"

definition pbuf_free :: "nat option \<Rightarrow> pmem \<Rightarrow> (u8 \<times> pmem) option" where "pbuf_free p m = pbuf_free_loop p 0 m"

definition pbuf_ref :: "nat option \<Rightarrow> pmem \<Rightarrow> pmem option" where
  "pbuf_ref p m =
     (case p of None \<Rightarrow> Some m
      | Some _ \<Rightarrow> do { (a, x) \<leftarrow> pbuf_at p m; Some (set_pbuf a (x\<lparr>pref := pref x + 1\<rparr>) m) })"

subsection \<open>Allocation\<close>

definition set_next :: "nat option \<Rightarrow> nat option \<Rightarrow> pmem \<Rightarrow> pmem option" where
  "set_next p q m = do { (a, x) \<leftarrow> pbuf_at p m; Some (set_pbuf a (x\<lparr>nxt := q\<rparr>) m) }"

text \<open>The loop over the pool: \<open>p\<close> is the head of the chain so far, \<open>prev\<close> its last buffer.\<close>

fun alloc_pool_loop :: "(nat \<times> u8 list) list \<Rightarrow> nat \<Rightarrow> nat \<Rightarrow> nat option \<Rightarrow> nat option \<Rightarrow> pmem \<Rightarrow> (nat option \<times> pmem) option" where
  "alloc_pool_loop [] offset rem_len p prev m =
     (case p of None \<Rightarrow> Some (None, m) | Some _ \<Rightarrow> do { (_, m') \<leftarrow> pbuf_free p m; Some (None, m') })"
| "alloc_pool_loop ((q, b) # qs) offset rem_len p prev m =
     (let qlen = min rem_len (PBUF_POOL_BUFSIZE - MEM_ALIGN_SIZE offset);
          m1 = set_pbuf q (pbuf_init_alloced_pbuf b (MEM_ALIGN_SIZE offset) (of_nat rem_len) (of_nat qlen) PBUF_POOL) (m\<lparr>pool := qs\<rparr>) in
      do { m2 \<leftarrow> (case p of None \<Rightarrow> Some m1 | Some _ \<Rightarrow> set_next prev (Some q) m1);
           let p' = (case p of None \<Rightarrow> Some q | Some _ \<Rightarrow> p);
           (if 0 < rem_len - qlen then alloc_pool_loop qs 0 (rem_len - qlen) p' (Some q) m2 else Some (p', m2)) })"

definition pbuf_alloc_reference :: "u8 list \<Rightarrow> u16 \<Rightarrow> pbuf_type \<Rightarrow> pmem \<Rightarrow> nat option \<times> pmem" where
  "pbuf_alloc_reference payload len type m =
     (case refs m of [] \<Rightarrow> (None, m)
      | a # as \<Rightarrow> (Some a, set_pbuf a (pbuf_init_alloced_pbuf payload 0 len len type) (m\<lparr>refs := as\<rparr>)))"

text \<open>\<open>mem_size_t\<close> has 16 bits; a size that does not fit is refused.\<close>

definition pbuf_alloc_ram :: "malloc \<Rightarrow> nat \<Rightarrow> u16 \<Rightarrow> pmem \<Rightarrow> nat option \<times> pmem" where
  "pbuf_alloc_ram malloc layer len m =
     (let payload_len = of_nat (MEM_ALIGN_SIZE layer + MEM_ALIGN_SIZE (unat len)) :: u16;
          alloc_len = of_nat (MEM_ALIGN_SIZE SIZEOF_STRUCT_PBUF) + payload_len in
      if unat payload_len < MEM_ALIGN_SIZE (unat len) \<or> unat alloc_len < MEM_ALIGN_SIZE (unat len) then (None, m)
      else (case malloc (unat alloc_len) of None \<Rightarrow> (None, m)
            | Some (a, b) \<Rightarrow> (Some a, set_pbuf a (pbuf_init_alloced_pbuf b (MEM_ALIGN_SIZE layer) len len PBUF_RAM) m)))"

definition pbuf_alloc :: "malloc \<Rightarrow> nat \<Rightarrow> u16 \<Rightarrow> pbuf_type \<Rightarrow> pmem \<Rightarrow> (nat option \<times> pmem) option" where
  "pbuf_alloc malloc layer len type m =
     (case type of
        PBUF_REF \<Rightarrow> Some (pbuf_alloc_reference [] len type m)
      | PBUF_ROM \<Rightarrow> Some (pbuf_alloc_reference [] len type m)
      | PBUF_POOL \<Rightarrow> alloc_pool_loop (pool m) layer (unat len) None None m
      | PBUF_RAM \<Rightarrow> Some (pbuf_alloc_ram malloc layer len m))"

subsection \<open>Headers\<close>

definition contiguous :: "pbuf_type \<Rightarrow> bool" where "contiguous t \<longleftrightarrow> t = PBUF_RAM \<or> t = PBUF_POOL"

text \<open>The result of the function, zero for success; a forced header in front of memory that is referred to needs that memory.\<close>

definition pbuf_add_header_impl :: "nat option \<Rightarrow> nat \<Rightarrow> bool \<Rightarrow> pmem \<Rightarrow> (u8 \<times> pmem) option" where
  "pbuf_add_header_impl p sz force m =
     (if p = None \<or> 0xFFFF < sz then Some (1, m)
      else if sz = 0 then Some (0, m)
      else
        do { (a, x) \<leftarrow> pbuf_at p m;
             let increment = (of_nat sz :: u16);
             (if increment + ptot x < increment then Some (1, m)
              else if contiguous (ptype x) \<and> beg x < sz then Some (1, m)
              else if \<not> contiguous (ptype x) \<and> \<not> force then Some (1, m)
              else if beg x < sz then None
              else Some (0, set_pbuf a (x\<lparr>beg := beg x - sz, plen := plen x + increment, ptot := ptot x + increment\<rparr>) m)) })"

definition pbuf_add_header :: "nat option \<Rightarrow> nat \<Rightarrow> pmem \<Rightarrow> (u8 \<times> pmem) option" where
  "pbuf_add_header p sz m = pbuf_add_header_impl p sz False m"

definition pbuf_add_header_force :: "nat option \<Rightarrow> nat \<Rightarrow> pmem \<Rightarrow> (u8 \<times> pmem) option" where
  "pbuf_add_header_force p sz m = pbuf_add_header_impl p sz True m"

definition pbuf_remove_header :: "nat option \<Rightarrow> nat \<Rightarrow> pmem \<Rightarrow> (u8 \<times> pmem) option" where
  "pbuf_remove_header p sz m =
     (if p = None \<or> 0xFFFF < sz then Some (1, m)
      else if sz = 0 then Some (0, m)
      else
        do { (a, x) \<leftarrow> pbuf_at p m;
             let decrement = (of_nat sz :: u16);
             (if plen x < decrement then Some (1, m)
              else Some (0, set_pbuf a (x\<lparr>beg := beg x + sz, plen := plen x - decrement, ptot := ptot x - decrement\<rparr>) m)) })"

definition pbuf_header_impl :: "nat option \<Rightarrow> int \<Rightarrow> bool \<Rightarrow> pmem \<Rightarrow> (u8 \<times> pmem) option" where
  "pbuf_header_impl p inc force m =
     (if inc < 0 then pbuf_remove_header p (nat (- inc)) m else pbuf_add_header_impl p (nat inc) force m)"

definition pbuf_header :: "nat option \<Rightarrow> int \<Rightarrow> pmem \<Rightarrow> (u8 \<times> pmem) option" where
  "pbuf_header p inc m = pbuf_header_impl p inc False m"

definition pbuf_header_force :: "nat option \<Rightarrow> int \<Rightarrow> pmem \<Rightarrow> (u8 \<times> pmem) option" where
  "pbuf_header_force p inc m = pbuf_header_impl p inc True m"

partial_function (option) pbuf_free_header :: "nat option \<Rightarrow> nat \<Rightarrow> pmem \<Rightarrow> (nat option \<times> pmem) option" where
  "pbuf_free_header p free_left m =
     (if free_left = 0 \<or> p = None then Some (p, m)
      else
        do { (a, x) \<leftarrow> pbuf_at p m;
             (if unat (plen x) \<le> free_left then
                do { (_, m') \<leftarrow> pbuf_free p (set_pbuf a (x\<lparr>nxt := None\<rparr>) m);
                     pbuf_free_header (nxt x) (free_left - unat (plen x)) m' }
              else do { (_, m') \<leftarrow> pbuf_remove_header p free_left m; Some (p, m') }) })"

subsection \<open>Chains\<close>

partial_function (option) pbuf_clen_loop :: "nat option \<Rightarrow> u16 \<Rightarrow> pmem \<Rightarrow> u16 option" where
  "pbuf_clen_loop p n m =
     (case p of None \<Rightarrow> Some n | Some _ \<Rightarrow> do { (_, x) \<leftarrow> pbuf_at p m; pbuf_clen_loop (nxt x) (n + 1) m })"

definition pbuf_clen :: "nat option \<Rightarrow> pmem \<Rightarrow> u16 option" where "pbuf_clen p m = pbuf_clen_loop p 0 m"

text \<open>All buffers of the head chain get the length of the tail added, the last one its link.\<close>

partial_function (option) pbuf_cat_loop :: "nat option \<Rightarrow> nat option \<Rightarrow> pmem \<Rightarrow> pmem option" where
  "pbuf_cat_loop p t m =
     do { (a, x) \<leftarrow> pbuf_at p m;
          (_, y) \<leftarrow> pbuf_at t m;
          (if nxt x \<noteq> None then pbuf_cat_loop (nxt x) t (set_pbuf a (x\<lparr>ptot := ptot x + ptot y\<rparr>) m)
           else Some (set_pbuf a (x\<lparr>ptot := ptot x + ptot y, nxt := t\<rparr>) m)) }"

definition pbuf_cat :: "nat option \<Rightarrow> nat option \<Rightarrow> pmem \<Rightarrow> pmem option" where
  "pbuf_cat h t m = (if h = None \<or> t = None then Some m else pbuf_cat_loop h t m)"

definition pbuf_chain :: "nat option \<Rightarrow> nat option \<Rightarrow> pmem \<Rightarrow> pmem option" where
  "pbuf_chain h t m = do { m1 \<leftarrow> pbuf_cat h t m; pbuf_ref t m1 }"

definition pbuf_dechain :: "nat option \<Rightarrow> pmem \<Rightarrow> (nat option \<times> pmem) option" where
  "pbuf_dechain p m =
     do { (a, x) \<leftarrow> pbuf_at p m;
          (case nxt x of None \<Rightarrow> Some (None, m)
           | Some _ \<Rightarrow>
               do { (b, y) \<leftarrow> pbuf_at (nxt x) m;
                    let m1 = set_pbuf b (y\<lparr>ptot := ptot x - plen x\<rparr>) m;
                    (a, x1) \<leftarrow> pbuf_at p m1;
                    (gone, m2) \<leftarrow> pbuf_free (nxt x) (set_pbuf a (x1\<lparr>nxt := None, ptot := plen x1\<rparr>) m1);
                    Some (if 0 < gone then None else nxt x, m2) }) }"

text \<open>\<open>mem_trim\<close> shrinks the block in place. The first loop steps over the buffers that stay.\<close>

partial_function (option) realloc_loop :: "nat option \<Rightarrow> nat \<Rightarrow> u16 \<Rightarrow> pmem \<Rightarrow> (nat \<times> nat \<times> pmem) option" where
  "realloc_loop q rem_len shrink m =
     do { (a, x) \<leftarrow> pbuf_at q m;
          (if unat (plen x) < rem_len then realloc_loop (nxt x) (rem_len - unat (plen x)) shrink (set_pbuf a (x\<lparr>ptot := ptot x - shrink\<rparr>) m)
           else Some (a, rem_len, m)) }"

definition pbuf_realloc :: "nat option \<Rightarrow> u16 \<Rightarrow> pmem \<Rightarrow> pmem option" where
  "pbuf_realloc p new_len m =
     do { (_, x) \<leftarrow> pbuf_at p m;
          (if ptot x \<le> new_len then Some m
           else
             do { (a, rem_len, m1) \<leftarrow> realloc_loop p (unat new_len) (ptot x - new_len) m;
                  (_, y) \<leftarrow> pbuf_at (Some a) m1;
                  let blk' = (if ptype y = PBUF_RAM \<and> rem_len \<noteq> unat (plen y) then take (beg y + rem_len) (blk y) else blk y);
                  let m2 = set_pbuf a (y\<lparr>blk := blk', plen := of_nat rem_len, ptot := of_nat rem_len\<rparr>) m1;
                  m3 \<leftarrow> (case nxt y of None \<Rightarrow> Some m2 | Some _ \<Rightarrow> do { (_, m') \<leftarrow> pbuf_free (nxt y) m2; Some m' });
                  set_next (Some a) None m3 }) }"

subsection \<open>Reading\<close>

partial_function (option) pbuf_skip :: "nat option \<Rightarrow> nat \<Rightarrow> pmem \<Rightarrow> (nat option \<times> nat) option" where
  "pbuf_skip q offset_left m =
     (case q of None \<Rightarrow> Some (None, offset_left)
      | Some _ \<Rightarrow>
          do { (_, x) \<leftarrow> pbuf_at q m;
               (if unat (plen x) \<le> offset_left then pbuf_skip (nxt x) (offset_left - unat (plen x)) m else Some (q, offset_left)) })"

text \<open>The application's buffer and the number of bytes copied to it.\<close>

partial_function (option) copy_partial_loop ::
  "nat option \<Rightarrow> u8 list \<Rightarrow> nat \<Rightarrow> nat \<Rightarrow> nat \<Rightarrow> pmem \<Rightarrow> (u8 list \<times> nat) option" where
  "copy_partial_loop p buf left len offset m =
     (if len = 0 \<or> p = None then Some (buf, left)
      else
        do { (_, x) \<leftarrow> pbuf_at p m;
             (if offset \<noteq> 0 \<and> unat (plen x) \<le> offset then copy_partial_loop (nxt x) buf left len (offset - unat (plen x)) m
              else
                (let n = min (unat (plen x) - offset) len in
                 do { bs \<leftarrow> payload_read x offset n;
                      buf' \<leftarrow> blit_checked buf left bs;
                      copy_partial_loop (nxt x) buf' (left + n) (len - n) 0 m })) })"

definition pbuf_copy_partial :: "nat option \<Rightarrow> u8 list \<Rightarrow> u16 \<Rightarrow> u16 \<Rightarrow> pmem \<Rightarrow> (u8 list \<times> nat) option" where
  "pbuf_copy_partial p buf len offset m = (if p = None then Some (buf, 0) else copy_partial_loop p buf 0 (unat len) (unat offset) m)"

text \<open>The bytes at the pointer that is returned, if one is.\<close>

definition pbuf_get_contiguous :: "nat option \<Rightarrow> u8 list \<Rightarrow> u16 \<Rightarrow> u16 \<Rightarrow> pmem \<Rightarrow> u8 list option option" where
  "pbuf_get_contiguous p buffer len offset m =
     (if p = None \<or> length buffer < unat len then Some None
      else
        do { (q, out_offset) \<leftarrow> pbuf_skip p (unat offset) m;
             (case q of None \<Rightarrow> Some None
              | Some _ \<Rightarrow>
                  do { (_, x) \<leftarrow> pbuf_at q m;
                       (if out_offset + unat len \<le> unat (plen x) then map_option Some (payload_read x out_offset (unat len))
                        else
                          do { (buf, n) \<leftarrow> pbuf_copy_partial q buffer len (of_nat out_offset) m;
                               Some (if n \<noteq> unat len then None else Some (take (unat len) buf)) }) }) })"

definition pbuf_try_get_at :: "nat option \<Rightarrow> nat \<Rightarrow> pmem \<Rightarrow> int option" where
  "pbuf_try_get_at p offset m =
     do { (q, q_idx) \<leftarrow> pbuf_skip p offset m;
          (case q of None \<Rightarrow> Some (- 1)
           | Some _ \<Rightarrow>
               do { (_, x) \<leftarrow> pbuf_at q m;
                    (if q_idx < unat (plen x) then map_option (\<lambda>bs. uint (hd bs)) (payload_read x q_idx 1) else Some (- 1)) }) }"

definition pbuf_get_at :: "nat option \<Rightarrow> nat \<Rightarrow> pmem \<Rightarrow> u8 option" where
  "pbuf_get_at p offset m = map_option (\<lambda>r. if 0 \<le> r then word_of_int r else 0) (pbuf_try_get_at p offset m)"

text \<open>\<open>i\<close> counts the bytes compared; the result is one more than the place of the first difference.\<close>

fun memcmp_loop :: "nat option \<Rightarrow> nat \<Rightarrow> nat \<Rightarrow> u8 list \<Rightarrow> pmem \<Rightarrow> u16 option" where
  "memcmp_loop q start i [] m = Some 0"
| "memcmp_loop q start i (b # bs) m =
     do { a \<leftarrow> pbuf_get_at q (unat (of_nat (start + i) :: u16)) m;
          (if a \<noteq> b then Some (of_nat (min (i + 1) 0xFFFF)) else memcmp_loop q start (i + 1) bs m) }"

definition pbuf_memcmp :: "nat option \<Rightarrow> nat \<Rightarrow> u8 list \<Rightarrow> pmem \<Rightarrow> u16 option" where
  "pbuf_memcmp p offset s2 m =
     do { (_, x) \<leftarrow> pbuf_at p m;
          (if unat (ptot x) < offset + length s2 then Some 0xFFFF
           else do { (q, start) \<leftarrow> pbuf_skip p offset m; memcmp_loop q start 0 s2 m }) }"

partial_function (option) memfind_loop :: "nat option \<Rightarrow> u8 list \<Rightarrow> u16 \<Rightarrow> u16 \<Rightarrow> pmem \<Rightarrow> u16 option" where
  "memfind_loop p mem i max_cmp_start m =
     (if i \<le> max_cmp_start then
        do { plus \<leftarrow> pbuf_memcmp p (unat i) mem m;
             (if plus = 0 then Some i else memfind_loop p mem (i + 1) max_cmp_start m) }
      else Some 0xFFFF)"

definition pbuf_memfind :: "nat option \<Rightarrow> u8 list \<Rightarrow> u16 \<Rightarrow> pmem \<Rightarrow> u16 option" where
  "pbuf_memfind p mem start_offset m =
     do { (_, x) \<leftarrow> pbuf_at p m;
          (if length mem + unat start_offset \<le> unat (ptot x) then memfind_loop p mem start_offset (ptot x - of_nat (length mem)) m
           else Some 0xFFFF) }"

definition pbuf_strstr :: "nat option \<Rightarrow> u8 list \<Rightarrow> pmem \<Rightarrow> u16 option" where
  "pbuf_strstr p substr m =
     (if substr = [] then Some 0xFFFF
      else
        do { (_, x) \<leftarrow> pbuf_at p m;
             (if ptot x = 0xFFFF then Some 0xFFFF
              else if 0xFFFF \<le> length substr then Some 0xFFFF
              else pbuf_memfind p substr 0 m) })"

subsection \<open>Writing\<close>

partial_function (option) take_loop :: "nat option \<Rightarrow> u8 list \<Rightarrow> pmem \<Rightarrow> pmem option" where
  "take_loop p bs m =
     (if bs = [] then Some m
      else
        do { (a, x) \<leftarrow> pbuf_at p m;
             m1 \<leftarrow> payload_write a 0 (take (unat (plen x)) bs) m;
             take_loop (nxt x) (drop (unat (plen x)) bs) m1 })"

definition pbuf_take :: "nat option \<Rightarrow> u8 list \<Rightarrow> pmem \<Rightarrow> (err \<times> pmem) option" where
  "pbuf_take p bs m =
     (case p of None \<Rightarrow> Some (ERR_ARG, m)
      | Some _ \<Rightarrow>
          do { (_, x) \<leftarrow> pbuf_at p m;
               (if unat (ptot x) < length bs then Some (ERR_MEM, m) else map_option (\<lambda>m'. (ERR_OK, m')) (take_loop p bs m)) })"

definition pbuf_take_at :: "nat option \<Rightarrow> u8 list \<Rightarrow> nat \<Rightarrow> pmem \<Rightarrow> (err \<times> pmem) option" where
  "pbuf_take_at p bs offset m =
     do { (q, target_offset) \<leftarrow> pbuf_skip p offset m;
          (case q of None \<Rightarrow> Some (ERR_MEM, m)
           | Some _ \<Rightarrow>
               do { (a, x) \<leftarrow> pbuf_at q m;
                    (if target_offset + length bs \<le> unat (ptot x) then
                       (let n = min (unat (plen x) - target_offset) (length bs) in
                        do { m1 \<leftarrow> payload_write a target_offset (take n bs) m;
                             (if n < length bs then pbuf_take (nxt x) (drop n bs) m1 else Some (ERR_OK, m1)) })
                     else Some (ERR_MEM, m)) }) }"

definition pbuf_put_at :: "nat option \<Rightarrow> nat \<Rightarrow> u8 \<Rightarrow> pmem \<Rightarrow> pmem option" where
  "pbuf_put_at p offset b m =
     do { (q, q_idx) \<leftarrow> pbuf_skip p offset m;
          (case q of None \<Rightarrow> Some m
           | Some _ \<Rightarrow>
               do { (a, x) \<leftarrow> pbuf_at q m;
                    (if q_idx < unat (plen x) then payload_write a q_idx [b] m else Some m) }) }"

text \<open>The copy between two chains. The differences of a length and an offset are of the unsigned type \<open>size_t\<close>.\<close>

definition size_diff :: "nat \<Rightarrow> nat \<Rightarrow> nat" where
  "size_diff a b = (if b \<le> a then a - b else 2 ^ 32 + a - b)"

partial_function (option) copy_pbuf_loop ::
  "nat option \<Rightarrow> nat \<Rightarrow> nat option \<Rightarrow> nat \<Rightarrow> nat \<Rightarrow> pmem \<Rightarrow> (err \<times> pmem) option" where
  "copy_pbuf_loop p_to offset_to p_from offset_from copy_len m =
     do { (a, x) \<leftarrow> pbuf_at p_to m;
          (_, y) \<leftarrow> pbuf_at p_from m;
          let len = min copy_len (min (size_diff (unat (plen y)) offset_from) (size_diff (unat (plen x)) offset_to));
          bs \<leftarrow> payload_read y offset_from len;
          m1 \<leftarrow> payload_write a offset_to bs m;
          let copy_len' = copy_len - len;
          let (p_from', offset_from') = (if unat (plen y) \<le> offset_from + len then (nxt y, 0) else (p_from, offset_from + len));
          let (p_to', offset_to') = (if offset_to + len = unat (plen x) then (nxt x, 0) else (p_to, offset_to + len));
          (if p_from' = None \<and> copy_len' \<noteq> 0 \<or> p_to' = None \<and> copy_len' \<noteq> 0 then Some (ERR_ARG, m1)
           else
             do { queue_from \<leftarrow> (case p_from' of None \<Rightarrow> Some False
                      | Some _ \<Rightarrow> do { (_, y) \<leftarrow> pbuf_at p_from' m1; Some (plen y = ptot y \<and> nxt y \<noteq> None) });
                  queue_to \<leftarrow> (case p_to' of None \<Rightarrow> Some False
                      | Some _ \<Rightarrow> do { (_, x) \<leftarrow> pbuf_at p_to' m1; Some (plen x = ptot x \<and> nxt x \<noteq> None) });
                  (if queue_from \<or> queue_to then Some (ERR_VAL, m1)
                   else if copy_len' = 0 then Some (ERR_OK, m1)
                   else copy_pbuf_loop p_to' offset_to' p_from' offset_from' copy_len' m1) }) }"

definition pbuf_copy_partial_pbuf :: "nat option \<Rightarrow> nat option \<Rightarrow> u16 \<Rightarrow> u16 \<Rightarrow> pmem \<Rightarrow> (err \<times> pmem) option" where
  "pbuf_copy_partial_pbuf p_to p_from copy_len offset m =
     (case p_from of None \<Rightarrow> Some (ERR_ARG, m)
      | Some _ \<Rightarrow>
          do { (_, y) \<leftarrow> pbuf_at p_from m;
               (if ptot y < copy_len then Some (ERR_ARG, m)
                else
                  (case p_to of None \<Rightarrow> Some (ERR_ARG, m)
                   | Some _ \<Rightarrow>
                       do { (_, x) \<leftarrow> pbuf_at p_to m;
                            (if unat (ptot x) < unat offset + unat copy_len then Some (ERR_ARG, m)
                             else copy_pbuf_loop p_to (unat offset) p_from 0 (unat copy_len) m) })) })"

definition pbuf_copy :: "nat option \<Rightarrow> nat option \<Rightarrow> pmem \<Rightarrow> (err \<times> pmem) option" where
  "pbuf_copy p_to p_from m =
     (case p_from of None \<Rightarrow> Some (ERR_ARG, m)
      | Some _ \<Rightarrow> do { (_, y) \<leftarrow> pbuf_at p_from m; pbuf_copy_partial_pbuf p_to p_from (ptot y) 0 m })"

definition pbuf_clone :: "malloc \<Rightarrow> nat \<Rightarrow> pbuf_type \<Rightarrow> nat option \<Rightarrow> pmem \<Rightarrow> (nat option \<times> pmem) option" where
  "pbuf_clone malloc layer type p m =
     do { (_, x) \<leftarrow> pbuf_at p m;
          (q, m1) \<leftarrow> pbuf_alloc malloc layer (ptot x) type m;
          (case q of None \<Rightarrow> Some (None, m1)
           | Some _ \<Rightarrow> do { (_, m2) \<leftarrow> pbuf_copy q p m1; Some (q, m2) }) }"

definition pbuf_coalesce :: "malloc \<Rightarrow> nat \<Rightarrow> nat option \<Rightarrow> pmem \<Rightarrow> (nat option \<times> pmem) option" where
  "pbuf_coalesce malloc layer p m =
     do { (_, x) \<leftarrow> pbuf_at p m;
          (if nxt x = None then Some (p, m)
           else
             do { (q, m1) \<leftarrow> pbuf_clone malloc layer PBUF_RAM p m;
                  (case q of None \<Rightarrow> Some (p, m1)
                   | Some _ \<Rightarrow> do { (_, m2) \<leftarrow> pbuf_free p m1; Some (q, m2) }) }) }"

end
