(* ===== verification/PbufChains.thy ===== *)
theory PbufChains
  imports Pbuf
begin

text \<open>
  Packet buffers as byte sequences: the abstraction of a chain on the heap to the list of its addresses and of those to the bytes of
  the packet, and what each operation of \<open>Pbuf\<close> does to them.
\<close>

subsection \<open>The abstraction\<close>

fun chain :: "pmem \<Rightarrow> nat option \<Rightarrow> nat list \<Rightarrow> bool" where
  "chain m p [] \<longleftrightarrow> p = None"
| "chain m p (a # as) \<longleftrightarrow> p = Some a \<and> (\<exists>x. store m a = Some x \<and> beg x + unat (plen x) \<le> length (blk x) \<and> chain m (nxt x) as)"

definition buf_bytes :: "pbuf \<Rightarrow> u8 list" where "buf_bytes x = take (unat (plen x)) (drop (beg x) (blk x))"

fun chain_bytes :: "pmem \<Rightarrow> nat list \<Rightarrow> u8 list" where
  "chain_bytes m [] = []"
| "chain_bytes m (a # as) = buf_bytes (the (store m a)) @ chain_bytes m as"

text \<open>The invariant of \<open>struct pbuf\<close>: the total length of a buffer is that of what follows from it on.\<close>

fun totals :: "pmem \<Rightarrow> nat list \<Rightarrow> bool" where
  "totals m [] \<longleftrightarrow> True"
| "totals m (a # as) \<longleftrightarrow> unat (ptot (the (store m a))) = length (chain_bytes m (a # as)) \<and> totals m as"

definition packet :: "pmem \<Rightarrow> nat option \<Rightarrow> nat list \<Rightarrow> bool" where
  "packet m p as \<longleftrightarrow> chain m p as \<and> distinct as \<and> totals m as"

lemma length_buf_bytes: "beg x + unat (plen x) \<le> length (blk x) \<Longrightarrow> length (buf_bytes x) = unat (plen x)"
  by (simp add: buf_bytes_def)

lemma payload_read_bytes:
  "beg x + unat (plen x) \<le> length (blk x) \<Longrightarrow> off + n \<le> unat (plen x) \<Longrightarrow> payload_read x off n = Some (take n (drop off (buf_bytes x)))"
  by (simp add: payload_read_def buf_bytes_def drop_take add.commute min_def)

lemma chain_bytes_append [simp]: "chain_bytes m (as @ bs) = chain_bytes m as @ chain_bytes m bs"
  by (induction as) simp_all

lemma chain_bytes_cong: "(\<And>a. a \<in> set as \<Longrightarrow> store m a = store m' a) \<Longrightarrow> chain_bytes m as = chain_bytes m' as"
  by (induction as) simp_all

lemma chain_cong: "(\<And>a. a \<in> set as \<Longrightarrow> store m a = store m' a) \<Longrightarrow> chain m p as = chain m' p as"
  by (induction as arbitrary: p) auto

lemma totals_cong: "(\<And>a. a \<in> set as \<Longrightarrow> store m a = store m' a) \<Longrightarrow> totals m as = totals m' as"
proof (induction as)
  case (Cons a as)
  then have "chain_bytes m (a # as) = chain_bytes m' (a # as)" by (intro chain_bytes_cong) auto
  then show ?case using Cons by simp
qed simp

lemma packet_cong: "(\<And>a. a \<in> set as \<Longrightarrow> store m a = store m' a) \<Longrightarrow> packet m p as = packet m' p as"
  using chain_cong [of as m m' p] totals_cong [of as m m'] by (simp add: packet_def)

lemma chain_some: "chain m (Some a) as \<Longrightarrow> \<exists>bs x. as = a # bs \<and> store m a = Some x \<and> beg x + unat (plen x) \<le> length (blk x) \<and> chain m (nxt x) bs"
  by (cases as) auto

lemma pbuf_at_simps [simp]: "pbuf_at None m = None" "store m a = Some x \<Longrightarrow> pbuf_at (Some a) m = Some (a, x)"
  by (simp_all add: pbuf_at_def)

lemma store_set_pbuf [simp]: "store (set_pbuf a x m) = (store m)(a \<mapsto> x)" "pool (set_pbuf a x m) = pool m" "refs (set_pbuf a x m) = refs m"
  by (simp_all add: set_pbuf_def)

lemma set_pbuf_frame [simp, frame_simps]:
  assumes "a \<notin> set as"
  shows "chain (set_pbuf a x m) p as = chain m p as" "totals (set_pbuf a x m) as = totals m as"
    "chain_bytes (set_pbuf a x m) as = chain_bytes m as" "packet (set_pbuf a x m) p as = packet m p as"
  using assms by (auto intro!: chain_cong totals_cong chain_bytes_cong packet_cong)

text \<open>The last buffer of a chain linked to another chain.\<close>

lemma chain_link:
  assumes "c \<notin> set init" "c \<notin> set bs" "store m c = Some z" "chain m t bs"
  shows "chain m s (init @ [c]) \<Longrightarrow> chain (set_pbuf c (z\<lparr>nxt := t\<rparr>) m) s (init @ c # bs)"
  using assms(1)
proof (induction init arbitrary: s)
  case Nil
  have "chain (set_pbuf c (z\<lparr>nxt := t\<rparr>) m) t bs = chain m t bs" using assms(2) by (intro chain_cong) auto
  then show ?case using Nil assms(3,4) by auto
qed auto

lemma chain_stored: "chain m p as \<Longrightarrow> a \<in> set as \<Longrightarrow> store m a \<noteq> None"
  by (induction as arbitrary: p) auto

lemma packet_total:
  assumes "packet m (Some a) as"
  shows "\<exists>x. store m a = Some x \<and> unat (ptot x) = length (chain_bytes m as)"
  using assms by (cases as) (auto simp: packet_def)

subsection \<open>Reading\<close>

lemma clen: "chain m p as \<Longrightarrow> pbuf_clen_loop p n m = Some (n + of_nat (length as))"
  by (induction as arbitrary: p n) (auto simp: pbuf_clen_loop.simps)

lemma skip_chain:
  assumes "chain m p as"
  shows "\<exists>q pre post off'. pbuf_skip p off m = Some (q, off') \<and> as = pre @ post \<and> chain m q post \<and> off = length (chain_bytes m pre) + off'
      \<and> (\<forall>a bs. post = a # bs \<longrightarrow> off' < length (buf_bytes (the (store m a))))"
  using assms
proof (induction as arbitrary: p off)
  case Nil
  then show ?case by (simp add: pbuf_skip.simps [of None])
next
  case (Cons a as)
  then obtain x where x: "p = Some a" "store m a = Some x" "beg x + unat (plen x) \<le> length (blk x)" "chain m (nxt x) as" by auto
  have len: "length (buf_bytes x) = unat (plen x)" using x(3) by (rule length_buf_bytes)
  show ?case
  proof (cases "unat (plen x) \<le> off")
    case True
    obtain q pre post off' where i: "pbuf_skip (nxt x) (off - unat (plen x)) m = Some (q, off')" "as = pre @ post" "chain m q post"
        "off - unat (plen x) = length (chain_bytes m pre) + off'" "\<forall>a bs. post = a # bs \<longrightarrow> off' < length (buf_bytes (the (store m a)))"
      using Cons.IH [OF x(4)] by blast
    have "pbuf_skip p off m = Some (q, off')" by (subst pbuf_skip.simps) (use x True i(1) in simp)
    then show ?thesis using i x(2) len True by (intro exI [of _ q] exI [of _ "a # pre"] exI [of _ post] exI [of _ off']) auto
  next
    case False
    have "pbuf_skip p off m = Some (p, off)" by (subst pbuf_skip.simps) (use x False in simp)
    then show ?thesis using Cons.prems x(2) len False by (intro exI [of _ p] exI [of _ "[]"] exI [of _ "a # as"] exI [of _ off]) auto
  qed
qed

lemma try_get_at:
  assumes "chain m p as"
  shows "pbuf_try_get_at p off m = Some (if off < length (chain_bytes m as) then uint (chain_bytes m as ! off) else - 1)"
proof -
  obtain q pre post off' where s: "pbuf_skip p off m = Some (q, off')" "as = pre @ post" "chain m q post" "off = length (chain_bytes m pre) + off'"
    "\<forall>a bs. post = a # bs \<longrightarrow> off' < length (buf_bytes (the (store m a)))"
    using skip_chain [OF assms, of off] by blast
  show ?thesis
  proof (cases post)
    case Nil
    then show ?thesis using s by (simp add: pbuf_try_get_at_def)
  next
    case (Cons a bs)
    then obtain x where x: "q = Some a" "store m a = Some x" "beg x + unat (plen x) \<le> length (blk x)" using s(3) by auto
    have len: "length (buf_bytes x) = unat (plen x)" using x(3) by (rule length_buf_bytes)
    then have o: "off' < unat (plen x)" using s(5) Cons x(2) by simp
    have "payload_read x off' 1 = Some [buf_bytes x ! off']"
      using payload_read_bytes [OF x(3), of off' 1] o len by (simp add: take_Suc_conv_app_nth hd_drop_conv_nth take_Suc)
    moreover have "off < length (chain_bytes m as)" "chain_bytes m as ! off = buf_bytes x ! off'"
      using s(2,4) Cons x(2) o len by (simp_all add: nth_append)
    ultimately show ?thesis using s(1) x o by (simp add: pbuf_try_get_at_def)
  qed
qed

lemma get_at:
  "chain m p as \<Longrightarrow> pbuf_get_at p off m = Some (if off < length (chain_bytes m as) then chain_bytes m as ! off else 0)"
  by (simp add: pbuf_get_at_def try_get_at)

lemma blit_append: "off + length b + length c \<le> length dst \<Longrightarrow> blit (blit dst off b) (off + length b) c = blit dst off (b @ c)"
  by (simp add: blit_def add.assoc add.left_commute add.commute)

lemma copy_partial_chain:
  assumes "chain m p as" "left + min len (length (chain_bytes m as) - off) \<le> length buf"
  shows "copy_partial_loop p buf left len off m
    = Some (blit buf left (take len (drop off (chain_bytes m as))), left + min len (length (chain_bytes m as) - off))"
  using assms
proof (induction as arbitrary: p buf left len off)
  case Nil
  then show ?case by (simp add: copy_partial_loop.simps [of None] blit_def)
next
  case (Cons a as)
  then obtain x where x: "p = Some a" "store m a = Some x" "beg x + unat (plen x) \<le> length (blk x)" "chain m (nxt x) as" by auto
  have len: "length (buf_bytes x) = unat (plen x)" using x(3) by (rule length_buf_bytes)
  show ?case
  proof (cases "len = 0")
    case True
    then show ?thesis by (subst copy_partial_loop.simps) (simp add: blit_def)
  next
    case pos: False
    show ?thesis
    proof (cases "off \<noteq> 0 \<and> unat (plen x) \<le> off")
      case True
      then have "copy_partial_loop p buf left len off m = copy_partial_loop (nxt x) buf left len (off - unat (plen x)) m"
        by (subst copy_partial_loop.simps) (use x pos in simp)
      also have "\<dots> = Some (blit buf left (take len (drop (off - unat (plen x)) (chain_bytes m as))),
          left + min len (length (chain_bytes m as) - (off - unat (plen x))))"
        using Cons.prems(2) x(2) len True by (intro Cons.IH [OF x(4)]) simp
      finally show ?thesis using x(2) len True by simp
    next
      case False
      then have o: "off \<le> unat (plen x)" by auto
      define n where "n = min (unat (plen x) - off) len"
      define b where "b = take n (drop off (buf_bytes x))"
      have b: "payload_read x off n = Some b" "length b = n"
      proof -
      have n: "off + n \<le> unat (plen x)" using o by (auto simp: n_def)
      then show "payload_read x off n = Some b" unfolding b_def by (rule payload_read_bytes [OF x(3)])
      show "length b = n" using n len by (simp add: b_def)
    qed
      have fit: "left + n + min (len - n) (length (chain_bytes m as)) \<le> length buf"
        using Cons.prems(2) x(2) len o by (auto simp: n_def min_def split: if_splits)
      then have "copy_partial_loop p buf left len off m = copy_partial_loop (nxt x) (blit buf left b) (left + n) (len - n) 0 m"
        by (subst copy_partial_loop.simps) (use x pos False b in \<open>auto simp: n_def [symmetric] blit_checked_def\<close>)
      also have "\<dots> = Some (blit (blit buf left b) (left + n) (take (len - n) (drop 0 (chain_bytes m as))),
          left + n + min (len - n) (length (chain_bytes m as) - 0))"
        using fit b(2) by (intro Cons.IH [OF x(4)]) simp
      also have "blit (blit buf left b) (left + n) (take (len - n) (drop 0 (chain_bytes m as))) = blit buf left (b @ take (len - n) (chain_bytes m as))"
        using blit_append [of left b "take (len - n) (chain_bytes m as)" buf] fit b(2) by (simp add: min_def split: if_splits)
      also have "b @ take (len - n) (chain_bytes m as) = take len (drop off (chain_bytes m (a # as)))"
        using x(2) len o by (simp add: b_def n_def min_def)
      finally show ?thesis using x(2) len o by (auto simp: n_def min_def)
    qed
  qed
qed

subsection \<open>Searching\<close>

lemma memcmp_chain:
  assumes "chain m q as" "start + i + length s2 \<le> length (chain_bytes m as)" "length (chain_bytes m as) < 65536"
  shows "\<exists>r. memcmp_loop q start i s2 m = Some r \<and> (r = 0 \<longleftrightarrow> take (length s2) (drop (start + i) (chain_bytes m as)) = s2)"
  using assms(2)
proof (induction s2 arbitrary: i)
  case Nil
  then show ?case by simp
next
  case (Cons b bs)
  have k: "start + i < length (chain_bytes m as)" using Cons.prems by simp
  have "unat (of_nat (start + i) :: u16) = start + i" using k assms(3) by (intro unat_of_nat_small) simp
  then have g: "pbuf_get_at q (unat (of_nat (start + i) :: u16)) m = Some (chain_bytes m as ! (start + i))"
    using get_at [OF assms(1)] k by simp
  have d: "drop (start + i) (chain_bytes m as) = chain_bytes m as ! (start + i) # drop (start + Suc i) (chain_bytes m as)"
    using k by (simp add: Cons_nth_drop_Suc)
  have n: "(of_nat (min (Suc i) 65535) :: u16) \<noteq> 0"
  proof
    assume "(of_nat (min (Suc i) 65535) :: u16) = 0"
    then have "unat (of_nat (min (Suc i) 65535) :: u16) = 0" by simp
    moreover have "unat (of_nat (min (Suc i) 65535) :: u16) = min (Suc i) 65535" by (intro unat_of_nat_small) simp
    ultimately show False by simp
  qed
  obtain r where "memcmp_loop q start (Suc i) bs m = Some r" "r = 0 \<longleftrightarrow> take (length bs) (drop (start + Suc i) (chain_bytes m as)) = bs"
    using Cons.IH [of "Suc i"] Cons.prems by auto
  then show ?case using g d n by auto
qed

lemma memcmp_packet:
  assumes "packet m p as" "as \<noteq> []"
  shows "\<exists>r. pbuf_memcmp p off s2 m = Some r \<and> (r = 0 \<longleftrightarrow> off + length s2 \<le> length (chain_bytes m as)
    \<and> take (length s2) (drop off (chain_bytes m as)) = s2)"
proof -
  have c: "chain m p as" using assms(1) by (simp add: packet_def)
  then obtain a where p: "p = Some a" using assms(2) by (cases as) auto
  obtain x where x: "store m a = Some x" "unat (ptot x) = length (chain_bytes m as)" using packet_total assms(1) p by blast
  have small: "length (chain_bytes m as) < 65536" using x(2) unsigned_less [of "ptot x", where 'a = nat] by simp
  show ?thesis
  proof (cases "off + length s2 \<le> length (chain_bytes m as)")
    case True
    obtain q pre post off' where s: "pbuf_skip p off m = Some (q, off')" "as = pre @ post" "chain m q post" "off = length (chain_bytes m pre) + off'"
      using skip_chain [OF c, of off] by blast
    obtain r where "memcmp_loop q off' 0 s2 m = Some r" "r = 0 \<longleftrightarrow> take (length s2) (drop off' (chain_bytes m post)) = s2"
      using memcmp_chain [OF s(3), of off' 0 s2] True small s(2,4) by auto
    then show ?thesis using True x p s by (simp add: pbuf_memcmp_def)
  next
    case False
    then show ?thesis using x p by (simp add: pbuf_memcmp_def)
  qed
qed

text \<open>The search finds the first place, and comes to an end also when the last place to look at is the largest 16-bit number.\<close>

lemma memfind_chain:
  assumes "packet m p as" "as \<noteq> []" "unat n + length mem = length (chain_bytes m as)" "n \<noteq> 0xFFFF \<or> mem = []"
  shows "\<exists>r. memfind_loop p mem i n m = Some r
    \<and> (if \<exists>k. unat i \<le> k \<and> k \<le> unat n \<and> take (length mem) (drop k (chain_bytes m as)) = mem
       then unat r = (LEAST k. unat i \<le> k \<and> take (length mem) (drop k (chain_bytes m as)) = mem) else r = 0xFFFF)"
proof (induction "unat n + 1 - unat i" arbitrary: i)
  case 0
  then have "\<not> i \<le> n" by (simp add: word_le_nat_alt)
  then show ?case by (subst memfind_loop.simps) (use 0 in auto)
next
  case (Suc d)
  let ?P = "\<lambda>k. take (length mem) (drop k (chain_bytes m as)) = mem"
  have le: "unat i \<le> unat n" "i \<le> n" using Suc(2) by (simp_all add: word_le_nat_alt)
  obtain r where r: "pbuf_memcmp p (unat i) mem m = Some r" "r = 0 \<longleftrightarrow> ?P (unat i)"
    using memcmp_packet [OF assms(1,2), of "unat i" mem] assms(3) le(1) by auto
  show ?case
  proof (cases "?P (unat i)")
    case True
    then have "(LEAST k. unat i \<le> k \<and> ?P k) = unat i" by (intro Least_equality) auto
    then show ?thesis by (subst memfind_loop.simps) (use True r le in auto)
  next
    case False
    then have "n \<noteq> 0xFFFF" using assms(4) by (cases "mem = []") auto
    moreover have "unat n < 65536" using unsigned_less [of n, where 'a = nat] by simp
    ultimately have "unat n < 65535" by (auto simp: word_unat_eq_iff)
    then have s: "unat (i + 1) = unat i + 1" using le(1) by (simp add: unat_word_ariths)
    have "k \<noteq> unat i" if "?P k" for k using that False by auto
    then have e: "(unat (i + 1) \<le> k \<and> ?P k) = (unat i \<le> k \<and> ?P k)" for k unfolding s by (auto simp: Suc_le_eq order_le_less)
    then have e': "(unat (i + 1) \<le> k \<and> k \<le> unat n \<and> ?P k) = (unat i \<le> k \<and> k \<le> unat n \<and> ?P k)" for k by auto
    have "memfind_loop p mem i n m = memfind_loop p mem (i + 1) n m" by (subst memfind_loop.simps) (use False r le in simp)
    moreover have "d = unat n + 1 - unat (i + 1)" using Suc(2) s by simp
    ultimately show ?thesis using Suc.hyps(1) [of "i + 1"] by (simp only: e e')
  qed
qed

lemma memfind_packet:
  assumes "packet m p as" "as \<noteq> []" "length (chain_bytes m as) < 0xFFFF"
  shows "\<exists>r. pbuf_memfind p mem i m = Some r
    \<and> (if \<exists>k. unat i \<le> k \<and> k + length mem \<le> length (chain_bytes m as) \<and> take (length mem) (drop k (chain_bytes m as)) = mem
       then unat r = (LEAST k. unat i \<le> k \<and> take (length mem) (drop k (chain_bytes m as)) = mem) else r = 0xFFFF)"
proof -
  obtain a where p: "p = Some a" using assms(1,2) by (cases as) (auto simp: packet_def)
  obtain x where x: "store m a = Some x" "unat (ptot x) = length (chain_bytes m as)" using packet_total assms(1) p by blast
  show ?thesis
  proof (cases "length mem + unat i \<le> length (chain_bytes m as)")
    case True
    have l: "unat (of_nat (length mem) :: u16) = length mem" using True assms(3) by (intro unat_of_nat_small) simp
    then have n: "unat (ptot x - of_nat (length mem)) + length mem = length (chain_bytes m as)"
      using True x(2) by (subst unat_sub) (simp_all add: word_le_nat_alt)
    then have "ptot x - of_nat (length mem) \<noteq> 0xFFFF \<or> mem = []" using assms(3) by auto
    moreover have "k \<le> unat (ptot x - of_nat (length mem)) \<longleftrightarrow> k + length mem \<le> length (chain_bytes m as)" for k using n by linarith
    ultimately show ?thesis using memfind_chain [OF assms(1,2) n, of i] True x p by (simp add: pbuf_memfind_def)
  next
    case False
    then show ?thesis using x p by (auto simp: pbuf_memfind_def)
  qed
qed

subsection \<open>Writing\<close>

text \<open>Only memory of the buffers in \<open>A\<close> changes.\<close>

definition reblk :: "nat set \<Rightarrow> pmem \<Rightarrow> pmem \<Rightarrow> bool" where
  "reblk A m m' \<longleftrightarrow> pool m' = pool m \<and> refs m' = refs m \<and> (\<forall>a. a \<notin> A \<longrightarrow> store m' a = store m a)
     \<and> (\<forall>a x. store m a = Some x \<longrightarrow> (\<exists>b. store m' a = Some (x\<lparr>blk := b\<rparr>) \<and> length b = length (blk x)))"

lemma reblk_refl: "reblk A m m"
proof -
  have "\<exists>b. x = x\<lparr>blk := b\<rparr> \<and> length b = length (blk x)" for x :: pbuf by (rule exI [of _ "blk x"]) simp
  then show ?thesis by (simp add: reblk_def)
qed

lemma reblk_trans:
  assumes "reblk A m m1" "reblk B m1 m2"
  shows "reblk (A \<union> B) m m2"
proof -
  have "\<exists>b. store m2 a = Some (x\<lparr>blk := b\<rparr>) \<and> length b = length (blk x)" if x: "store m a = Some x" for a x
  proof -
    obtain b1 where b1: "store m1 a = Some (x\<lparr>blk := b1\<rparr>)" "length b1 = length (blk x)" using assms(1) x unfolding reblk_def by blast
    obtain b2 where "store m2 a = Some (x\<lparr>blk := b1\<rparr>\<lparr>blk := b2\<rparr>)" "length b2 = length (blk (x\<lparr>blk := b1\<rparr>))"
      using assms(2) b1(1) unfolding reblk_def by blast
    then show ?thesis using b1(2) by auto
  qed
  then show ?thesis using assms by (simp add: reblk_def)
qed

lemma reblk_at:
  assumes "reblk A m m'" "store m a = Some x"
  obtains b where "store m' a = Some (x\<lparr>blk := b\<rparr>)" "length b = length (blk x)"
  using assms unfolding reblk_def by blast

lemma reblk_chain:
  assumes "reblk A m m'"
  shows "chain m p as \<Longrightarrow> chain m' p as \<and> length (chain_bytes m' as) = length (chain_bytes m as)"
proof (induction as arbitrary: p)
  case (Cons a as)
  then obtain x where x: "p = Some a" "store m a = Some x" "beg x + unat (plen x) \<le> length (blk x)" "chain m (nxt x) as" by auto
  obtain b where b: "store m' a = Some (x\<lparr>blk := b\<rparr>)" "length b = length (blk x)" using reblk_at [OF assms x(2)] .
  show ?case using x b Cons.IH [OF x(4)] by (simp add: length_buf_bytes)
qed simp

lemma reblk_totals: "reblk A m m' \<Longrightarrow> chain m p as \<Longrightarrow> totals m as \<Longrightarrow> totals m' as"
proof (induction as arbitrary: p)
  case (Cons a as)
  then obtain x where x: "store m a = Some x" "chain m (nxt x) as" by auto
  obtain b where b: "store m' a = Some (x\<lparr>blk := b\<rparr>)" using reblk_at [OF Cons.prems(1) x(1)] .
  have "length (chain_bytes m' (a # as)) = length (chain_bytes m (a # as))" using reblk_chain [OF Cons.prems(1,2)] by blast
  then show ?case using Cons x b by simp
qed simp

lemma reblk_packet: "reblk A m m' \<Longrightarrow> packet m p as \<Longrightarrow> packet m' p as"
  using reblk_chain reblk_totals unfolding packet_def by blast

lemma take_of_blit:
  assumes "off + length bs \<le> k" "k \<le> length dst"
  shows "take k (blit dst off bs) = blit (take k dst) off bs"
proof -
  have "min k off = off" "min off k = off" "min (k - off) (length bs) = length bs" using assms(1) by simp_all
  then show ?thesis using assms by (simp add: blit_def drop_take)
qed

lemma payload_write_bytes:
  assumes "store m a = Some x" "beg x + unat (plen x) \<le> length (blk x)" "off + length bs \<le> unat (plen x)"
  obtains m' where "payload_write a off bs m = Some m'" "reblk {a} m m'" "buf_bytes (the (store m' a)) = blit (buf_bytes x) off bs"
proof
  let ?b = "blit (blk x) (beg x + off) bs"
  show "payload_write a off bs m = Some (set_pbuf a (x\<lparr>blk := ?b\<rparr>) m)"
    using assms by (simp add: payload_write_def blit_checked_def)
  show "reblk {a} m (set_pbuf a (x\<lparr>blk := ?b\<rparr>) m)"
  proof -
    have "\<exists>b. y = y\<lparr>blk := b\<rparr> \<and> length b = length (blk y)" for y :: pbuf by (rule exI [of _ "blk y"]) simp
    then show ?thesis using assms by (auto simp: reblk_def)
  qed
  have "drop (beg x) ?b = blit (drop (beg x) (blk x)) off bs" using assms(2,3) by (simp add: blit_def drop_take add.commute add.left_commute)
  then show "buf_bytes (the (store (set_pbuf a (x\<lparr>blk := ?b\<rparr>) m) a)) = blit (buf_bytes x) off bs"
    using assms(2,3) take_of_blit [of off bs "unat (plen x)" "drop (beg x) (blk x)"] by (simp add: buf_bytes_def)
qed

lemma take_chain:
  assumes "chain m p as" "distinct as" "length bs \<le> length (chain_bytes m as)"
  shows "\<exists>m'. take_loop p bs m = Some m' \<and> reblk (set as) m m' \<and> chain_bytes m' as = bs @ drop (length bs) (chain_bytes m as)"
  using assms
proof (induction as arbitrary: p bs m)
  case Nil
  have "take_loop p [] m = Some m" by (subst take_loop.simps) simp
  then show ?case using Nil reblk_refl by auto
next
  case (Cons a as)
  then obtain x where x: "p = Some a" "store m a = Some x" "beg x + unat (plen x) \<le> length (blk x)" "chain m (nxt x) as" by auto
  have len: "length (buf_bytes x) = unat (plen x)" using x(3) by (rule length_buf_bytes)
  show ?case
  proof (cases "bs = []")
    case True
    have "take_loop p [] m = Some m" by (subst take_loop.simps) simp
    then show ?thesis using True reblk_refl by auto
  next
    case False
    let ?w = "take (unat (plen x)) bs"
    obtain m1 where m1: "payload_write a 0 ?w m = Some m1" "reblk {a} m m1" "buf_bytes (the (store m1 a)) = blit (buf_bytes x) 0 ?w"
      using payload_write_bytes [OF x(2,3), of 0 ?w] by auto
    have same: "store m1 b = store m b" if "b \<in> set as" for b using m1(2) Cons.prems(2) that by (auto simp: reblk_def)
    have rest: "chain m1 (nxt x) as" "chain_bytes m1 as = chain_bytes m as"
      using chain_cong [OF same] x(4) chain_bytes_cong [OF same] by auto
    obtain m' where m': "take_loop (nxt x) (drop (unat (plen x)) bs) m1 = Some m'" "reblk (set as) m1 m'"
        "chain_bytes m' as = drop (unat (plen x)) bs @ drop (length bs - unat (plen x)) (chain_bytes m as)"
    proof -
      have "length (drop (unat (plen x)) bs) \<le> length (chain_bytes m1 as)" using rest(2) Cons.prems(3) x(2) len by simp
      from Cons.IH [OF rest(1) _ this] show thesis using that rest(2) Cons.prems(2) by auto
    qed
    have "take_loop p bs m = Some m'" by (subst take_loop.simps) (use False x m1(1) m'(1) in simp)
    moreover have "reblk (set (a # as)) m m'" using reblk_trans [OF m1(2) m'(2)] by simp
    moreover have "store m' a = store m1 a" using m'(2) Cons.prems(2) by (auto simp: reblk_def)
    then have "chain_bytes m' (a # as) = bs @ drop (length bs) (chain_bytes m (a # as))"
      using m1(3) m'(3) x(2) len by (cases "unat (plen x) \<le> length bs") (simp_all add: blit_def)
    ultimately show ?thesis by blast
  qed
qed

lemma take_packet:
  assumes "packet m p as" "length bs \<le> length (chain_bytes m as)" "as \<noteq> []"
  shows "\<exists>m'. pbuf_take p bs m = Some (ERR_OK, m') \<and> packet m' p as \<and> reblk (set as) m m'
    \<and> chain_bytes m' as = bs @ drop (length bs) (chain_bytes m as)"
proof -
  obtain a where p: "p = Some a" using assms(1,3) by (cases as) (auto simp: packet_def)
  obtain x where x: "store m a = Some x" "unat (ptot x) = length (chain_bytes m as)" using packet_total assms(1) p by blast
  obtain m' where "take_loop p bs m = Some m'" "reblk (set as) m m'" "chain_bytes m' as = bs @ drop (length bs) (chain_bytes m as)"
    using take_chain [of m p as bs] assms(1,2) by (auto simp: packet_def)
  then show ?thesis using reblk_packet assms(1,2) x p by (auto simp: pbuf_take_def)
qed

lemma totals_append: "totals m (as @ bs) \<Longrightarrow> totals m bs"
  by (induction as) simp_all

lemma take_at_packet:
  assumes "packet m p as" "off + length bs \<le> length (chain_bytes m as)" "off < length (chain_bytes m as)"
  shows "\<exists>m'. pbuf_take_at p bs off m = Some (ERR_OK, m') \<and> packet m' p as \<and> reblk (set as) m m'
    \<and> chain_bytes m' as = blit (chain_bytes m as) off bs"
proof -
  have c: "chain m p as" "distinct as" "totals m as" using assms(1) by (simp_all add: packet_def)
  obtain q pre post off' where s: "pbuf_skip p off m = Some (q, off')" "as = pre @ post" "chain m q post" "off = length (chain_bytes m pre) + off'"
    "\<forall>a bs. post = a # bs \<longrightarrow> off' < length (buf_bytes (the (store m a)))"
    using skip_chain [OF c(1), of off] by blast
  obtain a rest where post: "post = a # rest" using s(2,4) assms(3) by (cases post) auto
  obtain x where x: "q = Some a" "store m a = Some x" "beg x + unat (plen x) \<le> length (blk x)" "chain m (nxt x) rest" using s(3) post by auto
  have len: "length (buf_bytes x) = unat (plen x)" using x(3) by (rule length_buf_bytes)
  have o: "off' < unat (plen x)" using s(5) post x(2) len by simp
  have tot: "unat (ptot x) = unat (plen x) + length (chain_bytes m rest)" "totals m rest"
    using totals_append [of m pre post] c(3) s(2) post x(2) len by simp_all
  define n where "n = min (unat (plen x) - off') (length bs)"
  have n: "n \<le> length bs" "off' + n \<le> unat (plen x)" using o by (auto simp: n_def)
  obtain m1 where m1: "payload_write a off' (take n bs) m = Some m1" "reblk {a} m m1" "buf_bytes (the (store m1 a)) = blit (buf_bytes x) off' (take n bs)"
    using payload_write_bytes [OF x(2,3), of off' "take n bs"] n by auto
  have notin: "a \<notin> set pre" "a \<notin> set rest" using c(2) s(2) post by auto
  then have same: "store m1 b = store m b" if "b \<in> set pre \<union> set rest" for b using m1(2) that by (auto simp: reblk_def)
  have pk: "packet m1 (nxt x) rest" "chain_bytes m1 rest = chain_bytes m rest" "chain_bytes m1 pre = chain_bytes m pre"
    using packet_cong [of rest m1 m "nxt x"] chain_bytes_cong [of rest m1 m] chain_bytes_cong [of pre m1 m] same x(4) tot(2) c(2) s(2) post
    by (auto simp: packet_def)
  have fit: "off' + length bs \<le> unat (ptot x)" using assms(2) s(2,4) post x(2) len tot(1) by simp
  have "\<exists>m'. pbuf_take_at p bs off m = Some (ERR_OK, m') \<and> reblk (set (a # rest)) m m' \<and> chain_bytes m' rest = drop n bs @ drop (length bs - n) (chain_bytes m rest)
      \<and> store m' a = store m1 a"
  proof (cases "n < length bs")
    case False
    then have "pbuf_take_at p bs off m = Some (ERR_OK, m1)" using s(1) x(1,2) m1(1) fit by (simp add: pbuf_take_at_def n_def [symmetric])
    moreover have "reblk (set (a # rest)) m m1" using reblk_trans [OF m1(2) reblk_refl [of "set rest"]] by simp
    ultimately show ?thesis using pk(2) False n(1) by auto
  next
    case True
    then have np: "n = unat (plen x) - off'" by (auto simp: n_def)
    then have "length bs - n \<le> length (chain_bytes m rest)" using fit tot(1) o by simp
    moreover from this have "rest \<noteq> []" using True by auto
    ultimately obtain m' where m': "pbuf_take (nxt x) (drop n bs) m1 = Some (ERR_OK, m')" "reblk (set rest) m1 m'"
        "chain_bytes m' rest = drop n bs @ drop (length bs - n) (chain_bytes m rest)"
      using take_packet [OF pk(1), of "drop n bs"] pk(2) by auto
    have "pbuf_take_at p bs off m = Some (ERR_OK, m')" using s(1) x(1,2) m1(1) m'(1) fit True by (simp add: pbuf_take_at_def n_def [symmetric])
    moreover have "reblk (set (a # rest)) m m'" using reblk_trans [OF m1(2) m'(2)] by simp
    moreover have "store m' a = store m1 a" using m'(2) notin(2) by (auto simp: reblk_def)
    ultimately show ?thesis using m'(3) by blast
  qed
  then obtain m' where m': "pbuf_take_at p bs off m = Some (ERR_OK, m')" "reblk (set (a # rest)) m m'"
      "chain_bytes m' rest = drop n bs @ drop (length bs - n) (chain_bytes m rest)" "store m' a = store m1 a" by blast
  have "store m' b = store m b" if "b \<in> set pre" for b using m'(2) that c(2) s(2) post by (auto simp: reblk_def)
  then have pre: "chain_bytes m' pre = chain_bytes m pre" by (rule chain_bytes_cong)
  have r: "reblk (set as) m m'" using m'(2) s(2) post unfolding reblk_def by auto
  have "blit (buf_bytes x) off' (take n bs) @ drop n bs @ drop (length bs - n) (chain_bytes m rest)
      = blit (buf_bytes x @ chain_bytes m rest) off' bs"
  proof (cases "n < length bs")
    case True
    then have "off' + n = length (buf_bytes x)" using o len by (auto simp: n_def)
    moreover from this have "off' + length bs - length (buf_bytes x) = length bs - n" by linarith
    ultimately show ?thesis using n(1) o len by (simp add: blit_def)
  next
    case False
    then show ?thesis using n o len by (simp add: blit_def)
  qed
  then have "chain_bytes m' as = blit (chain_bytes m as) off bs"
    using pre m'(3,4) m1(3) s(2,4) post x(2) by (simp add: blit_def)
  then show ?thesis using m'(1) r reblk_packet [OF r assms(1)] by blast
qed

lemma put_at_packet:
  assumes "packet m p as" "off < length (chain_bytes m as)"
  shows "\<exists>m'. pbuf_put_at p off b m = Some m' \<and> packet m' p as \<and> reblk (set as) m m' \<and> chain_bytes m' as = blit (chain_bytes m as) off [b]"
proof -
  obtain m' where m': "pbuf_take_at p [b] off m = Some (ERR_OK, m')" "packet m' p as" "reblk (set as) m m'" "chain_bytes m' as = blit (chain_bytes m as) off [b]"
    using take_at_packet [OF assms(1), of off "[b]"] assms(2) by auto
  have c: "chain m p as" using assms(1) by (simp add: packet_def)
  obtain q pre post off' where s: "pbuf_skip p off m = Some (q, off')" "as = pre @ post" "chain m q post" "off = length (chain_bytes m pre) + off'"
    "\<forall>a bs. post = a # bs \<longrightarrow> off' < length (buf_bytes (the (store m a)))"
    using skip_chain [OF c, of off] by blast
  obtain a rest where post: "post = a # rest" using s(2,4) assms(2) by (cases post) auto
  obtain x where x: "q = Some a" "store m a = Some x" "beg x + unat (plen x) \<le> length (blk x)" using s(3) post by auto
  have o: "off' < unat (plen x)" using s(5) post x(2) length_buf_bytes [OF x(3)] by simp
  then have "pbuf_put_at p off b m = Some m'" using s(1) x(1,2) m'(1) unfolding pbuf_take_at_def pbuf_put_at_def
    by (auto split: if_splits bind_splits simp: min_def)
  then show ?thesis using m' by blast
qed

text \<open>
  What the users of a packet rely on: an addressable sequence of bytes whose length no access changes. Both ways of writing promise it,
  \<open>pbuf_take_at\<close> for a block and \<open>pbuf_put_at\<close> for a byte.
\<close>

locale byte_sequence =
  fixes inv :: "'s \<Rightarrow> bool"
    and content :: "'s \<Rightarrow> u8 list"
    and get :: "'s \<Rightarrow> nat \<Rightarrow> u8 option"
    and put :: "'s \<Rightarrow> nat \<Rightarrow> 'b \<Rightarrow> 's option"
    and bytes_of :: "'b \<Rightarrow> u8 list"
  assumes get: "inv s \<Longrightarrow> i < length (content s) \<Longrightarrow> get s i = Some (content s ! i)"
    and put: "inv s \<Longrightarrow> off + length (bytes_of b) \<le> length (content s) \<Longrightarrow> off < length (content s) \<Longrightarrow>
      \<exists>s'. put s off b = Some s' \<and> inv s' \<and> content s' = blit (content s) off (bytes_of b)"
begin

lemma put_get:
  assumes "inv s" "off + length (bytes_of b) \<le> length (content s)" "off < length (content s)" "i < length (content s)"
  shows "\<exists>s'. put s off b = Some s' \<and> inv s' \<and> length (content s') = length (content s)
    \<and> get s' i = Some (if off \<le> i \<and> i < off + length (bytes_of b) then bytes_of b ! (i - off) else content s ! i)"
proof -
  obtain s' where s': "put s off b = Some s'" "inv s'" "content s' = blit (content s) off (bytes_of b)" using put [OF assms(1-3)] by blast
  then have "get s' i = Some (content s' ! i)" "length (content s') = length (content s)" using get assms(2,4) by simp_all
  then show ?thesis using s' nth_blit_in [OF assms(2), of i] nth_blit_out [OF assms(2), of i] assms(4) by auto
qed

lemma put_twice:
  assumes "inv s" "off + length (bytes_of b) \<le> length (content s)" "off < length (content s)"
    and "off' + length (bytes_of b') \<le> length (content s)" "off' < length (content s)" "off + length (bytes_of b) \<le> off'"
  shows "\<exists>s1 s2 t1 t2. put s off b = Some s1 \<and> put s1 off' b' = Some s2 \<and> put s off' b' = Some t1 \<and> put t1 off b = Some t2
    \<and> content s2 = content t2"
proof -
  obtain s1 where s1: "put s off b = Some s1" "inv s1" "content s1 = blit (content s) off (bytes_of b)" using put [OF assms(1-3)] by blast
  obtain s2 where s2: "put s1 off' b' = Some s2" "content s2 = blit (content s1) off' (bytes_of b')" using put [OF s1(2)] s1(3) assms(2,4,5) by auto
  obtain t1 where t1: "put s off' b' = Some t1" "inv t1" "content t1 = blit (content s) off' (bytes_of b')" using put [OF assms(1,4,5)] by blast
  obtain t2 where t2: "put t1 off b = Some t2" "content t2 = blit (content t1) off (bytes_of b)" using put [OF t1(2)] t1(3) assms(2,3,4) by auto
  have "content s2 ! i = content t2 ! i" if "i < length (content s)" for i
    unfolding s2(2) t2(2) s1(3) t1(3) using that assms(2,4,6)
    by (cases "i < off"; cases "i < off + length (bytes_of b)"; cases "i < off'"; cases "i < off' + length (bytes_of b')") (simp_all add: nth_blit_in nth_blit_out)
  then have "content s2 = content t2" using s1(3) s2(2) t1(3) t2(2) assms(2,4) by (intro nth_equalityI) simp_all
  then show ?thesis using s1(1) s2(1) t1(1) t2(1) by blast
qed

end

type_synonym packet_state = "pmem \<times> nat option \<times> nat list"

definition packet_inv :: "packet_state \<Rightarrow> bool" where "packet_inv = (\<lambda>(m, p, as). packet m p as)"
definition packet_bytes :: "packet_state \<Rightarrow> u8 list" where "packet_bytes = (\<lambda>(m, p, as). chain_bytes m as)"
definition packet_get :: "packet_state \<Rightarrow> nat \<Rightarrow> u8 option" where "packet_get = (\<lambda>(m, p, as) off. pbuf_get_at p off m)"
definition packet_put :: "packet_state \<Rightarrow> nat \<Rightarrow> u8 \<Rightarrow> packet_state option" where
  "packet_put = (\<lambda>(m, p, as) off b. map_option (\<lambda>m'. (m', p, as)) (pbuf_put_at p off b m))"
definition packet_take :: "packet_state \<Rightarrow> nat \<Rightarrow> u8 list \<Rightarrow> packet_state option" where
  "packet_take = (\<lambda>(m, p, as) off bs. case pbuf_take_at p bs off m of Some (ERR_OK, m') \<Rightarrow> Some (m', p, as) | _ \<Rightarrow> None)"

interpretation single: byte_sequence packet_inv packet_bytes packet_get packet_put "\<lambda>b. [b]"
proof unfold_locales
  fix s i
  assume "packet_inv s" "i < length (packet_bytes s)"
  then show "packet_get s i = Some (packet_bytes s ! i)"
    by (cases s) (auto simp: packet_inv_def packet_bytes_def packet_get_def packet_def get_at)
next
  fix s off and b :: u8
  assume "packet_inv s" "off + length [b] \<le> length (packet_bytes s)" "off < length (packet_bytes s)"
  then show "\<exists>s'. packet_put s off b = Some s' \<and> packet_inv s' \<and> packet_bytes s' = blit (packet_bytes s) off [b]"
    using put_at_packet [of "fst s" "fst (snd s)" "snd (snd s)" off b]
    by (cases s) (auto simp: packet_inv_def packet_bytes_def packet_put_def)
qed

interpretation block: byte_sequence packet_inv packet_bytes packet_get packet_take "\<lambda>bs. bs"
proof unfold_locales
  fix s i
  assume "packet_inv s" "i < length (packet_bytes s)"
  then show "packet_get s i = Some (packet_bytes s ! i)" by (rule single.get)
next
  fix s off and bs :: "u8 list"
  assume "packet_inv s" "off + length bs \<le> length (packet_bytes s)" "off < length (packet_bytes s)"
  then show "\<exists>s'. packet_take s off bs = Some s' \<and> packet_inv s' \<and> packet_bytes s' = blit (packet_bytes s) off bs"
    using take_at_packet [of "fst s" "fst (snd s)" "snd (snd s)" off bs]
    by (cases s) (auto simp: packet_inv_def packet_bytes_def packet_take_def)
qed

subsection \<open>Headers\<close>

text \<open>A header added is a header removed, and shows the bytes in front of the payload.\<close>

lemma add_remove_header:
  assumes "packet m (Some a) (a # as)" "store m a = Some x" "contiguous (ptype x)" "sz \<le> beg x" "0 < sz"
    and "sz + length (chain_bytes m (a # as)) < 65536"
  shows "\<exists>m'. pbuf_add_header (Some a) sz m = Some (0, m') \<and> packet m' (Some a) (a # as)
    \<and> chain_bytes m' (a # as) = take sz (drop (beg x - sz) (blk x)) @ chain_bytes m (a # as)
    \<and> m' = set_pbuf a (x\<lparr>beg := beg x - sz, plen := plen x + of_nat sz, ptot := ptot x + of_nat sz\<rparr>) m
    \<and> pbuf_remove_header (Some a) sz m' = Some (0, m)"
proof -
  define y where "y = x\<lparr>beg := beg x - sz, plen := plen x + of_nat sz, ptot := ptot x + of_nat sz\<rparr>"
  let ?m = "set_pbuf a y m"
  have x: "beg x + unat (plen x) \<le> length (blk x)" "chain m (nxt x) as" "distinct (a # as)" "totals m as"
      "unat (ptot x) = length (chain_bytes m (a # as))"
    using assms(1,2) by (auto simp: packet_def)
  have len: "length (buf_bytes x) = unat (plen x)" using x(1) by (rule length_buf_bytes)
  have s: "unat (of_nat sz :: u16) = sz" using assms(6) by (intro unat_of_nat_small) simp
  have tot: "unat (ptot x + of_nat sz) = unat (ptot x) + sz" using assms(6) x(5) s by (subst unat_add_lem [THEN iffD1]) simp_all
  have le: "unat (plen x) \<le> unat (ptot x)" using x(5) len assms(2) by simp
  then have pl: "unat (plen x + of_nat sz) = unat (plen x) + sz" using assms(6) x(5) s by (subst unat_add_lem [THEN iffD1]) simp_all
  have "\<not> of_nat sz + ptot x < of_nat sz" using tot s by (simp add: word_less_nat_alt add.commute)
  then have add: "pbuf_add_header (Some a) sz m = Some (0, ?m)"
    using assms(2-6) by (simp add: pbuf_add_header_def pbuf_add_header_impl_def y_def Let_def)
  have yb: "buf_bytes y = take sz (drop (beg x - sz) (blk x)) @ buf_bytes x"
    using assms(4) pl take_add [of sz "unat (plen x)" "drop (beg x - sz) (blk x)"] by (simp add: buf_bytes_def y_def add.commute)
  have same: "store ?m b = store m b" if "b \<in> set as" for b using that x(3) by auto
  have rest: "chain ?m (nxt x) as" "totals ?m as" "chain_bytes ?m as = chain_bytes m as"
    using chain_cong [OF same] totals_cong [OF same] chain_bytes_cong [OF same] x(2,4) by auto
  have bytes: "chain_bytes ?m (a # as) = take sz (drop (beg x - sz) (blk x)) @ chain_bytes m (a # as)"
    using rest(3) yb assms(2) by simp
  have "packet ?m (Some a) (a # as)"
    using rest x assms(2,4) tot pl yb by (simp add: packet_def y_def min_def) linarith
  moreover have "\<not> plen y < of_nat sz" using pl s by (simp add: y_def word_less_nat_alt)
  then have "pbuf_remove_header (Some a) sz ?m = Some (0, m\<lparr>store := (store m)(a \<mapsto> x)\<rparr>)"
    using assms(4-6) by (simp add: pbuf_remove_header_def set_pbuf_def y_def Let_def)
  then have "pbuf_remove_header (Some a) sz ?m = Some (0, m)" using assms(2) by (simp add: fun_upd_idem)
  ultimately show ?thesis using add bytes unfolding y_def by blast
qed

lemma remove_header_packet:
  assumes "packet m (Some a) (a # as)" "store m a = Some x" "sz \<le> unat (plen x)"
  shows "\<exists>m'. pbuf_remove_header (Some a) sz m = Some (0, m') \<and> packet m' (Some a) (a # as)
    \<and> chain_bytes m' (a # as) = drop sz (chain_bytes m (a # as))
    \<and> m' = set_pbuf a (x\<lparr>beg := beg x + sz, plen := plen x - of_nat sz, ptot := ptot x - of_nat sz\<rparr>) m"
proof -
  define y where "y = x\<lparr>beg := beg x + sz, plen := plen x - of_nat sz, ptot := ptot x - of_nat sz\<rparr>"
  let ?m = "set_pbuf a y m"
  have x: "beg x + unat (plen x) \<le> length (blk x)" "chain m (nxt x) as" "distinct (a # as)" "totals m as"
      "unat (ptot x) = length (chain_bytes m (a # as))"
    using assms(1,2) by (auto simp: packet_def)
  have len: "length (buf_bytes x) = unat (plen x)" using x(1) by (rule length_buf_bytes)
  have small: "unat (plen x) < 65536" using unsigned_less [of "plen x", where 'a = nat] by simp
  then have s: "unat (of_nat sz :: u16) = sz" using assms(3) by (intro unat_of_nat_small) simp
  have le: "unat (plen x) \<le> unat (ptot x)" using x(5) len assms(2) by simp
  have pl: "unat (plen x - of_nat sz) = unat (plen x) - sz" "unat (ptot x - of_nat sz) = unat (ptot x) - sz"
    using s assms(3) le by (subst unat_sub; simp add: word_le_nat_alt)+
  show ?thesis
  proof (cases "sz = 0")
    case True
    then show ?thesis using assms(1,2) by (intro exI [of _ m]) (simp add: pbuf_remove_header_def set_pbuf_def fun_upd_idem)
  next
    case False
    have "\<not> plen x < of_nat sz" using s assms(3) by (simp add: word_less_nat_alt)
    then have rm: "pbuf_remove_header (Some a) sz m = Some (0, ?m)"
      using False assms(2,3) small by (simp add: pbuf_remove_header_def y_def Let_def)
    have yb: "buf_bytes y = drop sz (buf_bytes x)" using pl by (simp add: buf_bytes_def y_def drop_take add.commute)
    have same: "store ?m b = store m b" if "b \<in> set as" for b using that x(3) by auto
    have rest: "chain ?m (nxt x) as" "totals ?m as" "chain_bytes ?m as = chain_bytes m as"
      using chain_cong [OF same] totals_cong [OF same] chain_bytes_cong [OF same] x(2,4) by auto
    then have "packet ?m (Some a) (a # as)" "chain_bytes ?m (a # as) = drop sz (chain_bytes m (a # as))"
      using x assms(2,3) pl yb len by (auto simp: packet_def y_def)
    then show ?thesis using rm unfolding y_def by blast
  qed
qed

text \<open>A header of its own in front of the packet.\<close>

lemma prepend_header:
  assumes "packet m (Some a) (a # as)" "store m a = Some x" "contiguous (ptype x)" "length h \<le> beg x" "h \<noteq> []"
    and "length h + length (chain_bytes m (a # as)) < 65536"
  shows "\<exists>m1 y m'. pbuf_add_header (Some a) (length h) m = Some (0, m1) \<and> store m1 a \<noteq> None \<and> payload_write a 0 h m1 = Some m' \<and> m' = set_pbuf a y m
    \<and> nxt y = nxt x \<and> ptype y = ptype x \<and> pref y = pref x \<and> length (blk y) = length (blk x) \<and> beg y = beg x - length h
    \<and> packet m' (Some a) (a # as) \<and> chain_bytes m' (a # as) = h @ chain_bytes m (a # as)"
proof -
  let ?n = "length h"
  define z where "z = x\<lparr>beg := beg x - ?n, plen := plen x + of_nat ?n, ptot := ptot x + of_nat ?n\<rparr>"
  let ?m1 = "set_pbuf a z m"
  have m1: "pbuf_add_header (Some a) ?n m = Some (0, ?m1)" "packet ?m1 (Some a) (a # as)"
      "chain_bytes ?m1 (a # as) = take ?n (drop (beg x - ?n) (blk x)) @ chain_bytes m (a # as)"
    using add_remove_header [OF assms(1-4) _ assms(6)] assms(5) unfolding z_def by auto
  have a: "a \<notin> set as" using assms(1) by (simp add: packet_def)
  have z: "store ?m1 a = Some z" "beg z + unat (plen z) \<le> length (blk z)" using m1(2) by (auto simp: packet_def)
  have len: "length (take ?n (drop (beg x - ?n) (blk x))) = ?n"
    using assms(1,2,4) by (auto simp: packet_def)
  have zb: "buf_bytes z @ chain_bytes m as = take ?n (drop (beg x - ?n) (blk x)) @ buf_bytes x @ chain_bytes m as"
    using m1(3) a assms(2) by simp
  then have zb: "buf_bytes z = take ?n (drop (beg x - ?n) (blk x)) @ buf_bytes x" by simp
  then have fit: "0 + ?n \<le> unat (plen z)" using len length_buf_bytes [OF z(2)] by simp
  obtain m' where m': "payload_write a 0 h ?m1 = Some m'" "reblk {a} ?m1 m'" "buf_bytes (the (store m' a)) = blit (buf_bytes z) 0 h"
    using payload_write_bytes [OF z fit] by blast
  obtain b where b: "store m' a = Some (z\<lparr>blk := b\<rparr>)" "length b = length (blk z)" by (rule reblk_at [OF m'(2) z(1)])
  have "m' = set_pbuf a (z\<lparr>blk := b\<rparr>) m"
    using m'(2) b(1) by (intro pmem.equality ext) (auto simp: reblk_def)
  moreover have "packet m' (Some a) (a # as)" by (rule reblk_packet [OF m'(2) m1(2)])
  moreover have "chain_bytes m' as = chain_bytes m as" using calculation(1) a by simp
  then have "chain_bytes m' (a # as) = h @ chain_bytes m (a # as)" using m'(3) zb len assms(2) by (simp add: blit_def)
  ultimately show ?thesis using m1(1) z(1) m'(1) b(2)
    by (intro exI [of _ ?m1] exI [of _ "z\<lparr>blk := b\<rparr>"] exI [of _ m']) (simp add: z_def)
qed

subsection \<open>Releasing\<close>

text \<open>The buffers of a chain that nobody else refers to, given back one after the other.\<close>

definition sole :: "pmem \<Rightarrow> nat list \<Rightarrow> bool" where "sole m as \<longleftrightarrow> (\<forall>a \<in> set as. pref (the (store m a)) = 1)"

fun release_all :: "nat list \<Rightarrow> pmem \<Rightarrow> pmem" where
  "release_all [] m = m"
| "release_all (a # as) m = release_all as (release a (the (store m a)) m)"

lemma store_release [simp]: "store (release a x m) = (store m)(a := None)"
  by (simp add: release_def Let_def split: pbuf_type.splits)

lemma store_release_all: "store (release_all as m) b = (if b \<in> set as then None else store m b)"
  by (induction as arbitrary: m) auto

lemma free_chain:
  assumes "chain m p as" "distinct as" "sole m as"
  shows "pbuf_free_loop p n m = Some (n + of_nat (length as), release_all as m)"
  using assms
proof (induction as arbitrary: p n m)
  case Nil
  then show ?case by (subst pbuf_free_loop.simps) simp
next
  case (Cons a as)
  then obtain x where x: "p = Some a" "store m a = Some x" "chain m (nxt x) as" "pref x = 1" by (auto simp: sole_def)
  have same: "store (release a x m) b = store m b" if "b \<in> set as" for b using that Cons.prems(2) by auto
  have "chain (release a x m) (nxt x) as" "sole (release a x m) as"
    using chain_cong [OF same] x(3) Cons.prems(3) same by (auto simp: sole_def)
  then have "pbuf_free_loop (nxt x) (n + 1) (release a x m) = Some (n + 1 + of_nat (length as), release_all as (release a x m))"
    using Cons.IH Cons.prems(2) by auto
  then show ?case by (subst pbuf_free_loop.simps) (use x in \<open>simp add: add.assoc\<close>)
qed

text \<open>A buffer that is still referred to ends the release: it and everything behind it stay.\<close>

lemma free_shared:
  assumes "chain m p (as @ a # bs)" "distinct (as @ a # bs)" "sole m as" "store m a = Some x" "pref x \<noteq> 1"
  shows "pbuf_free_loop p n m = Some (n + of_nat (length as), set_pbuf a (x\<lparr>pref := pref x - 1\<rparr>) (release_all as m))"
  using assms
proof (induction as arbitrary: p n m)
  case Nil
  then have "p = Some a" "pref x - 1 \<noteq> 0" by auto
  then show ?case by (subst pbuf_free_loop.simps) (use Nil in simp)
next
  case (Cons c as)
  then obtain y where y: "p = Some c" "store m c = Some y" "chain m (nxt y) (as @ a # bs)" "pref y = 1" by (auto simp: sole_def)
  have same: "store (release c y m) b = store m b" if "b \<in> set (as @ a # bs)" for b using that Cons.prems(2) by auto
  have "chain (release c y m) (nxt y) (as @ a # bs) = chain m (nxt y) (as @ a # bs)" using same by (rule chain_cong)
  then have "chain (release c y m) (nxt y) (as @ a # bs)" "sole (release c y m) as" "store (release c y m) a = Some x"
    using y(3) Cons.prems(2-4) same by (auto simp: sole_def)
  then have "pbuf_free_loop (nxt y) (n + 1) (release c y m)
      = Some (n + 1 + of_nat (length as), set_pbuf a (x\<lparr>pref := pref x - 1\<rparr>) (release_all as (release c y m)))"
    using Cons.IH Cons.prems(2,5) by auto
  then show ?case by (subst pbuf_free_loop.simps) (use y in \<open>simp add: add.assoc\<close>)
qed

subsection \<open>The pool\<close>

text \<open>The free elements are distinct, not in use and of full size.\<close>

definition mem_ok :: "pmem \<Rightarrow> bool" where
  "mem_ok m \<longleftrightarrow> distinct (map fst (pool m)) \<and> (\<forall>(a, b) \<in> set (pool m). store m a = None \<and> length b = PBUF_POOL_BUFSIZE)"

definition pooled :: "pmem \<Rightarrow> nat list \<Rightarrow> bool" where
  "pooled m as \<longleftrightarrow> (\<forall>a \<in> set as. \<exists>x. store m a = Some x \<and> ptype x = PBUF_POOL \<and> pref x = 1 \<and> length (blk x) = PBUF_POOL_BUFSIZE)"

definition room :: "nat \<Rightarrow> nat" where "room layer = PBUF_POOL_BUFSIZE - MEM_ALIGN_SIZE layer"

text \<open>The number of elements a packet of \<open>n\<close> bytes takes.\<close>

definition pool_need :: "nat \<Rightarrow> nat \<Rightarrow> nat" where
  "pool_need layer n = (if n \<le> room layer then 1 else 1 + (n - room layer + (PBUF_POOL_BUFSIZE - 1)) div PBUF_POOL_BUFSIZE)"

lemma pool_size: "PBUF_POOL_BUFSIZE = 1516" "room 0 = 1516"
  by (simp_all add: PBUF_POOL_BUFSIZE_def MEM_ALIGN_SIZE_def room_def)

lemma pool_need_pos [simp]: "0 < pool_need layer n"
  by (simp add: pool_need_def)

lemma pool_need_step: "room layer < n \<Longrightarrow> pool_need layer n = Suc (pool_need 0 (n - room layer))"
proof -
  assume "room layer < n"
  then obtain k where k: "n - room layer = Suc k" by (metis Suc_diff_Suc)
  have "(Suc k + 1515) div 1516 = (if Suc k \<le> 1516 then 1 else 1 + (Suc k - 1516 + 1515) div 1516)"
  proof (cases "Suc k \<le> 1516")
    case False
    then have "Suc k + 1515 = (Suc k - 1516 + 1515) + 1516" by simp
    then have "(Suc k + 1515) div 1516 = (Suc k - 1516 + 1515) div 1516 + 1" by (metis div_add_self2 zero_neq_numeral)
    then show ?thesis using False by simp
  qed (simp add: div_if)
  then show ?thesis using \<open>room layer < n\<close> k by (simp add: pool_need_def pool_size)
qed

lemma pooled_sole: "pooled m as \<Longrightarrow> sole m as"
  by (fastforce simp: pooled_def sole_def)

lemma pool_release_all:
  assumes "pooled m as" "distinct as"
  shows "pool (release_all as m) = rev (map (\<lambda>a. (a, blk (the (store m a)))) as) @ pool m \<and> refs (release_all as m) = refs m"
  using assms
proof (induction as arbitrary: m)
  case (Cons a as)
  then obtain x where x: "store m a = Some x" "ptype x = PBUF_POOL" by (auto simp: pooled_def)
  have r: "pool (release a x m) = (a, blk x) # pool m" "refs (release a x m) = refs m" using x(2) by (simp_all add: release_def Let_def)
  have same: "store (release a x m) b = store m b" if "b \<in> set as" for b using that Cons.prems(2) by auto
  then have pl: "pooled (release a x m) as" using Cons.prems(1) by (auto simp: pooled_def)
  have d: "distinct as" using Cons.prems(2) by simp
  have "pool (release_all as (release a x m)) = rev (map (\<lambda>b. (b, blk (the (store (release a x m) b)))) as) @ pool (release a x m)
      \<and> refs (release_all as (release a x m)) = refs (release a x m)"
    by (rule Cons.IH [OF pl d])
  moreover have "map (\<lambda>b. (b, blk (the (store (release a x m) b)))) as = map (\<lambda>b. (b, blk (the (store m b)))) as"
    by (rule map_cong) (simp_all only: same)
  ultimately have "pool (release_all as (release a x m)) = rev (map (\<lambda>a. (a, blk (the (store m a)))) as) @ (a, blk x) # pool m
      \<and> refs (release_all as (release a x m)) = refs m" by (simp only: r)
  then show ?case by (simp add: x(1))
qed simp

lemma alloc_pool_enough:
  assumes "distinct (map fst qs)" "\<forall>(a, b) \<in> set qs. store m a = None \<and> length b = PBUF_POOL_BUFSIZE" "MEM_ALIGN_SIZE layer < PBUF_POOL_BUFSIZE"
    and "n < 65536" "pool_need layer n \<le> length qs" "p \<noteq> None \<Longrightarrow> \<exists>c z. prev = Some c \<and> store m c = Some z"
  shows "\<exists>as m'. as \<noteq> [] \<and> alloc_pool_loop qs layer n p prev m = Some (if p = None then Some (hd as) else p, m')
    \<and> as = map fst (take (pool_need layer n) qs) \<and> pool m' = drop (pool_need layer n) qs \<and> refs m' = refs m
    \<and> chain m' (Some (hd as)) as \<and> totals m' as \<and> pooled m' as \<and> length (chain_bytes m' as) = n
    \<and> (\<forall>b. b \<notin> set as \<longrightarrow> store m' b = (if p \<noteq> None \<and> prev = Some b then map_option (nxt_update (\<lambda>_. Some (hd as))) (store m b) else store m b))"
  using assms
proof (induction qs arbitrary: layer n p prev m)
  case Nil
  then show ?case by (simp add: pool_need_def split: if_splits)
next
  case (Cons qb qs)
  obtain q b where qb: "qb = (q, b)" by fastforce
  define qlen where "qlen = min n (room layer)"
  define x where "x = pbuf_init_alloced_pbuf b (MEM_ALIGN_SIZE layer) (of_nat n) (of_nat qlen) PBUF_POOL"
  define m1 where "m1 = set_pbuf q x (m\<lparr>pool := qs\<rparr>)"
  have q: "store m q = None" "length b = PBUF_POOL_BUFSIZE" "q \<notin> fst ` set qs" using Cons.prems(1,2) qb by auto
  have u: "unat (of_nat n :: u16) = n" "unat (of_nat qlen :: u16) = qlen" using Cons.prems(4) by (simp_all add: unat_of_nat_small qlen_def)
  have x: "nxt x = None" "blk x = b" "beg x = MEM_ALIGN_SIZE layer" "unat (ptot x) = n" "unat (plen x) = qlen" "ptype x = PBUF_POOL" "pref x = 1"
    using u by (simp_all add: x_def pbuf_init_alloced_pbuf_def)
  have fit: "beg x + unat (plen x) \<le> length (blk x)" using x q(2) Cons.prems(3) by (simp add: qlen_def room_def)
  define m2 where "m2 = (case p of None \<Rightarrow> m1 | Some _ \<Rightarrow> set_pbuf (the prev) ((the (store m1 (the prev)))\<lparr>nxt := Some q\<rparr>) m1)"
  have m2: "(case p of None \<Rightarrow> Some m1 | Some _ \<Rightarrow> set_next prev (Some q) m1) = Some m2"
    "store m2 q = Some x" "pool m2 = qs" "refs m2 = refs m"
    "\<And>c. c \<noteq> q \<Longrightarrow> store m2 c = (if p \<noteq> None \<and> prev = Some c then map_option (nxt_update (\<lambda>_. Some q)) (store m c) else store m c)"
  proof -
    have "(case p of None \<Rightarrow> Some m1 | Some _ \<Rightarrow> set_next prev (Some q) m1) = Some m2 \<and> store m2 q = Some x \<and> pool m2 = qs \<and> refs m2 = refs m
      \<and> (\<forall>c. c \<noteq> q \<longrightarrow> store m2 c = (if p \<noteq> None \<and> prev = Some c then map_option (nxt_update (\<lambda>_. Some q)) (store m c) else store m c))"
    proof (cases p)
      case (Some r)
      then obtain c z where c: "prev = Some c" "store m c = Some z" using Cons.prems(6) by auto
      moreover from this have "c \<noteq> q" using q(1) by auto
      ultimately show ?thesis using Some by (auto simp: m1_def m2_def set_next_def)
    qed (simp add: m1_def m2_def)
    then show "(case p of None \<Rightarrow> Some m1 | Some _ \<Rightarrow> set_next prev (Some q) m1) = Some m2"
      "store m2 q = Some x" "pool m2 = qs" "refs m2 = refs m"
      "\<And>c. c \<noteq> q \<Longrightarrow> store m2 c = (if p \<noteq> None \<and> prev = Some c then map_option (nxt_update (\<lambda>_. Some q)) (store m c) else store m c)"
      by blast+
  qed
  let ?p = "if p = None then Some q else p"
  have loop: "alloc_pool_loop (qb # qs) layer n p prev m
      = (if 0 < n - qlen then alloc_pool_loop qs 0 (n - qlen) ?p (Some q) m2 else Some (?p, m2))"
    using m2(1) unfolding qb alloc_pool_loop.simps Let_def qlen_def [unfolded room_def, symmetric] x_def [symmetric] m1_def [symmetric]
    by (cases p) simp_all
  show ?case
  proof (cases "n \<le> room layer")
    case True
    then have one: "qlen = n" "pool_need layer n = 1" by (simp_all add: qlen_def pool_need_def)
    then have "alloc_pool_loop (qb # qs) layer n p prev m = Some (?p, m2)" "[q] = map fst (take (pool_need layer n) (qb # qs))"
        "pool m2 = drop (pool_need layer n) (qb # qs)" "chain m2 (Some q) [q]" "totals m2 [q]" "pooled m2 [q]" "length (chain_bytes m2 [q]) = n"
      using loop qb m2(2,3) x fit q(2) by (simp_all add: pooled_def length_buf_bytes)
    then show ?thesis using m2(4,5) one(2) by (intro exI [of _ "[q]"] exI [of _ m2]) auto
  next
    case False
    then have ql: "qlen = room layer" "0 < n - qlen" "pool_need layer n = Suc (pool_need 0 (n - qlen))"
      using pool_need_step [of layer n] by (simp_all add: qlen_def)
    have free: "\<forall>(a, b) \<in> set qs. store m2 a = None \<and> length b = PBUF_POOL_BUFSIZE"
    proof -
      have "store m2 a = None" if "(a, c) \<in> set qs" for a c
      proof -
        have "store m a = None" "a \<noteq> q" using that Cons.prems(2) q(3) by force+
        then show ?thesis using m2(5) by simp
      qed
      then show ?thesis using Cons.prems(2) by auto
    qed
    obtain as m' where i: "as \<noteq> []" "alloc_pool_loop qs 0 (n - qlen) ?p (Some q) m2 = Some (if ?p = None then Some (hd as) else ?p, m')"
      "as = map fst (take (pool_need 0 (n - qlen)) qs)" "pool m' = drop (pool_need 0 (n - qlen)) qs" "refs m' = refs m2"
      "chain m' (Some (hd as)) as" "totals m' as" "pooled m' as" "length (chain_bytes m' as) = n - qlen"
      "\<forall>b. b \<notin> set as \<longrightarrow> store m' b = (if ?p \<noteq> None \<and> Some q = Some b then map_option (nxt_update (\<lambda>_. Some (hd as))) (store m2 b) else store m2 b)"
    proof -
      have "distinct (map fst qs)" "MEM_ALIGN_SIZE 0 < PBUF_POOL_BUFSIZE" "n - qlen < 65536" "pool_need 0 (n - qlen) \<le> length qs"
        using Cons.prems(1,4,5) ql(3) by (simp_all add: MEM_ALIGN_SIZE_def pool_size)
      moreover have "\<exists>c z. Some q = Some c \<and> store m2 c = Some z" using m2(2) by blast
      ultimately show thesis using Cons.IH [OF _ free, of 0 "n - qlen" ?p "Some q"] that by blast
    qed
    have "q \<notin> set as" using q(3) i(3) by (auto dest: in_set_takeD)
    then have mq: "store m' q = Some (x\<lparr>nxt := Some (hd as)\<rparr>)" using i(10) m2(2) by auto
    have bb: "length (buf_bytes (x\<lparr>nxt := Some (hd as)\<rparr>)) = qlen" using fit x(5) by (simp add: buf_bytes_def)
    have "alloc_pool_loop (qb # qs) layer n p prev m = Some (?p, m')" using loop ql(2) i(2) by (auto split: if_splits)
    moreover have "q # as = map fst (take (pool_need layer n) (qb # qs))" "pool m' = drop (pool_need layer n) (qb # qs)" using i(3,4) ql(3) qb by simp_all
    moreover have "chain m' (Some q) (q # as)" using mq fit i(6) x(2,3) by simp
    moreover have "length (chain_bytes m' (q # as)) = n" using i(9) mq bb ql(2) by simp
    moreover from this have "totals m' (q # as)" using i(7) mq x(4) by simp
    moreover have "pooled m' (q # as)" using i(8) mq x q(2) by (auto simp: pooled_def)
    moreover have "store m' c = (if p \<noteq> None \<and> prev = Some c then map_option (nxt_update (\<lambda>_. Some (hd (q # as)))) (store m c) else store m c)"
      if "c \<notin> set (q # as)" for c using i(10) m2(5) that by auto
    ultimately show ?thesis using i(5) m2(4) by (intro exI [of _ "q # as"] exI [of _ m']) auto
  qed
qed

text \<open>An empty pool gives back what the loop has taken so far.\<close>

lemma alloc_pool_fails:
  assumes "distinct (map fst qs)" "\<forall>(a, b) \<in> set qs. store m a = None \<and> length b = PBUF_POOL_BUFSIZE" "MEM_ALIGN_SIZE layer < PBUF_POOL_BUFSIZE"
    and "pool m = qs" "n < 65536" "length qs < pool_need layer n" "chain m p pre" "distinct pre" "pooled m pre" "p \<noteq> None \<Longrightarrow> prev = Some (last pre)"
  shows "\<exists>m'. alloc_pool_loop qs layer n p prev m = Some (None, m') \<and> refs m' = refs m \<and> store m' = (\<lambda>b. if b \<in> set pre then None else store m b)
    \<and> fst ` set (pool m') = set pre \<union> fst ` set qs \<and> mem_ok m'"
  using assms
proof (induction qs arbitrary: layer n p prev m pre)
  case Nil
  show ?case
  proof (cases p)
    case None
    then have "pre = []" using Nil.prems(7) by (cases pre) auto
    then show ?thesis using None Nil.prems by (auto simp: mem_ok_def)
  next
    case (Some a)
    have f: "pbuf_free_loop p 0 m = Some (0 + of_nat (length pre), release_all pre m)"
      by (rule free_chain [OF Nil.prems(7,8) pooled_sole [OF Nil.prems(9)]])
    have r: "pool (release_all pre m) = rev (map (\<lambda>a. (a, blk (the (store m a)))) pre)" "refs (release_all pre m) = refs m"
      using pool_release_all [OF Nil.prems(9,8)] Nil.prems(4) by simp_all
    have "mem_ok (release_all pre m)" using Nil.prems(8,9) unfolding mem_ok_def r(1)
      by (auto simp: store_release_all pooled_def rev_map [symmetric] comp_def)
    then show ?thesis using Some f r by (auto simp: pbuf_free_def store_release_all image_image)
  qed
next
  case (Cons qb qs)
  obtain q b where qb: "qb = (q, b)" by fastforce
  define qlen where "qlen = min n (room layer)"
  define x where "x = pbuf_init_alloced_pbuf b (MEM_ALIGN_SIZE layer) (of_nat n) (of_nat qlen) PBUF_POOL"
  define m1 where "m1 = set_pbuf q x (m\<lparr>pool := qs\<rparr>)"
  have q: "store m q = None" "length b = PBUF_POOL_BUFSIZE" "q \<notin> fst ` set qs" using Cons.prems(1,2) qb by auto
  have "1 < pool_need layer n" using Cons.prems(6) by simp
  then have big: "room layer < n" by (simp add: pool_need_def split: if_splits)
  then have ql: "qlen = room layer" "0 < n - qlen" "pool_need layer n = Suc (pool_need 0 (n - qlen))"
    using pool_need_step [of layer n] by (simp_all add: qlen_def)
  have "unat (of_nat qlen :: u16) = qlen" using Cons.prems(5) by (intro unat_of_nat_small) (simp add: qlen_def)
  then have x: "nxt x = None" "beg x + unat (plen x) \<le> length (blk x)" "blk x = b" "ptype x = PBUF_POOL" "pref x = 1"
    using q(2) Cons.prems(3) by (simp_all add: x_def pbuf_init_alloced_pbuf_def qlen_def room_def)
  have qpre: "q \<notin> set pre" using q(1) Cons.prems(9) by (auto simp: pooled_def)
  let ?p = "if p = None then Some q else p"
  obtain m2 where m2: "(case p of None \<Rightarrow> Some m1 | Some _ \<Rightarrow> set_next prev (Some q) m1) = Some m2" "pool m2 = qs" "refs m2 = refs m"
      "chain m2 ?p (pre @ [q])" "pooled m2 (pre @ [q])" "\<And>c. c \<notin> set pre \<Longrightarrow> c \<noteq> q \<Longrightarrow> store m2 c = store m c"
  proof (cases p)
    case None
    then have "pre = []" using Cons.prems(7) by (cases pre) auto
    then show thesis using None x q(2) by (intro that [of m1]) (auto simp: m1_def pooled_def)
  next
    case (Some r)
    then have ne: "pre \<noteq> []" using Cons.prems(7) by auto
    then obtain init c where pre: "pre = init @ [c]" by (metis append_butlast_last_id)
    have prev: "prev = Some c" using Cons.prems(10) Some pre by simp
    obtain z where z: "store m c = Some z" "ptype z = PBUF_POOL" "pref z = 1" "length (blk z) = PBUF_POOL_BUFSIZE"
      using Cons.prems(9) pre by (auto simp: pooled_def)
    define m2 where "m2 = set_pbuf c (z\<lparr>nxt := Some q\<rparr>) m1"
    have cq: "c \<noteq> q" "c \<notin> set init" using qpre pre Cons.prems(8) by auto
    have st: "store m2 = (store m)(q \<mapsto> x, c \<mapsto> z\<lparr>nxt := Some q\<rparr>)" "pool m2 = qs" "refs m2 = refs m" by (simp_all add: m2_def m1_def)
    have "chain m1 p (init @ [c]) = chain m p (init @ [c])" using qpre pre by (intro chain_cong) (auto simp: m1_def)
    then have link: "chain m2 p (init @ [c, q])"
      using chain_link [of c init "[q]" m1 z "Some q" p] cq z(1) x Cons.prems(7) pre by (simp add: m1_def m2_def)
    have "set_next prev (Some q) m1 = Some m2" using prev z(1) cq(1) by (simp add: set_next_def m1_def m2_def)
    moreover have "chain m2 p (pre @ [q])" using link pre by simp
    moreover have "pooled m2 (pre @ [q])" using st z x q(2) Cons.prems(9) qpre pre by (auto simp: pooled_def)
    moreover have "store m2 d = store m d" if "d \<notin> set pre" "d \<noteq> q" for d using that st pre by auto
    ultimately show thesis using Some st(2,3) by (intro that [of m2]) auto
  qed
  have loop: "alloc_pool_loop (qb # qs) layer n p prev m = alloc_pool_loop qs 0 (n - qlen) ?p (Some q) m2"
    using m2(1) ql(2) unfolding qb alloc_pool_loop.simps Let_def qlen_def [unfolded room_def, symmetric] x_def [symmetric] m1_def [symmetric]
    by (cases p) simp_all
  have free: "\<forall>(a, b) \<in> set qs. store m2 a = None \<and> length b = PBUF_POOL_BUFSIZE"
  proof -
    have "store m2 a = None" if "(a, c) \<in> set qs" for a c
    proof -
      have "store m a = None" "a \<noteq> q" using that Cons.prems(2) q(3) by force+
      moreover from this have "a \<notin> set pre" using Cons.prems(9) by (auto simp: pooled_def)
      ultimately show ?thesis using m2(6) by simp
    qed
    then show ?thesis using Cons.prems(2) by auto
  qed
  have "distinct (map fst qs)" "MEM_ALIGN_SIZE 0 < PBUF_POOL_BUFSIZE" "n - qlen < 65536" "length qs < pool_need 0 (n - qlen)" "distinct (pre @ [q])"
    using Cons.prems(1,5,6,8) ql(3) qpre by (simp_all add: MEM_ALIGN_SIZE_def pool_size)
  then obtain m' where m': "alloc_pool_loop qs 0 (n - qlen) ?p (Some q) m2 = Some (None, m')" "refs m' = refs m2"
      "store m' = (\<lambda>b. if b \<in> set (pre @ [q]) then None else store m2 b)" "fst ` set (pool m') = set (pre @ [q]) \<union> fst ` set qs" "mem_ok m'"
    using Cons.IH [OF _ free _ m2(2), of 0 "n - qlen" ?p "pre @ [q]" "Some q"] m2(4,5) by auto
  have "store m' = (\<lambda>b. if b \<in> set pre then None else store m b)" unfolding m'(3) using m2(6) q(1) by auto
  then show ?case using loop m' m2(3) qb by auto
qed

text \<open>A packet from the pool that is in use: the free elements are those before without its buffers.\<close>

lemma alloc_pool:
  assumes "mem_ok m" "MEM_ALIGN_SIZE layer < PBUF_POOL_BUFSIZE" "pool_need layer (unat n) \<le> length (pool m)"
  shows "\<exists>a as m'. pbuf_alloc malloc layer n PBUF_POOL m = Some (Some a, m') \<and> packet m' (Some a) as \<and> pooled m' as \<and> mem_ok m'
    \<and> length (chain_bytes m' as) = unat n \<and> map fst (pool m) = as @ map fst (pool m') \<and> length as = pool_need layer (unat n)
    \<and> (\<forall>b. b \<notin> set as \<longrightarrow> store m' b = store m b) \<and> (\<forall>b \<in> set as. store m b = None)"
proof -
  have ok: "distinct (map fst (pool m))" "\<forall>(a, b) \<in> set (pool m). store m a = None \<and> length b = PBUF_POOL_BUFSIZE"
    using assms(1) by (simp_all add: mem_ok_def)
  have n: "unat n < 65536" using unsigned_less [of n, where 'a = nat] by simp
  let ?k = "pool_need layer (unat n)"
  obtain as m' where as: "as \<noteq> []" "alloc_pool_loop (pool m) layer (unat n) None None m = Some (Some (hd as), m')"
      "as = map fst (take ?k (pool m))" "pool m' = drop ?k (pool m)" "chain m' (Some (hd as)) as" "totals m' as" "pooled m' as"
      "length (chain_bytes m' as) = unat n" "\<forall>b. b \<notin> set as \<longrightarrow> store m' b = store m b"
    using alloc_pool_enough [OF ok assms(2) n assms(3), of None None] by auto
  have split: "map fst (pool m) = as @ map fst (pool m')" using as(3,4) by (metis append_take_drop_id map_append)
  then have d: "distinct as" "set as \<inter> fst ` set (pool m') = {}" "distinct (map fst (pool m'))" using ok(1) by (auto simp: distinct_append)
  have none: "store m b = None" if "b \<in> set as" for b using ok(2) that as(3) by (force dest: in_set_takeD)
  have "store m' a = None \<and> length b = PBUF_POOL_BUFSIZE" if "(a, b) \<in> set (pool m')" for a b
  proof -
    have "(a, b) \<in> set (pool m)" using that as(4) by (auto dest: in_set_dropD)
    moreover have "a \<notin> set as" using d(2) that by force
    ultimately show ?thesis using ok(2) as(9) by auto
  qed
  then have "mem_ok m'" using d(3) by (auto simp: mem_ok_def)
  then show ?thesis using as split none d(1) assms(3)
    by (intro exI [of _ "hd as"] exI [of _ as] exI [of _ m']) (simp add: pbuf_alloc_def packet_def)
qed

text \<open>Released, its buffers are free elements again.\<close>

lemma free_pooled:
  assumes "mem_ok m" "packet m p as" "pooled m as"
  shows "\<exists>m'. pbuf_free p m = Some (of_nat (length as), m') \<and> mem_ok m' \<and> fst ` set (pool m') = set as \<union> fst ` set (pool m)
    \<and> length (pool m') = length as + length (pool m) \<and> store m' = (\<lambda>b. if b \<in> set as then None else store m b)"
proof -
  have c: "chain m p as" "distinct as" using assms(2) by (simp_all add: packet_def)
  let ?m = "release_all as m"
  have f: "pbuf_free p m = Some (of_nat (length as), ?m)" using free_chain [OF c pooled_sole [OF assms(3)], of 0] by (simp add: pbuf_free_def)
  have p: "pool ?m = rev (map (\<lambda>a. (a, blk (the (store m a)))) as) @ pool m" using pool_release_all [OF assms(3) c(2)] by simp
  have fst: "map fst (pool ?m) = rev as @ map fst (pool m)" unfolding p by (simp add: rev_map [symmetric] comp_def)
  have "a \<notin> set as" if "(a, b) \<in> set (pool m)" for a b using that assms(1,3) by (fastforce simp: mem_ok_def pooled_def)
  then have "distinct (map fst (pool ?m))" unfolding fst using assms(1) c(2) by (auto simp: mem_ok_def)
  moreover have "length b = PBUF_POOL_BUFSIZE" "store ?m a = None" if "(a, b) \<in> set (pool ?m)" for a b
    using that assms(1,3) unfolding p by (auto simp: pooled_def mem_ok_def store_release_all)
  ultimately have "mem_ok ?m" by (auto simp: mem_ok_def)
  moreover have "fst ` set (pool ?m) = set as \<union> fst ` set (pool m)" using arg_cong [OF fst, of set] by auto
  moreover have "store ?m = (\<lambda>b. if b \<in> set as then None else store m b)" by (auto simp: store_release_all)
  moreover have "length (pool ?m) = length as + length (pool m)" unfolding p by simp
  ultimately show ?thesis using f by blast
qed

text \<open>An allocation that fails leaves what was free free.\<close>

lemma alloc_pool_none:
  assumes "mem_ok m" "MEM_ALIGN_SIZE layer < PBUF_POOL_BUFSIZE" "length (pool m) < pool_need layer (unat n)"
  shows "\<exists>m'. pbuf_alloc malloc layer n PBUF_POOL m = Some (None, m') \<and> mem_ok m' \<and> store m' = store m \<and> fst ` set (pool m') = fst ` set (pool m)"
proof -
  have ok: "distinct (map fst (pool m))" "\<forall>(a, b) \<in> set (pool m). store m a = None \<and> length b = PBUF_POOL_BUFSIZE"
    using assms(1) by (simp_all add: mem_ok_def)
  have "unat n < 65536" using unsigned_less [of n, where 'a = nat] by simp
  then show ?thesis using alloc_pool_fails [OF ok assms(2) refl _ assms(3), of None "[]" None] by (auto simp: pooled_def pbuf_alloc_def)
qed

lemma reblk_pooled:
  assumes "reblk A m m'" "pooled m as"
  shows "pooled m' as"
  unfolding pooled_def
proof
  fix a
  assume "a \<in> set as"
  then obtain x where x: "store m a = Some x" "ptype x = PBUF_POOL \<and> pref x = 1 \<and> length (blk x) = PBUF_POOL_BUFSIZE" using assms(2) by (auto simp: pooled_def)
  then show "\<exists>x. store m' a = Some x \<and> ptype x = PBUF_POOL \<and> pref x = 1 \<and> length (blk x) = PBUF_POOL_BUFSIZE"
    by (elim reblk_at [OF assms(1)]) simp
qed

lemma reblk_mem_ok: "reblk A m m' \<Longrightarrow> \<forall>a \<in> A. store m a \<noteq> None \<Longrightarrow> mem_ok m \<Longrightarrow> mem_ok m'"
  unfolding mem_ok_def reblk_def by (auto split: prod.splits) (metis option.distinct(1))

subsection \<open>Concatenation\<close>

lemma cat_loop:
  assumes "packet m (Some t) bs" "bs \<noteq> []"
  shows "chain m p as \<Longrightarrow> as \<noteq> [] \<Longrightarrow> distinct (as @ bs) \<Longrightarrow> totals m as \<Longrightarrow> length (chain_bytes m as) + length (chain_bytes m bs) < 65536 \<Longrightarrow>
    \<exists>m'. pbuf_cat_loop p (Some t) m = Some m' \<and> chain m' p (as @ bs) \<and> totals m' (as @ bs) \<and> chain_bytes m' as = chain_bytes m as
      \<and> pool m' = pool m \<and> refs m' = refs m \<and> (\<forall>b. b \<notin> set as \<longrightarrow> store m' b = store m b)"
  using assms(1)
proof (induction as arbitrary: p m)
  case (Cons a as)
  obtain x where x: "p = Some a" "store m a = Some x" "beg x + unat (plen x) \<le> length (blk x)" "chain m (nxt x) as" using Cons.prems(1) by auto
  obtain y where y: "store m t = Some y" "unat (ptot y) = length (chain_bytes m bs)" using packet_total [OF Cons.prems(6)] by blast
  have t: "t \<in> set bs" using Cons.prems(6) assms(2) by (cases bs) (auto simp: packet_def)
  have at: "unat (ptot x) = length (chain_bytes m (a # as))" using Cons.prems(4) x(2) by simp
  have sum: "unat (ptot x + ptot y) = unat (ptot x) + unat (ptot y)"
    using at y(2) Cons.prems(5) by (subst unat_add_lem [THEN iffD1]) simp_all
  show ?case
  proof (cases "nxt x")
    case None
    then have as: "as = []" using x(4) by (cases as) auto
    define x' where "x' = x\<lparr>ptot := ptot x + ptot y, nxt := Some t\<rparr>"
    let ?m = "set_pbuf a x' m"
    have "pbuf_cat_loop p (Some t) m = Some ?m" by (subst pbuf_cat_loop.simps) (use x y None in \<open>simp add: x'_def\<close>)
    moreover have bs: "chain ?m (Some t) bs" "totals ?m bs" "chain_bytes ?m bs = chain_bytes m bs"
      using Cons.prems(3,6) by (auto simp: packet_def)
    have "buf_bytes x' = buf_bytes x" by (simp add: buf_bytes_def x'_def)
    then have "chain ?m p (a # bs)" "totals ?m (a # bs)" "chain_bytes ?m [a] = chain_bytes m [a]"
      using bs x at as sum y(2) by (simp_all add: x'_def)
    ultimately show ?thesis using as by (intro exI [of _ ?m]) auto
  next
    case (Some n)
    define x' where "x' = x\<lparr>ptot := ptot x + ptot y\<rparr>"
    let ?m = "set_pbuf a x' m"
    have as: "as \<noteq> []" using x(4) Some by auto
    have na: "a \<notin> set as" "a \<notin> set bs" using Cons.prems(3) by auto
    then have c: "chain ?m (nxt x) as" "totals ?m as" "chain_bytes ?m as = chain_bytes m as" "chain_bytes ?m bs = chain_bytes m bs" "packet ?m (Some t) bs"
      using Cons.prems(4,6) x(4) by auto
    obtain m' where m': "pbuf_cat_loop (nxt x) (Some t) ?m = Some m'" "chain m' (nxt x) (as @ bs)" "totals m' (as @ bs)" "chain_bytes m' as = chain_bytes ?m as"
        "pool m' = pool ?m" "refs m' = refs ?m" "\<forall>b. b \<notin> set as \<longrightarrow> store m' b = store ?m b"
      using Cons.IH [OF c(1) as _ c(2) _ c(5)] Cons.prems(3,5) c(3,4) by auto
    have a: "store m' a = Some x'" using m'(7) na(1) by simp
    have bsb: "chain_bytes m' bs = chain_bytes m bs" using chain_bytes_cong [of bs m' ?m] m'(7) Cons.prems(3) c(4) by auto
    have "buf_bytes x' = buf_bytes x" by (simp add: buf_bytes_def x'_def)
    then have "chain m' p ((a # as) @ bs)" "totals m' ((a # as) @ bs)" "chain_bytes m' (a # as) = chain_bytes m (a # as)"
      using a m'(2,3,4) x at c(3) bsb sum y(2) by (simp_all add: x'_def)
    moreover have "pbuf_cat_loop p (Some t) m = Some m'" by (subst pbuf_cat_loop.simps) (use x y Some m'(1) in \<open>simp add: x'_def\<close>)
    ultimately show ?thesis using m'(5-7) by (intro exI [of _ m']) auto
  qed
qed simp

lemma cat_packet:
  assumes "packet m (Some h) as" "packet m (Some t) bs" "set as \<inter> set bs = {}" "length (chain_bytes m as) + length (chain_bytes m bs) < 65536"
  shows "\<exists>m'. pbuf_cat (Some h) (Some t) m = Some m' \<and> packet m' (Some h) (as @ bs)
    \<and> chain_bytes m' (as @ bs) = chain_bytes m as @ chain_bytes m bs \<and> (\<forall>b. b \<notin> set as \<longrightarrow> store m' b = store m b)"
proof -
  have ne: "as \<noteq> []" "bs \<noteq> []" using assms(1,2) by (auto simp: packet_def)
  obtain m' where m': "pbuf_cat_loop (Some h) (Some t) m = Some m'" "chain m' (Some h) (as @ bs)" "totals m' (as @ bs)" "chain_bytes m' as = chain_bytes m as"
      "\<forall>b. b \<notin> set as \<longrightarrow> store m' b = store m b"
    using cat_loop [OF assms(2) ne(2), of "Some h" as] assms ne(1) by (auto simp: packet_def)
  have "chain_bytes m' bs = chain_bytes m bs" using m'(5) assms(3) by (intro chain_bytes_cong) auto
  then show ?thesis using m' assms(1-3) by (auto simp: pbuf_cat_def packet_def)
qed

subsection \<open>Copying\<close>

definition filled :: "pmem \<Rightarrow> nat list \<Rightarrow> bool" where
  "filled m as \<longleftrightarrow> (\<forall>a \<in> set as. buf_bytes (the (store m a)) \<noteq> [])"

text \<open>The copy of a whole packet into one buffer of its size; without empty buffers it does not take the packet for a queue.\<close>

lemma copy_single:
  assumes "chain m (Some c) as" "filled m as" "totals m as" "a \<notin> set as" "store m a = Some x" "nxt x = None"
    and "beg x + unat (plen x) \<le> length (blk x)" "off + length (chain_bytes m as) = unat (plen x)"
  shows "\<exists>m'. copy_pbuf_loop (Some a) off (Some c) 0 (length (chain_bytes m as)) m = Some (ERR_OK, m') \<and> reblk {a} m m'
    \<and> buf_bytes (the (store m' a)) = take off (buf_bytes x) @ chain_bytes m as"
  using assms
proof (induction as arbitrary: c off m x)
  case (Cons d as)
  obtain y where y: "c = d" "store m c = Some y" "beg y + unat (plen y) \<le> length (blk y)" "chain m (nxt y) as" using Cons.prems(1) by auto
  have ylen: "length (buf_bytes y) = unat (plen y)" using y(3) by (rule length_buf_bytes)
  have tot: "length (chain_bytes m (d # as)) = unat (plen y) + length (chain_bytes m as)" using y ylen by simp
  have "buf_bytes y \<noteq> []" using Cons.prems(2) y(1,2) by (auto simp: filled_def)
  then have pos: "0 < unat (plen y)" using ylen by (metis length_0_conv not_gr_zero)
  let ?n = "unat (plen y)"
  have fit: "off + ?n \<le> unat (plen x)" using Cons.prems(8) tot by simp
  let ?L = "length (chain_bytes m (d # as))"
  have rd: "payload_read y 0 ?n = Some (buf_bytes y)" using payload_read_bytes [OF y(3), of 0 ?n] ylen by simp
  define L where "L = length (chain_bytes m (d # as))"
  have n: "off \<le> unat (plen x)" "?n \<le> unat (plen x) - off" "?n \<le> L" using fit tot by (simp_all add: L_def)
  note sd = size_diff_def [of _ 0, simplified] size_diff_def [of "unat (plen x)" off, simplified n(1), simplified]
  have step: "copy_pbuf_loop (Some a) off (Some c) 0 L m = (let L' = L - ?n; p = nxt y;
      (q, o') = (if off + ?n = unat (plen x) then (None, 0) else (Some a, off + ?n)) in
      if p = None \<and> L' \<noteq> 0 \<or> q = None \<and> L' \<noteq> 0 then Some (ERR_ARG, m1)
      else do { queue_from \<leftarrow> (case p of None \<Rightarrow> Some False | Some _ \<Rightarrow> do { (_, y) \<leftarrow> pbuf_at p m1; Some (plen y = ptot y \<and> nxt y \<noteq> None) });
                if queue_from then Some (ERR_VAL, m1) else if L' = 0 then Some (ERR_OK, m1)
                else copy_pbuf_loop q o' p 0 L' m1 })"
    if "payload_write a off (buf_bytes y) m = Some m1" "store m1 a = Some x1" "nxt x1 = None" for m1 x1
    by (subst copy_pbuf_loop.simps) (cases "nxt y"; use n that rd Cons.prems(5,6) y(2) in \<open>simp add: Let_def sd cong: if_cong\<close>)
  obtain m1 where m1: "payload_write a off (buf_bytes y) m = Some m1" "reblk {a} m m1" "buf_bytes (the (store m1 a)) = blit (buf_bytes x) off (buf_bytes y)"
    using payload_write_bytes [OF Cons.prems(5,7), of off "buf_bytes y"] fit ylen by auto
  obtain b where b: "store m1 a = Some (x\<lparr>blk := b\<rparr>)" "length b = length (blk x)" by (rule reblk_at [OF m1(2) Cons.prems(5)])
  have same: "store m1 e = store m e" if "e \<in> set (d # as)" for e using m1(2) that Cons.prems(4) by (auto simp: reblk_def)
  have rest: "chain m1 (nxt y) as" "totals m1 as" "chain_bytes m1 as = chain_bytes m as" "filled m1 as"
    using chain_cong [of as m1 m] totals_cong [of as m1 m] chain_bytes_cong [of as m1 m] same y(4) Cons.prems(2,3) by (auto simp: filled_def)
  show ?case
  proof (cases as)
    case Nil
    then have "off + ?n = unat (plen x)" "nxt y = None" using Cons.prems(8) tot y(4) by simp_all
    then have "copy_pbuf_loop (Some a) off (Some c) 0 L m = Some (ERR_OK, m1)"
      using step [OF m1(1) b(1)] Cons.prems(6) tot Nil by (simp add: Let_def L_def)
    moreover have "buf_bytes (the (store m1 a)) = take off (buf_bytes x) @ chain_bytes m (d # as)"
      using m1(3) Nil y(1,2) ylen \<open>off + ?n = unat (plen x)\<close> length_buf_bytes [OF Cons.prems(7)] by (simp add: blit_def)
    ultimately show ?thesis using m1(2) unfolding L_def by blast
  next
    case (Cons e es)
    then obtain z where z: "nxt y = Some e" "store m1 e = Some z" "beg z + unat (plen z) \<le> length (blk z)" "chain m1 (nxt z) es" using rest(1) by auto
    have zlen: "length (buf_bytes z) = unat (plen z)" using z(3) by (rule length_buf_bytes)
    have zb: "0 < length (buf_bytes z)" using rest(4) Cons z(2) by (auto simp: filled_def)
    moreover have "length (chain_bytes m1 as) = length (buf_bytes z) + length (chain_bytes m1 es)" using Cons z(2) by simp
    ultimately have less: "off + ?n \<noteq> unat (plen x)" "length (chain_bytes m (d # as)) - ?n = length (chain_bytes m1 as)" "length (chain_bytes m1 as) \<noteq> 0"
      using Cons.prems(8) tot arg_cong [OF rest(3), of length] by linarith+
    have queue: "\<not> (plen z = ptot z \<and> nxt z \<noteq> None)"
    proof
      assume q: "plen z = ptot z \<and> nxt z \<noteq> None"
      then obtain f fs where es: "es = f # fs" "nxt z = Some f" using z(4) by (cases es) auto
      then have "buf_bytes (the (store m1 f)) \<noteq> []" using rest(4) Cons by (auto simp: filled_def)
      then show False using q rest(2) Cons z(2) zlen es(1) by auto
    qed
    have "copy_pbuf_loop (Some a) off (Some c) 0 L m = copy_pbuf_loop (Some a) (off + ?n) (Some e) 0 (length (chain_bytes m1 as)) m1"
      using step [OF m1(1) b(1)] less [folded L_def] Cons.prems(6) z(1,2) queue by (auto simp: L_def)
    moreover have "\<exists>m'. copy_pbuf_loop (Some a) (off + ?n) (Some e) 0 (length (chain_bytes m1 as)) m1 = Some (ERR_OK, m') \<and> reblk {a} m1 m'
        \<and> buf_bytes (the (store m' a)) = take (off + ?n) (buf_bytes (x\<lparr>blk := b\<rparr>)) @ chain_bytes m1 as"
      using Cons.prems(4,6-8) rest z(1) b tot by (intro Cons.IH) auto
    moreover have "buf_bytes (x\<lparr>blk := b\<rparr>) = blit (buf_bytes x) off (buf_bytes y)" using m1(3) b(1) by simp
    then have "take (off + ?n) (buf_bytes (x\<lparr>blk := b\<rparr>)) = take off (buf_bytes x) @ buf_bytes y"
      using ylen fit length_buf_bytes [OF Cons.prems(7)] by (simp add: blit_def)
    ultimately show ?thesis using reblk_trans [OF m1(2)] rest(3) y(1,2) unfolding L_def by fastforce
  qed
qed simp

text \<open>The heap is asked for a buffer when its size is a 16-bit number, and for that size.\<close>

definition ram_size :: "nat \<Rightarrow> u16 \<Rightarrow> nat" where "ram_size layer n = MEM_ALIGN_SIZE layer + MEM_ALIGN_SIZE (unat n)"

lemma alloc_ram:
  assumes "layer \<le> PBUF_TRANSPORT"
  shows "pbuf_alloc_ram malloc layer n m =
    (if ram_size layer n + SIZEOF_STRUCT_PBUF < 65536
     then (case malloc (SIZEOF_STRUCT_PBUF + ram_size layer n) of None \<Rightarrow> (None, m)
           | Some (a, b) \<Rightarrow> (Some a, set_pbuf a (pbuf_init_alloced_pbuf b (MEM_ALIGN_SIZE layer) n n PBUF_RAM) m))
     else (None, m))"
proof -
  let ?l = "MEM_ALIGN_SIZE layer" and ?n = "MEM_ALIGN_SIZE (unat n)"
  have l: "?l \<le> 56" using assms div_le_mono [of "layer + 3" 57 4] by (simp add: MEM_ALIGN_SIZE_def PBUF_TRANSPORT_def)
  have n: "?n \<le> 65536" using unsigned_less [of n, where 'a = nat] by (simp add: MEM_ALIGN_SIZE_def)
  have w: "unat (of_nat k :: u16) = k mod 65536" for k by (simp add: unat_of_nat)
  have p: "unat (of_nat (?l + ?n) :: u16) = (?l + ?n) mod 65536" by (rule w)
  have a: "unat (of_nat 16 + of_nat (?l + ?n) :: u16) = (16 + (?l + ?n)) mod 65536" unfolding of_nat_add [symmetric] by (rule w)
  have s: "MEM_ALIGN_SIZE SIZEOF_STRUCT_PBUF = 16" "MEM_ALIGN_SIZE 16 = 16" by (simp_all add: MEM_ALIGN_SIZE_def SIZEOF_STRUCT_PBUF_def)
  show ?thesis
  proof (cases "ram_size layer n + SIZEOF_STRUCT_PBUF < 65536")
    case True
    then have "16 + (?l + ?n) < 65536" by (simp add: ram_size_def SIZEOF_STRUCT_PBUF_def)
    then have "unat (of_nat (?l + ?n) :: u16) = ?l + ?n" "unat (of_nat 16 + of_nat (?l + ?n) :: u16) = 16 + (?l + ?n)" using p a by simp_all
    then show ?thesis using True by (simp add: pbuf_alloc_ram_def s ram_size_def SIZEOF_STRUCT_PBUF_def Let_def)
  next
    case False
    then have big: "65536 \<le> 16 + (?l + ?n)" by (simp add: ram_size_def SIZEOF_STRUCT_PBUF_def)
    have "unat (of_nat (?l + ?n) :: u16) < ?n \<or> unat (of_nat 16 + of_nat (?l + ?n) :: u16) < ?n"
    proof (cases "65536 \<le> ?l + ?n")
      case True
      then have "(?l + ?n) mod 65536 = ?l + ?n - 65536" using l n by (simp add: mod_if)
      then show ?thesis using p l n True by linarith
    next
      case False
      then have "(16 + (?l + ?n)) mod 65536 = 16 + (?l + ?n) - 65536" using big by (simp add: mod_if)
      then show ?thesis using a l False big by linarith
    qed
    then show ?thesis using False by (simp add: pbuf_alloc_ram_def s Let_def)
  qed
qed

lemma filled_cong: "(\<And>a. a \<in> set as \<Longrightarrow> store m a = store m' a) \<Longrightarrow> filled m as = filled m' as"
  by (simp add: filled_def)

text \<open>A packet in a buffer of its own.\<close>

lemma clone_packet:
  assumes "packet m (Some h) as" "filled m as" "layer \<le> PBUF_TRANSPORT" "ram_size layer (of_nat (length (chain_bytes m as))) + SIZEOF_STRUCT_PBUF < 65536"
    and "malloc (SIZEOF_STRUCT_PBUF + ram_size layer (of_nat (length (chain_bytes m as)))) = Some (q, b)"
    and "length b = ram_size layer (of_nat (length (chain_bytes m as)))" "store m q = None"
  shows "\<exists>m'. pbuf_clone malloc layer PBUF_RAM (Some h) m = Some (Some q, m') \<and> packet m' (Some q) [q] \<and> chain_bytes m' [q] = chain_bytes m as
    \<and> (\<forall>a. a \<noteq> q \<longrightarrow> store m' a = store m a) \<and> (\<exists>z. store m' q = Some z \<and> ptype z = PBUF_RAM \<and> beg z = MEM_ALIGN_SIZE layer \<and> pref z = 1)"
proof -
  obtain x where x: "store m h = Some x" "unat (ptot x) = length (chain_bytes m as)" using packet_total [OF assms(1)] by blast
  have n: "of_nat (length (chain_bytes m as)) = ptot x" using arg_cong [OF x(2), of "of_nat :: nat \<Rightarrow> u16"] by simp
  define z where "z = pbuf_init_alloced_pbuf b (MEM_ALIGN_SIZE layer) (ptot x) (ptot x) PBUF_RAM"
  let ?m = "set_pbuf q z m"
  have q: "q \<noteq> h" "q \<notin> set as" using assms(1,7) x(1) chain_stored [of m "Some h" as q] by (auto simp: packet_def)
  have alloc: "pbuf_alloc malloc layer (ptot x) PBUF_RAM m = Some (Some q, ?m)"
    using alloc_ram [OF assms(3), of malloc "ptot x" m] assms(4,5) n by (simp add: pbuf_alloc_def z_def add.commute)
  have z: "nxt z = None" "plen z = ptot x" "ptot z = ptot x" "beg z + unat (plen z) \<le> length (blk z)" "unat (plen z) = length (chain_bytes m as)"
    using assms(6) n x(2) by (simp_all add: z_def pbuf_init_alloced_pbuf_def ram_size_def MEM_ALIGN_SIZE_def)
  have same: "store m a = store ?m a" if "a \<in> set as" for a using that q(2) by auto
  have src: "chain ?m (Some h) as" "filled ?m as" "totals ?m as" "chain_bytes ?m as = chain_bytes m as"
    using assms(1,2) q(2) filled_cong [of as m ?m] same by (auto simp: packet_def)
  obtain m' where m': "copy_pbuf_loop (Some q) 0 (Some h) 0 (length (chain_bytes m as)) ?m = Some (ERR_OK, m')" "reblk {q} ?m m'"
      "buf_bytes (the (store m' q)) = chain_bytes m as"
    using copy_single [OF src(1-3) q(2), of z 0] z(1,4,5) src(4) by auto
  have "pbuf_copy (Some q) (Some h) ?m = Some (ERR_OK, m')"
    using m'(1) x q(1) z(3) by (simp add: pbuf_copy_def pbuf_copy_partial_pbuf_def)
  then have "pbuf_clone malloc layer PBUF_RAM (Some h) m = Some (Some q, m')" using x(1) alloc by (simp add: pbuf_clone_def)
  moreover have "packet ?m (Some q) [q]" using z by (simp add: packet_def length_buf_bytes)
  then have "packet m' (Some q) [q]" by (rule reblk_packet [OF m'(2)])
  moreover obtain c where "store m' q = Some (z\<lparr>blk := c\<rparr>)" using reblk_at [OF m'(2), of q z] by auto
  ultimately show ?thesis using m'(2,3) by (intro exI [of _ m']) (simp add: reblk_def z_def pbuf_init_alloced_pbuf_def)
qed

lemma coalesce_packet:
  assumes "packet m (Some h) as" "filled m as" "sole m as" "1 < length as" "layer \<le> PBUF_TRANSPORT"
    and "ram_size layer (of_nat (length (chain_bytes m as))) + SIZEOF_STRUCT_PBUF < 65536"
    and "malloc (SIZEOF_STRUCT_PBUF + ram_size layer (of_nat (length (chain_bytes m as)))) = Some (q, b)"
    and "length b = ram_size layer (of_nat (length (chain_bytes m as)))" "store m q = None"
  shows "\<exists>m'. pbuf_coalesce malloc layer (Some h) m = Some (Some q, m') \<and> packet m' (Some q) [q] \<and> chain_bytes m' [q] = chain_bytes m as
    \<and> (\<forall>a \<in> set as. store m' a = None)"
proof -
  obtain m1 where m1: "pbuf_clone malloc layer PBUF_RAM (Some h) m = Some (Some q, m1)" "packet m1 (Some q) [q]" "chain_bytes m1 [q] = chain_bytes m as"
      "\<forall>a. a \<noteq> q \<longrightarrow> store m1 a = store m a"
    using clone_packet [OF assms(1,2,5,6), of malloc q b] assms(7-9) by blast
  have c: "chain m (Some h) as" "distinct as" using assms(1) by (simp_all add: packet_def)
  obtain h' c as' where as: "as = h' # c # as'" using assms(4) by (cases as; cases "tl as") auto
  then obtain x where x: "store m h = Some x" "nxt x = Some c" using c(1) by auto
  have q: "q \<notin> set as" using c(1) assms(9) chain_stored by blast
  then have same: "store m1 a = store m a" if "a \<in> set as" for a using m1(4) that by auto
  have "chain m1 (Some h) as" "sole m1 as" using chain_cong [of as m1 m] same c(1) assms(3) by (auto simp: sole_def)
  then have "pbuf_free (Some h) m1 = Some (of_nat (length as), release_all as m1)" using free_chain c(2) by (simp add: pbuf_free_def)
  then have "pbuf_coalesce malloc layer (Some h) m = Some (Some q, release_all as m1)" using x(1,2) m1(1) by (simp add: pbuf_coalesce_def)
  moreover have "packet (release_all as m1) (Some q) [q] = packet m1 (Some q) [q]" "chain_bytes (release_all as m1) [q] = chain_bytes m1 [q]"
    using q by (auto intro!: packet_cong chain_bytes_cong simp: store_release_all)
  ultimately show ?thesis using m1(2,3) by (intro exI [of _ "release_all as m1"]) (simp add: store_release_all)
qed

end
