(* ===== verification/FrameBuffers.thy ===== *)
theory FrameBuffers
  imports PbufChains
begin

text \<open>
  What packet buffers promise to their users, and the first use: a frame from the Ethernet chip copied into a packet buffer
  (\<open>EthernetTasks\<close> of \<open>Src/remora.cpp\<close>).
\<close>

text \<open>The frame is in \<open>pack\<close>; without a free buffer there is nothing to hand to the network stack.\<close>

definition frame_to_pbuf :: "malloc \<Rightarrow> u8 list \<Rightarrow> u16 \<Rightarrow> pmem \<Rightarrow> (nat option \<times> pmem) option" where
  "frame_to_pbuf malloc pack pack_len m =
     (if length pack < unat pack_len then None
      else
        do { (p, m1) \<leftarrow> pbuf_alloc malloc PBUF_RAW pack_len PBUF_POOL m;
             (_, m2) \<leftarrow> pbuf_take p (take (unat pack_len) pack) m1;
             Some (p, m2) })"

subsection \<open>Examples\<close>

text \<open>A heap with two free elements, and one with a packet of three and two bytes in two buffers.\<close>

definition two_free :: pmem where
  "two_free = \<lparr>store = Map.empty, pool = [(7, replicate PBUF_POOL_BUFSIZE 0), (9, replicate PBUF_POOL_BUFSIZE 0)], refs = []\<rparr>"

definition small_buf :: "nat option \<Rightarrow> u8 list \<Rightarrow> u16 \<Rightarrow> pbuf" where
  "small_buf n bs tot = \<lparr>nxt = n, blk = bs, beg = 0, ptot = tot, plen = of_nat (length bs), ptype = PBUF_RAM, pref = 1\<rparr>"

definition two_bufs :: pmem where
  "two_bufs = \<lparr>store = [4 \<mapsto> small_buf (Some 6) [1, 2, 3] 5, 6 \<mapsto> small_buf None [4, 5] 2], pool = [], refs = []\<rparr>"

lemma two_free_ok: "mem_ok two_free" "pool two_free \<noteq> []" "length (pool two_free) = 2" "store two_free = Map.empty"
  by (simp_all add: mem_ok_def two_free_def)

lemma two_bufs_ok: "packet two_bufs (Some 4) [4, 6]" "chain_bytes two_bufs [4, 6] = [1, 2, 3, 4, 5]"
    "store two_bufs 4 = Some (small_buf (Some 6) [1, 2, 3] 5)"
  by (simp_all add: packet_def two_bufs_def small_buf_def buf_bytes_def)

subsection \<open>Properties\<close>

text \<open>C23: A frame that fits into one element of the pool is stored in it byte for byte; released, the buffer is free again and
  nothing else has changed. With an empty pool the frame is dropped.\<close>

theorem frame_stored_and_released:
  assumes "mem_ok m" "unat n \<le> PBUF_POOL_BUFSIZE" "unat n \<le> length pack"
  shows "if pool m = [] then frame_to_pbuf malloc pack n m = Some (None, m)
    else \<exists>a m1 m2. frame_to_pbuf malloc pack n m = Some (Some a, m1) \<and> packet m1 (Some a) [a] \<and> chain_bytes m1 [a] = take (unat n) pack \<and> mem_ok m1
      \<and> length (pool m1) = length (pool m) - 1 \<and> pbuf_free (Some a) m1 = Some (1, m2) \<and> mem_ok m2 \<and> store m2 = store m
      \<and> fst ` set (pool m2) = fst ` set (pool m)"
proof (cases "pool m = []")
  case True
  then show ?thesis using assms(3) by (simp add: frame_to_pbuf_def pbuf_alloc_def pbuf_take_def)
next
  case False
  have room: "MEM_ALIGN_SIZE PBUF_RAW < PBUF_POOL_BUFSIZE" "pool_need PBUF_RAW (unat n) = 1"
    using assms(2) by (simp_all add: pool_need_def pool_size MEM_ALIGN_SIZE_def PBUF_RAW_def)
  moreover have "1 \<le> length (pool m)" using False by (cases "pool m") auto
  ultimately obtain p as m1 where m1: "pbuf_alloc malloc PBUF_RAW n PBUF_POOL m = Some (Some p, m1)" "packet m1 (Some p) as" "pooled m1 as" "mem_ok m1"
      "length (chain_bytes m1 as) = unat n" "map fst (pool m) = as @ map fst (pool m1)" "length as = 1"
      "\<forall>b. b \<notin> set as \<longrightarrow> store m1 b = store m b" "\<forall>b \<in> set as. store m b = None"
    using alloc_pool [OF assms(1) room(1), of n malloc] by auto
  obtain a where as: "as = [a]" "p = a" using m1(2,7) by (cases as) (auto simp: packet_def)
  obtain m2 where m2: "pbuf_take (Some a) (take (unat n) pack) m1 = Some (ERR_OK, m2)" "packet m2 (Some a) as" "reblk (set as) m1 m2"
      "chain_bytes m2 as = take (unat n) pack"
    using take_packet [OF m1(2), of "take (unat n) pack"] as assms(3) m1(5) by auto
  have ok: "mem_ok m2" "pooled m2 as" using reblk_mem_ok [OF m2(3) _ m1(4)] reblk_pooled [OF m2(3) m1(3)] m1(3) by (auto simp: pooled_def)
  obtain m3 where m3: "pbuf_free (Some a) m2 = Some (of_nat (length as), m3)" "mem_ok m3" "fst ` set (pool m3) = set as \<union> fst ` set (pool m2)"
      "store m3 = (\<lambda>b. if b \<in> set as then None else store m2 b)"
    using free_pooled [OF ok(1) m2(2) ok(2)] by blast
  have same: "pool m2 = pool m1" "\<forall>b. b \<notin> set as \<longrightarrow> store m2 b = store m1 b" using m2(3) by (simp_all add: reblk_def)
  have "fst ` set (pool m) = set as \<union> fst ` set (pool m1)" using arg_cong [OF m1(6), of set] by simp
  then have "store m3 = store m" "fst ` set (pool m3) = fst ` set (pool m)" using m3(3,4) same m1(8,9) by auto
  moreover have "length (pool m1) = length (pool m) - 1" using arg_cong [OF m1(6), of length] m1(7) by simp
  moreover have "frame_to_pbuf malloc pack n m = Some (Some a, m2)" using m1(1) m2(1) as(2) assms(3) by (simp add: frame_to_pbuf_def)
  ultimately show ?thesis using False m2 ok(1) m3(1,2) as(1) same(1) by auto
qed

theorem frame_stored_and_released_witness:
  "\<exists>a m1. frame_to_pbuf (\<lambda>_. None) [8, 6, 4, 2] 3 two_free = Some (Some a, m1) \<and> chain_bytes m1 [a] = [8, 6, 4] \<and> length (pool m1) = 1"
  using frame_stored_and_released [OF two_free_ok(1), of 3 "[8, 6, 4, 2]" "\<lambda>_. None"] two_free_ok(2,3) by (auto simp: pool_size)

text \<open>C24: An allocation from the pool takes exactly the elements the length needs, or none: with too few free elements it fails and
  gives back those it has taken. A packet from the pool has the length asked for, and releasing it restores the pool and
  everything in use.\<close>

theorem pbuf_pool_no_leak:
  assumes "mem_ok m" "MEM_ALIGN_SIZE layer < PBUF_POOL_BUFSIZE"
  shows "if length (pool m) < pool_need layer (unat n)
    then \<exists>m1. pbuf_alloc malloc layer n PBUF_POOL m = Some (None, m1) \<and> mem_ok m1 \<and> store m1 = store m \<and> fst ` set (pool m1) = fst ` set (pool m)
    else \<exists>a as m1 m2. pbuf_alloc malloc layer n PBUF_POOL m = Some (Some a, m1) \<and> packet m1 (Some a) as \<and> mem_ok m1
      \<and> length (chain_bytes m1 as) = unat n \<and> length (pool m1) = length (pool m) - pool_need layer (unat n)
      \<and> pbuf_free (Some a) m1 = Some (of_nat (pool_need layer (unat n)), m2) \<and> mem_ok m2 \<and> store m2 = store m \<and> fst ` set (pool m2) = fst ` set (pool m)"
proof (cases "length (pool m) < pool_need layer (unat n)")
  case True
  then show ?thesis using alloc_pool_none [OF assms, of n malloc] by simp
next
  case False
  then obtain a as m1 where m1: "pbuf_alloc malloc layer n PBUF_POOL m = Some (Some a, m1)" "packet m1 (Some a) as" "pooled m1 as" "mem_ok m1"
      "length (chain_bytes m1 as) = unat n" "map fst (pool m) = as @ map fst (pool m1)" "length as = pool_need layer (unat n)"
      "\<forall>b. b \<notin> set as \<longrightarrow> store m1 b = store m b" "\<forall>b \<in> set as. store m b = None"
    using alloc_pool [OF assms, of n malloc] by auto
  obtain m2 where m2: "pbuf_free (Some a) m1 = Some (of_nat (length as), m2)" "mem_ok m2" "fst ` set (pool m2) = set as \<union> fst ` set (pool m1)"
      "store m2 = (\<lambda>b. if b \<in> set as then None else store m1 b)"
    using free_pooled [OF m1(4,2,3)] by blast
  have "fst ` set (pool m) = set as \<union> fst ` set (pool m1)" using arg_cong [OF m1(6), of set] by simp
  then have "store m2 = store m" "fst ` set (pool m2) = fst ` set (pool m)" using m2(3,4) m1(8,9) by auto
  moreover have "length (pool m1) = length (pool m) - pool_need layer (unat n)" using arg_cong [OF m1(6), of length] m1(7) by simp
  ultimately show ?thesis using False m1(1,2,4,5) m2(1,2) m1(7) by auto
qed

theorem pbuf_pool_no_leak_witness:
  "(\<exists>a as m1. pbuf_alloc (\<lambda>_. None) 0 2000 PBUF_POOL two_free = Some (Some a, m1) \<and> length (chain_bytes m1 as) = 2000 \<and> pool m1 = [])
   \<and> (\<exists>m1. pbuf_alloc (\<lambda>_. None) 0 4000 PBUF_POOL two_free = Some (None, m1) \<and> fst ` set (pool m1) = {7, 9})"
proof
  have sz: "MEM_ALIGN_SIZE 0 < PBUF_POOL_BUFSIZE" "pool_need 0 2000 = 2" "pool_need 0 4000 = 3" "fst ` set (pool two_free) = {7, 9}"
    by (simp_all add: pool_need_def pool_size MEM_ALIGN_SIZE_def two_free_def)
  show "\<exists>a as m1. pbuf_alloc (\<lambda>_. None) 0 2000 PBUF_POOL two_free = Some (Some a, m1) \<and> length (chain_bytes m1 as) = 2000 \<and> pool m1 = []"
    using pbuf_pool_no_leak [OF two_free_ok(1) sz(1), of 2000 "\<lambda>_. None"] sz(2) two_free_ok(3) by auto
  show "\<exists>m1. pbuf_alloc (\<lambda>_. None) 0 4000 PBUF_POOL two_free = Some (None, m1) \<and> fst ` set (pool m1) = {7, 9}"
    using pbuf_pool_no_leak [OF two_free_ok(1) sz(1), of 4000 "\<lambda>_. None"] sz(3,4) two_free_ok(3) by auto
qed

text \<open>C25: What \<open>pbuf_take_at\<close> writes into a packet \<open>pbuf_get_at\<close> reads, across the buffers of the chain, and every other byte is
  what it was; data that does not fit is refused and nothing is written.\<close>

theorem pbuf_written_is_read:
  assumes "packet m p as"
  shows "if off < length (chain_bytes m as) \<and> off + length bs \<le> length (chain_bytes m as)
    then \<exists>m'. pbuf_take_at p bs off m = Some (ERR_OK, m') \<and> packet m' p as \<and> length (chain_bytes m' as) = length (chain_bytes m as)
      \<and> (\<forall>i < length (chain_bytes m as). pbuf_get_at p i m' = Some (if off \<le> i \<and> i < off + length bs then bs ! (i - off) else chain_bytes m as ! i))
    else pbuf_take_at p bs off m = Some (ERR_MEM, m)"
proof (cases "off < length (chain_bytes m as) \<and> off + length bs \<le> length (chain_bytes m as)")
  case True
  have inv: "packet_inv (m, p, as)" "packet_bytes (m, p, as) = chain_bytes m as" using assms by (simp_all add: packet_inv_def packet_bytes_def)
  obtain m' where m': "pbuf_take_at p bs off m = Some (ERR_OK, m')" using take_at_packet [OF assms, of off bs] True by blast
  then have t: "packet_take (m, p, as) off bs = Some (m', p, as)" by (simp add: packet_take_def)
  have r: "packet_inv (m', p, as) \<and> length (packet_bytes (m', p, as)) = length (chain_bytes m as)
      \<and> packet_get (m', p, as) i = Some (if off \<le> i \<and> i < off + length bs then bs ! (i - off) else chain_bytes m as ! i)"
    if "i < length (chain_bytes m as)" for i
    using block.put_get [OF inv(1), of off bs i] that True t inv(2) by auto
  have "0 < length (chain_bytes m as)" using True by linarith
  from r [OF this] m' r show ?thesis using True by (auto simp: packet_inv_def packet_bytes_def packet_get_def)
next
  case False
  have c: "chain m p as" "totals m as" using assms by (simp_all add: packet_def)
  obtain q pre post off' where s: "pbuf_skip p off m = Some (q, off')" "as = pre @ post" "chain m q post" "off = length (chain_bytes m pre) + off'"
      "\<forall>a bs. post = a # bs \<longrightarrow> off' < length (buf_bytes (the (store m a)))"
    using skip_chain [OF c(1), of off] by blast
  show ?thesis
  proof (cases post)
    case Nil
    then show ?thesis using False s(1,3) by (simp add: pbuf_take_at_def)
  next
    case (Cons a rest)
    then obtain x where x: "q = Some a" "store m a = Some x" using s(3) by auto
    have "unat (ptot x) = length (chain_bytes m post)" using totals_append [of m pre post] c(2) s(2) Cons x(2) by simp
    moreover have "off < length (chain_bytes m as)" using s(2,4,5) Cons by fastforce
    ultimately show ?thesis using False s(1,2,4) x by (simp add: pbuf_take_at_def)
  qed
qed

theorem pbuf_written_is_read_witness:
  "\<exists>m'. pbuf_take_at (Some 4) [9, 8] 2 two_bufs = Some (ERR_OK, m') \<and> pbuf_get_at (Some 4) 2 m' = Some 9 \<and> pbuf_get_at (Some 4) 3 m' = Some 8
    \<and> pbuf_get_at (Some 4) 4 m' = Some 5"
  using pbuf_written_is_read [OF two_bufs_ok(1), of 2 "[9, 8]", unfolded two_bufs_ok(2)] by auto

text \<open>The search in a packet returns where the bytes looked for stand first at or after the start, across the buffers of the
  chain, and 65535 if they do not; it comes to an end for every start. (A packet of 65535 bytes is excluded.)\<close>

theorem pbuf_memfind_first:
  assumes "packet m p as" "as \<noteq> []" "length (chain_bytes m as) < 0xFFFF"
  shows "\<exists>r. pbuf_memfind p mem i m = Some r
    \<and> (if \<exists>k. unat i \<le> k \<and> k + length mem \<le> length (chain_bytes m as) \<and> take (length mem) (drop k (chain_bytes m as)) = mem
       then unat r = (LEAST k. unat i \<le> k \<and> take (length mem) (drop k (chain_bytes m as)) = mem) else r = 0xFFFF)"
  using assms by (rule memfind_packet)

theorem pbuf_memfind_first_witness: "pbuf_memfind (Some 4) [3, 4] 1 two_bufs = Some 2 \<and> pbuf_memfind (Some 4) [3, 4] 3 two_bufs = Some 0xFFFF"
proof -
  have found: "(LEAST k. Suc 0 \<le> k \<and> take (Suc (Suc 0)) (drop k [1, 2, 3, 4, 5 :: u8]) = [3, 4]) = 2"
  proof (rule Least_equality)
    fix k :: nat
    assume "Suc 0 \<le> k \<and> take (Suc (Suc 0)) (drop k [1, 2, 3, 4, 5 :: u8]) = [3, 4]"
    then show "2 \<le> k" by (cases k; cases "k - 1") auto
  qed simp
  have "\<exists>k. unat (1 :: u16) \<le> k \<and> k + length [3, 4 :: u8] \<le> length [1, 2, 3, 4, 5 :: u8] \<and> take (length [3, 4 :: u8]) (drop k [1, 2, 3, 4, 5 :: u8]) = [3, 4]"
    by (intro exI [of _ 2]) simp
  then have a: "\<exists>r. pbuf_memfind (Some 4) [3, 4] 1 two_bufs = Some r \<and> unat r = 2"
    using pbuf_memfind_first [OF two_bufs_ok(1), of "[3, 4]" 1, unfolded two_bufs_ok(2)] found by auto
  have no: "take (Suc (Suc 0)) (drop k [1, 2, 3, 4, 5 :: u8]) \<noteq> [3, 4]" if "3 \<le> k" for k
    using that by (cases "k = 3"; cases "k = 4") auto
  have b: "\<exists>r. pbuf_memfind (Some 4) [3, 4] 3 two_bufs = Some r \<and> r = 0xFFFF"
    using pbuf_memfind_first [OF two_bufs_ok(1), of "[3, 4]" 3, unfolded two_bufs_ok(2)] no by auto
  show ?thesis using a b by (auto dest: arg_cong [of _ _ "of_nat :: nat \<Rightarrow> u16"])
qed

text \<open>A packet in several buffers coalesced is the same bytes in one buffer from the heap, and its old buffers are released;
  without memory for it, or when its size is no 16-bit number, the packet stays as it was.\<close>

theorem pbuf_coalesce_same_bytes:
  assumes "packet m (Some h) as" "filled m as" "sole m as" "1 < length as" "layer \<le> PBUF_TRANSPORT"
    and "n = SIZEOF_STRUCT_PBUF + ram_size layer (of_nat (length (chain_bytes m as)))"
    and "\<And>a b. malloc n = Some (a, b) \<Longrightarrow> store m a = None \<and> length b = n - SIZEOF_STRUCT_PBUF"
  shows "if n < 65536 \<and> malloc n \<noteq> None
    then \<exists>q m'. pbuf_coalesce malloc layer (Some h) m = Some (Some q, m') \<and> packet m' (Some q) [q] \<and> chain_bytes m' [q] = chain_bytes m as
      \<and> (\<forall>a \<in> set as. store m' a = None)
    else pbuf_coalesce malloc layer (Some h) m = Some (Some h, m)"
proof (cases "n < 65536 \<and> malloc n \<noteq> None")
  case True
  then obtain q b where "malloc n = Some (q, b)" by auto
  then show ?thesis using coalesce_packet [OF assms(1-5), of malloc q b] assms(6,7) True by (auto simp: add.commute)
next
  case False
  obtain x where x: "store m h = Some x" "unat (ptot x) = length (chain_bytes m as)" using packet_total [OF assms(1)] by blast
  have tot: "of_nat (length (chain_bytes m as)) = ptot x" using arg_cong [OF x(2), of "of_nat :: nat \<Rightarrow> u16"] by simp
  have "pbuf_alloc malloc layer (ptot x) PBUF_RAM m = Some (None, m)"
    using False alloc_ram [OF assms(5), of malloc "ptot x" m] assms(6) tot
    by (cases "malloc n") (auto simp: pbuf_alloc_def add.commute)
  then have "pbuf_coalesce malloc layer (Some h) m = Some (Some h, m)" using x(1) by (simp add: pbuf_coalesce_def pbuf_clone_def)
  then show ?thesis unfolding if_not_P [OF False] .
qed

theorem pbuf_coalesce_same_bytes_witness:
  "\<exists>q m'. pbuf_coalesce (\<lambda>k. Some (3, replicate (k - 16) 0)) 0 (Some 4) two_bufs = Some (Some q, m') \<and> chain_bytes m' [q] = [1, 2, 3, 4, 5]
    \<and> store m' 6 = None"
proof -
  have ok: "filled two_bufs [4, 6]" "sole two_bufs [4, 6]" "store two_bufs 3 = None"
    by (simp_all add: filled_def sole_def two_bufs_def small_buf_def buf_bytes_def)
  have sz: "24 = SIZEOF_STRUCT_PBUF + ram_size 0 (of_nat (length (chain_bytes two_bufs [4, 6])))" "(0 :: nat) \<le> PBUF_TRANSPORT" "SIZEOF_STRUCT_PBUF = 16"
    unfolding two_bufs_ok(2) by (simp_all add: SIZEOF_STRUCT_PBUF_def ram_size_def MEM_ALIGN_SIZE_def PBUF_TRANSPORT_def)
  show ?thesis
    using pbuf_coalesce_same_bytes [OF two_bufs_ok(1) ok(1,2) _ sz(2,1), of "\<lambda>k. Some (3, replicate (k - 16) 0)", unfolded two_bufs_ok(2)] ok(3) sz(3)
    by auto
qed

text \<open>\<open>pbuf_copy_partial_pbuf\<close> accepts an offset behind the first buffer of the target, as long as the packet is long enough,
  and then writes behind that buffer: the room left in it is computed without a sign.\<close>

theorem pbuf_copy_offset_overruns:
  assumes "packet m (Some t) ts" "packet m (Some s) ss" "store m t = Some x" "store m s = Some y"
    and "beg x + unat (plen x) = length (blk x)" "unat (plen x) < unat offset" "0 < copy_len" "0 < plen y"
    and "unat copy_len \<le> length (chain_bytes m ss)" "unat offset + unat copy_len \<le> length (chain_bytes m ts)"
  shows "pbuf_copy_partial_pbuf (Some t) (Some s) copy_len offset m = None"
proof -
  have tot: "unat (ptot x) = length (chain_bytes m ts)" "unat (ptot y) = length (chain_bytes m ss)"
    using packet_total [OF assms(1)] packet_total [OF assms(2)] assms(3,4) by auto
  have y: "beg y + unat (plen y) \<le> length (blk y)" using chain_some [of m s ss] assms(2,4) by (auto simp: packet_def)
  have lt: "unat w < 65536" for w :: u16 using unsigned_less [of w, where 'a = nat] by simp
  define n where "n = min (unat copy_len) (unat (plen y))"
  have n: "0 < n" "n \<le> unat (plen y)" using assms(7,8) by (simp_all add: n_def word_less_nat_alt)
  have "unat (plen y) \<le> size_diff (unat (plen x)) (unat offset)" using assms(6) lt [of "plen y"] lt [of offset] by (simp add: size_diff_def)
  then have len: "min (unat copy_len) (min (size_diff (unat (plen y)) 0) (size_diff (unat (plen x)) (unat offset))) = n"
    unfolding n_def by (simp add: size_diff_def)
  obtain bs where bs: "payload_read y 0 n = Some bs" "length bs = n" using payload_read_bytes [OF y, of 0 n] n(2) y by (simp add: length_buf_bytes)
  have "payload_write t (unat offset) bs m = None" using assms(3,5,6) n(1) bs(2) by (simp add: payload_write_def blit_checked_def)
  then have "copy_pbuf_loop (Some t) (unat offset) (Some s) 0 (unat copy_len) m = None"
    by (subst copy_pbuf_loop.simps) (simp add: assms(3,4) len bs(1) Let_def)
  moreover have "\<not> ptot y < copy_len" "\<not> unat (ptot x) < unat offset + unat copy_len" using assms(9,10) tot by (simp_all add: word_less_nat_alt)
  ultimately show ?thesis using assms(3,4) by (simp add: pbuf_copy_partial_pbuf_def)
qed

theorem pbuf_copy_offset_overruns_witness: "pbuf_copy_partial_pbuf (Some 4) (Some 4) 1 4 two_bufs = None"
  by (rule pbuf_copy_offset_overruns [OF two_bufs_ok(1,1,3,3)]) (simp_all add: two_bufs_ok(2) small_buf_def del: chain_bytes.simps)

end
