(* ===== verification/Udp.thy ===== *)
theory Udp
  imports Chksum
begin

unbundle bit_operations_syntax

text \<open>
  UDP over IPv4 (\<open>lwip/src/core/udp.c\<close>, as configured: no IPv6, UDP-Lite, multicast options or address reuse). A control block
  is an entry of a heap, the list \<open>udp_pcbs\<close> is the list of the addresses of the active ones, and the pool
  \<open>MEMP_UDP_PCB\<close> the list of the free ones. Packet buffers are chains of blocks with their addresses. Receive callbacks are values of a
  type of their own: \<open>udp_input\<close> says which one to call with what. Routing is a parameter.
\<close>

record 'f udp_pcb =
  local_ip :: u32
  remote_ip :: u32
  netif_idx :: u8
  tos :: u8
  ttl :: u8
  flags :: u8
  local_port :: u16
  remote_port :: u16
  recv :: "'f option"

record netif =
  ip_addr :: u32
  netmask :: u32
  netif_index :: u8
  broadcast_flag :: bool

record 'f udp =
  udp_port :: u16
  udp_pcbs :: "nat list"
  pcb :: "nat \<Rightarrow> 'f udp_pcb"
  free_pcbs :: "nat list"

type_synonym pbufs = "(nat \<times> u8 list) list"

definition payload :: "pbufs \<Rightarrow> u8 list" where "payload p = concat (map snd p)"

definition UDP_LOCAL_PORT_RANGE_START :: u16 where "UDP_LOCAL_PORT_RANGE_START = 0xc000"
definition UDP_LOCAL_PORT_RANGE_END :: u16 where "UDP_LOCAL_PORT_RANGE_END = 0xffff"
definition UDP_HLEN :: nat where "UDP_HLEN = 8"
definition UDP_FLAGS_NOCHKSUM :: u8 where "UDP_FLAGS_NOCHKSUM = 0x01"
definition UDP_FLAGS_CONNECTED :: u8 where "UDP_FLAGS_CONNECTED = 0x04"
definition UDP_TTL :: u8 where "UDP_TTL = 255"
definition IP_PROTO_UDP :: u8 where "IP_PROTO_UDP = 17"
definition IPADDR_BROADCAST :: u32 where "IPADDR_BROADCAST = 0xffffffff"

definition UDP_ENSURE_LOCAL_PORT_RANGE :: "u32 \<Rightarrow> u16" where
  "UDP_ENSURE_LOCAL_PORT_RANGE port = (ucast port AND NOT UDP_LOCAL_PORT_RANGE_START) + UDP_LOCAL_PORT_RANGE_START"

definition udp_init :: "u32 \<Rightarrow> 'f udp \<Rightarrow> 'f udp" where
  "udp_init rand st = st\<lparr>udp_port := UDP_ENSURE_LOCAL_PORT_RANGE rand\<rparr>"

subsection \<open>Control blocks\<close>

definition udp_new :: "'f udp \<Rightarrow> nat option \<times> 'f udp" where
  "udp_new st =
     (case free_pcbs st of [] \<Rightarrow> (None, st)
      | a # as \<Rightarrow>
          (Some a, st\<lparr>free_pcbs := as,
             pcb := (pcb st)(a := \<lparr>local_ip = 0, remote_ip = 0, netif_idx = 0, tos = 0, ttl = UDP_TTL, flags = 0,
               local_port = 0, remote_port = 0, recv = None\<rparr>)\<rparr>))"

definition udp_new_ip_type :: "u8 \<Rightarrow> 'f udp \<Rightarrow> nat option \<times> 'f udp" where
  "udp_new_ip_type ip_type st = udp_new st"

definition upd_pcb :: "nat \<Rightarrow> ('f udp_pcb \<Rightarrow> 'f udp_pcb) \<Rightarrow> 'f udp \<Rightarrow> 'f udp" where
  "upd_pcb a f st = st\<lparr>pcb := (pcb st)(a := f (pcb st a))\<rparr>"

definition udp_recv :: "nat option \<Rightarrow> 'f option \<Rightarrow> 'f udp \<Rightarrow> 'f udp" where
  "udp_recv p f st = (case p of None \<Rightarrow> st | Some a \<Rightarrow> upd_pcb a (recv_update (\<lambda>_. f)) st)"

definition port_used :: "u16 \<Rightarrow> 'f udp \<Rightarrow> bool" where
  "port_used port st = list_ex (\<lambda>a. local_port (pcb st a) = port) (udp_pcbs st)"

function udp_new_port_loop :: "nat \<Rightarrow> 'f udp \<Rightarrow> u16 \<times> 'f udp" where
  "udp_new_port_loop n st =
     (let port = (if udp_port st = UDP_LOCAL_PORT_RANGE_END then UDP_LOCAL_PORT_RANGE_START else udp_port st + 1);
          st1 = st\<lparr>udp_port := port\<rparr> in
      if port_used port st1 then
        (if unat (UDP_LOCAL_PORT_RANGE_END - UDP_LOCAL_PORT_RANGE_START) < n + 1 then (0, st1) else udp_new_port_loop (n + 1) st1)
      else (port, st1))"
  by auto
termination
  by (relation "measure (\<lambda>(n, _). unat (UDP_LOCAL_PORT_RANGE_END - UDP_LOCAL_PORT_RANGE_START) + 1 - n)") auto

declare udp_new_port_loop.simps [simp del]

definition udp_new_port :: "'f udp \<Rightarrow> u16 \<times> 'f udp" where "udp_new_port st = udp_new_port_loop 0 st"

definition bind_conflict :: "nat \<Rightarrow> u32 \<Rightarrow> u16 \<Rightarrow> 'f udp \<Rightarrow> bool" where
  "bind_conflict a ipaddr port st =
     list_ex (\<lambda>i. a \<noteq> i \<and> local_port (pcb st i) = port \<and> (local_ip (pcb st i) = ipaddr \<or> ipaddr = 0 \<or> local_ip (pcb st i) = 0)) (udp_pcbs st)"

definition udp_bind :: "nat option \<Rightarrow> u32 \<Rightarrow> u16 \<Rightarrow> 'f udp \<Rightarrow> err \<times> 'f udp" where
  "udp_bind p ipaddr port0 st =
     (case p of None \<Rightarrow> (ERR_ARG, st)
      | Some a \<Rightarrow>
          let rebind = list_ex (\<lambda>i. a = i) (udp_pcbs st);
              (port, st1) = (if port0 = 0 then udp_new_port st else (port0, st)) in
          if port0 = 0 \<and> port = 0 then (ERR_USE, st1)
          else if port0 \<noteq> 0 \<and> bind_conflict a ipaddr port0 st1 then (ERR_USE, st1)
          else
            let st2 = upd_pcb a (\<lambda>x. x\<lparr>local_ip := ipaddr, local_port := port\<rparr>) st1 in
            (ERR_OK, if rebind then st2 else st2\<lparr>udp_pcbs := a # udp_pcbs st2\<rparr>))"

definition udp_bind_netif :: "nat \<Rightarrow> netif option \<Rightarrow> 'f udp \<Rightarrow> 'f udp" where
  "udp_bind_netif a n st = upd_pcb a (netif_idx_update (\<lambda>_. case n of None \<Rightarrow> 0 | Some ni \<Rightarrow> netif_index ni)) st"

definition udp_connect :: "nat option \<Rightarrow> u32 \<Rightarrow> u16 \<Rightarrow> 'f udp \<Rightarrow> err \<times> 'f udp" where
  "udp_connect p ipaddr port st =
     (case p of None \<Rightarrow> (ERR_ARG, st)
      | Some a \<Rightarrow>
          let (e, st1) = (if local_port (pcb st a) = 0 then udp_bind p (local_ip (pcb st a)) 0 st else (ERR_OK, st)) in
          if e \<noteq> ERR_OK then (e, st1)
          else
            let st2 = upd_pcb a (\<lambda>x. x\<lparr>remote_ip := ipaddr, remote_port := port, flags := flags x OR UDP_FLAGS_CONNECTED\<rparr>) st1 in
            (ERR_OK, if list_ex (\<lambda>i. a = i) (udp_pcbs st2) then st2 else st2\<lparr>udp_pcbs := a # udp_pcbs st2\<rparr>))"

definition udp_disconnect :: "nat option \<Rightarrow> 'f udp \<Rightarrow> 'f udp" where
  "udp_disconnect p st =
     (case p of None \<Rightarrow> st
      | Some a \<Rightarrow> upd_pcb a (\<lambda>x. x\<lparr>remote_ip := 0, remote_port := 0, netif_idx := 0, flags := flags x AND NOT UDP_FLAGS_CONNECTED\<rparr>) st)"

definition udp_remove :: "nat option \<Rightarrow> 'f udp \<Rightarrow> 'f udp" where
  "udp_remove p st =
     (case p of None \<Rightarrow> st | Some a \<Rightarrow> st\<lparr>udp_pcbs := remove1 a (udp_pcbs st), free_pcbs := a # free_pcbs st\<rparr>)"

definition udp_netif_ip_addr_changed :: "u32 \<Rightarrow> u32 \<Rightarrow> 'f udp \<Rightarrow> 'f udp" where
  "udp_netif_ip_addr_changed old_addr new_addr st =
     (if old_addr \<noteq> 0 \<and> new_addr \<noteq> 0
      then fold (\<lambda>a st. if local_ip (pcb st a) = old_addr then upd_pcb a (local_ip_update (\<lambda>_. new_addr)) st else st) (udp_pcbs st) st
      else st)"

subsection \<open>Receiving\<close>

definition ip4_addr_isbroadcast :: "u32 \<Rightarrow> netif \<Rightarrow> bool" where
  "ip4_addr_isbroadcast addr ni =
     (if NOT addr = 0 \<or> addr = 0 then True
      else if \<not> broadcast_flag ni then False
      else if addr = ip_addr ni then False
      else addr AND netmask ni = ip_addr ni AND netmask ni \<and> addr AND NOT (netmask ni) = IPADDR_BROADCAST AND NOT (netmask ni))"

text \<open>Addresses are in network byte order in memory, so the first byte is the low one.\<close>

definition ip4_addr_ismulticast :: "u32 \<Rightarrow> bool" where
  "ip4_addr_ismulticast addr \<longleftrightarrow> addr AND 0xf0 = 0xe0"

definition udp_input_local_match :: "'f udp_pcb \<Rightarrow> netif \<Rightarrow> u32 \<Rightarrow> bool \<Rightarrow> bool" where
  "udp_input_local_match x inp dest broadcast =
     (if netif_idx x \<noteq> 0 \<and> netif_idx x \<noteq> netif_index inp then False
      else if broadcast then local_ip x = 0 \<or> dest = IPADDR_BROADCAST \<or> local_ip x AND netmask inp = dest AND netmask inp
      else local_ip x = 0 \<or> local_ip x = dest)"

fun demux :: "'f udp \<Rightarrow> netif \<Rightarrow> bool \<Rightarrow> u32 \<Rightarrow> u16 \<Rightarrow> u32 \<Rightarrow> u16 \<Rightarrow> nat list \<Rightarrow> nat option \<Rightarrow> nat option \<times> nat option" where
  "demux st inp broadcast src_ip src dest_ip dest [] uncon = (None, uncon)"
| "demux st inp broadcast src_ip src dest_ip dest (a # as) uncon =
     (let x = pcb st a in
      if local_port x = dest \<and> udp_input_local_match x inp dest_ip broadcast then
        let uncon' =
          (if flags x AND UDP_FLAGS_CONNECTED = 0 then
             (case uncon of None \<Rightarrow> Some a
              | Some u \<Rightarrow>
                  if broadcast \<and> dest_ip = IPADDR_BROADCAST \<and> local_ip (pcb st u) \<noteq> ip_addr inp \<and> local_ip x = ip_addr inp
                  then Some a else Some u)
           else uncon) in
        if remote_port x = src \<and> (remote_ip x = 0 \<or> remote_ip x = src_ip) then (Some a, uncon')
        else demux st inp broadcast src_ip src dest_ip dest as uncon'
      else demux st inp broadcast src_ip src dest_ip dest as uncon)"

datatype 'f udp_result = Drop | Recv 'f nat pbufs u32 u16 | Port_unreach pbufs

text \<open>A fully matching control block moves to the front of the list.\<close>

definition udp_input :: "chksum \<Rightarrow> netif \<Rightarrow> u32 \<Rightarrow> u32 \<Rightarrow> pbufs \<Rightarrow> 'f udp \<Rightarrow> 'f udp_result \<times> 'f udp" where
  "udp_input chk inp src_ip dest_ip p st =
     (case p of [] \<Rightarrow> (Drop, st)
      | (addr, b) # qs \<Rightarrow>
          if length b < UDP_HLEN then (Drop, st)
          else
            let broadcast = ip4_addr_isbroadcast dest_ip inp;
                src = un_be16 (b ! 0) (b ! 1);
                dest = un_be16 (b ! 2) (b ! 3);
                (full, uncon) = demux st inp broadcast src_ip src dest_ip dest (udp_pcbs st) None;
                st1 = (case full of None \<Rightarrow> st | Some a \<Rightarrow> st\<lparr>udp_pcbs := a # remove1 a (udp_pcbs st)\<rparr>);
                found = (case full of None \<Rightarrow> uncon | Some a \<Rightarrow> Some a);
                for_us = (found \<noteq> None \<or> ip_addr inp = dest_ip) in
            if \<not> for_us then (Drop, st1)
            else if un_le16 (b ! 6) (b ! 7) \<noteq> 0 \<and> ip_chksum_pseudo chk p IP_PROTO_UDP (of_nat (length (payload p))) src_ip dest_ip \<noteq> 0
            then (Drop, st1)
            else
              let q = (addr + UDP_HLEN, drop UDP_HLEN b) # qs in
              case found of
                Some a \<Rightarrow> (case recv (pcb st1 a) of Some f \<Rightarrow> (Recv f a q src_ip src, st1) | None \<Rightarrow> (Drop, st1))
              | None \<Rightarrow> (if \<not> broadcast \<and> \<not> ip4_addr_ismulticast dest_ip then (Port_unreach q, st1) else (Drop, st1)))"

subsection \<open>Sending\<close>

text \<open>What goes to \<open>ip_output_if_src\<close>: the packet, source and destination, time to live, type of service and protocol.\<close>

type_synonym ip_packet = "pbufs \<times> u32 \<times> u32 \<times> u8 \<times> u8 \<times> u8"

definition udp_header :: "u16 \<Rightarrow> u16 \<Rightarrow> u16 \<Rightarrow> u16 \<Rightarrow> u8 list" where
  "udp_header src dest len chksum = be16 src @ be16 dest @ be16 len @ le16 chksum"

text \<open>\<open>headroom\<close> says that the first buffer has room for the header; otherwise it gets a new buffer, if there is one.\<close>

definition add_udp_header :: "bool \<Rightarrow> nat option \<Rightarrow> u8 list \<Rightarrow> pbufs \<Rightarrow> pbufs option" where
  "add_udp_header headroom new_pbuf hdr p =
     (if headroom then (case p of [] \<Rightarrow> None | (addr, b) # qs \<Rightarrow> Some ((addr - UDP_HLEN, hdr @ b) # qs))
      else (case new_pbuf of None \<Rightarrow> None | Some addr \<Rightarrow> Some ((addr, hdr) # (if payload p \<noteq> [] then p else []))))"

definition udp_sendto_if_src ::
  "chksum \<Rightarrow> bool \<Rightarrow> nat option \<Rightarrow> nat option \<Rightarrow> pbufs \<Rightarrow> u32 \<Rightarrow> u16 \<Rightarrow> u32 \<Rightarrow> 'f udp \<Rightarrow> err \<times> ip_packet option \<times> 'f udp" where
  "udp_sendto_if_src chk headroom new_pbuf u p dst_ip dst_port src_ip st =
     (case u of None \<Rightarrow> (ERR_ARG, None, st)
      | Some a \<Rightarrow>
          let (e, st1) = (if local_port (pcb st a) = 0 then udp_bind u (local_ip (pcb st a)) 0 st else (ERR_OK, st));
              x = pcb st1 a;
              tot_len = length (payload p) in
          if e \<noteq> ERR_OK then (e, None, st1)
          else if (of_nat (tot_len + UDP_HLEN) :: u16) < of_nat tot_len then (ERR_MEM, None, st1)
          else
            (let hdr = udp_header (local_port x) dst_port (of_nat (tot_len + UDP_HLEN)) in
             case add_udp_header headroom new_pbuf (hdr 0) p of
               None \<Rightarrow> (ERR_MEM, None, st1)
             | Some q \<Rightarrow>
                 let c = ip_chksum_pseudo chk q IP_PROTO_UDP (of_nat (tot_len + UDP_HLEN)) src_ip dst_ip;
                     stored = (if flags x AND UDP_FLAGS_NOCHKSUM = 0 then (if c = 0 then 0xffff else c) else 0);
                     q' = (fst (hd q), hdr stored @ drop UDP_HLEN (snd (hd q))) # tl q in
                 (ERR_OK, Some (q', src_ip, dst_ip, ttl x, tos x, IP_PROTO_UDP), st1)))"

definition udp_sendto_if ::
  "chksum \<Rightarrow> bool \<Rightarrow> nat option \<Rightarrow> nat option \<Rightarrow> pbufs \<Rightarrow> u32 \<Rightarrow> u16 \<Rightarrow> netif \<Rightarrow> 'f udp \<Rightarrow> err \<times> ip_packet option \<times> 'f udp" where
  "udp_sendto_if chk headroom new_pbuf u p dst_ip dst_port ni st =
     (case u of None \<Rightarrow> (ERR_ARG, None, st)
      | Some a \<Rightarrow>
          let ip = local_ip (pcb st a) in
          if ip = 0 \<or> ip4_addr_ismulticast ip then udp_sendto_if_src chk headroom new_pbuf u p dst_ip dst_port (ip_addr ni) st
          else if ip \<noteq> ip_addr ni then (ERR_RTE, None, st)
          else udp_sendto_if_src chk headroom new_pbuf u p dst_ip dst_port ip st)"

text \<open>\<open>route\<close> is \<open>ip_route\<close>, \<open>netifs\<close> the interfaces by their index.\<close>

definition udp_sendto ::
  "(u32 \<Rightarrow> u32 \<Rightarrow> netif option) \<Rightarrow> (u8 \<Rightarrow> netif option) \<Rightarrow> chksum \<Rightarrow> bool \<Rightarrow> nat option \<Rightarrow> nat option \<Rightarrow> pbufs \<Rightarrow> u32 \<Rightarrow> u16
    \<Rightarrow> 'f udp \<Rightarrow> err \<times> ip_packet option \<times> 'f udp" where
  "udp_sendto route netifs chk headroom new_pbuf u p dst_ip dst_port st =
     (case u of None \<Rightarrow> (ERR_ARG, None, st)
      | Some a \<Rightarrow>
          (case (if netif_idx (pcb st a) \<noteq> 0 then netifs (netif_idx (pcb st a)) else route (local_ip (pcb st a)) dst_ip) of
             None \<Rightarrow> (ERR_RTE, None, st)
           | Some ni \<Rightarrow> udp_sendto_if chk headroom new_pbuf u p dst_ip dst_port ni st))"

definition udp_send ::
  "(u32 \<Rightarrow> u32 \<Rightarrow> netif option) \<Rightarrow> (u8 \<Rightarrow> netif option) \<Rightarrow> chksum \<Rightarrow> bool \<Rightarrow> nat option \<Rightarrow> nat option \<Rightarrow> pbufs
    \<Rightarrow> 'f udp \<Rightarrow> err \<times> ip_packet option \<times> 'f udp" where
  "udp_send route netifs chk headroom new_pbuf u p st =
     (case u of None \<Rightarrow> (ERR_ARG, None, st)
      | Some a \<Rightarrow> udp_sendto route netifs chk headroom new_pbuf u p (remote_ip (pcb st a)) (remote_port (pcb st a)) st)"

subsection \<open>Ports\<close>

text \<open>Active control blocks have ports, and two on the same port have different addresses, neither of them the wildcard; a control
  block is active, free or fresh.\<close>

definition udp_ok :: "'f udp \<Rightarrow> bool" where
  "udp_ok st \<longleftrightarrow> distinct (udp_pcbs st) \<and> distinct (free_pcbs st) \<and> set (udp_pcbs st) \<inter> set (free_pcbs st) = {}
     \<and> (\<forall>a. a \<notin> set (free_pcbs st) \<longrightarrow> (a \<in> set (udp_pcbs st) \<longleftrightarrow> local_port (pcb st a) \<noteq> 0))
     \<and> (\<forall>a \<in> set (udp_pcbs st). \<forall>b \<in> set (udp_pcbs st). a \<noteq> b \<and> local_port (pcb st a) = local_port (pcb st b) \<longrightarrow>
          local_ip (pcb st a) \<noteq> local_ip (pcb st b) \<and> local_ip (pcb st a) \<noteq> 0)"

lemma pcb_upd_pcb [simp]: "pcb (upd_pcb a f st) b = (if b = a then f (pcb st a) else pcb st b)" "udp_pcbs (upd_pcb a f st) = udp_pcbs st"
    "free_pcbs (upd_pcb a f st) = free_pcbs st"
  by (simp_all add: upd_pcb_def)

lemma udp_ok_upd:
  assumes "udp_ok st" "\<And>x. local_ip (f x) = local_ip x" "\<And>x. local_port (f x) = local_port x"
  shows "udp_ok (upd_pcb a f st)"
  using assms(1) by (simp add: udp_ok_def assms(2,3))

lemma list_ex_eq [simp]: "list_ex (\<lambda>i. a = i) xs \<longleftrightarrow> a \<in> set xs"
  by (auto simp: list_ex_iff)

lemma new_port:
  "udp_new_port_loop n st = (port, st') \<Longrightarrow> port \<noteq> 0 \<Longrightarrow> \<not> port_used port st \<and> st' = st\<lparr>udp_port := port\<rparr>"
proof (induction n st rule: udp_new_port_loop.induct)
  case (1 n st)
  define port1 where "port1 = (if udp_port st = UDP_LOCAL_PORT_RANGE_END then UDP_LOCAL_PORT_RANGE_START else udp_port st + 1)"
  have u: "port_used q (st\<lparr>udp_port := r\<rparr>) = port_used q st" for q r by (simp add: port_used_def)
  show ?case
  proof (cases "port_used port1 st")
    case True
    then have "udp_new_port_loop (n + 1) (st\<lparr>udp_port := port1\<rparr>) = (port, st')"
      using 1(2,3) u by (simp add: udp_new_port_loop.simps [of n st] port1_def [symmetric] Let_def split: if_splits)
    moreover have "\<not> unat (UDP_LOCAL_PORT_RANGE_END - UDP_LOCAL_PORT_RANGE_START) < n + 1"
      using 1(2,3) True u by (simp add: udp_new_port_loop.simps [of n st] port1_def [symmetric] Let_def split: if_splits)
    ultimately show ?thesis using 1(1) [OF port1_def refl] 1(3) True u by simp
  next
    case False
    then show ?thesis using 1(2) u by (auto simp: udp_new_port_loop.simps [of n st] port1_def [symmetric] Let_def)
  qed
qed

lemma new_port_state: "\<exists>q. snd (udp_new_port_loop n st) = st\<lparr>udp_port := q\<rparr>"
proof (induction n st rule: udp_new_port_loop.induct)
  case (1 n st)
  show ?case using 1 by (subst udp_new_port_loop.simps) (fastforce simp: Let_def)
qed

lemma udp_ok_port [simp]: "udp_ok (st\<lparr>udp_port := q\<rparr>) = udp_ok st"
  by (simp add: udp_ok_def)

lemma upd_port [simp]: "pcb (st\<lparr>udp_port := q\<rparr>) = pcb st" "bind_conflict a ip port (st\<lparr>udp_port := q\<rparr>) = bind_conflict a ip port st"
  by (simp_all add: bind_conflict_def)

text \<open>Every outcome of \<open>udp_bind\<close>: an error leaves all control blocks as they are.\<close>

lemma udp_bind_cases:
  assumes "udp_bind (Some a) ip port0 st = (e, st')"
  obtains (failed) q where "e = ERR_USE" "st' = st\<lparr>udp_port := q\<rparr>"
  | (bound) port where "e = ERR_OK" "port \<noteq> 0" "port0 \<noteq> 0 \<Longrightarrow> port = port0" "\<not> bind_conflict a ip port st"
      "pcb st' = (pcb st)(a := (pcb st a)\<lparr>local_ip := ip, local_port := port\<rparr>)" "free_pcbs st' = free_pcbs st"
      "udp_pcbs st' = (if a \<in> set (udp_pcbs st) then udp_pcbs st else a # udp_pcbs st)"
proof (cases "port0 = 0")
  case True
  obtain port st1 where n: "udp_new_port_loop 0 st = (port, st1)" by fastforce
  then obtain q where q: "st1 = st\<lparr>udp_port := q\<rparr>" using new_port_state [of 0 st] by auto
  show thesis
  proof (cases "port = 0")
    case True
    then show thesis using failed [of q] assms n q \<open>port0 = 0\<close> by (simp add: udp_bind_def udp_new_port_def)
  next
    case False
    then have "\<not> port_used port st" using new_port [OF n] by simp
    then have "\<not> bind_conflict a ip port st" by (auto simp: bind_conflict_def port_used_def list_ex_iff)
    then show thesis using bound [of port] assms n q True False by (auto simp: udp_bind_def udp_new_port_def upd_pcb_def Let_def split: if_splits)
  qed
next
  case False
  show thesis
  proof (cases "bind_conflict a ip port0 st")
    case True
    then show thesis using failed [of "udp_port st"] assms False by (simp add: udp_bind_def)
  next
    case nc: False
    then show thesis using bound [of port0] assms False by (auto simp: udp_bind_def upd_pcb_def Let_def split: if_splits)
  qed
qed

lemma udp_bind_ok:
  assumes "udp_ok st" "a \<notin> set (free_pcbs st)" "udp_bind (Some a) ip port0 st = (e, st')"
  shows "udp_ok st' \<and> free_pcbs st' = free_pcbs st \<and> (e = ERR_OK \<longrightarrow> a \<in> set (udp_pcbs st') \<and> local_port (pcb st' a) \<noteq> 0)"
  using assms(3)
proof (cases rule: udp_bind_cases)
  case (failed q)
  then show ?thesis using assms(1) by simp
next
  case (bound port)
  have nc: "b \<in> set (udp_pcbs st) \<Longrightarrow> b \<noteq> a \<Longrightarrow> local_port (pcb st b) = port \<Longrightarrow>
      local_ip (pcb st b) \<noteq> ip \<and> ip \<noteq> 0 \<and> local_ip (pcb st b) \<noteq> 0" for b
    using bound(4) by (auto simp: bind_conflict_def list_ex_iff)
  have "set (udp_pcbs st') = insert a (set (udp_pcbs st))" "distinct (udp_pcbs st')"
    using bound(7) assms(1) by (auto simp: udp_ok_def)
  then show ?thesis using assms(1,2) nc bound(1,2,5,6) unfolding udp_ok_def by (auto 4 3)
qed

lemma udp_new_ok:
  assumes "udp_ok st" "udp_new st = (r, st')"
  shows "udp_ok st' \<and> (\<forall>a. r = Some a \<longrightarrow> a \<notin> set (free_pcbs st') \<and> a \<notin> set (udp_pcbs st') \<and> local_port (pcb st' a) = 0)"
  using assms by (auto simp: udp_new_def udp_ok_def split: list.splits if_splits)

lemma udp_connect_ok:
  assumes "udp_ok st" "a \<notin> set (free_pcbs st)" "udp_connect (Some a) ip port st = (e, st')"
  shows "udp_ok st' \<and> free_pcbs st' = free_pcbs st"
proof -
  obtain e1 st1 where b: "(if local_port (pcb st a) = 0 then udp_bind (Some a) (local_ip (pcb st a)) 0 st else (ERR_OK, st)) = (e1, st1)" by fastforce
  have "local_port (pcb st a) \<noteq> 0 \<Longrightarrow> a \<in> set (udp_pcbs st)" using assms(1,2) by (auto simp: udp_ok_def)
  then have s1: "udp_ok st1" "free_pcbs st1 = free_pcbs st" "e1 = ERR_OK \<Longrightarrow> a \<in> set (udp_pcbs st1)"
    using b udp_bind_ok [OF assms(1,2), of "local_ip (pcb st a)" 0 e1 st1] assms(1) by (auto split: if_splits)
  show ?thesis
  proof (cases "e1 = ERR_OK")
    case True
    then show ?thesis using assms(3) b s1 udp_ok_upd [OF s1(1)] by (auto simp: udp_connect_def)
  next
    case False
    then show ?thesis using assms(3) b s1 by (auto simp: udp_connect_def)
  qed
qed

lemma udp_remove_ok: "udp_ok st \<Longrightarrow> a \<notin> set (free_pcbs st) \<Longrightarrow> udp_ok (udp_remove (Some a) st)"
  unfolding udp_ok_def udp_remove_def by (auto simp: set_remove1_eq)

text \<open>A datagram only moves a control block to the front of the list.\<close>

lemma demux_member:
  "demux st inp bc sip src dip dest as uncon = (full, uncon') \<Longrightarrow> (full = Some a \<longrightarrow> a \<in> set as) \<and> (uncon' = Some b \<longrightarrow> b \<in> set as \<or> uncon = Some b)"
  by (induction as arbitrary: uncon) (fastforce simp: Let_def split: if_splits option.splits)+

lemma udp_input_state:
  "\<exists>as. snd (udp_input chk inp sip dip p st) = st\<lparr>udp_pcbs := as\<rparr> \<and> (as = udp_pcbs st \<or> (\<exists>a \<in> set (udp_pcbs st). as = a # remove1 a (udp_pcbs st)))"
proof (cases p)
  case (Cons q qs)
  obtain addr b where q: "q = (addr, b)" by fastforce
  obtain full uncon where d: "demux st inp (ip4_addr_isbroadcast dip inp) sip (un_be16 (b ! 0) (b ! 1)) dip (un_be16 (b ! 2) (b ! 3)) (udp_pcbs st) None
      = (full, uncon)" by fastforce
  have m: "full = Some a \<Longrightarrow> a \<in> set (udp_pcbs st)" for a using demux_member [OF d] by blast
  have "snd (udp_input chk inp sip dip p st) = st \<or> (\<exists>a. full = Some a \<and> snd (udp_input chk inp sip dip p st) = st\<lparr>udp_pcbs := a # remove1 a (udp_pcbs st)\<rparr>)"
    by (simp add: udp_input_def Cons q Let_def d del: One_nat_def split: option.splits)
  then show ?thesis
  proof
    assume "snd (udp_input chk inp sip dip p st) = st"
    then show ?thesis by (intro exI [of _ "udp_pcbs st"]) simp
  next
    assume "\<exists>a. full = Some a \<and> snd (udp_input chk inp sip dip p st) = st\<lparr>udp_pcbs := a # remove1 a (udp_pcbs st)\<rparr>"
    then show ?thesis using m by blast
  qed
qed (auto simp: udp_input_def intro: exI [of _ "udp_pcbs st"])

lemma udp_input_ok:
  assumes "udp_ok st"
  shows "udp_ok (snd (udp_input chk inp sip dip p st))"
proof -
  obtain as where as: "snd (udp_input chk inp sip dip p st) = st\<lparr>udp_pcbs := as\<rparr>"
      "as = udp_pcbs st \<or> (\<exists>a \<in> set (udp_pcbs st). as = a # remove1 a (udp_pcbs st))"
    using udp_input_state [of chk inp sip dip p st] by blast
  have "distinct (udp_pcbs st)" using assms by (simp add: udp_ok_def)
  then have "set as = set (udp_pcbs st)" "distinct as" using as(2) by (auto simp: set_remove1_eq)
  then show ?thesis using assms by (simp add: as(1) udp_ok_def)
qed

text \<open>A new address of the interface is written into the control blocks bound to the old one.\<close>

lemma readdress:
  fixes st :: "'f udp"
  assumes "distinct as"
  shows "udp_pcbs (fold (\<lambda>a st. if local_ip (pcb st a) = old then upd_pcb a (local_ip_update (\<lambda>_. new)) st else st) as st) = udp_pcbs st
    \<and> free_pcbs (fold (\<lambda>a st. if local_ip (pcb st a) = old then upd_pcb a (local_ip_update (\<lambda>_. new)) st else st) as st) = free_pcbs st
    \<and> pcb (fold (\<lambda>a st. if local_ip (pcb st a) = old then upd_pcb a (local_ip_update (\<lambda>_. new)) st else st) as st)
      = (\<lambda>a. if a \<in> set as \<and> local_ip (pcb st a) = old then pcb st a\<lparr>local_ip := new\<rparr> else pcb st a)"
  using assms by (induction as arbitrary: st) (auto simp: fun_eq_iff)

lemma readdressed:
  assumes "udp_ok st"
  shows "udp_pcbs (udp_netif_ip_addr_changed old new st) = udp_pcbs st" "free_pcbs (udp_netif_ip_addr_changed old new st) = free_pcbs st"
    "pcb (udp_netif_ip_addr_changed old new st) a = (if old \<noteq> 0 \<and> new \<noteq> 0 \<and> a \<in> set (udp_pcbs st) \<and> local_ip (pcb st a) = old
       then pcb st a\<lparr>local_ip := new\<rparr> else pcb st a)"
  using readdress [of "udp_pcbs st" old new st] assms by (auto simp: udp_netif_ip_addr_changed_def udp_ok_def)

text \<open>The case \<open>udp_netif_ip_addr_changed\<close> does not look for: a control block bound to the old address and another one bound to the
  new address, both on one port.\<close>

definition readdress_clash :: "u32 \<Rightarrow> u32 \<Rightarrow> 'f udp \<Rightarrow> bool" where
  "readdress_clash old new st \<longleftrightarrow> (\<exists>a \<in> set (udp_pcbs st). \<exists>b \<in> set (udp_pcbs st). a \<noteq> b \<and> local_ip (pcb st a) = old
     \<and> local_ip (pcb st b) = new \<and> local_port (pcb st a) = local_port (pcb st b))"

lemma udp_readdress_ok:
  assumes "udp_ok st" "\<not> readdress_clash old new st"
  shows "udp_ok (udp_netif_ip_addr_changed old new st)"
proof -
  note r = readdressed [OF assms(1), of old new]
  have "local_ip (pcb (udp_netif_ip_addr_changed old new st) a) \<noteq> local_ip (pcb (udp_netif_ip_addr_changed old new st) b)
      \<and> local_ip (pcb (udp_netif_ip_addr_changed old new st) a) \<noteq> 0"
    if "a \<in> set (udp_pcbs st)" "b \<in> set (udp_pcbs st)" "a \<noteq> b" "local_port (pcb st a) = local_port (pcb st b)" for a b
  proof -
    have "local_ip (pcb st a) \<noteq> local_ip (pcb st b)" "local_ip (pcb st a) \<noteq> 0" using assms(1) that by (simp_all add: udp_ok_def)
    moreover have "\<not> (local_ip (pcb st a) = old \<and> local_ip (pcb st b) = new)" "\<not> (local_ip (pcb st b) = old \<and> local_ip (pcb st a) = new)"
      using assms(2) that unfolding readdress_clash_def by metis+
    ultimately show ?thesis using that by (auto simp: r(3))
  qed
  moreover have "local_port (pcb (udp_netif_ip_addr_changed old new st) a) = local_port (pcb st a)" for a by (simp add: r(3))
  ultimately show ?thesis using assms(1) by (simp add: udp_ok_def r(1,2))
qed

text \<open>What the stack and its users do to the control blocks; a control block is not used after its removal, and the address of the
  interface does not change into one that another control block has on the same port.\<close>

inductive udp_step :: "'f udp \<Rightarrow> 'f udp \<Rightarrow> bool" where
  step_new: "udp_step st (snd (udp_new st))"
| step_bind: "a \<notin> set (free_pcbs st) \<Longrightarrow> udp_step st (snd (udp_bind (Some a) ip port st))"
| step_connect: "a \<notin> set (free_pcbs st) \<Longrightarrow> udp_step st (snd (udp_connect (Some a) ip port st))"
| step_disconnect: "udp_step st (udp_disconnect (Some a) st)"
| step_recv: "udp_step st (udp_recv (Some a) f st)"
| step_bind_netif: "udp_step st (udp_bind_netif a n st)"
| step_remove: "a \<notin> set (free_pcbs st) \<Longrightarrow> udp_step st (udp_remove (Some a) st)"
| step_input: "udp_step st (snd (udp_input chk inp sip dip p st))"
| step_readdress: "\<not> readdress_clash old new st \<Longrightarrow> udp_step st (udp_netif_ip_addr_changed old new st)"

inductive_cases udp_stepE: "udp_step st st'"

definition udp_fresh :: "'f udp \<Rightarrow> bool" where
  "udp_fresh st \<longleftrightarrow> udp_pcbs st = [] \<and> distinct (free_pcbs st) \<and> (\<forall>a. local_port (pcb st a) = 0)"

inductive udp_reach :: "'f udp \<Rightarrow> bool" where
  reach_fresh: "udp_fresh st \<Longrightarrow> udp_reach st"
| reach_step: "udp_reach st \<Longrightarrow> udp_step st st' \<Longrightarrow> udp_reach st'"

lemma udp_step_ok:
  assumes "udp_step st st'" "udp_ok st"
  shows "udp_ok st'"
  using assms(1)
proof cases
  case step_new
  then show ?thesis using udp_new_ok [OF assms(2)] by (metis prod.collapse)
next
  case (step_bind a ip port)
  then show ?thesis using udp_bind_ok [OF assms(2)] by (metis prod.collapse)
next
  case (step_connect a ip port)
  then show ?thesis using udp_connect_ok [OF assms(2)] by (metis prod.collapse)
next
  case (step_disconnect a)
  then show ?thesis using assms(2) by (simp add: udp_disconnect_def udp_ok_upd)
next
  case (step_recv a f)
  then show ?thesis using assms(2) by (simp add: udp_recv_def udp_ok_upd)
next
  case (step_bind_netif a n)
  then show ?thesis using assms(2) by (simp add: udp_bind_netif_def udp_ok_upd)
next
  case (step_remove a)
  then show ?thesis using udp_remove_ok [OF assms(2)] by simp
next
  case (step_input chk inp sip dip p)
  then show ?thesis using udp_input_ok [OF assms(2)] by simp
next
  case (step_readdress old new)
  then show ?thesis using udp_readdress_ok [OF assms(2)] by simp
qed

lemma fresh_ok: "udp_fresh st \<Longrightarrow> udp_ok st"
  by (simp add: udp_fresh_def udp_ok_def)

lemma reach_ok: "udp_reach st \<Longrightarrow> udp_ok st"
  by (induction rule: udp_reach.induct) (blast intro: fresh_ok udp_step_ok)+

subsection \<open>Who gets a datagram\<close>

definition matches :: "'f udp \<Rightarrow> netif \<Rightarrow> u32 \<Rightarrow> u16 \<Rightarrow> nat \<Rightarrow> bool" where
  "matches st inp dip dest a \<longleftrightarrow> a \<in> set (udp_pcbs st) \<and> local_port (pcb st a) = dest
     \<and> udp_input_local_match (pcb st a) inp dip (ip4_addr_isbroadcast dip inp)"

text \<open>Two control blocks can match a broadcast only when both are bound to addresses, different ones.\<close>

lemma match_exclusive:
  "udp_ok st \<Longrightarrow> matches st inp dip dest a \<Longrightarrow> matches st inp dip dest b \<Longrightarrow> a = b
     \<or> ip4_addr_isbroadcast dip inp \<and> local_ip (pcb st a) \<noteq> local_ip (pcb st b) \<and> local_ip (pcb st a) \<noteq> 0 \<and> local_ip (pcb st b) \<noteq> 0"
  by (fastforce simp: udp_ok_def matches_def udp_input_local_match_def split: if_splits)

lemma match_unique:
  "udp_ok st \<Longrightarrow> \<not> ip4_addr_isbroadcast dip inp \<Longrightarrow> matches st inp dip dest a \<Longrightarrow> matches st inp dip dest b \<Longrightarrow> a = b"
  using match_exclusive [of st inp dip dest a b] by blast

lemma demux_none:
  assumes "\<And>a. a \<in> set as \<Longrightarrow> \<not> (local_port (pcb st a) = dest \<and> udp_input_local_match (pcb st a) inp dip bc)"
  shows "demux st inp bc sip src dip dest as uncon = (None, uncon)"
  using assms by (induction as) (auto simp: Let_def)

lemma demux_one:
  assumes "b \<in> set as" "local_port (pcb st b) = dest" "udp_input_local_match (pcb st b) inp dip bc" "flags (pcb st b) AND UDP_FLAGS_CONNECTED = 0"
    and "\<And>a. a \<in> set as \<Longrightarrow> local_port (pcb st a) = dest \<Longrightarrow> udp_input_local_match (pcb st a) inp dip bc \<Longrightarrow> a = b"
    and "uncon = None \<or> uncon = Some b" "demux st inp bc sip src dip dest as uncon = (full, uncon')"
  shows "(case full of None \<Rightarrow> uncon' | Some a \<Rightarrow> Some a) = Some b"
  using assms
proof (induction as arbitrary: uncon)
  case (Cons a as)
  show ?case
  proof (cases "a = b")
    case True
    have u: "(case uncon of None \<Rightarrow> Some b | Some u \<Rightarrow> if bc \<and> dip = IPADDR_BROADCAST \<and> local_ip (pcb st u) \<noteq> ip_addr inp \<and> local_ip (pcb st b) = ip_addr inp
        then Some b else Some u) = Some b"
      using Cons.prems(6) by auto
    show ?thesis
    proof (cases "remote_port (pcb st b) = src \<and> (remote_ip (pcb st b) = 0 \<or> remote_ip (pcb st b) = sip)")
      case True
      then show ?thesis using Cons.prems(2-4,7) \<open>a = b\<close> u by (auto simp: Let_def)
    next
      case False
      then have r: "demux st inp bc sip src dip dest as (Some b) = (full, uncon')"
        using Cons.prems(2-4,7) \<open>a = b\<close> u by (simp only: demux.simps Let_def) simp
      show ?thesis
      proof (cases "b \<in> set as")
        case True
        then show ?thesis using Cons.IH [OF True Cons.prems(2-4) _ _ r] Cons.prems(5) by auto
      next
        case nb: False
        then have "demux st inp bc sip src dip dest as (Some b) = (None, Some b)"
          using Cons.prems(5) by (intro demux_none) (metis list.set_intros(2))
        then show ?thesis using r by simp
      qed
    qed
  next
    case False
    then have n: "\<not> (local_port (pcb st a) = dest \<and> udp_input_local_match (pcb st a) inp dip bc)" using Cons.prems(5) by auto
    then have "demux st inp bc sip src dip dest as uncon = (full, uncon')" using Cons.prems(7) by (auto simp: Let_def)
    then have r: "demux st inp bc sip src dip dest as uncon = (full, uncon')" .
    have "b \<in> set as" using Cons.prems(1) False by simp
    then show ?thesis using Cons.IH [OF _ Cons.prems(2-4) _ Cons.prems(6) r] Cons.prems(5) by simp
  qed
next
  case Nil
  show ?case using Nil(1) by simp
qed

text \<open>A datagram whose checksum is right, to the address of the interface.\<close>

definition checksum_ok :: "chksum \<Rightarrow> pbufs \<Rightarrow> u32 \<Rightarrow> u32 \<Rightarrow> bool" where
  "checksum_ok chk p sip dip \<longleftrightarrow> un_le16 (payload p ! 6) (payload p ! 7) = 0
     \<or> ip_chksum_pseudo chk p IP_PROTO_UDP (of_nat (length (payload p))) sip dip = 0"

lemma udp_input_found:
  assumes "udp_ok st" "matches st inp dip (un_be16 (b ! 2) (b ! 3)) a" "flags (pcb st a) AND UDP_FLAGS_CONNECTED = 0" "recv (pcb st a) = Some f"
    and "\<not> ip4_addr_isbroadcast dip inp" "UDP_HLEN \<le> length b" "checksum_ok chk ((addr, b) # qs) sip dip"
  shows "fst (udp_input chk inp sip dip ((addr, b) # qs) st) = Recv f a ((addr + UDP_HLEN, drop UDP_HLEN b) # qs) sip (un_be16 (b ! 0) (b ! 1))"
proof -
  obtain full uncon where d: "demux st inp (ip4_addr_isbroadcast dip inp) sip (un_be16 (b ! 0) (b ! 1)) dip (un_be16 (b ! 2) (b ! 3)) (udp_pcbs st) None
      = (full, uncon)" by fastforce
  have f: "(case full of None \<Rightarrow> uncon | Some a \<Rightarrow> Some a) = Some a"
  proof (rule demux_one [OF _ _ _ assms(3) _ _ d])
    show "x = a" if "x \<in> set (udp_pcbs st)" "local_port (pcb st x) = un_be16 (b ! 2) (b ! 3)"
        "udp_input_local_match (pcb st x) inp dip (ip4_addr_isbroadcast dip inp)" for x
      using match_unique [OF assms(1,5), of "un_be16 (b ! 2) (b ! 3)" x a] assms(2) that by (simp add: matches_def)
  qed (use assms(2) in \<open>simp_all add: matches_def\<close>)
  have c: "un_le16 (b ! 6) (b ! 7) = 0 \<or>
      ip_chksum_pseudo chk ((addr, b) # qs) IP_PROTO_UDP (of_nat (length (payload ((addr, b) # qs)))) sip dip = 0"
    using assms(6,7) by (auto simp: checksum_ok_def payload_def nth_append UDP_HLEN_def)
  have p: "pcb (case full of None \<Rightarrow> st | Some a \<Rightarrow> st\<lparr>udp_pcbs := a # remove1 a (udp_pcbs st)\<rparr>) = pcb st" by (cases full) simp_all
  show ?thesis using assms(4,6) f c p unfolding udp_input_def Let_def list.case prod.case d by (simp del: One_nat_def)
qed

lemma udp_input_unreachable:
  assumes "\<forall>a. \<not> matches st inp dip (un_be16 (b ! 2) (b ! 3)) a" "ip_addr inp = dip"
    and "\<not> ip4_addr_isbroadcast dip inp" "\<not> ip4_addr_ismulticast dip" "UDP_HLEN \<le> length b" "checksum_ok chk ((addr, b) # qs) sip dip"
  shows "udp_input chk inp sip dip ((addr, b) # qs) st = (Port_unreach ((addr + UDP_HLEN, drop UDP_HLEN b) # qs), st)"
proof -
  have d: "demux st inp (ip4_addr_isbroadcast dip inp) sip (un_be16 (b ! 0) (b ! 1)) dip (un_be16 (b ! 2) (b ! 3)) (udp_pcbs st) None = (None, None)"
    using assms(1) by (intro demux_none) (auto simp: matches_def)
  have c: "un_le16 (b ! 6) (b ! 7) = 0 \<or>
      ip_chksum_pseudo chk ((addr, b) # qs) IP_PROTO_UDP (of_nat (length (payload ((addr, b) # qs)))) sip dip = 0"
    using assms(5,6) by (auto simp: checksum_ok_def payload_def nth_append UDP_HLEN_def)
  show ?thesis using assms(2-5) c unfolding udp_input_def Let_def list.case prod.case d by (simp del: One_nat_def)
qed

subsection \<open>A datagram sent\<close>

lemma sent_payload:
  assumes "udp_sendto_if_src chk headroom new_pbuf (Some a) p dip dport sip st = (ERR_OK, Some (q, sip', dip', t, s, pr), st1)"
    and "length (payload p) + UDP_HLEN < 65536"
  obtains c stored where "payload q = udp_header (local_port (pcb st1 a)) dport (of_nat (length (payload p) + UDP_HLEN)) stored @ payload p"
    "sip' = sip" "dip' = dip"
    "\<exists>q0. payload q0 = udp_header (local_port (pcb st1 a)) dport (of_nat (length (payload p) + UDP_HLEN)) 0 @ payload p
       \<and> c = ip_chksum_pseudo chk q0 IP_PROTO_UDP (of_nat (length (payload p) + UDP_HLEN)) sip dip"
    "stored = 0 \<or> stored = (if c = 0 then 0xffff else c)"
proof -
  obtain e st2 where b: "(if local_port (pcb st a) = 0 then udp_bind (Some a) (local_ip (pcb st a)) 0 st else (ERR_OK, st)) = (e, st2)" by fastforce
  define hdr where "hdr = udp_header (local_port (pcb st2 a)) dport (of_nat (length (payload p) + UDP_HLEN))"
  have e: "e = ERR_OK" "st1 = st2" using assms(1) b
    by (auto simp: udp_sendto_if_src_def Let_def split: if_splits option.splits)
  obtain q0 where q0: "add_udp_header headroom new_pbuf (hdr 0) p = Some q0"
    using assms(1) b e by (auto simp: udp_sendto_if_src_def Let_def hdr_def split: if_splits option.splits)
  have l: "length (hdr c) = UDP_HLEN" for c by (simp add: hdr_def udp_header_def UDP_HLEN_def)
  have p0: "payload q0 = hdr 0 @ payload p" "q0 = (fst (hd q0), hdr 0 @ drop UDP_HLEN (snd (hd q0))) # tl q0"
    using q0 l [of 0] by (auto simp: add_udp_header_def payload_def split: if_splits list.splits option.splits)
  define c where "c = ip_chksum_pseudo chk q0 IP_PROTO_UDP (of_nat (length (payload p) + UDP_HLEN)) sip dip"
  define stored where "stored = (if flags (pcb st2 a) AND UDP_FLAGS_NOCHKSUM = 0 then (if c = 0 then 0xffff else c) else 0)"
  have q: "q = (fst (hd q0), hdr stored @ drop UDP_HLEN (snd (hd q0))) # tl q0" "sip' = sip" "dip' = dip"
    using assms(1) b e q0 by (auto simp: udp_sendto_if_src_def Let_def hdr_def c_def stored_def split: if_splits)
  have "payload q0 = hdr 0 @ drop UDP_HLEN (snd (hd q0)) @ payload (tl q0)" by (subst p0(2)) (simp add: payload_def)
  then have "payload p = drop UDP_HLEN (snd (hd q0)) @ payload (tl q0)" using p0(1) by simp
  then have "payload q = hdr stored @ payload p" using q(1) by (simp add: payload_def)
  then show thesis
  proof (rule that [of stored c, unfolded e(2) hdr_def [symmetric], OF _ q(2,3)])
    show "\<exists>q0. payload q0 = hdr 0 @ payload p \<and> c = ip_chksum_pseudo chk q0 IP_PROTO_UDP (of_nat (length (payload p) + UDP_HLEN)) sip dip"
      using p0(1) c_def by blast
    show "stored = 0 \<or> stored = (if c = 0 then 0xffff else c)" by (simp add: stored_def)
  qed
qed

lemma header_fields:
  assumes "payload r = udp_header lp dport len stored @ data" "r = (addr, b) # qs" "UDP_HLEN \<le> length b"
  shows "un_be16 (b ! 0) (b ! 1) = lp" "un_be16 (b ! 2) (b ! 3) = dport" "un_le16 (payload r ! 6) (payload r ! 7) = stored"
    "payload ((addr', drop UDP_HLEN b) # qs) = data"
proof -
  have b: "b ! i = payload r ! i" if "i < 8" for i using assms(2,3) that by (simp add: payload_def nth_append UDP_HLEN_def)
  have h: "payload r = [ucast (drop_bit 8 lp), ucast lp, ucast (drop_bit 8 dport), ucast dport, ucast (drop_bit 8 len), ucast len,
      ucast stored, ucast (drop_bit 8 stored)] @ data"
    using assms(1) by (simp add: udp_header_def be16_def le16_def)
  show "un_be16 (b ! 0) (b ! 1) = lp" "un_be16 (b ! 2) (b ! 3) = dport" using b h by (simp_all add: un_be16_be16)
  show "un_le16 (payload r ! 6) (payload r ! 7) = stored" using h by (simp add: un_le16_le16)
  have "drop UDP_HLEN (payload r) = payload ((addr', drop UDP_HLEN b) # qs)" using assms(2,3) by (simp add: payload_def)
  moreover have "drop UDP_HLEN (payload r) = data" using h by (simp add: UDP_HLEN_def)
  ultimately show "payload ((addr', drop UDP_HLEN b) # qs) = data" by simp
qed

text \<open>A whole datagram with its ports and its data, whose checksum is right however it is split into buffers.\<close>

definition datagram :: "pbufs \<Rightarrow> u32 \<Rightarrow> u32 \<Rightarrow> u16 \<Rightarrow> u16 \<Rightarrow> u8 list \<Rightarrow> bool" where
  "datagram q sip dip src dest data \<longleftrightarrow>
     (\<exists>stored. payload q = udp_header src dest (of_nat (length data + UDP_HLEN)) stored @ data)
     \<and> (\<forall>r. payload r = payload q \<longrightarrow> checksum_ok thumb2_checksum r sip dip)"

lemma sent_datagram:
  assumes "udp_sendto_if_src thumb2_checksum headroom new_pbuf (Some a) p dip dport sip st
      = (ERR_OK, Some (q, sip', dip', t, s, pr), st1)" "length (payload p) + UDP_HLEN < 65536"
  shows "datagram q sip dip (local_port (pcb st1 a)) dport (payload p) \<and> sip' = sip \<and> dip' = dip"
proof -
  let ?len = "of_nat (length (payload p) + UDP_HLEN) :: u16"
  let ?hdr = "udp_header (local_port (pcb st1 a)) dport ?len"
  obtain cs stored q0 where q: "payload q = ?hdr stored @ payload p" "sip' = sip" "dip' = dip"
      "payload q0 = ?hdr 0 @ payload p" "cs = ip_chksum_pseudo thumb2_checksum q0 IP_PROTO_UDP ?len sip dip"
      "stored = 0 \<or> stored = (if cs = 0 then 0xffff else cs)"
    using sent_payload [OF assms] by metis
  have "checksum_ok thumb2_checksum r sip dip" if "payload r = payload q" for r
  proof (cases "stored = 0")
    case True
    have "payload r ! 6 = ucast stored" "payload r ! 7 = ucast (drop_bit 8 stored)"
      using that q(1) by (simp_all add: udp_header_def be16_def le16_def)
    then have "un_le16 (payload r ! 6) (payload r ! 7) = 0" using True un_le16_le16 [of "0 :: u16"] by simp
    then show ?thesis by (simp add: checksum_ok_def)
  next
    case False
    let ?pre = "be16 (local_port (pcb st1 a)) @ be16 dport @ be16 ?len"
    have len: "length (payload r) = length (payload p) + UDP_HLEN" using that q(1) by (simp add: udp_header_def UDP_HLEN_def)
    have "ip_chksum_pseudo thumb2_checksum r IP_PROTO_UDP ?len sip dip = 0"
    proof (rule stored_checksum_verifies [where p = q0 and pre = ?pre and post = "payload p" and stored = stored and c = cs])
      show "concat (map snd q0) = ?pre @ [0, 0] @ payload p" using q(4) by (simp add: payload_def udp_header_def le16_def)
      show "concat (map snd r) = ?pre @ le16 stored @ payload p" using that q(1) by (simp add: payload_def udp_header_def)
      have "length (payload q0) = length (payload p) + UDP_HLEN" unfolding q(4) by (simp add: udp_header_def UDP_HLEN_def)
      then show "length (concat (map snd q0)) < 65536" using assms(2) by (simp add: payload_def)
      show "cs = ip_chksum_pseudo thumb2_checksum q0 IP_PROTO_UDP ?len sip dip" by (rule q(5))
      show "stored = cs \<or> cs = 0 \<and> stored = 0xFFFF" using q(6) False by (auto split: if_splits)
      show "even (length ?pre)" by simp
    qed
    then show ?thesis by (simp add: checksum_ok_def len)
  qed
  then show ?thesis using q(1-3) by (auto simp: datagram_def)
qed

subsection \<open>Finding a free port\<close>

definition nth_port :: "nat \<Rightarrow> u16" where "nth_port k = of_nat (0xc000 + k mod 0x4000)"

lemma unat_nth_port [simp]: "unat (nth_port k) = 0xc000 + k mod 0x4000"
proof -
  have "k mod 0x4000 < 0x4000" by simp
  then show ?thesis unfolding nth_port_def by (subst unat_of_nat_small) simp_all
qed

lemma nth_port_next:
  "(if nth_port k = UDP_LOCAL_PORT_RANGE_END then UDP_LOCAL_PORT_RANGE_START else nth_port k + 1) = nth_port (Suc k)"
proof -
  have m: "k mod 0x4000 < 0x4000" by simp
  have e: "nth_port k = UDP_LOCAL_PORT_RANGE_END \<longleftrightarrow> k mod 0x4000 = 0x3fff"
    by (simp add: word_unat_eq_iff UDP_LOCAL_PORT_RANGE_END_def)
  show ?thesis
  proof (cases "k mod 0x4000 = 0x3fff")
    case True
    then have "Suc k mod 0x4000 = 0" by (simp add: mod_Suc)
    then have "nth_port (Suc k) = UDP_LOCAL_PORT_RANGE_START" by (simp add: word_unat_eq_iff UDP_LOCAL_PORT_RANGE_START_def)
    then show ?thesis using e True by simp
  next
    case False
    then have "Suc k mod 0x4000 = Suc (k mod 0x4000)" by (simp add: mod_Suc)
    then have "nth_port (Suc k) = nth_port k + 1" by (simp add: nth_port_def add.commute)
    then show ?thesis using e False by simp
  qed
qed

lemma new_port_fails:
  "n < 0x4000 \<Longrightarrow> udp_port st = nth_port k \<Longrightarrow> udp_new_port_loop n st = (0, st') \<Longrightarrow> 0 < i \<Longrightarrow> i \<le> 0x4000 - n \<Longrightarrow> port_used (nth_port (k + i)) st"
proof (induction n st arbitrary: k i rule: udp_new_port_loop.induct)
  case (1 n st)
  let ?st1 = "st\<lparr>udp_port := nth_port (Suc k)\<rparr>"
  have u: "port_used q (st\<lparr>udp_port := r\<rparr>) = port_used q st" for q r by (simp add: port_used_def)
  have nz: "nth_port (Suc k) \<noteq> 0" by (simp add: word_unat_eq_iff)
  have d: "unat (UDP_LOCAL_PORT_RANGE_END - UDP_LOCAL_PORT_RANGE_START) = 0x3fff"
    by (simp add: UDP_LOCAL_PORT_RANGE_END_def UDP_LOCAL_PORT_RANGE_START_def)
  have l: "udp_new_port_loop n st = (if port_used (nth_port (Suc k)) ?st1 then
      (if 0x3fff < n + 1 then (0, ?st1) else udp_new_port_loop (n + 1) ?st1) else (nth_port (Suc k), ?st1))"
    unfolding udp_new_port_loop.simps [of n st] Let_def 1(3) nth_port_next d by simp
  have used: "port_used (nth_port (Suc k)) st" using 1(4) l nz u by (auto split: if_splits)
  show ?case
  proof (cases "i = 1")
    case True
    then show ?thesis using used by simp
  next
    case False
    then have "n + 1 < 0x4000" "0 < i - 1" "i - 1 \<le> 0x4000 - (n + 1)" using 1(5,6) by simp_all
    moreover have "udp_new_port_loop (n + 1) ?st1 = (0, st')" using 1(4) l used u \<open>n + 1 < 0x4000\<close> by (simp split: if_splits)
    ultimately have "port_used (nth_port (Suc k + (i - 1))) ?st1"
      using 1(1) [OF nth_port_next [of k, folded 1(3), symmetric] refl, of "Suc k" "i - 1"] used u d by simp
    then show ?thesis using u 1(5) by simp
  qed
qed

lemma cyclic_offset:
  fixes N :: nat
  assumes "0 < N"
  shows "\<exists>i. (k + i) mod N = j mod N \<and> 0 < i \<and> i \<le> N"
proof (intro exI conjI)
  let ?i = "if k mod N < j mod N then j mod N - k mod N else j mod N + N - k mod N"
  have e: "a + (if a < b then b - a else b + N - a) = (if a < b then b else b + N)" "0 < (if a < b then b - a else b + N - a)"
      "(if a < b then b - a else b + N - a) \<le> N" if "a < N" "b < N" for a b :: nat using that by auto
  have m: "k mod N < N" "j mod N < N" using assms by simp_all
  have "(k + ?i) mod N = (k mod N + ?i) mod N" by (rule mod_add_left_eq [symmetric])
  also have "k mod N + ?i = (if k mod N < j mod N then j mod N else j mod N + N)" by (rule e(1) [OF m])
  finally show "(k + ?i) mod N = j mod N" by simp
  show "0 < ?i" "?i \<le> N" by (rule e(2,3) [OF m])+
qed

lemma new_port_finds:
  assumes "unat (udp_port st) \<ge> 0xc000" "length (udp_pcbs st) < 0x4000"
  shows "fst (udp_new_port st) \<noteq> 0"
proof
  assume f: "fst (udp_new_port st) = 0"
  have "unat (udp_port st) < 65536" using unsigned_less [of "udp_port st", where 'a = nat] by simp
  then have "unat (udp_port st) = unat (nth_port (unat (udp_port st) - 0xc000))" using assms(1) by simp
  then obtain k where k: "udp_port st = nth_port k" using word_unat_eq_iff by blast
  have used: "port_used (nth_port (k + i)) st" if "0 < i" "i \<le> 0x4000" for i
    using new_port_fails [of 0 st k _ i] f k that by (metis udp_new_port_def prod.collapse diff_zero zero_less_numeral)
  have "nth_port j \<in> (\<lambda>a. local_port (pcb st a)) ` set (udp_pcbs st)" for j
  proof -
    obtain i where i: "(k + i) mod 0x4000 = j mod 0x4000" "0 < i" "i \<le> 0x4000" using cyclic_offset [of "0x4000" k j] by auto
    have "nth_port (k + i) = nth_port j" using i(1) by (simp add: word_unat_eq_iff)
    then have "port_used (nth_port j) st" using used [of i] i(2,3) by simp
    then show ?thesis by (force simp: port_used_def list_ex_iff)
  qed
  then have "nth_port ` {..<0x4000} \<subseteq> (\<lambda>a. local_port (pcb st a)) ` set (udp_pcbs st)" by blast
  then have "card (nth_port ` {..<0x4000}) \<le> length (udp_pcbs st)"
    by (metis List.finite_set card_image_le card_length card_mono finite_imageI le_trans)
  moreover have "inj_on nth_port {..<0x4000}" by (rule inj_onI) (simp add: word_unat_eq_iff)
  then have "card (nth_port ` {..<0x4000}) = 0x4000" by (simp add: card_image)
  ultimately show False using assms(2) by simp
qed

lemma src_sends:
  assumes "local_port (pcb u a) \<noteq> 0" "length d + UDP_HLEN < 65536"
  obtains q where "udp_sendto_if_src thumb2_checksum True None (Some a) [(b, d)] dst port src u
      = (ERR_OK, Some (q, src, dst, ttl (pcb u a), tos (pcb u a), IP_PROTO_UDP), u)" "datagram q src dst (local_port (pcb u a)) port d"
proof -
  have "\<not> (of_nat (length d + UDP_HLEN) :: u16) < of_nat (length d)"
    using assms(2) by (simp add: word_less_nat_alt unat_of_nat del: of_nat_add)
  then obtain q where q: "udp_sendto_if_src thumb2_checksum True None (Some a) [(b, d)] dst port src u
      = (ERR_OK, Some (q, src, dst, ttl (pcb u a), tos (pcb u a), IP_PROTO_UDP), u)"
    using assms(1) by (simp add: udp_sendto_if_src_def add_udp_header_def Let_def payload_def del: of_nat_add)
  have "datagram q src dst (local_port (pcb u a)) port d" using sent_datagram [OF q] assms(2) by (simp add: payload_def)
  then show thesis using that q by blast
qed

text \<open>The pool as \<open>memp_init\<close> leaves it, and a service on a port of it.\<close>

definition MEMP_NUM_UDP_PCB :: nat where "MEMP_NUM_UDP_PCB = 4"

definition fresh_udp :: "'f udp" where
  "fresh_udp = \<lparr>udp_port = UDP_LOCAL_PORT_RANGE_START, udp_pcbs = [], pcb = (\<lambda>_. \<lparr>local_ip = 0, remote_ip = 0, netif_idx = 0, tos = 0,
     ttl = 0, flags = 0, local_port = 0, remote_port = 0, recv = None\<rparr>), free_pcbs = [0..<MEMP_NUM_UDP_PCB]\<rparr>"

definition one_service :: "u16 \<Rightarrow> 'f \<Rightarrow> 'f udp" where
  "one_service port f = udp_recv (Some 0) (Some f) (snd (udp_bind (Some 0) 0 port (snd (udp_new fresh_udp))))"

lemma fresh_udp: "udp_fresh fresh_udp"
  by (simp add: udp_fresh_def fresh_udp_def)

lemma one_service:
  assumes "port \<noteq> 0"
  shows "one_service port f = fresh_udp\<lparr>udp_pcbs := [0], free_pcbs := [1, 2, 3], pcb := (pcb fresh_udp)(0 := \<lparr>local_ip = 0, remote_ip = 0,
     netif_idx = 0, tos = 0, ttl = UDP_TTL, flags = 0, local_port = port, remote_port = 0, recv = Some f\<rparr>)\<rparr>" "udp_reach (one_service port f)"
proof -
  show "one_service port f = fresh_udp\<lparr>udp_pcbs := [0], free_pcbs := [1, 2, 3], pcb := (pcb fresh_udp)(0 := \<lparr>local_ip = 0, remote_ip = 0,
     netif_idx = 0, tos = 0, ttl = UDP_TTL, flags = 0, local_port = port, remote_port = 0, recv = Some f\<rparr>)\<rparr>"
    using assms by (simp add: one_service_def udp_new_def fresh_udp_def udp_bind_def bind_conflict_def udp_recv_def upd_pcb_def
        MEMP_NUM_UDP_PCB_def upt_rec)
  have "udp_reach (snd (udp_new (fresh_udp :: 'a udp)))" by (intro reach_step [OF reach_fresh [OF fresh_udp]] step_new)
  then have "udp_reach (snd (udp_bind (Some 0) 0 port (snd (udp_new (fresh_udp :: 'a udp)))))"
    by (rule reach_step) (rule step_bind, simp add: udp_new_def fresh_udp_def MEMP_NUM_UDP_PCB_def upt_rec)
  then show "udp_reach (one_service port f)" unfolding one_service_def by (rule reach_step) (rule step_recv)
qed

text \<open>C8: In every state reached from a fresh pool by opening, binding, connecting, disconnecting and removing control blocks, by receiving
  datagrams and by changes of the address of the interface, two different active control blocks never match the same datagram to one
  address. A broadcast can match two of them, but then both are bound to addresses, different ones, never to the wildcard; and a block that
  matches has a port. The change of the address is limited to those in which no block on the port of a block with the old address has
  the new one already: \<open>udp_netif_ip_addr_changed\<close> does not check this, and \<open>udp_readdress_clash\<close> shows what happens then.\<close>

theorem udp_ports_exclusive:
  assumes "udp_reach st" "matches st inp dip dest a" "matches st inp dip dest b"
  shows "dest \<noteq> 0 \<and> (a = b \<or> ip4_addr_isbroadcast dip inp
    \<and> local_ip (pcb st a) \<noteq> local_ip (pcb st b) \<and> local_ip (pcb st a) \<noteq> 0 \<and> local_ip (pcb st b) \<noteq> 0)"
  using match_exclusive [OF reach_ok [OF assms(1)] assms(2,3)] reach_ok [OF assms(1)] assms(2)
  by (auto simp: udp_ok_def matches_def)

text \<open>Two blocks bound to the addresses 5 and 6 on port 70: both match a broadcast, one matches a datagram to its address.\<close>

definition two_bound :: "unit udp" where
  "two_bound = snd (udp_bind (Some 2) 6 70 (snd (udp_new (snd (udp_bind (Some 1) 5 70 (snd (udp_new (one_service 69 ()))))))))"

lemma two_bound:
  "udp_reach two_bound" "udp_pcbs two_bound = [2, 1, 0]" "local_port (pcb two_bound 2) = 70" "local_port (pcb two_bound 1) = 70"
    "local_port (pcb two_bound 0) = 69" "local_ip (pcb two_bound 2) = 6" "local_ip (pcb two_bound 1) = 5"
    "netif_idx (pcb two_bound 2) = 0" "netif_idx (pcb two_bound 1) = 0"
proof -
  let ?u1 = "snd (udp_new (one_service 69 () :: unit udp))"
  let ?u2 = "snd (udp_bind (Some 1) 5 70 ?u1)"
  have r1: "udp_reach ?u1" by (rule reach_step [OF one_service(2) step_new]) simp
  have r2: "udp_reach ?u2" by (rule reach_step [OF r1 step_bind]) (simp add: one_service(1) udp_new_def)
  have r3: "udp_reach (snd (udp_new ?u2))" by (rule reach_step [OF r2 step_new])
  show "udp_reach two_bound" unfolding two_bound_def
    by (rule reach_step [OF r3 step_bind]) (simp add: one_service(1) udp_new_def udp_bind_def bind_conflict_def fresh_udp_def)
  show "udp_pcbs two_bound = [2, 1, 0]" "local_port (pcb two_bound 2) = 70" "local_port (pcb two_bound 1) = 70"
    "local_port (pcb two_bound 0) = 69" "local_ip (pcb two_bound 2) = 6" "local_ip (pcb two_bound 1) = 5"
    "netif_idx (pcb two_bound 2) = 0" "netif_idx (pcb two_bound 1) = 0"
    by (simp_all add: two_bound_def one_service(1) udp_new_def udp_bind_def bind_conflict_def fresh_udp_def)
qed

theorem udp_ports_exclusive_witness:
  "udp_reach two_bound \<and> {b. matches two_bound \<lparr>ip_addr = 5, netmask = 0xff, netif_index = 1, broadcast_flag = True\<rparr> 5 70 b} = {1}
   \<and> {b. matches two_bound \<lparr>ip_addr = 5, netmask = 0xff, netif_index = 1, broadcast_flag = True\<rparr> IPADDR_BROADCAST 70 b} = {1, 2}"
proof -
  let ?i = "\<lparr>ip_addr = 5, netmask = 0xff, netif_index = 1, broadcast_flag = True\<rparr>"
  have m: "matches two_bound ?i 5 70 1" by (simp add: two_bound [simplified] matches_def udp_input_local_match_def ip4_addr_isbroadcast_def)
  have "b = 1" if "matches two_bound ?i 5 70 b" for b
    using udp_ports_exclusive [OF two_bound(1) that m] by (simp add: ip4_addr_isbroadcast_def)
  then have one: "{b. matches two_bound ?i 5 70 b} = {1}" using m by blast
  have "{b. matches two_bound ?i IPADDR_BROADCAST 70 b} = {1, 2}"
    by (auto simp: two_bound [simplified] matches_def udp_input_local_match_def ip4_addr_isbroadcast_def IPADDR_BROADCAST_def)
  then show ?thesis using two_bound(1) one by blast
qed

text \<open>When the address of the interface becomes one that a block on the same port has already, both blocks match one datagram, and the one
  behind in the list gets none.\<close>

theorem udp_readdress_clash:
  "readdress_clash 5 6 two_bound \<and> (let u = udp_netif_ip_addr_changed 5 6 two_bound;
     i = \<lparr>ip_addr = 6, netmask = 0xff, netif_index = 1, broadcast_flag = True\<rparr> in
     \<not> ip4_addr_isbroadcast 6 i \<and> matches u i 6 70 1 \<and> matches u i 6 70 2)"
proof -
  note r = readdressed [OF reach_ok [OF two_bound(1)], of 5 6]
  have "readdress_clash 5 6 two_bound" by (auto simp: readdress_clash_def two_bound [simplified])
  then show ?thesis by (simp add: Let_def matches_def r two_bound [simplified] udp_input_local_match_def ip4_addr_isbroadcast_def)
qed

text \<open>A datagram that arrives.\<close>

lemma udp_arrives:
  assumes "udp_sendto_if_src thumb2_checksum headroom new_pbuf (Some a) p dip dport sip st
      = (ERR_OK, Some (q, sip', dip', t, s, pr), st1)" "length (payload p) + UDP_HLEN < 65536"
    and "payload ((addr, b) # qs) = payload q" "UDP_HLEN \<le> length b"
    and "udp_reach st'" "matches st' inp dip dport c" "flags (pcb st' c) AND UDP_FLAGS_CONNECTED = 0" "recv (pcb st' c) = Some f"
    and "\<not> ip4_addr_isbroadcast dip inp"
  shows "\<exists>r. fst (udp_input thumb2_checksum inp sip' dip' ((addr, b) # qs) st') = Recv f c r sip (local_port (pcb st1 a)) \<and> payload r = payload p"
proof -
  have d: "datagram q sip dip (local_port (pcb st1 a)) dport (payload p)" "sip' = sip" "dip' = dip"
    using sent_datagram [OF assms(1,2)] by simp_all
  then obtain stored where r: "payload ((addr, b) # qs)
      = udp_header (local_port (pcb st1 a)) dport (of_nat (length (payload p) + UDP_HLEN)) stored @ payload p"
    using assms(3) by (auto simp: datagram_def)
  note h = header_fields [OF r refl assms(4)]
  have c: "checksum_ok thumb2_checksum ((addr, b) # qs) sip dip" using d(1) assms(3) by (simp add: datagram_def)
  have "fst (udp_input thumb2_checksum inp sip' dip' ((addr, b) # qs) st')
      = Recv f c ((addr + UDP_HLEN, drop UDP_HLEN b) # qs) sip (local_port (pcb st1 a))"
    using udp_input_found [OF reach_ok [OF assms(5)] _ assms(7,8,9,4) c] assms(6) h(1,2) d(2,3) by simp
  then show ?thesis using h(4) by blast
qed

text \<open>What \<open>udp_sendto_if_src\<close> hands to the IP layer, \<open>udp_input\<close> of the receiver hands to the callback of the control block
  bound to the port: the same data, from the port of the sender, however the datagram is split into buffers at either end.\<close>

theorem udp_roundtrip:
  assumes "udp_sendto_if_src thumb2_checksum headroom new_pbuf (Some a) p dip dport sip st
      = (ERR_OK, Some (q, sip', dip', t, s, pr), st1)" "length (payload p) + UDP_HLEN < 65536"
    and "payload ((addr, b) # qs) = payload q" "UDP_HLEN \<le> length b"
    and "udp_reach st'" "matches st' inp dip dport c" "flags (pcb st' c) AND UDP_FLAGS_CONNECTED = 0" "recv (pcb st' c) = Some f"
    and "\<not> ip4_addr_isbroadcast dip inp"
  shows "\<exists>r. fst (udp_input thumb2_checksum inp sip' dip' ((addr, b) # qs) st') = Recv f c r sip (local_port (pcb st1 a)) \<and> payload r = payload p"
  by (rule udp_arrives [OF assms])

theorem udp_roundtrip_witness:
  "\<exists>q r. fst (udp_sendto_if_src thumb2_checksum True None (Some 0) [(100, [1, 2, 3])] 5 69 9 (one_service 1000 ()))
       = ERR_OK \<and> fst (snd (udp_sendto_if_src thumb2_checksum True None (Some 0) [(100, [1, 2, 3])] 5 69 9 (one_service 1000 ())))
       = Some (q, 9, 5, 255, 0, 17)
     \<and> fst (udp_input thumb2_checksum \<lparr>ip_addr = 5, netmask = 0xff, netif_index = 1, broadcast_flag = True\<rparr> 9 5 [(0, payload q)] (one_service 69 ()))
       = Recv () 0 r 9 1000 \<and> payload r = [1, 2, 3]"
proof -
  let ?i = "\<lparr>ip_addr = 5, netmask = 0xff, netif_index = 1, broadcast_flag = True\<rparr>" and ?c = "one_service 1000 () :: unit udp"
  have c: "local_port (pcb ?c 0) = 1000" "ttl (pcb ?c 0) = 255" "tos (pcb ?c 0) = 0" by (simp_all add: one_service(1) UDP_TTL_def)
  obtain q where q: "udp_sendto_if_src thumb2_checksum True None (Some 0) [(100, [1, 2, 3])] 5 69 9 ?c
      = (ERR_OK, Some (q, 9, 5, 255, 0, 17), ?c)" "datagram q 9 5 1000 69 [1, 2, 3]"
    using src_sends [of ?c 0 "[1, 2, 3]" 100 5 69 9] c by (auto simp: IP_PROTO_UDP_def UDP_HLEN_def)
  have l: "UDP_HLEN \<le> length (payload q)" using q(2) by (auto simp: datagram_def udp_header_def UDP_HLEN_def)
  have m: "matches (one_service 69 () :: unit udp) ?i 5 69 0" by (simp add: matches_def udp_input_local_match_def one_service(1) ip4_addr_isbroadcast_def)
  obtain r where "fst (udp_input thumb2_checksum ?i 9 5 [(0, payload q)] (one_service 69 ())) = Recv () 0 r 9 1000 \<and> payload r = [1, 2, 3]"
    using udp_roundtrip [OF q(1) _ _ l one_service(2) m, of 0 "[]" "()"] c
    by (auto simp: payload_def one_service(1) ip4_addr_isbroadcast_def UDP_HLEN_def)
  then show ?thesis using q(1) by auto
qed

end
