(* ===== verification/Etharp.thy ===== *)
theory Etharp
  imports PbufChains Udp
begin

unbundle bit_operations_syntax

text \<open>
  Ethernet and ARP (\<open>ethernet_output\<close> of \<open>lwip/src/netif/ethernet.c\<close> and \<open>lwip/src/core/ipv4/etharp.c\<close>, as configured: one queued packet
  per entry, no static entries, no VLAN, no address conflict detection). The state has the heap of packet buffers, the ARP table and
  the device; the driver's \<open>linkoutput\<close>, the heap that gives memory for new buffers and the interfaces are the environment.
  \<open>None\<close> is undefined behaviour, as in \<open>Pbuf\<close>. The entries point to their interface by its number.
  No DHCP client is started, so \<open>dhcp_arp_reply\<close>, which looks for one on the interface of a reply received, has no effect and is left out.
\<close>

datatype etharp_state =
  ETHARP_STATE_EMPTY | ETHARP_STATE_PENDING | ETHARP_STATE_STABLE | ETHARP_STATE_STABLE_REREQUESTING_1 | ETHARP_STATE_STABLE_REREQUESTING_2

text \<open>The code compares states by their numbers.\<close>

fun state_number :: "etharp_state \<Rightarrow> nat" where
  "state_number ETHARP_STATE_EMPTY = 0"
| "state_number ETHARP_STATE_PENDING = 1"
| "state_number ETHARP_STATE_STABLE = 2"
| "state_number ETHARP_STATE_STABLE_REREQUESTING_1 = 3"
| "state_number ETHARP_STATE_STABLE_REREQUESTING_2 = 4"

instantiation etharp_state :: linorder
begin

definition less_eq_etharp_state :: "etharp_state \<Rightarrow> etharp_state \<Rightarrow> bool" where "s \<le> t \<longleftrightarrow> state_number s \<le> state_number t"
definition less_etharp_state :: "etharp_state \<Rightarrow> etharp_state \<Rightarrow> bool" where "s < t \<longleftrightarrow> state_number s < state_number t"

instance
proof
  fix s t :: etharp_state
  show "s \<le> t \<Longrightarrow> t \<le> s \<Longrightarrow> s = t" by (cases s; cases t) (simp_all add: less_eq_etharp_state_def)
qed (auto simp: less_eq_etharp_state_def less_etharp_state_def)

end

record eth_netif = netif +
  gw :: u32
  hwaddr :: "u8 list"
  flag_etharp :: bool
  up :: bool
  link_up :: bool
  mtu :: u16

abbreviation isbroadcast :: "u32 \<Rightarrow> eth_netif \<Rightarrow> bool" where "isbroadcast a ni \<equiv> ip4_addr_isbroadcast a (netif.truncate ni)"

record etharp_entry =
  queued :: "nat option"
  ipaddr :: u32
  ifnum :: nat
  ethaddr :: "u8 list"
  ctime :: u16
  astate :: etharp_state

record 'd link_state =
  mem :: pmem
  arp_table :: "etharp_entry list"
  cached_entry :: nat
  dev :: 'd

record 'd link_env =
  ifs :: "nat \<Rightarrow> eth_netif"
  heap :: "pmem \<Rightarrow> malloc"
  linkoutput :: "nat \<Rightarrow> pmem \<Rightarrow> nat option \<Rightarrow> 'd \<Rightarrow> (err \<times> 'd) option"

definition ARP_TABLE_SIZE :: nat where "ARP_TABLE_SIZE = 10"
definition ARP_MAXAGE :: u16 where "ARP_MAXAGE = 300"
definition ARP_MAXPENDING :: u16 where "ARP_MAXPENDING = 5"
definition ARP_AGE_REREQUEST_USED_UNICAST :: u16 where "ARP_AGE_REREQUEST_USED_UNICAST = ARP_MAXAGE - 30"
definition ARP_AGE_REREQUEST_USED_BROADCAST :: u16 where "ARP_AGE_REREQUEST_USED_BROADCAST = ARP_MAXAGE - 15"
definition ETHARP_FLAG_TRY_HARD :: u8 where "ETHARP_FLAG_TRY_HARD = 1"
definition ETHARP_FLAG_FIND_ONLY :: u8 where "ETHARP_FLAG_FIND_ONLY = 2"
definition SIZEOF_ETH_HDR :: nat where "SIZEOF_ETH_HDR = 14"
definition SIZEOF_ETHARP_HDR :: u16 where "SIZEOF_ETHARP_HDR = 28"
definition ETHTYPE_IP :: u16 where "ETHTYPE_IP = 0x0800"
definition ETHTYPE_ARP :: u16 where "ETHTYPE_ARP = 0x0806"
definition ARP_REQUEST :: u16 where "ARP_REQUEST = 1"
definition ARP_REPLY :: u16 where "ARP_REPLY = 2"
definition ethbroadcast :: "u8 list" where "ethbroadcast = [0xff, 0xff, 0xff, 0xff, 0xff, 0xff]"
definition ethzero :: "u8 list" where "ethzero = [0, 0, 0, 0, 0, 0]"

definition free_pbuf :: "nat option \<Rightarrow> 'd link_state \<Rightarrow> 'd link_state option" where
  "free_pbuf p s = map_option (\<lambda>(_, m). s\<lparr>mem := m\<rparr>) (pbuf_free p (mem s))"

definition eth_hdr :: "u8 list \<Rightarrow> u8 list \<Rightarrow> u16 \<Rightarrow> u8 list" where "eth_hdr dst src eth_type = dst @ src @ be16 eth_type"

definition ethernet_output ::
  "'d link_env \<Rightarrow> nat \<Rightarrow> nat option \<Rightarrow> u8 list \<Rightarrow> u8 list \<Rightarrow> u16 \<Rightarrow> 'd link_state \<Rightarrow> (err \<times> 'd link_state) option" where
  "ethernet_output env n p src dst eth_type s =
     do { (r, m1) \<leftarrow> pbuf_add_header p SIZEOF_ETH_HDR (mem s);
          (if r \<noteq> 0 then Some (ERR_BUF, s\<lparr>mem := m1\<rparr>)
           else
             do { (a, _) \<leftarrow> pbuf_at p m1;
                  m2 \<leftarrow> payload_write a 0 (eth_hdr dst src eth_type) m1;
                  (e, d) \<leftarrow> linkoutput env n m2 p (dev s);
                  Some (e, s\<lparr>mem := m2, dev := d\<rparr>) }) }"

subsection \<open>ARP packets\<close>

definition etharp_hdr :: "u16 \<Rightarrow> u8 list \<Rightarrow> u32 \<Rightarrow> u8 list \<Rightarrow> u32 \<Rightarrow> u8 list" where
  "etharp_hdr opcode shwaddr sipaddr dhwaddr dipaddr =
     be16 1 @ be16 ETHTYPE_IP @ [6, 4] @ be16 opcode @ shwaddr @ le32 sipaddr @ dhwaddr @ le32 dipaddr"

definition etharp_raw ::
  "'d link_env \<Rightarrow> nat \<Rightarrow> u8 list \<Rightarrow> u8 list \<Rightarrow> u8 list \<Rightarrow> u32 \<Rightarrow> u8 list \<Rightarrow> u32 \<Rightarrow> u16 \<Rightarrow> 'd link_state
    \<Rightarrow> (err \<times> 'd link_state) option" where
  "etharp_raw env n ethsrc ethdst hwsrc ipsrc hwdst ipdst opcode s =
     do { (p, m1) \<leftarrow> pbuf_alloc (heap env (mem s)) PBUF_LINK SIZEOF_ETHARP_HDR PBUF_RAM (mem s);
          (case p of None \<Rightarrow> Some (ERR_MEM, s\<lparr>mem := m1\<rparr>)
           | Some a \<Rightarrow>
               do { m2 \<leftarrow> payload_write a 0 (etharp_hdr opcode hwsrc ipsrc hwdst ipdst) m1;
                    (_, s1) \<leftarrow> ethernet_output env n p ethsrc ethdst ETHTYPE_ARP (s\<lparr>mem := m2\<rparr>);
                    s2 \<leftarrow> free_pbuf p s1;
                    Some (ERR_OK, s2) }) }"

definition etharp_request_dst :: "'d link_env \<Rightarrow> nat \<Rightarrow> u32 \<Rightarrow> u8 list \<Rightarrow> 'd link_state \<Rightarrow> (err \<times> 'd link_state) option" where
  "etharp_request_dst env n ip hw_dst s =
     (let ni = ifs env n in etharp_raw env n (hwaddr ni) hw_dst (hwaddr ni) (ip_addr ni) ethzero ip ARP_REQUEST s)"

definition etharp_request :: "'d link_env \<Rightarrow> nat \<Rightarrow> u32 \<Rightarrow> 'd link_state \<Rightarrow> (err \<times> 'd link_state) option" where
  "etharp_request env n ip s = etharp_request_dst env n ip ethbroadcast s"

subsection \<open>The table\<close>

definition entry :: "'d link_state \<Rightarrow> nat \<Rightarrow> etharp_entry" where "entry s i = arp_table s ! i"

definition upd_entry :: "nat \<Rightarrow> (etharp_entry \<Rightarrow> etharp_entry) \<Rightarrow> 'd link_state \<Rightarrow> 'd link_state" where
  "upd_entry i f s = s\<lparr>arp_table := (arp_table s)[i := f (entry s i)]\<rparr>"

definition etharp_free_entry :: "nat \<Rightarrow> 'd link_state \<Rightarrow> 'd link_state option" where
  "etharp_free_entry i s =
     do { s1 \<leftarrow> (case queued (entry s i) of None \<Rightarrow> Some s
                | Some p \<Rightarrow> map_option (upd_entry i (queued_update (\<lambda>_. None))) (free_pbuf (Some p) s));
          Some (upd_entry i (astate_update (\<lambda>_. ETHARP_STATE_EMPTY)) s1) }"

text \<open>The candidates the search for an entry keeps, with the ages of the last three.\<close>

record candidates =
  c_empty :: "nat option"
  c_stable :: "nat option"
  c_pending :: "nat option"
  c_queue :: "nat option"
  age_stable :: u16
  age_pending :: u16
  age_queue :: u16

definition no_candidates :: candidates where
  "no_candidates = \<lparr>c_empty = None, c_stable = None, c_pending = None, c_queue = None, age_stable = 0, age_pending = 0, age_queue = 0\<rparr>"

definition candidate :: "nat \<Rightarrow> etharp_entry \<Rightarrow> candidates \<Rightarrow> candidates" where
  "candidate i e c =
     (if astate e = ETHARP_STATE_PENDING then
        (if queued e \<noteq> None then (if age_queue c \<le> ctime e then c\<lparr>c_queue := Some i, age_queue := ctime e\<rparr> else c)
         else (if age_pending c \<le> ctime e then c\<lparr>c_pending := Some i, age_pending := ctime e\<rparr> else c))
      else if ETHARP_STATE_STABLE \<le> astate e then
        (if age_stable c \<le> ctime e then c\<lparr>c_stable := Some i, age_stable := ctime e\<rparr> else c)
      else c)"

fun find_scan :: "u32 option \<Rightarrow> nat \<Rightarrow> nat \<Rightarrow> etharp_entry list \<Rightarrow> candidates \<Rightarrow> nat + candidates" where
  "find_scan ip n i [] c = Inr c"
| "find_scan ip n i (e # es) c =
     (if c_empty c = None \<and> astate e = ETHARP_STATE_EMPTY then find_scan ip n (i + 1) es (c\<lparr>c_empty := Some i\<rparr>)
      else if astate e \<noteq> ETHARP_STATE_EMPTY then
        (if ip = Some (ipaddr e) \<and> n = ifnum e then Inl i else find_scan ip n (i + 1) es (candidate i e c))
      else find_scan ip n (i + 1) es c)"

text \<open>\<open>None\<close> as a result is the error \<open>ERR_MEM\<close>.\<close>

definition etharp_find_entry :: "u32 option \<Rightarrow> u8 \<Rightarrow> nat \<Rightarrow> 'd link_state \<Rightarrow> (nat option \<times> 'd link_state) option" where
  "etharp_find_entry ip flgs n s =
     (case find_scan ip n 0 (arp_table s) no_candidates of
        Inl i \<Rightarrow> Some (Some i, s)
      | Inr c \<Rightarrow>
          if flgs AND ETHARP_FLAG_FIND_ONLY \<noteq> 0 \<or> c_empty c = None \<and> flgs AND ETHARP_FLAG_TRY_HARD = 0 then Some (None, s)
          else
            do { (r, s1) \<leftarrow>
                   (case c_empty c of Some i \<Rightarrow> Some (Some i, s)
                    | None \<Rightarrow>
                        (case (case c_stable c of Some i \<Rightarrow> Some i
                               | None \<Rightarrow> (case c_pending c of Some i \<Rightarrow> Some i | None \<Rightarrow> c_queue c)) of
                           None \<Rightarrow> Some (None, s)
                         | Some i \<Rightarrow> map_option (\<lambda>s'. (Some i, s')) (etharp_free_entry i s)));
                 (case r of None \<Rightarrow> Some (None, s1)
                  | Some i \<Rightarrow>
                      Some (Some i, upd_entry i (\<lambda>e. (case ip of None \<Rightarrow> e | Some a \<Rightarrow> e\<lparr>ipaddr := a\<rparr>)\<lparr>ctime := 0, ifnum := n\<rparr>) s1)) })"

definition etharp_update_arp_entry :: "'d link_env \<Rightarrow> nat \<Rightarrow> u32 \<Rightarrow> u8 list \<Rightarrow> u8 \<Rightarrow> 'd link_state \<Rightarrow> (err \<times> 'd link_state) option" where
  "etharp_update_arp_entry env n ip eth flgs s =
     (if ip = 0 \<or> isbroadcast ip (ifs env n) \<or> ip4_addr_ismulticast ip then Some (ERR_ARG, s)
      else
        do { (r, s1) \<leftarrow> etharp_find_entry (Some ip) flgs n s;
             (case r of None \<Rightarrow> Some (ERR_MEM, s1)
              | Some i \<Rightarrow>
                  let s2 = upd_entry i (\<lambda>e. e\<lparr>astate := ETHARP_STATE_STABLE, ifnum := n, ethaddr := eth, ctime := 0\<rparr>) s1 in
                  (case queued (entry s2 i) of None \<Rightarrow> Some (ERR_OK, s2)
                   | Some p \<Rightarrow>
                       do { (_, s3) \<leftarrow> ethernet_output env n (Some p) (hwaddr (ifs env n)) eth ETHTYPE_IP (upd_entry i (queued_update (\<lambda>_. None)) s2);
                            s4 \<leftarrow> free_pbuf (Some p) s3;
                            Some (ERR_OK, s4) })) })"

fun cleanup_loop :: "nat \<Rightarrow> nat list \<Rightarrow> 'd link_state \<Rightarrow> 'd link_state option" where
  "cleanup_loop n [] s = Some s"
| "cleanup_loop n (i # is) s =
     do { s1 \<leftarrow> (if astate (entry s i) \<noteq> ETHARP_STATE_EMPTY \<and> ifnum (entry s i) = n then etharp_free_entry i s else Some s);
          cleanup_loop n is s1 }"

definition etharp_cleanup_netif :: "nat \<Rightarrow> 'd link_state \<Rightarrow> 'd link_state option" where
  "etharp_cleanup_netif n s = cleanup_loop n [0..<ARP_TABLE_SIZE] s"

definition etharp_find_addr :: "nat \<Rightarrow> u32 \<Rightarrow> 'd link_state \<Rightarrow> ((nat \<times> u8 list \<times> u32) option \<times> 'd link_state) option" where
  "etharp_find_addr n ip s =
     do { (r, s1) \<leftarrow> etharp_find_entry (Some ip) ETHARP_FLAG_FIND_ONLY n s;
          (case r of None \<Rightarrow> Some (None, s1)
           | Some i \<Rightarrow>
               Some (if ETHARP_STATE_STABLE \<le> astate (entry s1 i) then Some (i, ethaddr (entry s1 i), ipaddr (entry s1 i)) else None, s1)) }"

definition etharp_get_entry :: "nat \<Rightarrow> 'd link_state \<Rightarrow> (u32 \<times> nat \<times> u8 list) option" where
  "etharp_get_entry i s =
     (if i < ARP_TABLE_SIZE \<and> ETHARP_STATE_STABLE \<le> astate (entry s i)
      then Some (ipaddr (entry s i), ifnum (entry s i), ethaddr (entry s i)) else None)"

text \<open>The timer that runs once a second.\<close>

definition tmr_entry :: "'d link_env \<Rightarrow> nat \<Rightarrow> 'd link_state \<Rightarrow> 'd link_state option" where
  "tmr_entry env i s =
     (if astate (entry s i) = ETHARP_STATE_EMPTY then Some s
      else
        let s1 = upd_entry i (\<lambda>e. e\<lparr>ctime := ctime e + 1\<rparr>) s; e = entry s1 i in
        if ARP_MAXAGE \<le> ctime e \<or> astate e = ETHARP_STATE_PENDING \<and> ARP_MAXPENDING \<le> ctime e then etharp_free_entry i s1
        else if astate e = ETHARP_STATE_STABLE_REREQUESTING_1 then Some (upd_entry i (astate_update (\<lambda>_. ETHARP_STATE_STABLE_REREQUESTING_2)) s1)
        else if astate e = ETHARP_STATE_STABLE_REREQUESTING_2 then Some (upd_entry i (astate_update (\<lambda>_. ETHARP_STATE_STABLE)) s1)
        else if astate e = ETHARP_STATE_PENDING then map_option snd (etharp_request env (ifnum e) (ipaddr e) s1)
        else Some s1)"

fun tmr_loop :: "'d link_env \<Rightarrow> nat list \<Rightarrow> 'd link_state \<Rightarrow> 'd link_state option" where
  "tmr_loop env [] s = Some s"
| "tmr_loop env (i # is) s = do { s1 \<leftarrow> tmr_entry env i s; tmr_loop env is s1 }"

definition etharp_tmr :: "'d link_env \<Rightarrow> 'd link_state \<Rightarrow> 'd link_state option" where "etharp_tmr env s = tmr_loop env [0..<ARP_TABLE_SIZE] s"

subsection \<open>Sending\<close>

definition etharp_output_to_arp_index :: "'d link_env \<Rightarrow> nat \<Rightarrow> nat option \<Rightarrow> nat \<Rightarrow> 'd link_state \<Rightarrow> (err \<times> 'd link_state) option" where
  "etharp_output_to_arp_index env n q i s =
     do { let e = entry s i;
          s1 \<leftarrow> (if astate e = ETHARP_STATE_STABLE then
                   (if ARP_AGE_REREQUEST_USED_BROADCAST \<le> ctime e then
                      do { (r, s') \<leftarrow> etharp_request env n (ipaddr e) s;
                           Some (if r = ERR_OK then upd_entry i (astate_update (\<lambda>_. ETHARP_STATE_STABLE_REREQUESTING_1)) s' else s') }
                    else if ARP_AGE_REREQUEST_USED_UNICAST \<le> ctime e then
                      do { (r, s') \<leftarrow> etharp_request_dst env n (ipaddr e) (ethaddr e) s;
                           Some (if r = ERR_OK then upd_entry i (astate_update (\<lambda>_. ETHARP_STATE_STABLE_REREQUESTING_1)) s' else s') }
                    else Some s)
                 else Some s);
          ethernet_output env n q (hwaddr (ifs env n)) (ethaddr (entry s1 i)) ETHTYPE_IP s1 }"

text \<open>Only buffers that refer to memory of somebody else have to be copied.\<close>

partial_function (option) needs_copy :: "nat option \<Rightarrow> pmem \<Rightarrow> bool option" where
  "needs_copy p m =
     (case p of None \<Rightarrow> Some False
      | Some _ \<Rightarrow> do { (_, x) \<leftarrow> pbuf_at p m; (if ptype x = PBUF_REF then Some True else needs_copy (nxt x) m) })"

text \<open>The packet as it is kept in the table: a copy, or the packet with one more reference.\<close>

definition take_over :: "'d link_env \<Rightarrow> nat option \<Rightarrow> 'd link_state \<Rightarrow> (nat option \<times> 'd link_state) option" where
  "take_over env q s =
     do { copy \<leftarrow> needs_copy q (mem s);
          (if copy then map_option (\<lambda>(p, m). (p, s\<lparr>mem := m\<rparr>)) (pbuf_clone (heap env (mem s)) PBUF_LINK PBUF_RAM q (mem s))
           else map_option (\<lambda>m. (q, s\<lparr>mem := m\<rparr>)) (pbuf_ref q (mem s))) }"

definition queue_packet :: "'d link_env \<Rightarrow> nat \<Rightarrow> nat option \<Rightarrow> 'd link_state \<Rightarrow> (err \<times> 'd link_state) option" where
  "queue_packet env i q s =
     do { (p, s1) \<leftarrow> take_over env q s;
          (case p of None \<Rightarrow> Some (ERR_MEM, s1)
           | Some _ \<Rightarrow>
               do { s2 \<leftarrow> (case queued (entry s1 i) of None \<Rightarrow> Some s1 | Some old \<Rightarrow> free_pbuf (Some old) s1);
                    Some (ERR_OK, upd_entry i (queued_update (\<lambda>_. p)) s2) }) }"

definition etharp_query :: "'d link_env \<Rightarrow> nat \<Rightarrow> u32 \<Rightarrow> nat option \<Rightarrow> 'd link_state \<Rightarrow> (err \<times> 'd link_state) option" where
  "etharp_query env n ip q s =
     (if isbroadcast ip (ifs env n) \<or> ip4_addr_ismulticast ip \<or> ip = 0 then Some (ERR_ARG, s)
      else
        do { (r, s1) \<leftarrow> etharp_find_entry (Some ip) ETHARP_FLAG_TRY_HARD n s;
             (case r of None \<Rightarrow> Some (ERR_MEM, s1)
              | Some i \<Rightarrow>
                  do { let is_new = (astate (entry s1 i) = ETHARP_STATE_EMPTY);
                       let s2 = (if is_new then upd_entry i (\<lambda>e. e\<lparr>astate := ETHARP_STATE_PENDING, ifnum := n\<rparr>) s1 else s1);
                       (res, s3) \<leftarrow>
                         (if is_new \<or> q = None then
                            do { (res, s') \<leftarrow> etharp_request env n ip s2;
                                 Some (res, if res = ERR_OK \<and> astate (entry s' i) = ETHARP_STATE_PENDING \<and> \<not> is_new
                                            then upd_entry i (ctime_update (\<lambda>_. 0)) s' else s') }
                          else Some (ERR_MEM, s2));
                       (if q = None then Some (res, s3)
                        else if ETHARP_STATE_STABLE \<le> astate (entry s3 i) then
                          ethernet_output env n q (hwaddr (ifs env n)) (ethaddr (entry s3 i)) ETHTYPE_IP (s3\<lparr>cached_entry := i\<rparr>)
                        else if astate (entry s3 i) = ETHARP_STATE_PENDING then queue_packet env i q s3
                        else Some (res, s3)) }) })"

fun stable_scan :: "u32 \<Rightarrow> nat \<Rightarrow> nat \<Rightarrow> etharp_entry list \<Rightarrow> nat option" where
  "stable_scan ip n i [] = None"
| "stable_scan ip n i (e # es) =
     (if ETHARP_STATE_STABLE \<le> astate e \<and> ifnum e = n \<and> ip = ipaddr e then Some i else stable_scan ip n (i + 1) es)"

text \<open>A multicast address gives the Ethernet address; the bytes of an address are in network order.\<close>

definition multicast_eth :: "u32 \<Rightarrow> u8 list" where
  "multicast_eth ip = [0x01, 0x00, 0x5e, ucast (drop_bit 8 ip) AND 0x7f, ucast (drop_bit 16 ip), ucast (drop_bit 24 ip)]"

definition islinklocal :: "u32 \<Rightarrow> bool" where "islinklocal ip \<longleftrightarrow> ip AND 0xffff = 0xfea9"

definition etharp_output :: "'d link_env \<Rightarrow> nat \<Rightarrow> nat option \<Rightarrow> u32 \<Rightarrow> 'd link_state \<Rightarrow> (err \<times> 'd link_state) option" where
  "etharp_output env n q ip s =
     (let ni = ifs env n in
      if isbroadcast ip ni then ethernet_output env n q (hwaddr ni) ethbroadcast ETHTYPE_IP s
      else if ip4_addr_ismulticast ip then ethernet_output env n q (hwaddr ni) (multicast_eth ip) ETHTYPE_IP s
      else if ip AND netmask ni \<noteq> ip_addr ni AND netmask ni \<and> \<not> islinklocal ip \<and> gw ni = 0 then Some (ERR_RTE, s)
      else
        let dst = (if ip AND netmask ni \<noteq> ip_addr ni AND netmask ni \<and> \<not> islinklocal ip then gw ni else ip); c = entry s (cached_entry s) in
        if ETHARP_STATE_STABLE \<le> astate c \<and> ifnum c = n \<and> dst = ipaddr c then etharp_output_to_arp_index env n q (cached_entry s) s
        else
          (case stable_scan dst n 0 (arp_table s) of
             Some i \<Rightarrow> etharp_output_to_arp_index env n q i (s\<lparr>cached_entry := i\<rparr>)
           | None \<Rightarrow> etharp_query env n dst q s))"

subsection \<open>Receiving\<close>

definition etharp_input :: "'d link_env \<Rightarrow> nat \<Rightarrow> nat option \<Rightarrow> 'd link_state \<Rightarrow> 'd link_state option" where
  "etharp_input env n p s =
     do { (_, x) \<leftarrow> pbuf_at p (mem s);
          h \<leftarrow> payload_read x 0 8;
          (if un_be16 (h ! 0) (h ! 1) \<noteq> 1 \<or> h ! 4 \<noteq> 6 \<or> h ! 5 \<noteq> 4 \<or> un_be16 (h ! 2) (h ! 3) \<noteq> ETHTYPE_IP then free_pbuf p s
           else
             do { b \<leftarrow> payload_read x 8 20;
                  let ni = ifs env n;
                  let shwaddr = take 6 b;
                  let sipaddr = un_le32 (b ! 6) (b ! 7) (b ! 8) (b ! 9);
                  let dipaddr = un_le32 (b ! 16) (b ! 17) (b ! 18) (b ! 19);
                  let opcode = un_be16 (h ! 6) (h ! 7);
                  let for_us = (ip_addr ni \<noteq> 0 \<and> dipaddr = ip_addr ni);
                  (_, s1) \<leftarrow> etharp_update_arp_entry env n sipaddr shwaddr (if for_us then ETHARP_FLAG_TRY_HARD else ETHARP_FLAG_FIND_ONLY) s;
                  s2 \<leftarrow> (if opcode = ARP_REQUEST \<and> for_us
                         then map_option snd (etharp_raw env n (hwaddr ni) shwaddr (hwaddr ni) (ip_addr ni) shwaddr sipaddr ARP_REPLY s1)
                         else Some s1);
                  free_pbuf p s2 }) }"

end
