(* ===== verification/Ip4.thy ===== *)
theory Ip4
  imports Etharp
begin

unbundle bit_operations_syntax

text \<open>
  IPv4 and the dispatch of frames (\<open>lwip/src/core/ipv4/ip4.c\<close> and \<open>ethernet_input\<close> of \<open>lwip/src/netif/ethernet.c\<close>, as configured: no
  forwarding, no IGMP, no loopback, options accepted and not parsed). What the functions call in other parts of the stack is in their result:
  the protocol a packet is for, reassembly, fragmentation, an ICMP message. No raw control block exists, so \<open>raw_input\<close> takes no
  packet. \<open>None\<close> is undefined behaviour, as in \<open>Pbuf\<close>. What \<open>ethernet_input\<close> notes in a packet for others (\<open>if_idx\<close> and the flags for broadcast
  and multicast, which nothing of the firmware reads) is left out. A delivery names the interface that accepted the packet; the code
  gives UDP the one it came in on, which is the same with the one interface of the firmware.
\<close>

definition IP_HLEN :: nat where "IP_HLEN = 20"
definition IP_FRAGMENT :: u16 where "IP_FRAGMENT = 0x1fff OR 0x2000"
definition IP_PROTO_ICMP :: u8 where "IP_PROTO_ICMP = 1"
definition IP_PROTO_TCP :: u8 where "IP_PROTO_TCP = 6"
definition DHCP_CLIENT_PORT :: u16 where "DHCP_CLIENT_PORT = 68"
definition ACCEPTED_PORT :: u16 where "ACCEPTED_PORT = 67"

text \<open>The list of interfaces and the default one.\<close>

record interfaces =
  netif_list :: "nat list"
  netif_default :: "nat option"

definition isloopback :: "u32 \<Rightarrow> bool" where "isloopback ip \<longleftrightarrow> ip AND 0xff = 0x7f"

definition routes_to :: "u32 \<Rightarrow> eth_netif \<Rightarrow> bool" where
  "routes_to dest ni \<longleftrightarrow> up ni \<and> link_up ni \<and> ip_addr ni \<noteq> 0
     \<and> (dest AND netmask ni = ip_addr ni AND netmask ni \<or> \<not> broadcast_flag ni \<and> dest = gw ni)"

definition ip4_route :: "'d link_env \<Rightarrow> interfaces \<Rightarrow> u32 \<Rightarrow> nat option" where
  "ip4_route env rt dest =
     (case find (\<lambda>n. routes_to dest (ifs env n)) (netif_list rt) of
        Some n \<Rightarrow> Some n
      | None \<Rightarrow>
          (case netif_default rt of None \<Rightarrow> None
           | Some n \<Rightarrow>
               let ni = ifs env n in
               if \<not> up ni \<or> \<not> link_up ni \<or> ip_addr ni = 0 \<or> isloopback dest then None else Some n))"

subsection \<open>Receiving\<close>

datatype ip_verdict =
  Ip_dropped
| Ip_reassemble nat u8
| Ip_deliver u8 nat nat nat u32 u32
| Ip_proto_unreachable nat

definition drop_packet :: "nat option \<Rightarrow> pmem \<Rightarrow> (ip_verdict \<times> pmem) option" where
  "drop_packet p m = do { (_, m') \<leftarrow> pbuf_free p m; Some (Ip_dropped, m') }"

definition ip4_input_accept :: "u32 \<Rightarrow> eth_netif \<Rightarrow> bool" where
  "ip4_input_accept dest ni \<longleftrightarrow> up ni \<and> ip_addr ni \<noteq> 0 \<and> (dest = ip_addr ni \<or> isbroadcast dest ni)"

text \<open>The interface a packet is for: the one it came in on, or another one that has its address.\<close>

definition ip4_netif_for :: "'d link_env \<Rightarrow> interfaces \<Rightarrow> nat \<Rightarrow> u32 \<Rightarrow> nat option" where
  "ip4_netif_for env rt inp dest =
     (if ip4_addr_ismulticast dest then (if up (ifs env inp) \<and> ip_addr (ifs env inp) \<noteq> 0 then Some inp else None)
      else if ip4_input_accept dest (ifs env inp) then Some inp
      else if isloopback dest then None
      else find (\<lambda>n. n \<noteq> inp \<and> ip4_input_accept dest (ifs env n)) (netif_list rt))"

text \<open>A DHCP message is taken whatever its address. The port is read where it stands behind the header.\<close>

definition ip4_accept_dhcp :: "nat \<Rightarrow> nat option \<Rightarrow> u8 \<Rightarrow> nat \<Rightarrow> pbuf \<Rightarrow> (nat option \<times> bool) option" where
  "ip4_accept_dhcp inp n proto hlen x =
     (if n = None \<and> proto = IP_PROTO_UDP
      then do { b \<leftarrow> payload_read x (hlen + 2) 2;
                let port = un_be16 (b ! 0) (b ! 1);
                Some (if port = DHCP_CLIENT_PORT \<or> port = ACCEPTED_PORT then (Some inp, False) else (None, True)) }
      else Some (n, True))"

definition ip4_deliver :: "'d link_env \<Rightarrow> nat \<Rightarrow> nat option \<Rightarrow> u8 \<Rightarrow> nat \<Rightarrow> u32 \<Rightarrow> u32 \<Rightarrow> pmem \<Rightarrow> (ip_verdict \<times> pmem) option" where
  "ip4_deliver env n p proto hlen src dest m =
     do { (a, _) \<leftarrow> pbuf_at p m;
          (_, m1) \<leftarrow> pbuf_remove_header p hlen m;
          (if proto = IP_PROTO_UDP \<or> proto = IP_PROTO_TCP \<or> proto = IP_PROTO_ICMP then Some (Ip_deliver proto a hlen n src dest, m1)
           else if \<not> isbroadcast dest (ifs env n) \<and> \<not> ip4_addr_ismulticast dest
           then do { (_, m2) \<leftarrow> pbuf_add_header_impl p hlen True m1; Some (Ip_proto_unreachable a, m2) }
           else drop_packet p m1) }"

text \<open>The address of the payload, for the checksum routine, is that of a block with its alignment; no checksum depends on it.\<close>

definition ip4_input :: "chksum \<Rightarrow> 'd link_env \<Rightarrow> interfaces \<Rightarrow> nat \<Rightarrow> nat option \<Rightarrow> pmem \<Rightarrow> (ip_verdict \<times> pmem) option" where
  "ip4_input chk env rt inp p m =
     do { (_, x0) \<leftarrow> pbuf_at p m;
          v \<leftarrow> payload_read x0 0 4;
          (if drop_bit 4 (v ! 0) \<noteq> 4 then drop_packet p m
           else
             do { let hlen = unat (v ! 0 AND 0x0f) * 4;
                  let len = un_be16 (v ! 2) (v ! 3);
                  m1 \<leftarrow> (if len < ptot x0 then pbuf_realloc p len m else Some m);
                  (a, x) \<leftarrow> pbuf_at p m1;
                  (if unat (plen x) < hlen \<or> ptot x < len \<or> hlen < IP_HLEN then drop_packet p m1
                   else
                     do { h \<leftarrow> payload_read x 0 hlen;
                          (if inet_chksum chk (beg x) h \<noteq> 0 then drop_packet p m1
                           else
                             do { let dest = un_le32 (h ! 16) (h ! 17) (h ! 18) (h ! 19);
                                  let src = un_le32 (h ! 12) (h ! 13) (h ! 14) (h ! 15);
                                  (n, check_src) \<leftarrow> ip4_accept_dhcp inp (ip4_netif_for env rt inp dest) (h ! 9) hlen x;
                                  (if check_src \<and> src \<noteq> 0 \<and> (isbroadcast src (ifs env inp) \<or> ip4_addr_ismulticast src) then drop_packet p m1
                                   else
                                     (case n of None \<Rightarrow> drop_packet p m1
                                      | Some k \<Rightarrow>
                                          if un_be16 (h ! 6) (h ! 7) AND IP_FRAGMENT \<noteq> 0 then Some (Ip_reassemble a (h ! 9), m1)
                                          else ip4_deliver env k p (h ! 9) hlen src dest m1)) }) }) }) }"

text \<open>\<open>None\<close> as a result: the packet has been dropped or was ARP.\<close>

definition eth_drop :: "nat option \<Rightarrow> 'd link_state \<Rightarrow> (ip_verdict option \<times> 'd link_state) option" where
  "eth_drop p s = map_option (\<lambda>s'. (None, s')) (free_pbuf p s)"

definition ethernet_input ::
  "chksum \<Rightarrow> 'd link_env \<Rightarrow> interfaces \<Rightarrow> nat \<Rightarrow> nat option \<Rightarrow> 'd link_state \<Rightarrow> (ip_verdict option \<times> 'd link_state) option" where
  "ethernet_input chk env rt inp p s =
     do { (_, x) \<leftarrow> pbuf_at p (mem s);
          (if unat (plen x) \<le> SIZEOF_ETH_HDR then eth_drop p s
           else
             do { h \<leftarrow> payload_read x 0 SIZEOF_ETH_HDR;
                  let eth_type = un_be16 (h ! 12) (h ! 13);
                  (if eth_type \<noteq> ETHTYPE_IP \<and> eth_type \<noteq> ETHTYPE_ARP \<or> \<not> flag_etharp (ifs env inp) then eth_drop p s
                   else
                     do { (r, m1) \<leftarrow> pbuf_remove_header p SIZEOF_ETH_HDR (mem s);
                          (if r \<noteq> 0 then eth_drop p (s\<lparr>mem := m1\<rparr>)
                           else if eth_type = ETHTYPE_IP
                           then do { (v, m2) \<leftarrow> ip4_input chk env rt inp p m1; Some (Some v, s\<lparr>mem := m2\<rparr>) }
                           else map_option (\<lambda>s'. (None, s')) (etharp_input env inp p (s\<lparr>mem := m1\<rparr>))) }) }) }"

subsection \<open>Sending\<close>

record 'd ip_state =
  link :: "'d link_state"
  ip_id :: u16

text \<open>The packet has gone to the interface, or to \<open>ip4_frag\<close>.\<close>

datatype ip_sent = Ip_err err | Ip_frag

text \<open>The checksum of the header is stored in network order.\<close>

definition ip_hdr :: "u8 \<Rightarrow> u16 \<Rightarrow> u16 \<Rightarrow> u8 \<Rightarrow> u8 \<Rightarrow> u16 \<Rightarrow> u32 \<Rightarrow> u32 \<Rightarrow> u8 list" where
  "ip_hdr service len ident lifetime proto chk src dest =
     [0x45, service] @ be16 len @ be16 ident @ be16 0 @ [lifetime, proto] @ le16 chk @ le32 src @ le32 dest"

text \<open>The checksum computed along with the header.\<close>

definition ip_hdr_chksum :: "u8 \<Rightarrow> u16 \<Rightarrow> u16 \<Rightarrow> u8 \<Rightarrow> u8 \<Rightarrow> u32 \<Rightarrow> u32 \<Rightarrow> u16" where
  "ip_hdr_chksum service len ident lifetime proto src dest =
     (let s1 = (ucast (lwip_htons (ucast proto OR push_bit 8 (ucast lifetime))) :: u32);
          s2 = s1 + (dest AND 0xffff) + drop_bit 16 dest;
          s3 = s2 + ucast (lwip_htons (ucast service OR push_bit 8 0x45));
          s4 = s3 + ucast (lwip_htons len) + ucast (lwip_htons ident);
          s5 = s4 + (src AND 0xffff) + drop_bit 16 src;
          s6 = drop_bit 16 s5 + (s5 AND 0xffff);
          s7 = drop_bit 16 s6 + s6 in
      ucast (NOT s7))"

definition ip4_to_netif :: "'d link_env \<Rightarrow> nat option \<Rightarrow> u32 \<Rightarrow> nat \<Rightarrow> 'd ip_state \<Rightarrow> (ip_sent \<times> 'd ip_state) option" where
  "ip4_to_netif env p dest n s =
     do { (_, x) \<leftarrow> pbuf_at p (mem (link s));
          (if mtu (ifs env n) \<noteq> 0 \<and> mtu (ifs env n) < ptot x then Some (Ip_frag, s)
           else do { (e, l) \<leftarrow> etharp_output env n p dest (link s); Some (Ip_err e, s\<lparr>link := l\<rparr>) }) }"

text \<open>Without a destination (\<open>LWIP_IP_HDRINCL\<close>) the packet has its header already.\<close>

definition ip4_output_if_src ::
  "'d link_env \<Rightarrow> nat option \<Rightarrow> u32 \<Rightarrow> u32 option \<Rightarrow> u8 \<Rightarrow> u8 \<Rightarrow> u8 \<Rightarrow> nat \<Rightarrow> 'd ip_state \<Rightarrow> (ip_sent \<times> 'd ip_state) option" where
  "ip4_output_if_src env p src dest lifetime service proto n s =
     (case dest of
        Some d \<Rightarrow>
          do { (r, m1) \<leftarrow> pbuf_add_header p IP_HLEN (mem (link s));
               (if r \<noteq> 0 then Some (Ip_err ERR_BUF, s\<lparr>link := (link s)\<lparr>mem := m1\<rparr>\<rparr>)
                else
                  do { (a, x) \<leftarrow> pbuf_at p m1;
                       let h = ip_hdr service (ptot x) (ip_id s) lifetime proto (ip_hdr_chksum service (ptot x) (ip_id s) lifetime proto src d) src d;
                       m2 \<leftarrow> payload_write a 0 h m1;
                       ip4_to_netif env p d n (s\<lparr>link := (link s)\<lparr>mem := m2\<rparr>, ip_id := ip_id s + 1\<rparr>) }) }
      | None \<Rightarrow>
          do { (_, x) \<leftarrow> pbuf_at p (mem (link s));
               (if unat (plen x) < IP_HLEN then Some (Ip_err ERR_BUF, s)
                else do { b \<leftarrow> payload_read x 16 4; ip4_to_netif env p (un_le32 (b ! 0) (b ! 1) (b ! 2) (b ! 3)) n s }) })"

definition ip4_output_if ::
  "'d link_env \<Rightarrow> nat option \<Rightarrow> u32 \<Rightarrow> u32 option \<Rightarrow> u8 \<Rightarrow> u8 \<Rightarrow> u8 \<Rightarrow> nat \<Rightarrow> 'd ip_state \<Rightarrow> (ip_sent \<times> 'd ip_state) option" where
  "ip4_output_if env p src dest lifetime service proto n s =
     ip4_output_if_src env p (if dest \<noteq> None \<and> src = 0 then ip_addr (ifs env n) else src) dest lifetime service proto n s"

definition ip4_output ::
  "'d link_env \<Rightarrow> interfaces \<Rightarrow> nat option \<Rightarrow> u32 \<Rightarrow> u32 \<Rightarrow> u8 \<Rightarrow> u8 \<Rightarrow> u8 \<Rightarrow> 'd ip_state \<Rightarrow> (ip_sent \<times> 'd ip_state) option" where
  "ip4_output env rt p src dest lifetime service proto s =
     (case ip4_route env rt dest of None \<Rightarrow> Some (Ip_err ERR_RTE, s) | Some n \<Rightarrow> ip4_output_if env p src (Some dest) lifetime service proto n s)"

end
