(* ===== verification/Icmp.thy ===== *)
theory Icmp
  imports Ip4
begin

text \<open>
  ICMP (\<open>lwip/src/core/ipv4/icmp.c\<close>): the answer to an echo request, and the messages that report an error to the sender of a packet.
  The header of the packet received (\<open>ip4_current_header\<close>) is given by its length; it lies in front of the message in the first
  buffer. \<open>None\<close> is undefined behaviour, as in \<open>Pbuf\<close>; no buffers but those of the packet and of its copy are touched.
\<close>

definition ICMP_ER :: u8 where "ICMP_ER = 0"
definition ICMP_DUR :: u8 where "ICMP_DUR = 3"
definition ICMP_ECHO :: u8 where "ICMP_ECHO = 8"
definition ICMP_TE :: u8 where "ICMP_TE = 11"
definition ICMP_DUR_PROTO :: u8 where "ICMP_DUR_PROTO = 2"
definition SIZEOF_ICMP_ECHO_HDR :: nat where "SIZEOF_ICMP_ECHO_HDR = 8"
definition ICMP_TTL :: u8 where "ICMP_TTL = 255"
definition ICMP_DEST_UNREACH_DATASIZE :: nat where "ICMP_DEST_UNREACH_DATASIZE = 8"

text \<open>The payloads of a packet with their addresses, for the checksum.\<close>

partial_function (option) pbuf_blocks :: "nat option \<Rightarrow> pmem \<Rightarrow> (nat \<times> u8 list) list option" where
  "pbuf_blocks q m =
     (case q of None \<Rightarrow> Some []
      | Some _ \<Rightarrow>
          do { (_, x) \<leftarrow> pbuf_at q m;
               bs \<leftarrow> payload_read x 0 (unat (plen x));
               r \<leftarrow> pbuf_blocks (nxt x) m;
               Some ((beg x, bs) # r) })"

text \<open>A packet is released at the end; the result says what \<open>ip4_output_if\<close> did if it was called.\<close>

definition icmp_done :: "ip_sent option \<Rightarrow> nat option \<Rightarrow> 'd ip_state \<Rightarrow> (ip_sent option \<times> 'd ip_state) option" where
  "icmp_done e p s = do { l \<leftarrow> free_pbuf p (link s); Some (e, s\<lparr>link := l\<rparr>) }"

definition icmp_free :: "nat option \<Rightarrow> 'd ip_state \<Rightarrow> (ip_sent option \<times> 'd ip_state) option" where "icmp_free p s = icmp_done None p s"

subsection \<open>Echo\<close>

text \<open>The bytes of the header in front of the message.\<close>

definition header_before :: "nat option \<Rightarrow> nat \<Rightarrow> pmem \<Rightarrow> u8 list option" where
  "header_before p hlen m =
     do { (_, x) \<leftarrow> pbuf_at p m;
          (if hlen \<le> beg x then payload_read (x\<lparr>beg := beg x - hlen\<rparr>) 0 hlen else None) }"

text \<open>Without room for the link header in front of it the packet is copied to the heap. The result is the packet to go on with, if
  there is one; the original has been released then.\<close>

definition echo_copy :: "'d link_env \<Rightarrow> nat option \<Rightarrow> nat \<Rightarrow> pmem \<Rightarrow> (nat option \<times> pmem) option" where
  "echo_copy env p hlen m =
     do { (_, x) \<leftarrow> pbuf_at p m;
          let alloc_len = ptot x + of_nat hlen;
          (if alloc_len < ptot x then Some (None, m)
           else
             do { (r, m1) \<leftarrow> pbuf_alloc (heap env m) PBUF_LINK alloc_len PBUF_RAM m;
                  (case r of None \<Rightarrow> Some (None, m1)
                   | Some a \<Rightarrow>
                       do { (_, y) \<leftarrow> pbuf_at r m1;
                            (if unat (plen y) < hlen + SIZEOF_ICMP_ECHO_HDR then do { (_, m2) \<leftarrow> pbuf_free r m1; Some (None, m2) }
                             else
                               do { h \<leftarrow> header_before p hlen m1;
                                    m2 \<leftarrow> payload_write a 0 h m1;
                                    (e, m3) \<leftarrow> pbuf_remove_header r hlen m2;
                                    (if e \<noteq> 0 then do { (_, m4) \<leftarrow> pbuf_free r m3; Some (None, m4) }
                                     else
                                       do { (e2, m4) \<leftarrow> pbuf_copy r p m3;
                                            (if e2 \<noteq> ERR_OK then do { (_, m5) \<leftarrow> pbuf_free r m4; Some (None, m5) }
                                             else do { (_, m5) \<leftarrow> pbuf_free p m4; Some (r, m5) }) }) }) }) }) }"

definition echo_room :: "'d link_env \<Rightarrow> nat option \<Rightarrow> nat \<Rightarrow> pmem \<Rightarrow> (nat option \<times> pmem) option" where
  "echo_room env p hlen m =
     do { (r, m1) \<leftarrow> pbuf_add_header p (hlen + SIZEOF_ETH_HDR) m;
          (if r \<noteq> 0 then echo_copy env p hlen m1
           else
             do { (r2, m2) \<leftarrow> pbuf_remove_header p (hlen + SIZEOF_ETH_HDR) m1;
                  Some (if r2 \<noteq> 0 then None else p, m2) }) }"

text \<open>The checksum of the message is adjusted to the type, in the order of the network with the carry added back.\<close>

definition echo_chksum :: "u16 \<Rightarrow> u16" where
  "echo_chksum c = (if lwip_htons (0xffff - push_bit 8 (ucast ICMP_ECHO)) < c then c + lwip_htons (push_bit 8 (ucast ICMP_ECHO)) + 1
     else c + lwip_htons (push_bit 8 (ucast ICMP_ECHO)))"

text \<open>The request becomes the reply in place.\<close>

definition echo_write :: "chksum \<Rightarrow> nat \<Rightarrow> nat \<Rightarrow> u32 \<Rightarrow> u32 \<Rightarrow> pmem \<Rightarrow> pmem option" where
  "echo_write chk a hlen src dest m =
     do { m1 \<leftarrow> payload_write a 12 (le32 src) m;
          m2 \<leftarrow> payload_write a 16 (le32 dest) m1;
          m3 \<leftarrow> payload_write a hlen [ICMP_ER] m2;
          x \<leftarrow> store m3 a;
          c \<leftarrow> payload_read x (hlen + 2) 2;
          m4 \<leftarrow> payload_write a (hlen + 2) (le16 (echo_chksum (un_le16 (c ! 0) (c ! 1)))) m3;
          m5 \<leftarrow> payload_write a 8 [ICMP_TTL] m4;
          m6 \<leftarrow> payload_write a 10 [0, 0] m5;
          y \<leftarrow> store m6 a;
          h \<leftarrow> payload_read y 0 hlen;
          payload_write a 10 (le16 (inet_chksum chk (beg y) h)) m6 }"

definition echo_reply :: "chksum \<Rightarrow> 'd link_env \<Rightarrow> nat \<Rightarrow> nat option \<Rightarrow> nat \<Rightarrow> u32 \<Rightarrow> u32 \<Rightarrow> 'd ip_state \<Rightarrow> (ip_sent option \<times> 'd ip_state) option" where
  "echo_reply chk env inp p hlen src dest s =
     do { (r, m1) \<leftarrow> pbuf_add_header p hlen (mem (link s));
          (e, s1) \<leftarrow> (if r \<noteq> 0 then Some (None, s\<lparr>link := (link s)\<lparr>mem := m1\<rparr>\<rparr>)
                 else
                   do { (a, _) \<leftarrow> pbuf_at p m1;
                        m2 \<leftarrow> echo_write chk a hlen src dest m1;
                        (e, s2) \<leftarrow> ip4_output_if env p src None ICMP_TTL 0 IP_PROTO_ICMP inp (s\<lparr>link := (link s)\<lparr>mem := m2\<rparr>\<rparr>);
                        Some (Some e, s2) });
          icmp_done e p s1 }"

text \<open>\<open>k\<close> is the interface the packet is for, \<open>inp\<close> the one it came in on, \<open>src\<close> and \<open>dest\<close> its addresses.\<close>

definition icmp_input ::
  "chksum \<Rightarrow> 'd link_env \<Rightarrow> nat \<Rightarrow> nat \<Rightarrow> nat option \<Rightarrow> nat \<Rightarrow> u32 \<Rightarrow> u32 \<Rightarrow> 'd ip_state \<Rightarrow> (ip_sent option \<times> 'd ip_state) option" where
  "icmp_input chk env inp k p hlen src dest s =
     do { (_, x) \<leftarrow> pbuf_at p (mem (link s));
          (if hlen < IP_HLEN \<or> unat (plen x) < 4 then icmp_free p s
           else
             do { t \<leftarrow> payload_read x 0 1;
                  (if t ! 0 \<noteq> ICMP_ECHO \<or> ip4_addr_ismulticast dest \<or> isbroadcast dest (ifs env k) \<or> unat (ptot x) < SIZEOF_ICMP_ECHO_HDR then icmp_free p s
                   else
                     do { bs \<leftarrow> pbuf_blocks p (mem (link s));
                          (if inet_chksum_pbuf chk bs \<noteq> 0 then icmp_free p s
                           else
                             do { (q, m) \<leftarrow> echo_room env p hlen (mem (link s));
                                  let s1 = s\<lparr>link := (link s)\<lparr>mem := m\<rparr>\<rparr>;
                                  (case q of None \<Rightarrow> icmp_free p s1
                                   | Some _ \<Rightarrow> echo_reply chk env inp q hlen dest src s1) }) }) }) }"

subsection \<open>Reports\<close>

text \<open>The header and the first eight bytes of the packet are read where its first buffer begins.\<close>

definition icmp_send_response :: "chksum \<Rightarrow> 'd link_env \<Rightarrow> interfaces \<Rightarrow> nat option \<Rightarrow> u8 \<Rightarrow> u8 \<Rightarrow> 'd ip_state \<Rightarrow> (ip_sent option \<times> 'd ip_state) option" where
  "icmp_send_response chk env rt p type code s =
     do { (_, x) \<leftarrow> pbuf_at p (mem (link s));
          let len = min (IP_HLEN + ICMP_DEST_UNREACH_DATASIZE) (unat (ptot x));
          (q, m) \<leftarrow> pbuf_alloc (heap env (mem (link s))) PBUF_IP (of_nat (SIZEOF_ICMP_ECHO_HDR + len)) PBUF_RAM (mem (link s));
          (case q of None \<Rightarrow> Some (None, s\<lparr>link := (link s)\<lparr>mem := m\<rparr>\<rparr>)
           | Some b \<Rightarrow>
               do { m1 \<leftarrow> payload_write b 0 [type, code] m;
                    m2 \<leftarrow> payload_write b 4 [0, 0, 0, 0] m1;
                    (_, x) \<leftarrow> pbuf_at p m2;
                    d \<leftarrow> payload_read x 0 len;
                    m3 \<leftarrow> payload_write b SIZEOF_ICMP_ECHO_HDR d m2;
                    f \<leftarrow> payload_read x 12 4;
                    let src = un_le32 (f ! 0) (f ! 1) (f ! 2) (f ! 3);
                    (e, s1) \<leftarrow> (case ip4_route env rt src of None \<Rightarrow> Some (None, s\<lparr>link := (link s)\<lparr>mem := m3\<rparr>\<rparr>)
                      | Some n \<Rightarrow>
                          do { m4 \<leftarrow> payload_write b 2 [0, 0] m3;
                               y \<leftarrow> store m4 b;
                               c \<leftarrow> payload_read y 0 (unat (plen y));
                               m5 \<leftarrow> payload_write b 2 (le16 (inet_chksum chk (beg y) c)) m4;
                               (e, s2) \<leftarrow> ip4_output_if env q 0 (Some src) ICMP_TTL 0 IP_PROTO_ICMP n (s\<lparr>link := (link s)\<lparr>mem := m5\<rparr>\<rparr>);
                               Some (Some e, s2) });
                    icmp_done e q s1 }) }"

definition icmp_dest_unreach :: "chksum \<Rightarrow> 'd link_env \<Rightarrow> interfaces \<Rightarrow> nat option \<Rightarrow> u8 \<Rightarrow> 'd ip_state \<Rightarrow> (ip_sent option \<times> 'd ip_state) option" where
  "icmp_dest_unreach chk env rt p t s = icmp_send_response chk env rt p ICMP_DUR t s"

definition icmp_time_exceeded :: "chksum \<Rightarrow> 'd link_env \<Rightarrow> interfaces \<Rightarrow> nat option \<Rightarrow> u8 \<Rightarrow> 'd ip_state \<Rightarrow> (ip_sent option \<times> 'd ip_state) option" where
  "icmp_time_exceeded chk env rt p t s = icmp_send_response chk env rt p ICMP_TE t s"

text \<open>What \<open>ip4_input\<close> goes on with where it has called ICMP: the message is taken; a packet of an unknown protocol is reported and
  released. The rest is left to the upper layers.\<close>

definition icmp_upcall ::
  "chksum \<Rightarrow> 'd link_env \<Rightarrow> interfaces \<Rightarrow> nat \<Rightarrow> ip_verdict \<Rightarrow> 'd ip_state \<Rightarrow> (ip_verdict option \<times> ip_sent option \<times> 'd ip_state) option" where
  "icmp_upcall chk env rt inp v s =
     (case v of
        Ip_deliver proto a hlen k src dest \<Rightarrow>
          if proto = IP_PROTO_ICMP then do { (e, s1) \<leftarrow> icmp_input chk env inp k (Some a) hlen src dest s; Some (None, e, s1) } else Some (Some v, None, s)
      | Ip_proto_unreachable a \<Rightarrow>
          do { (e, s1) \<leftarrow> icmp_dest_unreach chk env rt (Some a) ICMP_DUR_PROTO s;
               (_, s2) \<leftarrow> icmp_free (Some a) s1;
               Some (None, e, s2) }
      | Ip_dropped \<Rightarrow> Some (None, None, s)
      | Ip_reassemble _ _ \<Rightarrow> Some (Some v, None, s))"

definition ethernet_round ::
  "chksum \<Rightarrow> 'd link_env \<Rightarrow> interfaces \<Rightarrow> nat \<Rightarrow> nat option \<Rightarrow> 'd ip_state \<Rightarrow> (ip_verdict option \<times> ip_sent option \<times> 'd ip_state) option" where
  "ethernet_round chk env rt inp p s =
     do { (v, l) \<leftarrow> ethernet_input chk env rt inp p (link s);
          (case v of None \<Rightarrow> Some (None, None, s\<lparr>link := l\<rparr>) | Some w \<Rightarrow> icmp_upcall chk env rt inp w (s\<lparr>link := l\<rparr>)) }"

end
