(* ===== verification/EtharpRun.thy ===== *)
theory EtharpRun
  imports Etharp
begin

text \<open>
  ARP with the packet buffers it holds: what each operation does to the table, to the heap and to the frames handed to the driver,
  the invariant of the module, and the resolution of an address.
\<close>

subsection \<open>The environment\<close>

text \<open>The heap gives blocks that are not in use and of the size asked for.\<close>

definition heap_ok :: "'d link_env \<Rightarrow> bool" where
  "heap_ok env \<longleftrightarrow> (\<forall>m k a b. heap env m k = Some (a, b) \<longrightarrow> store m a = None \<and> length b + SIZEOF_STRUCT_PBUF = k)"

lemma heap_ok_block: "heap_ok env \<Longrightarrow> heap env m k = Some (a, b) \<Longrightarrow> store m a = None \<and> length b + SIZEOF_STRUCT_PBUF = k"
  by (auto simp: heap_ok_def)

text \<open>The driver sends a frame that is not too long, as long as the device is in order (\<open>dev_ok\<close>); \<open>wire\<close> is what has been sent.\<close>

definition link_ok :: "'d link_env \<Rightarrow> ('d \<Rightarrow> bool) \<Rightarrow> ('d \<Rightarrow> u8 list list) \<Rightarrow> bool" where
  "link_ok env dev_ok wire \<longleftrightarrow>
     (\<forall>n m p as d. packet m (Some p) as \<and> length (chain_bytes m as) \<le> 1514 \<and> dev_ok d \<longrightarrow>
       (\<exists>d'. linkoutput env n m (Some p) d = Some (ERR_OK, d') \<and> dev_ok d' \<and> wire d' = wire d @ [chain_bytes m as]))"

definition env_ok :: "'d link_env \<Rightarrow> ('d \<Rightarrow> bool) \<Rightarrow> ('d \<Rightarrow> u8 list list) \<Rightarrow> bool" where
  "env_ok env dev_ok wire \<longleftrightarrow> heap_ok env \<and> link_ok env dev_ok wire \<and> (\<forall>n. length (hwaddr (ifs env n)) = 6)"

lemma env_hwaddr: "env_ok env dev_ok wire \<Longrightarrow> length (hwaddr (ifs env n)) = 6"
  by (simp add: env_ok_def)

subsection \<open>Frames\<close>

text \<open>Room for the Ethernet header in front of the packet.\<close>

definition linkable :: "pmem \<Rightarrow> nat \<Rightarrow> bool" where
  "linkable m p \<longleftrightarrow> contiguous (ptype (the (store m p))) \<and> SIZEOF_ETH_HDR \<le> beg (the (store m p))"

text \<open>A buffer with the same place in its packet and the same owners.\<close>

definition same_links :: "pbuf \<Rightarrow> pbuf \<Rightarrow> bool" where
  "same_links x y \<longleftrightarrow> nxt y = nxt x \<and> ptype y = ptype x \<and> pref y = pref x \<and> length (blk y) = length (blk x)"

lemma length_eth_hdr [simp]: "length dst = 6 \<Longrightarrow> length src = 6 \<Longrightarrow> length (eth_hdr dst src t) = SIZEOF_ETH_HDR"
  by (simp add: eth_hdr_def SIZEOF_ETH_HDR_def be16_def)

text \<open>An Ethernet frame is sent, or the packet has no room for the header and stays as it is.\<close>

lemma ethernet_output_run:
  assumes "env_ok env dev_ok wire" "dev_ok (dev s)" "packet (mem s) (Some p) as" "length (chain_bytes (mem s) as) \<le> 1500"
    and "length dst = 6" "length src = 6" "store (mem s) p = Some x"
  shows "if linkable (mem s) p
    then \<exists>y d. ethernet_output env n (Some p) src dst t s = Some (ERR_OK, s\<lparr>mem := set_pbuf p y (mem s), dev := d\<rparr>) \<and> dev_ok d \<and> same_links x y
      \<and> packet (set_pbuf p y (mem s)) (Some p) as \<and> wire d = wire (dev s) @ [eth_hdr dst src t @ chain_bytes (mem s) as]
    else ethernet_output env n (Some p) src dst t s = Some (ERR_BUF, s)"
proof -
  obtain bs where as: "as = p # bs" using assms(3) by (cases as) (auto simp: packet_def)
  let ?h = "eth_hdr dst src t"
  show ?thesis
  proof (cases "linkable (mem s) p")
    case True
    then have l: "contiguous (ptype x)" "length ?h \<le> beg x" using assms(5-7) by (simp_all add: linkable_def)
    have h: "?h \<noteq> []" "length ?h = 14" using assms(5,6) by (simp_all add: eth_hdr_def be16_def)
    obtain m1 y m' where m': "pbuf_add_header (Some p) (length ?h) (mem s) = Some (0, m1)" "store m1 p \<noteq> None" "payload_write p 0 ?h m1 = Some m'"
        "m' = set_pbuf p y (mem s)" "nxt y = nxt x" "ptype y = ptype x" "pref y = pref x" "length (blk y) = length (blk x)"
        "packet m' (Some p) as" "chain_bytes m' as = ?h @ chain_bytes (mem s) as"
      using prepend_header [OF assms(3) [unfolded as] assms(7) l h(1)] assms(4) h(2) unfolding as by auto
    have "length (chain_bytes m' as) \<le> 1514" using m'(10) h(2) assms(4) by simp
    then obtain d where d: "linkoutput env n m' (Some p) (dev s) = Some (ERR_OK, d)" "dev_ok d" "wire d = wire (dev s) @ [chain_bytes m' as]"
      using assms(1,2) m'(9) unfolding env_ok_def link_ok_def by blast
    have "ethernet_output env n (Some p) src dst t s = Some (ERR_OK, s\<lparr>mem := m', dev := d\<rparr>)"
      using m'(1-3) d(1) assms(5,6) by (auto simp: ethernet_output_def)
    then show ?thesis using True d(2,3) m'(4-10) by (auto simp: same_links_def)
  next
    case False
    have tot: "unat (ptot x) = length (chain_bytes (mem s) as)" using packet_total [OF assms(3)] assms(7) by auto
    have "\<not> 14 + ptot x < (14 :: u16)" using tot assms(4) by (simp add: word_less_nat_alt unat_word_ariths)
    then have "pbuf_add_header (Some p) SIZEOF_ETH_HDR (mem s) = Some (1, mem s)"
      using False assms(7) by (auto simp: pbuf_add_header_def pbuf_add_header_impl_def linkable_def SIZEOF_ETH_HDR_def Let_def)
    then show ?thesis using False by (simp add: ethernet_output_def)
  qed
qed

text \<open>An ARP packet is built in a buffer of its own, sent and the buffer released: only the device notices.\<close>

lemma etharp_raw_run:
  assumes "env_ok env dev_ok wire" "dev_ok (dev s)"
    and "length ethsrc = 6" "length ethdst = 6" "length hwsrc = 6" "length hwdst = 6"
  shows "(etharp_raw env n ethsrc ethdst hwsrc ipsrc hwdst ipdst opcode s = Some (ERR_MEM, s) \<and> heap env (mem s) 60 = None)
    \<or> (\<exists>d. etharp_raw env n ethsrc ethdst hwsrc ipsrc hwdst ipdst opcode s = Some (ERR_OK, s\<lparr>dev := d\<rparr>) \<and> dev_ok d \<and> heap env (mem s) 60 \<noteq> None
      \<and> wire d = wire (dev s) @ [eth_hdr ethdst ethsrc ETHTYPE_ARP @ etharp_hdr opcode hwsrc ipsrc hwdst ipdst])"
proof -
  let ?m = "mem s" and ?h = "etharp_hdr opcode hwsrc ipsrc hwdst ipdst"
  have size: "ram_size PBUF_LINK SIZEOF_ETHARP_HDR = 44" "SIZEOF_STRUCT_PBUF = 16" "PBUF_LINK \<le> PBUF_TRANSPORT" "MEM_ALIGN_SIZE PBUF_LINK = 16"
    by (simp_all add: ram_size_def MEM_ALIGN_SIZE_def PBUF_LINK_def SIZEOF_ETHARP_HDR_def SIZEOF_STRUCT_PBUF_def PBUF_TRANSPORT_def)
  have ram: "pbuf_alloc (heap env ?m) PBUF_LINK SIZEOF_ETHARP_HDR PBUF_RAM ?m = Some (case heap env ?m 60 of None \<Rightarrow> (None, ?m)
      | Some (a, b) \<Rightarrow> (Some a, set_pbuf a (pbuf_init_alloced_pbuf b 16 28 28 PBUF_RAM) ?m))"
    by (cases "heap env ?m 60") (auto simp: pbuf_alloc_def alloc_ram [OF size(3)] size(1,2,4), simp add: SIZEOF_ETHARP_HDR_def)
  show ?thesis
  proof (cases "heap env ?m 60")
    case None
    then show ?thesis using ram by (simp add: etharp_raw_def)
  next
    case (Some ab)
    then obtain a b where ab: "heap env ?m 60 = Some (a, b)" by (cases ab) auto
    have fresh: "store ?m a = None" "length b = 44" using heap_ok_block [OF _ ab] assms(1) size(2) by (auto simp: env_ok_def)
    define x where "x = pbuf_init_alloced_pbuf b 16 28 28 PBUF_RAM"
    have x: "beg x = 16" "plen x = 28" "ptot x = 28" "nxt x = None" "ptype x = PBUF_RAM" "pref x = 1" "blk x = b"
      by (simp_all add: x_def pbuf_init_alloced_pbuf_def)
    let ?m1 = "set_pbuf a x ?m"
    have alloc: "pbuf_alloc (heap env ?m) PBUF_LINK SIZEOF_ETHARP_HDR PBUF_RAM ?m = Some (Some a, ?m1)"
      using ram ab by (simp add: x_def)
    have h: "length ?h = 28" using assms(5,6) by (simp add: etharp_hdr_def be16_def le32_def)
    have m1: "store ?m1 a = Some x" "beg x + unat (plen x) \<le> length (blk x)" "0 + length ?h \<le> unat (plen x)" using x fresh(2) h by simp_all
    obtain m2 where m2: "payload_write a 0 ?h ?m1 = Some m2" "reblk {a} ?m1 m2" "buf_bytes (the (store m2 a)) = blit (buf_bytes x) 0 ?h"
      using payload_write_bytes [OF m1] by blast
    obtain c where c: "store m2 a = Some (x\<lparr>blk := c\<rparr>)" "length c = length (blk x)" by (rule reblk_at [OF m2(2) m1(1)])
    have m2_eq: "m2 = set_pbuf a (x\<lparr>blk := c\<rparr>) ?m" using m2(2) c(1) by (intro pmem.equality ext) (auto simp: reblk_def)
    have "length (buf_bytes x) = 28" using length_buf_bytes [OF m1(2)] x(2) by simp
    then have bytes: "chain_bytes m2 [a] = ?h" using m2(3) h by (simp add: blit_def)
    have pk: "packet m2 (Some a) [a]"
    proof -
      have "length (buf_bytes (x\<lparr>blk := c\<rparr>)) = 28" using c m1(2) x by (subst length_buf_bytes) simp_all
      then show ?thesis using c m1(2) x by (simp add: packet_def)
    qed
    have link: "linkable m2 a" using c(1) x by (simp add: linkable_def contiguous_def SIZEOF_ETH_HDR_def)
    have le: "length (chain_bytes m2 [a]) \<le> 1500" using bytes h by simp
    obtain y d where y: "ethernet_output env n (Some a) ethsrc ethdst ETHTYPE_ARP (s\<lparr>mem := m2\<rparr>) = Some (ERR_OK, s\<lparr>mem := set_pbuf a y m2, dev := d\<rparr>)"
        "dev_ok d" "same_links (x\<lparr>blk := c\<rparr>) y" "wire d = wire (dev s) @ [eth_hdr ethdst ethsrc ETHTYPE_ARP @ ?h]"
      using ethernet_output_run [OF assms(1), of "s\<lparr>mem := m2\<rparr>" a "[a]" ethdst ethsrc "x\<lparr>blk := c\<rparr>" n ETHTYPE_ARP] assms(2-4) pk le c(1) link bytes
      by auto
    have "pref y = 1" "nxt y = None" "ptype y = PBUF_RAM" using y(3) x by (simp_all add: same_links_def)
    then have "pbuf_free (Some a) (set_pbuf a y m2) = Some (1, release a y (set_pbuf a y m2))"
      unfolding pbuf_free_def by (subst pbuf_free_loop.simps) (simp add: pbuf_free_loop.simps [of None])
    moreover have "release a y (set_pbuf a y m2) = ?m"
      using fresh(1) m2_eq \<open>ptype y = PBUF_RAM\<close> by (intro pmem.equality ext) (simp_all add: release_def Let_def)
    ultimately have "etharp_raw env n ethsrc ethdst hwsrc ipsrc hwdst ipdst opcode s = Some (ERR_OK, s\<lparr>dev := d\<rparr>)"
      using alloc m2(1) y(1) by (simp add: etharp_raw_def free_pbuf_def)
    then show ?thesis using y(2,4) Some by blast
  qed
qed

subsection \<open>The table\<close>

text \<open>A packet waits only on a pending entry, a resolved entry has an address, and no entry gets older than it may. No two entries in use
  are for the same address.\<close>

definition wf_entry :: "etharp_entry \<Rightarrow> bool" where
  "wf_entry e \<longleftrightarrow> (astate e \<noteq> ETHARP_STATE_PENDING \<longrightarrow> queued e = None) \<and> (ETHARP_STATE_STABLE \<le> astate e \<longrightarrow> length (ethaddr e) = 6)
     \<and> (astate e \<noteq> ETHARP_STATE_EMPTY \<longrightarrow> ctime e < ARP_MAXAGE) \<and> (astate e = ETHARP_STATE_PENDING \<longrightarrow> ctime e < ARP_MAXPENDING)"

definition is_for :: "u32 \<Rightarrow> nat \<Rightarrow> etharp_entry \<Rightarrow> bool" where
  "is_for ip n e \<longleftrightarrow> astate e \<noteq> ETHARP_STATE_EMPTY \<and> ipaddr e = ip \<and> ifnum e = n"

definition wf_table :: "etharp_entry list \<Rightarrow> bool" where
  "wf_table t \<longleftrightarrow> length t = ARP_TABLE_SIZE \<and> (\<forall>e \<in> set t. wf_entry e)
     \<and> (\<forall>i < ARP_TABLE_SIZE. \<forall>j < ARP_TABLE_SIZE. \<forall>ip n. is_for ip n (t ! i) \<and> is_for ip n (t ! j) \<longrightarrow> i = j)"

lemma state_cases:
  "astate e = ETHARP_STATE_EMPTY \<or> astate e = ETHARP_STATE_PENDING \<or> ETHARP_STATE_STABLE \<le> astate e"
  by (cases "astate e") (simp_all add: less_eq_etharp_state_def)

lemma stable_states [simp]:
  "ETHARP_STATE_STABLE \<le> ETHARP_STATE_STABLE" "\<not> ETHARP_STATE_STABLE \<le> ETHARP_STATE_EMPTY" "\<not> ETHARP_STATE_STABLE \<le> ETHARP_STATE_PENDING"
  "ETHARP_STATE_STABLE \<le> ETHARP_STATE_STABLE_REREQUESTING_1" "ETHARP_STATE_STABLE \<le> ETHARP_STATE_STABLE_REREQUESTING_2"
  by (simp_all add: less_eq_etharp_state_def)

lemma wf_entry_at: "wf_table t \<Longrightarrow> i < ARP_TABLE_SIZE \<Longrightarrow> wf_entry (t ! i)"
  by (simp add: wf_table_def)

lemma wf_table_unique:
  "wf_table t \<Longrightarrow> j < ARP_TABLE_SIZE \<Longrightarrow> k < ARP_TABLE_SIZE \<Longrightarrow> is_for ip n (t ! j) \<Longrightarrow> is_for ip n (t ! k) \<Longrightarrow> j = k"
  unfolding wf_table_def by blast

text \<open>An entry changed: it may become one in use for an address no other entry is for.\<close>

lemma wf_table_update:
  assumes "wf_table t" "wf_entry e" "\<And>j ip n. j < ARP_TABLE_SIZE \<Longrightarrow> is_for ip n e \<Longrightarrow> is_for ip n (t ! j) \<Longrightarrow> j = i"
  shows "wf_table (t[i := e])"
proof -
  have "\<forall>e' \<in> set (t[i := e]). wf_entry e'" using assms(1,2) set_update_subset_insert [of t i e] by (auto simp: wf_table_def)
  moreover have len: "length t = ARP_TABLE_SIZE" using assms(1) by (simp add: wf_table_def)
  moreover have "j = k" if h: "j < ARP_TABLE_SIZE" "k < ARP_TABLE_SIZE" "is_for ip n (t[i := e] ! j)" "is_for ip n (t[i := e] ! k)" for j k ip n
  proof -
    have new: "l = i \<and> is_for ip n e \<or> l \<noteq> i \<and> is_for ip n (t ! l)" if "l < ARP_TABLE_SIZE" "is_for ip n (t[i := e] ! l)" for l
      using that len by (cases "l = i") auto
    show ?thesis using new [OF h(1,3)] new [OF h(2,4)] h(1,2) assms(3) [of j ip n] assms(3) [of k ip n] wf_table_unique [OF assms(1) h(1,2)] by blast
  qed
  ultimately show ?thesis unfolding wf_table_def length_list_update by blast
qed

text \<open>An entry changed that is for the address it was for, or for none.\<close>

lemma wf_table_same:
  assumes "wf_table t" "i < ARP_TABLE_SIZE" "wf_entry e" "\<And>ip n. is_for ip n e \<Longrightarrow> is_for ip n (t ! i)"
  shows "wf_table (t[i := e])"
  using assms(1,3)
proof (rule wf_table_update)
  fix j ip n
  assume "j < ARP_TABLE_SIZE" "is_for ip n e" "is_for ip n (t ! j)"
  then show "j = i" using wf_table_unique [OF assms(1) _ assms(2)] assms(4) [of ip n] by blast
qed

lemma find_scan_found: "find_scan (Some ip) n k t c = Inl i \<Longrightarrow> k \<le> i \<and> i < k + length t \<and> is_for ip n (t ! (i - k))"
proof (induction t arbitrary: k c)
  case (Cons e es)
  show ?case
  proof (cases "astate e \<noteq> ETHARP_STATE_EMPTY \<and> ip = ipaddr e \<and> n = ifnum e")
    case True
    then show ?thesis using Cons.prems by (auto simp: is_for_def split: if_splits)
  next
    case False
    then obtain c' where "find_scan (Some ip) n (k + 1) es c' = Inl i" using Cons.prems by (auto split: if_splits)
    from Cons.IH [OF this] show ?thesis by (auto simp: Suc_diff_Suc nth_Cons')
  qed
qed simp

text \<open>The candidates point into the table, an empty one to an empty entry; a table in use throughout has one to recycle.\<close>

definition candidates_ok :: "(nat \<Rightarrow> etharp_entry) \<Rightarrow> nat \<Rightarrow> candidates \<Rightarrow> bool" where
  "candidates_ok f k c \<longleftrightarrow> (\<forall>i. c_empty c = Some i \<longrightarrow> i < k \<and> astate (f i) = ETHARP_STATE_EMPTY) \<and> (\<forall>i. c_stable c = Some i \<longrightarrow> i < k)
     \<and> (\<forall>i. c_pending c = Some i \<longrightarrow> i < k) \<and> (\<forall>i. c_queue c = Some i \<longrightarrow> i < k)
     \<and> (0 < k \<longrightarrow> c_empty c \<noteq> None \<or> c_stable c \<noteq> None \<or> c_pending c \<noteq> None \<or> c_queue c \<noteq> None)
     \<and> (c_stable c = None \<longrightarrow> age_stable c = 0) \<and> (c_pending c = None \<longrightarrow> age_pending c = 0) \<and> (c_queue c = None \<longrightarrow> age_queue c = 0)"

lemma candidate_ok:
  assumes "candidates_ok f k c" "astate (f k) \<noteq> ETHARP_STATE_EMPTY"
  shows "candidates_ok f (Suc k) (candidate k (f k) c)"
proof -
  have c: "c_empty c = Some i \<Longrightarrow> i < Suc k \<and> astate (f i) = ETHARP_STATE_EMPTY" "c_stable c = Some i \<Longrightarrow> i < Suc k"
      "c_pending c = Some i \<Longrightarrow> i < Suc k" "c_queue c = Some i \<Longrightarrow> i < Suc k" for i
    using assms(1) less_SucI unfolding candidates_ok_def by blast+
  have a: "c_stable c = None \<Longrightarrow> age_stable c = 0" "c_pending c = None \<Longrightarrow> age_pending c = 0" "c_queue c = None \<Longrightarrow> age_queue c = 0"
    using assms(1) unfolding candidates_ok_def by blast+
  consider "astate (f k) = ETHARP_STATE_PENDING" "queued (f k) = None" | "astate (f k) = ETHARP_STATE_PENDING" "queued (f k) \<noteq> None"
    | "astate (f k) \<noteq> ETHARP_STATE_PENDING" "ETHARP_STATE_STABLE \<le> astate (f k)"
    using assms(2) state_cases [of "f k"] by auto
  then show ?thesis
  proof cases
    case 1
    then show ?thesis using c a by (cases "age_pending c \<le> ctime (f k)") (auto simp: candidates_ok_def candidate_def)
  next
    case 2
    then show ?thesis using c a by (cases "age_queue c \<le> ctime (f k)") (auto simp: candidates_ok_def candidate_def)
  next
    case 3
    then show ?thesis using c a by (cases "age_stable c \<le> ctime (f k)") (auto simp: candidates_ok_def candidate_def)
  qed
qed

lemma find_scan_none:
  assumes "find_scan (Some ip) n k t c = Inr c'" "candidates_ok f k c" "\<forall>i < length t. t ! i = f (k + i)"
  shows "candidates_ok f (k + length t) c' \<and> (\<forall>e \<in> set t. \<not> is_for ip n e)"
  using assms
proof (induction t arbitrary: k c)
  case (Cons e es)
  have e: "e = f k" using Cons.prems(3) by force
  have rest: "\<forall>i < length es. es ! i = f (k + 1 + i)"
  proof (intro allI impI)
    fix i
    assume "i < length es"
    then show "es ! i = f (k + 1 + i)" using Cons.prems(3) [rule_format, of "Suc i"] by simp
  qed
  have skip: "candidates_ok f (k + 1) c" if "c_empty c \<noteq> None" using Cons.prems(2) that by (auto simp: candidates_ok_def less_Suc_eq)
  have new: "candidates_ok f (k + 1) (c\<lparr>c_empty := Some k\<rparr>)" if "astate e = ETHARP_STATE_EMPTY"
    using Cons.prems(2) that e by (auto simp: candidates_ok_def less_Suc_eq)
  have cand: "candidates_ok f (k + 1) (candidate k e c)" if "astate e \<noteq> ETHARP_STATE_EMPTY" using candidate_ok [OF Cons.prems(2)] that e by simp
  have "\<exists>c''. find_scan (Some ip) n (k + 1) es c'' = Inr c' \<and> candidates_ok f (k + 1) c'' \<and> \<not> is_for ip n e"
    using Cons.prems(1) skip new cand by (auto simp: is_for_def split: if_splits)
  then obtain c'' where "find_scan (Some ip) n (k + 1) es c'' = Inr c'" "candidates_ok f (k + 1) c''" "\<not> is_for ip n e" by blast
  then show ?case using Cons.IH [OF _ _ rest] by auto
qed simp

subsection \<open>The packets that wait\<close>

text \<open>\<open>as\<close> are the buffers of a packet that waits, owned by the table alone.\<close>

definition waits :: "pmem \<Rightarrow> nat option \<Rightarrow> nat list \<Rightarrow> bool" where
  "waits m q as \<longleftrightarrow> (case q of None \<Rightarrow> as = [] | Some p \<Rightarrow> packet m (Some p) as \<and> sole m as \<and> length (chain_bytes m as) \<le> 1500)"

text \<open>The heap holds the buffers of the packets that wait (\<open>ch i\<close> those of entry \<open>i\<close>) and those of everybody else (\<open>F\<close>), and no others.\<close>

definition heap_inv :: "nat set \<Rightarrow> (nat \<Rightarrow> nat list) \<Rightarrow> pmem \<Rightarrow> etharp_entry list \<Rightarrow> bool" where
  "heap_inv F ch m t \<longleftrightarrow>
     (\<forall>i < ARP_TABLE_SIZE. waits m (queued (t ! i)) (ch i) \<and> set (ch i) \<inter> F = {})
     \<and> (\<forall>i < ARP_TABLE_SIZE. \<forall>j < ARP_TABLE_SIZE. i \<noteq> j \<longrightarrow> set (ch i) \<inter> set (ch j) = {})
     \<and> (\<forall>a. store m a \<noteq> None \<longleftrightarrow> a \<in> F \<or> (\<exists>i < ARP_TABLE_SIZE. a \<in> set (ch i)))"

definition arp_inv :: "nat set \<Rightarrow> (nat \<Rightarrow> nat list) \<Rightarrow> 'd link_state \<Rightarrow> bool" where
  "arp_inv F ch s \<longleftrightarrow> wf_table (arp_table s) \<and> cached_entry s < ARP_TABLE_SIZE \<and> heap_inv F ch (mem s) (arp_table s)"

lemma sole_cong: "(\<And>a. a \<in> set as \<Longrightarrow> store m a = store m' a) \<Longrightarrow> sole m as = sole m' as"
  by (simp add: sole_def)

lemma waits_cong:
  assumes "\<And>a. a \<in> set as \<Longrightarrow> store m a = store m' a"
  shows "waits m q as = waits m' q as"
proof -
  have "packet m p as = packet m' p as" for p using assms by (rule packet_cong)
  moreover have "sole m as = sole m' as" "chain_bytes m as = chain_bytes m' as" using assms by (auto intro!: sole_cong chain_bytes_cong)
  ultimately show ?thesis by (simp add: waits_def split: option.split)
qed

lemma heap_invD:
  assumes "heap_inv F ch m t"
  shows "i < ARP_TABLE_SIZE \<Longrightarrow> waits m (queued (t ! i)) (ch i)" "i < ARP_TABLE_SIZE \<Longrightarrow> a \<in> set (ch i) \<Longrightarrow> a \<notin> F"
    "i < ARP_TABLE_SIZE \<Longrightarrow> j < ARP_TABLE_SIZE \<Longrightarrow> a \<in> set (ch i) \<Longrightarrow> a \<in> set (ch j) \<Longrightarrow> i = j"
    "store m a \<noteq> None \<longleftrightarrow> a \<in> F \<or> (\<exists>i < ARP_TABLE_SIZE. a \<in> set (ch i))"
  using assms unfolding heap_inv_def by blast+

lemma heap_invI:
  assumes "\<And>i. i < ARP_TABLE_SIZE \<Longrightarrow> waits m (queued (t ! i)) (ch i)" "\<And>i a. i < ARP_TABLE_SIZE \<Longrightarrow> a \<in> set (ch i) \<Longrightarrow> a \<notin> F"
    and "\<And>i j a. i < ARP_TABLE_SIZE \<Longrightarrow> j < ARP_TABLE_SIZE \<Longrightarrow> a \<in> set (ch i) \<Longrightarrow> a \<in> set (ch j) \<Longrightarrow> i = j"
    and "\<And>a. store m a \<noteq> None \<longleftrightarrow> a \<in> F \<or> (\<exists>i < ARP_TABLE_SIZE. a \<in> set (ch i))"
  shows "heap_inv F ch m t"
  using assms unfolding heap_inv_def by blast

lemma heap_inv_cong:
  assumes "heap_inv F ch m t" "\<And>i. i < ARP_TABLE_SIZE \<Longrightarrow> queued (t' ! i) = queued (t ! i)"
  shows "heap_inv F ch m t'"
  using assms unfolding heap_inv_def by simp

text \<open>Somebody else's buffers changed, none added and none gone.\<close>

lemma heap_inv_foreign:
  assumes "heap_inv F ch m t" "\<And>a. a \<notin> F \<Longrightarrow> store m' a = store m a" "\<And>a. store m' a = None \<longleftrightarrow> store m a = None"
  shows "heap_inv F ch m' t"
proof (rule heap_invI)
  fix i
  assume i: "i < ARP_TABLE_SIZE"
  have "store m a = store m' a" if "a \<in> set (ch i)" for a using heap_invD(2) [OF assms(1) i that] assms(2) by simp
  then show "waits m' (queued (t ! i)) (ch i)" using waits_cong heap_invD(1) [OF assms(1) i] by blast
next
  fix a
  show "store m' a \<noteq> None \<longleftrightarrow> a \<in> F \<or> (\<exists>i < ARP_TABLE_SIZE. a \<in> set (ch i))" using heap_invD(4) [OF assms(1), of a] assms(3) [of a] by simp
qed (rule heap_invD(2,3) [OF assms(1)]; assumption)+

text \<open>Buffers of somebody else released, or given to somebody.\<close>

lemma heap_inv_release:
  assumes "heap_inv (F \<union> A) ch m t" "F \<inter> A = {}" "\<And>a. store m' a = (if a \<in> A then None else store m a)"
  shows "heap_inv F ch m' t"
proof (rule heap_invI)
  fix i
  assume i: "i < ARP_TABLE_SIZE"
  have "store m a = store m' a" if "a \<in> set (ch i)" for a using heap_invD(2) [OF assms(1) i that] assms(3) by simp
  then show "waits m' (queued (t ! i)) (ch i)" using waits_cong heap_invD(1) [OF assms(1) i] by blast
next
  fix a
  show "store m' a \<noteq> None \<longleftrightarrow> a \<in> F \<or> (\<exists>i < ARP_TABLE_SIZE. a \<in> set (ch i))"
  proof (cases "a \<in> A")
    case True
    then show ?thesis using heap_invD(2) [OF assms(1)] assms(2,3) by auto
  next
    case False
    then show ?thesis using heap_invD(4) [OF assms(1), of a] assms(3) by auto
  qed
qed (use heap_invD(2,3) [OF assms(1)] in \<open>blast+\<close>)

lemma heap_inv_extend:
  assumes "heap_inv F ch m t" "\<And>a. a \<in> A \<Longrightarrow> store m a = None" "\<And>a. a \<in> A \<Longrightarrow> store m' a \<noteq> None" "\<And>a. a \<notin> A \<Longrightarrow> store m' a = store m a"
  shows "heap_inv (F \<union> A) ch m' t"
proof (rule heap_invI)
  fix i
  assume i: "i < ARP_TABLE_SIZE"
  have out: "a \<notin> A" if "a \<in> set (ch i)" for a using heap_invD(4) [OF assms(1), of a] assms(2) i that by auto
  then have "store m a = store m' a" if "a \<in> set (ch i)" for a using that assms(4) by simp
  then show "waits m' (queued (t ! i)) (ch i)" using waits_cong heap_invD(1) [OF assms(1) i] by blast
  show "a \<notin> F \<union> A" if "a \<in> set (ch i)" for a using out [OF that] heap_invD(2) [OF assms(1) i that] by simp
next
  fix a
  show "store m' a \<noteq> None \<longleftrightarrow> a \<in> F \<union> A \<or> (\<exists>i < ARP_TABLE_SIZE. a \<in> set (ch i))"
  proof (cases "a \<in> A")
    case False
    then show ?thesis using heap_invD(4) [OF assms(1), of a] assms(4) by simp
  qed (simp add: assms(3))
qed (rule heap_invD(3) [OF assms(1)])

text \<open>A packet taken from the table, and put into it.\<close>

lemma heap_inv_unqueue:
  assumes "heap_inv F ch m t" "i < ARP_TABLE_SIZE" "length t = ARP_TABLE_SIZE" "queued e = None"
  shows "heap_inv (F \<union> set (ch i)) (ch(i := [])) m (t[i := e])"
proof (rule heap_invI)
  fix j
  assume j: "j < ARP_TABLE_SIZE"
  show "waits m (queued (t[i := e] ! j)) ((ch(i := [])) j)"
    using heap_invD(1) [OF assms(1) j] assms(2-4) by (cases "j = i") (simp_all add: waits_def)
  show "a \<notin> F \<union> set (ch i)" if "a \<in> set ((ch(i := [])) j)" for a
    using that heap_invD(2) [OF assms(1) j, of a] heap_invD(3) [OF assms(1) j assms(2), of a] by (auto split: if_splits)
next
  fix a
  show "store m a \<noteq> None \<longleftrightarrow> a \<in> F \<union> set (ch i) \<or> (\<exists>j < ARP_TABLE_SIZE. a \<in> set ((ch(i := [])) j))"
    unfolding heap_invD(4) [OF assms(1), of a] using assms(2) by (auto split: if_splits)
next
  fix j k a
  assume "j < ARP_TABLE_SIZE" "k < ARP_TABLE_SIZE" "a \<in> set ((ch(i := [])) j)" "a \<in> set ((ch(i := [])) k)"
  then show "j = k" using heap_invD(3) [OF assms(1), of j k a] by (auto split: if_splits)
qed

lemma heap_inv_enqueue:
  assumes "heap_inv (F \<union> set as) ch m t" "i < ARP_TABLE_SIZE" "length t = ARP_TABLE_SIZE" "ch i = []" "waits m (queued e) as" "F \<inter> set as = {}"
  shows "heap_inv F (ch(i := as)) m (t[i := e])"
proof (rule heap_invI)
  fix j
  assume j: "j < ARP_TABLE_SIZE"
  show "waits m (queued (t[i := e] ! j)) ((ch(i := as)) j)" using heap_invD(1) [OF assms(1) j] assms(2,3,5) by (cases "j = i") simp_all
  show "a \<notin> F" if "a \<in> set ((ch(i := as)) j)" for a using that heap_invD(2) [OF assms(1) j, of a] assms(6) by (auto split: if_splits)
next
  fix a
  show "store m a \<noteq> None \<longleftrightarrow> a \<in> F \<or> (\<exists>j < ARP_TABLE_SIZE. a \<in> set ((ch(i := as)) j))"
    unfolding heap_invD(4) [OF assms(1), of a]
  proof
    assume "a \<in> F \<union> set as \<or> (\<exists>j < ARP_TABLE_SIZE. a \<in> set (ch j))"
    then consider "a \<in> F" | "a \<in> set as" | j where "j < ARP_TABLE_SIZE" "a \<in> set (ch j)" by blast
    then show "a \<in> F \<or> (\<exists>j < ARP_TABLE_SIZE. a \<in> set ((ch(i := as)) j))"
    proof cases
      case 2
      then show ?thesis using assms(2) by (intro disjI2 exI [of _ i]) simp
    next
      case (3 j)
      then show ?thesis using assms(4) by (intro disjI2 exI [of _ j]) auto
    qed simp
  qed (auto split: if_splits)
next
  fix j k a
  assume h: "j < ARP_TABLE_SIZE" "k < ARP_TABLE_SIZE" "a \<in> set ((ch(i := as)) j)" "a \<in> set ((ch(i := as)) k)"
  then show "j = k" using heap_invD(3) [OF assms(1), of j k a] heap_invD(2) [OF assms(1), of j a] heap_invD(2) [OF assms(1), of k a]
    by (cases "j = i"; cases "k = i") simp_all
qed

subsection \<open>The operations on the table\<close>

lemma entry_upd [simp]:
  "entry (s\<lparr>mem := m\<rparr>) i = entry s i" "entry (s\<lparr>dev := d\<rparr>) i = entry s i" "entry (s\<lparr>cached_entry := c\<rparr>) i = entry s i"
  "entry (s\<lparr>arp_table := t\<rparr>) i = t ! i"
  by (simp_all add: entry_def)

lemma arp_inv_dev [simp]: "arp_inv F ch (s\<lparr>dev := d\<rparr>) = arp_inv F ch s"
  by (simp add: arp_inv_def)

lemma arp_inv_cached: "arp_inv F ch s \<Longrightarrow> c < ARP_TABLE_SIZE \<Longrightarrow> arp_inv F ch (s\<lparr>cached_entry := c\<rparr>)"
  by (simp add: arp_inv_def)

lemma arp_inv_length: "arp_inv F ch s \<Longrightarrow> length (arp_table s) = ARP_TABLE_SIZE"
  by (simp add: arp_inv_def wf_table_def)

lemma arp_inv_entry: "arp_inv F ch s \<Longrightarrow> i < ARP_TABLE_SIZE \<Longrightarrow> wf_entry (entry s i)"
  by (simp add: arp_inv_def wf_entry_at entry_def)

lemma arp_inv_waits: "arp_inv F ch s \<Longrightarrow> i < ARP_TABLE_SIZE \<Longrightarrow> waits (mem s) (queued (entry s i)) (ch i)"
  unfolding arp_inv_def entry_def by (blast intro: heap_invD(1))

text \<open>An entry changed that keeps its packet and is for the address it was for, or for none.\<close>

lemma arp_inv_entry_same:
  assumes "arp_inv F ch s" "i < ARP_TABLE_SIZE" "wf_entry (f (entry s i))" "queued (f (entry s i)) = queued (entry s i)"
    and "\<And>ip n. is_for ip n (f (entry s i)) \<Longrightarrow> is_for ip n (entry s i)"
  shows "arp_inv F ch (upd_entry i f s)"
proof -
  have "wf_table ((arp_table s)[i := f (entry s i)])" using assms by (intro wf_table_same) (simp_all add: arp_inv_def entry_def)
  moreover have "heap_inv F ch (mem s) ((arp_table s)[i := f (entry s i)])"
  proof (rule heap_inv_cong)
    show "heap_inv F ch (mem s) (arp_table s)" using assms(1) by (simp add: arp_inv_def)
    show "queued ((arp_table s)[i := f (entry s i)] ! j) = queued (arp_table s ! j)" if "j < ARP_TABLE_SIZE" for j
      using that assms(4) arp_inv_length [OF assms(1)] by (cases "j = i") (simp_all add: entry_def)
  qed
  ultimately show ?thesis using assms(1) by (simp add: arp_inv_def upd_entry_def)
qed

text \<open>A packet of somebody else released.\<close>

lemma free_run:
  assumes "arp_inv (F \<union> set as) ch s" "F \<inter> set as = {}" "packet (mem s) p as" "sole (mem s) as"
  shows "\<exists>m. free_pbuf p s = Some (s\<lparr>mem := m\<rparr>) \<and> arp_inv F ch (s\<lparr>mem := m\<rparr>) \<and> (\<forall>a. a \<notin> set as \<longrightarrow> store m a = store (mem s) a)"
proof -
  let ?m = "release_all as (mem s)"
  have "pbuf_free p (mem s) = Some (of_nat (length as), ?m)"
    using free_chain [of "mem s" p as 0] assms(3,4) by (simp add: pbuf_free_def packet_def)
  moreover have "heap_inv F ch ?m (arp_table s)" using assms(1,2) by (intro heap_inv_release [of F "set as" ch "mem s"]) (simp_all add: arp_inv_def store_release_all)
  ultimately show ?thesis using assms(1) by (intro exI [of _ ?m]) (simp add: free_pbuf_def arp_inv_def store_release_all)
qed

text \<open>A packet taken from its entry: it belongs to the caller.\<close>

lemma unqueue_run:
  assumes "arp_inv F ch s" "i < ARP_TABLE_SIZE" "wf_entry e" "queued e = None" "\<And>ip n. is_for ip n e \<Longrightarrow> is_for ip n (entry s i)"
  shows "arp_inv (F \<union> set (ch i)) (ch(i := [])) (s\<lparr>arp_table := (arp_table s)[i := e]\<rparr>)"
proof -
  have "wf_table ((arp_table s)[i := e])" using assms by (intro wf_table_same) (simp_all add: arp_inv_def entry_def)
  moreover have "heap_inv (F \<union> set (ch i)) (ch(i := [])) (mem s) ((arp_table s)[i := e])"
    using assms arp_inv_length [OF assms(1)] by (intro heap_inv_unqueue) (simp_all add: arp_inv_def)
  ultimately show ?thesis using assms(1) by (simp add: arp_inv_def)
qed

definition freed_entry :: "etharp_entry \<Rightarrow> etharp_entry" where "freed_entry e = e\<lparr>queued := None, astate := ETHARP_STATE_EMPTY\<rparr>"

lemma wf_freed_entry [simp]: "wf_entry (freed_entry e)" "\<not> is_for ip n (freed_entry e)" "queued (freed_entry e) = None"
  by (simp_all add: wf_entry_def freed_entry_def is_for_def)

lemma free_entry_run:
  assumes "arp_inv F ch s" "i < ARP_TABLE_SIZE"
  shows "\<exists>m. let s' = s\<lparr>mem := m, arp_table := (arp_table s)[i := freed_entry (entry s i)]\<rparr> in
    etharp_free_entry i s = Some s' \<and> arp_inv F (ch(i := [])) s' \<and> (\<forall>a \<in> F. store m a = store (mem s) a)"
proof -
  let ?t = "(arp_table s)[i := freed_entry (entry s i)]"
  have len: "length (arp_table s) = ARP_TABLE_SIZE" by (rule arp_inv_length [OF assms(1)])
  have w: "waits (mem s) (queued (entry s i)) (ch i)" by (rule arp_inv_waits [OF assms])
  have u: "arp_inv (F \<union> set (ch i)) (ch(i := [])) (s\<lparr>arp_table := ?t\<rparr>)" using assms by (intro unqueue_run) simp_all
  have d: "F \<inter> set (ch i) = {}" using assms heap_invD(2) by (auto simp: arp_inv_def)
  show ?thesis
  proof (cases "queued (entry s i)")
    case None
    then have "ch i = []" using w by (simp add: waits_def)
    then have "ch(i := []) = ch" by auto
    moreover have "(entry s i)\<lparr>astate := ETHARP_STATE_EMPTY\<rparr> = freed_entry (entry s i)" using None by (simp add: freed_entry_def)
    ultimately show ?thesis using u None \<open>ch i = []\<close> by (intro exI [of _ "mem s"]) (simp add: etharp_free_entry_def upd_entry_def)
  next
    case (Some p)
    then have "packet (mem s) (Some p) (ch i)" "sole (mem s) (ch i)" using w by (simp_all add: waits_def)
    then obtain m where m: "free_pbuf (Some p) (s\<lparr>arp_table := ?t\<rparr>) = Some (s\<lparr>arp_table := ?t, mem := m\<rparr>)"
        "arp_inv F (ch(i := [])) (s\<lparr>arp_table := ?t, mem := m\<rparr>)" "\<forall>a. a \<notin> set (ch i) \<longrightarrow> store m a = store (mem s) a"
      using free_run [OF u d, of "Some p"] by auto
    have "free_pbuf (Some p) s = Some (s\<lparr>mem := m\<rparr>)" using m(1) by (cases s) (auto simp: free_pbuf_def)
    then have "etharp_free_entry i s = Some (s\<lparr>mem := m, arp_table := ?t\<rparr>)"
      using Some assms(2) len by (simp add: etharp_free_entry_def upd_entry_def entry_def freed_entry_def)
    moreover have "arp_inv F (ch(i := [])) (s\<lparr>mem := m, arp_table := ?t\<rparr>)" using m(2) by (simp add: arp_inv_def)
    ultimately show ?thesis using m(3) d by (intro exI [of _ m]) (auto simp: Let_def)
  qed
qed

definition new_entry :: "nat \<Rightarrow> u32 \<Rightarrow> nat \<Rightarrow> pmem \<Rightarrow> 'd link_state \<Rightarrow> 'd link_state" where
  "new_entry i ip n m s = s\<lparr>mem := m, arp_table := (arp_table s)[i := (freed_entry (entry s i))\<lparr>ipaddr := ip, ctime := 0, ifnum := n\<rparr>]\<rparr>"

text \<open>The search finds the entry for the address; asked to try hard it makes a new one, always.\<close>

lemma find_entry_run:
  assumes "arp_inv F ch s"
  shows "(\<exists>i < ARP_TABLE_SIZE. etharp_find_entry (Some ip) flgs n s = Some (Some i, s) \<and> is_for ip n (entry s i))
    \<or> (\<forall>e \<in> set (arp_table s). \<not> is_for ip n e) \<and>
      (if flgs AND ETHARP_FLAG_FIND_ONLY \<noteq> 0 then etharp_find_entry (Some ip) flgs n s = Some (None, s)
       else flgs AND ETHARP_FLAG_TRY_HARD \<noteq> 0 \<longrightarrow>
         (\<exists>i < ARP_TABLE_SIZE. \<exists>m. etharp_find_entry (Some ip) flgs n s = Some (Some i, new_entry i ip n m s)
            \<and> arp_inv F (ch(i := [])) (new_entry i ip n m s) \<and> (\<forall>a \<in> F. store m a = store (mem s) a)))"
proof -
  have len: "length (arp_table s) = ARP_TABLE_SIZE" by (rule arp_inv_length [OF assms])
  show ?thesis
  proof (cases "find_scan (Some ip) n 0 (arp_table s) no_candidates")
    case (Inl i)
    then have "i < ARP_TABLE_SIZE \<and> is_for ip n (entry s i)" using find_scan_found [OF Inl] len by (simp add: entry_def)
    then show ?thesis using Inl by (auto simp: etharp_find_entry_def)
  next
    case (Inr c)
    have c: "candidates_ok (entry s) ARP_TABLE_SIZE c" "\<forall>e \<in> set (arp_table s). \<not> is_for ip n e"
      using find_scan_none [OF Inr, of "entry s"] len by (simp_all add: candidates_ok_def no_candidates_def entry_def)
    show ?thesis
    proof (cases "flgs AND ETHARP_FLAG_FIND_ONLY \<noteq> 0 \<or> flgs AND ETHARP_FLAG_TRY_HARD = 0")
      case True
      then show ?thesis using Inr c(2) by (auto simp: etharp_find_entry_def)
    next
      case False
      let ?f = "\<lambda>e. e\<lparr>ipaddr := ip, ctime := 0, ifnum := n\<rparr>"
      have new: "arp_inv F ch' (upd_entry i ?f s')" if "arp_inv F ch' s'" "i < ARP_TABLE_SIZE" "entry s' i = freed_entry (entry s i)" for i ch' s'
        using that by (intro arp_inv_entry_same) (simp_all add: wf_entry_def freed_entry_def is_for_def)
      show ?thesis
      proof (cases "c_empty c")
        case (Some i)
        then have i: "i < ARP_TABLE_SIZE" "astate (entry s i) = ETHARP_STATE_EMPTY" using c(1) by (simp_all add: candidates_ok_def)
        then have q: "queued (entry s i) = None" using arp_inv_entry [OF assms] by (auto simp: wf_entry_def)
        then have e: "freed_entry (entry s i) = entry s i" "ch i = []"
          using i arp_inv_waits [OF assms i(1)] by (simp_all add: freed_entry_def waits_def)
        have "upd_entry i ?f s = new_entry i ip n (mem s) s" using e(1) by (simp add: upd_entry_def new_entry_def)
        moreover have "ch(i := []) = ch" using e(2) by auto
        moreover have "etharp_find_entry (Some ip) flgs n s = Some (Some i, upd_entry i ?f s)" using Inr False Some by (auto simp: etharp_find_entry_def)
        ultimately have "etharp_find_entry (Some ip) flgs n s = Some (Some i, new_entry i ip n (mem s) s) \<and> arp_inv F (ch(i := [])) (new_entry i ip n (mem s) s)"
          using new [OF assms i(1)] e(1) by auto
        then show ?thesis using i(1) c(2) False by auto
      next
        case None
        let ?r = "case c_stable c of Some i \<Rightarrow> Some i | None \<Rightarrow> (case c_pending c of Some i \<Rightarrow> Some i | None \<Rightarrow> c_queue c)"
        have "\<exists>i < ARP_TABLE_SIZE. ?r = Some i" using c(1) None by (auto simp: candidates_ok_def ARP_TABLE_SIZE_def split: option.splits)
        then obtain i where i: "i < ARP_TABLE_SIZE" "?r = Some i" by blast
        obtain m where m: "etharp_free_entry i s = Some (s\<lparr>mem := m, arp_table := (arp_table s)[i := freed_entry (entry s i)]\<rparr>)"
            "arp_inv F (ch(i := [])) (s\<lparr>mem := m, arp_table := (arp_table s)[i := freed_entry (entry s i)]\<rparr>)" "\<forall>a \<in> F. store m a = store (mem s) a"
          using free_entry_run [OF assms i(1)] by (auto simp: Let_def)
        let ?s = "s\<lparr>mem := m, arp_table := (arp_table s)[i := freed_entry (entry s i)]\<rparr>"
        have "upd_entry i ?f ?s = new_entry i ip n m s" using len i(1) by (simp add: upd_entry_def new_entry_def)
        moreover have "etharp_find_entry (Some ip) flgs n s = Some (Some i, upd_entry i ?f ?s)" using Inr False None i(2) m(1) by (auto simp: etharp_find_entry_def)
        ultimately have "etharp_find_entry (Some ip) flgs n s = Some (Some i, new_entry i ip n m s) \<and> arp_inv F (ch(i := [])) (new_entry i ip n m s)"
          using new [OF m(2) i(1)] len i(1) by auto
        then show ?thesis using i(1) c(2) False m(3) by auto
      qed
    qed
  qed
qed

subsection \<open>Sending packets one owns\<close>

lemma arp_inv_foreign:
  assumes "arp_inv F ch s" "p \<in> F" "store (mem s) p \<noteq> None"
  shows "arp_inv F ch (s\<lparr>mem := set_pbuf p y (mem s)\<rparr>)"
proof -
  have "heap_inv F ch (mem s) (arp_table s)" using assms(1) by (simp add: arp_inv_def)
  then have "heap_inv F ch (set_pbuf p y (mem s)) (arp_table s)" by (rule heap_inv_foreign) (use assms(2,3) in auto)
  then show ?thesis using assms(1) by (simp add: arp_inv_def)
qed

lemma same_links_sole:
  assumes "sole m as" "store m p = Some x" "same_links x y"
  shows "sole (set_pbuf p y m) as"
proof -
  have "pref y = 1" if "p \<in> set as" using assms that by (auto simp: sole_def same_links_def)
  then show ?thesis using assms(1) by (auto simp: sole_def)
qed

definition sent :: "bool \<Rightarrow> u8 list \<Rightarrow> u8 list list \<Rightarrow> u8 list list" where "sent ok frame w = (if ok then w @ [frame] else w)"

lemma output_owned:
  assumes "env_ok env dev_ok wire" "dev_ok (dev s)" "arp_inv F ch s" "set as \<subseteq> F" "packet (mem s) (Some p) as" "sole (mem s) as"
    and "length (chain_bytes (mem s) as) \<le> 1500" "length dst = 6" "length src = 6"
  shows "\<exists>e m d. ethernet_output env n (Some p) src dst t s = Some (e, s\<lparr>mem := m, dev := d\<rparr>) \<and> dev_ok d \<and> arp_inv F ch (s\<lparr>mem := m, dev := d\<rparr>)
    \<and> packet m (Some p) as \<and> sole m as \<and> (\<forall>a. a \<notin> set as \<longrightarrow> store m a = store (mem s) a) \<and> (e = ERR_OK \<longleftrightarrow> linkable (mem s) p)
    \<and> wire d = sent (linkable (mem s) p) (eth_hdr dst src t @ chain_bytes (mem s) as) (wire (dev s))"
proof -
  obtain bs where as: "as = p # bs" using assms(5) by (cases as) (auto simp: packet_def)
  obtain x where x: "store (mem s) p = Some x" using assms(5) as by (auto simp: packet_def)
  note o = ethernet_output_run [OF assms(1,2,5,7,8,9) x, of n t]
  show ?thesis
  proof (cases "linkable (mem s) p")
    case True
    then obtain y d where y: "ethernet_output env n (Some p) src dst t s = Some (ERR_OK, s\<lparr>mem := set_pbuf p y (mem s), dev := d\<rparr>)" "dev_ok d" "same_links x y"
        "packet (set_pbuf p y (mem s)) (Some p) as" "wire d = wire (dev s) @ [eth_hdr dst src t @ chain_bytes (mem s) as]"
      using o by auto
    have "arp_inv F ch (s\<lparr>mem := set_pbuf p y (mem s), dev := d\<rparr>)" using arp_inv_foreign [OF assms(3), of p y] assms(4) as x by simp
    then show ?thesis using y same_links_sole [OF assms(6) x y(3)] True as
      by (intro exI [of _ ERR_OK] exI [of _ "set_pbuf p y (mem s)"] exI [of _ d]) (simp add: sent_def)
  next
    case False
    then have "ethernet_output env n (Some p) src dst t s = Some (ERR_BUF, s\<lparr>mem := mem s, dev := dev s\<rparr>)" using o by simp
    then show ?thesis using assms(2,3,5,6) False by (intro exI [of _ ERR_BUF] exI [of _ "mem s"] exI [of _ "dev s"]) (simp add: sent_def)
  qed
qed

text \<open>Sent and released.\<close>

lemma output_and_free:
  assumes "env_ok env dev_ok wire" "dev_ok (dev s)" "arp_inv (F \<union> set as) ch s" "F \<inter> set as = {}" "packet (mem s) (Some p) as" "sole (mem s) as"
    and "length (chain_bytes (mem s) as) \<le> 1500" "length dst = 6" "length src = 6"
  shows "\<exists>e s1 m d. ethernet_output env n (Some p) src dst t s = Some (e, s1) \<and> free_pbuf (Some p) s1 = Some (s\<lparr>mem := m, dev := d\<rparr>) \<and> dev_ok d
    \<and> arp_inv F ch (s\<lparr>mem := m, dev := d\<rparr>) \<and> (\<forall>a \<in> F. store m a = store (mem s) a) \<and> (e = ERR_OK \<longleftrightarrow> linkable (mem s) p)
    \<and> wire d = sent (linkable (mem s) p) (eth_hdr dst src t @ chain_bytes (mem s) as) (wire (dev s))"
proof -
  obtain e m d where o: "ethernet_output env n (Some p) src dst t s = Some (e, s\<lparr>mem := m, dev := d\<rparr>)" "dev_ok d"
      "arp_inv (F \<union> set as) ch (s\<lparr>mem := m, dev := d\<rparr>)" "packet m (Some p) as" "sole m as" "\<forall>a. a \<notin> set as \<longrightarrow> store m a = store (mem s) a"
      "e = ERR_OK \<longleftrightarrow> linkable (mem s) p" "wire d = sent (linkable (mem s) p) (eth_hdr dst src t @ chain_bytes (mem s) as) (wire (dev s))"
    using output_owned [OF assms(1-3) _ assms(5-9), of n t] by blast
  let ?s = "s\<lparr>mem := m, dev := d\<rparr>"
  have "packet (mem ?s) (Some p) as" "sole (mem ?s) as" using o(4,5) by simp_all
  then obtain m2 where m2: "free_pbuf (Some p) ?s = Some (?s\<lparr>mem := m2\<rparr>)" "arp_inv F ch (?s\<lparr>mem := m2\<rparr>)" "\<forall>a. a \<notin> set as \<longrightarrow> store m2 a = store m a"
    using free_run [OF o(3) assms(4)] by auto
  have eq: "?s\<lparr>mem := m2\<rparr> = s\<lparr>mem := m2, dev := d\<rparr>" by simp
  have "\<forall>a \<in> F. store m2 a = store (mem s) a" using m2(3) o(6) assms(4) by auto
  then show ?thesis using o(1,2,7,8) m2(1,2) unfolding eq by blast
qed

subsection \<open>An address learned\<close>

lemma arp_inv_entry_for:
  assumes "arp_inv F ch s" "i < ARP_TABLE_SIZE" "wf_entry e" "queued e = queued (entry s i)"
    and "\<And>j ip n. j < ARP_TABLE_SIZE \<Longrightarrow> is_for ip n e \<Longrightarrow> is_for ip n (entry s j) \<Longrightarrow> j = i"
  shows "arp_inv F ch (s\<lparr>arp_table := (arp_table s)[i := e]\<rparr>)"
proof -
  have "wf_table ((arp_table s)[i := e])" using assms by (intro wf_table_update) (simp_all add: arp_inv_def entry_def)
  moreover have "heap_inv F ch (mem s) ((arp_table s)[i := e])"
  proof (rule heap_inv_cong)
    show "heap_inv F ch (mem s) (arp_table s)" using assms(1) by (simp add: arp_inv_def)
    show "queued ((arp_table s)[i := e] ! j) = queued (arp_table s ! j)" if "j < ARP_TABLE_SIZE" for j
      using that assms(4) arp_inv_length [OF assms(1)] by (cases "j = i") (simp_all add: entry_def)
  qed
  ultimately show ?thesis using assms(1) by (simp add: arp_inv_def)
qed

definition stable_entry :: "u32 \<Rightarrow> nat \<Rightarrow> u8 list \<Rightarrow> etharp_entry \<Rightarrow> etharp_entry" where
  "stable_entry ip n eth e = e\<lparr>queued := None, ipaddr := ip, astate := ETHARP_STATE_STABLE, ifnum := n, ethaddr := eth, ctime := 0\<rparr>"

lemma wf_stable_entry [simp]:
  "length eth = 6 \<Longrightarrow> wf_entry (stable_entry ip n eth e)" "is_for ip' n' (stable_entry ip n eth e) \<longleftrightarrow> ip' = ip \<and> n' = n" "queued (stable_entry ip n eth e) = None"
  by (auto simp: stable_entry_def wf_entry_def is_for_def ARP_MAXAGE_def)

lemma stable_entry_eq:
  "queued e = None \<Longrightarrow> ipaddr e = ip \<Longrightarrow> e\<lparr>astate := ETHARP_STATE_STABLE, ifnum := n, ethaddr := eth, ctime := 0\<rparr> = stable_entry ip n eth e"
  "ipaddr e = ip \<Longrightarrow> e\<lparr>astate := ETHARP_STATE_STABLE, ifnum := n, ethaddr := eth, ctime := 0, queued := None\<rparr> = stable_entry ip n eth e"
  by (cases e; simp add: stable_entry_def)+

text \<open>A unicast address.\<close>

definition unicast :: "'d link_env \<Rightarrow> nat \<Rightarrow> u32 \<Rightarrow> bool" where
  "unicast env n ip \<longleftrightarrow> ip \<noteq> 0 \<and> \<not> isbroadcast ip (ifs env n) \<and> \<not> ip4_addr_ismulticast ip"

text \<open>The entry of the address becomes stable, and a packet that waits on it is sent to the address.\<close>

lemma update_found:
  assumes "env_ok env dev_ok wire" "dev_ok (dev s)" "arp_inv F ch s" "length eth = 6" "unicast env n ip" "i < ARP_TABLE_SIZE"
    and "etharp_find_entry (Some ip) flgs n s = Some (Some i, s)" "is_for ip n (entry s i)"
  shows "\<exists>m d. let s' = s\<lparr>mem := m, arp_table := (arp_table s)[i := stable_entry ip n eth (entry s i)], dev := d\<rparr> in
    etharp_update_arp_entry env n ip eth flgs s = Some (ERR_OK, s') \<and> arp_inv F (ch(i := [])) s' \<and> dev_ok d \<and> (\<forall>a \<in> F. store m a = store (mem s) a)
    \<and> wire d = (case queued (entry s i) of None \<Rightarrow> wire (dev s)
        | Some p \<Rightarrow> sent (linkable (mem s) p) (eth_hdr eth (hwaddr (ifs env n)) ETHTYPE_IP @ chain_bytes (mem s) (ch i)) (wire (dev s)))"
proof -
  let ?e = "stable_entry ip n eth (entry s i)"
  let ?t = "(arp_table s)[i := ?e]"
  have len: "length (arp_table s) = ARP_TABLE_SIZE" by (rule arp_inv_length [OF assms(3)])
  have ip: "ipaddr (entry s i) = ip" using assms(8) by (simp add: is_for_def)
  have w: "waits (mem s) (queued (entry s i)) (ch i)" by (rule arp_inv_waits [OF assms(3,6)])
  have u: "arp_inv (F \<union> set (ch i)) (ch(i := [])) (s\<lparr>arp_table := ?t\<rparr>)" using assms(3,4,6,8) by (intro unqueue_run) auto
  have d: "F \<inter> set (ch i) = {}" using assms(3,6) heap_invD(2) by (auto simp: arp_inv_def)
  show ?thesis
  proof (cases "queued (entry s i)")
    case None
    then have "ch i = []" using w by (simp add: waits_def)
    moreover have "upd_entry i (\<lambda>e. e\<lparr>astate := ETHARP_STATE_STABLE, ifnum := n, ethaddr := eth, ctime := 0\<rparr>) s = s\<lparr>arp_table := ?t\<rparr>"
      using None ip by (simp add: upd_entry_def stable_entry_eq)
    then have "etharp_update_arp_entry env n ip eth flgs s = Some (ERR_OK, s\<lparr>arp_table := ?t\<rparr>)"
      using assms(5-7) len by (simp add: etharp_update_arp_entry_def unicast_def Let_def)
    ultimately show ?thesis using u None assms(2) by (intro exI [of _ "mem s"] exI [of _ "dev s"]) simp
  next
    case (Some p)
    then have pk: "packet (mem s) (Some p) (ch i)" "sole (mem s) (ch i)" "length (chain_bytes (mem s) (ch i)) \<le> 1500" using w by (simp_all add: waits_def)
    obtain e s1 m d where o: "ethernet_output env n (Some p) (hwaddr (ifs env n)) eth ETHTYPE_IP (s\<lparr>arp_table := ?t\<rparr>) = Some (e, s1)"
        "free_pbuf (Some p) s1 = Some (s\<lparr>arp_table := ?t, mem := m, dev := d\<rparr>)" "dev_ok d" "arp_inv F (ch(i := [])) (s\<lparr>arp_table := ?t, mem := m, dev := d\<rparr>)"
        "\<forall>a \<in> F. store m a = store (mem s) a"
        "wire d = sent (linkable (mem s) p) (eth_hdr eth (hwaddr (ifs env n)) ETHTYPE_IP @ chain_bytes (mem s) (ch i)) (wire (dev s))"
      using output_and_free [OF assms(1) _ u d, of p eth "hwaddr (ifs env n)" n ETHTYPE_IP] pk assms(2,4) env_hwaddr [OF assms(1)] by auto
    have "upd_entry i (queued_update (\<lambda>_. None)) (upd_entry i (\<lambda>e. e\<lparr>astate := ETHARP_STATE_STABLE, ifnum := n, ethaddr := eth, ctime := 0\<rparr>) s) = s\<lparr>arp_table := ?t\<rparr>"
      using ip len assms(6) by (simp add: upd_entry_def stable_entry_eq)
    then have "etharp_update_arp_entry env n ip eth flgs s = Some (ERR_OK, s\<lparr>arp_table := ?t, mem := m, dev := d\<rparr>)"
      using assms(5-7) len Some o(1,2) by (simp add: etharp_update_arp_entry_def unicast_def Let_def upd_entry_def [of i "\<lambda>e. e\<lparr>astate := ETHARP_STATE_STABLE, ifnum := n, ethaddr := eth, ctime := 0\<rparr>"])
    then have "etharp_update_arp_entry env n ip eth flgs s = Some (ERR_OK, s\<lparr>mem := m, arp_table := ?t, dev := d\<rparr>)" by simp
    moreover have "arp_inv F (ch(i := [])) (s\<lparr>mem := m, arp_table := ?t, dev := d\<rparr>)" using o(4) by (simp add: arp_inv_def)
    ultimately show ?thesis using Some o(3,5,6) by (intro exI [of _ m] exI [of _ d]) simp
  qed
qed

lemma new_entry_inv:
  assumes "arp_inv F ch (new_entry i ip n m s)" "i < ARP_TABLE_SIZE" "wf_entry e" "queued e = None" "\<And>ip' n'. is_for ip' n' e \<Longrightarrow> ip' = ip \<and> n' = n"
    and "\<forall>e \<in> set (arp_table s). \<not> is_for ip n e" "length (arp_table s) = ARP_TABLE_SIZE"
  shows "arp_inv F ch (s\<lparr>mem := m, arp_table := (arp_table s)[i := e]\<rparr>)"
proof -
  have "arp_inv F ch ((new_entry i ip n m s)\<lparr>arp_table := (arp_table (new_entry i ip n m s))[i := e]\<rparr>)"
  proof (rule arp_inv_entry_for [OF assms(1,2,3)])
    show "queued e = queued (entry (new_entry i ip n m s) i)" using assms(2,4,7) by (simp add: new_entry_def freed_entry_def)
    show "j = i" if "j < ARP_TABLE_SIZE" "is_for ip' n' e" "is_for ip' n' (entry (new_entry i ip n m s) j)" for j ip' n'
    proof (rule ccontr)
      assume "j \<noteq> i"
      then have "entry (new_entry i ip n m s) j = arp_table s ! j" by (simp add: new_entry_def)
      then show False using that assms(5) assms(6,7) by (metis nth_mem)
    qed
  qed
  then show ?thesis by (simp add: new_entry_def)
qed

text \<open>Any address is learned without an error in the heap; a packet that waits for it is sent.\<close>

definition resolved :: "'d link_state \<Rightarrow> u32 \<Rightarrow> nat \<Rightarrow> u8 list \<Rightarrow> bool" where
  "resolved s ip n eth \<longleftrightarrow> (\<exists>i < ARP_TABLE_SIZE. ETHARP_STATE_STABLE \<le> astate (entry s i) \<and> ipaddr (entry s i) = ip \<and> ifnum (entry s i) = n \<and> ethaddr (entry s i) = eth)"

definition waiting :: "pmem \<Rightarrow> etharp_entry list \<Rightarrow> (nat \<Rightarrow> nat list) \<Rightarrow> u32 \<Rightarrow> nat \<Rightarrow> u8 list option" where
  "waiting m t ch ip n =
     (case find (\<lambda>i. is_for ip n (t ! i)) [0..<ARP_TABLE_SIZE] of None \<Rightarrow> None
      | Some i \<Rightarrow> (case queued (t ! i) of None \<Rightarrow> None | Some p \<Rightarrow> if linkable m p then Some (chain_bytes m (ch i)) else None))"

lemma waiting_at:
  assumes "wf_table t" "i < ARP_TABLE_SIZE" "is_for ip n (t ! i)"
  shows "waiting m t ch ip n = (case queued (t ! i) of None \<Rightarrow> None | Some p \<Rightarrow> if linkable m p then Some (chain_bytes m (ch i)) else None)"
proof -
  have "find (\<lambda>i. is_for ip n (t ! i)) [0..<ARP_TABLE_SIZE] = Some i"
  proof (cases "find (\<lambda>i. is_for ip n (t ! i)) [0..<ARP_TABLE_SIZE]")
    case None
    then show ?thesis using assms(2,3) by (auto simp: find_None_iff)
  next
    case (Some j)
    then have "j < ARP_TABLE_SIZE" "is_for ip n (t ! j)" by (auto simp: find_Some_iff)
    then show ?thesis using Some wf_table_unique [OF assms(1) _ assms(2) _ assms(3)] by blast
  qed
  then show ?thesis by (simp add: waiting_def)
qed

lemma waiting_none: "\<forall>e \<in> set t. \<not> is_for ip n e \<Longrightarrow> length t = ARP_TABLE_SIZE \<Longrightarrow> waiting m t ch ip n = None"
  by (auto simp: waiting_def find_Some_iff split: option.split)

lemma update_run:
  assumes "env_ok env dev_ok wire" "dev_ok (dev s)" "arp_inv F ch s" "length eth = 6" "flgs = ETHARP_FLAG_TRY_HARD \<or> flgs = ETHARP_FLAG_FIND_ONLY"
  shows "\<exists>e s' ch'. etharp_update_arp_entry env n ip eth flgs s = Some (e, s') \<and> arp_inv F ch' s' \<and> dev_ok (dev s') \<and> (\<forall>a \<in> F. store (mem s') a = store (mem s) a)
    \<and> (if e = ERR_OK then resolved s' ip n eth else s' = s) \<and> (e = ERR_OK \<longleftrightarrow> unicast env n ip \<and> (flgs = ETHARP_FLAG_TRY_HARD \<or> (\<exists>f \<in> set (arp_table s). is_for ip n f)))
    \<and> wire (dev s') = (case if unicast env n ip then waiting (mem s) (arp_table s) ch ip n else None of None \<Rightarrow> wire (dev s)
        | Some b \<Rightarrow> wire (dev s) @ [eth_hdr eth (hwaddr (ifs env n)) ETHTYPE_IP @ b])"
proof (cases "unicast env n ip")
  case False
  then have "etharp_update_arp_entry env n ip eth flgs s = Some (ERR_ARG, s)" by (auto simp: etharp_update_arp_entry_def unicast_def)
  then show ?thesis using assms(2,3) False by (intro exI [of _ ERR_ARG] exI [of _ s] exI [of _ ch]) simp
next
  case True
  have len: "length (arp_table s) = ARP_TABLE_SIZE" by (rule arp_inv_length [OF assms(3)])
  have wf: "wf_table (arp_table s)" using assms(3) by (simp add: arp_inv_def)
  have flags: "ETHARP_FLAG_TRY_HARD AND ETHARP_FLAG_FIND_ONLY = 0" "ETHARP_FLAG_FIND_ONLY AND ETHARP_FLAG_FIND_ONLY \<noteq> 0"
      "ETHARP_FLAG_TRY_HARD AND ETHARP_FLAG_TRY_HARD \<noteq> 0" "ETHARP_FLAG_TRY_HARD \<noteq> ETHARP_FLAG_FIND_ONLY"
    by (simp_all add: ETHARP_FLAG_TRY_HARD_def ETHARP_FLAG_FIND_ONLY_def)
  consider (found) i where "i < ARP_TABLE_SIZE" "etharp_find_entry (Some ip) flgs n s = Some (Some i, s)" "is_for ip n (entry s i)"
    | (none) "\<forall>e \<in> set (arp_table s). \<not> is_for ip n e" "flgs = ETHARP_FLAG_FIND_ONLY" "etharp_find_entry (Some ip) flgs n s = Some (None, s)"
    | (new) i m where "\<forall>e \<in> set (arp_table s). \<not> is_for ip n e" "flgs = ETHARP_FLAG_TRY_HARD" "i < ARP_TABLE_SIZE"
        "etharp_find_entry (Some ip) flgs n s = Some (Some i, new_entry i ip n m s)" "arp_inv F (ch(i := [])) (new_entry i ip n m s)"
        "\<forall>a \<in> F. store m a = store (mem s) a"
    using find_entry_run [OF assms(3), of ip flgs n] assms(5) flags by auto
  then show ?thesis
  proof cases
    case found
    let ?t = "(arp_table s)[i := stable_entry ip n eth (entry s i)]"
    obtain m d where u: "etharp_update_arp_entry env n ip eth flgs s = Some (ERR_OK, s\<lparr>mem := m, arp_table := ?t, dev := d\<rparr>)"
        "arp_inv F (ch(i := [])) (s\<lparr>mem := m, arp_table := ?t, dev := d\<rparr>)" "dev_ok d" "\<forall>a \<in> F. store m a = store (mem s) a"
        "wire d = (case queued (entry s i) of None \<Rightarrow> wire (dev s)
          | Some p \<Rightarrow> sent (linkable (mem s) p) (eth_hdr eth (hwaddr (ifs env n)) ETHTYPE_IP @ chain_bytes (mem s) (ch i)) (wire (dev s)))"
      using update_found [OF assms(1-4) True found] by (auto simp: Let_def)
    have "resolved (s\<lparr>mem := m, arp_table := ?t, dev := d\<rparr>) ip n eth"
      using found(1) len by (auto simp: resolved_def stable_entry_def intro!: exI [of _ i])
    moreover have "\<exists>f \<in> set (arp_table s). is_for ip n f" using found(1,3) len by (metis entry_def nth_mem)
    moreover have "wire d = (case waiting (mem s) (arp_table s) ch ip n of None \<Rightarrow> wire (dev s)
        | Some b \<Rightarrow> wire (dev s) @ [eth_hdr eth (hwaddr (ifs env n)) ETHTYPE_IP @ b])"
      using u(5) waiting_at [OF wf found(1), of ip n "mem s" ch] found(3) by (auto simp: sent_def entry_def split: option.split)
    ultimately show ?thesis using u(1-4) True
      by (intro exI [of _ ERR_OK] exI [of _ "s\<lparr>mem := m, arp_table := ?t, dev := d\<rparr>"] exI [of _ "ch(i := [])"]) simp
  next
    case none
    then have "etharp_update_arp_entry env n ip eth flgs s = Some (ERR_MEM, s)" using True by (simp add: etharp_update_arp_entry_def unicast_def)
    then show ?thesis using assms(2,3) none flags(4) waiting_none [OF none(1) len]
      by (intro exI [of _ ERR_MEM] exI [of _ s] exI [of _ ch]) simp
  next
    case new
    let ?t = "(arp_table s)[i := stable_entry ip n eth (entry s i)]"
    let ?s = "s\<lparr>mem := m, arp_table := ?t\<rparr>"
    have "(freed_entry (entry s i))\<lparr>ipaddr := ip, astate := ETHARP_STATE_STABLE, ifnum := n, ethaddr := eth, ctime := 0\<rparr> = stable_entry ip n eth (entry s i)"
      by (cases "entry s i") (simp add: freed_entry_def stable_entry_def)
    then have e: "upd_entry i (\<lambda>e. e\<lparr>astate := ETHARP_STATE_STABLE, ifnum := n, ethaddr := eth, ctime := 0\<rparr>) (new_entry i ip n m s) = ?s"
      using new(3) len by (simp add: upd_entry_def new_entry_def)
    have "entry ?s i = stable_entry ip n eth (entry s i)" using new(3) len by simp
    then have "etharp_update_arp_entry env n ip eth flgs s = Some (ERR_OK, ?s)"
      using True new(4) e by (simp add: etharp_update_arp_entry_def unicast_def Let_def)
    moreover have "arp_inv F (ch(i := [])) ?s" using new assms(4) len by (intro new_entry_inv) auto
    moreover have "resolved ?s ip n eth" using new(3) len by (auto simp: resolved_def stable_entry_def intro!: exI [of _ i])
    ultimately show ?thesis using True new(1,2,6) assms(2) waiting_none [OF new(1) len]
      by (intro exI [of _ ERR_OK] exI [of _ ?s] exI [of _ "ch(i := [])"]) simp
  qed
qed

subsection \<open>Packets that have to wait\<close>

text \<open>A packet handed over by its owner, who will release it.\<close>

definition outgoing :: "pmem \<Rightarrow> nat \<Rightarrow> nat list \<Rightarrow> bool" where
  "outgoing m p as \<longleftrightarrow> packet m (Some p) as \<and> sole m as \<and> filled m as \<and> length (chain_bytes m as) \<le> 1500"

lemma needs_copy_chain: "chain m p as \<Longrightarrow> needs_copy p m = Some (\<exists>a \<in> set as. ptype (the (store m a)) = PBUF_REF)"
  by (induction as arbitrary: p) (auto simp: needs_copy.simps)

text \<open>The packet that waited before is dropped.\<close>

lemma drop_old_run:
  assumes "arp_inv F ch s" "i < ARP_TABLE_SIZE"
  shows "\<exists>m. (case queued (entry s i) of None \<Rightarrow> Some s | Some old \<Rightarrow> free_pbuf (Some old) s) = Some (s\<lparr>mem := m\<rparr>)
    \<and> arp_inv F (ch(i := [])) (s\<lparr>mem := m, arp_table := (arp_table s)[i := (entry s i)\<lparr>queued := None\<rparr>]\<rparr>) \<and> (\<forall>a \<in> F. store m a = store (mem s) a)"
proof -
  let ?e = "(entry s i)\<lparr>queued := None\<rparr>"
  let ?t = "(arp_table s)[i := ?e]"
  have w: "waits (mem s) (queued (entry s i)) (ch i)" by (rule arp_inv_waits [OF assms])
  have "wf_entry ?e" using arp_inv_entry [OF assms] by (simp add: wf_entry_def)
  then have u: "arp_inv (F \<union> set (ch i)) (ch(i := [])) (s\<lparr>arp_table := ?t\<rparr>)" using assms by (intro unqueue_run) (simp_all add: is_for_def)
  have d: "F \<inter> set (ch i) = {}" using assms heap_invD(2) by (auto simp: arp_inv_def)
  show ?thesis
  proof (cases "queued (entry s i)")
    case None
    then have "ch i = []" using w by (simp add: waits_def)
    then show ?thesis using u None by (intro exI [of _ "mem s"]) simp
  next
    case (Some p)
    then have "packet (mem s) (Some p) (ch i)" "sole (mem s) (ch i)" using w by (simp_all add: waits_def)
    then obtain m where m: "free_pbuf (Some p) (s\<lparr>arp_table := ?t\<rparr>) = Some (s\<lparr>arp_table := ?t, mem := m\<rparr>)"
        "arp_inv F (ch(i := [])) (s\<lparr>arp_table := ?t, mem := m\<rparr>)" "\<forall>a. a \<notin> set (ch i) \<longrightarrow> store m a = store (mem s) a"
      using free_run [OF u d, of "Some p"] by auto
    have "free_pbuf (Some p) s = Some (s\<lparr>mem := m\<rparr>)" using m(1) by (cases s) (auto simp: free_pbuf_def)
    moreover have "arp_inv F (ch(i := [])) (s\<lparr>mem := m, arp_table := ?t\<rparr>)" using m(2) by (simp add: arp_inv_def)
    ultimately show ?thesis using Some m(3) d by (intro exI [of _ m]) auto
  qed
qed

lemma put_in_run:
  assumes "arp_inv (F \<union> set bs) (ch(i := [])) (s\<lparr>mem := m, arp_table := (arp_table s)[i := (entry s i)\<lparr>queued := None\<rparr>]\<rparr>)"
    and "i < ARP_TABLE_SIZE" "length (arp_table s) = ARP_TABLE_SIZE" "astate (entry s i) = ETHARP_STATE_PENDING"
    and "packet m (Some p) bs" "sole m bs" "length (chain_bytes m bs) \<le> 1500" "F \<inter> set bs = {}"
  shows "arp_inv F (ch(i := bs)) (s\<lparr>mem := m, arp_table := (arp_table s)[i := (entry s i)\<lparr>queued := Some p\<rparr>]\<rparr>)"
proof -
  let ?e = "(entry s i)\<lparr>queued := None\<rparr>" and ?f = "(entry s i)\<lparr>queued := Some p\<rparr>"
  have a: "wf_table ((arp_table s)[i := ?e])" "heap_inv (F \<union> set bs) (ch(i := [])) m ((arp_table s)[i := ?e])" "cached_entry s < ARP_TABLE_SIZE"
    using assms(1) by (simp_all add: arp_inv_def)
  have "wf_entry ?e" using wf_entry_at [OF a(1) assms(2)] assms(2,3) by simp
  then have "wf_entry ?f" using assms(4) by (simp add: wf_entry_def)
  then have "wf_table (((arp_table s)[i := ?e])[i := ?f])" using assms(2,3) by (intro wf_table_same [OF a(1)]) (simp_all add: is_for_def)
  moreover have "heap_inv F ((ch(i := []))(i := bs)) m (((arp_table s)[i := ?e])[i := ?f])"
    using assms by (intro heap_inv_enqueue [OF a(2)]) (simp_all add: waits_def)
  ultimately show ?thesis using a(3) by (simp add: arp_inv_def)
qed

text \<open>The packet queued, and released by its owner: the table owns it, or a copy of it, or there was no memory for the copy.\<close>

definition queue_done :: "'d link_env \<Rightarrow> nat set \<Rightarrow> nat \<Rightarrow> nat \<Rightarrow> nat list \<Rightarrow> 'd link_state \<Rightarrow> bool" where
  "queue_done env F i p as s \<longleftrightarrow> (\<exists>e s1 m q ch'. let s' = s\<lparr>mem := m, arp_table := (arp_table s)[i := (entry s i)\<lparr>queued := q\<rparr>]\<rparr> in
    queue_packet env i (Some p) s = Some (e, s1) \<and> free_pbuf (Some p) s1 = Some s' \<and> arp_inv F ch' s' \<and> (\<forall>a \<in> F. store m a = store (mem s) a)
    \<and> (e = ERR_OK \<longrightarrow> (\<exists>p'. q = Some p' \<and> chain_bytes m (ch' i) = chain_bytes (mem s) as \<and> (linkable (mem s) p \<longrightarrow> linkable m p')))
    \<and> (linkable (mem s) p \<and> (\<forall>a \<in> set as. ptype (the (store (mem s) a)) \<noteq> PBUF_REF) \<longrightarrow> e = ERR_OK))"

text \<open>The owner's reference and the table's are both there for a moment.\<close>

lemma queue_by_reference:
  assumes "arp_inv (F \<union> set as) ch s" "F \<inter> set as = {}" "outgoing (mem s) p as" "i < ARP_TABLE_SIZE" "astate (entry s i) = ETHARP_STATE_PENDING"
    and "\<not> (\<exists>a \<in> set as. ptype (the (store (mem s) a)) = PBUF_REF)"
  shows "queue_done env F i p as s"
proof -
  have pk: "packet (mem s) (Some p) as" "sole (mem s) as" "length (chain_bytes (mem s) as) \<le> 1500"
    using assms(3) by (simp_all add: outgoing_def)
  then obtain bs where as: "as = p # bs" by (cases as) (auto simp: packet_def)
  obtain x where x: "store (mem s) p = Some x" "pref x = 1" using pk(1,2) as by (auto simp: packet_def sole_def)
  have len: "length (arp_table s) = ARP_TABLE_SIZE" by (rule arp_inv_length [OF assms(1)])
  have copy: "needs_copy (Some p) (mem s) = Some False"
    using needs_copy_chain [of "mem s" "Some p" as] pk(1) assms(6) by (simp add: packet_def)
  let ?m1 = "set_pbuf p (x\<lparr>pref := 2\<rparr>) (mem s)"
  let ?s1 = "s\<lparr>mem := ?m1\<rparr>"
  have take: "take_over env (Some p) s = Some (Some p, ?s1)" using copy x by (simp add: take_over_def pbuf_ref_def)
  have "arp_inv (F \<union> set as) ch ?s1" using assms(1) as x(1) by (intro arp_inv_foreign) simp_all
  then obtain m2 where m2: "(case queued (entry ?s1 i) of None \<Rightarrow> Some ?s1 | Some old \<Rightarrow> free_pbuf (Some old) ?s1) = Some (?s1\<lparr>mem := m2\<rparr>)"
      "arp_inv (F \<union> set as) (ch(i := [])) (?s1\<lparr>mem := m2, arp_table := (arp_table s)[i := (entry s i)\<lparr>queued := None\<rparr>]\<rparr>)"
      "\<forall>a \<in> F \<union> set as. store m2 a = store ?m1 a"
    using drop_old_run [of "F \<union> set as" ch ?s1 i] assms(4) by auto
  let ?m3 = "set_pbuf p x m2"
  have p2: "store m2 p = Some (x\<lparr>pref := 2\<rparr>)" using m2(3) as by simp
  have same: "store ?m3 a = store (mem s) a" if "a \<in> F \<union> set as" for a using m2(3) that x(1) as assms(2) by auto
  have restored: "x\<lparr>pref := 1\<rparr> = x" using x(2) by (cases x) simp
  let ?t = "(arp_table s)[i := (entry s i)\<lparr>queued := Some p\<rparr>]"
  have free: "free_pbuf (Some p) (s\<lparr>mem := m2, arp_table := ?t\<rparr>) = Some (s\<lparr>mem := ?m3, arp_table := ?t\<rparr>)"
    unfolding free_pbuf_def pbuf_free_def by (subst pbuf_free_loop.simps) (use p2 restored in simp)
  have "arp_inv (F \<union> set as) (ch(i := [])) (s\<lparr>mem := ?m3, arp_table := (arp_table s)[i := (entry s i)\<lparr>queued := None\<rparr>]\<rparr>)"
    using arp_inv_foreign [OF m2(2), of p x] as p2 by (simp add: arp_inv_def)
  then have inv: "arp_inv F (ch(i := as)) (s\<lparr>mem := ?m3, arp_table := ?t\<rparr>)"
  proof (rule put_in_run [OF _ assms(4) len assms(5) _ _ _ assms(2)])
    show "packet ?m3 (Some p) as" using packet_cong [of as ?m3 "mem s"] same pk(1) by simp
    show "sole ?m3 as" using sole_cong [of as ?m3 "mem s"] same pk(2) by simp
    show "length (chain_bytes ?m3 as) \<le> 1500" using chain_bytes_cong [of as ?m3 "mem s"] same pk(3) by simp
  qed
  have "queue_packet env i (Some p) s = Some (ERR_OK, s\<lparr>mem := m2, arp_table := ?t\<rparr>)"
    using take m2(1) by (simp add: queue_packet_def upd_entry_def)
  moreover have "chain_bytes ?m3 as = chain_bytes (mem s) as" using chain_bytes_cong [of as ?m3 "mem s"] same by simp
  moreover have "linkable ?m3 p \<longleftrightarrow> linkable (mem s) p" using x(1) by (simp add: linkable_def)
  ultimately show ?thesis using free inv same unfolding queue_done_def
    by (intro exI [of _ ERR_OK] exI [of _ "s\<lparr>mem := m2, arp_table := ?t\<rparr>"] exI [of _ ?m3] exI [of _ "Some p"] exI [of _ "ch(i := as)"]) simp
qed

lemma queue_by_copy:
  assumes "env_ok env dev_ok wire" "arp_inv (F \<union> set as) ch s" "F \<inter> set as = {}" "outgoing (mem s) p as"
    and "i < ARP_TABLE_SIZE" "astate (entry s i) = ETHARP_STATE_PENDING" "\<exists>a \<in> set as. ptype (the (store (mem s) a)) = PBUF_REF"
  shows "queue_done env F i p as s"
proof -
  have pk: "packet (mem s) (Some p) as" "sole (mem s) as" "filled (mem s) as" "length (chain_bytes (mem s) as) \<le> 1500"
    using assms(4) by (simp_all add: outgoing_def)
  obtain x where x: "store (mem s) p = Some x" using packet_total [OF pk(1)] by blast
  have len: "length (arp_table s) = ARP_TABLE_SIZE" by (rule arp_inv_length [OF assms(2)])
  have copy: "needs_copy (Some p) (mem s) = Some True"
    using needs_copy_chain [of "mem s" "Some p" as] pk(1) assms(7) by (simp add: packet_def)
  let ?n = "of_nat (length (chain_bytes (mem s) as)) :: u16"
  have small: "ram_size PBUF_LINK ?n + SIZEOF_STRUCT_PBUF < 65536"
  proof -
    have "unat ?n \<le> 1500" using pk(4) by (simp add: unat_of_nat_small)
    then have "(unat ?n + 3) div 4 * 4 \<le> 1503" by linarith
    then show ?thesis by (simp add: ram_size_def MEM_ALIGN_SIZE_def PBUF_LINK_def SIZEOF_STRUCT_PBUF_def)
  qed
  have link: "PBUF_LINK \<le> PBUF_TRANSPORT" "MEM_ALIGN_SIZE PBUF_LINK = 16" by (simp_all add: PBUF_LINK_def PBUF_TRANSPORT_def MEM_ALIGN_SIZE_def)
  let ?k = "SIZEOF_STRUCT_PBUF + ram_size PBUF_LINK ?n"
  show ?thesis
  proof (cases "heap env (mem s) ?k")
    case None
    obtain y where y: "store (mem s) p = Some y" "unat (ptot y) = length (chain_bytes (mem s) as)" using packet_total [OF pk(1)] by blast
    have "?n = ptot y" using arg_cong [OF y(2), of "of_nat :: nat \<Rightarrow> u16"] by simp
    then have "?n = ptot x" using x y(1) by simp
    then have "pbuf_clone (heap env (mem s)) PBUF_LINK PBUF_RAM (Some p) (mem s) = Some (None, mem s)"
      using x None small alloc_ram [OF link(1), of "heap env (mem s)" "ptot x" "mem s"] by (simp add: pbuf_clone_def pbuf_alloc_def)
    then have "queue_packet env i (Some p) s = Some (ERR_MEM, s)" using copy by (simp add: queue_packet_def take_over_def)
    moreover obtain m where m: "free_pbuf (Some p) s = Some (s\<lparr>mem := m\<rparr>)" "arp_inv F ch (s\<lparr>mem := m\<rparr>)" "\<forall>a. a \<notin> set as \<longrightarrow> store m a = store (mem s) a"
      using free_run [OF assms(2,3) pk(1,2)] by blast
    moreover have "s\<lparr>mem := m, arp_table := (arp_table s)[i := (entry s i)\<lparr>queued := queued (entry s i)\<rparr>]\<rparr> = s\<lparr>mem := m\<rparr>" by (simp add: entry_def)
    ultimately show ?thesis using assms(3,7) unfolding queue_done_def
      by (intro exI [of _ ERR_MEM] exI [of _ s] exI [of _ m] exI [of _ "queued (entry s i)"] exI [of _ ch]) (auto simp: Let_def)
  next
    case (Some qb)
    then obtain q b where qb: "heap env (mem s) ?k = Some (q, b)" by (cases qb) auto
    have fresh: "store (mem s) q = None" "length b = ram_size PBUF_LINK ?n" using heap_ok_block [OF _ qb] assms(1) by (auto simp: env_ok_def)
    obtain m1 z where m1: "pbuf_clone (heap env (mem s)) PBUF_LINK PBUF_RAM (Some p) (mem s) = Some (Some q, m1)" "packet m1 (Some q) [q]"
        "chain_bytes m1 [q] = chain_bytes (mem s) as" "\<forall>a. a \<noteq> q \<longrightarrow> store m1 a = store (mem s) a" "store m1 q = Some z" "ptype z = PBUF_RAM" "beg z = 16" "pref z = 1"
      using clone_packet [OF pk(1,3) link(1) small, of "heap env (mem s)" q b] qb fresh link(2) by auto
    let ?s1 = "s\<lparr>mem := m1\<rparr>"
    have take: "take_over env (Some p) s = Some (Some q, ?s1)" using copy m1(1) by (simp add: take_over_def)
    have "heap_inv ((F \<union> set as) \<union> {q}) ch m1 (arp_table s)"
      by (rule heap_inv_extend [of _ _ "mem s"]) (use assms(2) fresh(1) m1(4,5) in \<open>auto simp: arp_inv_def\<close>)
    then have i1: "arp_inv ((F \<union> {q}) \<union> set as) ch ?s1" using assms(2) by (simp add: arp_inv_def Un_commute Un_left_commute)
    then obtain m2 where m2: "(case queued (entry ?s1 i) of None \<Rightarrow> Some ?s1 | Some old \<Rightarrow> free_pbuf (Some old) ?s1) = Some (?s1\<lparr>mem := m2\<rparr>)"
        "arp_inv ((F \<union> {q}) \<union> set as) (ch(i := [])) (?s1\<lparr>mem := m2, arp_table := (arp_table s)[i := (entry s i)\<lparr>queued := None\<rparr>]\<rparr>)"
        "\<forall>a \<in> (F \<union> {q}) \<union> set as. store m2 a = store m1 a"
      using drop_old_run [OF i1 assms(5)] by auto
    have qF: "q \<notin> F" "q \<notin> set as" using assms(2) fresh(1) heap_invD(4) [of "F \<union> set as" ch "mem s" "arp_table s" q] by (auto simp: arp_inv_def)
    let ?u = "s\<lparr>mem := m2, arp_table := (arp_table s)[i := (entry s i)\<lparr>queued := None\<rparr>]\<rparr>"
    have i2: "arp_inv ((F \<union> {q}) \<union> set as) (ch(i := [])) ?u" using m2(2) by (simp add: arp_inv_def)
    have same: "store m2 a = store (mem s) a" if "a \<in> F \<union> set as" for a using m2(3) m1(4) that qF by auto
    have asp: "packet (mem ?u) (Some p) as" "sole (mem ?u) as"
      using packet_cong [of as m2 "mem s"] sole_cong [of as m2 "mem s"] same pk(1,2) by simp_all
    have dis: "(F \<union> {q}) \<inter> set as = {}" using assms(3) qF by auto
    obtain m3 where m3: "free_pbuf (Some p) ?u = Some (?u\<lparr>mem := m3\<rparr>)" "arp_inv (F \<union> {q}) (ch(i := [])) (?u\<lparr>mem := m3\<rparr>)"
        "\<forall>a. a \<notin> set as \<longrightarrow> store m3 a = store m2 a"
      using free_run [OF i2 dis asp] by auto
    have q3: "store m3 q = store m1 q" using m3(3) m2(3) qF by simp
    let ?t = "(arp_table s)[i := (entry s i)\<lparr>queued := Some q\<rparr>]"
    have free: "free_pbuf (Some p) (s\<lparr>mem := m2, arp_table := ?t\<rparr>) = Some (s\<lparr>mem := m3, arp_table := ?t\<rparr>)"
      using m3(1) by (cases s) (auto simp: free_pbuf_def)
    have "arp_inv (F \<union> set [q]) (ch(i := [])) (s\<lparr>mem := m3, arp_table := (arp_table s)[i := (entry s i)\<lparr>queued := None\<rparr>]\<rparr>)"
      using m3(2) by (simp add: arp_inv_def)
    then have inv: "arp_inv F (ch(i := [q])) (s\<lparr>mem := m3, arp_table := ?t\<rparr>)"
    proof (rule put_in_run [OF _ assms(5) len assms(6)])
      show "packet m3 (Some q) [q]" using packet_cong [of "[q]" m3 m1] q3 m1(2) by simp
      show "sole m3 [q]" using q3 m1(5,8) by (simp add: sole_def)
      show "length (chain_bytes m3 [q]) \<le> 1500" using chain_bytes_cong [of "[q]" m3 m1] q3 m1(3) pk(4) by simp
      show "F \<inter> set [q] = {}" using qF by simp
    qed
    have "queue_packet env i (Some p) s = Some (ERR_OK, s\<lparr>mem := m2, arp_table := ?t\<rparr>)"
      using take m2(1) by (simp add: queue_packet_def upd_entry_def)
    moreover have "chain_bytes m3 [q] = chain_bytes (mem s) as" using chain_bytes_cong [of "[q]" m3 m1] q3 m1(3) by simp
    moreover have "linkable m3 q" using q3 m1(5-7) by (simp add: linkable_def contiguous_def SIZEOF_ETH_HDR_def)
    moreover have "\<forall>a \<in> F. store m3 a = store (mem s) a" using m3(3) same assms(3) by auto
    ultimately show ?thesis using free inv assms(7) unfolding queue_done_def
      by (intro exI [of _ ERR_OK] exI [of _ "s\<lparr>mem := m2, arp_table := ?t\<rparr>"] exI [of _ m3] exI [of _ "Some q"] exI [of _ "ch(i := [q])"]) simp
  qed
qed

end
