(* ===== verification/EtharpSteps.thy ===== *)
theory EtharpSteps
  imports EtharpRun
begin

text \<open>
  The operations of ARP one by one, each with what it does to the packets it is given, the table, the heap and the wire, and the module
  as a transition system: packets sent, ARP packets received, the timer, and the link lost, in any order.
\<close>

subsection \<open>Requests\<close>

text \<open>The heap has room for an ARP packet (which may fail in a real heap: then no packet is sent).\<close>

definition roomy :: "'d link_env \<Rightarrow> bool" where "roomy env \<longleftrightarrow> (\<forall>m. finite (dom (store m)) \<longrightarrow> heap env m 60 \<noteq> None)"

lemma arp_inv_finite: "arp_inv F ch s \<Longrightarrow> finite F \<Longrightarrow> finite (dom (store (mem s)))"
proof -
  assume a: "arp_inv F ch s" "finite F"
  have "dom (store (mem s)) \<subseteq> F \<union> (\<Union>i < ARP_TABLE_SIZE. set (ch i))"
    using heap_invD(4) [of F ch "mem s" "arp_table s"] a(1) unfolding arp_inv_def by blast
  moreover have "finite (F \<union> (\<Union>i < ARP_TABLE_SIZE. set (ch i)))" using a(2) by simp
  ultimately show "finite (dom (store (mem s)))" by (rule finite_subset)
qed

lemma roomyD: "roomy env \<Longrightarrow> finite (dom (store m)) \<Longrightarrow> heap env m 60 \<noteq> None"
  by (simp add: roomy_def)

definition request_frame :: "'d link_env \<Rightarrow> nat \<Rightarrow> u32 \<Rightarrow> u8 list \<Rightarrow> u8 list" where
  "request_frame env n ip dst =
     (let ni = ifs env n in eth_hdr dst (hwaddr ni) ETHTYPE_ARP @ etharp_hdr ARP_REQUEST (hwaddr ni) (ip_addr ni) ethzero ip)"

lemma eth_constants [simp]: "length ethzero = 6" "length ethbroadcast = 6"
  by (simp_all add: ethzero_def ethbroadcast_def)

lemma request_dst_run:
  assumes "env_ok env dev_ok wire" "dev_ok (dev s)" "length dst = 6"
  shows "\<exists>e d. etharp_request_dst env n ip dst s = Some (e, s\<lparr>dev := d\<rparr>) \<and> dev_ok d \<and> (e = ERR_OK \<longleftrightarrow> heap env (mem s) 60 \<noteq> None)
    \<and> wire d = sent (heap env (mem s) 60 \<noteq> None) (request_frame env n ip dst) (wire (dev s))"
proof -
  let ?h = "hwaddr (ifs env n)"
  consider "etharp_request_dst env n ip dst s = Some (ERR_MEM, s\<lparr>dev := dev s\<rparr>)" "heap env (mem s) 60 = None"
    | d where "etharp_request_dst env n ip dst s = Some (ERR_OK, s\<lparr>dev := d\<rparr>)" "dev_ok d" "heap env (mem s) 60 \<noteq> None"
        "wire d = wire (dev s) @ [request_frame env n ip dst]"
    using etharp_raw_run [OF assms(1,2), of ?h dst ?h ethzero n "ip_addr (ifs env n)" ip ARP_REQUEST] env_hwaddr [OF assms(1)] assms(3)
    by (auto simp: etharp_request_dst_def request_frame_def Let_def)
  then show ?thesis
  proof cases
    case 1
    then show ?thesis using assms(2) by (intro exI [of _ ERR_MEM] exI [of _ "dev s"]) (simp add: sent_def)
  next
    case (2 d)
    then show ?thesis by (intro exI [of _ ERR_OK] exI [of _ d]) (simp add: sent_def)
  qed
qed

lemma request_run:
  assumes "env_ok env dev_ok wire" "dev_ok (dev s)"
  shows "\<exists>e d. etharp_request env n ip s = Some (e, s\<lparr>dev := d\<rparr>) \<and> dev_ok d \<and> (e = ERR_OK \<longleftrightarrow> heap env (mem s) 60 \<noteq> None)
    \<and> wire d = sent (heap env (mem s) 60 \<noteq> None) (request_frame env n ip ethbroadcast) (wire (dev s))"
  using request_dst_run [OF assms, of ethbroadcast n ip] by (simp add: etharp_request_def)

subsection \<open>A packet handed over and released by its owner\<close>

definition handed ::
  "('d link_state \<Rightarrow> (err \<times> 'd link_state) option) \<Rightarrow> nat \<Rightarrow> 'd link_state \<Rightarrow> (err \<times> 'd link_state) option" where
  "handed f p s = do { (e, s1) \<leftarrow> f s; s2 \<leftarrow> free_pbuf (Some p) s1; Some (e, s2) }"

lemma queue_run:
  assumes "env_ok env dev_ok wire" "arp_inv (F \<union> set as) ch s" "F \<inter> set as = {}" "outgoing (mem s) p as"
    and "i < ARP_TABLE_SIZE" "astate (entry s i) = ETHARP_STATE_PENDING"
  shows "queue_done env F i p as s"
  using queue_by_copy [OF assms] queue_by_reference [OF assms(2-6)] by blast

definition kept :: "nat set \<Rightarrow> 'd link_state \<Rightarrow> 'd link_state \<Rightarrow> bool" where
  "kept F s s' \<longleftrightarrow> (\<forall>a \<in> F. store (mem s') a = store (mem s) a)"

lemma kept_refl [simp]: "kept F s s" and kept_trans: "kept F s t \<Longrightarrow> kept F t u \<Longrightarrow> kept F s u" and kept_mono: "kept G s t \<Longrightarrow> F \<subseteq> G \<Longrightarrow> kept F s t"
  by (auto simp: kept_def)

lemma outgoing_cong: "(\<And>a. a \<in> set as \<Longrightarrow> store m a = store m' a) \<Longrightarrow> outgoing m p as = outgoing m' p as"
  using packet_cong [of as m m'] sole_cong [of as m m'] chain_bytes_cong [of as m m'] by (simp add: outgoing_def filled_def)

lemma outgoing_kept:
  assumes "outgoing (mem s) p as" "kept (set as) s s'"
  shows "outgoing (mem s') p as" "chain_bytes (mem s') as = chain_bytes (mem s) as" "linkable (mem s') p = linkable (mem s) p"
    "(\<forall>a \<in> set as. ptype (the (store (mem s') a)) \<noteq> PBUF_REF) = (\<forall>a \<in> set as. ptype (the (store (mem s) a)) \<noteq> PBUF_REF)"
proof -
  have same: "store (mem s') a = store (mem s) a" if "a \<in> set as" for a using assms(2) that by (simp add: kept_def)
  show "outgoing (mem s') p as" using assms(1) outgoing_cong [of as "mem s'" "mem s"] same by simp
  show "chain_bytes (mem s') as = chain_bytes (mem s) as" using same by (rule chain_bytes_cong)
  have "p \<in> set as" using assms(1) by (cases as) (auto simp: outgoing_def packet_def)
  then show "linkable (mem s') p = linkable (mem s) p" using same by (simp add: linkable_def)
qed (use assms(2) in \<open>simp add: kept_def\<close>)

text \<open>A packet that waits is found under its address.\<close>

definition by_value :: "pmem \<Rightarrow> nat list \<Rightarrow> bool" where "by_value m as \<longleftrightarrow> (\<forall>a \<in> set as. ptype (the (store m a)) \<noteq> PBUF_REF)"

lemma queued_waiting:
  assumes "env_ok env dev_ok wire" "arp_inv (F \<union> set as) ch s" "F \<inter> set as = {}" "outgoing (mem s) p as"
    and "i < ARP_TABLE_SIZE" "astate (entry s i) = ETHARP_STATE_PENDING" "is_for ip n (entry s i)"
  shows "\<exists>e s' ch'. handed (queue_packet env i (Some p)) p s = Some (e, s') \<and> arp_inv F ch' s' \<and> dev s' = dev s \<and> kept F s s'
    \<and> (linkable (mem s) p \<and> e = ERR_OK \<longrightarrow> waiting (mem s') (arp_table s') ch' ip n = Some (chain_bytes (mem s) as))
    \<and> (linkable (mem s) p \<and> by_value (mem s) as \<longrightarrow> e = ERR_OK)"
proof -
  obtain e s1 m q ch' where q: "queue_packet env i (Some p) s = Some (e, s1)"
      "free_pbuf (Some p) s1 = Some (s\<lparr>mem := m, arp_table := (arp_table s)[i := (entry s i)\<lparr>queued := q\<rparr>]\<rparr>)"
      "arp_inv F ch' (s\<lparr>mem := m, arp_table := (arp_table s)[i := (entry s i)\<lparr>queued := q\<rparr>]\<rparr>)" "\<forall>a \<in> F. store m a = store (mem s) a"
      "e = ERR_OK \<longrightarrow> (\<exists>p'. q = Some p' \<and> chain_bytes m (ch' i) = chain_bytes (mem s) as \<and> (linkable (mem s) p \<longrightarrow> linkable m p'))"
      "linkable (mem s) p \<and> by_value (mem s) as \<longrightarrow> e = ERR_OK"
    using queue_run [OF assms(1-6)] unfolding queue_done_def Let_def by_value_def by blast
  let ?t = "(arp_table s)[i := (entry s i)\<lparr>queued := q\<rparr>]"
  have t: "?t ! i = (entry s i)\<lparr>queued := q\<rparr>" using assms(5) arp_inv_length [OF assms(2)] by simp
  then have "is_for ip n (?t ! i)" using assms(7) by (simp add: is_for_def)
  moreover have "wf_table ?t" using q(3) by (simp add: arp_inv_def)
  ultimately have "linkable (mem s) p \<and> e = ERR_OK \<longrightarrow> waiting m ?t ch' ip n = Some (chain_bytes (mem s) as)"
    using waiting_at [OF _ assms(5), of ?t ip n m ch'] q(5) t by auto
  then show ?thesis using q(1-4,6)
    by (intro exI [of _ e] exI [of _ "s\<lparr>mem := m, arp_table := ?t\<rparr>"] exI [of _ ch']) (simp add: handed_def kept_def)
qed

subsection \<open>A packet for an address that may have to be resolved\<close>

definition known :: "'d link_state \<Rightarrow> u32 \<Rightarrow> nat \<Rightarrow> bool" where "known s ip n \<longleftrightarrow> (\<exists>f \<in> set (arp_table s). is_for ip n f)"

definition unresolved :: "'d link_state \<Rightarrow> u32 \<Rightarrow> nat \<Rightarrow> bool" where "unresolved s ip n \<longleftrightarrow> (\<forall>eth. \<not> resolved s ip n eth)"

lemma known_at: "length (arp_table s) = ARP_TABLE_SIZE \<Longrightarrow> known s ip n \<longleftrightarrow> (\<exists>i < ARP_TABLE_SIZE. is_for ip n (entry s i))"
  by (auto simp: known_def entry_def in_set_conv_nth) (metis nth_mem)

lemma is_for_cases:
  assumes "is_for ip n e"
  obtains "ETHARP_STATE_STABLE \<le> astate e" | "astate e = ETHARP_STATE_PENDING"
  using state_cases [of e] assms by (auto simp: is_for_def)

lemma resolved_at:
  assumes "arp_inv F ch s" "i < ARP_TABLE_SIZE" "is_for ip n (entry s i)"
  shows "resolved s ip n eth \<longleftrightarrow> ETHARP_STATE_STABLE \<le> astate (entry s i) \<and> ethaddr (entry s i) = eth"
proof
  assume "resolved s ip n eth"
  then obtain j where j: "j < ARP_TABLE_SIZE" "ETHARP_STATE_STABLE \<le> astate (entry s j)" "ipaddr (entry s j) = ip" "ifnum (entry s j) = n"
      "ethaddr (entry s j) = eth" by (auto simp: resolved_def)
  then have "is_for ip n (entry s j)" by (auto simp: is_for_def)
  then have "j = i" using assms j(1) wf_table_unique [of "arp_table s" j i ip n] by (simp add: arp_inv_def entry_def)
  then show "ETHARP_STATE_STABLE \<le> astate (entry s i) \<and> ethaddr (entry s i) = eth" using j by simp
qed (use assms(2,3) in \<open>auto simp: resolved_def is_for_def\<close>)

text \<open>The outcome: refused, sent to the address that is known, or kept to wait, with a request sent if this is the first packet for the
  address.\<close>

definition query_outcome ::
  "'d link_env \<Rightarrow> ('d \<Rightarrow> u8 list list) \<Rightarrow> nat \<Rightarrow> u32 \<Rightarrow> nat \<Rightarrow> nat list \<Rightarrow> 'd link_state \<Rightarrow> err \<Rightarrow> 'd link_state \<Rightarrow> (nat \<Rightarrow> nat list) \<Rightarrow> bool" where
  "query_outcome env wire n ip p as s e s' ch' \<longleftrightarrow>
     (if \<not> unicast env n ip then e = ERR_ARG \<and> wire (dev s') = wire (dev s)
      else if unresolved s ip n then
        (\<exists>b. wire (dev s') = sent b (request_frame env n ip ethbroadcast) (wire (dev s)) \<and> (b \<longrightarrow> \<not> known s ip n)
          \<and> (\<not> known s ip n \<and> roomy env \<longrightarrow> b))
        \<and> (linkable (mem s) p \<and> e = ERR_OK \<longrightarrow> waiting (mem s') (arp_table s') ch' ip n = Some (chain_bytes (mem s) as))
        \<and> (linkable (mem s) p \<and> by_value (mem s) as \<longrightarrow> e = ERR_OK)
      else (\<exists>eth. resolved s ip n eth \<and> (e = ERR_OK \<longleftrightarrow> linkable (mem s) p)
        \<and> wire (dev s') = sent (linkable (mem s) p) (eth_hdr eth (hwaddr (ifs env n)) ETHTYPE_IP @ chain_bytes (mem s) as) (wire (dev s))))"

lemma query_run:
  assumes "env_ok env dev_ok wire" "dev_ok (dev s)" "arp_inv (F \<union> set as) ch s" "F \<inter> set as = {}" "outgoing (mem s) p as" "finite F"
  shows "\<exists>e s' ch'. handed (etharp_query env n ip (Some p)) p s = Some (e, s') \<and> arp_inv F ch' s' \<and> dev_ok (dev s') \<and> kept F s s'
    \<and> query_outcome env wire n ip p as s e s' ch'"
proof (cases "unicast env n ip")
  case False
  have "packet (mem s) (Some p) as" "sole (mem s) as" using assms(5) by (simp_all add: outgoing_def)
  then obtain m where m: "free_pbuf (Some p) s = Some (s\<lparr>mem := m\<rparr>)" "arp_inv F ch (s\<lparr>mem := m\<rparr>)" "\<forall>a. a \<notin> set as \<longrightarrow> store m a = store (mem s) a"
    using free_run [OF assms(3,4)] by blast
  have "etharp_query env n ip (Some p) s = Some (ERR_ARG, s)" using False by (auto simp: etharp_query_def unicast_def)
  then show ?thesis using False m assms(2,4)
    by (intro exI [of _ ERR_ARG] exI [of _ "s\<lparr>mem := m\<rparr>"] exI [of _ ch]) (auto simp: handed_def kept_def query_outcome_def)
next
  case True
  have len: "length (arp_table s) = ARP_TABLE_SIZE" by (rule arp_inv_length [OF assms(3)])
  have flags: "ETHARP_FLAG_TRY_HARD AND ETHARP_FLAG_FIND_ONLY = 0" "ETHARP_FLAG_TRY_HARD AND ETHARP_FLAG_TRY_HARD \<noteq> 0"
    by (simp_all add: ETHARP_FLAG_TRY_HARD_def ETHARP_FLAG_FIND_ONLY_def)
  have uni: "\<not> (isbroadcast ip (ifs env n) \<or> ip4_addr_ismulticast ip \<or> ip = 0)" using True by (simp add: unicast_def)
  consider (stable) i where "i < ARP_TABLE_SIZE" "etharp_find_entry (Some ip) ETHARP_FLAG_TRY_HARD n s = Some (Some i, s)" "is_for ip n (entry s i)"
        "ETHARP_STATE_STABLE \<le> astate (entry s i)"
    | (pending) i where "i < ARP_TABLE_SIZE" "etharp_find_entry (Some ip) ETHARP_FLAG_TRY_HARD n s = Some (Some i, s)" "is_for ip n (entry s i)"
        "astate (entry s i) = ETHARP_STATE_PENDING"
    | (new) i m where "\<forall>e \<in> set (arp_table s). \<not> is_for ip n e" "i < ARP_TABLE_SIZE"
        "etharp_find_entry (Some ip) ETHARP_FLAG_TRY_HARD n s = Some (Some i, new_entry i ip n m s)"
        "arp_inv (F \<union> set as) (ch(i := [])) (new_entry i ip n m s)" "\<forall>a \<in> F \<union> set as. store m a = store (mem s) a"
    using find_entry_run [OF assms(3), of ip ETHARP_FLAG_TRY_HARD n] flags
    by (elim disjE exE conjE) (rule is_for_cases, assumption, blast, blast, simp, blast)
  then show ?thesis
  proof cases
    case stable
    let ?s = "s\<lparr>cached_entry := i\<rparr>"
    have inv: "arp_inv (F \<union> set as) ch ?s" using assms(3) stable(1) by (rule arp_inv_cached)
    have "length (ethaddr (entry s i)) = 6" using arp_inv_entry [OF assms(3) stable(1)] stable(4) by (simp add: wf_entry_def)
    then obtain e s1 m d where o: "ethernet_output env n (Some p) (hwaddr (ifs env n)) (ethaddr (entry s i)) ETHTYPE_IP ?s = Some (e, s1)"
        "free_pbuf (Some p) s1 = Some (?s\<lparr>mem := m, dev := d\<rparr>)" "dev_ok d" "arp_inv F ch (?s\<lparr>mem := m, dev := d\<rparr>)" "\<forall>a \<in> F. store m a = store (mem ?s) a"
        "e = ERR_OK \<longleftrightarrow> linkable (mem ?s) p"
        "wire d = sent (linkable (mem ?s) p) (eth_hdr (ethaddr (entry s i)) (hwaddr (ifs env n)) ETHTYPE_IP @ chain_bytes (mem ?s) as) (wire (dev ?s))"
      using output_and_free [OF assms(1) _ inv assms(4), of p "ethaddr (entry s i)" "hwaddr (ifs env n)" n ETHTYPE_IP] assms(2,5)
        env_hwaddr [OF assms(1)] by (auto simp: outgoing_def)
    have res: "resolved s ip n (ethaddr (entry s i))" using resolved_at [OF assms(3) stable(1,3)] stable(4) by simp
    have "astate (entry s i) \<noteq> ETHARP_STATE_EMPTY" using stable(4) by auto
    then have "etharp_query env n ip (Some p) s = Some (e, s1)" using uni stable(2,4) o(1) by (simp add: etharp_query_def)
    then have "handed (etharp_query env n ip (Some p)) p s = Some (e, ?s\<lparr>mem := m, dev := d\<rparr>)" using o(2) by (simp add: handed_def)
    moreover have "query_outcome env wire n ip p as s e (?s\<lparr>mem := m, dev := d\<rparr>) ch"
      using True res o(6,7) by (auto simp: query_outcome_def unresolved_def)
    ultimately show ?thesis using o(3-5) by (intro exI [of _ e] exI [of _ "?s\<lparr>mem := m, dev := d\<rparr>"] exI [of _ ch]) (simp add: kept_def)
  next
    case pending
    have un: "unresolved s ip n" "known s ip n"
      using resolved_at [OF assms(3) pending(1,3)] pending(1,3,4) known_at [OF len] by (auto simp: unresolved_def)
    have "etharp_query env n ip (Some p) s = queue_packet env i (Some p) s" using uni pending(2,4) by (simp add: etharp_query_def)
    then have h: "handed (etharp_query env n ip (Some p)) p s = handed (queue_packet env i (Some p)) p s" by (simp add: handed_def)
    obtain e s' ch' where q: "handed (queue_packet env i (Some p)) p s = Some (e, s')" "arp_inv F ch' s'" "dev s' = dev s" "kept F s s'"
        "linkable (mem s) p \<and> e = ERR_OK \<longrightarrow> waiting (mem s') (arp_table s') ch' ip n = Some (chain_bytes (mem s) as)"
        "linkable (mem s) p \<and> by_value (mem s) as \<longrightarrow> e = ERR_OK"
      using queued_waiting [OF assms(1,3-5) pending(1,4,3)] by blast
    have "query_outcome env wire n ip p as s e s' ch'" unfolding query_outcome_def using True un q(3,5,6)
      by (auto simp: sent_def)
    then show ?thesis using h q(1-4) assms(2) by auto
  next
    case new
    define e2 where "e2 = (freed_entry (entry s i))\<lparr>ipaddr := ip, ctime := 0, astate := ETHARP_STATE_PENDING, ifnum := n\<rparr>"
    let ?t = "(arp_table s)[i := e2]"
    have e2: "wf_entry e2" "queued e2 = None" "\<And>ip' n'. is_for ip' n' e2 \<longleftrightarrow> ip' = ip \<and> n' = n" "astate e2 = ETHARP_STATE_PENDING"
      by (auto simp: e2_def wf_entry_def freed_entry_def is_for_def ARP_MAXAGE_def ARP_MAXPENDING_def)
    let ?s2 = "s\<lparr>mem := m, arp_table := ?t\<rparr>"
    have inv: "arp_inv (F \<union> set as) (ch(i := [])) ?s2" using new(1,2,4) e2 len by (intro new_entry_inv) auto
    obtain r d where r: "etharp_request env n ip ?s2 = Some (r, ?s2\<lparr>dev := d\<rparr>)" "dev_ok d"
        "wire d = sent (heap env m 60 \<noteq> None) (request_frame env n ip ethbroadcast) (wire (dev s))"
      using request_run [OF assms(1), of ?s2 n ip] assms(2) by auto
    let ?s3 = "?s2\<lparr>dev := d\<rparr>"
    have inv3: "arp_inv (F \<union> set as) (ch(i := [])) ?s3" using inv by (simp add: arp_inv_def)
    have ent: "entry ?s3 i = e2" using new(2) len by simp
    have keep: "kept (set as) s ?s3" "kept F s ?s3" using new(5) by (auto simp: kept_def)
    note out = outgoing_kept [OF assms(5) keep(1)]
    obtain e s' ch' where q: "handed (queue_packet env i (Some p)) p ?s3 = Some (e, s')" "arp_inv F ch' s'" "dev s' = d" "kept F ?s3 s'"
        "linkable (mem s) p \<and> e = ERR_OK \<longrightarrow> waiting (mem s') (arp_table s') ch' ip n = Some (chain_bytes (mem s) as)"
        "linkable (mem s) p \<and> by_value (mem s) as \<longrightarrow> e = ERR_OK"
      using queued_waiting [OF assms(1) inv3 assms(4) out(1) new(2), of ip n] ent e2(3,4) out(2-4) by (auto simp: by_value_def)
    have up: "upd_entry i (\<lambda>e. e\<lparr>astate := ETHARP_STATE_PENDING, ifnum := n\<rparr>) (new_entry i ip n m s) = ?s2"
      using new(2) len by (simp add: upd_entry_def new_entry_def e2_def)
    have "astate (entry (new_entry i ip n m s) i) = ETHARP_STATE_EMPTY" using new(2) len by (simp add: new_entry_def freed_entry_def)
    then have "etharp_query env n ip (Some p) s = queue_packet env i (Some p) ?s3"
      using uni new(3) up r(1) ent e2(4) new(2) len by (simp add: etharp_query_def)
    then have h: "handed (etharp_query env n ip (Some p)) p s = handed (queue_packet env i (Some p)) p ?s3" by (simp add: handed_def)
    have un: "unresolved s ip n" "\<not> known s ip n" using new(1) len by (auto simp: unresolved_def resolved_def known_def is_for_def entry_def)
    have "finite (dom (store m))" using arp_inv_finite [OF inv] assms(6) by simp
    then have "roomy env \<longrightarrow> heap env m 60 \<noteq> None" using roomyD by blast
    then have "query_outcome env wire n ip p as s e s' ch'" unfolding query_outcome_def using True un q(3,5,6) r(3) by auto
    then show ?thesis using h q(1-4) r(2) kept_trans [OF keep(2) q(4)] by auto
  qed
qed

subsection \<open>A packet for any address\<close>

text \<open>An entry in use that is about to expire is requested again: from its owner first, later from everybody.\<close>

definition rerequest :: "'d link_env \<Rightarrow> nat \<Rightarrow> etharp_entry \<Rightarrow> u8 list list" where
  "rerequest env n e =
     (if astate e \<noteq> ETHARP_STATE_STABLE \<or> ctime e < ARP_AGE_REREQUEST_USED_UNICAST then []
      else [request_frame env n (ipaddr e) (if ARP_AGE_REREQUEST_USED_BROADCAST \<le> ctime e then ethbroadcast else ethaddr e)])"

lemma rerequest_frames: "set (rerequest env n e) \<subseteq> {request_frame env n (ipaddr e) (ethaddr e), request_frame env n (ipaddr e) ethbroadcast}"
  by (simp add: rerequest_def)

lemma rerequested_inv:
  assumes "arp_inv F ch s" "i < ARP_TABLE_SIZE" "ETHARP_STATE_STABLE \<le> astate (entry s i)"
  shows "arp_inv F ch (upd_entry i (astate_update (\<lambda>_. ETHARP_STATE_STABLE_REREQUESTING_1)) s)"
  using arp_inv_entry [OF assms(1,2)] assms(3)
  by (intro arp_inv_entry_same [OF assms(1,2)]) (auto simp: wf_entry_def is_for_def)

lemma to_arp_index_run:
  assumes "env_ok env dev_ok wire" "dev_ok (dev s)" "arp_inv (F \<union> set as) ch s" "F \<inter> set as = {}" "outgoing (mem s) p as"
    and "i < ARP_TABLE_SIZE" "ETHARP_STATE_STABLE \<le> astate (entry s i)"
  shows "\<exists>e s'. handed (etharp_output_to_arp_index env n (Some p) i) p s = Some (e, s') \<and> arp_inv F ch s' \<and> dev_ok (dev s') \<and> kept F s s'
    \<and> (e = ERR_OK \<longleftrightarrow> linkable (mem s) p)
    \<and> wire (dev s') = sent (linkable (mem s) p) (eth_hdr (ethaddr (entry s i)) (hwaddr (ifs env n)) ETHTYPE_IP @ chain_bytes (mem s) as)
        (wire (dev s) @ (if heap env (mem s) 60 = None then [] else rerequest env n (entry s i)))"
proof -
  let ?e = "entry s i" and ?G = "F \<union> set as"
  have len: "length (arp_table s) = ARP_TABLE_SIZE" by (rule arp_inv_length [OF assms(3)])
  have eth: "length (ethaddr ?e) = 6" using arp_inv_entry [OF assms(3,6)] assms(7) by (simp add: wf_entry_def)
  let ?req = "if astate ?e = ETHARP_STATE_STABLE then
       (if ARP_AGE_REREQUEST_USED_BROADCAST \<le> ctime ?e then
          do { (r, s') \<leftarrow> etharp_request env n (ipaddr ?e) s;
               Some (if r = ERR_OK then upd_entry i (astate_update (\<lambda>_. ETHARP_STATE_STABLE_REREQUESTING_1)) s' else s') }
        else if ARP_AGE_REREQUEST_USED_UNICAST \<le> ctime ?e then
          do { (r, s') \<leftarrow> etharp_request_dst env n (ipaddr ?e) (ethaddr ?e) s;
               Some (if r = ERR_OK then upd_entry i (astate_update (\<lambda>_. ETHARP_STATE_STABLE_REREQUESTING_1)) s' else s') }
        else Some s)
     else Some s"
  have ask: "\<exists>s1. do { (r, s') \<leftarrow> etharp_request_dst env n (ipaddr ?e) dst s;
               Some (if r = ERR_OK then upd_entry i (astate_update (\<lambda>_. ETHARP_STATE_STABLE_REREQUESTING_1)) s' else s') } = Some s1
      \<and> arp_inv ?G ch s1 \<and> dev_ok (dev s1) \<and> mem s1 = mem s \<and> ethaddr (entry s1 i) = ethaddr ?e
      \<and> wire (dev s1) = wire (dev s) @ (if heap env (mem s) 60 = None then [] else [request_frame env n (ipaddr ?e) dst])" if six: "length dst = 6" for dst
  proof -
    obtain r d where r: "etharp_request_dst env n (ipaddr ?e) dst s = Some (r, s\<lparr>dev := d\<rparr>)" "dev_ok d"
        "wire d = sent (heap env (mem s) 60 \<noteq> None) (request_frame env n (ipaddr ?e) dst) (wire (dev s))"
      using request_dst_run [OF assms(1,2) six, of n "ipaddr ?e"] by blast
    have inv: "arp_inv ?G ch (s\<lparr>dev := d\<rparr>)" using assms(3) by simp
    show ?thesis
    proof (cases "r = ERR_OK")
      case True
      then show ?thesis using r rerequested_inv [OF inv assms(6)] assms(6,7) len by (simp add: upd_entry_def sent_def)
    next
      case False
      then show ?thesis using r inv by (simp add: sent_def)
    qed
  qed
  have late: "ARP_AGE_REREQUEST_USED_UNICAST \<le> ctime ?e" if "ARP_AGE_REREQUEST_USED_BROADCAST \<le> ctime ?e"
  proof -
    have "ARP_AGE_REREQUEST_USED_UNICAST \<le> ARP_AGE_REREQUEST_USED_BROADCAST"
      by (simp add: ARP_AGE_REREQUEST_USED_BROADCAST_def ARP_AGE_REREQUEST_USED_UNICAST_def ARP_MAXAGE_def)
    then show ?thesis using that by (rule order_trans)
  qed
  have "\<exists>s1. ?req = Some s1 \<and> arp_inv ?G ch s1 \<and> dev_ok (dev s1) \<and> mem s1 = mem s \<and> ethaddr (entry s1 i) = ethaddr ?e
      \<and> wire (dev s1) = wire (dev s) @ (if heap env (mem s) 60 = None then [] else rerequest env n ?e)"
  proof (cases "astate ?e = ETHARP_STATE_STABLE \<and> ARP_AGE_REREQUEST_USED_UNICAST \<le> ctime ?e")
    case True
    define dst where "dst = (if ARP_AGE_REREQUEST_USED_BROADCAST \<le> ctime ?e then ethbroadcast else ethaddr ?e)"
    have re: "rerequest env n ?e = [request_frame env n (ipaddr ?e) dst]" using True by (simp add: rerequest_def not_less dst_def)
    have req: "?req = do { (r, s') \<leftarrow> etharp_request_dst env n (ipaddr ?e) dst s;
               Some (if r = ERR_OK then upd_entry i (astate_update (\<lambda>_. ETHARP_STATE_STABLE_REREQUESTING_1)) s' else s') }"
      using True by (simp add: etharp_request_def dst_def)
    have "length dst = 6" using eth by (simp add: dst_def)
    then show ?thesis unfolding re req by (rule ask)
  next
    case False
    then have "?req = Some s" "rerequest env n ?e = []" using late by (auto simp: rerequest_def not_le)
    then show ?thesis using assms(2,3) by simp
  qed
  then obtain s1 where s1: "?req = Some s1" "arp_inv ?G ch s1" "dev_ok (dev s1)" "mem s1 = mem s" "ethaddr (entry s1 i) = ethaddr ?e"
      "wire (dev s1) = wire (dev s) @ (if heap env (mem s) 60 = None then [] else rerequest env n ?e)"
    by blast
  obtain e s2 m d where o: "ethernet_output env n (Some p) (hwaddr (ifs env n)) (ethaddr ?e) ETHTYPE_IP s1 = Some (e, s2)"
      "free_pbuf (Some p) s2 = Some (s1\<lparr>mem := m, dev := d\<rparr>)" "dev_ok d" "arp_inv F ch (s1\<lparr>mem := m, dev := d\<rparr>)" "\<forall>a \<in> F. store m a = store (mem s) a"
      "e = ERR_OK \<longleftrightarrow> linkable (mem s) p"
      "wire d = sent (linkable (mem s) p) (eth_hdr (ethaddr ?e) (hwaddr (ifs env n)) ETHTYPE_IP @ chain_bytes (mem s) as) (wire (dev s1))"
    using output_and_free [OF assms(1) s1(3,2) assms(4), of p "ethaddr ?e" "hwaddr (ifs env n)" n ETHTYPE_IP] assms(5) s1(4) eth env_hwaddr [OF assms(1)]
    by (auto simp: outgoing_def)
  have "handed (etharp_output_to_arp_index env n (Some p) i) p s = Some (e, s1\<lparr>mem := m, dev := d\<rparr>)"
    using s1(1,5) o(1,2) by (simp add: handed_def etharp_output_to_arp_index_def Let_def)
  then show ?thesis using o s1(6) by (intro exI [of _ e] exI [of _ "s1\<lparr>mem := m, dev := d\<rparr>"]) (simp add: kept_def)
qed

lemma stable_scan_some: "stable_scan ip n k t = Some i \<Longrightarrow>
    k \<le> i \<and> i < k + length t \<and> ETHARP_STATE_STABLE \<le> astate (t ! (i - k)) \<and> ifnum (t ! (i - k)) = n \<and> ipaddr (t ! (i - k)) = ip"
  by (induction t arbitrary: k) (fastforce simp: nth_Cons' Suc_diff_Suc split: if_splits)+

lemma stable_scan_none: "stable_scan ip n k t = None \<Longrightarrow> \<forall>e \<in> set t. \<not> (ETHARP_STATE_STABLE \<le> astate e \<and> ifnum e = n \<and> ipaddr e = ip)"
  by (induction t arbitrary: k) (auto split: if_splits)

text \<open>The address to resolve: the destination or the gateway on the way to it.\<close>

definition off_link :: "'d link_env \<Rightarrow> nat \<Rightarrow> u32 \<Rightarrow> bool" where
  "off_link env n ip \<longleftrightarrow> (let ni = ifs env n in ip AND netmask ni \<noteq> ip_addr ni AND netmask ni \<and> \<not> islinklocal ip)"

definition next_hop :: "'d link_env \<Rightarrow> nat \<Rightarrow> u32 \<Rightarrow> u32" where
  "next_hop env n ip = (if off_link env n ip then gw (ifs env n) else ip)"

definition no_route :: "'d link_env \<Rightarrow> nat \<Rightarrow> u32 \<Rightarrow> bool" where "no_route env n ip \<longleftrightarrow> off_link env n ip \<and> gw (ifs env n) = 0"

definition group_eth :: "'d link_env \<Rightarrow> nat \<Rightarrow> u32 \<Rightarrow> u8 list option" where
  "group_eth env n ip = (if isbroadcast ip (ifs env n) then Some ethbroadcast else if ip4_addr_ismulticast ip then Some (multicast_eth ip) else None)"

definition sent_to ::
  "'d link_env \<Rightarrow> ('d \<Rightarrow> u8 list list) \<Rightarrow> nat \<Rightarrow> u8 list \<Rightarrow> nat \<Rightarrow> nat list \<Rightarrow> 'd link_state \<Rightarrow> u8 list list \<Rightarrow> err \<Rightarrow> 'd link_state \<Rightarrow> bool" where
  "sent_to env wire n eth p as s r e s' \<longleftrightarrow> (e = ERR_OK \<longleftrightarrow> linkable (mem s) p)
     \<and> wire (dev s') = sent (linkable (mem s) p) (eth_hdr eth (hwaddr (ifs env n)) ETHTYPE_IP @ chain_bytes (mem s) as) (wire (dev s) @ r)"

definition output_outcome ::
  "'d link_env \<Rightarrow> ('d \<Rightarrow> u8 list list) \<Rightarrow> nat \<Rightarrow> u32 \<Rightarrow> nat \<Rightarrow> nat list \<Rightarrow> 'd link_state \<Rightarrow> err \<Rightarrow> 'd link_state \<Rightarrow> (nat \<Rightarrow> nat list) \<Rightarrow> bool" where
  "output_outcome env wire n ip p as s e s' ch' \<longleftrightarrow>
     (case group_eth env n ip of
        Some eth \<Rightarrow> sent_to env wire n eth p as s [] e s'
      | None \<Rightarrow>
          let dst = next_hop env n ip in
          if no_route env n ip then e = ERR_RTE \<and> wire (dev s') = wire (dev s)
          else if unresolved s dst n then query_outcome env wire n dst p as s e s' ch'
          else (\<exists>eth r. resolved s dst n eth \<and> sent_to env wire n eth p as s r e s'
            \<and> set r \<subseteq> {request_frame env n dst eth, request_frame env n dst ethbroadcast}))"

lemma output_group:
  assumes "env_ok env dev_ok wire" "dev_ok (dev s)" "arp_inv (F \<union> set as) ch s" "F \<inter> set as = {}" "outgoing (mem s) p as" "length eth = 6"
  shows "\<exists>e s'. handed (ethernet_output env n (Some p) (hwaddr (ifs env n)) eth ETHTYPE_IP) p s = Some (e, s') \<and> arp_inv F ch s' \<and> dev_ok (dev s')
    \<and> kept F s s' \<and> sent_to env wire n eth p as s [] e s'"
proof -
  obtain e s1 m d where o: "ethernet_output env n (Some p) (hwaddr (ifs env n)) eth ETHTYPE_IP s = Some (e, s1)"
      "free_pbuf (Some p) s1 = Some (s\<lparr>mem := m, dev := d\<rparr>)" "dev_ok d" "arp_inv F ch (s\<lparr>mem := m, dev := d\<rparr>)" "\<forall>a \<in> F. store m a = store (mem s) a"
      "e = ERR_OK \<longleftrightarrow> linkable (mem s) p"
      "wire d = sent (linkable (mem s) p) (eth_hdr eth (hwaddr (ifs env n)) ETHTYPE_IP @ chain_bytes (mem s) as) (wire (dev s))"
    using output_and_free [OF assms(1-4), of p eth "hwaddr (ifs env n)" n ETHTYPE_IP] assms(5,6) env_hwaddr [OF assms(1)] by (auto simp: outgoing_def)
  then show ?thesis by (intro exI [of _ e] exI [of _ "s\<lparr>mem := m, dev := d\<rparr>"]) (simp add: handed_def kept_def sent_to_def)
qed

lemma output_indexed:
  assumes "env_ok env dev_ok wire" "dev_ok (dev s)" "arp_inv (F \<union> set as) ch s" "F \<inter> set as = {}" "outgoing (mem s) p as" "i < ARP_TABLE_SIZE"
    and "ETHARP_STATE_STABLE \<le> astate (entry s i)" "ifnum (entry s i) = n" "ipaddr (entry s i) = dst"
  shows "\<exists>e s'. handed (etharp_output_to_arp_index env n (Some p) i) p (s\<lparr>cached_entry := i\<rparr>) = Some (e, s') \<and> arp_inv F ch s' \<and> dev_ok (dev s')
    \<and> kept F s s' \<and> \<not> unresolved s dst n \<and> (\<exists>eth r. resolved s dst n eth \<and> sent_to env wire n eth p as s r e s'
            \<and> set r \<subseteq> {request_frame env n dst eth, request_frame env n dst ethbroadcast})"
proof -
  let ?s = "s\<lparr>cached_entry := i\<rparr>" and ?eth = "ethaddr (entry s i)"
  let ?r = "if heap env (mem s) 60 = None then [] else rerequest env n (entry s i)"
  have inv: "arp_inv (F \<union> set as) ch ?s" using assms(3,6) by (rule arp_inv_cached)
  obtain e s' where o: "handed (etharp_output_to_arp_index env n (Some p) i) p ?s = Some (e, s')" "arp_inv F ch s'" "dev_ok (dev s')" "kept F s s'"
      "sent_to env wire n ?eth p as s ?r e s'"
    using to_arp_index_run [OF assms(1) _ inv assms(4) _ assms(6), of p n] assms(2,5,7) unfolding sent_to_def kept_def by auto
  have "is_for dst n (entry s i)" using assms(7-9) by (auto simp: is_for_def)
  then have "resolved s dst n ?eth" using resolved_at [OF assms(3,6)] assms(7) by blast
  moreover have "set ?r \<subseteq> {request_frame env n dst ?eth, request_frame env n dst ethbroadcast}" using rerequest_frames [of env n "entry s i"] assms(9) by auto
  ultimately show ?thesis using o unfolding unresolved_def by blast
qed

lemma output_cases: "etharp_output env n q ip s =
    (if isbroadcast ip (ifs env n) then ethernet_output env n q (hwaddr (ifs env n)) ethbroadcast ETHTYPE_IP s
     else if ip4_addr_ismulticast ip then ethernet_output env n q (hwaddr (ifs env n)) (multicast_eth ip) ETHTYPE_IP s
     else if no_route env n ip then Some (ERR_RTE, s)
     else if ETHARP_STATE_STABLE \<le> astate (entry s (cached_entry s)) \<and> ifnum (entry s (cached_entry s)) = n \<and> next_hop env n ip = ipaddr (entry s (cached_entry s))
     then etharp_output_to_arp_index env n q (cached_entry s) s
     else (case stable_scan (next_hop env n ip) n 0 (arp_table s) of
             Some i \<Rightarrow> etharp_output_to_arp_index env n q i (s\<lparr>cached_entry := i\<rparr>)
           | None \<Rightarrow> etharp_query env n (next_hop env n ip) q s))"
  unfolding etharp_output_def no_route_def off_link_def next_hop_def Let_def conj_assoc ..

lemma output_run:
  assumes "env_ok env dev_ok wire" "dev_ok (dev s)" "arp_inv (F \<union> set as) ch s" "F \<inter> set as = {}" "outgoing (mem s) p as" "finite F"
  shows "\<exists>e s' ch'. handed (\<lambda>s. etharp_output env n (Some p) ip s) p s = Some (e, s') \<and> arp_inv F ch' s' \<and> dev_ok (dev s') \<and> kept F s s'
    \<and> output_outcome env wire n ip p as s e s' ch'"
proof (cases "group_eth env n ip")
  case (Some eth)
  then have "length eth = 6" by (auto simp: group_eth_def multicast_eth_def split: if_splits)
  note g = output_group [OF assms(1-5) this, of n]
  have "etharp_output env n (Some p) ip s = ethernet_output env n (Some p) (hwaddr (ifs env n)) eth ETHTYPE_IP s"
    using Some by (auto simp: etharp_output_def group_eth_def Let_def split: if_splits)
  then have "handed (\<lambda>s. etharp_output env n (Some p) ip s) p s = handed (ethernet_output env n (Some p) (hwaddr (ifs env n)) eth ETHTYPE_IP) p s"
    by (simp add: handed_def)
  then show ?thesis using g Some by (auto simp: output_outcome_def)
next
  case None
  then have grp: "\<not> isbroadcast ip (ifs env n)" "\<not> ip4_addr_ismulticast ip" by (auto simp: group_eth_def split: if_splits)
  let ?dst = "next_hop env n ip" and ?c = "cached_entry s"
  show ?thesis
  proof (cases "no_route env n ip")
    case True
    have "packet (mem s) (Some p) as" "sole (mem s) as" using assms(5) by (simp_all add: outgoing_def)
    then obtain m where m: "free_pbuf (Some p) s = Some (s\<lparr>mem := m\<rparr>)" "arp_inv F ch (s\<lparr>mem := m\<rparr>)" "\<forall>a. a \<notin> set as \<longrightarrow> store m a = store (mem s) a"
      using free_run [OF assms(3,4)] by blast
    have "etharp_output env n (Some p) ip s = Some (ERR_RTE, s)" using grp True by (simp add: etharp_output_def no_route_def off_link_def Let_def)
    then show ?thesis using True None m assms(2,4)
      by (intro exI [of _ ERR_RTE] exI [of _ "s\<lparr>mem := m\<rparr>"] exI [of _ ch]) (auto simp: handed_def kept_def output_outcome_def)
  next
    case False
    have hop: "etharp_output env n (Some p) ip s =
       (if ETHARP_STATE_STABLE \<le> astate (entry s ?c) \<and> ifnum (entry s ?c) = n \<and> ?dst = ipaddr (entry s ?c) then etharp_output_to_arp_index env n (Some p) ?c s
        else (case stable_scan ?dst n 0 (arp_table s) of
             Some i \<Rightarrow> etharp_output_to_arp_index env n (Some p) i (s\<lparr>cached_entry := i\<rparr>)
           | None \<Rightarrow> etharp_query env n ?dst (Some p) s))"
      unfolding output_cases if_not_P [OF grp(1)] if_not_P [OF grp(2)] if_not_P [OF False] ..
    show ?thesis
    proof (cases "(ETHARP_STATE_STABLE \<le> astate (entry s ?c) \<and> ifnum (entry s ?c) = n \<and> ?dst = ipaddr (entry s ?c)) \<or> stable_scan ?dst n 0 (arp_table s) \<noteq> None")
      case True
      have "\<exists>i < ARP_TABLE_SIZE. ETHARP_STATE_STABLE \<le> astate (entry s i) \<and> ifnum (entry s i) = n \<and> ipaddr (entry s i) = ?dst
          \<and> etharp_output env n (Some p) ip s = etharp_output_to_arp_index env n (Some p) i (s\<lparr>cached_entry := i\<rparr>)"
      proof (cases "ETHARP_STATE_STABLE \<le> astate (entry s ?c) \<and> ifnum (entry s ?c) = n \<and> ?dst = ipaddr (entry s ?c)")
        case True
        then show ?thesis using hop assms(3) by (intro exI [of _ ?c]) (simp add: arp_inv_def)
      next
        case False
        then obtain i where "stable_scan ?dst n 0 (arp_table s) = Some i" using True by blast
        then show ?thesis using stable_scan_some [of ?dst n 0 "arp_table s" i] hop False arp_inv_length [OF assms(3)]
          by (intro exI [of _ i]) (auto simp: entry_def)
      qed
      then obtain i where i: "i < ARP_TABLE_SIZE" "ETHARP_STATE_STABLE \<le> astate (entry s i)" "ifnum (entry s i) = n" "ipaddr (entry s i) = ?dst"
          "etharp_output env n (Some p) ip s = etharp_output_to_arp_index env n (Some p) i (s\<lparr>cached_entry := i\<rparr>)" by blast
      have "handed (\<lambda>s. etharp_output env n (Some p) ip s) p s = handed (etharp_output_to_arp_index env n (Some p) i) p (s\<lparr>cached_entry := i\<rparr>)"
        using i(5) by (simp add: handed_def)
      then obtain e s' where o: "handed (\<lambda>s. etharp_output env n (Some p) ip s) p s = Some (e, s')" "arp_inv F ch s'" "dev_ok (dev s')" "kept F s s'"
          "\<not> unresolved s ?dst n" "\<exists>eth r. resolved s ?dst n eth \<and> sent_to env wire n eth p as s r e s'
            \<and> set r \<subseteq> {request_frame env n ?dst eth, request_frame env n ?dst ethbroadcast}"
        using output_indexed [OF assms(1-5) i(1-4)] by auto
      from o(5,6) have "output_outcome env wire n ip p as s e s' ch" unfolding output_outcome_def Let_def None option.case if_not_P [OF False] by simp
      then show ?thesis using o(1-4) by blast
    next
      case scan: False
      have "unresolved s ?dst n" using scan stable_scan_none [of ?dst n 0 "arp_table s"] arp_inv_length [OF assms(3)]
        by (auto simp: unresolved_def resolved_def entry_def)
      moreover have "handed (\<lambda>s. etharp_output env n (Some p) ip s) p s = handed (etharp_query env n ?dst (Some p)) p s"
        using hop scan by (auto simp: handed_def)
      ultimately show ?thesis using query_run [OF assms, of n ?dst] None False unfolding output_outcome_def Let_def by auto
    qed
  qed
qed

subsection \<open>An ARP packet received\<close>

text \<open>The code reads the header of the packet where the first buffer begins, without a look at its length.\<close>

definition arp_bytes :: "pmem \<Rightarrow> nat \<Rightarrow> u8 list" where
  "arp_bytes m p = take 28 (drop (beg (the (store m p))) (blk (the (store m p))))"

definition readable :: "pmem \<Rightarrow> nat \<Rightarrow> bool" where "readable m p \<longleftrightarrow> beg (the (store m p)) + 28 \<le> length (blk (the (store m p)))"

definition arp_header_ok :: "u8 list \<Rightarrow> bool" where "arp_header_ok h \<longleftrightarrow> take 6 h = be16 1 @ be16 ETHTYPE_IP @ [6, 4]"

lemma length_etharp_hdr: "length shw = 6 \<Longrightarrow> length dhw = 6 \<Longrightarrow> length (etharp_hdr op shw sip dhw dip) = 28"
  by (simp add: etharp_hdr_def be16_def le32_def)

lemma header_of_etharp_hdr [simp]: "arp_header_ok (etharp_hdr op shw sip dhw dip)"
  by (simp add: arp_header_ok_def etharp_hdr_def be16_def)

text \<open>The fields.\<close>

definition arp_op :: "u8 list \<Rightarrow> u16" where "arp_op h = un_be16 (h ! 6) (h ! 7)"
definition arp_shwaddr :: "u8 list \<Rightarrow> u8 list" where "arp_shwaddr h = take 6 (drop 8 h)"
definition arp_sipaddr :: "u8 list \<Rightarrow> u32" where "arp_sipaddr h = un_le32 (h ! 14) (h ! 15) (h ! 16) (h ! 17)"
definition arp_dipaddr :: "u8 list \<Rightarrow> u32" where "arp_dipaddr h = un_le32 (h ! 24) (h ! 25) (h ! 26) (h ! 27)"

lemma etharp_hdr_fields [simp]:
  assumes "length shw = 6" "length dhw = 6"
  shows "arp_op (etharp_hdr op shw sip dhw dip) = op" "arp_shwaddr (etharp_hdr op shw sip dhw dip) = shw"
    "arp_sipaddr (etharp_hdr op shw sip dhw dip) = sip" "arp_dipaddr (etharp_hdr op shw sip dhw dip) = dip"
proof -
  have l: "etharp_hdr op shw sip dhw dip = [0, 1, 8, 0, 6, 4, ucast (drop_bit 8 op), ucast op] @ shw @ le32 sip @ dhw @ le32 dip"
    by (simp add: etharp_hdr_def be16_def ETHTYPE_IP_def)
  show "arp_op (etharp_hdr op shw sip dhw dip) = op" "arp_shwaddr (etharp_hdr op shw sip dhw dip) = shw"
    "arp_sipaddr (etharp_hdr op shw sip dhw dip) = sip" "arp_dipaddr (etharp_hdr op shw sip dhw dip) = dip"
    unfolding l using assms
    by (simp_all add: arp_op_def arp_shwaddr_def arp_sipaddr_def arp_dipaddr_def nth_append le32_def un_le32_le32 un_be16_be16)
qed

lemma arp_header_checks:
  assumes "length h = 28"
  shows "arp_header_ok h \<longleftrightarrow> \<not> (un_be16 (h ! 0) (h ! 1) \<noteq> 1 \<or> h ! 4 \<noteq> 6 \<or> h ! 5 \<noteq> 4 \<or> un_be16 (h ! 2) (h ! 3) \<noteq> ETHTYPE_IP)"
proof -
  have "take 6 h = [h ! 0, h ! 1, h ! 2, h ! 3, h ! 4, h ! 5]"
    using assms by (intro nth_equalityI) (auto simp: less_Suc_eq numeral_eq_Suc)
  moreover have "un_be16 a b = w \<longleftrightarrow> [a, b] = be16 w" for a b w
    by (metis be16_un_be16 un_be16_be16 be16_def list.inject)
  ultimately show ?thesis by (auto simp: arp_header_ok_def) (auto simp: be16_def)
qed

definition for_us :: "'d link_env \<Rightarrow> nat \<Rightarrow> u8 list \<Rightarrow> bool" where
  "for_us env n h \<longleftrightarrow> ip_addr (ifs env n) \<noteq> 0 \<and> arp_dipaddr h = ip_addr (ifs env n)"

definition learns :: "'d link_env \<Rightarrow> nat \<Rightarrow> u8 list \<Rightarrow> 'd link_state \<Rightarrow> bool" where
  "learns env n h s \<longleftrightarrow> unicast env n (arp_sipaddr h) \<and> (for_us env n h \<or> known s (arp_sipaddr h) n)"

definition reply_frame :: "'d link_env \<Rightarrow> nat \<Rightarrow> u8 list \<Rightarrow> u8 list" where
  "reply_frame env n h =
     (let ni = ifs env n in eth_hdr (arp_shwaddr h) (hwaddr ni) ETHTYPE_ARP @ etharp_hdr ARP_REPLY (hwaddr ni) (ip_addr ni) (arp_shwaddr h) (arp_sipaddr h))"

text \<open>What has waited for the address is sent to its owner.\<close>

definition released :: "'d link_env \<Rightarrow> nat \<Rightarrow> u8 list \<Rightarrow> (nat \<Rightarrow> nat list) \<Rightarrow> 'd link_state \<Rightarrow> u8 list list" where
  "released env n h ch s =
     (case if unicast env n (arp_sipaddr h) then waiting (mem s) (arp_table s) ch (arp_sipaddr h) n else None of None \<Rightarrow> []
      | Some b \<Rightarrow> [eth_hdr (arp_shwaddr h) (hwaddr (ifs env n)) ETHTYPE_IP @ b])"

definition input_outcome ::
  "'d link_env \<Rightarrow> ('d \<Rightarrow> u8 list list) \<Rightarrow> nat \<Rightarrow> u8 list \<Rightarrow> 'd link_state \<Rightarrow> (nat \<Rightarrow> nat list) \<Rightarrow> 'd link_state \<Rightarrow> bool" where
  "input_outcome env wire n h s ch s' \<longleftrightarrow>
     (if \<not> arp_header_ok h then arp_table s' = arp_table s \<and> wire (dev s') = wire (dev s)
      else (if learns env n h s then resolved s' (arp_sipaddr h) n (arp_shwaddr h) else arp_table s' = arp_table s)
        \<and> (\<exists>b. wire (dev s') = sent b (reply_frame env n h) (wire (dev s) @ released env n h ch s) \<and> (b \<longrightarrow> arp_op h = ARP_REQUEST \<and> for_us env n h)
          \<and> (arp_op h = ARP_REQUEST \<and> for_us env n h \<and> roomy env \<longrightarrow> b)))"

lemma input_outcomeI:
  assumes "arp_header_ok h" "if learns env n h s then resolved s' (arp_sipaddr h) n (arp_shwaddr h) else arp_table s' = arp_table s"
    and "wire (dev s') = sent b (reply_frame env n h) (wire (dev s) @ released env n h ch s)" "b \<longrightarrow> arp_op h = ARP_REQUEST \<and> for_us env n h"
    and "arp_op h = ARP_REQUEST \<and> for_us env n h \<and> roomy env \<longrightarrow> b"
  shows "input_outcome env wire n h s ch s'"
proof -
  have "\<not> \<not> arp_header_ok h" using assms(1) by simp
  then show ?thesis unfolding input_outcome_def by (subst if_not_P, assumption) (use assms(2-5) in blast)
qed

lemma reply_run:
  assumes "env_ok env dev_ok wire" "dev_ok (dev s)" "length h = 28" "finite (dom (store (mem s)))"
  shows "\<exists>d b. (if arp_op h = ARP_REQUEST \<and> for_us env n h
      then map_option snd (etharp_raw env n (hwaddr (ifs env n)) (arp_shwaddr h) (hwaddr (ifs env n)) (ip_addr (ifs env n)) (arp_shwaddr h) (arp_sipaddr h) ARP_REPLY s)
      else Some s) = Some (s\<lparr>dev := d\<rparr>) \<and> dev_ok d \<and> wire d = sent b (reply_frame env n h) (wire (dev s)) \<and> (b \<longrightarrow> arp_op h = ARP_REQUEST \<and> for_us env n h)
    \<and> (arp_op h = ARP_REQUEST \<and> for_us env n h \<and> roomy env \<longrightarrow> b)"
proof (cases "arp_op h = ARP_REQUEST \<and> for_us env n h")
  case True
  have len: "length (arp_shwaddr h) = 6" using assms(3) by (simp add: arp_shwaddr_def)
  let ?h = "hwaddr (ifs env n)"
  let ?r = "etharp_raw env n ?h (arp_shwaddr h) ?h (ip_addr (ifs env n)) (arp_shwaddr h) (arp_sipaddr h) ARP_REPLY s"
  consider "?r = Some (ERR_MEM, s\<lparr>dev := dev s\<rparr>)" "heap env (mem s) 60 = None"
    | d where "?r = Some (ERR_OK, s\<lparr>dev := d\<rparr>)" "dev_ok d" "wire d = wire (dev s) @ [reply_frame env n h]"
    using etharp_raw_run [OF assms(1,2), of ?h "arp_shwaddr h" ?h "arp_shwaddr h" n "ip_addr (ifs env n)" "arp_sipaddr h" ARP_REPLY]
      env_hwaddr [OF assms(1), of n] len by (auto simp: reply_frame_def Let_def)
  then show ?thesis
  proof cases
    case 1
    then have "\<not> roomy env" using roomyD [of env "mem s"] assms(4) by blast
    then show ?thesis using 1 True assms(2) by (intro exI [of _ "dev s"] exI [of _ False]) (simp add: sent_def)
  next
    case (2 d)
    then show ?thesis using True by (intro exI [of _ d] exI [of _ True]) (auto simp: sent_def)
  qed
next
  case False
  then show ?thesis using assms(2) by (intro exI [of _ "dev s"] exI [of _ False]) (auto simp: sent_def)
qed

text \<open>The reading of the header, in one piece.\<close>

lemma input_header:
  assumes "store (mem s) p = Some x" "readable (mem s) p"
  shows "etharp_input env n (Some p) s =
    (let h = arp_bytes (mem s) p in
     if \<not> arp_header_ok h then free_pbuf (Some p) s
     else
       do { (_, s1) \<leftarrow> etharp_update_arp_entry env n (arp_sipaddr h) (arp_shwaddr h) (if for_us env n h then ETHARP_FLAG_TRY_HARD else ETHARP_FLAG_FIND_ONLY) s;
            s2 \<leftarrow> (if arp_op h = ARP_REQUEST \<and> for_us env n h
              then map_option snd (etharp_raw env n (hwaddr (ifs env n)) (arp_shwaddr h) (hwaddr (ifs env n)) (ip_addr (ifs env n)) (arp_shwaddr h) (arp_sipaddr h) ARP_REPLY s1)
              else Some s1);
            free_pbuf (Some p) s2 })"
proof -
  let ?h = "arp_bytes (mem s) p"
  have len: "length ?h = 28" using assms by (simp add: arp_bytes_def readable_def)
  have h: "payload_read x 0 8 = Some (take 8 ?h)" "payload_read x 8 20 = Some (drop 8 ?h)"
    using assms by (simp_all add: payload_read_def readable_def arp_bytes_def min_def drop_take add.commute)
  have first: "take 8 ?h ! i = ?h ! i" if "i < 8" for i using that by simp
  have second: "drop 8 ?h ! i = ?h ! (8 + i)" if "i < 20" for i using that len by simp
  show ?thesis unfolding Let_def arp_header_checks [OF len]
    by (simp add: etharp_input_def assms(1) h first second for_us_def arp_op_def arp_sipaddr_def arp_dipaddr_def arp_shwaddr_def Let_def cong: if_cong)
qed

lemma input_run:
  assumes "env_ok env dev_ok wire" "dev_ok (dev s)" "arp_inv (F \<union> set as) ch s" "F \<inter> set as = {}" "packet (mem s) (Some p) as" "sole (mem s) as"
    and "readable (mem s) p" "finite F"
  shows "\<exists>s' ch'. etharp_input env n (Some p) s = Some s' \<and> arp_inv F ch' s' \<and> dev_ok (dev s') \<and> kept F s s'
    \<and> input_outcome env wire n (arp_bytes (mem s) p) s ch s'"
proof -
  obtain x where x: "store (mem s) p = Some x" using packet_total [OF assms(5)] by blast
  let ?h = "arp_bytes (mem s) p"
  have len: "length ?h = 28" using assms(7) by (simp add: arp_bytes_def readable_def)
  show ?thesis
  proof (cases "arp_header_ok ?h")
    case False
    obtain m where m: "free_pbuf (Some p) s = Some (s\<lparr>mem := m\<rparr>)" "arp_inv F ch (s\<lparr>mem := m\<rparr>)" "\<forall>a. a \<notin> set as \<longrightarrow> store m a = store (mem s) a"
      using free_run [OF assms(3-6)] by blast
    then show ?thesis using False assms(2,4) input_header [OF x assms(7), of env n]
      by (intro exI [of _ "s\<lparr>mem := m\<rparr>"] exI [of _ ch]) (auto simp: kept_def input_outcome_def)
  next
    case True
    let ?fl = "if for_us env n ?h then ETHARP_FLAG_TRY_HARD else ETHARP_FLAG_FIND_ONLY"
    have six: "length (arp_shwaddr ?h) = 6" using len by (simp add: arp_shwaddr_def)
    have flags: "ETHARP_FLAG_TRY_HARD \<noteq> ETHARP_FLAG_FIND_ONLY" by (simp add: ETHARP_FLAG_TRY_HARD_def ETHARP_FLAG_FIND_ONLY_def)
    let ?ip = "arp_sipaddr ?h"
    have fl: "?fl = ETHARP_FLAG_TRY_HARD \<or> ?fl = ETHARP_FLAG_FIND_ONLY" by simp
    obtain e s1 ch1 where u: "etharp_update_arp_entry env n ?ip (arp_shwaddr ?h) ?fl s = Some (e, s1)" "arp_inv (F \<union> set as) ch1 s1" "dev_ok (dev s1)"
        "\<forall>a \<in> F \<union> set as. store (mem s1) a = store (mem s) a" "if e = ERR_OK then resolved s1 ?ip n (arp_shwaddr ?h) else s1 = s"
        "e = ERR_OK \<longleftrightarrow> unicast env n ?ip \<and> (?fl = ETHARP_FLAG_TRY_HARD \<or> (\<exists>f \<in> set (arp_table s). is_for ?ip n f))"
        "wire (dev s1) = (case if unicast env n ?ip then waiting (mem s) (arp_table s) ch ?ip n else None of None \<Rightarrow> wire (dev s)
        | Some b \<Rightarrow> wire (dev s) @ [eth_hdr (arp_shwaddr ?h) (hwaddr (ifs env n)) ETHTYPE_IP @ b])"
      using update_run [OF assms(1-3) six fl, of n ?ip] by (elim exE conjE)
    have learnt: "e = ERR_OK \<longleftrightarrow> learns env n ?h s" using u(6) flags by (simp add: learns_def known_def)
    have rel: "wire (dev s1) = wire (dev s) @ released env n ?h ch s" unfolding u(7) released_def by (simp split: option.split)
    obtain d b where r: "(if arp_op ?h = ARP_REQUEST \<and> for_us env n ?h
          then map_option snd (etharp_raw env n (hwaddr (ifs env n)) (arp_shwaddr ?h) (hwaddr (ifs env n)) (ip_addr (ifs env n)) (arp_shwaddr ?h) (arp_sipaddr ?h) ARP_REPLY s1)
          else Some s1) = Some (s1\<lparr>dev := d\<rparr>)" "dev_ok d" "wire d = sent b (reply_frame env n ?h) (wire (dev s1))"
        "b \<longrightarrow> arp_op ?h = ARP_REQUEST \<and> for_us env n ?h" "arp_op ?h = ARP_REQUEST \<and> for_us env n ?h \<and> roomy env \<longrightarrow> b"
      using reply_run [OF assms(1) u(3) len arp_inv_finite [OF u(2)], of n] assms(8) by blast
    let ?s2 = "s1\<lparr>dev := d\<rparr>"
    have inv: "arp_inv (F \<union> set as) ch1 ?s2" using u(2) by simp
    have "packet (mem ?s2) (Some p) as" "sole (mem ?s2) as"
      using packet_cong [of as "mem s1" "mem s"] sole_cong [of as "mem s1" "mem s"] u(4) assms(5,6) by simp_all
    then obtain m where m: "free_pbuf (Some p) ?s2 = Some (?s2\<lparr>mem := m\<rparr>)" "arp_inv F ch1 (?s2\<lparr>mem := m\<rparr>)" "\<forall>a. a \<notin> set as \<longrightarrow> store m a = store (mem s1) a"
      using free_run [OF inv assms(4)] by auto
    have run: "etharp_input env n (Some p) s = Some (?s2\<lparr>mem := m\<rparr>)"
      unfolding input_header [OF x assms(7)] Let_def using True by (simp only: u(1) r(1) m(1) not_True_eq_False if_False Option.bind_lunit prod.case)
    have same: "resolved (?s2\<lparr>mem := m\<rparr>) ip k eth = resolved s1 ip k eth" for ip k eth by (simp add: resolved_def)
    have t: "if learns env n ?h s then resolved (?s2\<lparr>mem := m\<rparr>) ?ip n (arp_shwaddr ?h) else arp_table (?s2\<lparr>mem := m\<rparr>) = arp_table s"
      using u(5) unfolding same learnt by (cases "learns env n ?h s") simp_all
    have w: "wire (dev (?s2\<lparr>mem := m\<rparr>)) = sent b (reply_frame env n ?h) (wire (dev s) @ released env n ?h ch s)" using r(3) rel by simp
    have "input_outcome env wire n ?h s ch (?s2\<lparr>mem := m\<rparr>)" by (rule input_outcomeI [OF True t w r(4,5)])
    moreover have "kept F s (?s2\<lparr>mem := m\<rparr>)" using m(3) u(4) assms(4) by (auto simp: kept_def)
    ultimately show ?thesis using run m(2) r(2) by (intro exI [of _ "?s2\<lparr>mem := m\<rparr>"] exI [of _ ch1]) simp
  qed
qed

end
