(* ===== verification/ArpProtocol.thy ===== *)
theory ArpProtocol
  imports EtharpSteps
begin

text \<open>
  The timer of ARP, the loss of an interface, and the module as a transition system whose steps are the operations its callers may
  do in any order; then the properties of address resolution.
\<close>

subsection \<open>The timer\<close>

text \<open>An entry in use after a run of the timer: one older, or free.\<close>

definition aged :: "etharp_entry \<Rightarrow> etharp_entry \<Rightarrow> bool" where
  "aged e e' \<longleftrightarrow> astate e' = ETHARP_STATE_EMPTY
     \<or> astate e \<noteq> ETHARP_STATE_EMPTY \<and> ctime e' = ctime e + 1 \<and> (astate e' = ETHARP_STATE_PENDING \<longleftrightarrow> astate e = ETHARP_STATE_PENDING)"

lemma free_entry_time:
  assumes "i < length (arp_table s)" "etharp_free_entry i s = Some (s\<lparr>mem := m, arp_table := (arp_table s)[i := freed_entry (entry s i)]\<rparr>)"
  shows "etharp_free_entry i (upd_entry i (\<lambda>e. e\<lparr>ctime := t\<rparr>) s)
    = Some (s\<lparr>mem := m, arp_table := (arp_table s)[i := (freed_entry (entry s i))\<lparr>ctime := t\<rparr>]\<rparr>)"
proof (cases "queued (entry s i)")
  case None
  have "mem (s\<lparr>mem := m, arp_table := (arp_table s)[i := freed_entry (entry s i)]\<rparr>) = mem s"
    using assms(2) None by (simp add: etharp_free_entry_def upd_entry_def) (metis link_state.select_convs(1) link_state.surjective link_state.update_convs(1,2))
  then have m: "m = mem s" by simp
  have "(entry s i)\<lparr>ctime := t, astate := ETHARP_STATE_EMPTY\<rparr> = (freed_entry (entry s i))\<lparr>ctime := t\<rparr>"
    using None by (cases "entry s i") (simp add: freed_entry_def)
  then show ?thesis using None assms(1) m by (simp add: etharp_free_entry_def upd_entry_def)
next
  case (Some p)
  have e: "(entry s i)\<lparr>ctime := t, queued := None, astate := ETHARP_STATE_EMPTY\<rparr> = (freed_entry (entry s i))\<lparr>ctime := t\<rparr>"
    by (cases "entry s i") (simp add: freed_entry_def)
  obtain m' where m': "free_pbuf (Some p) s = Some (s\<lparr>mem := m'\<rparr>)"
    using assms(2) Some by (cases "pbuf_free (Some p) (mem s)") (auto simp: etharp_free_entry_def free_pbuf_def)
  then have "etharp_free_entry i s = Some (s\<lparr>mem := m', arp_table := (arp_table s)[i := freed_entry (entry s i)]\<rparr>)"
    using Some assms(1) by (simp add: etharp_free_entry_def upd_entry_def freed_entry_def)
  then have "mem (s\<lparr>mem := m', arp_table := (arp_table s)[i := freed_entry (entry s i)]\<rparr>) = mem (s\<lparr>mem := m, arp_table := (arp_table s)[i := freed_entry (entry s i)]\<rparr>)"
    using assms(2) by simp
  then have "m' = m" by simp
  moreover have "free_pbuf (Some p) (upd_entry i (\<lambda>e. e\<lparr>ctime := t\<rparr>) s) = Some ((upd_entry i (\<lambda>e. e\<lparr>ctime := t\<rparr>) s)\<lparr>mem := m'\<rparr>)"
    using m' by (cases s) (auto simp: free_pbuf_def upd_entry_def)
  ultimately show ?thesis using Some assms(1) e by (simp add: etharp_free_entry_def upd_entry_def)
qed

lemma tmr_entry_run:
  assumes "env_ok env dev_ok wire" "dev_ok (dev s)" "arp_inv F ch s" "i < ARP_TABLE_SIZE"
  shows "\<exists>s' ch'. tmr_entry env i s = Some s' \<and> arp_inv F ch' s' \<and> dev_ok (dev s') \<and> kept F s s' \<and> aged (entry s i) (entry s' i)
    \<and> (\<forall>j. j \<noteq> i \<longrightarrow> entry s' j = entry s j)"
proof (cases "astate (entry s i) = ETHARP_STATE_EMPTY")
  case True
  then show ?thesis using assms(2,3) by (intro exI [of _ s] exI [of _ ch]) (simp add: tmr_entry_def aged_def)
next
  case use: False
  let ?e = "entry s i"
  let ?t = "ctime ?e + 1"
  let ?s1 = "upd_entry i (\<lambda>e. e\<lparr>ctime := ctime e + 1\<rparr>) s"
  have len: "length (arp_table s) = ARP_TABLE_SIZE" by (rule arp_inv_length [OF assms(3)])
  have e1: "entry ?s1 i = ?e\<lparr>ctime := ?t\<rparr>" "\<And>j. j \<noteq> i \<Longrightarrow> entry ?s1 j = entry s j"
    using len assms(4) by (simp_all add: upd_entry_def entry_def)
  show ?thesis
  proof (cases "ARP_MAXAGE \<le> ?t \<or> astate ?e = ETHARP_STATE_PENDING \<and> ARP_MAXPENDING \<le> ?t")
    case True
    obtain m where m: "etharp_free_entry i s = Some (s\<lparr>mem := m, arp_table := (arp_table s)[i := freed_entry ?e]\<rparr>)"
        "arp_inv F (ch(i := [])) (s\<lparr>mem := m, arp_table := (arp_table s)[i := freed_entry ?e]\<rparr>)" "\<forall>a \<in> F. store m a = store (mem s) a"
      using free_entry_run [OF assms(3,4)] by (auto simp: Let_def)
    let ?f = "s\<lparr>mem := m, arp_table := (arp_table s)[i := freed_entry ?e]\<rparr>"
    let ?s' = "s\<lparr>mem := m, arp_table := (arp_table s)[i := (freed_entry ?e)\<lparr>ctime := ?t\<rparr>]\<rparr>"
    have "?s1 = upd_entry i (\<lambda>e. e\<lparr>ctime := ?t\<rparr>) s" by (simp add: upd_entry_def)
    then have "etharp_free_entry i ?s1 = Some ?s'" using free_entry_time [OF _ m(1), of ?t] len assms(4) by simp
    then have "tmr_entry env i s = Some ?s'" using use True e1(1) by (simp add: tmr_entry_def Let_def)
    moreover have "arp_inv F (ch(i := [])) (upd_entry i (\<lambda>e. e\<lparr>ctime := ?t\<rparr>) ?f)"
      using len assms(4) by (intro arp_inv_entry_same [OF m(2) assms(4)]) (simp_all add: wf_entry_def freed_entry_def is_for_def)
    then have "arp_inv F (ch(i := [])) ?s'" using len assms(4) by (simp add: upd_entry_def)
    ultimately show ?thesis using assms(2,4) len m(3)
      by (intro exI [of _ ?s'] exI [of _ "ch(i := [])"]) (auto simp: kept_def aged_def freed_entry_def entry_def)
  next
    case False
    have wf: "wf_entry ?e" by (rule arp_inv_entry [OF assms(3,4)])
    have inv: "arp_inv F ch (upd_entry i (\<lambda>e. e\<lparr>ctime := ctime e + 1, astate := a\<rparr>) s)"
      if "ETHARP_STATE_STABLE \<le> a \<and> ETHARP_STATE_STABLE \<le> astate ?e \<or> a = astate ?e" for a
      using wf use False that by (intro arp_inv_entry_same [OF assms(3,4)]) (auto simp: wf_entry_def is_for_def not_le)
    have keep_state: "?e\<lparr>ctime := ctime ?e + 1, astate := astate ?e\<rparr> = ?e\<lparr>ctime := ctime ?e + 1\<rparr>" by (cases ?e) simp
    have same: "upd_entry i (\<lambda>e. e\<lparr>ctime := ctime e + 1, astate := astate ?e\<rparr>) s = ?s1" using keep_state by (simp add: upd_entry_def)
    have inv1: "arp_inv F ch ?s1" using inv [of "astate ?e"] same by simp
    have again: "upd_entry i (astate_update (\<lambda>_. a)) ?s1 = upd_entry i (\<lambda>e. e\<lparr>ctime := ctime e + 1, astate := a\<rparr>) s" for a
      using len assms(4) by (simp add: upd_entry_def)
    have move: ?thesis if "tmr_entry env i s = Some (upd_entry i (\<lambda>e. e\<lparr>ctime := ctime e + 1, astate := a\<rparr>) s)" "ETHARP_STATE_STABLE \<le> a" "ETHARP_STATE_STABLE \<le> astate ?e" for a
      using that inv [of a] assms(2,4) len use
      by (intro exI [of _ "upd_entry i (\<lambda>e. e\<lparr>ctime := ctime e + 1, astate := a\<rparr>) s"] exI [of _ ch]) (auto simp: upd_entry_def kept_def aged_def entry_def)
    consider "astate ?e = ETHARP_STATE_STABLE" | "astate ?e = ETHARP_STATE_STABLE_REREQUESTING_1" | "astate ?e = ETHARP_STATE_STABLE_REREQUESTING_2"
      | "astate ?e = ETHARP_STATE_PENDING" using use by (cases "astate ?e") auto
    then show ?thesis
    proof cases
      case 1
      then have "tmr_entry env i s = Some ?s1" using False use e1(1) by (simp add: tmr_entry_def Let_def)
      then show ?thesis using inv1 assms(2) e1 use by (intro exI [of _ ?s1] exI [of _ ch]) (auto simp: upd_entry_def kept_def aged_def)
    next
      case 2
      then have "tmr_entry env i s = Some (upd_entry i (\<lambda>e. e\<lparr>ctime := ctime e + 1, astate := ETHARP_STATE_STABLE_REREQUESTING_2\<rparr>) s)"
        using False use e1(1) again by (simp add: tmr_entry_def Let_def)
      then show ?thesis using 2 by (intro move [of ETHARP_STATE_STABLE_REREQUESTING_2]) simp_all
    next
      case 3
      then have "tmr_entry env i s = Some (upd_entry i (\<lambda>e. e\<lparr>ctime := ctime e + 1, astate := ETHARP_STATE_STABLE\<rparr>) s)"
        using False use e1(1) again by (simp add: tmr_entry_def Let_def)
      then show ?thesis using 3 by (intro move [of ETHARP_STATE_STABLE]) simp_all
    next
      case 4
      have d1: "dev_ok (dev ?s1)" using assms(2) by (simp add: upd_entry_def)
      obtain r d where r: "etharp_request env (ifnum ?e) (ipaddr ?e) ?s1 = Some (r, ?s1\<lparr>dev := d\<rparr>)" "dev_ok d"
        using request_run [of env dev_ok wire ?s1, OF assms(1) d1, of "ifnum ?e" "ipaddr ?e"] by blast
      then have "tmr_entry env i s = Some (?s1\<lparr>dev := d\<rparr>)" using 4 False use e1(1) by (simp add: tmr_entry_def Let_def)
      then show ?thesis using inv1 r(2) e1 use by (intro exI [of _ "?s1\<lparr>dev := d\<rparr>"] exI [of _ ch]) (auto simp: upd_entry_def kept_def aged_def)
    qed
  qed
qed

lemma tmr_loop_run:
  assumes "env_ok env dev_ok wire"
  shows "dev_ok (dev s) \<Longrightarrow> arp_inv F ch s \<Longrightarrow> distinct is \<Longrightarrow> set is \<subseteq> {..<ARP_TABLE_SIZE} \<Longrightarrow>
    \<exists>s' ch'. tmr_loop env is s = Some s' \<and> arp_inv F ch' s' \<and> dev_ok (dev s') \<and> kept F s s'
      \<and> (\<forall>j. if j \<in> set is then aged (entry s j) (entry s' j) else entry s' j = entry s j)"
proof (induction "is" arbitrary: s ch)
  case (Cons i js)
  have i: "i < ARP_TABLE_SIZE" using Cons.prems(4) by simp
  obtain s1 ch1 where s1: "tmr_entry env i s = Some s1" "arp_inv F ch1 s1" "dev_ok (dev s1)" "kept F s s1" "aged (entry s i) (entry s1 i)"
      "\<forall>j. j \<noteq> i \<longrightarrow> entry s1 j = entry s j"
    using tmr_entry_run [OF assms Cons.prems(1,2) i] by blast
  obtain s' ch' where s': "tmr_loop env js s1 = Some s'" "arp_inv F ch' s'" "dev_ok (dev s')" "kept F s1 s'"
      "\<forall>j. if j \<in> set js then aged (entry s1 j) (entry s' j) else entry s' j = entry s1 j"
    using Cons.IH [OF s1(3,2)] Cons.prems(3,4) by auto
  have "if j \<in> set (i # js) then aged (entry s j) (entry s' j) else entry s' j = entry s j" for j
  proof (cases "j = i")
    case True
    then show ?thesis using s'(5) [rule_format, of i] s1(5) Cons.prems(3) by simp
  next
    case False
    then have "entry s1 j = entry s j" using s1(6) by blast
    then show ?thesis using s'(5) [rule_format, of j] False by (cases "j \<in> set js") simp_all
  qed
  then show ?case using s1(1) s'(1-3) kept_trans [OF s1(4) s'(4)] by auto
qed auto

text \<open>\<open>k\<close> runs of the timer with nothing in between.\<close>

fun tmr_runs :: "'d link_env \<Rightarrow> nat \<Rightarrow> 'd link_state \<Rightarrow> 'd link_state option" where
  "tmr_runs env 0 s = Some s"
| "tmr_runs env (Suc k) s = do { s1 \<leftarrow> etharp_tmr env s; tmr_runs env k s1 }"

definition older :: "nat \<Rightarrow> 'd link_state \<Rightarrow> bool" where
  "older k s \<longleftrightarrow> (\<forall>i < ARP_TABLE_SIZE. astate (entry s i) \<noteq> ETHARP_STATE_EMPTY \<longrightarrow> k \<le> unat (ctime (entry s i)))"

lemma tmr_run:
  assumes "env_ok env dev_ok wire" "dev_ok (dev s)" "arp_inv F ch s"
  shows "\<exists>s' ch'. etharp_tmr env s = Some s' \<and> arp_inv F ch' s' \<and> dev_ok (dev s') \<and> kept F s s' \<and> (\<forall>k. older k s \<longrightarrow> older (Suc k) s')"
proof -
  obtain s' ch' where s': "etharp_tmr env s = Some s'" "arp_inv F ch' s'" "dev_ok (dev s')" "kept F s s'"
      "\<forall>j. if j < ARP_TABLE_SIZE then aged (entry s j) (entry s' j) else entry s' j = entry s j"
    using tmr_loop_run [OF assms, of "[0..<ARP_TABLE_SIZE]"] by (auto simp: etharp_tmr_def lessThan_atLeast0)
  have "older (Suc k) s'" if o: "older k s" for k
  proof -
    have "Suc k \<le> unat (ctime (entry s' j))" if j: "j < ARP_TABLE_SIZE" "astate (entry s' j) \<noteq> ETHARP_STATE_EMPTY" for j
    proof -
      have a: "astate (entry s j) \<noteq> ETHARP_STATE_EMPTY" "ctime (entry s' j) = ctime (entry s j) + 1" using s'(5) [rule_format, of j] j by (auto simp: aged_def)
      have "ctime (entry s j) < 300" using arp_inv_entry [OF assms(3) j(1)] a(1) by (simp add: wf_entry_def ARP_MAXAGE_def)
      then have "unat (ctime (entry s j) + 1) = unat (ctime (entry s j)) + 1" by (simp add: word_less_nat_alt unat_word_ariths)
      then show ?thesis using o j(1) a by (auto simp: older_def)
    qed
    then show ?thesis by (simp add: older_def)
  qed
  then show ?thesis using s'(1-4) by blast
qed

lemma tmr_runs_run:
  assumes "env_ok env dev_ok wire"
  shows "dev_ok (dev s) \<Longrightarrow> arp_inv F ch s \<Longrightarrow> older j s \<Longrightarrow>
    \<exists>s' ch'. tmr_runs env k s = Some s' \<and> arp_inv F ch' s' \<and> dev_ok (dev s') \<and> kept F s s' \<and> older (j + k) s'"
proof (induction k arbitrary: s ch j)
  case (Suc k)
  obtain s1 ch1 where s1: "etharp_tmr env s = Some s1" "arp_inv F ch1 s1" "dev_ok (dev s1)" "kept F s s1" "older (Suc j) s1"
    using tmr_run [OF assms Suc.prems(1,2)] Suc.prems(3) by blast
  show ?case using Suc.IH [OF s1(3,2,5)] s1(1) kept_trans [OF s1(4)] by auto
qed auto

text \<open>No entry is that old.\<close>

lemma older_empty:
  assumes "arp_inv F ch s" "older 300 s" "i < ARP_TABLE_SIZE"
  shows "astate (entry s i) = ETHARP_STATE_EMPTY"
  using assms(2,3) arp_inv_entry [OF assms(1,3)] by (auto simp: older_def wf_entry_def ARP_MAXAGE_def word_less_nat_alt)

lemma nothing_waits:
  assumes "arp_inv F ch s" "\<And>i. i < ARP_TABLE_SIZE \<Longrightarrow> astate (entry s i) \<noteq> ETHARP_STATE_PENDING"
  shows "store (mem s) a \<noteq> None \<longleftrightarrow> a \<in> F"
proof -
  have "ch i = []" if "i < ARP_TABLE_SIZE" for i
    using arp_inv_waits [OF assms(1) that] arp_inv_entry [OF assms(1) that] assms(2) [OF that] by (simp add: waits_def wf_entry_def)
  then show ?thesis using heap_invD(4) [of F ch "mem s" "arp_table s" a] assms(1) by (auto simp: arp_inv_def)
qed

subsection \<open>The loss of an interface\<close>

lemma cleanup_loop_run:
  "arp_inv F ch s \<Longrightarrow> set is \<subseteq> {..<ARP_TABLE_SIZE} \<Longrightarrow>
    \<exists>s' ch'. cleanup_loop n is s = Some s' \<and> arp_inv F ch' s' \<and> dev s' = dev s \<and> kept F s s'
      \<and> (\<forall>i. entry s' i = entry s i \<or> astate (entry s' i) = ETHARP_STATE_EMPTY)
      \<and> (\<forall>i \<in> set is. astate (entry s' i) = ETHARP_STATE_EMPTY \<or> ifnum (entry s' i) \<noteq> n)"
proof (induction "is" arbitrary: s ch)
  case (Cons i js)
  have i: "i < ARP_TABLE_SIZE" using Cons.prems(2) by simp
  have len: "length (arp_table s) = ARP_TABLE_SIZE" by (rule arp_inv_length [OF Cons.prems(1)])
  have "\<exists>s1 ch1. (if astate (entry s i) \<noteq> ETHARP_STATE_EMPTY \<and> ifnum (entry s i) = n then etharp_free_entry i s else Some s) = Some s1
      \<and> arp_inv F ch1 s1 \<and> dev s1 = dev s \<and> kept F s s1 \<and> (\<forall>j. entry s1 j = entry s j \<or> astate (entry s1 j) = ETHARP_STATE_EMPTY)
      \<and> (astate (entry s1 i) = ETHARP_STATE_EMPTY \<or> ifnum (entry s1 i) \<noteq> n)"
  proof (cases "astate (entry s i) \<noteq> ETHARP_STATE_EMPTY \<and> ifnum (entry s i) = n")
    case True
    obtain m where m: "etharp_free_entry i s = Some (s\<lparr>mem := m, arp_table := (arp_table s)[i := freed_entry (entry s i)]\<rparr>)"
        "arp_inv F (ch(i := [])) (s\<lparr>mem := m, arp_table := (arp_table s)[i := freed_entry (entry s i)]\<rparr>)" "\<forall>a \<in> F. store m a = store (mem s) a"
      using free_entry_run [OF Cons.prems(1) i] by (auto simp: Let_def)
    have "(arp_table s)[i := freed_entry (entry s i)] ! j = entry s j \<or> astate ((arp_table s)[i := freed_entry (entry s i)] ! j) = ETHARP_STATE_EMPTY" for j
      using i len by (cases "j = i") (simp_all add: freed_entry_def entry_def)
    then show ?thesis using True m i len
      by (intro exI [of _ "s\<lparr>mem := m, arp_table := (arp_table s)[i := freed_entry (entry s i)]\<rparr>"] exI [of _ "ch(i := [])"])
        (simp add: kept_def freed_entry_def)
  next
    case False
    then show ?thesis using Cons.prems(1) by (intro exI [of _ s] exI [of _ ch]) auto
  qed
  then obtain s1 ch1 where s1: "(if astate (entry s i) \<noteq> ETHARP_STATE_EMPTY \<and> ifnum (entry s i) = n then etharp_free_entry i s else Some s) = Some s1"
      "arp_inv F ch1 s1" "dev s1 = dev s" "kept F s s1" "\<forall>j. entry s1 j = entry s j \<or> astate (entry s1 j) = ETHARP_STATE_EMPTY"
      "astate (entry s1 i) = ETHARP_STATE_EMPTY \<or> ifnum (entry s1 i) \<noteq> n" by blast
  obtain s' ch' where s': "cleanup_loop n js s1 = Some s'" "arp_inv F ch' s'" "dev s' = dev s1" "kept F s1 s'"
      "\<forall>i. entry s' i = entry s1 i \<or> astate (entry s' i) = ETHARP_STATE_EMPTY" "\<forall>i \<in> set js. astate (entry s' i) = ETHARP_STATE_EMPTY \<or> ifnum (entry s' i) \<noteq> n"
    using Cons.IH [OF s1(2)] Cons.prems(2) by auto
  have "cleanup_loop n (i # js) s = Some s'" using s1(1) s'(1) by simp
  moreover have "\<forall>j. entry s' j = entry s j \<or> astate (entry s' j) = ETHARP_STATE_EMPTY" using s'(5) s1(5) by metis
  moreover have "astate (entry s' i) = ETHARP_STATE_EMPTY \<or> ifnum (entry s' i) \<noteq> n" using s'(5) s1(6) by metis
  ultimately show ?case using s'(2,3,6) s1(3) kept_trans [OF s1(4) s'(4)] by auto
qed auto

lemma cleanup_run:
  assumes "arp_inv F ch s"
  shows "\<exists>s' ch'. etharp_cleanup_netif n s = Some s' \<and> arp_inv F ch' s' \<and> dev s' = dev s \<and> kept F s s'
    \<and> (\<forall>i < ARP_TABLE_SIZE. astate (entry s' i) = ETHARP_STATE_EMPTY \<or> ifnum (entry s' i) \<noteq> n)"
  using cleanup_loop_run [OF assms, of "[0..<ARP_TABLE_SIZE]" n] unfolding etharp_cleanup_netif_def by force

subsection \<open>The module as a transition system\<close>

text \<open>Buffers that come into the heap with a packet.\<close>

definition arrives :: "nat list \<Rightarrow> pmem \<Rightarrow> pmem \<Rightarrow> bool" where
  "arrives as m m' \<longleftrightarrow> (\<forall>a. if a \<in> set as then store m a = None \<and> store m' a \<noteq> None else store m' a = store m a)"

definition received :: "pmem \<Rightarrow> nat \<Rightarrow> nat list \<Rightarrow> bool" where
  "received m p as \<longleftrightarrow> packet m (Some p) as \<and> sole m as \<and> readable m p"

definition no_entry :: etharp_entry where
  "no_entry = \<lparr>queued = None, ipaddr = 0, ifnum = 0, ethaddr = ethzero, ctime = 0, astate = ETHARP_STATE_EMPTY\<rparr>"

definition arp_start :: "(nat \<times> u8 list) list \<Rightarrow> 'd \<Rightarrow> 'd link_state" where
  "arp_start pl d = \<lparr>mem = \<lparr>store = (\<lambda>_. None), pool = pl, refs = []\<rparr>, arp_table = replicate ARP_TABLE_SIZE no_entry, cached_entry = 0, dev = d\<rparr>"

text \<open>A packet is sent to any address, an ARP packet (or what claims to be one) is received, the timer runs, an interface is lost, an
  address is asked for.\<close>

inductive arp_step :: "'d link_env \<Rightarrow> 'd link_state \<Rightarrow> 'd link_state \<Rightarrow> bool" for env where
  send: "arrives as (mem s) m \<Longrightarrow> outgoing m p as \<Longrightarrow> handed (\<lambda>s. etharp_output env n (Some p) ip s) p (s\<lparr>mem := m\<rparr>) = Some (e, s') \<Longrightarrow> arp_step env s s'"
| receive: "arrives as (mem s) m \<Longrightarrow> received m p as \<Longrightarrow> etharp_input env n (Some p) (s\<lparr>mem := m\<rparr>) = Some s' \<Longrightarrow> arp_step env s s'"
| second: "etharp_tmr env s = Some s' \<Longrightarrow> arp_step env s s'"
| lost: "etharp_cleanup_netif n s = Some s' \<Longrightarrow> arp_step env s s'"
| ask: "etharp_request env n ip s = Some (e, s') \<Longrightarrow> arp_step env s s'"

inductive arp_reach :: "'d link_env \<Rightarrow> 'd \<Rightarrow> 'd link_state \<Rightarrow> bool" for env d where
  start: "arp_reach env d (arp_start pl d)"
| step: "arp_reach env d s \<Longrightarrow> arp_step env s s' \<Longrightarrow> arp_reach env d s'"

lemma arrives_inv:
  assumes "arp_inv {} ch s" "arrives as (mem s) m"
  shows "arp_inv ({} \<union> set as) ch (s\<lparr>mem := m\<rparr>)" "{} \<inter> set as = {}"
proof -
  have "store (mem s) a = None" "store m a \<noteq> None" if "a \<in> set as" for a
    using assms(2) that by (auto simp: arrives_def dest: spec [of _ a])
  moreover have "store m a = store (mem s) a" if "a \<notin> set as" for a
    using assms(2) that by (auto simp: arrives_def dest: spec [of _ a])
  ultimately have "heap_inv ({} \<union> set as) ch m (arp_table s)" using assms(1) unfolding arp_inv_def by (intro heap_inv_extend [of "{}" ch "mem s"]) blast+
  then show "arp_inv ({} \<union> set as) ch (s\<lparr>mem := m\<rparr>)" using assms(1) by (simp add: arp_inv_def)
qed simp

lemma start_inv: "arp_inv {} (\<lambda>_. []) (arp_start pl d)"
proof -
  have e: "replicate ARP_TABLE_SIZE no_entry ! i = no_entry" if "i < ARP_TABLE_SIZE" for i using that by simp
  have "wf_table (replicate ARP_TABLE_SIZE no_entry)"
    by (auto simp: wf_table_def e wf_entry_def no_entry_def is_for_def)
  moreover have "heap_inv {} (\<lambda>_. []) (mem (arp_start pl d)) (replicate ARP_TABLE_SIZE no_entry)"
    by (rule heap_invI) (simp_all add: arp_start_def waits_def no_entry_def)
  ultimately show ?thesis by (simp add: arp_inv_def arp_start_def ARP_TABLE_SIZE_def)
qed

text \<open>Preservation and progress of every step.\<close>

lemma step_inv:
  assumes "env_ok env dev_ok wire" "dev_ok (dev s)" "arp_inv {} ch s" "arp_step env s s'"
  shows "\<exists>ch'. arp_inv {} ch' s' \<and> dev_ok (dev s')"
  using assms(4)
proof cases
  case (send as m p n ip e)
  note i = arrives_inv [OF assms(3) send(1)]
  have "dev_ok (dev (s\<lparr>mem := m\<rparr>))" "outgoing (mem (s\<lparr>mem := m\<rparr>)) p as" using assms(2) send(2) by simp_all
  then show ?thesis using output_run [OF assms(1) _ i, of p n ip] send(3) by auto
next
  case (receive as m p n)
  note i = arrives_inv [OF assms(3) receive(1)]
  have "dev_ok (dev (s\<lparr>mem := m\<rparr>))" "packet (mem (s\<lparr>mem := m\<rparr>)) (Some p) as" "sole (mem (s\<lparr>mem := m\<rparr>)) as" "readable (mem (s\<lparr>mem := m\<rparr>)) p"
    using assms(2) receive(2) by (simp_all add: received_def)
  then show ?thesis using input_run [OF assms(1) _ i, of p n] receive(3) by auto
next
  case second
  then show ?thesis using tmr_run [OF assms(1-3)] by auto
next
  case (lost n)
  then show ?thesis using cleanup_run [OF assms(3), of n] assms(2) by auto
next
  case (ask n ip e)
  then show ?thesis using request_run [OF assms(1,2), of n ip] assms(3) by auto
qed

lemma arp_reach_inv:
  assumes "env_ok env dev_ok wire" "dev_ok d" "arp_reach env d s"
  shows "\<exists>ch. arp_inv {} ch s \<and> dev_ok (dev s)"
  using assms(3)
proof induction
  case (start pl)
  then show ?case using start_inv [of pl d] assms(2) by (auto simp: arp_start_def)
next
  case (step s s')
  then show ?case using step_inv [OF assms(1)] by blast
qed

text \<open>Packets that are received only fill an entry: none of them begins to wait for an address, and the age of an entry that does stays.\<close>

definition others_same :: "nat \<Rightarrow> 'd link_state \<Rightarrow> 'd link_state \<Rightarrow> bool" where
  "others_same i s s' \<longleftrightarrow> (\<exists>e. arp_table s' = (arp_table s)[i := e])"

lemma same_table: "arp_table s' = arp_table s \<Longrightarrow> others_same i s s'"
  unfolding others_same_def by (metis list_update_id)

lemma others_same_trans: "others_same i s s1 \<Longrightarrow> others_same i s1 s2 \<Longrightarrow> others_same i s s2"
  by (auto simp: others_same_def)

lemma others_same_upd: "others_same i s (upd_entry i f s)"
  by (auto simp: others_same_def upd_entry_def)

lemma free_pbuf_table: "free_pbuf p s = Some s' \<Longrightarrow> arp_table s' = arp_table s"
  by (auto simp: free_pbuf_def)

lemma ethernet_output_table: "ethernet_output env n p src dst t s = Some (e, s') \<Longrightarrow> arp_table s' = arp_table s"
  by (auto simp: ethernet_output_def bind_eq_Some_conv split: if_splits)

lemma etharp_raw_table: "etharp_raw env n a b c ip d ip' op s = Some (e, s') \<Longrightarrow> arp_table s' = arp_table s"
  by (fastforce simp: etharp_raw_def bind_eq_Some_conv split: option.splits dest: free_pbuf_table ethernet_output_table)

lemma free_entry_others: "etharp_free_entry i s = Some s' \<Longrightarrow> others_same i s s'"
  by (auto simp: etharp_free_entry_def bind_eq_Some_conv others_same_def upd_entry_def split: option.splits dest!: free_pbuf_table)

lemma find_entry_others:
  assumes "etharp_find_entry ip flgs n s = Some (r, s')"
  shows "case r of None \<Rightarrow> arp_table s' = arp_table s | Some i \<Rightarrow> others_same i s s'"
  using assms by (auto simp: etharp_find_entry_def bind_eq_Some_conv same_table split: sum.splits if_splits option.splits
      intro!: others_same_upd others_same_trans [OF free_entry_others others_same_upd])

lemma update_entry_others:
  assumes "etharp_update_arp_entry env n ip eth flgs s = Some (e, s')"
  shows "entry s' j = entry s j \<or> astate (entry s' j) = ETHARP_STATE_STABLE"
proof (cases "ip = 0 \<or> isbroadcast ip (ifs env n) \<or> ip4_addr_ismulticast ip")
  case False
  then obtain r s1 where f: "etharp_find_entry (Some ip) flgs n s = Some (r, s1)"
    using assms by (auto simp: etharp_update_arp_entry_def bind_eq_Some_conv)
  show ?thesis
  proof (cases r)
    case None
    then show ?thesis using assms False f find_entry_others [OF f] by (simp add: etharp_update_arp_entry_def entry_def)
  next
    case (Some i)
    then obtain e1 where t1: "arp_table s1 = (arp_table s)[i := e1]" using find_entry_others [OF f] by (auto simp: others_same_def)
    let ?s2 = "upd_entry i (\<lambda>e. e\<lparr>astate := ETHARP_STATE_STABLE, ifnum := n, ethaddr := eth, ctime := 0\<rparr>) s1"
    have "arp_table s' = arp_table ?s2 \<or> arp_table s' = arp_table (upd_entry i (queued_update (\<lambda>_. None)) ?s2)"
      using assms False f Some by (auto simp: etharp_update_arp_entry_def bind_eq_Some_conv Let_def
          split: option.splits dest!: free_pbuf_table ethernet_output_table)
    then show ?thesis using t1 by (cases "i < length (arp_table s)"; cases "j = i") (auto simp: upd_entry_def entry_def not_less list_update_beyond)
  qed
qed (use assms in \<open>simp add: etharp_update_arp_entry_def\<close>)

lemma input_others:
  assumes "etharp_input env n p s = Some s'"
  shows "entry s' j = entry s j \<or> astate (entry s' j) = ETHARP_STATE_STABLE"
proof -
  consider "arp_table s' = arp_table s"
    | ip eth flgs e s1 where "etharp_update_arp_entry env n ip eth flgs s = Some (e, s1)" "arp_table s' = arp_table s1"
    using assms by (auto simp: etharp_input_def bind_eq_Some_conv Let_def split: if_splits dest!: free_pbuf_table etharp_raw_table) 
  then show ?thesis
  proof cases
    case 2
    then show ?thesis using update_entry_others [OF 2(1), of j] by (simp add: entry_def)
  qed (simp add: entry_def)
qed

text \<open>A time in which nothing is sent: \<open>k\<close> runs of the timer, and between them any number of ARP packets received.\<close>

inductive timed :: "'d link_env \<Rightarrow> nat \<Rightarrow> 'd link_state \<Rightarrow> 'd link_state \<Rightarrow> bool" for env where
  now: "timed env 0 s s"
| tick: "timed env k s s1 \<Longrightarrow> etharp_tmr env s1 = Some s2 \<Longrightarrow> timed env (Suc k) s s2"
| heard: "timed env k s s1 \<Longrightarrow> arrives as (mem s1) m \<Longrightarrow> received m p as \<Longrightarrow> etharp_input env n (Some p) (s1\<lparr>mem := m\<rparr>) = Some s2
    \<Longrightarrow> timed env k s s2"

definition pending_older :: "nat \<Rightarrow> 'd link_state \<Rightarrow> bool" where
  "pending_older k s \<longleftrightarrow> (\<forall>i < ARP_TABLE_SIZE. astate (entry s i) = ETHARP_STATE_PENDING \<longrightarrow> k \<le> unat (ctime (entry s i)))"

lemma timed_reach: "timed env k s s1 \<Longrightarrow> arp_reach env d s \<Longrightarrow> arp_reach env d s1"
  by (induction rule: timed.induct) (blast intro: arp_reach.step arp_step.intros)+

lemma tmr_pending_older:
  assumes "env_ok env dev_ok wire" "dev_ok (dev s)" "arp_inv F ch s" "etharp_tmr env s = Some s'" "pending_older k s"
  shows "pending_older (Suc k) s'"
proof -
  have a: "aged (entry s j) (entry s' j)" if "j < ARP_TABLE_SIZE" for j
    using tmr_loop_run [OF assms(1-3), of "[0..<ARP_TABLE_SIZE]"] assms(4) that by (auto simp: etharp_tmr_def lessThan_atLeast0 dest: spec [of _ j])
  have "Suc k \<le> unat (ctime (entry s' j))" if j: "j < ARP_TABLE_SIZE" "astate (entry s' j) = ETHARP_STATE_PENDING" for j
  proof -
    have p: "astate (entry s j) = ETHARP_STATE_PENDING" "ctime (entry s' j) = ctime (entry s j) + 1" using a [OF j(1)] j(2) by (auto simp: aged_def)
    have "ctime (entry s j) < 300" using arp_inv_entry [OF assms(3) j(1)] p(1) by (simp add: wf_entry_def ARP_MAXAGE_def)
    then have "unat (ctime (entry s j) + 1) = unat (ctime (entry s j)) + 1" by (simp add: word_less_nat_alt unat_word_ariths)
    then show ?thesis using assms(5) j(1) p by (auto simp: pending_older_def)
  qed
  then show ?thesis by (simp add: pending_older_def)
qed

lemma timed_pending:
  assumes "env_ok env dev_ok wire" "dev_ok d"
  shows "timed env k s s1 \<Longrightarrow> arp_reach env d s \<Longrightarrow> pending_older k s1"
proof (induction rule: timed.induct)
  case (tick k s s1 s2)
  obtain ch where "arp_inv {} ch s1" "dev_ok (dev s1)"
    using arp_reach_inv [OF assms timed_reach [OF tick.hyps(1) tick.prems]] by blast
  then show ?case using tmr_pending_older [OF assms(1) _ _ tick.hyps(2)] tick.IH [OF tick.prems] by blast
next
  case (heard k s s1 as m p n s2)
  have "astate (entry s2 j) = ETHARP_STATE_PENDING \<Longrightarrow> entry s2 j = entry s1 j" for j
    using input_others [OF heard.hyps(4), of j] by (auto simp: entry_def)
  then show ?case using heard.IH [OF heard.prems] by (auto simp: pending_older_def)
qed (simp add: pending_older_def)

lemma pending_older_none:
  assumes "arp_inv F ch s" "pending_older k s" "5 \<le> k" "i < ARP_TABLE_SIZE"
  shows "astate (entry s i) \<noteq> ETHARP_STATE_PENDING"
  using assms(2-4) arp_inv_entry [OF assms(1,4)] by (fastforce simp: pending_older_def wf_entry_def ARP_MAXPENDING_def word_less_nat_alt)

text \<open>A packet that waits is not touched by buffers that arrive.\<close>

lemma waiting_arrives:
  assumes "arp_inv {} ch s" "arrives as (mem s) m"
  shows "waiting m (arp_table s) ch ip n = waiting (mem s) (arp_table s) ch ip n"
proof -
  have same: "store m a = store (mem s) a" if i: "i < ARP_TABLE_SIZE" "a \<in> set (ch i)" for i a
  proof -
    have "store (mem s) a \<noteq> None" using heap_invD(4) [of "{}" ch "mem s" "arp_table s" a] assms(1) i by (auto simp: arp_inv_def)
    then show ?thesis using assms(2) by (auto simp: arrives_def dest: spec [of _ a] split: if_splits)
  qed
  show ?thesis
  proof (cases "find (\<lambda>i. is_for ip n (arp_table s ! i)) [0..<ARP_TABLE_SIZE]")
    case (Some i)
    then have i: "i < ARP_TABLE_SIZE" by (auto simp: find_Some_iff)
    have w: "waits (mem s) (queued (arp_table s ! i)) (ch i)" using arp_inv_waits [OF assms(1) i] by (simp add: entry_def)
    have "linkable m p \<longleftrightarrow> linkable (mem s) p" if "queued (arp_table s ! i) = Some p" for p
    proof -
      have "p \<in> set (ch i)" using w that by (cases "ch i") (auto simp: waits_def packet_def)
      then show ?thesis using same [OF i] by (simp add: linkable_def)
    qed
    moreover have "chain_bytes m (ch i) = chain_bytes (mem s) (ch i)" using same [OF i] by (rule chain_bytes_cong)
    ultimately show ?thesis using Some by (simp add: waiting_def split: option.split)
  qed (simp add: waiting_def)
qed

end
