(* ===== verification/Ip4Run.thy ===== *)
theory Ip4Run
  imports Ip4 ArpProtocol
begin

text \<open>
  What IPv4 does to packets on their way in and out: the header is checked and removed, or put in front with a checksum that the
  receiver finds correct.
\<close>

subsection \<open>The checksum of the header\<close>

lemma htons_un_be16: "lwip_htons (un_be16 a b) = un_le16 a b"
proof -
  have "bit (lwip_htons (un_be16 a b)) n = bit (un_le16 a b) n" if "n < 16" for n
    using that by (auto simp: lwip_htons_def un_be16_def un_le16_def bit_simps dest: bit_byte_high)
  then show ?thesis by (intro bit_word_eqI) simp
qed

lemma be16_htons: "un_le16 (ucast (drop_bit 8 w)) (ucast w) = lwip_htons w"
  using htons_un_be16 [of "ucast (drop_bit 8 w)" "ucast w"] by (simp add: un_be16_be16)

lemma two_bytes: "ucast b OR push_bit 8 (ucast a) = un_be16 a b"
  by (simp add: un_be16_def un_le16_def)

lemma halves:
  "unat (w AND 0xffff :: u32) = unat w mod 65536" "unat (drop_bit 16 w :: u32) = unat w div 65536"
proof -
  have "w AND 0xffff = take_bit 16 w" by (simp add: take_bit_eq_mask mask_eq_exp_minus_1)
  then show "unat (w AND 0xffff) = unat w mod 65536" by (simp only: unsigned_take_bit_eq) (simp add: take_bit_eq_mod)
  show "unat (drop_bit 16 w) = unat w div 65536" by (simp add: unat_drop_bit_eq drop_bit_eq_div [where 'a = nat])
qed

lemma same_sum_halves: "same_sum (unat w mod 65536 + unat w div 65536) (unat (w :: u32))"
  using same_sum_sym [OF same_sum_high [of "unat w div 65536" "unat w mod 65536"]] by (simp add: add.commute)

text \<open>The sum along the way, without overflow.\<close>

definition hdr_total :: "u8 \<Rightarrow> u16 \<Rightarrow> u16 \<Rightarrow> u8 \<Rightarrow> u8 \<Rightarrow> u32 \<Rightarrow> u32 \<Rightarrow> nat" where
  "hdr_total service len ident lifetime proto src dest =
     unat (un_le16 lifetime proto) + (unat dest mod 65536 + unat dest div 65536) + unat (un_le16 0x45 service) + unat (lwip_htons len)
       + unat (lwip_htons ident) + (unat src mod 65536 + unat src div 65536)"

lemma hdr_total_less: "hdr_total service len ident lifetime proto src dest < 655360"
proof -
  have w: "unat v < 65536" for v :: u16 using unsigned_less [of v, where 'a = nat] by simp
  have "unat u < 65536 * 65536" for u :: u32 using unsigned_less [of u, where 'a = nat] by simp
  then have d: "unat u div 65536 < 65536" "unat u mod 65536 < 65536" for u :: u32 by (simp_all add: less_mult_imp_div_less)
  show ?thesis unfolding hdr_total_def
    using w [of "un_le16 lifetime proto"] w [of "un_le16 0x45 service"] w [of "lwip_htons len"] w [of "lwip_htons ident"] d [of src] d [of dest] by linarith
qed

lemma low_half_add: "(ucast (a + b :: u32) :: u16) = ucast a + ucast b"
  by (simp add: word_unat_eq_iff unsigned_ucast_eq unat_word_ariths(1) take_bit_eq_mod mod_mod_cancel mod_simps)

lemma ip_hdr_chksum_value:
  "\<exists>x \<le> 65535. unat (ip_hdr_chksum service len ident lifetime proto src dest) = 65535 - x \<and> same_sum x (hdr_total service len ident lifetime proto src dest)"
proof -
  let ?N = "hdr_total service len ident lifetime proto src dest"
  define s5 :: u32 where "s5 = ucast (un_le16 lifetime proto) + (dest AND 0xffff) + drop_bit 16 dest + ucast (un_le16 0x45 service) + ucast (lwip_htons len)
      + ucast (lwip_htons ident) + (src AND 0xffff) + drop_bit 16 src"
  have "s5 = of_nat ?N"
    unfolding s5_def hdr_total_def of_nat_add halves [symmetric]
    by (simp only: of_nat_unat ucast_id add.assoc add.left_commute add.commute)
  then have n: "unat s5 = ?N" using hdr_total_less [of service len ident lifetime proto src dest] by (simp add: unat_of_nat take_bit_eq_mod)
  let ?f = "FOLD_U32T (FOLD_U32T s5)"
  have "unat (FOLD_U32T s5) < 131071" unfolding unat_FOLD n using hdr_total_less [of service len ident lifetime proto src dest] by (simp add: div_less_iff_less_mult)
  then have small: "unat ?f < 65536" by (rule FOLD_small)
  let ?s6 = "FOLD_U32T s5"
  have low: "(ucast (drop_bit 16 ?s6 + ?s6) :: u16) = ucast ?f"
  proof -
    have mask16: "(0xffff :: u32) = mask 16" by (simp add: mask_eq_exp_minus_1)
    have "(ucast ?s6 :: u16) = ucast (?s6 AND 0xffff)" unfolding mask16 by (rule bit_word_eqI) (auto simp: bit_simps)
    then show ?thesis by (simp add: FOLD_U32T_def [of ?s6] low_half_add)
  qed
  have service_bytes: "lwip_htons (ucast service OR 17664) = un_le16 0x45 service"
    using htons_un_be16 [of "0x45" service] two_bytes [of service "0x45"] by simp
  have "ip_hdr_chksum service len ident lifetime proto src dest = NOT (ucast ?f)"
  proof -
    have "ip_hdr_chksum service len ident lifetime proto src dest = ucast (NOT (drop_bit 16 ?s6 + ?s6))"
      unfolding ip_hdr_chksum_def Let_def FOLD_U32T_def s5_def two_bytes [of _ lifetime, symmetric]
      by (simp add: two_bytes htons_un_be16 service_bytes)
    also have "\<dots> = NOT (ucast (drop_bit 16 ?s6 + ?s6))" by (rule bit_word_eqI) (auto simp: bit_simps)
    finally show ?thesis by (simp only: low)
  qed
  moreover have "unat (ucast ?f :: u16) = unat ?f" using small by (simp add: unsigned_ucast_eq take_bit_nat_eq_self)
  ultimately have "unat (ip_hdr_chksum service len ident lifetime proto src dest) = 65535 - unat ?f" by (simp add: unat_not16)
  moreover have "same_sum (unat ?f) ?N" using same_sum_trans [OF same_sum_FOLD same_sum_FOLD] n by metis
  ultimately show ?thesis using small by (intro exI [of _ "unat ?f"]) simp
qed

lemma byte_sum_be16: "same_sum (unat (lwip_htons w) + byte_sum bs) (byte_sum (be16 w @ bs))"
  using byte_sum_two [of "ucast (drop_bit 8 w)" "ucast w" bs] by (simp add: be16_def be16_htons)

lemma byte_sum_le16: "same_sum (unat w + byte_sum bs) (byte_sum (le16 w @ bs))"
  using byte_sum_two [of "ucast w" "ucast (drop_bit 8 w)" bs] by (simp add: le16_def un_le16_le16)

lemma byte_sum_le32: "same_sum ((unat w mod 65536 + unat w div 65536) + byte_sum bs) (byte_sum (le32 w @ bs))"
proof -
  have "same_sum ((unat w mod 65536 + unat w div 65536) + byte_sum bs) (unat w + byte_sum bs)" by (intro same_sum_add same_sum_halves same_sum_refl)
  also have "same_sum (unat w + byte_sum bs) (byte_sum (le32 w @ bs))"
    using byte_sum_four [of "ucast w" "ucast (drop_bit 8 w)" "ucast (drop_bit 16 w)" "ucast (drop_bit 24 w)" bs] by (simp add: le32_def un_le32_le32)
  finally show ?thesis .
qed

lemma ip_hdr_sum:
  "same_sum (byte_sum (ip_hdr service len ident lifetime proto c src dest)) (hdr_total service len ident lifetime proto src dest + unat c)"
proof -
  have "same_sum (unat (un_le16 0x45 service) + (unat (lwip_htons len) + (unat (lwip_htons ident) + (unat (lwip_htons 0) + (unat (un_le16 lifetime proto)
      + (unat c + ((unat src mod 65536 + unat src div 65536) + ((unat dest mod 65536 + unat dest div 65536) + byte_sum []))))))))
      (byte_sum (ip_hdr service len ident lifetime proto c src dest))"
    unfolding ip_hdr_def append.simps append_Nil
    by (intro same_sum_trans [OF same_sum_add [OF same_sum_refl] byte_sum_two] same_sum_trans [OF same_sum_add [OF same_sum_refl] byte_sum_be16]
        same_sum_trans [OF same_sum_add [OF same_sum_refl] byte_sum_le16] same_sum_trans [OF same_sum_add [OF same_sum_refl] byte_sum_le32])
      (use byte_sum_le32 [of dest "[]"] in simp)
  then show ?thesis using same_sum_sym by (simp add: hdr_total_def lwip_htons_def add_ac)
qed

lemma length_ip_hdr [simp]: "length (ip_hdr service len ident lifetime proto c src dest) = IP_HLEN"
  by (simp add: ip_hdr_def be16_def le16_def le32_def IP_HLEN_def)

lemma header_sum_zero:
  "inet_chksum thumb2_checksum addr
     (ip_hdr service len ident lifetime proto (ip_hdr_chksum service len ident lifetime proto src dest) src dest) = 0"
proof -
  let ?c = "ip_hdr_chksum service len ident lifetime proto src dest" and ?t = "hdr_total service len ident lifetime proto src dest"
  let ?h = "ip_hdr service len ident lifetime proto ?c src dest"
  obtain x where x: "x \<le> 65535" "unat ?c = 65535 - x" "same_sum x ?t" using ip_hdr_chksum_value by blast
  have "same_sum 65535 (?t + unat ?c)" using same_sum_add [OF x(3) same_sum_refl, of "unat ?c"] x(1,2) by simp
  also have "same_sum (?t + unat ?c) (byte_sum ?h)" by (rule same_sum_sym [OF ip_hdr_sum])
  finally have "same_sum (unat (0xFFFF :: u16)) (byte_sum ?h)" by simp
  then have "thumb2_checksum addr ?h = 0xFFFF" by (intro thumb2.chk_unique) (simp_all add: IP_HLEN_def)
  then show ?thesis by (simp add: inet_chksum_def)
qed

text \<open>C14: The sum a sender computes along with the header, without reading it back, makes the receiver's checksum over the header come out as
  zero, wherever the header is in memory.\<close>

theorem ip_header_verifies:
  "inet_chksum thumb2_checksum addr
     (ip_hdr service len ident lifetime proto (ip_hdr_chksum service len ident lifetime proto src dest) src dest) = 0"
  by (rule header_sum_zero)

subsection \<open>A packet in one buffer\<close>

lemma ip_hdr_fields:
  assumes "h = ip_hdr service len ident lifetime proto c src dest"
  shows "h ! 0 = 0x45" "un_be16 (h ! 2) (h ! 3) = len" "un_be16 (h ! 6) (h ! 7) = 0" "h ! 9 = proto"
    "un_le32 (h ! 12) (h ! 13) (h ! 14) (h ! 15) = src" "un_le32 (h ! 16) (h ! 17) (h ! 18) (h ! 19) = dest"
  using un_be16_be16 [of 0] by (simp_all add: assms ip_hdr_def be16_def le16_def le32_def un_be16_be16 un_le32_le32 nth_Cons')

text \<open>Only one buffer holds the packet, which lies in the pool: a cut does not shrink its memory.\<close>

definition one_pooled :: "pmem \<Rightarrow> nat \<Rightarrow> pbuf \<Rightarrow> bool" where
  "one_pooled m a x \<longleftrightarrow> store m a = Some x \<and> nxt x = None \<and> beg x + unat (plen x) \<le> length (blk x) \<and> ptot x = plen x \<and> ptype x = PBUF_POOL"

lemma one_pooled_bytes: "one_pooled m a x \<Longrightarrow> packet m (Some a) [a] \<and> chain_bytes m [a] = buf_bytes x \<and> length (buf_bytes x) = unat (plen x)"
  by (auto simp: one_pooled_def packet_def length_buf_bytes)

lemma set_next_none: "nxt y = None \<Longrightarrow> set_next (Some a) None (set_pbuf a y m) = Some (set_pbuf a y m)"
  by (cases y) (simp add: set_next_def set_pbuf_def)

lemma realloc_one:
  assumes "one_pooled m a x" "n < ptot x"
  shows "pbuf_realloc (Some a) n m = Some (set_pbuf a (x\<lparr>plen := n, ptot := n\<rparr>) m)" "one_pooled (set_pbuf a (x\<lparr>plen := n, ptot := n\<rparr>) m) a (x\<lparr>plen := n, ptot := n\<rparr>)"
    "buf_bytes (x\<lparr>plen := n, ptot := n\<rparr>) = take (unat n) (buf_bytes x)"
proof -
  have x: "store m a = Some x" "nxt x = None" "ptot x = plen x" "ptype x = PBUF_POOL" "unat n < unat (plen x)"
    using assms by (simp_all add: one_pooled_def word_less_nat_alt)
  have "realloc_loop (Some a) (unat n) (ptot x - n) m = Some (a, unat n, m)" using x by (subst realloc_loop.simps) simp
  then show "pbuf_realloc (Some a) n m = Some (set_pbuf a (x\<lparr>plen := n, ptot := n\<rparr>) m)"
    using x assms(2) by (simp add: pbuf_realloc_def set_next_none)
  show "one_pooled (set_pbuf a (x\<lparr>plen := n, ptot := n\<rparr>) m) a (x\<lparr>plen := n, ptot := n\<rparr>)" "buf_bytes (x\<lparr>plen := n, ptot := n\<rparr>) = take (unat n) (buf_bytes x)"
    using assms(1) x(5) by (simp_all add: one_pooled_def buf_bytes_def min_absorb1)
qed

lemma remove_one:
  assumes "one_pooled m a x" "n \<le> unat (plen x)"
  defines "y \<equiv> x\<lparr>beg := beg x + n, plen := plen x - of_nat n, ptot := ptot x - of_nat n\<rparr>"
  shows "pbuf_remove_header (Some a) n m = Some (0, set_pbuf a y m)" "one_pooled (set_pbuf a y m) a y" "buf_bytes y = drop n (buf_bytes x)"
proof -
  have x: "packet m (Some a) [a]" "store m a = Some x" "nxt x = None" "beg x + unat (plen x) \<le> length (blk x)" "ptot x = plen x" "ptype x = PBUF_POOL"
    using assms(1) one_pooled_bytes by (auto simp: one_pooled_def)
  obtain m' where m': "pbuf_remove_header (Some a) n m = Some (0, m')" "chain_bytes m' [a] = drop n (chain_bytes m [a])" "m' = set_pbuf a y m"
    "packet m' (Some a) [a]"
    using remove_header_packet [OF x(1,2) assms(2)] unfolding y_def by blast
  show "pbuf_remove_header (Some a) n m = Some (0, set_pbuf a y m)" using m'(1,3) by simp
  show "buf_bytes y = drop n (buf_bytes x)" using m'(2) x(2) unfolding m'(3) by simp
  show "one_pooled (set_pbuf a y m) a y" using m'(4) x unfolding m'(3) by (auto simp: one_pooled_def y_def packet_def)
qed

subsection \<open>An IPv4 packet received\<close>

text \<open>A header the receiver takes: its length, the length of the packet within the bytes that are there, and a sum that comes out right.\<close>

definition ip_header_ok :: "u8 list \<Rightarrow> nat \<Rightarrow> nat \<Rightarrow> u8 \<Rightarrow> u32 \<Rightarrow> u32 \<Rightarrow> bool" where
  "ip_header_ok bs hlen len proto src dest \<longleftrightarrow> drop_bit 4 (bs ! 0) = 4 \<and> hlen = unat (bs ! 0 AND 0x0f) * 4 \<and> len = unat (un_be16 (bs ! 2) (bs ! 3))
     \<and> IP_HLEN \<le> hlen \<and> hlen \<le> len \<and> len \<le> length bs \<and> standard_chksum1 (take hlen bs) = 0xFFFF
     \<and> proto = bs ! 9 \<and> src = un_le32 (bs ! 12) (bs ! 13) (bs ! 14) (bs ! 15) \<and> dest = un_le32 (bs ! 16) (bs ! 17) (bs ! 18) (bs ! 19)"

text \<open>The bytes in the memory of the buffer from the packet's first on, and the ports a DHCP message comes to, read there.\<close>

definition memory_at :: "pbuf \<Rightarrow> u8 list" where "memory_at x = drop (beg x) (blk x)"

definition dhcp_port :: "pbuf \<Rightarrow> nat \<Rightarrow> bool" where
  "dhcp_port x hlen \<longleftrightarrow> un_be16 (memory_at x ! (hlen + 2)) (memory_at x ! (hlen + 3)) \<in> {DHCP_CLIENT_PORT, ACCEPTED_PORT}"

definition meant_for :: "'d link_env \<Rightarrow> nat \<Rightarrow> nat \<Rightarrow> u8 \<Rightarrow> u32 \<Rightarrow> bool \<Rightarrow> bool" where
  "meant_for env inp k proto dest dhcp \<longleftrightarrow> ip4_addr_ismulticast dest \<and> k = inp \<or> ip4_input_accept dest (ifs env k) \<or> dhcp \<and> proto = IP_PROTO_UDP \<and> k = inp"

text \<open>A packet that must not be dropped.\<close>

definition acceptable :: "'d link_env \<Rightarrow> interfaces \<Rightarrow> nat \<Rightarrow> u8 list \<Rightarrow> bool" where
  "acceptable env rt inp bs \<longleftrightarrow> (\<exists>hlen len proto src dest. ip_header_ok bs hlen len proto src dest \<and> ip4_netif_for env rt inp dest \<noteq> None
     \<and> \<not> isbroadcast src (ifs env inp) \<and> \<not> ip4_addr_ismulticast src \<and> proto \<in> {IP_PROTO_UDP, IP_PROTO_TCP, IP_PROTO_ICMP})"

definition ip_outcome :: "'d link_env \<Rightarrow> interfaces \<Rightarrow> nat \<Rightarrow> nat \<Rightarrow> pbuf \<Rightarrow> pmem \<Rightarrow> ip_verdict \<Rightarrow> pmem \<Rightarrow> bool" where
  "ip_outcome env rt inp a x m v m' \<longleftrightarrow> (\<forall>b. b \<noteq> a \<longrightarrow> store m' b = store m b) \<and>
     (case v of
        Ip_dropped \<Rightarrow> store m' a = None \<and> \<not> acceptable env rt inp (buf_bytes x)
      | Ip_deliver proto b hlen k src dest \<Rightarrow> b = a \<and> (\<exists>len y. ip_header_ok (buf_bytes x) hlen len proto src dest
          \<and> meant_for env inp k proto dest (dhcp_port x hlen) \<and> ip4_netif_for env rt inp dest \<in> {None, Some k} \<and> one_pooled m' a y
          \<and> blk y = blk x \<and> beg y = beg x + hlen \<and> pref y = pref x \<and> buf_bytes y = drop hlen (take len (buf_bytes x)))
      | Ip_reassemble b proto \<Rightarrow> b = a \<and> (\<exists>hlen len src dest y. ip_header_ok (buf_bytes x) hlen len proto src dest
          \<and> un_be16 (buf_bytes x ! 6) (buf_bytes x ! 7) AND IP_FRAGMENT \<noteq> 0 \<and> one_pooled m' a y \<and> buf_bytes y = take len (buf_bytes x))
      | Ip_proto_unreachable b \<Rightarrow> b = a \<and> (\<exists>hlen len proto src dest y. ip_header_ok (buf_bytes x) hlen len proto src dest
          \<and> proto \<notin> {IP_PROTO_UDP, IP_PROTO_TCP, IP_PROTO_ICMP} \<and> one_pooled m' a y \<and> buf_bytes y = take len (buf_bytes x)))"

lemma header_prefix:
  assumes "n \<le> length b"
  shows "ip_header_ok (take n b) hlen len proto src dest \<longleftrightarrow> len \<le> n \<and> ip_header_ok b hlen len proto src dest"
proof (cases "20 \<le> n \<and> hlen \<le> n")
  case True
  then have "\<forall>i < 20. take n b ! i = b ! i" "take hlen (take n b) = take hlen b" by (simp_all add: min_def)
  then show ?thesis using assms by (auto simp: ip_header_ok_def)
next
  case False
  have "20 \<le> hlen \<and> hlen \<le> len \<and> len \<le> length bs" if "ip_header_ok bs hlen len proto src dest" for bs
    using that unfolding ip_header_ok_def IP_HLEN_def by blast
  from this [of "take n b"] this [of b] False assms show ?thesis by auto
qed

lemma netif_for_meant: "ip4_netif_for env rt inp dest = Some k \<Longrightarrow> meant_for env inp k proto dest dhcp"
  by (auto simp: ip4_netif_for_def meant_for_def find_Some_iff split: if_splits)

lemma drop_one:
  assumes "one_pooled m a x" "pref x = 1"
  shows "\<exists>m'. drop_packet (Some a) m = Some (Ip_dropped, m') \<and> store m' a = None \<and> (\<forall>b. b \<noteq> a \<longrightarrow> store m' b = store m b)"
proof -
  have "pbuf_free (Some a) m = Some (1, release a x m)" unfolding pbuf_free_def
    using assms by (subst pbuf_free_loop.simps) (simp add: one_pooled_def pbuf_free_loop.simps [of None])
  then show ?thesis by (simp add: drop_packet_def)
qed

text \<open>The header in front of the payload is not lost: a forced header comes back with its bytes.\<close>

lemma header_back:
  assumes "one_pooled m a x" "n \<le> unat (plen x)"
  defines "y \<equiv> x\<lparr>beg := beg x + n, plen := plen x - of_nat n, ptot := ptot x - of_nat n\<rparr>"
  shows "pbuf_add_header_impl (Some a) n True (set_pbuf a y m) = Some (0, set_pbuf a x m)"
proof -
  have small: "unat (plen x) < 65536" using unsigned_less [of "plen x", where 'a = nat] by simp
  then have n: "unat (of_nat n :: u16) = n" using assms(2) by (intro unat_of_nat_small) simp
  have p: "ptot x = plen x" "ptype x = PBUF_POOL" using assms(1) by (simp_all add: one_pooled_def)
  have le: "of_nat n \<le> plen x" using n assms(2) by (simp add: word_le_nat_alt)
  have y: "x\<lparr>ptot := plen x\<rparr> = x" using p(1) by (cases x) simp
  show ?thesis
  proof (cases "n = 0")
    case True
    then show ?thesis unfolding y_def by (cases x) (simp add: pbuf_add_header_impl_def)
  next
    case False
    have "\<not> of_nat n + ptot y < of_nat n" using le p(1) by (simp add: y_def not_less)
    then show ?thesis using False assms(2) small p
      by (simp add: pbuf_add_header_impl_def y_def Let_def contiguous_def set_pbuf_def) (simp only: y)
  qed
qed

lemma sum_is_ones: "length bs < 65536 \<Longrightarrow> inet_chksum thumb2_checksum addr bs = 0 \<longleftrightarrow> standard_chksum1 bs = 0xFFFF"
proof -
  assume "length bs < 65536"
  then have "thumb2_checksum addr bs = standard_chksum1 bs" by (intro thumb2.chk_unique standard_chksum1_sum)
  moreover have "NOT w = 0 \<longleftrightarrow> w = 0xFFFF" for w :: u16
  proof
    assume "NOT w = 0"
    then have "NOT (NOT w) = NOT 0" by simp
    then show "w = 0xFFFF" by simp
  qed simp
  ultimately show ?thesis by (simp add: inet_chksum_def)
qed

text \<open>Delivery of a packet whose header is right.\<close>

lemma deliver_run:
  assumes "one_pooled m a x" "pref x = 1" "ip_header_ok (buf_bytes x0) hlen len proto src dest" "buf_bytes x = take len (buf_bytes x0)" "blk x = blk x0" "beg x = beg x0" "pref x0 = 1"
    and "meant_for env inp k proto dest (dhcp_port x0 hlen)" "ip4_netif_for env rt inp dest \<in> {None, Some k}"
  shows "\<exists>v m'. ip4_deliver env k (Some a) proto hlen src dest m = Some (v, m') \<and> ip_outcome env rt inp a x0 m v m'"
proof -
  have len: "hlen \<le> unat (plen x)" using assms(1,3,4) one_pooled_bytes [OF assms(1)] by (simp add: ip_header_ok_def)
  define y where "y = x\<lparr>beg := beg x + hlen, plen := plen x - of_nat hlen, ptot := ptot x - of_nat hlen\<rparr>"
  note r = remove_one [OF assms(1) len, folded y_def]
  have a: "pbuf_at (Some a) m = Some (a, x)" using assms(1) by (simp add: one_pooled_def pbuf_at_def)
  have y: "pref y = 1" "buf_bytes y = drop hlen (take len (buf_bytes x0))" "blk y = blk x0" "beg y = beg x0 + hlen" "pref x0 = 1"
    using assms(2,4-7) r(3) by (simp_all add: y_def)
  consider "proto \<in> {IP_PROTO_UDP, IP_PROTO_TCP, IP_PROTO_ICMP}"
    | "proto \<notin> {IP_PROTO_UDP, IP_PROTO_TCP, IP_PROTO_ICMP}" "\<not> isbroadcast dest (ifs env k) \<and> \<not> ip4_addr_ismulticast dest"
    | "proto \<notin> {IP_PROTO_UDP, IP_PROTO_TCP, IP_PROTO_ICMP}" "\<not> (\<not> isbroadcast dest (ifs env k) \<and> \<not> ip4_addr_ismulticast dest)" by blast
  then show ?thesis
  proof cases
    case 1
    then have "ip4_deliver env k (Some a) proto hlen src dest m = Some (Ip_deliver proto a hlen k src dest, set_pbuf a y m)"
      using a r(1) by (auto simp: ip4_deliver_def)
    then show ?thesis using assms(3,7-9) r(2) y by (auto simp: ip_outcome_def)
  next
    case 2
    then have "ip4_deliver env k (Some a) proto hlen src dest m = Some (Ip_proto_unreachable a, set_pbuf a x m)"
      using a r(1) header_back [OF assms(1) len, folded y_def] by (auto simp: ip4_deliver_def)
    moreover have "one_pooled (set_pbuf a x m) a x" using assms(1) by (simp add: one_pooled_def)
    ultimately show ?thesis using assms(3,4) 2(1) by (simp add: ip_outcome_def) blast
  next
    case 3
    obtain m' where "drop_packet (Some a) (set_pbuf a y m) = Some (Ip_dropped, m')" "store m' a = None" "\<forall>b. b \<noteq> a \<longrightarrow> store m' b = store m b"
      using drop_one [OF r(2) y(1)] by auto
    moreover from this(1) have "ip4_deliver env k (Some a) proto hlen src dest m = Some (Ip_dropped, m')"
      using 3 a r(1) by (auto simp: ip4_deliver_def)
    moreover have "\<not> acceptable env rt inp (buf_bytes x0)" using 3(1) assms(3) by (auto simp: acceptable_def ip_header_ok_def)
    ultimately show ?thesis by (auto simp: ip_outcome_def)
  qed
qed

lemma read_memory: "off + n \<le> length (memory_at x) \<Longrightarrow> beg x \<le> length (blk x) \<Longrightarrow> payload_read x off n = Some (take n (drop off (memory_at x)))"
  by (simp add: payload_read_def memory_at_def add.commute)

lemma trim_one:
  fixes len :: u16
  assumes "one_pooled m a x"
  defines "y \<equiv> (if len < ptot x then x\<lparr>plen := len, ptot := len\<rparr> else x)"
  shows "(if len < ptot x then pbuf_realloc (Some a) len m else Some m) = Some (set_pbuf a y m)" "one_pooled (set_pbuf a y m) a y"
    "memory_at y = memory_at x" "buf_bytes y = take (unat len) (buf_bytes x)" "pref y = pref x" "blk y = blk x" "beg y = beg x"
proof -
  have e: "set_pbuf a x m = m" using assms(1) by (simp add: one_pooled_def set_pbuf_def fun_upd_idem)
  have "buf_bytes x = take (unat len) (buf_bytes x)" if "\<not> len < ptot x"
    using that assms(1) one_pooled_bytes [OF assms(1)] by (simp add: one_pooled_def word_less_nat_alt)
  then show "(if len < ptot x then pbuf_realloc (Some a) len m else Some m) = Some (set_pbuf a y m)" "one_pooled (set_pbuf a y m) a y"
    "memory_at y = memory_at x" "buf_bytes y = take (unat len) (buf_bytes x)" "pref y = pref x" "blk y = blk x" "beg y = beg x"
    using realloc_one [OF assms(1), of len] assms(1) e by (auto simp: y_def memory_at_def)
qed

lemma dhcp_run:
  assumes "hlen + 4 \<le> length (memory_at x)" "beg x \<le> length (blk x)" "n = ip4_netif_for env rt inp dest"
  obtains n' chk where "ip4_accept_dhcp inp n proto hlen x = Some (n', chk)" "\<And>k. n' = Some k \<Longrightarrow> meant_for env inp k proto dest (dhcp_port x hlen)"
    "n \<noteq> None \<Longrightarrow> n' = n"
proof -
  have r: "payload_read x (hlen + 2) 2 = Some (take 2 (drop (hlen + 2) (memory_at x)))" using assms(1,2) by (intro read_memory) simp_all
  have "\<exists>n' chk. ip4_accept_dhcp inp n proto hlen x = Some (n', chk) \<and> (\<forall>k. n' = Some k \<longrightarrow> meant_for env inp k proto dest (dhcp_port x hlen))
      \<and> (n \<noteq> None \<longrightarrow> n' = n)"
  proof (cases "n = None \<and> proto = IP_PROTO_UDP")
    case True
    then show ?thesis using r assms(1) by (auto simp: ip4_accept_dhcp_def Let_def meant_for_def dhcp_port_def numeral_3_eq_3)
  next
    case False
    then show ?thesis using netif_for_meant assms(3) by (auto simp: ip4_accept_dhcp_def)
  qed
  then show thesis using that by blast
qed

lemma header_length: "unat (b AND 0x0f :: u8) * 4 \<le> 60"
proof -
  have "b AND 0x0f = take_bit 4 b" by (simp add: take_bit_eq_mask mask_eq_exp_minus_1)
  then have "unat (b AND 0x0f) = unat b mod 16" by (simp only: unsigned_take_bit_eq) (simp add: take_bit_eq_mod)
  then show ?thesis by simp
qed

lemma ip4_input_run:
  assumes "one_pooled m a x" "pref x = 1" "64 \<le> length (memory_at x)"
  shows "\<exists>v m'. ip4_input thumb2_checksum env rt inp (Some a) m = Some (v, m') \<and> ip_outcome env rt inp a x m v m'"
proof -
  define b where "b = memory_at x"
  define len where "len = un_be16 (b ! 2) (b ! 3)"
  define hlen where "hlen = unat (b ! 0 AND 0x0f) * 4"
  define y where "y = (if len < ptot x then x\<lparr>plen := len, ptot := len\<rparr> else x)"
  let ?m = "set_pbuf a y m" and ?src = "un_le32 (b ! 12) (b ! 13) (b ! 14) (b ! 15)" and ?dest = "un_le32 (b ! 16) (b ! 17) (b ! 18) (b ! 19)"
  note t = trim_one [OF assms(1), of len, folded y_def]
  have x: "store m a = Some x" "beg x \<le> length (blk x)" "ptot y = plen y" "beg y \<le> length (blk y)" using assms(1) t(2) by (simp_all add: one_pooled_def)
  have my: "memory_at y = b" "64 \<le> length b" using t(3) assms(3) by (simp_all add: b_def)
  have hl: "hlen \<le> 60" unfolding hlen_def by (rule header_length)
  have v: "payload_read x 0 4 = Some (take 4 b)" using read_memory [of 0 4 x] x(2) assms(3) by (simp add: b_def)
  have h: "payload_read y 0 hlen = Some (take hlen b)" using read_memory [of 0 hlen y] x(4) my hl by simp
  have at: "pbuf_at (Some a) m = Some (a, x)" "pbuf_at (Some a) ?m = Some (a, y)" using x(1) by (simp_all add: pbuf_at_def set_pbuf_def)
  have dropped: "\<exists>m'. drop_packet (Some a) ?m = Some (Ip_dropped, m') \<and> ip_outcome env rt inp a x m Ip_dropped m'" if "\<not> acceptable env rt inp (buf_bytes x)"
    using that drop_one [OF t(2)] t(5) assms(2) by (auto simp: ip_outcome_def set_pbuf_def)
  have bb: "buf_bytes x = take (unat (plen x)) b" "unat (plen x) \<le> length b"
    using assms(1) by (auto simp: one_pooled_def buf_bytes_def b_def memory_at_def)
  have hdr: "ip_header_ok (buf_bytes x) hl ln p sr ds \<longleftrightarrow> ln \<le> unat (plen x) \<and> ip_header_ok b hl ln p sr ds" for hl ln p sr ds
    unfolding bb(1) by (rule header_prefix [OF bb(2)])
  have acc: "drop_bit 4 (b ! 0) = 4 \<and> unat len \<le> unat (plen x) \<and> IP_HLEN \<le> hlen \<and> hlen \<le> unat len \<and> standard_chksum1 (take hlen b) = 0xFFFF
      \<and> ip4_netif_for env rt inp ?dest \<noteq> None \<and> \<not> isbroadcast ?src (ifs env inp) \<and> \<not> ip4_addr_ismulticast ?src"
    if "acceptable env rt inp (buf_bytes x)"
  proof -
    obtain hl ln p sr ds where "ln \<le> unat (plen x)" "ip_header_ok b hl ln p sr ds" "ip4_netif_for env rt inp ds \<noteq> None" "\<not> isbroadcast sr (ifs env inp)"
        "\<not> ip4_addr_ismulticast sr" using \<open>acceptable env rt inp (buf_bytes x)\<close> unfolding acceptable_def hdr by blast
    then show ?thesis unfolding ip_header_ok_def len_def hlen_def by blast
  qed
  show ?thesis
  proof (cases "drop_bit 4 (b ! 0) = 4")
    case False
    then have "ip4_input thumb2_checksum env rt inp (Some a) m = drop_packet (Some a) m" using at(1) v by (simp add: ip4_input_def)
    moreover have "\<not> acceptable env rt inp (buf_bytes x)" using False acc by blast
    ultimately show ?thesis using drop_one [OF assms(1,2)] by (auto simp: ip_outcome_def)
  next
    case four: True
    let ?short = "unat (plen y) < hlen \<or> ptot y < len \<or> hlen < IP_HLEN"
    show ?thesis
    proof (cases "?short \<or> inet_chksum thumb2_checksum (beg y) (take hlen b) \<noteq> 0")
      case True
      then have "ip4_input thumb2_checksum env rt inp (Some a) m = drop_packet (Some a) ?m"
        using four by (cases ?short) (simp_all add: ip4_input_def Let_def at v four h [unfolded hlen_def] t(1) [unfolded len_def] len_def hlen_def)
      moreover have "\<not> acceptable env rt inp (buf_bytes x)"
      proof
        assume "acceptable env rt inp (buf_bytes x)"
        then have w: "unat len \<le> unat (plen x)" "IP_HLEN \<le> hlen" "hlen \<le> unat len" "standard_chksum1 (take hlen b) = 0xFFFF"
          using acc by blast+
        then have "unat (plen y) = unat len" using t(4) one_pooled_bytes [OF t(2)] one_pooled_bytes [OF assms(1)] by simp
        then have "\<not> ?short" using w(2,3) x(3) by (simp add: word_less_nat_alt)
        moreover have "inet_chksum thumb2_checksum (beg y) (take hlen b) = 0" using w(4) sum_is_ones [of "take hlen b"] hl by simp
        ultimately show False using True by blast
      qed
      ultimately show ?thesis using dropped by metis
    next
      case False
      then have ok: "hlen \<le> unat (plen y)" "\<not> ptot y < len" "IP_HLEN \<le> hlen" "inet_chksum thumb2_checksum (beg y) (take hlen b) = 0" by auto
      have ylen: "length (buf_bytes y) = unat (plen y)" using one_pooled_bytes [OF t(2)] by simp
      then have n: "unat len \<le> length (buf_bytes x)" "unat (plen y) = unat len" using t(4) ok(2) x(3) by (auto simp: word_less_nat_alt)
      have nth: "buf_bytes x ! i = b ! i" if "i < hlen" for i
        using that ok(1) n one_pooled_bytes [OF assms(1)] by (simp add: buf_bytes_def b_def memory_at_def)
      have nths: "\<forall>i < 20. buf_bytes x ! i = b ! i" using nth ok(3) by (simp add: IP_HLEN_def)
      have th: "take hlen (buf_bytes x) = take hlen b" using ok(1) n one_pooled_bytes [OF assms(1)]
        by (simp add: buf_bytes_def b_def memory_at_def min_def)
      have "length (take hlen b) < 65536" using hl by simp
      from sum_is_ones [OF this] have "standard_chksum1 (take hlen b) = 0xFFFF" using ok(4) by blast
      then have good: "ip_header_ok (buf_bytes x) hlen (unat len) (b ! 9) ?src ?dest"
        using four ok(1,3) n nths th by (simp add: ip_header_ok_def len_def hlen_def)
      have 20: "20 \<le> hlen" using ok(3) by (simp add: IP_HLEN_def)
      obtain n' chk where d: "ip4_accept_dhcp inp (ip4_netif_for env rt inp ?dest) (b ! 9) hlen y = Some (n', chk)"
          "\<And>k. n' = Some k \<Longrightarrow> meant_for env inp k (b ! 9) ?dest (dhcp_port y hlen)" "ip4_netif_for env rt inp ?dest \<noteq> None \<Longrightarrow> n' = ip4_netif_for env rt inp ?dest"
        using dhcp_run [of hlen y "ip4_netif_for env rt inp ?dest" env rt inp ?dest "b ! 9"] my hl x(4) by auto
      let ?bad = "chk \<and> ?src \<noteq> 0 \<and> (isbroadcast ?src (ifs env inp) \<or> ip4_addr_ismulticast ?src)"
      let ?frag = "un_be16 (b ! 6) (b ! 7) AND IP_FRAGMENT \<noteq> 0"
      have tail: "ip4_input thumb2_checksum env rt inp (Some a) m =
          (if ?bad then drop_packet (Some a) ?m
           else (case n' of None \<Rightarrow> drop_packet (Some a) ?m
             | Some k \<Rightarrow> if ?frag then Some (Ip_reassemble a (b ! 9), ?m) else ip4_deliver env k (Some a) (b ! 9) hlen ?src ?dest ?m))"
        using ok d(1) 20 by (cases n') (auto simp: ip4_input_def Let_def at v four h [unfolded hlen_def] t(1) [unfolded len_def] len_def hlen_def)
      show ?thesis
      proof (cases "?bad \<or> n' = None")
        case True
        have "\<not> acceptable env rt inp (buf_bytes x)" using True d(3) acc by fastforce
        then show ?thesis using True tail dropped by auto
      next
        case False
        then obtain k where k: "n' = Some k" "\<not> ?bad" by auto
        show ?thesis
        proof (cases ?frag)
          case True
          then have "ip4_input thumb2_checksum env rt inp (Some a) m = Some (Ip_reassemble a (b ! 9), ?m)" using tail k by simp
          then show ?thesis using good True nths t(2,4) by (auto simp: ip_outcome_def set_pbuf_def)
        next
          case False
          then have eq: "ip4_input thumb2_checksum env rt inp (Some a) m = ip4_deliver env k (Some a) (b ! 9) hlen ?src ?dest ?m" using tail k by simp
          have "dhcp_port y hlen = dhcp_port x hlen" using t(3) by (simp add: dhcp_port_def)
          then have "meant_for env inp k (b ! 9) ?dest (dhcp_port x hlen)" using d(2) [OF k(1)] by simp
          moreover have "ip4_netif_for env rt inp ?dest \<in> {None, Some k}" using d(3) k(1) by (cases "ip4_netif_for env rt inp ?dest") auto
          ultimately obtain v m' where "ip4_deliver env k (Some a) (b ! 9) hlen ?src ?dest ?m = Some (v, m')" "ip_outcome env rt inp a x ?m v m'"
            using deliver_run [OF t(2) _ good t(4,6,7) assms(2)] t(5) assms(2) by metis
          then show ?thesis using eq by (auto simp: ip_outcome_def set_pbuf_def)
        qed
      qed
    qed
  qed
qed

end
