(* ===== verification/AddressResolution.thy ===== *)
theory AddressResolution
  imports ArpProtocol
begin

text \<open>
  The properties of address resolution, over the transition system of \<open>ArpProtocol\<close>, and a concrete environment that satisfies their
  hypotheses: a heap that gives the first free address, a driver that puts the bytes of a packet on a list.
\<close>

subsection \<open>A concrete environment\<close>

partial_function (option) frame_bytes :: "nat option \<Rightarrow> pmem \<Rightarrow> u8 list option" where
  "frame_bytes p m =
     (case p of None \<Rightarrow> Some []
      | Some _ \<Rightarrow> do { (_, x) \<leftarrow> pbuf_at p m; b \<leftarrow> payload_read x 0 (unat (plen x)); r \<leftarrow> frame_bytes (nxt x) m; Some (b @ r) })"

lemma frame_bytes_chain: "chain m p as \<Longrightarrow> frame_bytes p m = Some (chain_bytes m as)"
proof (induction as arbitrary: p)
  case Nil
  then show ?case by (simp add: frame_bytes.simps)
next
  case (Cons a as)
  then obtain x where x: "p = Some a" "store m a = Some x" "beg x + unat (plen x) \<le> length (blk x)" "chain m (nxt x) as" by auto
  then have "payload_read x 0 (unat (plen x)) = Some (buf_bytes x)" by (simp add: payload_read_def buf_bytes_def)
  then show ?case using x Cons.IH [OF x(4)] by (subst frame_bytes.simps) simp
qed

definition our_if :: eth_netif where
  "our_if = \<lparr>ip_addr = 0x0A0A0A0A, netmask = 0x00FFFFFF, netif_index = 1, broadcast_flag = True, gw = 0x010A0A0A, hwaddr = [0, 8, 220, 0, 0, 1],
     flag_etharp = True, up = True, link_up = True, mtu = 1500\<rparr>"

definition lan :: "u8 list list link_env" where
  "lan = \<lparr>ifs = (\<lambda>_. our_if),
     heap = (\<lambda>m k. if SIZEOF_STRUCT_PBUF \<le> k \<and> (\<exists>a. store m a = None) then Some (LEAST a. store m a = None, replicate (k - SIZEOF_STRUCT_PBUF) 0) else None),
     linkoutput = (\<lambda>n m p d. map_option (\<lambda>b. (ERR_OK, d @ [b])) (frame_bytes p m))\<rparr>"

lemma lan_ok: "env_ok lan (\<lambda>_. True) id"
proof -
  have "heap_ok lan" by (auto simp: heap_ok_def lan_def intro: LeastI split: if_splits)
  moreover have "link_ok lan (\<lambda>_. True) id" by (auto simp: link_ok_def lan_def packet_def frame_bytes_chain)
  ultimately show ?thesis by (simp add: env_ok_def lan_def our_if_def)
qed

lemma lan_roomy: "roomy lan"
proof -
  have "heap lan m 60 \<noteq> None" if f: "finite (dom (store m))" for m
  proof -
    obtain a where "store m a = None" using ex_new_if_finite [OF infinite_UNIV_nat f] by (auto simp: dom_def)
    then have "\<exists>a. store m a = None" by blast
    then show ?thesis by (simp add: lan_def SIZEOF_STRUCT_PBUF_def)
  qed
  then show ?thesis by (simp add: roomy_def)
qed

definition one_buf :: "nat \<Rightarrow> u8 list \<Rightarrow> u8 list \<Rightarrow> u16 \<Rightarrow> pbuf" where
  "one_buf k bs rest n = \<lparr>nxt = None, blk = replicate k 0 @ bs @ rest, beg = k, ptot = n, plen = n, ptype = PBUF_RAM, pref = 1\<rparr>"

lemma one_buf_packet:
  assumes "store m a = Some (one_buf k bs rest n)" "length bs = unat n"
  shows "packet m (Some a) [a]" "sole m [a]" "chain_bytes m [a] = bs"
  using assms by (simp_all add: packet_def sole_def one_buf_def buf_bytes_def)

lemma arrives_one: "store m a = None \<Longrightarrow> arrives [a] m (set_pbuf a x m)"
  by (simp add: arrives_def)

text \<open>A packet for 10.10.10.2, a request from there and a reply.\<close>

definition host :: u32 where "host = 0x020A0A0A"
definition host_hw :: "u8 list" where "host_hw = [2, 0, 0, 0, 0, 9]"

definition with_packet :: "nat \<Rightarrow> u8 list \<Rightarrow> pmem \<Rightarrow> pmem" where
  "with_packet a bs m = set_pbuf a (one_buf 16 bs [] (of_nat (length bs))) m"

definition host_arp :: "u16 \<Rightarrow> u32 \<Rightarrow> u8 list" where "host_arp op ip = etharp_hdr op host_hw host ethzero ip"

lemma with_packet_ok:
  assumes "store m a = None" "length bs \<le> 1500" "bs \<noteq> []"
  shows "arrives [a] m (with_packet a bs m)" "outgoing (with_packet a bs m) a [a]" "linkable (with_packet a bs m) a" "by_value (with_packet a bs m) [a]"
    "chain_bytes (with_packet a bs m) [a] = bs"
proof -
  have n: "length bs = unat (of_nat (length bs) :: u16)" using assms(2) by (simp add: unat_of_nat_small)
  have s: "store (with_packet a bs m) a = Some (one_buf 16 bs [] (of_nat (length bs)))" by (simp add: with_packet_def)
  note p = one_buf_packet [OF s n]
  show "arrives [a] m (with_packet a bs m)" unfolding with_packet_def by (rule arrives_one [OF assms(1)])
  show "chain_bytes (with_packet a bs m) [a] = bs" by (rule p(3))
  have "buf_bytes (one_buf 16 bs [] (of_nat (length bs))) = bs" using p(3) s by simp
  then show "outgoing (with_packet a bs m) a [a]" using p s assms(2,3) by (simp add: outgoing_def filled_def)
  show "linkable (with_packet a bs m) a" "by_value (with_packet a bs m) [a]" using s
    by (simp_all add: linkable_def by_value_def one_buf_def contiguous_def SIZEOF_ETH_HDR_def)
qed

lemma host_arp_ok:
  assumes "store m a = None"
  shows "arrives [a] m (with_packet a (host_arp op ip) m)" "received (with_packet a (host_arp op ip) m) a [a]"
    "arp_bytes (with_packet a (host_arp op ip) m) a = host_arp op ip"
proof -
  have len: "length (host_arp op ip) = 28" by (simp add: host_arp_def host_hw_def length_etharp_hdr)
  then have ne: "length (host_arp op ip) \<le> 1500" "host_arp op ip \<noteq> []" by auto
  have w: "with_packet a (host_arp op ip) m = set_pbuf a (one_buf 16 (host_arp op ip) [] 28) m" using len by (simp add: with_packet_def)
  show "arrives [a] m (with_packet a (host_arp op ip) m)" by (rule with_packet_ok [OF assms ne])
  show "received (with_packet a (host_arp op ip) m) a [a]"
    using with_packet_ok(2) [OF assms ne] w len by (simp add: received_def outgoing_def readable_def one_buf_def)
  show "arp_bytes (with_packet a (host_arp op ip) m) a = host_arp op ip" using w len by (simp add: arp_bytes_def one_buf_def)
qed

lemma host_arp_fields [simp]:
  "arp_header_ok (host_arp op ip)" "arp_op (host_arp op ip) = op" "arp_sipaddr (host_arp op ip) = host" "arp_shwaddr (host_arp op ip) = host_hw"
  "arp_dipaddr (host_arp op ip) = ip"
  by (simp_all add: host_arp_def host_hw_def)

lemma host_is_local:
  "group_eth lan 0 host = None" "next_hop lan 0 host = host" "unicast lan 0 host" "\<not> no_route lan 0 host" "ip_addr (ifs lan 0) = 0x0A0A0A0A"
  "hwaddr (ifs lan 0) = [0, 8, 220, 0, 0, 1]"
  by (simp_all add: group_eth_def next_hop_def off_link_def no_route_def unicast_def lan_def our_if_def host_def ip4_addr_isbroadcast_def
      ip4_addr_ismulticast_def IPADDR_BROADCAST_def netif.defs Let_def)

lemma start_dev [simp]: "dev (arp_start pl d) = d"
  by (simp add: arp_start_def)

lemma start_unknown [simp]: "\<not> known (arp_start pl d) ip n" "unresolved (arp_start pl d) ip n" "store (mem (arp_start pl d)) a = None"
  by (auto simp: known_def unresolved_def resolved_def arp_start_def no_entry_def is_for_def entry_def)

lemma reach_fresh:
  assumes "arp_reach lan [] s"
  obtains a where "store (mem s) a = None"
proof -
  obtain ch where "arp_inv {} ch s" using arp_reach_inv [OF lan_ok _ assms] by blast
  then have "finite (dom (store (mem s)))" using arp_inv_finite by blast
  from ex_new_if_finite [OF infinite_UNIV_nat this] show thesis using that by (auto simp: dom_def)
qed

text \<open>A state in which a packet waits, and one in which the host is known.\<close>

lemma lan_waiting: "\<exists>s. arp_reach lan [] s \<and> dev s = [request_frame lan 0 host ethbroadcast]"
proof -
  let ?s = "arp_start [] [] :: u8 list list link_state"
  let ?m = "with_packet 7 [1, 2, 3, 4] (mem ?s)"
  note p = with_packet_ok [of "mem ?s" 7 "[1, 2, 3, 4]", OF start_unknown(3)]
  have i: "arp_inv {} (\<lambda>_. []) ?s" by (rule start_inv)
  have a: "arrives [7] (mem ?s) ?m" "outgoing (mem (?s\<lparr>mem := ?m\<rparr>)) 7 [7]" using p(1,2) by simp_all
  obtain e s1 ch where o: "handed (\<lambda>s. etharp_output lan 0 (Some 7) host s) 7 (?s\<lparr>mem := ?m\<rparr>) = Some (e, s1)"
      "output_outcome lan id 0 host 7 [7] (?s\<lparr>mem := ?m\<rparr>) e s1 ch"
    using output_run [OF lan_ok _ arrives_inv [OF i a(1)] a(2), of 0 host] by auto
  have "unresolved (?s\<lparr>mem := ?m\<rparr>) host 0" "\<not> known (?s\<lparr>mem := ?m\<rparr>) host 0"
    using start_unknown(1,2) [of "[]" "[] :: u8 list list" host 0] by (simp_all add: unresolved_def resolved_def known_def)
  then have "dev s1 = [request_frame lan 0 host ethbroadcast]"
    using o(2) host_is_local(1-4) lan_roomy by (auto simp: output_outcome_def query_outcome_def sent_def)
  moreover have "arp_reach lan [] s1" using p(1,2) o(1) by (intro arp_reach.step [OF arp_reach.start arp_step.send]) simp_all
  ultimately show ?thesis by blast
qed

lemma lan_known: "\<exists>s. arp_reach lan [] s \<and> resolved s host 0 host_hw"
proof -
  let ?s = "arp_start [] [] :: u8 list list link_state"
  let ?m = "with_packet 7 (host_arp ARP_REPLY 0x0A0A0A0A) (mem ?s)"
  note p = host_arp_ok [of "mem ?s" 7 ARP_REPLY "0x0A0A0A0A", OF start_unknown(3)]
  have i: "arp_inv {} (\<lambda>_. []) ?s" by (rule start_inv)
  obtain s1 where s1: "etharp_input lan 0 (Some 7) (?s\<lparr>mem := ?m\<rparr>) = Some s1" "input_outcome lan id 0 (host_arp ARP_REPLY 0x0A0A0A0A) (?s\<lparr>mem := ?m\<rparr>) (\<lambda>_. []) s1"
    using input_run [OF lan_ok _ arrives_inv [OF i p(1)], of 7 0] p(2,3) by (auto simp: received_def)
  have "learns lan 0 (host_arp ARP_REPLY 0x0A0A0A0A) (?s\<lparr>mem := ?m\<rparr>)" using host_is_local(3,5) by (simp add: learns_def for_us_def)
  then have "resolved s1 host 0 host_hw" using s1(2) by (simp add: input_outcome_def)
  moreover have "arp_reach lan [] s1" using arp_reach.step [OF arp_reach.start arp_step.receive [OF p(1,2) s1(1)]] .
  ultimately show ?thesis by blast
qed

subsection \<open>Properties\<close>

text \<open>C16: Whatever packets are sent and received, whenever the timer runs and interfaces are lost, the table is well formed (no two
  entries for one address, a packet waits only on a pending entry, no entry older than it may be) and every buffer in the heap
  belongs to exactly one packet that waits: none leaks, none is freed twice or shared.\<close>

theorem arp_table_and_heap_sound:
  assumes "env_ok env dev_ok wire" "dev_ok d" "arp_reach env d s"
  shows "wf_table (arp_table s) \<and> (\<exists>ch. (\<forall>i < ARP_TABLE_SIZE. waits (mem s) (queued (entry s i)) (ch i))
    \<and> (\<forall>a. store (mem s) a \<noteq> None \<longrightarrow> (\<exists>!i. i < ARP_TABLE_SIZE \<and> a \<in> set (ch i))))"
proof -
  obtain ch where i: "arp_inv {} ch s" using arp_reach_inv [OF assms] by blast
  then have h: "heap_inv {} ch (mem s) (arp_table s)" by (simp add: arp_inv_def)
  have "\<exists>!i. i < ARP_TABLE_SIZE \<and> a \<in> set (ch i)" if "store (mem s) a \<noteq> None" for a
    using heap_invD(3,4) [OF h] that by auto
  then show ?thesis using arp_inv_waits [OF i] i unfolding arp_inv_def by blast
qed

theorem arp_table_and_heap_sound_witness:
  "\<exists>s. arp_reach lan [] s \<and> dev s = [request_frame lan 0 host ethbroadcast] \<and> wf_table (arp_table s)"
  using lan_waiting arp_table_and_heap_sound [OF lan_ok] by blast

text \<open>Any packet can be taken as an ARP packet.\<close>

lemma arp_input_defined:
  assumes "env_ok env dev_ok wire" "dev_ok d" "arp_reach env d s" "arrives as (mem s) m" "received m p as"
  shows "\<exists>s'. etharp_input env n (Some p) (s\<lparr>mem := m\<rparr>) = Some s'"
proof -
  obtain ch where i: "arp_inv {} ch s" "dev_ok (dev s)" using arp_reach_inv [OF assms(1-3)] by blast
  have "dev_ok (dev (s\<lparr>mem := m\<rparr>))" using i(2) by simp
  from input_run [OF assms(1) this arrives_inv [OF i(1) assms(4)], where p = p and n = n] show ?thesis using assms(5) by (auto simp: received_def)
qed

text \<open>No operation runs into undefined behaviour or fails to return, in any state that can come about: a packet of up to 1500
  bytes may be sent to any address on any interface, and any bytes may be received as an ARP packet.\<close>

theorem arp_never_undefined:
  assumes "env_ok env dev_ok wire" "dev_ok d" "arp_reach env d s"
  shows "(arrives as (mem s) m \<and> outgoing m p as \<longrightarrow> handed (\<lambda>s. etharp_output env n (Some p) ip s) p (s\<lparr>mem := m\<rparr>) \<noteq> None)
    \<and> (arrives as (mem s) m \<and> received m p as \<longrightarrow> etharp_input env n (Some p) (s\<lparr>mem := m\<rparr>) \<noteq> None)
    \<and> etharp_tmr env s \<noteq> None \<and> etharp_cleanup_netif n s \<noteq> None \<and> etharp_request env n ip s \<noteq> None"
proof -
  obtain ch where i: "arp_inv {} ch s" "dev_ok (dev s)" using arp_reach_inv [OF assms] by blast
  have dm: "dev_ok (dev (s\<lparr>mem := m\<rparr>))" using i(2) by simp
  have "handed (\<lambda>s. etharp_output env n (Some p) ip s) p (s\<lparr>mem := m\<rparr>) \<noteq> None" if "arrives as (mem s) m \<and> outgoing m p as"
  proof -
    have a: "arrives as (mem s) m" "outgoing (mem (s\<lparr>mem := m\<rparr>)) p as" using that by simp_all
    show ?thesis using output_run [OF assms(1) dm arrives_inv [OF i(1) a(1)] a(2), of n ip] by auto
  qed
  moreover have "etharp_input env n (Some p) (s\<lparr>mem := m\<rparr>) \<noteq> None" if "arrives as (mem s) m \<and> received m p as"
    using arp_input_defined [OF assms, of as m p n] that by blast
  ultimately show ?thesis
    using tmr_run [OF assms(1) i(2,1)] cleanup_run [OF i(1), of n] request_run [OF assms(1) i(2), of n ip] by auto
qed

theorem arp_never_undefined_witness:
  "handed (\<lambda>s. etharp_output lan 0 (Some 7) host s) 7
     ((arp_start [] [])\<lparr>mem := with_packet 7 [1, 2, 3, 4] (mem (arp_start [] [] :: u8 list list link_state))\<rparr>) \<noteq> None"
  using arp_never_undefined [OF lan_ok _ arp_reach.start, where d = "[]" and as = "[7]" and n = 0 and ip = host and p = 7
      and m = "with_packet 7 [1, 2, 3, 4] (mem (arp_start [] [] :: u8 list list link_state))"]
    with_packet_ok(1,2) [of "mem (arp_start [] [] :: u8 list list link_state)" 7 "[1, 2, 3, 4]", OF start_unknown(3)] by simp

text \<open>C15: A packet for an address that is not known is kept, and the address is asked for by broadcast unless it already has been; the
  reply, however the sender's hardware address reads, makes the packet go out to it with its bytes unchanged, and the address is
  known from then on. The heap has memory for the buffers (\<open>roomy\<close>).\<close>

theorem arp_resolves:
  assumes "env_ok env dev_ok wire" "dev_ok d" "arp_reach env d s" "roomy env" "arrives as (mem s) m" "outgoing m p as" "linkable m p" "by_value m as"
    and "group_eth env n ip = None" "dst = next_hop env n ip" "unicast env n dst" "unresolved s dst n"
  shows "\<exists>s1. handed (\<lambda>s. etharp_output env n (Some p) ip s) p (s\<lparr>mem := m\<rparr>) = Some (ERR_OK, s1) \<and> arp_reach env d s1
    \<and> wire (dev s1) = sent (\<not> known s dst n) (request_frame env n dst ethbroadcast) (wire (dev s))
    \<and> (\<forall>bs m2 r eth. arrives bs (mem s1) m2 \<and> received m2 r bs \<and> arp_header_ok (arp_bytes m2 r)
          \<and> arp_op (arp_bytes m2 r) = ARP_REPLY \<and> arp_sipaddr (arp_bytes m2 r) = dst \<and> arp_shwaddr (arp_bytes m2 r) = eth \<longrightarrow>
        (\<exists>s2. etharp_input env n (Some r) (s1\<lparr>mem := m2\<rparr>) = Some s2 \<and> resolved s2 dst n eth
          \<and> wire (dev s2) = wire (dev s1) @ [eth_hdr eth (hwaddr (ifs env n)) ETHTYPE_IP @ chain_bytes m as]))"
proof -
  obtain ch where i: "arp_inv {} ch s" "dev_ok (dev s)" using arp_reach_inv [OF assms(1-3)] by blast
  let ?s = "s\<lparr>mem := m\<rparr>"
  have dm: "dev_ok (dev ?s)" "outgoing (mem ?s) p as" using i(2) assms(6) by simp_all
  have un: "unresolved ?s dst n" "known ?s dst n = known s dst n" using assms(12) by (simp_all add: unresolved_def resolved_def known_def)
  have route: "\<not> no_route env n ip" using assms(10,11) by (auto simp: no_route_def next_hop_def unicast_def)
  obtain e s1 ch1 where o: "handed (\<lambda>s. etharp_output env n (Some p) ip s) p ?s = Some (e, s1)" "arp_inv {} ch1 s1" "dev_ok (dev s1)"
      "output_outcome env wire n ip p as ?s e s1 ch1"
    using output_run [OF assms(1) dm(1) arrives_inv [OF i(1) assms(5)] dm(2), of n ip] by blast
  have q: "query_outcome env wire n dst p as ?s e s1 ch1" using o(4) assms(9,10) route un(1) by (simp add: output_outcome_def)
  have e: "e = ERR_OK" "waiting (mem s1) (arp_table s1) ch1 dst n = Some (chain_bytes m as)"
    using q assms(7,8,11) un(1) by (simp_all add: query_outcome_def)
  have w: "wire (dev s1) = sent (\<not> known s dst n) (request_frame env n dst ethbroadcast) (wire (dev s))"
    using q assms(4,11) un by (auto simp: query_outcome_def sent_def)
  have reach: "arp_reach env d s1" using arp_reach.step [OF assms(3) arp_step.send [OF assms(5,6) o(1)]] .
  have "\<exists>s2. etharp_input env n (Some r) (s1\<lparr>mem := m2\<rparr>) = Some s2 \<and> resolved s2 dst n eth
          \<and> wire (dev s2) = wire (dev s1) @ [eth_hdr eth (hwaddr (ifs env n)) ETHTYPE_IP @ chain_bytes m as]"
    if r: "arrives bs (mem s1) m2" "received m2 r bs" "arp_header_ok (arp_bytes m2 r)" "arp_op (arp_bytes m2 r) = ARP_REPLY"
      "arp_sipaddr (arp_bytes m2 r) = dst" "arp_shwaddr (arp_bytes m2 r) = eth" for bs m2 r eth
  proof -
    let ?s1 = "s1\<lparr>mem := m2\<rparr>"
    have w2: "waiting (mem ?s1) (arp_table ?s1) ch1 dst n = Some (chain_bytes m as)" using waiting_arrives [OF o(2) r(1)] e(2) by simp
    then have known: "known ?s1 dst n"
      using arp_inv_length [OF o(2)] by (auto simp: waiting_def known_def find_Some_iff split: option.splits)
    have rel: "released env n (arp_bytes m2 r) ch1 ?s1 = [eth_hdr eth (hwaddr (ifs env n)) ETHTYPE_IP @ chain_bytes m as]"
      using w2 assms(11) r(5,6) by (simp add: released_def)
    obtain s2 where s2: "etharp_input env n (Some r) ?s1 = Some s2" "input_outcome env wire n (arp_bytes m2 r) ?s1 ch1 s2"
      using input_run [OF assms(1) _ arrives_inv [OF o(2) r(1)], of r n] o(3) r(2) by (auto simp: received_def)
    have "learns env n (arp_bytes m2 r) ?s1" using assms(11) r(5) known by (simp add: learns_def)
    then have "resolved s2 dst n eth \<and> wire (dev s2) = wire (dev s1) @ [eth_hdr eth (hwaddr (ifs env n)) ETHTYPE_IP @ chain_bytes m as]"
      using s2(2) r(3-6) rel by (auto simp: input_outcome_def sent_def ARP_REPLY_def ARP_REQUEST_def)
    then show ?thesis using s2(1) by blast
  qed
  then show ?thesis using o(1) w reach unfolding e(1) by blast
qed

theorem arp_resolves_witness:
  "\<exists>s1 m2 r s2. handed (\<lambda>s. etharp_output lan 0 (Some 7) host s) 7
       ((arp_start [] [])\<lparr>mem := with_packet 7 [1, 2, 3, 4] (mem (arp_start [] [] :: u8 list list link_state))\<rparr>) = Some (ERR_OK, s1)
    \<and> dev s1 = [request_frame lan 0 host ethbroadcast] \<and> etharp_input lan 0 (Some r) (s1\<lparr>mem := m2\<rparr>) = Some s2
    \<and> dev s2 = [request_frame lan 0 host ethbroadcast, [2, 0, 0, 0, 0, 9] @ [0, 8, 220, 0, 0, 1] @ [8, 0] @ [1, 2, 3, 4]]"
proof -
  let ?s = "arp_start [] [] :: u8 list list link_state"
  let ?m = "with_packet 7 [1, 2, 3, 4] (mem ?s)"
  have p: "arrives [7] (mem ?s) ?m" "outgoing ?m 7 [7]" "linkable ?m 7" "by_value ?m [7]" "chain_bytes ?m [7] = [1, 2, 3, 4]"
    using with_packet_ok [of "mem ?s" 7 "[1, 2, 3, 4]", OF start_unknown(3)] by simp_all
  obtain s1 where s1: "handed (\<lambda>s. etharp_output lan 0 (Some 7) host s) 7 (?s\<lparr>mem := ?m\<rparr>) = Some (ERR_OK, s1)" "arp_reach lan [] s1"
      "dev s1 = [request_frame lan 0 host ethbroadcast]"
      "\<forall>bs m2 r eth. arrives bs (mem s1) m2 \<and> received m2 r bs \<and> arp_header_ok (arp_bytes m2 r)
          \<and> arp_op (arp_bytes m2 r) = ARP_REPLY \<and> arp_sipaddr (arp_bytes m2 r) = host \<and> arp_shwaddr (arp_bytes m2 r) = eth \<longrightarrow>
        (\<exists>s2. etharp_input lan 0 (Some r) (s1\<lparr>mem := m2\<rparr>) = Some s2 \<and> resolved s2 host 0 eth
          \<and> dev s2 = dev s1 @ [eth_hdr eth (hwaddr (ifs lan 0)) ETHTYPE_IP @ [1, 2, 3, 4]])"
    using arp_resolves [OF lan_ok _ arp_reach.start lan_roomy p(1-4), where n = 0 and ip = host and dst = host] host_is_local(1-3) p(5)
    by (auto simp: sent_def)
  obtain r where r: "store (mem s1) r = None" by (rule reach_fresh [OF s1(2)])
  let ?m2 = "with_packet r (host_arp ARP_REPLY 0x0A0A0A0A) (mem s1)"
  note q = host_arp_ok [OF r, of ARP_REPLY "0x0A0A0A0A"]
  obtain s2 where "etharp_input lan 0 (Some r) (s1\<lparr>mem := ?m2\<rparr>) = Some s2" "dev s2 = dev s1 @ [eth_hdr host_hw (hwaddr (ifs lan 0)) ETHTYPE_IP @ [1, 2, 3, 4]]"
    using s1(4) [rule_format, of "[r]" ?m2 r host_hw] q by auto
  then show ?thesis using s1(1,3) host_is_local(6)
    by (intro exI [of _ s1] exI [of _ ?m2] exI [of _ r] exI [of _ s2]) (simp add: eth_hdr_def be16_def ETHTYPE_IP_def host_hw_def)
qed

text \<open>A packet for a known address.\<close>

lemma known_address_run:
  assumes "env_ok env dev_ok wire" "dev_ok d" "arp_reach env d s" "arrives as (mem s) m" "outgoing m p as" "linkable m p"
    and "group_eth env n ip = None" "\<not> no_route env n ip" "resolved s (next_hop env n ip) n eth"
  shows "\<exists>s1 r. handed (\<lambda>s. etharp_output env n (Some p) ip s) p (s\<lparr>mem := m\<rparr>) = Some (ERR_OK, s1)
    \<and> wire (dev s1) = wire (dev s) @ r @ [eth_hdr eth (hwaddr (ifs env n)) ETHTYPE_IP @ chain_bytes m as]
    \<and> set r \<subseteq> {request_frame env n (next_hop env n ip) eth, request_frame env n (next_hop env n ip) ethbroadcast}"
proof -
  obtain ch where i: "arp_inv {} ch s" "dev_ok (dev s)" using arp_reach_inv [OF assms(1-3)] by blast
  let ?s = "s\<lparr>mem := m\<rparr>" and ?dst = "next_hop env n ip"
  have dm: "dev_ok (dev ?s)" "outgoing (mem ?s) p as" using i(2) assms(5) by simp_all
  obtain e s1 ch1 where o: "handed (\<lambda>s. etharp_output env n (Some p) ip s) p ?s = Some (e, s1)" "output_outcome env wire n ip p as ?s e s1 ch1"
    using output_run [OF assms(1) dm(1) arrives_inv [OF i(1) assms(4)] dm(2), of n ip] by blast
  have same: "resolved ?s ?dst n h \<longleftrightarrow> resolved s ?dst n h" for h by (simp add: resolved_def)
  obtain j where j: "j < ARP_TABLE_SIZE" "is_for ?dst n (entry s j)"
    using assms(9) unfolding resolved_def is_for_def by (metis stable_states(2))
  have one: "h = eth" if "resolved s ?dst n h" for h using resolved_at [OF i(1) j] that assms(9) by simp
  have "\<not> unresolved ?s ?dst n" using assms(9) same by (auto simp: unresolved_def)
  then obtain h r where "resolved s ?dst n h" "sent_to env wire n h p as ?s r e s1"
      "set r \<subseteq> {request_frame env n ?dst h, request_frame env n ?dst ethbroadcast}"
    using o(2) assms(7,8) same by (auto simp: output_outcome_def Let_def)
  moreover from this one have "h = eth" by blast
  ultimately show ?thesis using o(1) assms(6) by (intro exI [of _ s1] exI [of _ r]) (simp add: sent_to_def sent_def)
qed

text \<open>A packet for an address that is known goes out at once to its hardware address, with its bytes unchanged; before it at most
  one request for that address, when its entry is about to expire.\<close>

theorem arp_known_address:
  assumes "env_ok env dev_ok wire" "dev_ok d" "arp_reach env d s" "arrives as (mem s) m" "outgoing m p as" "linkable m p"
    and "group_eth env n ip = None" "\<not> no_route env n ip" "resolved s (next_hop env n ip) n eth"
  shows "\<exists>s1 r. handed (\<lambda>s. etharp_output env n (Some p) ip s) p (s\<lparr>mem := m\<rparr>) = Some (ERR_OK, s1)
    \<and> wire (dev s1) = wire (dev s) @ r @ [eth_hdr eth (hwaddr (ifs env n)) ETHTYPE_IP @ chain_bytes m as]
    \<and> set r \<subseteq> {request_frame env n (next_hop env n ip) eth, request_frame env n (next_hop env n ip) ethbroadcast}"
  by (rule known_address_run [OF assms])

theorem arp_known_address_witness:
  "\<exists>s m a s1 r. arp_reach lan [] s \<and> handed (\<lambda>s. etharp_output lan 0 (Some a) host s) a (s\<lparr>mem := m\<rparr>) = Some (ERR_OK, s1)
    \<and> dev s1 = dev s @ r @ [[2, 0, 0, 0, 0, 9] @ [0, 8, 220, 0, 0, 1] @ [8, 0] @ [1, 2, 3, 4]]"
proof -
  obtain s where s: "arp_reach lan [] s" "resolved s host 0 host_hw" using lan_known by blast
  obtain a where a: "store (mem s) a = None" by (rule reach_fresh [OF s(1)])
  let ?m = "with_packet a [1, 2, 3, 4] (mem s)"
  have p: "arrives [a] (mem s) ?m" "outgoing ?m a [a]" "linkable ?m a" "chain_bytes ?m [a] = [1, 2, 3, 4]"
    using with_packet_ok [of "mem s" a "[1, 2, 3, 4]", OF a] by simp_all
  have "resolved s (next_hop lan 0 host) 0 host_hw" using s(2) host_is_local(2) by simp
  then obtain s1 r where "handed (\<lambda>s. etharp_output lan 0 (Some a) host s) a (s\<lparr>mem := ?m\<rparr>) = Some (ERR_OK, s1)"
      "dev s1 = dev s @ r @ [eth_hdr host_hw (hwaddr (ifs lan 0)) ETHTYPE_IP @ [1, 2, 3, 4]]"
    using arp_known_address [OF lan_ok _ s(1) p(1-3) host_is_local(1,4), of host_hw] p(4) by auto
  then show ?thesis using s(1) host_is_local(6)
    by (intro exI [of _ s] exI [of _ ?m] exI [of _ a] exI [of _ s1] exI [of _ r]) (simp add: eth_hdr_def be16_def ETHTYPE_IP_def host_hw_def)
qed

text \<open>C17: A request for our address is answered to its sender with our hardware address, and the sender's address is known from then
  on, without a request of our own. The heap has memory for the reply (\<open>roomy\<close>).\<close>

theorem arp_request_answered:
  assumes "env_ok env dev_ok wire" "dev_ok d" "arp_reach env d s" "roomy env" "arrives as (mem s) m" "received m p as"
    and "h = arp_bytes m p" "arp_header_ok h" "arp_op h = ARP_REQUEST" "arp_dipaddr h = ip_addr (ifs env n)" "ip_addr (ifs env n) \<noteq> 0"
    and "unicast env n (arp_sipaddr h)" "\<not> known s (arp_sipaddr h) n"
  shows "\<exists>s1. etharp_input env n (Some p) (s\<lparr>mem := m\<rparr>) = Some s1 \<and> wire (dev s1) = wire (dev s) @ [reply_frame env n h]
    \<and> resolved s1 (arp_sipaddr h) n (arp_shwaddr h)"
proof -
  obtain ch where i: "arp_inv {} ch s" "dev_ok (dev s)" using arp_reach_inv [OF assms(1-3)] by blast
  let ?s = "s\<lparr>mem := m\<rparr>"
  have us: "for_us env n h" using assms(10,11) by (simp add: for_us_def)
  have "waiting m (arp_table s) ch (arp_sipaddr h) n = None" using waiting_none assms(13) arp_inv_length [OF i(1)] by (auto simp: known_def)
  then have rel: "released env n h ch ?s = []" by (simp add: released_def)
  obtain s1 where s1: "etharp_input env n (Some p) ?s = Some s1" "input_outcome env wire n h ?s ch s1"
    using input_run [OF assms(1) _ arrives_inv [OF i(1) assms(5)], of p n] i(2) assms(6,7) by (auto simp: received_def)
  have "learns env n h ?s" using us assms(12) by (simp add: learns_def)
  then have "wire (dev s1) = wire (dev s) @ [reply_frame env n h] \<and> resolved s1 (arp_sipaddr h) n (arp_shwaddr h)"
    using s1(2) assms(4,8,9) us rel by (auto simp: input_outcome_def sent_def)
  then show ?thesis using s1(1) by blast
qed

theorem arp_request_answered_witness:
  "\<exists>s1. etharp_input lan 0 (Some 7) ((arp_start [] [])\<lparr>mem := with_packet 7 (host_arp ARP_REQUEST 0x0A0A0A0A) (mem (arp_start [] [] :: u8 list list link_state))\<rparr>)
      = Some s1
    \<and> dev s1 = [[2, 0, 0, 0, 0, 9] @ [0, 8, 220, 0, 0, 1] @ [8, 6] @ [0, 1, 8, 0, 6, 4, 0, 2] @ [0, 8, 220, 0, 0, 1] @ [10, 10, 10, 10]
        @ [2, 0, 0, 0, 0, 9] @ [10, 10, 10, 2]]"
proof -
  let ?s = "arp_start [] [] :: u8 list list link_state"
  note q = host_arp_ok [of "mem ?s" 7 ARP_REQUEST "0x0A0A0A0A", OF start_unknown(3)]
  have "reply_frame lan 0 (host_arp ARP_REQUEST 0x0A0A0A0A) = [2, 0, 0, 0, 0, 9] @ [0, 8, 220, 0, 0, 1] @ [8, 6] @ [0, 1, 8, 0, 6, 4, 0, 2]
      @ [0, 8, 220, 0, 0, 1] @ [10, 10, 10, 10] @ [2, 0, 0, 0, 0, 9] @ [10, 10, 10, 2]"
    by (simp add: reply_frame_def Let_def host_is_local(5,6) eth_hdr_def etharp_hdr_def be16_def le32_def host_hw_def host_def ETHTYPE_ARP_def ETHTYPE_IP_def
        ARP_REPLY_def)
  then show ?thesis
    using arp_request_answered [OF lan_ok _ arp_reach.start lan_roomy q(1,2) q(3) [symmetric], where n = 0] host_is_local(3,5) by auto
qed

text \<open>An ARP packet that is not for us, from an address we have no entry for, changes nothing in the table and nothing is sent: a
  host that only overhears requests is not taken into the table.\<close>

theorem arp_stranger_ignored:
  assumes "env_ok env dev_ok wire" "dev_ok d" "arp_reach env d s" "arrives as (mem s) m" "received m p as"
    and "h = arp_bytes m p" "arp_dipaddr h \<noteq> ip_addr (ifs env n) \<or> \<not> arp_header_ok h" "\<not> known s (arp_sipaddr h) n"
  shows "\<exists>s1. etharp_input env n (Some p) (s\<lparr>mem := m\<rparr>) = Some s1 \<and> arp_table s1 = arp_table s \<and> wire (dev s1) = wire (dev s)"
proof -
  obtain ch where i: "arp_inv {} ch s" "dev_ok (dev s)" using arp_reach_inv [OF assms(1-3)] by blast
  let ?s = "s\<lparr>mem := m\<rparr>"
  have "waiting m (arp_table s) ch (arp_sipaddr h) n = None" using waiting_none assms(8) arp_inv_length [OF i(1)] by (auto simp: known_def)
  then have rel: "released env n h ch ?s = []" by (simp add: released_def)
  obtain s1 where s1: "etharp_input env n (Some p) ?s = Some s1" "input_outcome env wire n h ?s ch s1"
    using input_run [OF assms(1) _ arrives_inv [OF i(1) assms(4)], of p n] i(2) assms(5,6) by (auto simp: received_def)
  have "arp_header_ok h \<longrightarrow> \<not> for_us env n h" using assms(7) by (auto simp: for_us_def)
  moreover have "\<not> known ?s (arp_sipaddr h) n" using assms(8) by (simp add: known_def)
  ultimately have "arp_table s1 = arp_table s \<and> wire (dev s1) = wire (dev s)"
    using s1(2) rel by (auto simp: input_outcome_def learns_def sent_def split: if_splits)
  then show ?thesis using s1(1) by blast
qed

theorem arp_stranger_ignored_witness:
  "\<exists>s1. etharp_input lan 0 (Some 7) ((arp_start [] [])\<lparr>mem := with_packet 7 (host_arp ARP_REQUEST 0x030A0A0A) (mem (arp_start [] [] :: u8 list list link_state))\<rparr>)
      = Some s1
    \<and> dev s1 = [] \<and> arp_table s1 = replicate 10 no_entry"
proof -
  let ?s = "arp_start [] [] :: u8 list list link_state"
  note q = host_arp_ok [of "mem ?s" 7 ARP_REQUEST "0x030A0A0A", OF start_unknown(3)]
  have "arp_table ?s = replicate 10 no_entry" by (simp add: arp_start_def ARP_TABLE_SIZE_def)
  then show ?thesis
    using arp_stranger_ignored [OF lan_ok _ arp_reach.start q(1,2) q(3) [symmetric], where n = 0] host_is_local(5) by auto
qed

text \<open>C18: Nothing is kept for ever. Age is counted in runs of the ARP timer (the firmware runs the timers of lwIP only when a
  frame has been received, so a run is not a second). From any state of the protocol, while nothing is sent, at any point the next run of the
  timer is defined; after five runs, with any ARP packets received before, between and after them, no packet waits for an address that
  does not answer and the heap is empty; and after 300 runs with no packet in between every entry of the table is free.\<close>

theorem arp_entries_expire:
  assumes "env_ok env dev_ok wire" "dev_ok d" "arp_reach env d s"
  shows "(\<forall>k s1. timed env k s s1 \<longrightarrow> (\<exists>s2. etharp_tmr env s1 = Some s2) \<and> (5 \<le> k \<longrightarrow> (\<forall>a. store (mem s1) a = None)))
    \<and> (\<exists>s2. tmr_runs env 300 s = Some s2 \<and> (\<forall>i < ARP_TABLE_SIZE. astate (entry s2 i) = ETHARP_STATE_EMPTY))"
proof -
  have "(\<exists>s2. etharp_tmr env s1 = Some s2) \<and> (5 \<le> k \<longrightarrow> (\<forall>a. store (mem s1) a = None))" if t: "timed env k s s1" for k s1
  proof -
    obtain ch where i: "arp_inv {} ch s1" "dev_ok (dev s1)" using arp_reach_inv [OF assms(1,2) timed_reach [OF t assms(3)]] by blast
    have "store (mem s1) a = None" if "5 \<le> k" for a
      using nothing_waits [OF i(1)] pending_older_none [OF i(1) timed_pending [OF assms(1,2) t assms(3)] that] by fastforce
    then show ?thesis using tmr_run [OF assms(1) i(2,1)] by blast
  qed
  moreover obtain ch where i: "arp_inv {} ch s" "dev_ok (dev s)" using arp_reach_inv [OF assms] by blast
  moreover have "older 0 s" by (simp add: older_def)
  then obtain s2 ch2 where "tmr_runs env 300 s = Some s2" "arp_inv {} ch2 s2" "older 300 s2"
    using tmr_runs_run [OF assms(1) i(2,1), of 0 300] by auto
  ultimately show ?thesis using older_empty by blast
qed

text \<open>A packet waits for the host; the timer runs five times, with an ARP packet for somebody else between the fourth and the fifth run.\<close>

theorem arp_entries_expire_witness:
  "\<exists>s s4 a s5 s6. arp_reach lan [] s \<and> dev s = [request_frame lan 0 host ethbroadcast] \<and> tmr_runs lan 4 s = Some s4
     \<and> etharp_input lan 0 (Some a) (s4\<lparr>mem := with_packet a (host_arp ARP_REQUEST 0x030A0A0A) (mem s4)\<rparr>) = Some s5
     \<and> etharp_tmr lan s5 = Some s6 \<and> (\<forall>b. store (mem s6) b = None)"
proof -
  obtain s where s: "arp_reach lan [] s" "dev s = [request_frame lan 0 host ethbroadcast]" using lan_waiting by blast
  note r = arp_entries_expire [OF lan_ok _ s(1), simplified]
  have next_run: "\<exists>s2. etharp_tmr lan s1 = Some s2 \<and> timed lan (Suc k) s s2" if "timed lan k s s1" for k s1 using r that timed.tick by blast
  obtain s1 where s1: "etharp_tmr lan s = Some s1" "timed lan (Suc 0) s s1" using next_run [OF timed.now] by blast
  obtain s2 where s2: "etharp_tmr lan s1 = Some s2" "timed lan (Suc (Suc 0)) s s2" using next_run [OF s1(2)] by blast
  obtain s3 where s3: "etharp_tmr lan s2 = Some s3" "timed lan (Suc (Suc (Suc 0))) s s3" using next_run [OF s2(2)] by blast
  obtain s4 where s4: "etharp_tmr lan s3 = Some s4" "timed lan (Suc (Suc (Suc (Suc 0)))) s s4" using next_run [OF s3(2)] by blast
  obtain a where a: "store (mem s4) a = None" by (rule reach_fresh [OF timed_reach [OF s4(2) s(1)]])
  note q = host_arp_ok [of "mem s4" a ARP_REQUEST "0x030A0A0A", OF a]
  obtain s5 where s5: "etharp_input lan 0 (Some a) (s4\<lparr>mem := with_packet a (host_arp ARP_REQUEST 0x030A0A0A) (mem s4)\<rparr>) = Some s5"
    using arp_input_defined [OF lan_ok _ timed_reach [OF s4(2) s(1)] q(1,2)] by auto
  obtain s6 where s6: "etharp_tmr lan s5 = Some s6" "timed lan (Suc (Suc (Suc (Suc (Suc 0))))) s s6"
    using next_run [OF timed.heard [OF s4(2) q(1,2) s5]] by blast
  have "tmr_runs lan 4 s = Some s4" by (simp add: eval_nat_numeral s1(1) s2(1) s3(1) s4(1))
  moreover have "\<forall>b. store (mem s6) b = None" using r s6(2) by (simp add: eval_nat_numeral)
  ultimately show ?thesis using s s5 s6(1) by blast
qed

text \<open>A packet that is too short to be an ARP packet is read beyond its end: what an earlier packet left in the memory of the buffer is
  taken for addresses and goes into the table.\<close>

theorem arp_short_packet_learned:
  assumes "env_ok env dev_ok wire" "dev_ok d" "arp_reach env d s" "arrives as (mem s) m" "received m p as" "length (chain_bytes m as) < 28"
    and "h = arp_bytes m p" "arp_header_ok h" "for_us env n h" "unicast env n (arp_sipaddr h)"
  shows "\<exists>s1. etharp_input env n (Some p) (s\<lparr>mem := m\<rparr>) = Some s1 \<and> resolved s1 (arp_sipaddr h) n (arp_shwaddr h)"
proof -
  obtain ch where i: "arp_inv {} ch s" "dev_ok (dev s)" using arp_reach_inv [OF assms(1-3)] by blast
  let ?s = "s\<lparr>mem := m\<rparr>"
  obtain s1 where s1: "etharp_input env n (Some p) ?s = Some s1" "input_outcome env wire n h ?s ch s1"
    using input_run [OF assms(1) _ arrives_inv [OF i(1) assms(4)], of p n] i(2) assms(5,7) by (auto simp: received_def)
  have "learns env n h ?s" using assms(9,10) by (simp add: learns_def)
  then show ?thesis using s1 assms(8) by (auto simp: input_outcome_def)
qed

end
