(* ===== verification/Ip4Link.thy ===== *)
theory Ip4Link
  imports Ip4Run AddressResolution Udp
begin

text \<open>
  Frames and IPv4 packets across a link: what any frame does to the receiver, and that a packet sent to a known address arrives with its
  payload unchanged, with \<open>ethernet_input\<close>, \<open>ip4_input\<close>, \<open>ip4_output_if\<close> and \<open>etharp_output\<close> composed.
\<close>

subsection \<open>Frames received\<close>

definition frame_type :: "pbuf \<Rightarrow> u16" where "frame_type x = un_be16 (memory_at x ! 12) (memory_at x ! 13)"

definition without_eth :: "pbuf \<Rightarrow> pbuf" where "without_eth x = x\<lparr>beg := beg x + 14, plen := plen x - 14, ptot := ptot x - 14\<rparr>"

lemma without_eth:
  assumes "one_pooled m a x" "14 \<le> unat (plen x)"
  shows "pbuf_remove_header (Some a) 14 m = Some (0, set_pbuf a (without_eth x) m)" "one_pooled (set_pbuf a (without_eth x) m) a (without_eth x)"
    "buf_bytes (without_eth x) = drop 14 (buf_bytes x)" "pref (without_eth x) = pref x" "memory_at (without_eth x) = drop 14 (memory_at x)"
  using remove_one [OF assms] by (simp_all add: without_eth_def memory_at_def add.commute)

lemma eth_drop_one:
  assumes "one_pooled (mem s) a x" "pref x = 1"
  shows "\<exists>m'. eth_drop (Some a) s = Some (None, s\<lparr>mem := m'\<rparr>) \<and> store m' = (store (mem s))(a := None)"
proof -
  obtain c m' where "pbuf_free (Some a) (mem s) = Some (c, m')" "store m' a = None" "\<forall>b. b \<noteq> a \<longrightarrow> store m' b = store (mem s) b"
    using drop_one [OF assms] by (auto simp: drop_packet_def bind_eq_Some_conv split: prod.splits)
  then show ?thesis by (auto simp: eth_drop_def free_pbuf_def fun_eq_iff)
qed

lemma ethernet_cases:
  assumes "one_pooled (mem s) a x" "pref x = 1" "78 \<le> length (memory_at x)"
  defines "m \<equiv> set_pbuf a (without_eth x) (mem s)"
  shows "14 < unat (plen x) \<Longrightarrow> flag_etharp (ifs env n) \<Longrightarrow> frame_type x = ETHTYPE_IP \<Longrightarrow>
      ethernet_input chk env rt n (Some a) s = map_option (\<lambda>(v, m'). (Some v, s\<lparr>mem := m'\<rparr>)) (ip4_input chk env rt n (Some a) m)"
    and "14 < unat (plen x) \<Longrightarrow> flag_etharp (ifs env n) \<Longrightarrow> frame_type x = ETHTYPE_ARP \<Longrightarrow>
      ethernet_input chk env rt n (Some a) s = map_option (\<lambda>s'. (None, s')) (etharp_input env n (Some a) (s\<lparr>mem := m\<rparr>))"
    and "\<not> (14 < unat (plen x) \<and> flag_etharp (ifs env n) \<and> frame_type x \<in> {ETHTYPE_IP, ETHTYPE_ARP}) \<Longrightarrow>
      ethernet_input chk env rt n (Some a) s = eth_drop (Some a) s"
proof -
  have x: "beg x \<le> length (blk x)" "pbuf_at (Some a) (mem s) = Some (a, x)" using assms(1) by (simp_all add: one_pooled_def pbuf_at_def)
  have h: "payload_read x 0 14 = Some (take 14 (memory_at x))" using read_memory [of 0 14 x] x(1) assms(3) by simp
  have t: "un_be16 (take 14 (memory_at x) ! 12) (take 14 (memory_at x) ! 13) = frame_type x" by (simp add: frame_type_def)
  have r: "pbuf_remove_header (Some a) 14 (mem s) = Some (0, m)" if "14 < unat (plen x)"
    using without_eth(1) [OF assms(1)] that by (simp add: m_def)
  show "14 < unat (plen x) \<Longrightarrow> flag_etharp (ifs env n) \<Longrightarrow> frame_type x = ETHTYPE_IP \<Longrightarrow>
      ethernet_input chk env rt n (Some a) s = map_option (\<lambda>(v, m'). (Some v, s\<lparr>mem := m'\<rparr>)) (ip4_input chk env rt n (Some a) m)"
    using x h t r by (cases "ip4_input chk env rt n (Some a) m") (auto simp: ethernet_input_def SIZEOF_ETH_HDR_def Let_def)
  show "14 < unat (plen x) \<Longrightarrow> flag_etharp (ifs env n) \<Longrightarrow> frame_type x = ETHTYPE_ARP \<Longrightarrow>
      ethernet_input chk env rt n (Some a) s = map_option (\<lambda>s'. (None, s')) (etharp_input env n (Some a) (s\<lparr>mem := m\<rparr>))"
    using x h t r by (simp add: ethernet_input_def SIZEOF_ETH_HDR_def Let_def ETHTYPE_IP_def ETHTYPE_ARP_def)
  show "\<not> (14 < unat (plen x) \<and> flag_etharp (ifs env n) \<and> frame_type x \<in> {ETHTYPE_IP, ETHTYPE_ARP}) \<Longrightarrow>
      ethernet_input chk env rt n (Some a) s = eth_drop (Some a) s"
    using x h t by (auto simp: ethernet_input_def SIZEOF_ETH_HDR_def Let_def)
qed

lemma ethernet_ip_run:
  assumes "one_pooled (mem s) a x" "pref x = 1" "78 \<le> length (memory_at x)" "14 < unat (plen x)" "flag_etharp (ifs env n)" "frame_type x = ETHTYPE_IP"
  shows "\<exists>v m'. ethernet_input thumb2_checksum env rt n (Some a) s = Some (Some v, s\<lparr>mem := m'\<rparr>)
    \<and> ip_outcome env rt n a (without_eth x) (mem s) v m'"
proof -
  have l: "14 \<le> unat (plen x)" using assms(4) by simp
  note w = without_eth [OF assms(1) l]
  have px: "pref (without_eth x) = 1" and mx: "64 \<le> length (memory_at (without_eth x))" using w(4,5) assms(2,3) by simp_all
  obtain v m' where "ip4_input thumb2_checksum env rt n (Some a) (set_pbuf a (without_eth x) (mem s)) = Some (v, m')"
      "ip_outcome env rt n a (without_eth x) (set_pbuf a (without_eth x) (mem s)) v m'"
    using ip4_input_run [OF w(2) px mx, of env rt n] by blast
  then show ?thesis using ethernet_cases(1) [OF assms(1-3) assms(4-6), of thumb2_checksum rt]
    by (auto simp: ip_outcome_def set_pbuf_def)
qed

lemma header_unique:
  "ip_header_ok bs hlen len proto src dest \<Longrightarrow> ip_header_ok bs hlen' len' proto' src' dest' \<Longrightarrow>
    hlen = hlen' \<and> len = len' \<and> proto = proto' \<and> src = src' \<and> dest = dest'"
  unfolding ip_header_ok_def by blast

lemma delivered:
  assumes "ip_outcome env rt n a x m v m'" "ip_header_ok (buf_bytes x) hlen len proto src dest" "ip4_netif_for env rt n dest = Some k"
    and "\<not> isbroadcast src (ifs env n)" "\<not> ip4_addr_ismulticast src" "proto \<in> {IP_PROTO_UDP, IP_PROTO_TCP, IP_PROTO_ICMP}"
    and "un_be16 (buf_bytes x ! 6) (buf_bytes x ! 7) AND IP_FRAGMENT = 0"
  shows "v = Ip_deliver proto a hlen k src dest \<and> (\<exists>y. one_pooled m' a y \<and> blk y = blk x \<and> beg y = beg x + hlen \<and> pref y = pref x
    \<and> buf_bytes y = drop hlen (take len (buf_bytes x)))"
proof (cases v)
  case Ip_dropped
  then have "\<not> acceptable env rt n (buf_bytes x)" using assms(1) by (simp add: ip_outcome_def)
  moreover have "ip4_netif_for env rt n dest \<noteq> None" using assms(3) by simp
  then have "acceptable env rt n (buf_bytes x)" using assms(2,4-6) unfolding acceptable_def by blast
  ultimately show ?thesis by blast
next
  case (Ip_reassemble b proto')
  then show ?thesis using assms(1,7) by (simp add: ip_outcome_def)
next
  case (Ip_deliver proto' b hlen' k' src' dest')
  then obtain len' y where o: "b = a" "ip_header_ok (buf_bytes x) hlen' len' proto' src' dest'" "ip4_netif_for env rt n dest' \<in> {None, Some k'}"
      "one_pooled m' a y" "blk y = blk x" "beg y = beg x + hlen'" "pref y = pref x" "buf_bytes y = drop hlen' (take len' (buf_bytes x))"
    using assms(1) by (auto simp: ip_outcome_def)
  then show ?thesis using Ip_deliver header_unique [OF assms(2) o(2)] assms(3) by auto
next
  case (Ip_proto_unreachable b)
  then obtain hlen' len' proto' src' dest' where "ip_header_ok (buf_bytes x) hlen' len' proto' src' dest'" "proto' \<notin> {IP_PROTO_UDP, IP_PROTO_TCP, IP_PROTO_ICMP}"
    using assms(1) by (auto simp: ip_outcome_def)
  then show ?thesis using header_unique [OF assms(2)] assms(6) by blast
qed

lemma our_header:
  assumes "bs = ip_hdr service (of_nat (20 + length body)) ident lifetime proto
      (ip_hdr_chksum service (of_nat (20 + length body)) ident lifetime proto src dest) src dest @ body @ pad" "20 + length body < 65536"
  shows "ip_header_ok bs 20 (20 + length body) proto src dest" "un_be16 (bs ! 6) (bs ! 7) = 0"
proof -
  let ?n = "of_nat (20 + length body) :: u16"
  let ?h = "ip_hdr service ?n ident lifetime proto (ip_hdr_chksum service ?n ident lifetime proto src dest) src dest"
  have n: "unat ?n = 20 + length body" using assms(2) by (intro unat_of_nat_small) simp
  have len: "length ?h = 20" by (simp add: IP_HLEN_def)
  then have nth: "\<forall>i < 20. bs ! i = ?h ! i" and pre: "take 20 bs = ?h" using assms(1) by (simp_all add: nth_append)
  have "inet_chksum thumb2_checksum 0 ?h = 0" by (rule header_sum_zero)
  moreover have "length ?h < 65536" unfolding len by simp
  ultimately have "standard_chksum1 ?h = 0xFFFF" using sum_is_ones by blast
  then show "ip_header_ok bs 20 (20 + length body) proto src dest"
    using n nth pre ip_hdr_fields [OF refl, of service ?n ident lifetime proto "ip_hdr_chksum service ?n ident lifetime proto src dest" src dest] assms(1) len
    by (simp add: ip_header_ok_def IP_HLEN_def)
  show "un_be16 (bs ! 6) (bs ! 7) = 0"
    using nth ip_hdr_fields [OF refl, of service ?n ident lifetime proto "ip_hdr_chksum service ?n ident lifetime proto src dest" src dest] by simp
qed

text \<open>C9: Whatever the bytes of a frame are, it is handled without undefined behaviour, and its type decides how. A frame without
  payload, of another type than IPv4 or ARP or for an interface without ARP is dropped: its buffer is released, nothing else changes. An
  ARP frame is handed, without its Ethernet header, to \<open>etharp_input\<close>, and the result is again a state of the protocol. An IPv4
  frame leaves the table and the wire alone and is handled as IPv4 promises for the bytes after the Ethernet header: it is delivered only with
  a right header that fits in the packet, to an interface it is meant for and with its payload as the header gives it, and it is not
  dropped when it is acceptable.\<close>

theorem frame_handled:
  assumes "env_ok env dev_ok wire" "dev_ok d" "arp_reach env d s" "arrives [a] (mem s) m" "one_pooled m a x" "pref x = 1" "78 \<le> length (memory_at x)"
  shows "\<exists>v s'. ethernet_input thumb2_checksum env rt n (Some a) (s\<lparr>mem := m\<rparr>) = Some (v, s') \<and>
    (if \<not> (14 < unat (plen x) \<and> flag_etharp (ifs env n) \<and> frame_type x \<in> {ETHTYPE_IP, ETHTYPE_ARP})
     then v = None \<and> dev s' = dev s \<and> arp_table s' = arp_table s \<and> store (mem s') = store (mem s)
     else if frame_type x = ETHTYPE_ARP
     then v = None \<and> arp_reach env d s' \<and> etharp_input env n (Some a) (s\<lparr>mem := set_pbuf a (without_eth x) m\<rparr>) = Some s'
     else dev s' = dev s \<and> arp_table s' = arp_table s \<and> buf_bytes (without_eth x) = drop 14 (buf_bytes x)
       \<and> (\<exists>w. v = Some w \<and> ip_outcome env rt n a (without_eth x) m w (mem s')))"
proof -
  let ?s = "s\<lparr>mem := m\<rparr>" and ?m = "set_pbuf a (without_eth x) m"
  have x: "one_pooled (mem ?s) a x" using assms(5) by simp
  have gone: "(store m)(a := None) = store (mem s)" using assms(4) by (auto simp: arrives_def fun_eq_iff)
  consider "14 < unat (plen x)" "flag_etharp (ifs env n)" "frame_type x = ETHTYPE_IP"
    | "14 < unat (plen x)" "flag_etharp (ifs env n)" "frame_type x = ETHTYPE_ARP"
    | "\<not> (14 < unat (plen x) \<and> flag_etharp (ifs env n) \<and> frame_type x \<in> {ETHTYPE_IP, ETHTYPE_ARP})" by blast
  then show ?thesis
  proof cases
    case 1
    have "buf_bytes (without_eth x) = drop 14 (buf_bytes x)" using without_eth(3) [OF x] 1(1) by simp
    moreover have "ETHTYPE_IP \<noteq> ETHTYPE_ARP" by (simp add: ETHTYPE_IP_def ETHTYPE_ARP_def)
    ultimately show ?thesis using ethernet_ip_run [OF x assms(6,7) 1, of rt] 1 by fastforce
  next
    case 2
    have l: "14 \<le> unat (plen x)" using 2(1) by simp
    note w = without_eth [OF assms(5) l]
    have "packet ?m (Some a) [a]" "sole ?m [a]" using one_pooled_bytes [OF w(2)] w(4) assms(6) by (simp_all add: sole_def)
    moreover have "readable ?m a" using assms(7) by (simp add: readable_def without_eth_def memory_at_def)
    ultimately have r: "received ?m a [a]" "arrives [a] (mem s) ?m" using assms(4) by (auto simp: received_def arrives_def)
    then obtain s' where s': "etharp_input env n (Some a) (s\<lparr>mem := ?m\<rparr>) = Some s'"
      using arp_input_defined [OF assms(1-3)] by blast
    have "arp_reach env d s'" by (rule arp_reach.step [OF assms(3) arp_step.receive [OF r(2,1) s']])
    then show ?thesis using s' ethernet_cases(2) [OF x assms(6,7) 2, of thumb2_checksum rt] 2 by simp
  next
    case 3
    obtain m' where "eth_drop (Some a) ?s = Some (None, ?s\<lparr>mem := m'\<rparr>)" "store m' = (store (mem ?s))(a := None)"
      using eth_drop_one [OF x assms(6)] by blast
    then show ?thesis using ethernet_cases(3) [OF x assms(6,7) 3, of thumb2_checksum rt] gone 3 by simp
  qed
qed

subsection \<open>Packets sent\<close>

text \<open>A packet of the upper layers, with room for the headers.\<close>

definition ready_to_send :: "pmem \<Rightarrow> nat \<Rightarrow> nat list \<Rightarrow> bool" where
  "ready_to_send m p as \<longleftrightarrow> packet m (Some p) as \<and> sole m as \<and> filled m as \<and> contiguous (ptype (the (store m p)))
     \<and> PBUF_IP \<le> beg (the (store m p)) \<and> IP_HLEN + length (chain_bytes m as) \<le> 1500"

lemma packet_head: "packet m (Some p) as \<Longrightarrow> \<exists>y. store m p = Some y \<and> unat (ptot y) = length (chain_bytes m as)"
  by (cases as) (auto simp: packet_def)

lemma header_added:
  assumes "ready_to_send m p as" "arrives as m0 m"
  shows "\<exists>m1 x1. pbuf_add_header (Some p) IP_HLEN m = Some (0, m1) \<and> store m1 p = Some x1 \<and> ptot x1 = of_nat (20 + length (chain_bytes m as))
    \<and> (\<forall>h. length h = 20 \<longrightarrow> (\<exists>m2. payload_write p 0 h m1 = Some m2 \<and> outgoing m2 p as \<and> linkable m2 p \<and> arrives as m0 m2
          \<and> chain_bytes m2 as = h @ chain_bytes m as))"
proof -
  obtain bs where as: "as = p # bs" using assms(1) by (cases as) (auto simp: ready_to_send_def packet_def)
  obtain x where x: "store m p = Some x" using assms(1) as by (auto simp: ready_to_send_def packet_def)
  have r: "packet m (Some p) (p # bs)" "contiguous (ptype x)" "20 \<le> beg x" "34 \<le> beg x" "20 + length (chain_bytes m (p # bs)) < 65536"
      "20 + length (chain_bytes m (p # bs)) \<le> 1500" "sole m (p # bs)" "filled m (p # bs)"
    using assms(1) as x by (simp_all add: ready_to_send_def PBUF_IP_def IP_HLEN_def)
  have pre: "\<exists>m1 y m'. pbuf_add_header (Some p) 20 m = Some (0, m1) \<and> store m1 p \<noteq> None \<and> payload_write p 0 h m1 = Some m' \<and> m' = set_pbuf p y m
      \<and> nxt y = nxt x \<and> ptype y = ptype x \<and> pref y = pref x \<and> length (blk y) = length (blk x) \<and> beg y = beg x - 20
      \<and> packet m' (Some p) (p # bs) \<and> chain_bytes m' (p # bs) = h @ chain_bytes m (p # bs)" if "length h = 20" for h
    using prepend_header [OF r(1) x r(2), of h] r(3,5) that by fastforce
  obtain m1 where m1: "pbuf_add_header (Some p) 20 m = Some (0, m1)" using pre [of "replicate 20 0"] by auto
  have "packet m1 (Some p) (p # bs) \<and> length (chain_bytes m1 (p # bs)) = 20 + length (chain_bytes m (p # bs))"
    using add_remove_header [OF r(1) x r(2) r(3) _ r(5)] m1 x r(1,3) by (auto simp: packet_def)
  then obtain x1 where x1: "store m1 p = Some x1" "unat (ptot x1) = 20 + length (chain_bytes m (p # bs))" by (auto simp: packet_def)
  then have tot: "ptot x1 = of_nat (20 + length (chain_bytes m (p # bs)))" by (metis of_nat_unat ucast_id)
  have "\<exists>m2. payload_write p 0 h m1 = Some m2 \<and> outgoing m2 p as \<and> linkable m2 p \<and> arrives as m0 m2 \<and> chain_bytes m2 as = h @ chain_bytes m as"
    if h: "length h = 20" for h
  proof -
    obtain y m2 where y: "payload_write p 0 h m1 = Some m2" "m2 = set_pbuf p y m" "ptype y = ptype x" "pref y = pref x" "beg y = beg x - 20"
        "packet m2 (Some p) (p # bs)" "chain_bytes m2 (p # bs) = h @ chain_bytes m (p # bs)"
      using pre [OF h] m1 by auto
    have p: "p \<notin> set bs" using r(1) by (simp add: packet_def)
    have "buf_bytes y \<noteq> []"
    proof -
      have "chain_bytes m2 bs = chain_bytes m bs" unfolding y(2) by (rule chain_bytes_cong) (use p in auto)
      then have "buf_bytes y = h @ buf_bytes x" using y(2,7) x by simp
      then show ?thesis using h by auto
    qed
    then have "outgoing m2 p (p # bs)" using y r(6-8) h x p by (auto simp: outgoing_def sole_def filled_def)
    moreover have "linkable m2 p" using y(2,3,5) r(2,4) by (simp add: linkable_def SIZEOF_ETH_HDR_def)
    moreover have "if b \<in> set as then store m0 b = None \<and> store m2 b \<noteq> None else store m2 b = store m0 b" for b
      using assms(2) [unfolded arrives_def, rule_format, of b] y(2) as by auto
    then have "arrives as m0 m2" unfolding arrives_def by blast
    ultimately show ?thesis using y(1,7) as by blast
  qed
  then show ?thesis using m1 x1(1) tot as by (auto simp: IP_HLEN_def)
qed

text \<open>The packet that goes on the wire, and what an IPv4 datagram of the interface becomes.\<close>

definition ip_datagram :: "u8 \<Rightarrow> u16 \<Rightarrow> u8 \<Rightarrow> u8 \<Rightarrow> u32 \<Rightarrow> u32 \<Rightarrow> u8 list \<Rightarrow> u8 list" where
  "ip_datagram service ident lifetime proto src dest body =
     (let n = of_nat (20 + length body) in ip_hdr service n ident lifetime proto (ip_hdr_chksum service n ident lifetime proto src dest) src dest @ body)"

lemma output_run_known:
  assumes "env_ok env dev_ok wire" "dev_ok d" "arp_reach env d (link st)" "arrives as (mem (link st)) m" "ready_to_send m p as"
    and "mtu (ifs env n) = 0 \<or> 20 + length (chain_bytes m as) \<le> unat (mtu (ifs env n))"
    and "group_eth env n dip = None" "\<not> no_route env n dip" "resolved (link st) (next_hop env n dip) n eth"
  shows "\<exists>st1 r. ip4_output_if_src env (Some p) sip (Some dip) lifetime service proto n (st\<lparr>link := (link st)\<lparr>mem := m\<rparr>\<rparr>) = Some (Ip_err ERR_OK, st1)
    \<and> wire (dev (link st1)) = wire (dev (link st)) @ r
        @ [eth_hdr eth (hwaddr (ifs env n)) ETHTYPE_IP @ ip_datagram service (ip_id st) lifetime proto sip dip (chain_bytes m as)]
    \<and> set r \<subseteq> {request_frame env n (next_hop env n dip) eth, request_frame env n (next_hop env n dip) ethbroadcast}
    \<and> ip_id st1 = ip_id st + 1"
proof -
  let ?n = "of_nat (20 + length (chain_bytes m as)) :: u16" 
  let ?h = "ip_hdr service ?n (ip_id st) lifetime proto (ip_hdr_chksum service ?n (ip_id st) lifetime proto sip dip) sip dip"
  obtain m1 x1 where m1: "pbuf_add_header (Some p) IP_HLEN m = Some (0, m1)" "store m1 p = Some x1" "ptot x1 = ?n"
      "\<And>h. length h = 20 \<Longrightarrow> \<exists>m2. payload_write p 0 h m1 = Some m2 \<and> outgoing m2 p as \<and> linkable m2 p \<and> arrives as (mem (link st)) m2
          \<and> chain_bytes m2 as = h @ chain_bytes m as"
    using header_added [OF assms(5,4)] by blast
  have hl: "length ?h = 20" by (simp only: length_ip_hdr IP_HLEN_def)
  obtain m2 where m2: "payload_write p 0 ?h m1 = Some m2" "outgoing m2 p as" "linkable m2 p" "arrives as (mem (link st)) m2"
      "chain_bytes m2 as = ?h @ chain_bytes m as"
    using m1(4) [OF hl] by blast
  let ?l = "(link st)\<lparr>mem := m2\<rparr>"
  obtain s1 r where s1: "handed (\<lambda>s. etharp_output env n (Some p) dip s) p ?l = Some (ERR_OK, s1)"
      "wire (dev s1) = wire (dev (link st)) @ r @ [eth_hdr eth (hwaddr (ifs env n)) ETHTYPE_IP @ chain_bytes m2 as]"
      "set r \<subseteq> {request_frame env n (next_hop env n dip) eth, request_frame env n (next_hop env n dip) ethbroadcast}"
    using known_address_run [OF assms(1-3) m2(4,2,3) assms(7-9)] by blast
  then obtain s0 where s0: "etharp_output env n (Some p) dip ?l = Some (ERR_OK, s0)" "dev s0 = dev s1"
    by (auto simp: handed_def free_pbuf_def bind_eq_Some_conv)
  obtain y where y: "store m2 p = Some y" "unat (ptot y) = 20 + length (chain_bytes m as)"
  proof -
    have "packet m2 (Some p) as" using m2(2) by (simp add: outgoing_def)
    from packet_head [OF this] show thesis using that unfolding m2(5) length_append hl by blast
  qed
  have "\<not> (mtu (ifs env n) \<noteq> 0 \<and> mtu (ifs env n) < ptot y)" using assms(6) y(2) by (auto simp: word_less_nat_alt)
  then have "ip4_to_netif env (Some p) dip n (st\<lparr>link := ?l, ip_id := ip_id st + 1\<rparr>) = Some (Ip_err ERR_OK, st\<lparr>link := s0, ip_id := ip_id st + 1\<rparr>)"
    using y(1) s0(1) by (simp add: ip4_to_netif_def pbuf_at_def)
  then have "ip4_output_if_src env (Some p) sip (Some dip) lifetime service proto n (st\<lparr>link := (link st)\<lparr>mem := m\<rparr>\<rparr>)
      = Some (Ip_err ERR_OK, st\<lparr>link := s0, ip_id := ip_id st + 1\<rparr>)"
    using m1(1-3) m2(1) by (simp add: ip4_output_if_src_def pbuf_at_def Let_def)
  then show ?thesis using s0(2) s1(2,3) m2(5) by (auto simp: ip_datagram_def Let_def)
qed

lemma frame_fields:
  assumes "one_pooled m a x" "buf_bytes x = eth_hdr dst src t @ rest" "length dst = 6" "length src = 6"
  shows "frame_type x = t" "drop 14 (buf_bytes x) = rest"
proof -
  have len: "length (eth_hdr dst src t) = 14" using assms(3,4) by (simp add: SIZEOF_ETH_HDR_def)
  have n: "unat (plen x) = 14 + length rest" using one_pooled_bytes [OF assms(1)] assms(2) len by simp
  have "memory_at x ! i = (eth_hdr dst src t) ! i" if "i < 14" for i
  proof -
    have "memory_at x ! i = buf_bytes x ! i" using that n by (simp add: buf_bytes_def memory_at_def)
    then show ?thesis using that len by (simp add: assms(2) nth_append)
  qed
  then show "frame_type x = t" using assms(3,4) by (simp add: frame_type_def eth_hdr_def be16_def nth_append un_be16_be16)
  show "drop 14 (buf_bytes x) = rest" using len assms(2) by simp
qed

lemma resolved_length:
  assumes "env_ok env dev_ok wire" "dev_ok d" "arp_reach env d s" "resolved s ip n eth"
  shows "length eth = 6"
proof -
  obtain ch where "arp_inv {} ch s" using arp_reach_inv [OF assms(1-3)] by blast
  then have "wf_table (arp_table s)" by (simp add: arp_inv_def)
  then have "\<forall>i < ARP_TABLE_SIZE. wf_entry (entry s i)" by (simp add: wf_table_def entry_def)
  then show ?thesis using assms(4) by (auto simp: resolved_def wf_entry_def)
qed

lemma link_run:
  assumes "env_ok env dev_ok wire" "dev_ok d" "arp_reach env d (link st)" "arrives as (mem (link st)) m" "ready_to_send m p as"
    and "mtu (ifs env n) = 0 \<or> 20 + length (chain_bytes m as) \<le> unat (mtu (ifs env n))"
    and "group_eth env n dip = None" "\<not> no_route env n dip" "resolved (link st) (next_hop env n dip) n eth"
    and "proto \<in> {IP_PROTO_UDP, IP_PROTO_TCP, IP_PROTO_ICMP}"
    and "flag_etharp (ifs env' k)" "up (ifs env' k)" "ip_addr (ifs env' k) = dip" "dip \<noteq> 0" "\<not> isbroadcast sip (ifs env' k)" "\<not> ip4_addr_ismulticast sip"
  shows "\<exists>st1 r frame. ip4_output_if_src env (Some p) sip (Some dip) lifetime service proto n (st\<lparr>link := (link st)\<lparr>mem := m\<rparr>\<rparr>) = Some (Ip_err ERR_OK, st1)
    \<and> wire (dev (link st1)) = wire (dev (link st)) @ r @ [frame] \<and> length frame = 34 + length (chain_bytes m as)
    \<and> set r \<subseteq> {request_frame env n (next_hop env n dip) eth, request_frame env n (next_hop env n dip) ethbroadcast}
    \<and> (\<forall>(s' :: 'e link_state) rt q x pad. one_pooled (mem s') q x \<and> pref x = 1 \<and> 78 \<le> length (memory_at x) \<and> buf_bytes x = frame @ pad \<longrightarrow>
        (\<exists>s1 y. ethernet_input thumb2_checksum env' rt k (Some q) s' = Some (Some (Ip_deliver proto q 20 k sip dip), s1)
          \<and> one_pooled (mem s1) q y \<and> buf_bytes y = chain_bytes m as))"
proof -
  let ?body = "chain_bytes m as"
  let ?ip = "ip_datagram service (ip_id st) lifetime proto sip dip ?body"
  let ?frame = "eth_hdr eth (hwaddr (ifs env n)) ETHTYPE_IP @ ?ip"
  obtain st1 r where o: "ip4_output_if_src env (Some p) sip (Some dip) lifetime service proto n (st\<lparr>link := (link st)\<lparr>mem := m\<rparr>\<rparr>) = Some (Ip_err ERR_OK, st1)"
      "wire (dev (link st1)) = wire (dev (link st)) @ r @ [?frame]"
      "set r \<subseteq> {request_frame env n (next_hop env n dip) eth, request_frame env n (next_hop env n dip) ethbroadcast}"
    using output_run_known [OF assms(1-9), of sip lifetime service proto] by blast
  have hw: "length eth = 6" "length (hwaddr (ifs env n)) = 6" using resolved_length [OF assms(1-3,9)] assms(1) by (simp_all add: env_ok_def)
  then have fl: "length ?frame = 34 + length ?body" by (simp add: ip_datagram_def Let_def IP_HLEN_def SIZEOF_ETH_HDR_def)
  have small: "20 + length ?body < 65536" using assms(5) by (simp add: ready_to_send_def IP_HLEN_def)
  have "\<exists>s1 y. ethernet_input thumb2_checksum env' rt k (Some q) s' = Some (Some (Ip_deliver proto q 20 k sip dip), s1)
          \<and> one_pooled (mem s1) q y \<and> buf_bytes y = ?body"
    if x: "one_pooled (mem s') q x" "pref x = 1" "78 \<le> length (memory_at x)" "buf_bytes x = ?frame @ pad" for s' :: "'e link_state" and rt q x pad
  proof -
    have b: "buf_bytes x = eth_hdr eth (hwaddr (ifs env n)) ETHTYPE_IP @ (?ip @ pad)" using x(4) by simp
    note f = frame_fields [OF x(1) b hw]
    have long: "14 < unat (plen x)" using one_pooled_bytes [OF x(1)] b hw by (simp add: ip_datagram_def Let_def IP_HLEN_def SIZEOF_ETH_HDR_def)
    obtain v m' where v: "ethernet_input thumb2_checksum env' rt k (Some q) s' = Some (Some v, s'\<lparr>mem := m'\<rparr>)"
        "ip_outcome env' rt k q (without_eth x) (mem s') v m'"
      using ethernet_ip_run [OF x(1-3) long assms(11) f(1)] by blast
    have w: "buf_bytes (without_eth x) = ?ip @ pad" using without_eth(3) [OF x(1)] long f(2) by simp
    then have h: "buf_bytes (without_eth x) = ip_hdr service (of_nat (20 + length ?body)) (ip_id st) lifetime proto
        (ip_hdr_chksum service (of_nat (20 + length ?body)) (ip_id st) lifetime proto sip dip) sip dip @ ?body @ pad"
      by (simp add: ip_datagram_def Let_def)
    note g = our_header [OF h small]
    have grp: "\<not> ip4_addr_ismulticast dip" using assms(7) by (auto simp: group_eth_def split: if_splits)
    have net: "ip4_netif_for env' rt k dip = Some k" using grp assms(12-14) by (simp add: ip4_netif_for_def ip4_input_accept_def)
    have nofrag: "un_be16 (buf_bytes (without_eth x) ! 6) (buf_bytes (without_eth x) ! 7) AND IP_FRAGMENT = 0" by (simp only: g(2)) simp
    obtain y where y: "v = Ip_deliver proto q 20 k sip dip" "one_pooled m' q y" "buf_bytes y = drop 20 (take (20 + length ?body) (buf_bytes (without_eth x)))"
      using delivered [OF v(2) g(1) net assms(15,16,10) nofrag] by blast
    have "buf_bytes y = ?body" unfolding y(3) h by (simp add: IP_HLEN_def)
    then show ?thesis using v(1) y(1,2) by auto
  qed
  then show ?thesis using o fl by blast
qed

text \<open>A datagram to an address that is routed to a link, and known there, arrives: one frame goes out, after at most one ARP request, and
  whoever has that address delivers from it, padded by the medium or not, the payload unchanged, with its source, destination and
  protocol.\<close>

theorem datagram_crosses_link:
  assumes "env_ok env dev_ok wire" "dev_ok d" "arp_reach env d (link st)" "arrives as (mem (link st)) m" "ready_to_send m p as"
    and "mtu (ifs env n) = 0 \<or> 20 + length (chain_bytes m as) \<le> unat (mtu (ifs env n))"
    and "ip4_route env rts dip = Some n" "group_eth env n dip = None" "\<not> no_route env n dip" "resolved (link st) (next_hop env n dip) n eth"
    and "proto \<in> {IP_PROTO_UDP, IP_PROTO_TCP, IP_PROTO_ICMP}" "sip = (if src = 0 then ip_addr (ifs env n) else src)"
    and "flag_etharp (ifs env' k)" "up (ifs env' k)" "ip_addr (ifs env' k) = dip" "dip \<noteq> 0" "\<not> isbroadcast sip (ifs env' k)" "\<not> ip4_addr_ismulticast sip"
  shows "\<exists>st1 r frame. ip4_output env rts (Some p) src dip lifetime service proto (st\<lparr>link := (link st)\<lparr>mem := m\<rparr>\<rparr>) = Some (Ip_err ERR_OK, st1)
    \<and> wire (dev (link st1)) = wire (dev (link st)) @ r @ [frame] \<and> length frame = 34 + length (chain_bytes m as)
    \<and> set r \<subseteq> {request_frame env n (next_hop env n dip) eth, request_frame env n (next_hop env n dip) ethbroadcast}
    \<and> (\<forall>(s' :: 'e link_state) rt q x pad. one_pooled (mem s') q x \<and> pref x = 1 \<and> 78 \<le> length (memory_at x) \<and> buf_bytes x = frame @ pad \<longrightarrow>
        (\<exists>s1 y. ethernet_input thumb2_checksum env' rt k (Some q) s' = Some (Some (Ip_deliver proto q 20 k sip dip), s1)
          \<and> one_pooled (mem s1) q y \<and> buf_bytes y = chain_bytes m as))"
  using link_run [OF assms(1-6,8-11,13-18), of lifetime service] assms(7,12) by (simp add: ip4_output_def ip4_output_if_def)

text \<open>C6: What a UDP service sends to a known address reaches the service bound to the port there: the datagram is built, goes through IPv4,
  address resolution and a frame, and the receiver's handler gets the same payload, with the address and the port it came from.\<close>

theorem udp_crosses_link:
  assumes "udp_sendto_if_src thumb2_checksum headroom new_pbuf (Some a) pl dip dport sip ust = (ERR_OK, Some (q, sip', dip', t, sv, pr), ust1)"
    and "length (payload pl) + UDP_HLEN < 65536" "chain_bytes m as = payload q"
    and "env_ok env dev_ok wire" "dev_ok d" "arp_reach env d (link st)" "arrives as (mem (link st)) m" "ready_to_send m p as"
    and "mtu (ifs env n) = 0 \<or> 20 + length (chain_bytes m as) \<le> unat (mtu (ifs env n))"
    and "group_eth env n dip = None" "\<not> no_route env n dip" "resolved (link st) (next_hop env n dip) n eth"
    and "flag_etharp (ifs env' k)" "up (ifs env' k)" "ip_addr (ifs env' k) = dip" "dip \<noteq> 0" "\<not> isbroadcast sip (ifs env' k)" "\<not> ip4_addr_ismulticast sip"
    and "udp_reach ust'" "matches ust' (netif.truncate (ifs env' k)) dip dport c" "flags (pcb ust' c) AND UDP_FLAGS_CONNECTED = 0" "recv (pcb ust' c) = Some f"
  shows "\<exists>st1 r frame. ip4_output_if_src env (Some p) sip' (Some dip') t sv pr n (st\<lparr>link := (link st)\<lparr>mem := m\<rparr>\<rparr>) = Some (Ip_err ERR_OK, st1)
    \<and> wire (dev (link st1)) = wire (dev (link st)) @ r @ [frame] \<and> length frame = 34 + length (chain_bytes m as)
    \<and> (\<forall>(s' :: 'e link_state) rt b x pad addr. one_pooled (mem s') b x \<and> pref x = 1 \<and> 78 \<le> length (memory_at x) \<and> buf_bytes x = frame @ pad \<longrightarrow>
        (\<exists>s1 y pkt. ethernet_input thumb2_checksum env' rt k (Some b) s' = Some (Some (Ip_deliver IP_PROTO_UDP b 20 k sip dip), s1)
          \<and> one_pooled (mem s1) b y
          \<and> fst (udp_input thumb2_checksum (netif.truncate (ifs env' k)) sip dip [(addr, buf_bytes y)] ust')
              = Recv f c pkt sip (local_port (pcb ust1 a)) \<and> payload pkt = payload pl))"
proof -
  note d = sent_datagram [OF assms(1,2)]
  have pr: "pr = IP_PROTO_UDP" using assms(1) by (auto simp: udp_sendto_if_src_def Let_def split: if_splits option.splits prod.splits)
  obtain st1 r frame where o: "ip4_output_if_src env (Some p) sip (Some dip) t sv IP_PROTO_UDP n (st\<lparr>link := (link st)\<lparr>mem := m\<rparr>\<rparr>) = Some (Ip_err ERR_OK, st1)"
      "wire (dev (link st1)) = wire (dev (link st)) @ r @ [frame] \<and> length frame = 34 + length (chain_bytes m as)"
      "\<And>(s' :: 'e link_state) rt b x pad. one_pooled (mem s') b x \<and> pref x = 1 \<and> 78 \<le> length (memory_at x) \<and> buf_bytes x = frame @ pad \<Longrightarrow>
        (\<exists>s1 y. ethernet_input thumb2_checksum env' rt k (Some b) s' = Some (Some (Ip_deliver IP_PROTO_UDP b 20 k sip dip), s1)
          \<and> one_pooled (mem s1) b y \<and> buf_bytes y = chain_bytes m as)"
    using link_run [OF assms(4-12) _ assms(13-18), of IP_PROTO_UDP t sv] by blast
  have nb: "\<not> ip4_addr_isbroadcast dip (netif.truncate (ifs env' k))"
    using assms(10,15) by (auto simp: group_eth_def ip4_addr_isbroadcast_def netif.defs split: if_splits)
  have "\<exists>pkt. fst (udp_input thumb2_checksum (netif.truncate (ifs env' k)) sip dip [(addr, payload q)] ust')
      = Recv f c pkt sip (local_port (pcb ust1 a)) \<and> payload pkt = payload pl" for addr
  proof -
    have "UDP_HLEN \<le> length (payload q)" using d by (auto simp: datagram_def udp_header_def UDP_HLEN_def)
    moreover have "payload [(addr, payload q)] = payload q" by (simp add: payload_def)
    ultimately show ?thesis using udp_arrives [OF assms(1,2) _ _ assms(19-22) nb, of addr "payload q" "[]"] d by simp
  qed
  then show ?thesis using o assms(3) d pr by (intro exI [of _ st1] exI [of _ r] exI [of _ frame]) fastforce
qed

subsection \<open>A concrete link\<close>

text \<open>The host at 10.10.10.2, a packet with room for its headers, a frame in a buffer of the pool.\<close>

definition host_env :: "u8 list list link_env" where "host_env = lan\<lparr>ifs := \<lambda>_. our_if\<lparr>ip_addr := host\<rparr>\<rparr>"

definition with_room :: "nat \<Rightarrow> u8 list \<Rightarrow> pmem \<Rightarrow> pmem" where
  "with_room a bs m = set_pbuf a (one_buf 40 bs [] (of_nat (length bs))) m"

definition frame_buf :: "u8 list \<Rightarrow> pbuf" where
  "frame_buf frame = \<lparr>nxt = None, blk = frame @ replicate 78 0, beg = 0, ptot = of_nat (length frame), plen = of_nat (length frame),
     ptype = PBUF_POOL, pref = 1\<rparr>"

lemma with_room_ok:
  assumes "store m a = None" "length bs \<le> 1480" "bs \<noteq> []"
  shows "arrives [a] m (with_room a bs m)" "ready_to_send (with_room a bs m) a [a]" "chain_bytes (with_room a bs m) [a] = bs"
proof -
  have n: "length bs = unat (of_nat (length bs) :: u16)" using assms(2) by (simp add: unat_of_nat_small)
  have s: "store (with_room a bs m) a = Some (one_buf 40 bs [] (of_nat (length bs)))" by (simp add: with_room_def)
  note p = one_buf_packet [OF s n]
  show "arrives [a] m (with_room a bs m)" unfolding with_room_def by (rule arrives_one [OF assms(1)])
  show "chain_bytes (with_room a bs m) [a] = bs" by (rule p(3))
  have "buf_bytes (one_buf 40 bs [] (of_nat (length bs))) = bs" using p(3) s by simp
  then show "ready_to_send (with_room a bs m) a [a]" using p s assms(2,3)
    by (simp add: ready_to_send_def filled_def contiguous_def PBUF_IP_def IP_HLEN_def) (simp add: one_buf_def)
qed

lemma frame_buf_ok:
  assumes "length frame < 65536"
  shows "one_pooled (set_pbuf b (frame_buf frame) m) b (frame_buf frame)" "pref (frame_buf frame) = 1" "78 \<le> length (memory_at (frame_buf frame))"
    "buf_bytes (frame_buf frame) = frame @ []"
proof -
  have "unat (of_nat (length frame) :: u16) = length frame" using assms by (intro unat_of_nat_small) simp
  then show "one_pooled (set_pbuf b (frame_buf frame) m) b (frame_buf frame)" "pref (frame_buf frame) = 1" "78 \<le> length (memory_at (frame_buf frame))"
    "buf_bytes (frame_buf frame) = frame @ []" by (simp_all add: one_pooled_def frame_buf_def memory_at_def buf_bytes_def)
qed

lemma host_link:
  "mtu (ifs lan 0) = 0 \<or> 20 + length bs \<le> unat (mtu (ifs lan 0)) \<longleftrightarrow> length bs \<le> 1480"
  "ip4_route lan \<lparr>netif_list = [0], netif_default = Some 0\<rparr> host = Some 0"
  "flag_etharp (ifs host_env 0)" "up (ifs host_env 0)" "ip_addr (ifs host_env 0) = host" "host \<noteq> 0"
  "\<not> isbroadcast 0x0A0A0A0A (ifs host_env 0)" "\<not> ip4_addr_ismulticast 0x0A0A0A0A"
  by (simp_all add: lan_def our_if_def host_env_def host_def ip4_route_def routes_to_def ip4_addr_isbroadcast_def ip4_addr_ismulticast_def IPADDR_BROADCAST_def
      netif.defs Let_def)

text \<open>A frame of the host with a datagram of four bytes for us, and what is no frame at all.\<close>

definition host_frame :: "u8 list" where
  "host_frame = eth_hdr [0, 8, 220, 0, 0, 1] host_hw ETHTYPE_IP @ ip_datagram 0 7 255 17 host 0x0A0A0A0A [1, 2, 3, 4]"

lemma host_frame: "length host_frame = 38" "drop 14 host_frame = ip_datagram 0 7 255 17 host 0x0A0A0A0A [1, 2, 3, 4]"
    "frame_type (frame_buf host_frame) = ETHTYPE_IP" "unat (plen (frame_buf host_frame)) = 38"
proof -
  show l: "length host_frame = 38"
    by (simp add: host_frame_def eth_hdr_def host_hw_def ip_datagram_def Let_def IP_HLEN_def be16_def)
  show "drop 14 host_frame = ip_datagram 0 7 255 17 host 0x0A0A0A0A [1, 2, 3, 4]" by (simp add: host_frame_def eth_hdr_def host_hw_def be16_def)
  show "frame_type (frame_buf host_frame) = ETHTYPE_IP"
    by (simp add: frame_type_def frame_buf_def memory_at_def host_frame_def eth_hdr_def host_hw_def be16_def un_be16_be16)
  show "unat (plen (frame_buf host_frame)) = 38" by (simp add: frame_buf_def l)
qed

theorem frame_handled_witness:
  "(\<exists>s1 y. ethernet_input thumb2_checksum lan \<lparr>netif_list = [0], netif_default = None\<rparr> 0 (Some 7)
       ((arp_start [] [])\<lparr>mem := set_pbuf 7 (frame_buf host_frame) (mem (arp_start [] [] :: u8 list list link_state))\<rparr>)
     = Some (Some (Ip_deliver 17 7 20 0 host 0x0A0A0A0A), s1) \<and> one_pooled (mem s1) 7 y \<and> buf_bytes y = [1, 2, 3, 4])
   \<and> (\<exists>s1. ethernet_input thumb2_checksum lan \<lparr>netif_list = [0], netif_default = None\<rparr> 0 (Some 7)
       ((arp_start [] [])\<lparr>mem := set_pbuf 7 (frame_buf [255, 255, 255]) (mem (arp_start [] [] :: u8 list list link_state))\<rparr>)
     = Some (None, s1) \<and> store (mem s1) = (\<lambda>_. None))"
proof
  let ?s = "arp_start [] [] :: u8 list list link_state" and ?rt = "\<lparr>netif_list = [0], netif_default = None\<rparr>"
  have arr: "arrives [7] (mem ?s) (set_pbuf 7 (frame_buf fr) (mem ?s))" for fr by (rule arrives_one [OF start_unknown(3)])
  let ?x = "frame_buf host_frame" and ?m = "set_pbuf 7 (frame_buf host_frame) (mem ?s)"
  have fl: "length host_frame < 65536" by (simp add: host_frame(1))
  have f: "14 < unat (plen ?x)" "flag_etharp (ifs lan 0)" "frame_type ?x = ETHTYPE_IP" "ETHTYPE_IP \<noteq> ETHTYPE_ARP"
    by (simp_all add: host_frame(3,4) lan_def our_if_def ETHTYPE_IP_def ETHTYPE_ARP_def)
  obtain w s1 where w: "ethernet_input thumb2_checksum lan ?rt 0 (Some 7) (?s\<lparr>mem := ?m\<rparr>) = Some (Some w, s1)"
      "buf_bytes (without_eth ?x) = drop 14 (buf_bytes ?x)" "ip_outcome lan ?rt 0 7 (without_eth ?x) ?m w (mem s1)"
    using frame_handled [OF lan_ok _ arp_reach.start arr frame_buf_ok(1-3) [OF fl], of ?rt 0] f by auto
  have b: "buf_bytes (without_eth ?x) = ip_hdr 0 (of_nat (20 + length [1, 2, 3, 4 :: u8])) 7 255 17
      (ip_hdr_chksum 0 (of_nat (20 + length [1, 2, 3, 4 :: u8])) 7 255 17 host 0x0A0A0A0A) host 0x0A0A0A0A @ [1, 2, 3, 4] @ []"
    unfolding w(2) frame_buf_ok(4) [OF fl] append_Nil2 host_frame(2) ip_datagram_def Let_def ..
  note g = our_header [OF b]
  have net: "ip4_netif_for lan ?rt 0 0x0A0A0A0A = Some 0" "\<not> isbroadcast host (ifs lan 0)" "\<not> ip4_addr_ismulticast host"
    by (simp_all add: ip4_netif_for_def ip4_input_accept_def lan_def our_if_def ip4_addr_ismulticast_def host_def ip4_addr_isbroadcast_def
        IPADDR_BROADCAST_def netif.defs)
  obtain y where "w = Ip_deliver 17 7 20 0 host 0x0A0A0A0A" "one_pooled (mem s1) 7 y"
      "buf_bytes y = drop 20 (take (20 + length [1, 2, 3, 4 :: u8]) (buf_bytes (without_eth ?x)))"
    using delivered [OF w(3) g(1) net] g(2) by (auto simp: IP_PROTO_UDP_def)
  then show "\<exists>s1 y. ethernet_input thumb2_checksum lan ?rt 0 (Some 7) (?s\<lparr>mem := ?m\<rparr>) = Some (Some (Ip_deliver 17 7 20 0 host 0x0A0A0A0A), s1)
      \<and> one_pooled (mem s1) 7 y \<and> buf_bytes y = [1, 2, 3, 4]"
    using w(1) unfolding b by (intro exI [of _ s1] exI [of _ y]) (simp add: IP_HLEN_def)
  have "length [255, 255, 255 :: u8] < 65536" "\<not> 14 < unat (plen (frame_buf [255, 255, 255]))" by (simp_all add: frame_buf_def)
  then obtain s2 where "ethernet_input thumb2_checksum lan ?rt 0 (Some 7) (?s\<lparr>mem := set_pbuf 7 (frame_buf [255, 255, 255]) (mem ?s)\<rparr>) = Some (None, s2)"
      "store (mem s2) = store (mem ?s)"
    using frame_handled [OF lan_ok _ arp_reach.start arr frame_buf_ok(1-3), of "[255, 255, 255]" ?rt 0] by auto
  then show "\<exists>s1. ethernet_input thumb2_checksum lan ?rt 0 (Some 7) (?s\<lparr>mem := set_pbuf 7 (frame_buf [255, 255, 255]) (mem ?s)\<rparr>) = Some (None, s1)
      \<and> store (mem s1) = (\<lambda>_. None)"
    by (simp add: arp_start_def)
qed

theorem datagram_crosses_link_witness:
  "\<exists>s a m st1 r frame s1 y. arp_reach lan [] s
    \<and> ip4_output lan \<lparr>netif_list = [0], netif_default = Some 0\<rparr> (Some a) 0 host 255 0 17 \<lparr>link = s\<lparr>mem := m\<rparr>, ip_id = 0\<rparr> = Some (Ip_err ERR_OK, st1)
    \<and> dev (link st1) = dev s @ r @ [frame]
    \<and> ethernet_input thumb2_checksum host_env \<lparr>netif_list = [0], netif_default = Some 0\<rparr> 0 (Some 5)
        ((arp_start [] [])\<lparr>mem := set_pbuf 5 (frame_buf frame) (mem (arp_start [] [] :: u8 list list link_state))\<rparr>)
      = Some (Some (Ip_deliver 17 5 20 0 0x0A0A0A0A host), s1)
    \<and> one_pooled (mem s1) 5 y \<and> buf_bytes y = [1, 2, 3, 4]"
proof -
  obtain s where s: "arp_reach lan [] s" "resolved s host 0 host_hw" using lan_known by blast
  obtain a where a: "store (mem s) a = None" by (rule reach_fresh [OF s(1)])
  let ?m = "with_room a [1, 2, 3, 4] (mem s)" and ?st = "\<lparr>link = s, ip_id = 0\<rparr>" and ?rts = "\<lparr>netif_list = [0], netif_default = Some 0\<rparr> :: interfaces"
  have p: "arrives [a] (mem (link ?st)) ?m" "ready_to_send ?m a [a]" "chain_bytes ?m [a] = [1, 2, 3, 4]" using with_room_ok [of "mem s" a "[1, 2, 3, 4]"] a by simp_all
  have r: "arp_reach lan [] (link ?st)" "resolved (link ?st) (next_hop lan 0 host) 0 host_hw" using s host_is_local(2) by simp_all
  have f: "mtu (ifs lan 0) = 0 \<or> 20 + length (chain_bytes ?m [a]) \<le> unat (mtu (ifs lan 0))" unfolding p(3) host_link(1) by simp
  have u: "(17 :: u8) \<in> {IP_PROTO_UDP, IP_PROTO_TCP, IP_PROTO_ICMP}" by (simp add: IP_PROTO_UDP_def)
  have src: "(0x0A0A0A0A :: u32) = (if 0 = (0 :: u32) then ip_addr (ifs lan 0) else 0)" using host_is_local(5) by simp
  obtain st1 rq frame where o: "ip4_output lan ?rts (Some a) 0 host 255 0 17 (?st\<lparr>link := (link ?st)\<lparr>mem := ?m\<rparr>\<rparr>) = Some (Ip_err ERR_OK, st1)"
      "dev (link st1) = dev (link ?st) @ rq @ [frame] \<and> length frame = 34 + length (chain_bytes ?m [a])"
      "\<And>(s' :: u8 list list link_state) rt q x pad. one_pooled (mem s') q x \<and> pref x = 1 \<and> 78 \<le> length (memory_at x) \<and> buf_bytes x = frame @ pad \<Longrightarrow>
        (\<exists>s1 y. ethernet_input thumb2_checksum host_env rt 0 (Some q) s' = Some (Some (Ip_deliver 17 q 20 0 0x0A0A0A0A host), s1)
          \<and> one_pooled (mem s1) q y \<and> buf_bytes y = chain_bytes ?m [a])"
    using datagram_crosses_link [OF lan_ok TrueI r(1) p(1,2) f host_link(2) host_is_local(1,4) r(2) u src host_link(3-8), of 255 0] unfolding id_apply by blast
  have l: "length frame < 65536" using o(2) p(3) by simp
  let ?s' = "(arp_start [] [])\<lparr>mem := set_pbuf 5 (frame_buf frame) (mem (arp_start [] [] :: u8 list list link_state))\<rparr>"
  have "one_pooled (mem ?s') 5 (frame_buf frame)" using frame_buf_ok(1) [OF l] by simp
  then obtain s1 y where "ethernet_input thumb2_checksum host_env ?rts 0 (Some 5) ?s' = Some (Some (Ip_deliver 17 5 20 0 0x0A0A0A0A host), s1)"
      "one_pooled (mem s1) 5 y" "buf_bytes y = [1, 2, 3, 4]"
    using o(3) [of ?s' 5 "frame_buf frame" "[]" ?rts] frame_buf_ok [OF l] p(3) by auto
  then show ?thesis using s(1) o(1,2)
    by (intro exI [of _ s] exI [of _ a] exI [of _ ?m] exI [of _ st1] exI [of _ rq] exI [of _ frame] exI [of _ s1] exI [of _ y]) simp
qed

theorem udp_crosses_link_witness:
  "\<exists>s a m q st1 r frame s1 y pkt. arp_reach lan [] s
    \<and> fst (udp_sendto_if_src thumb2_checksum True None (Some 0) [(100, [1, 2, 3])] host 69 0x0A0A0A0A (one_service 1000 ())) = ERR_OK
    \<and> fst (snd (udp_sendto_if_src thumb2_checksum True None (Some 0) [(100, [1, 2, 3])] host 69 0x0A0A0A0A (one_service 1000 ())))
        = Some (q, 0x0A0A0A0A, host, 255, 0, 17)
    \<and> chain_bytes m [a] = payload q
    \<and> ip4_output_if_src lan (Some a) 0x0A0A0A0A (Some host) 255 0 17 0 \<lparr>link = s\<lparr>mem := m\<rparr>, ip_id = 0\<rparr> = Some (Ip_err ERR_OK, st1)
    \<and> dev (link st1) = dev s @ r @ [frame]
    \<and> ethernet_input thumb2_checksum host_env \<lparr>netif_list = [0], netif_default = Some 0\<rparr> 0 (Some 5)
        ((arp_start [] [])\<lparr>mem := set_pbuf 5 (frame_buf frame) (mem (arp_start [] [] :: u8 list list link_state))\<rparr>)
      = Some (Some (Ip_deliver IP_PROTO_UDP 5 20 0 0x0A0A0A0A host), s1)
    \<and> fst (udp_input thumb2_checksum (netif.truncate (ifs host_env 0)) 0x0A0A0A0A host [(0, buf_bytes y)] (one_service 69 ()))
      = Recv () 0 pkt 0x0A0A0A0A 1000 \<and> payload pkt = [1, 2, 3]"
proof -
  let ?c = "one_service 1000 () :: unit udp" and ?svc = "one_service 69 () :: unit udp"
  have c: "local_port (pcb ?c 0) = 1000" "ttl (pcb ?c 0) = 255" "tos (pcb ?c 0) = 0" by (simp_all add: one_service(1) UDP_TTL_def)
  obtain q where q: "udp_sendto_if_src thumb2_checksum True None (Some 0) [(100, [1, 2, 3])] host 69 0x0A0A0A0A ?c
      = (ERR_OK, Some (q, 0x0A0A0A0A, host, 255, 0, 17), ?c)" "datagram q 0x0A0A0A0A host 1000 69 [1, 2, 3]"
    using src_sends [of ?c 0 "[1, 2, 3]" 100 host 69 "0x0A0A0A0A"] c by (auto simp: IP_PROTO_UDP_def UDP_HLEN_def)
  have len: "length (payload q) = 11" using q(2) by (auto simp: datagram_def udp_header_def be16_def le16_def)
  obtain s where s: "arp_reach lan [] s" "resolved s host 0 host_hw" using lan_known by blast
  obtain a where a: "store (mem s) a = None" by (rule reach_fresh [OF s(1)])
  let ?m = "with_room a (payload q) (mem s)" and ?st = "\<lparr>link = s, ip_id = 0\<rparr>" and ?rts = "\<lparr>netif_list = [0], netif_default = Some 0\<rparr> :: interfaces"
  have ne: "payload q \<noteq> []" "length (payload q) \<le> 1480" using len by auto
  have p: "arrives [a] (mem (link ?st)) ?m" "ready_to_send ?m a [a]" "chain_bytes ?m [a] = payload q" using with_room_ok [of "mem s" a "payload q"] a ne by simp_all
  have r: "arp_reach lan [] (link ?st)" "resolved (link ?st) (next_hop lan 0 host) 0 host_hw" using s host_is_local(2) by simp_all
  have f: "mtu (ifs lan 0) = 0 \<or> 20 + length (chain_bytes ?m [a]) \<le> unat (mtu (ifs lan 0))" unfolding p(3) host_link(1) by (rule ne)
  have l: "length (payload [(100, [1, 2, 3])]) + UDP_HLEN < 65536" by (simp add: payload_def UDP_HLEN_def)
  have m: "matches ?svc (netif.truncate (ifs host_env 0)) host 69 0" 
    by (simp add: matches_def udp_input_local_match_def one_service(1) ip4_addr_isbroadcast_def host_env_def host_def)
  have v: "flags (pcb ?svc 0) AND UDP_FLAGS_CONNECTED = 0" "recv (pcb ?svc 0) = Some ()" by (simp_all add: one_service(1))
  have u: "udp_reach ?svc" by (rule one_service(2)) simp
  obtain st1 rq frame where o: "ip4_output_if_src lan (Some a) 0x0A0A0A0A (Some host) 255 0 17 0 (?st\<lparr>link := (link ?st)\<lparr>mem := ?m\<rparr>\<rparr>) = Some (Ip_err ERR_OK, st1)"
      "dev (link st1) = dev (link ?st) @ rq @ [frame] \<and> length frame = 34 + length (chain_bytes ?m [a])"
      "\<And>(s' :: u8 list list link_state) rt b x pad addr. one_pooled (mem s') b x \<and> pref x = 1 \<and> 78 \<le> length (memory_at x) \<and> buf_bytes x = frame @ pad \<Longrightarrow>
        (\<exists>s1 y pkt. ethernet_input thumb2_checksum host_env rt 0 (Some b) s' = Some (Some (Ip_deliver IP_PROTO_UDP b 20 0 0x0A0A0A0A host), s1)
          \<and> one_pooled (mem s1) b y
          \<and> fst (udp_input thumb2_checksum (netif.truncate (ifs host_env 0)) 0x0A0A0A0A host [(addr, buf_bytes y)] ?svc)
              = Recv () 0 pkt 0x0A0A0A0A (local_port (pcb ?c 0)) \<and> payload pkt = payload [(100, [1, 2, 3])])"
    using udp_crosses_link [OF q(1) l p(3) lan_ok TrueI r(1) p(1,2) f host_is_local(1,4) r(2) host_link(3-8) u m v] unfolding id_apply by blast
  have fl: "length frame < 65536" using o(2) p(3) len by simp
  let ?s' = "(arp_start [] [])\<lparr>mem := set_pbuf 5 (frame_buf frame) (mem (arp_start [] [] :: u8 list list link_state))\<rparr>"
  have "one_pooled (mem ?s') 5 (frame_buf frame)" using frame_buf_ok(1) [OF fl] by simp
  then obtain s1 y pkt where e: "ethernet_input thumb2_checksum host_env ?rts 0 (Some 5) ?s' = Some (Some (Ip_deliver IP_PROTO_UDP 5 20 0 0x0A0A0A0A host), s1)"
      "fst (udp_input thumb2_checksum (netif.truncate (ifs host_env 0)) 0x0A0A0A0A host [(0, buf_bytes y)] ?svc) = Recv () 0 pkt 0x0A0A0A0A 1000"
      "payload pkt = [1, 2, 3]"
    using o(3) [of ?s' 5 "frame_buf frame" "[]" ?rts 0] frame_buf_ok [OF fl] c(1) by (auto simp: payload_def)
  show ?thesis using s(1) q(1) p(3) o(1,2) e
    by (intro exI [of _ s] exI [of _ a] exI [of _ ?m] exI [of _ q] exI [of _ st1] exI [of _ rq] exI [of _ frame] exI [of _ s1] exI [of _ y] exI [of _ pkt]) simp
qed

end
