(* ===== verification/IcmpRun.thy ===== *)
theory IcmpRun
  imports Icmp Ip4Link
begin

text \<open>
  The answer to an echo request, from the frame received to the frame sent: the bytes of the reply, their checksums, and the way of
  the packet through IPv4 and address resolution.
\<close>

subsection \<open>The checksum of the message\<close>

lemma echo_chksum_value:
  "unat (echo_chksum c) = (if 0xfff7 < unat c then unat c + 9 - 65536 else unat c + 8)" "0 < unat (echo_chksum c)"
proof -
  have c: "unat c < 65536" using unsigned_less [of c, where 'a = nat] by simp
  have k: "lwip_htons (0xffff - push_bit 8 (ucast ICMP_ECHO)) = 0xfff7" "lwip_htons (push_bit 8 (ucast ICMP_ECHO)) = 8"
    by (simp_all add: ICMP_ECHO_def lwip_htons_def)
  have e: "echo_chksum c = (if 0xfff7 < c then c + 8 + 1 else c + 8)" unfolding echo_chksum_def k ..
  have l: "0xfff7 < c \<longleftrightarrow> 0xfff7 < unat c" by (simp add: word_less_nat_alt)
  have "unat (c + 8) = (unat c + 8) mod 65536" "unat (c + 9) = (unat c + 9) mod 65536" by (simp_all add: unat_word_ariths(1))
  then show "unat (echo_chksum c) = (if 0xfff7 < unat c then unat c + 9 - 65536 else unat c + 8)" using c by (auto simp: e l mod_if add.assoc)
  then show "0 < unat (echo_chksum c)" using c by (simp split: if_splits)
qed

lemma reply_message_sum:
  assumes "standard_chksum1 ([ICMP_ECHO, code, c0, c1] @ rest) = 0xFFFF" "length rest < 65532"
  shows "standard_chksum1 ([ICMP_ER, code] @ le16 (echo_chksum (un_le16 c0 c1)) @ rest) = 0xFFFF"
proof -
  let ?c = "un_le16 c0 c1" and ?old = "[ICMP_ECHO, code, c0, c1] @ rest" and ?new = "[ICMP_ER, code] @ le16 (echo_chksum (un_le16 c0 c1)) @ rest"
  let ?s = "256 * unat code + byte_sum rest"
  have "same_sum (unat (un_le16 ICMP_ECHO code) + (unat ?c + byte_sum rest)) (byte_sum ?old)"
    using same_sum_trans [OF same_sum_add [OF same_sum_refl byte_sum_two] byte_sum_two] by simp
  moreover have "unat (un_le16 ICMP_ECHO code) + (unat ?c + byte_sum rest) = 8 + unat ?c + ?s" by (simp add: unat_un_le16 ICMP_ECHO_def)
  ultimately have old: "same_sum (8 + unat ?c + ?s) (byte_sum ?old)" by metis
  have "same_sum (unat (un_le16 ICMP_ER code) + (unat (echo_chksum ?c) + byte_sum rest)) (byte_sum ?new)"
    using same_sum_trans [OF same_sum_add [OF same_sum_refl byte_sum_le16] byte_sum_two] by simp
  moreover have "unat (un_le16 ICMP_ER code) + (unat (echo_chksum ?c) + byte_sum rest) = unat (echo_chksum ?c) + ?s"
    by (simp add: unat_un_le16 [of 0 code] ICMP_ER_def)
  ultimately have new: "same_sum (unat (echo_chksum ?c) + ?s) (byte_sum ?new)" by metis
  have "same_sum (8 + unat ?c + ?s) (unat (echo_chksum ?c) + ?s)"
  proof (cases "0xfff7 < unat ?c")
    case True
    have "unat ?c < 65536" using unsigned_less [of ?c, where 'a = nat] by simp
    then have "8 + unat ?c + ?s = (unat (echo_chksum ?c) + ?s) + 65535" using True echo_chksum_value(1) [of ?c] by simp
    then show ?thesis using echo_chksum_value(2) [of ?c] unfolding same_sum_def by (simp only: mod_add_self2) simp
  next
    case False
    then show ?thesis using echo_chksum_value(1) [of ?c] by (simp add: add.commute)
  qed
  from same_sum_trans [OF this new] have "same_sum (byte_sum ?old) (byte_sum ?new)" by (rule same_sum_trans [OF same_sum_sym [OF old]])
  moreover have "same_sum (unat (0xFFFF :: u16)) (byte_sum ?old)" using standard_chksum1_sum [of ?old] assms by simp
  ultimately have s: "same_sum (unat (0xFFFF :: u16)) (byte_sum ?new)" by (rule same_sum_trans [rotated])
  have "length ?new < 65536" using assms(2) by (simp add: le16_def)
  then show ?thesis using std1.chk_unique [OF _ s] by blast
qed

text \<open>A checksum computed with its field zeroed and then stored there.\<close>

lemma stored_sum:
  assumes "even (length pre)" "length (pre @ [0, 0] @ post) < 65536"
  shows "standard_chksum1 (pre @ le16 (inet_chksum thumb2_checksum addr (pre @ [0, 0] @ post)) @ post) = 0xFFFF"
proof -
  let ?z = "pre @ [0, 0] @ post"
  let ?v = "thumb2_checksum addr ?z"
  let ?n = "pre @ le16 (NOT ?v) @ post"
  have v: "unat ?v \<le> 65535" using unsigned_less [of ?v, where 'a = nat] by simp
  have "same_sum (byte_sum ?n) (byte_sum ?z + unat (NOT ?v))" by (rule byte_sum_field [OF assms(1)])
  also have "same_sum (byte_sum ?z + unat (NOT ?v)) (unat ?v + unat (NOT ?v))" by (rule same_sum_add [OF same_sum_sym [OF thumb2_checksum_sum] same_sum_refl])
  also have "unat ?v + unat (NOT ?v) = unat (0xFFFF :: u16)" using v by (simp add: unat_not16)
  finally have s: "same_sum (unat (0xFFFF :: u16)) (byte_sum ?n)" by (rule same_sum_sym)
  have "length ?n < 65536" using assms(2) by (simp add: le16_def)
  then show ?thesis using std1.chk_unique [OF _ s] unfolding inet_chksum_def by blast
qed

subsection \<open>The bytes of the reply\<close>

definition echo_packet :: "chksum \<Rightarrow> nat \<Rightarrow> nat \<Rightarrow> u32 \<Rightarrow> u32 \<Rightarrow> u8 list \<Rightarrow> u8 list" where
  "echo_packet chk addr hlen src dest bs =
     (let b3 = blit (blit (blit bs 12 (le32 src)) 16 (le32 dest)) hlen [ICMP_ER];
          b4 = blit b3 (hlen + 2) (le16 (echo_chksum (un_le16 (b3 ! (hlen + 2)) (b3 ! (hlen + 3)))));
          b6 = blit (blit b4 8 [ICMP_TTL]) 10 [0, 0] in
      blit b6 10 (le16 (inet_chksum chk addr (take hlen b6))))"

definition written :: "pbuf \<Rightarrow> nat \<Rightarrow> u8 list \<Rightarrow> pbuf" where "written x off bs = x\<lparr>blk := blit (blk x) (beg x + off) bs\<rparr>"

lemma written_fields [simp]:
  "beg (written x off bs) = beg x" "plen (written x off bs) = plen x" "pref (written x off bs) = pref x" "ptype (written x off bs) = ptype x"
  "nxt (written x off bs) = nxt x" "ptot (written x off bs) = ptot x"
  by (simp_all add: written_def)

lemma set_pbuf_twice [simp]: "set_pbuf a y (set_pbuf a x m) = set_pbuf a y m" "store (set_pbuf a x m) a = Some x"
  by (simp_all add: set_pbuf_def)

lemma write_one:
  assumes "one_pooled (set_pbuf a x m) a x" "off + length bs \<le> unat (plen x)"
  shows "payload_write a off bs (set_pbuf a x m) = Some (set_pbuf a (written x off bs) m) \<and> one_pooled (set_pbuf a (written x off bs) m) a (written x off bs)
    \<and> buf_bytes (written x off bs) = blit (buf_bytes x) off bs"
proof -
  let ?m = "set_pbuf a x m"
  have x: "store ?m a = Some x" "beg x + unat (plen x) \<le> length (blk x)" using assms(1) by (simp_all add: one_pooled_def)
  have w: "payload_write a off bs ?m = Some (set_pbuf a (written x off bs) m)"
    using x assms(2) by (simp add: payload_write_def blit_checked_def written_def)
  have "buf_bytes (written x off bs) = blit (buf_bytes x) off bs" using payload_write_bytes [OF x assms(2)] w by auto
  moreover have "length (blk (written x off bs)) = length (blk x)" using x assms(2) by (simp add: written_def)
  ultimately show ?thesis using w assms(1) x by (simp add: one_pooled_def)
qed

lemma read_one:
  "one_pooled m a x \<Longrightarrow> off + n \<le> unat (plen x) \<Longrightarrow> payload_read x off n = Some (take n (drop off (buf_bytes x)))"
  by (rule payload_read_bytes) (simp_all add: one_pooled_def)

lemma echo_write_run:
  assumes "one_pooled m a x" "20 \<le> hlen" "hlen + 8 \<le> unat (plen x)"
  shows "\<exists>z. echo_write chk a hlen src dest m = Some (set_pbuf a z m) \<and> one_pooled (set_pbuf a z m) a z \<and> beg z = beg x \<and> pref z = pref x \<and> plen z = plen x
    \<and> buf_bytes z = echo_packet chk (beg x) hlen src dest (buf_bytes x)"
proof -
  have len: "length (le32 v) = 4" "length (le16 w) = 2" for v w by (simp_all add: le32_def le16_def)
  have same: "set_pbuf a x m = m" using assms(1) by (simp add: one_pooled_def set_pbuf_def fun_upd_idem)
  define x1 where "x1 = written x 12 (le32 src)"
  define x2 where "x2 = written x1 16 (le32 dest)"
  define x3 where "x3 = written x2 hlen [ICMP_ER]"
  define c where "c = take 2 (drop (hlen + 2) (buf_bytes x3))"
  define x4 where "x4 = written x3 (hlen + 2) (le16 (echo_chksum (un_le16 (c ! 0) (c ! 1))))"
  define x5 where "x5 = written x4 8 [ICMP_TTL]"
  define x6 where "x6 = written x5 10 [0, 0]"
  define z where "z = written x6 10 (le16 (inet_chksum chk (beg x6) (take hlen (buf_bytes x6))))"
  have pl: "plen x1 = plen x" "plen x2 = plen x" "plen x3 = plen x" "plen x4 = plen x" "plen x5 = plen x" "plen x6 = plen x" "plen z = plen x"
    and keep: "beg z = beg x" "pref z = pref x" "beg x6 = beg x"
    by (simp_all add: x1_def x2_def x3_def x4_def x5_def x6_def z_def)
  have w1: "payload_write a 12 (le32 src) (set_pbuf a x m) = Some (set_pbuf a x1 m) \<and> one_pooled (set_pbuf a x1 m) a x1 \<and> buf_bytes x1 = blit (buf_bytes x) 12 (le32 src)"
    unfolding x1_def by (rule write_one) (use assms in \<open>simp_all add: len same\<close>)
  have w2: "payload_write a 16 (le32 dest) (set_pbuf a x1 m) = Some (set_pbuf a x2 m) \<and> one_pooled (set_pbuf a x2 m) a x2 \<and> buf_bytes x2 = blit (buf_bytes x1) 16 (le32 dest)"
    unfolding x2_def by (rule write_one) (use assms w1 in \<open>simp_all add: len pl\<close>)
  have w3: "payload_write a hlen [ICMP_ER] (set_pbuf a x2 m) = Some (set_pbuf a x3 m) \<and> one_pooled (set_pbuf a x3 m) a x3 \<and> buf_bytes x3 = blit (buf_bytes x2) hlen [ICMP_ER]"
    unfolding x3_def by (rule write_one) (use assms w2 in \<open>simp_all add: len pl\<close>)
  have r3: "payload_read x3 (hlen + 2) 2 = Some c" unfolding c_def using read_one [of "set_pbuf a x3 m" a x3 "hlen + 2" 2] assms w3 by (simp add: pl)
  have w4: "payload_write a (hlen + 2) (le16 (echo_chksum (un_le16 (c ! 0) (c ! 1)))) (set_pbuf a x3 m) = Some (set_pbuf a x4 m) \<and> one_pooled (set_pbuf a x4 m) a x4
      \<and> buf_bytes x4 = blit (buf_bytes x3) (hlen + 2) (le16 (echo_chksum (un_le16 (c ! 0) (c ! 1))))"
    unfolding x4_def by (rule write_one) (use assms w3 in \<open>simp_all add: len pl\<close>)
  have w5: "payload_write a 8 [ICMP_TTL] (set_pbuf a x4 m) = Some (set_pbuf a x5 m) \<and> one_pooled (set_pbuf a x5 m) a x5 \<and> buf_bytes x5 = blit (buf_bytes x4) 8 [ICMP_TTL]"
    unfolding x5_def by (rule write_one) (use assms w4 in \<open>simp_all add: len pl\<close>)
  have w6: "payload_write a 10 [0, 0] (set_pbuf a x5 m) = Some (set_pbuf a x6 m) \<and> one_pooled (set_pbuf a x6 m) a x6 \<and> buf_bytes x6 = blit (buf_bytes x5) 10 [0, 0]"
    unfolding x6_def by (rule write_one) (use assms w5 in \<open>simp_all add: len pl\<close>)
  have r6: "payload_read x6 0 hlen = Some (take hlen (buf_bytes x6))" using read_one [of "set_pbuf a x6 m" a x6 0 hlen] assms w6 by (simp add: pl)
  have w7: "payload_write a 10 (le16 (inet_chksum chk (beg x6) (take hlen (buf_bytes x6)))) (set_pbuf a x6 m) = Some (set_pbuf a z m) \<and> one_pooled (set_pbuf a z m) a z
      \<and> buf_bytes z = blit (buf_bytes x6) 10 (le16 (inet_chksum chk (beg x6) (take hlen (buf_bytes x6))))"
    unfolding z_def by (rule write_one) (use assms w6 in \<open>simp_all add: len pl\<close>)
  have "echo_write chk a hlen src dest m = Some (set_pbuf a z m)"
    using w1 w2 w3 r3 w4 w5 w6 r6 w7 unfolding same by (simp add: echo_write_def)
  moreover have "length (buf_bytes x3) = unat (plen x)" using one_pooled_bytes w3 pl by metis
  then have "c ! 0 = buf_bytes x3 ! (hlen + 2)" "c ! 1 = buf_bytes x3 ! (hlen + 3)" using assms(3) by (simp_all add: c_def numeral_3_eq_3)
  then have "buf_bytes z = echo_packet chk (beg x) hlen src dest (buf_bytes x)"
    using w1 w2 w3 w4 w5 w6 w7 keep by (simp add: echo_packet_def Let_def)
  ultimately show ?thesis using w7 keep pl by blast
qed

lemma blit_middle: "length pre = off \<Longrightarrow> length old = length bs \<Longrightarrow> blit (pre @ old @ post) off bs = pre @ bs @ post"
  by (simp add: blit_def)

lemma echo_packet_parts:
  assumes "length A = 8" "length S = 4" "length D = 4" "hlen = 20 + length Opt"
  shows "echo_packet chk addr hlen src dest (A @ [t, pr, k0, k1] @ S @ D @ Opt @ [ty, code, c0, c1] @ R)
    = A @ [ICMP_TTL, pr] @ le16 (inet_chksum chk addr ((A @ [ICMP_TTL, pr]) @ [0, 0] @ le32 src @ le32 dest @ Opt)) @ le32 src @ le32 dest @ Opt
        @ [ICMP_ER, code] @ le16 (echo_chksum (un_le16 c0 c1)) @ R"
proof -
  have len: "length (le32 v) = 4" "length (le16 w) = 2" for v w by (simp_all add: le32_def le16_def)
  let ?H = "A @ [t, pr, k0, k1] @ le32 src @ le32 dest @ Opt" and ?G = "A @ [ICMP_TTL, pr, 0, 0] @ le32 src @ le32 dest @ Opt"
  let ?c = "le16 (echo_chksum (un_le16 c0 c1))"
  have b1: "blit (A @ [t, pr, k0, k1] @ S @ D @ Opt @ [ty, code, c0, c1] @ R) 12 (le32 src) = A @ [t, pr, k0, k1] @ le32 src @ D @ Opt @ [ty, code, c0, c1] @ R"
    using blit_middle [of "A @ [t, pr, k0, k1]" 12 S "le32 src"] assms by (simp add: len)
  have b2: "blit (A @ [t, pr, k0, k1] @ le32 src @ D @ Opt @ [ty, code, c0, c1] @ R) 16 (le32 dest) = ?H @ [ty, code, c0, c1] @ R"
    using blit_middle [of "A @ [t, pr, k0, k1] @ le32 src" 16 D "le32 dest"] assms by (simp add: len)
  have b3: "blit (?H @ [ty, code, c0, c1] @ R) hlen [ICMP_ER] = ?H @ [ICMP_ER, code, c0, c1] @ R"
    using blit_middle [of ?H hlen "[ty]" "[ICMP_ER]"] assms by (simp add: len)
  have c: "(?H @ [ICMP_ER, code, c0, c1] @ R) ! (hlen + 2) = c0" "(?H @ [ICMP_ER, code, c0, c1] @ R) ! (hlen + 3) = c1"
    using assms by (simp_all add: nth_append len nth_Cons')
  have b4: "blit (?H @ [ICMP_ER, code, c0, c1] @ R) (hlen + 2) ?c = ?H @ [ICMP_ER, code] @ ?c @ R"
    using blit_middle [of "?H @ [ICMP_ER, code]" "hlen + 2" "[c0, c1]" ?c] assms by (simp add: len)
  have b5: "blit (?H @ [ICMP_ER, code] @ ?c @ R) 8 [ICMP_TTL] = A @ [ICMP_TTL, pr, k0, k1] @ le32 src @ le32 dest @ Opt @ [ICMP_ER, code] @ ?c @ R"
    using blit_middle [of A 8 "[t]" "[ICMP_TTL]"] assms by (simp add: len)
  have b6: "blit (A @ [ICMP_TTL, pr, k0, k1] @ le32 src @ le32 dest @ Opt @ [ICMP_ER, code] @ ?c @ R) 10 [0, 0] = ?G @ [ICMP_ER, code] @ ?c @ R"
    using blit_middle [of "A @ [ICMP_TTL, pr]" 10 "[k0, k1]" "[0, 0]"] assms by (simp add: len)
  have "length ?G = hlen" using assms by (simp add: len)
  then have h: "take hlen (?G @ [ICMP_ER, code] @ ?c @ R) = ?G" by (metis append_eq_conv_conj)
  have b7: "blit (?G @ [ICMP_ER, code] @ ?c @ R) 10 (le16 w) = A @ [ICMP_TTL, pr] @ le16 w @ le32 src @ le32 dest @ Opt @ [ICMP_ER, code] @ ?c @ R" for w
    using blit_middle [of "A @ [ICMP_TTL, pr]" 10 "[0, 0]" "le16 w"] assms by (simp add: len)
  show ?thesis unfolding echo_packet_def Let_def b1 b2 b3 c b4 b5 b6 h b7 by simp
qed

text \<open>The packet with its parts.\<close>

lemma request_parts:
  assumes "ip_header_ok P hlen len proto src dest" "length P = len" "hlen + 8 \<le> len"
  obtains A t k0 k1 S D Opt ty code c0 c1 R where "P = A @ [t, proto, k0, k1] @ S @ D @ Opt @ [ty, code, c0, c1] @ R" "length A = 8" "length S = 4" "length D = 4"
    "hlen = 20 + length Opt"
proof -
  have h: "20 \<le> hlen" "proto = P ! 9" using assms(1) by (auto simp: ip_header_ok_def IP_HLEN_def)
  have four: "drop n P = P ! n # P ! (n + 1) # P ! (n + 2) # P ! (n + 3) # drop (n + 4) P" if "n + 4 \<le> length P" for n
    using that by (simp add: Cons_nth_drop_Suc numeral_eq_Suc)
  have "P = take 8 P @ drop 8 P" by simp
  also have "drop 8 P = [P ! 8, P ! 9, P ! 10, P ! 11] @ drop 12 P" using four [of 8] assms(2,3) h(1) by simp
  also have "drop 12 P = take 4 (drop 12 P) @ drop 16 P" using append_take_drop_id [of 4 "drop 12 P"] by simp
  also have "drop 16 P = take 4 (drop 16 P) @ drop 20 P" using append_take_drop_id [of 4 "drop 16 P"] by simp
  also have "drop 20 P = take (hlen - 20) (drop 20 P) @ drop hlen P" using append_take_drop_id [of "hlen - 20" "drop 20 P"] h(1) by simp
  also have "drop hlen P = [P ! hlen, P ! (hlen + 1), P ! (hlen + 2), P ! (hlen + 3)] @ drop (hlen + 4) P" using four [of hlen] assms(2,3) by simp
  finally have "P = take 8 P @ [P ! 8, proto, P ! 10, P ! 11] @ take 4 (drop 12 P) @ take 4 (drop 16 P) @ take (hlen - 20) (drop 20 P)
      @ [P ! hlen, P ! (hlen + 1), P ! (hlen + 2), P ! (hlen + 3)] @ drop (hlen + 4) P" using h(2) by simp
  then show thesis using that h(1) assms(2,3) by simp
qed

text \<open>What makes a reply of a request.\<close>

definition answers :: "nat \<Rightarrow> u8 list \<Rightarrow> u8 list \<Rightarrow> bool" where
  "answers hlen request reply \<longleftrightarrow> length reply = length request \<and> reply ! hlen = ICMP_ER \<and> reply ! (hlen + 1) = request ! (hlen + 1)
     \<and> drop (hlen + 4) reply = drop (hlen + 4) request \<and> standard_chksum1 (drop hlen reply) = 0xFFFF"

lemma echo_packet_ok:
  assumes "ip_header_ok P hlen len proto src dest" "length P = len" "hlen + 8 \<le> len" "P ! hlen = ICMP_ECHO" "standard_chksum1 (drop hlen P) = 0xFFFF"
    and "len < 65536" "Q = echo_packet thumb2_checksum addr hlen dest src P"
  shows "ip_header_ok Q hlen len proto dest src" "answers hlen P Q" "un_be16 (Q ! 6) (Q ! 7) = un_be16 (P ! 6) (P ! 7)"
proof -
  have l: "length (le32 v) = 4" "length (le16 w) = 2" for v w by (simp_all add: le32_def le16_def)
  obtain A t k0 k1 S D Opt ty code c0 c1 R where p: "P = A @ [t, proto, k0, k1] @ S @ D @ Opt @ [ty, code, c0, c1] @ R" "length A = 8" "length S = 4" "length D = 4"
      "hlen = 20 + length Opt"
    by (rule request_parts [OF assms(1-3)])
  obtain a0 a1 a2 a3 a4 a5 a6 a7 where A: "A = [a0, a1, a2, a3, a4, a5, a6, a7]" using p(2) by (auto simp: numeral_eq_Suc length_Suc_conv)
  let ?tail = "le32 dest @ le32 src @ Opt" and ?c = "le16 (echo_chksum (un_le16 c0 c1))"
  let ?w = "inet_chksum thumb2_checksum addr ((A @ [ICMP_TTL, proto]) @ [0, 0] @ ?tail)"
  let ?h = "(A @ [ICMP_TTL, proto]) @ le16 ?w @ ?tail"
  have Q: "Q = ?h @ [ICMP_ER, code] @ ?c @ R" unfolding assms(7) p(1) echo_packet_parts [OF p(2-5)] by simp
  have hl: "length ?h = hlen" using p by (simp add: l)
  have len: "len = hlen + 4 + length R" using p assms(2) by simp
  have th: "take hlen Q = ?h" "drop hlen Q = [ICMP_ER, code] @ ?c @ R" unfolding Q using hl by (metis append_eq_conv_conj)+
  have "even (length (A @ [ICMP_TTL, proto]))" "length ((A @ [ICMP_TTL, proto]) @ [0, 0] @ ?tail) < 65536" using p assms(6) len by (simp_all add: l)
  from stored_sum [OF this] have sum: "standard_chksum1 (take hlen Q) = 0xFFFF" unfolding th(1) .
  have "P = (A @ [t, proto, k0, k1] @ S @ D @ Opt) @ [ty, code, c0, c1] @ R" "length (A @ [t, proto, k0, k1] @ S @ D @ Opt) = hlen" using p by simp_all
  then have dp: "drop hlen P = [ty, code, c0, c1] @ R" by (metis append_eq_conv_conj)
  have "ty = ICMP_ECHO" using assms(4) p by (simp add: nth_append)
  then have msg: "standard_chksum1 (drop hlen Q) = 0xFFFF" unfolding th(2) using reply_message_sum [of code c0 c1 R] assms(5,6) dp len by simp
  have nths: "Q ! 0 = P ! 0" "Q ! 2 = P ! 2" "Q ! 3 = P ! 3" "Q ! 6 = P ! 6" "Q ! 7 = P ! 7" "Q ! 9 = proto" "[Q ! 12, Q ! 13, Q ! 14, Q ! 15] = le32 dest"
      "[Q ! 16, Q ! 17, Q ! 18, Q ! 19] = le32 src"
    unfolding Q p(1) A by (simp_all add: le16_def le32_def)
  show "un_be16 (Q ! 6) (Q ! 7) = un_be16 (P ! 6) (P ! 7)" using nths by simp
  have lq: "length Q = len" using hl len unfolding Q by (simp add: l)
  show "ip_header_ok Q hlen len proto dest src" using assms(1,2) nths sum lq by (simp add: ip_header_ok_def le32_def un_le32_le32)
  show "answers hlen P Q"
  proof -
    have "Q ! hlen = ICMP_ER" "Q ! (hlen + 1) = code" using nth_drop [of hlen Q 0] nth_drop [of hlen Q 1] lq len unfolding th(2) by simp_all
    moreover have "P ! (hlen + 1) = code" using p by (simp add: nth_append)
    moreover have "drop (hlen + 4) Q = R" "drop (hlen + 4) P = R" using th(2) dp drop_drop [of 4 hlen Q] drop_drop [of 4 hlen P] by (simp_all add: l add.commute)
    ultimately show ?thesis using lq assms(2) msg by (simp add: answers_def)
  qed
qed

subsection \<open>The way of the reply\<close>

lemma blocks_one: "one_pooled m a x \<Longrightarrow> pbuf_blocks (Some a) m = Some [(beg x, buf_bytes x)]"
  by (subst pbuf_blocks.simps)
    (simp add: one_pooled_def pbuf_at_def payload_read_def buf_bytes_def pbuf_blocks.simps [of None])

lemma sum_of_one:
  assumes "standard_chksum1 bs = 0xFFFF" "length bs < 65536"
  shows "inet_chksum_pbuf thumb2_checksum [(addr, bs)] = 0"
proof -
  obtain y where y: "y \<le> 65535" "unat (inet_chksum_pbuf thumb2_checksum [(addr, bs)]) = 65535 - y" "same_sum y (byte_sum bs)"
    using thumb2.inet_chksum_pbuf_sum [of "[(addr, bs)]"] assms(2) by auto
  have "same_sum 65535 (byte_sum bs)" using standard_chksum1_sum [of bs] assms by simp
  then have "y = 65535" using same_sum_unique [of y 65535] same_sum_trans [OF y(3) same_sum_sym] y(1) by simp
  then show ?thesis using y(2) by (simp add: unat_eq_zero)
qed

text \<open>The header in front of the message comes back with its bytes.\<close>

lemma header_front:
  assumes "one_pooled m a y" "n \<le> beg y" "0 < n" "n + unat (plen y) < 65536"
  shows "\<exists>x. pbuf_add_header (Some a) n m = Some (0, set_pbuf a x m) \<and> one_pooled (set_pbuf a x m) a x \<and> beg x = beg y - n \<and> pref x = pref y
    \<and> unat (plen x) = n + unat (plen y) \<and> buf_bytes x = take n (drop (beg y - n) (blk y)) @ buf_bytes y \<and> pbuf_remove_header (Some a) n (set_pbuf a x m) = Some (0, m)"
proof -
  note o = one_pooled_bytes [OF assms(1)]
  have y: "packet m (Some a) [a]" "store m a = Some y" "contiguous (ptype y)" "n + length (chain_bytes m [a]) < 65536" "ptot y = plen y" "nxt y = None" "ptype y = PBUF_POOL"
    using assms o by (simp_all add: one_pooled_def contiguous_def)
  let ?x = "y\<lparr>beg := beg y - n, plen := plen y + of_nat n, ptot := ptot y + of_nat n\<rparr>"
  obtain m' where m': "pbuf_add_header (Some a) n m = Some (0, m')" "packet m' (Some a) [a]" "chain_bytes m' [a] = take n (drop (beg y - n) (blk y)) @ chain_bytes m [a]"
      "m' = set_pbuf a ?x m" "pbuf_remove_header (Some a) n m' = Some (0, m)"
    using add_remove_header [OF y(1-3) assms(2,3) y(4)] by auto
  have "one_pooled m' a ?x" using m'(2,4) y(5-7) by (auto simp: one_pooled_def packet_def)
  moreover have "unat (plen ?x) = n + unat (plen y)"
    using one_pooled_bytes [OF \<open>one_pooled m' a ?x\<close>] m'(3) o assms(1,2) by (auto simp: one_pooled_def)
  moreover have "buf_bytes ?x = take n (drop (beg y - n) (blk y)) @ buf_bytes y" using m'(3,4) o by simp
  ultimately show ?thesis using m'(1,4,5) by (intro exI [of _ ?x]) simp
qed

lemma echo_reply_run:
  assumes "env_ok env dev_ok wire" "dev_ok d" "arp_reach env d l" "arrives [a] (mem l) m" "link s = l\<lparr>mem := m\<rparr>"
    and "one_pooled m a y" "pref y = 1" "hlen + 14 \<le> beg y" "P = take hlen (drop (beg y - hlen) (blk y)) @ buf_bytes y"
    and "ip_header_ok P hlen len proto src dest" "length P = len" "hlen + 8 \<le> len" "P ! hlen = ICMP_ECHO" "standard_chksum1 (drop hlen P) = 0xFFFF"
    and "len \<le> 1500" "mtu (ifs env n) = 0 \<or> len \<le> unat (mtu (ifs env n))"
    and "group_eth env n src = None" "\<not> no_route env n src" "resolved l (next_hop env n src) n eth"
  shows "\<exists>l1 r Q. echo_reply thumb2_checksum env n (Some a) hlen dest src s = Some (Some (Ip_err ERR_OK), s\<lparr>link := l1\<rparr>) \<and> arp_reach env d l1
    \<and> wire (dev l1) = wire (dev l) @ r @ [eth_hdr eth (hwaddr (ifs env n)) ETHTYPE_IP @ Q]
    \<and> set r \<subseteq> {request_frame env n (next_hop env n src) eth, request_frame env n (next_hop env n src) ethbroadcast}
    \<and> ip_header_ok Q hlen len proto dest src \<and> answers hlen P Q"
proof -
  have h20: "20 \<le> hlen" using assms(10) by (simp add: ip_header_ok_def IP_HLEN_def)
  have pl: "hlen + unat (plen y) = len" using assms(6,8,9,11) one_pooled_bytes [OF assms(6)] by (auto simp: one_pooled_def)
  obtain x where x: "pbuf_add_header (Some a) hlen m = Some (0, set_pbuf a x m)" "one_pooled (set_pbuf a x m) a x" "beg x = beg y - hlen" "pref x = pref y"
      "unat (plen x) = len" "buf_bytes x = P"
    using header_front [OF assms(6), of hlen] h20 assms(8,9,15) pl by auto
  have big: "hlen + 8 \<le> unat (plen x)" using x(5) assms(12) by simp
  obtain z where z: "echo_write thumb2_checksum a hlen dest src (set_pbuf a x m) = Some (set_pbuf a z m)" "one_pooled (set_pbuf a z m) a z" "beg z = beg x" "pref z = pref x"
      "plen z = plen x" "buf_bytes z = echo_packet thumb2_checksum (beg x) hlen dest src P"
    using echo_write_run [OF x(2) h20 big, of thumb2_checksum dest src] x(6) by auto
  let ?Q = "buf_bytes z" and ?m = "set_pbuf a z m"
  have small: "len < 65536" using assms(15) by simp
  note Q = echo_packet_ok [OF assms(10-14) small z(6)]
  note o = one_pooled_bytes [OF z(2)]
  have lq: "length ?Q = len" using o z(5) x(5) by simp
  have "outgoing ?m a [a]" using o z(4) x(4) assms(7,12,15) lq by (auto simp: outgoing_def sole_def filled_def)
  moreover have "linkable ?m a" using z(2,3) x(3) assms(8) by (simp add: linkable_def one_pooled_def contiguous_def SIZEOF_ETH_HDR_def)
  moreover have arr: "arrives [a] (mem l) ?m" using assms(4) by (auto simp: arrives_def)
  ultimately obtain l1 r where l1: "handed (\<lambda>s. etharp_output env n (Some a) src s) a (l\<lparr>mem := ?m\<rparr>) = Some (ERR_OK, l1)"
      "wire (dev l1) = wire (dev l) @ r @ [eth_hdr eth (hwaddr (ifs env n)) ETHTYPE_IP @ chain_bytes ?m [a]]"
      "set r \<subseteq> {request_frame env n (next_hop env n src) eth, request_frame env n (next_hop env n src) ethbroadcast}"
    using known_address_run [OF assms(1-3) _ _ _ assms(17-19)] by blast
  have reach: "arp_reach env d l1" using arp_reach.step [OF assms(3) arp_step.send [OF arr \<open>outgoing ?m a [a]\<close> l1(1)]] .
  obtain l0 where l0: "etharp_output env n (Some a) src (l\<lparr>mem := ?m\<rparr>) = Some (ERR_OK, l0)" "free_pbuf (Some a) l0 = Some l1"
    using l1(1) by (auto simp: handed_def bind_eq_Some_conv)
  have st: "store ?m a = Some z" "ptot z = plen z" using z(2) by (simp_all add: one_pooled_def)
  have "\<not> (mtu (ifs env n) \<noteq> 0 \<and> mtu (ifs env n) < ptot z)" using assms(16) st(2) z(5) x(5) by (auto simp: word_less_nat_alt)
  then have net: "ip4_to_netif env (Some a) src n (s\<lparr>link := l\<lparr>mem := ?m\<rparr>\<rparr>) = Some (Ip_err ERR_OK, s\<lparr>link := l0\<rparr>)"
    using st(1) l0(1) by (simp add: ip4_to_netif_def pbuf_at_def)
  have rd: "payload_read z 16 4 = Some (take 4 (drop 16 ?Q))" by (rule read_one [OF z(2)]) (use z(5) x(5) assms(12) h20 in simp)
  have "un_le32 (?Q ! 16) (?Q ! 17) (?Q ! 18) (?Q ! 19) = src" using Q(1) by (simp add: ip_header_ok_def)
  then have "ip4_output_if env (Some a) dest None ICMP_TTL 0 IP_PROTO_ICMP n (s\<lparr>link := l\<lparr>mem := ?m\<rparr>\<rparr>) = Some (Ip_err ERR_OK, s\<lparr>link := l0\<rparr>)"
    using net rd st(1) z(5) x(5) assms(12) h20 lq by (simp add: ip4_output_if_def ip4_output_if_src_def pbuf_at_def IP_HLEN_def Let_def)
  then have "echo_reply thumb2_checksum env n (Some a) hlen dest src s = Some (Some (Ip_err ERR_OK), s\<lparr>link := l1\<rparr>)"
    using x(1) z(1) l0(2) assms(5) by (simp add: echo_reply_def pbuf_at_def icmp_done_def)
  then show ?thesis using reach l1(2,3) Q(1,2) o by auto
qed

lemma icmp_input_echo:
  assumes "one_pooled (mem (link s)) a y" "hlen + 14 \<le> beg y" "20 \<le> hlen" "8 \<le> unat (plen y)" "hlen + 14 + unat (plen y) < 65536"
    and "buf_bytes y ! 0 = ICMP_ECHO" "standard_chksum1 (buf_bytes y) = 0xFFFF" "\<not> ip4_addr_ismulticast dest" "\<not> isbroadcast dest (ifs env k)"
  shows "icmp_input thumb2_checksum env n k (Some a) hlen src dest s = echo_reply thumb2_checksum env n (Some a) hlen dest src s"
proof -
  have y: "pbuf_at (Some a) (mem (link s)) = Some (a, y)" "ptot y = plen y" using assms(1) by (simp_all add: one_pooled_def pbuf_at_def)
  have len: "length (buf_bytes y) = unat (plen y)" using one_pooled_bytes [OF assms(1)] by simp
  have t: "payload_read y 0 1 = Some (take 1 (buf_bytes y))" using read_one [OF assms(1), of 0 1] assms(4) by simp
  have t0: "take 1 (buf_bytes y) ! 0 = ICMP_ECHO" using assms(6) by simp
  have "length (buf_bytes y) < 65536" using len assms(5) by simp
  from sum_of_one [OF assms(7) this] have c: "inet_chksum_pbuf thumb2_checksum [(beg y, buf_bytes y)] = 0" .
  have room: "echo_room env (Some a) hlen (mem (link s)) = Some (Some a, mem (link s))"
    using header_front [OF assms(1), of "hlen + 14"] assms(2,5) by (auto simp: echo_room_def SIZEOF_ETH_HDR_def)
  have same: "s\<lparr>link := (link s)\<lparr>mem := mem (link s)\<rparr>\<rparr> = s" by simp
  show ?thesis using y t t0 c room same blocks_one [OF assms(1)] assms(3,4,8,9)
    by (simp add: icmp_input_def Let_def IP_HLEN_def SIZEOF_ICMP_ECHO_HDR_def)
qed

text \<open>C10: A ping is answered: an echo request with right checksums, for an address of the board and from a host whose hardware address is known,
  makes one frame go out to that host, after at most one ARP request; its IPv4 header and its message have right checksums, source and
  destination are swapped, and identifier, sequence number and data are those of the request. The packet's buffer is released.\<close>

theorem ping_answered:
  assumes "env_ok env dev_ok wire" "dev_ok d" "arp_reach env d (link st)" "arrives [a] (mem (link st)) m"
    and "one_pooled m a x" "pref x = 1" "78 \<le> length (memory_at x)" "14 < unat (plen x)" "flag_etharp (ifs env n)" "frame_type x = ETHTYPE_IP"
    and "bs = drop 14 (buf_bytes x)" "ip_header_ok bs hlen len IP_PROTO_ICMP src dest" "un_be16 (bs ! 6) (bs ! 7) AND IP_FRAGMENT = 0"
    and "ip4_netif_for env rt n dest = Some k" "\<not> ip4_addr_ismulticast dest" "\<not> isbroadcast dest (ifs env k)"
    and "hlen + 8 \<le> len" "bs ! hlen = ICMP_ECHO" "standard_chksum1 (drop hlen (take len bs)) = 0xFFFF"
    and "len \<le> 1500" "mtu (ifs env n) = 0 \<or> len \<le> unat (mtu (ifs env n))"
    and "group_eth env n src = None" "\<not> no_route env n src" "resolved (link st) (next_hop env n src) n eth"
  shows "\<exists>st1 r Q. ethernet_round thumb2_checksum env rt n (Some a) (st\<lparr>link := (link st)\<lparr>mem := m\<rparr>\<rparr>) = Some (None, Some (Ip_err ERR_OK), st1)
    \<and> arp_reach env d (link st1)
    \<and> wire (dev (link st1)) = wire (dev (link st)) @ r @ [eth_hdr eth (hwaddr (ifs env n)) ETHTYPE_IP @ Q]
    \<and> set r \<subseteq> {request_frame env n (next_hop env n src) eth, request_frame env n (next_hop env n src) ethbroadcast}
    \<and> ip_header_ok Q hlen len IP_PROTO_ICMP dest src \<and> answers hlen (take len bs) Q"
proof -
  let ?s = "st\<lparr>link := (link st)\<lparr>mem := m\<rparr>\<rparr>" and ?w = "without_eth x"
  have x: "one_pooled (mem (link ?s)) a x" using assms(5) by simp
  have l14: "14 \<le> unat (plen x)" using assms(8) by simp
  note w = without_eth [OF assms(5) l14]
  have bs: "buf_bytes ?w = bs" using w(3) assms(11) by simp
  obtain v m' where v: "ethernet_input thumb2_checksum env rt n (Some a) (link ?s) = Some (Some v, (link ?s)\<lparr>mem := m'\<rparr>)" "ip_outcome env rt n a ?w m v m'"
    using ethernet_ip_run [OF x assms(6-10), of rt] by auto
  have grp: "\<not> isbroadcast src (ifs env n)" "\<not> ip4_addr_ismulticast src" using assms(22) by (auto simp: group_eth_def split: if_splits)
  have h: "ip_header_ok (buf_bytes ?w) hlen len IP_PROTO_ICMP src dest" "un_be16 (buf_bytes ?w ! 6) (buf_bytes ?w ! 7) AND IP_FRAGMENT = 0"
    using assms(12,13) bs by simp_all
  have icmp: "IP_PROTO_ICMP \<in> {IP_PROTO_UDP, IP_PROTO_TCP, IP_PROTO_ICMP}" by simp
  obtain y where y: "v = Ip_deliver IP_PROTO_ICMP a hlen k src dest" "one_pooled m' a y" "blk y = blk ?w" "beg y = beg ?w + hlen" "pref y = pref ?w"
      "buf_bytes y = drop hlen (take len bs)"
    using delivered [OF v(2) h(1) assms(14) grp icmp h(2)] unfolding bs by blast
  have h20: "20 \<le> hlen" "hlen \<le> len" "len \<le> length bs" using assms(12) by (auto simp: ip_header_ok_def IP_HLEN_def)
  have bg: "14 + hlen \<le> beg y" using y(4) by (simp add: without_eth_def)
  have P: "take len bs = take hlen (drop (beg y - hlen) (blk y)) @ buf_bytes y"
  proof -
    have "take hlen (drop (beg y - hlen) (blk y)) = take hlen (buf_bytes ?w)"
    proof -
      have "hlen \<le> unat (plen ?w)" using h20 bs one_pooled_bytes [OF w(2)] by simp
      then show ?thesis using y(3,4) by (simp add: buf_bytes_def min_absorb1)
    qed
    then show ?thesis using h20 bs y(6) append_take_drop_id [of hlen "take len bs"] by (simp add: min_def)
  qed
  have arr: "arrives [a] (mem (link st)) m'"
  proof -
    have "if b \<in> set [a] then store (mem (link st)) b = None \<and> store m' b \<noteq> None else store m' b = store (mem (link st)) b" for b
      using assms(4) [unfolded arrives_def, rule_format, of b] v(2) y(2) by (auto simp: ip_outcome_def one_pooled_def)
    then show ?thesis unfolding arrives_def by blast
  qed
  have pl: "unat (plen y) = len - hlen" using one_pooled_bytes [OF y(2)] y(6) h20 by simp
  let ?s2 = "st\<lparr>link := (link st)\<lparr>mem := m'\<rparr>\<rparr>"
  have hok: "ip_header_ok (take len bs) hlen len IP_PROTO_ICMP src dest" using header_prefix [OF h20(3)] assms(12) by simp
  have lp: "length (take len bs) = len" using h20(3) by simp
  have echo: "take len bs ! hlen = ICMP_ECHO" using assms(17,18) h20 by simp
  have pr: "pref y = 1" and ho: "hlen + 14 \<le> beg y" and ls: "link ?s2 = (link st)\<lparr>mem := m'\<rparr>" using y(5) w(4) assms(6) bg by simp_all
  obtain l1 r Q where r: "echo_reply thumb2_checksum env n (Some a) hlen dest src ?s2 = Some (Some (Ip_err ERR_OK), ?s2\<lparr>link := l1\<rparr>)" "arp_reach env d l1"
      "wire (dev l1) = wire (dev (link st)) @ r @ [eth_hdr eth (hwaddr (ifs env n)) ETHTYPE_IP @ Q]"
      "set r \<subseteq> {request_frame env n (next_hop env n src) eth, request_frame env n (next_hop env n src) ethbroadcast}"
      "ip_header_ok Q hlen len IP_PROTO_ICMP dest src" "answers hlen (take len bs) Q"
    using echo_reply_run [OF assms(1-3) arr ls y(2) pr ho P hok lp assms(17) echo assms(19-24)] by blast
  have "icmp_input thumb2_checksum env n k (Some a) hlen src dest ?s2 = echo_reply thumb2_checksum env n (Some a) hlen dest src ?s2"
  proof (rule icmp_input_echo)
    show "one_pooled (mem (link ?s2)) a y" using y(2) by simp
    show "buf_bytes y ! 0 = ICMP_ECHO" using echo y(6) assms(17) lp by simp
    show "standard_chksum1 (buf_bytes y) = 0xFFFF" using assms(19) y(6) by simp
    show "8 \<le> unat (plen y)" "hlen + 14 + unat (plen y) < 65536" using pl assms(17,20) by simp_all
  qed (use ho h20 assms(15,16) in auto)
  then have "ethernet_round thumb2_checksum env rt n (Some a) ?s = Some (None, Some (Ip_err ERR_OK), ?s2\<lparr>link := l1\<rparr>)"
    using v(1) y(1) r(1) by (simp add: ethernet_round_def icmp_upcall_def)
  then show ?thesis using r(2-6) by auto
qed

text \<open>An echo request from the host.\<close>

definition ping_message :: "u8 list" where
  "ping_message = [ICMP_ECHO, 0] @ le16 (inet_chksum thumb2_checksum 0 ([ICMP_ECHO, 0] @ [0, 0] @ [0, 7, 0, 1, 42, 43])) @ [0, 7, 0, 1, 42, 43]"

definition ping_frame :: "u8 list" where
  "ping_frame = eth_hdr (hwaddr our_if) host_hw ETHTYPE_IP @ ip_datagram 0 5 64 IP_PROTO_ICMP host 0x0A0A0A0A ping_message"

lemma ping_facts:
  "length ping_message = 10" "ping_message ! 0 = ICMP_ECHO" "drop 4 ping_message = [0, 7, 0, 1, 42, 43]" "standard_chksum1 ping_message = 0xFFFF"
proof -
  show "length ping_message = 10" "ping_message ! 0 = ICMP_ECHO" "drop 4 ping_message = [0, 7, 0, 1, 42, 43]" by (simp_all add: ping_message_def le16_def)
  show "standard_chksum1 ping_message = 0xFFFF" unfolding ping_message_def by (rule stored_sum) simp_all
qed

lemma lan_ping:
  "flag_etharp (ifs lan 0)" "ip4_netif_for lan \<lparr>netif_list = [0], netif_default = Some 0\<rparr> 0 0x0A0A0A0A = Some 0"
  "\<not> ip4_addr_ismulticast 0x0A0A0A0A" "\<not> isbroadcast 0x0A0A0A0A (ifs lan 0)" "mtu (ifs lan 0) = 0 \<or> 30 \<le> unat (mtu (ifs lan 0))"
  by (simp_all add: lan_def our_if_def ip4_netif_for_def ip4_input_accept_def ip4_addr_isbroadcast_def ip4_addr_ismulticast_def IPADDR_BROADCAST_def
      netif.defs Let_def)

theorem ping_answered_witness:
  "\<exists>s a m st1 r Q. arp_reach lan [] s
    \<and> ethernet_round thumb2_checksum lan \<lparr>netif_list = [0], netif_default = Some 0\<rparr> 0 (Some a) \<lparr>link = s\<lparr>mem := m\<rparr>, ip_id = 0\<rparr>
      = Some (None, Some (Ip_err ERR_OK), st1)
    \<and> dev (link st1) = dev s @ r @ [[2, 0, 0, 0, 0, 9] @ [0, 8, 220, 0, 0, 1] @ [8, 0] @ Q]
    \<and> Q ! 20 = 0 \<and> drop 24 Q = [0, 7, 0, 1, 42, 43]"
proof -
  obtain s where s: "arp_reach lan [] s" "resolved s host 0 host_hw" using lan_known by blast
  obtain a where a: "store (mem s) a = None" by (rule reach_fresh [OF s(1)])
  let ?m = "set_pbuf a (frame_buf ping_frame) (mem s)" and ?st = "\<lparr>link = s, ip_id = 0\<rparr>" and ?rt = "\<lparr>netif_list = [0], netif_default = Some 0\<rparr> :: interfaces"
  let ?x = "frame_buf ping_frame" and ?bs = "ip_datagram 0 5 64 IP_PROTO_ICMP host 0x0A0A0A0A ping_message"
  have fl: "length ping_frame = 44" by (simp add: ping_frame_def ip_datagram_def Let_def IP_HLEN_def SIZEOF_ETH_HDR_def ping_facts our_if_def host_hw_def)
  then have "length ping_frame < 65536" by simp
  note f = frame_buf_ok [OF this]
  have hw: "length (hwaddr our_if) = 6" "length host_hw = 6" by (simp_all add: our_if_def host_hw_def)
  have b: "buf_bytes ?x = eth_hdr (hwaddr our_if) host_hw ETHTYPE_IP @ ?bs" using f(4) by (simp add: ping_frame_def)
  note ff = frame_fields [OF f(1) b hw]
  have long: "14 < unat (plen ?x)" using fl by (simp add: frame_buf_def)
  have h: "?bs = ip_hdr 0 (of_nat (20 + length ping_message)) 5 64 IP_PROTO_ICMP
      (ip_hdr_chksum 0 (of_nat (20 + length ping_message)) 5 64 IP_PROTO_ICMP host 0x0A0A0A0A) host 0x0A0A0A0A @ ping_message @ []"
    by (simp add: ip_datagram_def Let_def)
  have hdr: "ip_header_ok ?bs 20 30 IP_PROTO_ICMP host 0x0A0A0A0A" "un_be16 (?bs ! 6) (?bs ! 7) AND IP_FRAGMENT = 0"
    using our_header [OF h] ping_facts(1) by simp_all
  have bl: "length ?bs = 30" and dr: "drop 20 ?bs = ping_message" by (simp_all add: ip_datagram_def Let_def IP_HLEN_def ping_facts(1))
  have msg: "20 + 8 \<le> (30 :: nat)" "?bs ! 20 = ICMP_ECHO" "standard_chksum1 (drop 20 (take 30 ?bs)) = 0xFFFF" "(30 :: nat) \<le> 1500"
    using ping_facts(2,4) dr bl nth_drop [of 20 ?bs 0] by simp_all
  have arr: "arrives [a] (mem (link ?st)) ?m" using arrives_one [OF a] by simp
  have r: "arp_reach lan [] (link ?st)" "resolved (link ?st) (next_hop lan 0 host) 0 host_hw" using s host_is_local(2) by simp_all
  obtain st1 q Q where o: "ethernet_round thumb2_checksum lan ?rt 0 (Some a) (?st\<lparr>link := (link ?st)\<lparr>mem := ?m\<rparr>\<rparr>) = Some (None, Some (Ip_err ERR_OK), st1)"
      "dev (link st1) = dev (link ?st) @ q @ [eth_hdr host_hw (hwaddr (ifs lan 0)) ETHTYPE_IP @ Q]" "answers 20 (take 30 ?bs) Q"
    using ping_answered [OF lan_ok TrueI r(1) arr f(1-3) long lan_ping(1) ff(1) ff(2) [symmetric] hdr lan_ping(2-4) msg lan_ping(5) host_is_local(1,4) r(2)]
    unfolding id_apply by blast
  have "drop 24 ?bs = [0, 7, 0, 1, 42, 43]" using drop_drop [of 4 20 ?bs] dr ping_facts(3) by simp
  then have "Q ! 20 = 0" "drop 24 Q = [0, 7, 0, 1, 42, 43]" using o(3) bl by (simp_all add: answers_def ICMP_ER_def)
  then show ?thesis using s(1) o(1,2) host_is_local(6)
    by (intro exI [of _ s] exI [of _ a] exI [of _ ?m] exI [of _ st1] exI [of _ q] exI [of _ Q]) (simp add: eth_hdr_def be16_def ETHTYPE_IP_def host_hw_def)
qed

end
