(* ===== verification/Netif.thy ===== *)
theory Netif
  imports Ip4
begin

unbundle bit_operations_syntax

text \<open>
  The interfaces of the stack (\<open>lwip/src/core/netif.c\<close>, as configured: no loopback interface, no IGMP, no extended callbacks), the driver's part
  of one (\<open>netif_initialize\<close> and the two callbacks of \<open>Src/w5x00_lwip.c\<close>) and what \<open>EthernetInit\<close> of \<open>Src/remora.cpp\<close> does with
  them. A \<open>struct netif\<close> is known by its number, as in \<open>Etharp\<close>; the number that the code gives it is one less than \<open>netif_index\<close>. There are
  no TCP or raw control blocks that a change of address would concern, and no DHCP client. \<open>None\<close> is undefined behaviour or a loop
  without end.
\<close>

definition NETIF_REPORT_TYPE_IPV4 :: u8 where "NETIF_REPORT_TYPE_IPV4 = 1"
definition NETIF_REPORT_TYPE_IPV6 :: u8 where "NETIF_REPORT_TYPE_IPV6 = 2"

text \<open>The callbacks of the firmware print a line: the state of the link, the address.\<close>

datatype netif_callback = Netif_link_callback | Netif_status_callback
datatype printed_line = Link_status bool | Netif_status u32

fun run_callback :: "netif_callback \<Rightarrow> eth_netif \<Rightarrow> printed_line" where
  "run_callback Netif_link_callback ni = Link_status (link_up ni)"
| "run_callback Netif_status_callback ni = Netif_status (ip_addr ni)"

record ('d, 'f) netifs =
  conf :: "nat \<Rightarrow> eth_netif"
  flag_ethernet :: "nat \<Rightarrow> bool"
  status_callback :: "nat \<Rightarrow> netif_callback option"
  link_callback :: "nat \<Rightarrow> netif_callback option"
  routes :: interfaces
  netif_num :: u8
  arp :: "'d link_state"
  pcbs :: "'f udp"
  printed :: "printed_line list"

text \<open>The environment of the layers below with the interfaces as they are.\<close>

definition env_of :: "'d link_env \<Rightarrow> ('d, 'f) netifs \<Rightarrow> 'd link_env" where "env_of env st = env\<lparr>ifs := conf st\<rparr>"

definition upd_netif :: "nat \<Rightarrow> (eth_netif \<Rightarrow> eth_netif) \<Rightarrow> ('d, 'f) netifs \<Rightarrow> ('d, 'f) netifs" where
  "upd_netif n f st = st\<lparr>conf := (conf st)(n := f (conf st n))\<rparr>"

definition call_back :: "netif_callback option \<Rightarrow> nat \<Rightarrow> ('d, 'f) netifs \<Rightarrow> ('d, 'f) netifs" where
  "call_back c n st = (case c of None \<Rightarrow> st | Some f \<Rightarrow> st\<lparr>printed := printed st @ [run_callback f (conf st n)]\<rparr>)"

definition NETIF_STATUS_CALLBACK :: "nat \<Rightarrow> ('d, 'f) netifs \<Rightarrow> ('d, 'f) netifs" where
  "NETIF_STATUS_CALLBACK n st = call_back (status_callback st n) n st"

definition NETIF_LINK_CALLBACK :: "nat \<Rightarrow> ('d, 'f) netifs \<Rightarrow> ('d, 'f) netifs" where
  "NETIF_LINK_CALLBACK n st = call_back (link_callback st n) n st"

definition netif_input ::
  "chksum \<Rightarrow> 'd link_env \<Rightarrow> nat option \<Rightarrow> nat \<Rightarrow> ('d, 'f) netifs \<Rightarrow> (ip_verdict option \<times> 'd link_state) option" where
  "netif_input chk env p n st =
     (if flag_etharp (conf st n) \<or> flag_ethernet st n then ethernet_input chk (env_of env st) (routes st) n p (arp st)
      else map_option (\<lambda>(v, m). (Some v, (arp st)\<lparr>mem := m\<rparr>)) (ip4_input chk (env_of env st) (routes st) n p (mem (arp st))))"

subsection \<open>Addresses\<close>

text \<open>A gratuitous ARP request when the interface and its link are up.\<close>

definition netif_issue_reports :: "'d link_env \<Rightarrow> nat \<Rightarrow> u8 \<Rightarrow> ('d, 'f) netifs \<Rightarrow> ('d, 'f) netifs option" where
  "netif_issue_reports env n report_type st =
     (let ni = conf st n in
      if \<not> link_up ni \<or> \<not> up ni then Some st
      else if report_type AND NETIF_REPORT_TYPE_IPV4 \<noteq> 0 \<and> ip_addr ni \<noteq> 0 \<and> flag_etharp ni
      then map_option (\<lambda>(_, l). st\<lparr>arp := l\<rparr>) (etharp_request (env_of env st) n (ip_addr ni) (arp st))
      else Some st)"

definition netif_do_ip_addr_changed :: "u32 \<Rightarrow> u32 \<Rightarrow> ('d, 'f) netifs \<Rightarrow> ('d, 'f) netifs" where
  "netif_do_ip_addr_changed old new st = st\<lparr>pcbs := udp_netif_ip_addr_changed old new (pcbs st)\<rparr>"

definition netif_do_set_ipaddr :: "'d link_env \<Rightarrow> nat \<Rightarrow> u32 \<Rightarrow> ('d, 'f) netifs \<Rightarrow> (bool \<times> ('d, 'f) netifs) option" where
  "netif_do_set_ipaddr env n a st =
     (if a \<noteq> ip_addr (conf st n) then
        do { let st1 = netif_do_ip_addr_changed (ip_addr (conf st n)) a st;
             st2 \<leftarrow> netif_issue_reports env n NETIF_REPORT_TYPE_IPV4 (upd_netif n (ip_addr_update (\<lambda>_. a)) st1);
             Some (True, NETIF_STATUS_CALLBACK n st2) }
      else Some (False, st))"

definition netif_do_set_netmask :: "nat \<Rightarrow> u32 \<Rightarrow> ('d, 'f) netifs \<Rightarrow> bool \<times> ('d, 'f) netifs" where
  "netif_do_set_netmask n nm st =
     (if nm \<noteq> netmask (conf st n) then (True, upd_netif n (netmask_update (\<lambda>_. nm)) st) else (False, st))"

definition netif_do_set_gw :: "nat \<Rightarrow> u32 \<Rightarrow> ('d, 'f) netifs \<Rightarrow> bool \<times> ('d, 'f) netifs" where
  "netif_do_set_gw n g st = (if g \<noteq> gw (conf st n) then (True, upd_netif n (gw_update (\<lambda>_. g)) st) else (False, st))"

text \<open>A null pointer stands for the address 0, and a null interface is refused.\<close>

definition or_any :: "u32 option \<Rightarrow> u32" where "or_any a = (case a of None \<Rightarrow> 0 | Some x \<Rightarrow> x)"

definition netif_set_ipaddr :: "'d link_env \<Rightarrow> nat option \<Rightarrow> u32 option \<Rightarrow> ('d, 'f) netifs \<Rightarrow> ('d, 'f) netifs option" where
  "netif_set_ipaddr env p a st = (case p of None \<Rightarrow> Some st | Some n \<Rightarrow> map_option snd (netif_do_set_ipaddr env n (or_any a) st))"

definition netif_set_netmask :: "nat option \<Rightarrow> u32 option \<Rightarrow> ('d, 'f) netifs \<Rightarrow> ('d, 'f) netifs" where
  "netif_set_netmask p a st = (case p of None \<Rightarrow> st | Some n \<Rightarrow> snd (netif_do_set_netmask n (or_any a) st))"

definition netif_set_gw :: "nat option \<Rightarrow> u32 option \<Rightarrow> ('d, 'f) netifs \<Rightarrow> ('d, 'f) netifs" where
  "netif_set_gw p a st = (case p of None \<Rightarrow> st | Some n \<Rightarrow> snd (netif_do_set_gw n (or_any a) st))"

text \<open>An address that is removed goes first, one that is set comes last.\<close>

definition netif_set_addr ::
  "'d link_env \<Rightarrow> nat \<Rightarrow> u32 option \<Rightarrow> u32 option \<Rightarrow> u32 option \<Rightarrow> ('d, 'f) netifs \<Rightarrow> ('d, 'f) netifs option" where
  "netif_set_addr env n a nm g st =
     do { let ip = or_any a;
          let remove = (ip = 0);
          st1 \<leftarrow> (if remove then map_option snd (netif_do_set_ipaddr env n ip st) else Some st);
          let st2 = snd (netif_do_set_netmask n (or_any nm) st1);
          let st3 = snd (netif_do_set_gw n (or_any g) st2);
          (if \<not> remove then map_option snd (netif_do_set_ipaddr env n ip st3) else Some st3) }"

subsection \<open>Adding an interface\<close>

definition netif_no :: "eth_netif \<Rightarrow> u8" where "netif_no ni = netif_index ni - 1"

definition set_no :: "nat \<Rightarrow> u8 \<Rightarrow> (nat \<Rightarrow> eth_netif) \<Rightarrow> nat \<Rightarrow> eth_netif" where
  "set_no n k cf = cf(n := (cf n)\<lparr>netif_index := k + 1\<rparr>)"

text \<open>The search for a number that no interface of the list has.\<close>

partial_function (option) netif_pick_no :: "nat list \<Rightarrow> nat \<Rightarrow> (nat \<Rightarrow> eth_netif) \<Rightarrow> (nat \<Rightarrow> eth_netif) option" where
  "netif_pick_no l n cf =
     (let cf1 = (if netif_no (cf n) = 255 then set_no n 0 cf else cf) in
      if list_ex (\<lambda>j. netif_no (cf1 j) = netif_no (cf1 n)) l then netif_pick_no l n (set_no n (netif_no (cf1 n) + 1) cf1)
      else Some cf1)"

definition netif_reset :: "nat \<Rightarrow> ('d, 'f) netifs \<Rightarrow> ('d, 'f) netifs" where
  "netif_reset n st =
     (upd_netif n (\<lambda>ni. ni\<lparr>ip_addr := 0, netmask := 0, gw := 0, mtu := 0, broadcast_flag := False, flag_etharp := False, up := False,
        link_up := False, netif_index := netif_num st + 1\<rparr>) st)
     \<lparr>flag_ethernet := (flag_ethernet st)(n := False), status_callback := (status_callback st)(n := None),
      link_callback := (link_callback st)(n := None)\<rparr>"

text \<open>The interface is \<open>None\<close> in the result when the function returns \<open>NULL\<close>.\<close>

type_synonym ('d, 'f) netif_init_fn = "nat \<Rightarrow> ('d, 'f) netifs \<Rightarrow> err \<times> ('d, 'f) netifs"

definition netif_add ::
  "'d link_env \<Rightarrow> nat option \<Rightarrow> u32 option \<Rightarrow> u32 option \<Rightarrow> u32 option \<Rightarrow> ('d, 'f) netif_init_fn option \<Rightarrow> ('d, 'f) netifs
    \<Rightarrow> (nat option \<times> ('d, 'f) netifs) option" where
  "netif_add env p a nm g init st =
     (case (p, init) of
        (Some n, Some f) \<Rightarrow>
          do { st1 \<leftarrow> netif_set_addr env n a nm g (netif_reset n st);
               let (e, st2) = f n st1;
               (if e \<noteq> ERR_OK then Some (None, st2)
                else
                  do { cf \<leftarrow> netif_pick_no (netif_list (routes st2)) n (conf st2);
                       Some (Some n, st2\<lparr>conf := cf, netif_num := (if netif_no (cf n) = 254 then 0 else netif_no (cf n) + 1),
                         routes := (routes st2)\<lparr>netif_list := n # netif_list (routes st2)\<rparr>\<rparr>) }) }
      | _ \<Rightarrow> Some (None, st))"

definition netif_add_noaddr ::
  "'d link_env \<Rightarrow> nat option \<Rightarrow> ('d, 'f) netif_init_fn option \<Rightarrow> ('d, 'f) netifs \<Rightarrow> (nat option \<times> ('d, 'f) netifs) option" where
  "netif_add_noaddr env p init st = netif_add env p None None None init st"

subsection \<open>Up and down\<close>

definition netif_set_default :: "nat option \<Rightarrow> ('d, 'f) netifs \<Rightarrow> ('d, 'f) netifs" where
  "netif_set_default p st = st\<lparr>routes := (routes st)\<lparr>netif_default := p\<rparr>\<rparr>"

definition netif_set_up :: "'d link_env \<Rightarrow> nat option \<Rightarrow> ('d, 'f) netifs \<Rightarrow> ('d, 'f) netifs option" where
  "netif_set_up env p st =
     (case p of None \<Rightarrow> Some st
      | Some n \<Rightarrow>
          if \<not> up (conf st n)
          then netif_issue_reports env n (NETIF_REPORT_TYPE_IPV4 OR NETIF_REPORT_TYPE_IPV6)
                 (NETIF_STATUS_CALLBACK n (upd_netif n (up_update (\<lambda>_. True)) st))
          else Some st)"

definition netif_set_down :: "nat option \<Rightarrow> ('d, 'f) netifs \<Rightarrow> ('d, 'f) netifs option" where
  "netif_set_down p st =
     (case p of None \<Rightarrow> Some st
      | Some n \<Rightarrow>
          if up (conf st n) then
            do { let st1 = upd_netif n (up_update (\<lambda>_. False)) st;
                 l \<leftarrow> (if flag_etharp (conf st1 n) then etharp_cleanup_netif n (arp st1) else Some (arp st1));
                 Some (NETIF_STATUS_CALLBACK n (st1\<lparr>arp := l\<rparr>)) }
          else Some st)"

definition netif_set_status_callback :: "nat option \<Rightarrow> netif_callback option \<Rightarrow> ('d, 'f) netifs \<Rightarrow> ('d, 'f) netifs" where
  "netif_set_status_callback p c st = (case p of None \<Rightarrow> st | Some n \<Rightarrow> st\<lparr>status_callback := (status_callback st)(n := c)\<rparr>)"

definition netif_set_link_callback :: "nat option \<Rightarrow> netif_callback option \<Rightarrow> ('d, 'f) netifs \<Rightarrow> ('d, 'f) netifs" where
  "netif_set_link_callback p c st = (case p of None \<Rightarrow> st | Some n \<Rightarrow> st\<lparr>link_callback := (link_callback st)(n := c)\<rparr>)"

definition netif_set_link_up :: "'d link_env \<Rightarrow> nat option \<Rightarrow> ('d, 'f) netifs \<Rightarrow> ('d, 'f) netifs option" where
  "netif_set_link_up env p st =
     (case p of None \<Rightarrow> Some st
      | Some n \<Rightarrow>
          if \<not> link_up (conf st n)
          then map_option (NETIF_LINK_CALLBACK n)
                 (netif_issue_reports env n (NETIF_REPORT_TYPE_IPV4 OR NETIF_REPORT_TYPE_IPV6) (upd_netif n (link_up_update (\<lambda>_. True)) st))
          else Some st)"

definition netif_set_link_down :: "nat option \<Rightarrow> ('d, 'f) netifs \<Rightarrow> ('d, 'f) netifs" where
  "netif_set_link_down p st =
     (case p of None \<Rightarrow> st
      | Some n \<Rightarrow> if link_up (conf st n) then NETIF_LINK_CALLBACK n (upd_netif n (link_up_update (\<lambda>_. False)) st) else st)"

text \<open>An interface that is not in the list loses its address and goes down all the same.\<close>

definition netif_remove :: "nat option \<Rightarrow> ('d, 'f) netifs \<Rightarrow> ('d, 'f) netifs option" where
  "netif_remove p st =
     (case p of None \<Rightarrow> Some st
      | Some n \<Rightarrow>
          do { let st1 = (if ip_addr (conf st n) \<noteq> 0 then netif_do_ip_addr_changed (ip_addr (conf st n)) 0 st else st);
               st2 \<leftarrow> (if up (conf st1 n) then netif_set_down p st1 else Some st1);
               let st3 = (if netif_default (routes st2) = p then netif_set_default None st2 else st2);
               Some (st3\<lparr>routes := (routes st3)\<lparr>netif_list := remove1 n (netif_list (routes st3))\<rparr>\<rparr>) })"

fun netif_get_by_index :: "u8 \<Rightarrow> ('d, 'f) netifs \<Rightarrow> nat option" where
  "netif_get_by_index idx st = (if idx \<noteq> 0 then find (\<lambda>n. netif_index (conf st n) = idx) (netif_list (routes st)) else None)"

subsection \<open>The interface of the firmware\<close>

definition mac :: "u8 list" where "mac = [0x00, 0x08, 0xDC, 0x12, 0x34, 0x56]"

definition netif_initialize :: "nat \<Rightarrow> ('d, 'f) netifs \<Rightarrow> err \<times> ('d, 'f) netifs" where
  "netif_initialize n st =
     (ERR_OK, (upd_netif n (\<lambda>ni. ni\<lparr>mtu := 1500, broadcast_flag := True, flag_etharp := True, up := False, link_up := False, hwaddr := mac\<rparr>) st)
        \<lparr>flag_ethernet := (flag_ethernet st)(n := True)\<rparr>)"

definition IP4_ADDR :: "u8 \<Rightarrow> u8 \<Rightarrow> u8 \<Rightarrow> u8 \<Rightarrow> u32" where "IP4_ADDR a b c d = un_le32 a b c d"

text \<open>\<open>g_netif\<close> is interface 0. The set-up of the chip is in \<open>Wiz5500\<close>.\<close>

definition ethernet_init_netif :: "'d link_env \<Rightarrow> u32 \<Rightarrow> u32 \<Rightarrow> u32 \<Rightarrow> ('d, 'f) netifs \<Rightarrow> ('d, 'f) netifs option" where
  "ethernet_init_netif env ip nm gateway st =
     do { (_, st1) \<leftarrow> netif_add env (Some 0) (Some ip) (Some nm) (Some gateway) (Some netif_initialize) st;
          let st2 = netif_set_link_callback (Some 0) (Some Netif_link_callback) st1;
          let st3 = netif_set_status_callback (Some 0) (Some Netif_status_callback) st2;
          st4 \<leftarrow> netif_set_link_up env (Some 0) st3;
          netif_set_up env (Some 0) st4 }"

definition main_network :: "'d link_env \<Rightarrow> ('d, 'f) netifs \<Rightarrow> ('d, 'f) netifs option" where
  "main_network env st = ethernet_init_netif env (IP4_ADDR 10 10 10 10) (IP4_ADDR 255 255 255 0) (IP4_ADDR 10 10 10 1) st"

text \<open>What the program starts with: no interface, their structures cleared.\<close>

definition no_netif :: eth_netif where
  "no_netif = \<lparr>ip_addr = 0, netmask = 0, netif_index = 1, broadcast_flag = False, gw = 0, hwaddr = replicate 6 0, flag_etharp = False,
     up = False, link_up = False, mtu = 0\<rparr>"

definition power_on :: "'d link_state \<Rightarrow> 'f udp \<Rightarrow> ('d, 'f) netifs" where
  "power_on l u = \<lparr>conf = (\<lambda>_. no_netif), flag_ethernet = (\<lambda>_. False), status_callback = (\<lambda>_. None), link_callback = (\<lambda>_. None),
     routes = \<lparr>netif_list = [], netif_default = None\<rparr>, netif_num = 0, arp = l, pcbs = u, printed = []\<rparr>"

end
