(* ===== verification/NetifRun.thy ===== *)
theory NetifRun
  imports Netif Ip4Link
begin

unbundle bit_operations_syntax

text \<open>
  The properties of the interfaces: the numbers \<open>netif_add\<close> gives out, the list and the default interface over all sequences of
  operations, and the state of the stack after \<open>EthernetInit\<close>.
\<close>

subsection \<open>Numbers\<close>

lemma netif_no_set_no [simp]: "netif_no (set_no n k cf j) = (if j = n then k else netif_no (cf j))"
  by (simp add: netif_no_def set_no_def)

lemma set_no_set_no [simp]: "set_no n a (set_no n b cf) = set_no n a cf"
  by (simp add: set_no_def)

lemma set_no_same: "set_no n (netif_no (cf n)) cf = cf"
  by (cases "cf n") (simp add: set_no_def netif_no_def fun_upd_idem)

lemma netif_no_inj: "netif_no x = netif_no y \<longleftrightarrow> netif_index x = netif_index y"
  by (simp add: netif_no_def)

definition taken :: "nat list \<Rightarrow> (nat \<Rightarrow> eth_netif) \<Rightarrow> u8 set" where "taken l cf = (netif_no \<circ> cf) ` set l"

lemma pick_no_hangs:
  assumes "n \<in> set l"
  shows "netif_pick_no l n cf = None"
proof -
  have "n \<notin> set l" if "netif_pick_no l n cf = Some y" for y
  proof (rule netif_pick_no.raw_induct [OF _ that, where P = "\<lambda>l n cf y. n \<notin> set l"], goal_cases)
    case (1 pick l n cf y)
    then show ?case by (auto simp: Let_def list_ex_iff split: if_splits)
  qed
  then show ?thesis using assms by (cases "netif_pick_no l n cf") auto
qed

lemma pick_no_step:
  assumes "n \<notin> set l"
  shows "netif_pick_no l n (set_no n k cf)
    = (let k' = (if k = 255 then 0 else k) in
       if k' \<in> taken l cf then netif_pick_no l n (set_no n (k' + 1) cf) else Some (set_no n k' cf))"
proof -
  have "list_ex (\<lambda>j. netif_no (set_no n k' cf j) = k') l \<longleftrightarrow> k' \<in> taken l cf" for k'
    using assms by (auto simp: list_ex_iff taken_def)
  then show ?thesis by (subst netif_pick_no.simps) (simp add: Let_def)
qed

text \<open>The numbers are tried one after the other, and around at the end.\<close>

definition tries :: "nat \<Rightarrow> nat \<Rightarrow> nat" where "tries y u = (if u \<le> y then y - u else y + 255 - u)"

lemma pick_no_search:
  assumes "n \<notin> set l" "y \<notin> taken l cf" "y \<noteq> 255"
  shows "k \<noteq> 255 \<Longrightarrow> tries (unat y) (unat k) = d \<Longrightarrow>
    \<exists>k'. netif_pick_no l n (set_no n k cf) = Some (set_no n k' cf) \<and> k' \<noteq> 255 \<and> k' \<notin> taken l cf"
proof (induction d arbitrary: k rule: less_induct)
  case (less d)
  show ?case
  proof (cases "k \<in> taken l cf")
    case False
    then show ?thesis using less.prems(1) by (auto simp: pick_no_step [OF assms(1)])
  next
    case True
    have small: "unat x \<le> 254" if "x \<noteq> (255 :: u8)" for x
    proof -
      have "unat x < 2 ^ LENGTH(8)" by (rule unsigned_less)
      then have "unat x < 256" by simp
      moreover have "unat x \<noteq> 255" using that by (simp add: word_unat_eq_iff)
      ultimately show ?thesis by linarith
    qed
    let ?j = "if k + 1 = 255 then 0 else k + 1"
    have j: "unat ?j = (if unat k = 254 then 0 else unat k + 1)"
      using small [OF less.prems(1)] by (auto simp: word_unat_eq_iff unat_word_ariths)
    have "k \<noteq> y" using True assms(2) by blast
    then have "unat k \<noteq> unat y" by (simp add: word_unat_eq_iff)
    then have "tries (unat y) (unat ?j) < d"
      using small [OF less.prems(1)] small [OF assms(3)] less.prems(2) unfolding j by (auto simp: tries_def split: if_splits)
    moreover have "?j \<noteq> 255" by simp
    moreover have "netif_pick_no l n (set_no n k cf) = netif_pick_no l n (set_no n ?j cf)"
    proof -
      have "netif_pick_no l n (set_no n 255 cf) = netif_pick_no l n (set_no n 0 cf)" by (simp add: pick_no_step [OF assms(1)])
      then show ?thesis using True less.prems(1) by (auto simp: pick_no_step [OF assms(1), of k])
    qed
    ultimately show ?thesis using less.IH [of "tries (unat y) (unat ?j)" ?j] by simp
  qed
qed

lemma free_number:
  assumes "length l < 255"
  shows "\<exists>y. y \<notin> taken l cf \<and> y \<noteq> 255"
proof -
  have "card (taken l cf) \<le> length l" unfolding taken_def by (rule order_trans [OF card_image_le card_length]) simp
  then have "card (insert 255 (taken l cf)) \<le> length l + 1" by (simp add: taken_def card_insert_if)
  also have "\<dots> < card (UNIV :: u8 set)" using assms by (simp add: card_word)
  finally have "insert 255 (taken l cf) \<noteq> UNIV" by auto
  then show ?thesis by blast
qed

lemma pick_no_run:
  assumes "n \<notin> set l" "length l < 255"
  shows "\<exists>k. netif_pick_no l n cf = Some (set_no n k cf) \<and> k \<noteq> 255 \<and> k \<notin> taken l cf"
proof -
  let ?k = "if netif_no (cf n) = 255 then 0 else netif_no (cf n)"
  obtain y where y: "y \<notin> taken l cf" "y \<noteq> 255" using free_number [OF assms(2)] by blast
  have "netif_pick_no l n cf = netif_pick_no l n (set_no n (netif_no (cf n)) cf)" by (simp add: set_no_same)
  also have "\<dots> = netif_pick_no l n (set_no n ?k cf)" by (simp add: pick_no_step [OF assms(1)])
  finally show ?thesis using pick_no_search [OF assms(1) y, of ?k] by auto
qed

subsection \<open>What the operations keep\<close>

text \<open>The list, the default interface and the numbers.\<close>

definition same_list :: "('d, 'f) netifs \<Rightarrow> ('d, 'f) netifs \<Rightarrow> bool" where
  "same_list st st' \<longleftrightarrow> routes st' = routes st \<and> netif_num st' = netif_num st \<and> (\<forall>j. netif_index (conf st' j) = netif_index (conf st j))"

lemma same_list_refl [simp]: "same_list st st" by (simp add: same_list_def)
lemma same_list_trans [trans]: "same_list a b \<Longrightarrow> same_list b c \<Longrightarrow> same_list a c" by (simp add: same_list_def)

lemma same_list_arp [simp]: "same_list st (st\<lparr>arp := l\<rparr>)" "same_list st (st\<lparr>pcbs := u\<rparr>)" by (simp_all add: same_list_def)

lemma same_list_upd: "(\<And>ni. netif_index (f ni) = netif_index ni) \<Longrightarrow> same_list st (upd_netif n f st)"
  by (simp add: same_list_def upd_netif_def)

lemma callback_keeps [simp]:
  "routes (call_back c n st) = routes st" "netif_num (call_back c n st) = netif_num st" "conf (call_back c n st) = conf st"
  "arp (call_back c n st) = arp st"
  by (simp_all add: call_back_def split: option.split)

lemma same_list_callback [simp]: "same_list st (call_back c n st)" by (simp add: same_list_def)

lemma reports_keep: "netif_issue_reports env n t st = Some st' \<Longrightarrow> same_list st st' \<and> conf st' = conf st"
  by (auto simp: netif_issue_reports_def Let_def split: if_splits)

lemma set_ipaddr_keeps: "netif_do_set_ipaddr env n a st = Some (b, st') \<Longrightarrow> same_list st st'"
  by (auto simp: netif_do_set_ipaddr_def Let_def netif_do_ip_addr_changed_def NETIF_STATUS_CALLBACK_def Option.bind_eq_Some_conv same_list_def upd_netif_def
    dest!: reports_keep split: if_splits)

lemma set_netmask_keeps: "same_list st (snd (netif_do_set_netmask n a st))"
  by (simp add: netif_do_set_netmask_def same_list_upd)

lemma set_gw_keeps: "same_list st (snd (netif_do_set_gw n a st))"
  by (simp add: netif_do_set_gw_def same_list_upd)

lemma set_addr_keeps: "netif_set_addr env n a nm g st = Some st' \<Longrightarrow> same_list st st'"
  by (auto simp: netif_set_addr_def Let_def Option.bind_eq_Some_conv dest!: set_ipaddr_keeps split: if_splits
    intro: same_list_trans [OF _ same_list_trans [OF set_netmask_keeps set_gw_keeps]] same_list_trans [OF same_list_trans [OF set_netmask_keeps set_gw_keeps]])

lemma set_up_keeps: "netif_set_up env p st = Some st' \<Longrightarrow> same_list st st'"
  by (auto simp: netif_set_up_def NETIF_STATUS_CALLBACK_def same_list_def upd_netif_def dest!: reports_keep split: option.splits if_splits)

lemma set_down_keeps: "netif_set_down p st = Some st' \<Longrightarrow> same_list st st'"
  by (auto simp: netif_set_down_def NETIF_STATUS_CALLBACK_def Let_def Option.bind_eq_Some_conv same_list_def upd_netif_def split: option.splits if_splits)

lemma link_up_keeps: "netif_set_link_up env p st = Some st' \<Longrightarrow> same_list st st'"
  by (auto simp: netif_set_link_up_def NETIF_LINK_CALLBACK_def same_list_def upd_netif_def dest!: reports_keep split: option.splits if_splits)

lemma link_down_keeps: "same_list st (netif_set_link_down p st)"
  by (auto simp: netif_set_link_down_def NETIF_LINK_CALLBACK_def split: option.split intro: same_list_trans [OF same_list_upd same_list_callback])

subsection \<open>The interfaces over all sequences of operations\<close>

text \<open>What a program does with the interfaces, in any order; the layers above and below change the rest of the state (\<open>others\<close>).\<close>

inductive netif_step :: "'d link_env \<Rightarrow> ('d, 'f) netifs \<Rightarrow> ('d, 'f) netifs \<Rightarrow> bool" for env where
  added: "length (netif_list (routes st)) < 255 \<Longrightarrow> netif_add env (Some n) a nm g (Some netif_initialize) st = Some (r, st') \<Longrightarrow> netif_step env st st'"
| removed: "netif_remove (Some n) st = Some st' \<Longrightarrow> netif_step env st st'"
| default: "(\<forall>n. p = Some n \<longrightarrow> n \<in> set (netif_list (routes st))) \<Longrightarrow> netif_step env st (netif_set_default p st)"
| readdressed: "netif_set_addr env n a nm g st = Some st' \<Longrightarrow> netif_step env st st'"
| set_up: "netif_set_up env (Some n) st = Some st' \<Longrightarrow> netif_step env st st'"
| set_down: "netif_set_down (Some n) st = Some st' \<Longrightarrow> netif_step env st st'"
| set_link_up: "netif_set_link_up env (Some n) st = Some st' \<Longrightarrow> netif_step env st st'"
| set_link_down: "netif_step env st (netif_set_link_down (Some n) st)"
| others: "netif_step env st (st\<lparr>arp := l, pcbs := u, status_callback := c, link_callback := d, printed := out\<rparr>)"

inductive netif_reach :: "'d link_env \<Rightarrow> ('d, 'f) netifs \<Rightarrow> bool" for env where
  start: "netif_reach env (power_on l u)"
| step: "netif_reach env st \<Longrightarrow> netif_step env st st' \<Longrightarrow> netif_reach env st'"

definition netifs_ok :: "('d, 'f) netifs \<Rightarrow> bool" where
  "netifs_ok st \<longleftrightarrow> distinct (netif_list (routes st)) \<and> inj_on (netif_index \<circ> conf st) (set (netif_list (routes st)))
     \<and> (\<forall>n \<in> set (netif_list (routes st)). netif_index (conf st n) \<noteq> 0) \<and> (\<forall>d. netif_default (routes st) = Some d \<longrightarrow> d \<in> set (netif_list (routes st)))"

lemma same_list_ok: "same_list st st' \<Longrightarrow> netifs_ok st \<Longrightarrow> netifs_ok st'"
  by (auto simp: same_list_def netifs_ok_def inj_on_def)

lemma addr_down_run:
  assumes "\<not> up (conf st n)"
  shows "\<exists>st'. netif_set_addr env n a nm g st = Some st'"
proof -
  have run: "\<exists>b st'. netif_do_set_ipaddr env n x s = Some (b, st')" if "\<not> up (conf s n)" for x s
    using that by (auto simp: netif_do_set_ipaddr_def netif_issue_reports_def upd_netif_def netif_do_ip_addr_changed_def)
  show ?thesis
  proof (cases "or_any a = 0")
    case True
    then show ?thesis using run [OF assms, of 0] by (auto simp: netif_set_addr_def Let_def)
  next
    case False
    have "\<not> up (conf (snd (netif_do_set_gw n (or_any g) (snd (netif_do_set_netmask n (or_any nm) st)))) n)"
      using assms by (simp add: netif_do_set_gw_def netif_do_set_netmask_def upd_netif_def)
    then show ?thesis using False run [of _ "or_any a"] by (fastforce simp: netif_set_addr_def Let_def)
  qed
qed

lemma add_run:
  assumes "n \<notin> set (netif_list (routes st))" "length (netif_list (routes st)) < 255"
  shows "\<exists>st'. netif_add env (Some n) a nm g (Some netif_initialize) st = Some (Some n, st')
    \<and> routes st' = (routes st)\<lparr>netif_list := n # netif_list (routes st)\<rparr> \<and> netif_no (conf st' n) \<noteq> 255
    \<and> netif_no (conf st' n) \<notin> taken (netif_list (routes st)) (conf st) \<and> (\<forall>j. j \<noteq> n \<longrightarrow> netif_index (conf st' j) = netif_index (conf st j))"
proof -
  let ?l = "netif_list (routes st)"
  obtain st1 where s1: "netif_set_addr env n a nm g (netif_reset n st) = Some st1"
  proof -
    have "\<not> up (conf (netif_reset n st) n)" by (simp add: netif_reset_def upd_netif_def)
    then show ?thesis using addr_down_run that by blast
  qed
  have k1: "same_list (netif_reset n st) st1" by (rule set_addr_keeps [OF s1])
  obtain st2 where s2: "netif_initialize n st1 = (ERR_OK, st2)" by (simp add: netif_initialize_def)
  then have "same_list st1 st2" by (auto simp: netif_initialize_def same_list_def upd_netif_def)
  then have k2: "routes st2 = routes st" "\<And>j. j \<noteq> n \<Longrightarrow> netif_index (conf st2 j) = netif_index (conf st j)"
    using k1 by (simp_all add: same_list_def netif_reset_def upd_netif_def)
  obtain k where k: "netif_pick_no ?l n (conf st2) = Some (set_no n k (conf st2))" "k \<noteq> 255" "k \<notin> taken ?l (conf st2)"
    using pick_no_run [OF assms] by blast
  have "taken ?l (conf st2) = taken ?l (conf st)"
    unfolding taken_def
  proof (rule image_cong [OF refl])
    fix j
    assume "j \<in> set ?l"
    then have "j \<noteq> n" using assms(1) by blast
    then show "(netif_no \<circ> conf st2) j = (netif_no \<circ> conf st) j" using k2(2) by (simp add: netif_no_inj)
  qed
  then show ?thesis using k k2 s1 s2 by (auto simp: netif_add_def set_no_def netif_no_def)
qed

lemma add_twice_hangs:
  assumes "n \<in> set (netif_list (routes st))"
  shows "netif_add env (Some n) a nm g (Some netif_initialize) st = None"
proof (cases "netif_set_addr env n a nm g (netif_reset n st)")
  case (Some st1)
  then have "routes st1 = routes st" using set_addr_keeps by (fastforce simp: same_list_def netif_reset_def upd_netif_def)
  then show ?thesis using Some assms by (simp add: netif_add_def netif_initialize_def upd_netif_def pick_no_hangs)
qed (simp add: netif_add_def)

lemma added_ok:
  assumes "netifs_ok st" "length (netif_list (routes st)) < 255" "netif_add env (Some n) a nm g (Some netif_initialize) st = Some (r, st')"
  shows "netifs_ok st'"
proof -
  let ?l = "netif_list (routes st)"
  have new: "n \<notin> set ?l" using add_twice_hangs assms(3) by fastforce
  obtain s where s: "netif_add env (Some n) a nm g (Some netif_initialize) st = Some (Some n, s)" "routes s = (routes st)\<lparr>netif_list := n # ?l\<rparr>"
      "netif_no (conf s n) \<noteq> 255" "netif_no (conf s n) \<notin> taken ?l (conf st)" "\<And>j. j \<noteq> n \<Longrightarrow> netif_index (conf s j) = netif_index (conf st j)"
    using add_run [OF new assms(2)] by blast
  have old: "netif_index (conf s j) = netif_index (conf st j)" if "j \<in> set ?l" for j using that new s(5) [of j] by blast
  have "netif_index (conf s n) \<noteq> 0" using s(3) by (auto simp: netif_no_def)
  moreover have "netif_index (conf st j) \<noteq> netif_index (conf s n)" if "j \<in> set ?l" for j
    using that s(4) by (auto simp: taken_def image_iff netif_no_inj)
  ultimately have "netifs_ok s" using assms(1) new s(2) old by (simp add: netifs_ok_def inj_on_def) metis
  then show ?thesis using s(1) assms(3) by simp
qed

lemma removed_ok:
  assumes "netifs_ok st" "netif_remove (Some n) st = Some st'"
  shows "netifs_ok st'"
proof -
  let ?st1 = "if ip_addr (conf st n) \<noteq> 0 then netif_do_ip_addr_changed (ip_addr (conf st n)) 0 st else st"
  obtain st2 where s2: "(if up (conf ?st1 n) then netif_set_down (Some n) ?st1 else Some ?st1) = Some st2"
      "st' = (let st3 = (if netif_default (routes st2) = Some n then netif_set_default None st2 else st2) in
         st3\<lparr>routes := (routes st3)\<lparr>netif_list := remove1 n (netif_list (routes st3))\<rparr>\<rparr>)"
    using assms(2) by (auto simp: netif_remove_def Let_def Option.bind_eq_Some_conv)
  have "same_list st ?st1" by (simp add: netif_do_ip_addr_changed_def)
  moreover have "same_list ?st1 st2" using s2(1) by (auto dest: set_down_keeps split: if_splits)
  ultimately have "netifs_ok st2" using assms(1) same_list_ok by blast
  then show ?thesis unfolding s2(2) by (auto simp: netifs_ok_def Let_def netif_set_default_def inj_on_def)
qed

lemma netif_reach_ok: "netif_reach env st \<Longrightarrow> netifs_ok st"
proof (induction rule: netif_reach.induct)
  case (start l u)
  then show ?case by (simp add: netifs_ok_def power_on_def)
next
  case (step st st')
  from step.hyps(2) step.IH show ?case
  proof (cases rule: netif_step.cases)
    case (default p)
    then show ?thesis using step.IH by (auto simp: netifs_ok_def netif_set_default_def)
  next
    case (others l u c d out)
    then show ?thesis using step.IH by (simp add: netifs_ok_def)
  next
    case (set_link_down n)
    then show ?thesis using step.IH same_list_ok [OF link_down_keeps] by blast
  qed (use step.IH same_list_ok in \<open>blast intro: added_ok removed_ok dest: set_addr_keeps set_up_keeps set_down_keeps link_up_keeps\<close>)+
qed

lemma get_by_index_iff:
  assumes "netifs_ok st"
  shows "netif_get_by_index idx st = Some n \<longleftrightarrow> n \<in> set (netif_list (routes st)) \<and> netif_index (conf st n) = idx"
proof
  assume "netif_get_by_index idx st = Some n"
  then show "n \<in> set (netif_list (routes st)) \<and> netif_index (conf st n) = idx" by (auto simp: find_Some_iff split: if_splits)
next
  assume n: "n \<in> set (netif_list (routes st)) \<and> netif_index (conf st n) = idx"
  then have "idx \<noteq> 0" using assms by (auto simp: netifs_ok_def)
  moreover have "find (\<lambda>n. netif_index (conf st n) = idx) (netif_list (routes st)) \<noteq> None" using n by (auto simp: find_None_iff)
  then obtain k where k: "find (\<lambda>n. netif_index (conf st n) = idx) (netif_list (routes st)) = Some k" by blast
  then have "k \<in> set (netif_list (routes st))" "netif_index (conf st k) = idx" by (auto simp: find_Some_iff)
  then have "k = n" using n assms by (auto simp: netifs_ok_def inj_on_def)
  ultimately show "netif_get_by_index idx st = Some n" using k by simp
qed

subsection \<open>Start-up\<close>

definition main_if :: eth_netif where
  "main_if = \<lparr>ip_addr = IP4_ADDR 10 10 10 10, netmask = IP4_ADDR 255 255 255 0, netif_index = 1, broadcast_flag = True, gw = IP4_ADDR 10 10 10 1,
     hwaddr = mac, flag_etharp = True, up = True, link_up = True, mtu = 1500\<rparr>"

text \<open>The announcement of the address, a broadcast request for it.\<close>

definition gratuitous :: "u8 list" where
  "gratuitous = eth_hdr ethbroadcast mac ETHTYPE_ARP @ etharp_hdr ARP_REQUEST mac (IP4_ADDR 10 10 10 10) ethzero (IP4_ADDR 10 10 10 10)"

lemma main_addresses: "IP4_ADDR 10 10 10 10 = 0x0a0a0a0a" "IP4_ADDR 255 255 255 0 = 0x00ffffff" "IP4_ADDR 10 10 10 1 = 0x010a0a0a"
  by (simp_all add: IP4_ADDR_def un_le32_def)

definition started :: "'d link_state \<Rightarrow> 'f udp \<Rightarrow> ('d, 'f) netifs" where
  "started l u = \<lparr>conf = (\<lambda>_. no_netif)(0 := main_if), flag_ethernet = (\<lambda>_. False)(0 := True), status_callback = (\<lambda>_. None)(0 := Some Netif_status_callback),
     link_callback = (\<lambda>_. None)(0 := Some Netif_link_callback), routes = \<lparr>netif_list = [0], netif_default = None\<rparr>, netif_num = 1, arp = l, pcbs = u,
     printed = [Link_status True, Netif_status (IP4_ADDR 10 10 10 10)]\<rparr>"

lemma pick_no_first: "netif_pick_no [] n cf = Some (if netif_no (cf n) = 255 then set_no n 0 cf else cf)"
  by (subst netif_pick_no.simps) (simp add: Let_def)

lemma main_network_started:
  "main_network env (power_on l u)
     = map_option (\<lambda>(_, l'). started l' u) (etharp_request (env_of env (started l u)) 0 (IP4_ADDR 10 10 10 10) l)"
  by (simp add: main_network_def ethernet_init_netif_def netif_add_def netif_set_addr_def or_any_def netif_reset_def power_on_def no_netif_def upd_netif_def
      netif_do_set_netmask_def netif_do_set_gw_def netif_do_set_ipaddr_def netif_do_ip_addr_changed_def udp_netif_ip_addr_changed_def netif_issue_reports_def
      NETIF_STATUS_CALLBACK_def NETIF_LINK_CALLBACK_def call_back_def netif_initialize_def pick_no_first netif_no_def netif_set_link_callback_def
      netif_set_status_callback_def netif_set_link_up_def netif_set_up_def env_of_def main_addresses started_def main_if_def
      NETIF_REPORT_TYPE_IPV4_def NETIF_REPORT_TYPE_IPV6_def Let_def)

lemma started_env_ok:
  assumes "heap_ok env" "link_ok env dev_ok wire"
  shows "env_ok (env_of env (started l u)) dev_ok wire"
  using assms by (simp add: env_ok_def heap_ok_def link_ok_def env_of_def started_def main_if_def no_netif_def mac_def)

lemma main_network_run:
  assumes "heap_ok env" "link_ok env dev_ok wire" "dev_ok (dev l)"
  shows "\<exists>d. main_network env (power_on l u) = Some (started (l\<lparr>dev := d\<rparr>) u) \<and> dev_ok d
    \<and> wire d = sent (heap env (mem l) 60 \<noteq> None) gratuitous (wire (dev l))
    \<and> arp_step (env_of env (started (l\<lparr>dev := d\<rparr>) u)) l (l\<lparr>dev := d\<rparr>)"
proof -
  let ?env = "env_of env (started l u)"
  have same: "env_of env (started l' u) = ?env" for l' by (simp add: env_of_def started_def)
  have "heap ?env = heap env" "request_frame ?env 0 (IP4_ADDR 10 10 10 10) ethbroadcast = gratuitous"
    by (simp_all add: env_of_def request_frame_def gratuitous_def started_def main_if_def)
  moreover obtain e d where "etharp_request ?env 0 (IP4_ADDR 10 10 10 10) l = Some (e, l\<lparr>dev := d\<rparr>)" "dev_ok d"
      "wire d = sent (heap ?env (mem l) 60 \<noteq> None) (request_frame ?env 0 (IP4_ADDR 10 10 10 10) ethbroadcast) (wire (dev l))"
    using request_run [OF started_env_ok [OF assms(1,2)] assms(3), of l u 0 "IP4_ADDR 10 10 10 10"] by blast
  ultimately have r: "etharp_request ?env 0 (IP4_ADDR 10 10 10 10) l = Some (e, l\<lparr>dev := d\<rparr>)" "dev_ok d"
      "wire d = sent (heap env (mem l) 60 \<noteq> None) gratuitous (wire (dev l))" by simp_all
  have "main_network env (power_on l u) = Some (started (l\<lparr>dev := d\<rparr>) u)" by (simp add: main_network_started r(1))
  moreover have "arp_step (env_of env (started (l\<lparr>dev := d\<rparr>) u)) l (l\<lparr>dev := d\<rparr>)" unfolding same [of "l\<lparr>dev := d\<rparr>"] by (rule arp_step.ask [OF r(1)])
  ultimately show ?thesis using r(2,3) by blast
qed

lemma started_routes:
  "ip4_route (env_of env (started l u)) \<lparr>netif_list = [0], netif_default = None\<rparr> dest
     = (if dest AND IP4_ADDR 255 255 255 0 = IP4_ADDR 10 10 10 0 then Some 0 else None)"
  "ip4_route (env_of env (started l u)) \<lparr>netif_list = [0], netif_default = Some 0\<rparr> dest
     = (if dest AND IP4_ADDR 255 255 255 0 = IP4_ADDR 10 10 10 0 \<or> \<not> isloopback dest then Some 0 else None)"
  by (simp_all add: ip4_route_def routes_to_def env_of_def started_def main_if_def main_addresses Let_def) (simp_all add: IP4_ADDR_def un_le32_def)

lemma main_network_shape: "main_network env (power_on l u) = Some st \<Longrightarrow> \<exists>l'. st = started l' u"
  by (auto simp: main_network_started)

subsection \<open>The properties\<close>

text \<open>C11: After the network has been set up at the start (\<open>EthernetInit\<close>), from a heap in order and a device that works, the only interface is up with its
  link and has the addresses, the hardware address and the size of a packet of the firmware; it is the only one in the list, with no default interface.
  The control blocks are as before, the callbacks have run once each, the address has been announced by one broadcast ARP request (if
  there was memory for it), and the environment and the ARP table are as all properties of address resolution, IPv4 and ICMP ask for.\<close>

theorem network_comes_up:
  assumes "heap_ok env" "link_ok env dev_ok wire" "dev_ok d0"
  shows "\<exists>st. main_network env (power_on (arp_start pl d0) u) = Some st
    \<and> conf st 0 = main_if \<and> routes st = \<lparr>netif_list = [0], netif_default = None\<rparr> \<and> pcbs st = u
    \<and> printed st = [Link_status True, Netif_status (IP4_ADDR 10 10 10 10)]
    \<and> wire (dev (arp st)) = sent (heap env (mem (arp_start pl d0)) 60 \<noteq> None) gratuitous (wire d0)
    \<and> env_ok (env_of env st) dev_ok wire \<and> arp_reach (env_of env st) d0 (arp st)"
proof -
  have l: "dev (arp_start pl d0) = d0" by (simp add: arp_start_def)
  obtain d where d: "main_network env (power_on (arp_start pl d0) u) = Some (started ((arp_start pl d0)\<lparr>dev := d\<rparr>) u)"
      "wire d = sent (heap env (mem (arp_start pl d0)) 60 \<noteq> None) gratuitous (wire d0)"
      "arp_step (env_of env (started ((arp_start pl d0)\<lparr>dev := d\<rparr>) u)) (arp_start pl d0) ((arp_start pl d0)\<lparr>dev := d\<rparr>)"
    using main_network_run [OF assms(1,2), of "arp_start pl d0" u] assms(3) unfolding l by blast
  have a: "arp (started l' u) = l'" "conf (started l' u) 0 = main_if" for l' by (simp_all add: started_def)
  have "arp_reach (env_of env (started ((arp_start pl d0)\<lparr>dev := d\<rparr>) u)) d0 ((arp_start pl d0)\<lparr>dev := d\<rparr>)"
    by (rule arp_reach.step [OF arp_reach.start d(3)])
  then show ?thesis using d(1,2) started_env_ok [OF assms(1,2)] by (simp add: a) (simp add: started_def)
qed

definition no_udp :: "unit udp" where
  "no_udp = \<lparr>udp_port = 0, udp_pcbs = [],
     pcb = (\<lambda>_. \<lparr>local_ip = 0, remote_ip = 0, netif_idx = 0, tos = 0, ttl = 0, flags = 0, local_port = 0, remote_port = 0, recv = None\<rparr>), free_pcbs = []\<rparr>"

lemma lan_parts: "heap_ok lan" "link_ok lan (\<lambda>_. True) id" "\<exists>b. heap lan (mem (arp_start [] ([] :: u8 list list))) 60 = Some b"
  using lan_ok lan_roomy by (auto simp: env_ok_def roomy_def arp_start_def)

lemma network_comes_up_witness:
  "\<exists>st. main_network lan (power_on (arp_start [] []) no_udp) = Some st \<and> conf st 0 = main_if \<and> routes st = \<lparr>netif_list = [0], netif_default = None\<rparr>
    \<and> dev (arp st) = [gratuitous]"
  using network_comes_up [OF lan_parts(1,2) TrueI, of "[]" "[]" no_udp] lan_parts(3) by (auto simp: sent_def)

text \<open>C12: After this start the firmware sends to its own subnet only: a packet for any other address is refused with \<open>ERR_RTE\<close>, although
  a gateway is configured, because \<open>EthernetInit\<close> never makes the interface the default one as its comment says. With
  \<open>netif_set_default\<close> the address would have a route (a loopback address has none).\<close>

theorem gateway_never_used:
  assumes "main_network env (power_on l u) = Some st" "dest AND IP4_ADDR 255 255 255 0 \<noteq> IP4_ADDR 10 10 10 0" "\<not> isloopback dest"
  shows "ip4_output (env_of env st) (routes st) p src dest lifetime service proto s = Some (Ip_err ERR_RTE, s)
    \<and> ip4_route (env_of env st) (routes (netif_set_default (Some 0) st)) dest = Some 0"
proof -
  obtain l' where "st = started l' u" using main_network_shape [OF assms(1)] by blast
  moreover have "routes (started l' u) = \<lparr>netif_list = [0], netif_default = None\<rparr>"
      "routes (netif_set_default (Some 0) (started l' u)) = \<lparr>netif_list = [0], netif_default = Some 0\<rparr>"
    by (simp_all add: started_def netif_set_default_def)
  ultimately show ?thesis using assms(2,3) by (simp add: started_routes ip4_output_def)
qed

lemma gateway_never_used_witness:
  "\<exists>st. main_network lan (power_on (arp_start [] []) no_udp) = Some st
    \<and> ip4_output (env_of lan st) (routes st) None 0 (IP4_ADDR 8 8 8 8) 255 0 17 \<lparr>link = arp st, ip_id = 0\<rparr> = Some (Ip_err ERR_RTE, \<lparr>link = arp st, ip_id = 0\<rparr>)"
proof -
  obtain d where d: "main_network lan (power_on (arp_start [] []) no_udp) = Some (started ((arp_start [] [])\<lparr>dev := d\<rparr>) no_udp)"
    using main_network_run [OF lan_parts(1,2) TrueI] by blast
  have "IP4_ADDR 8 8 8 8 AND IP4_ADDR 255 255 255 0 \<noteq> IP4_ADDR 10 10 10 0" "\<not> isloopback (IP4_ADDR 8 8 8 8)"
    by (simp_all add: IP4_ADDR_def un_le32_def isloopback_def)
  then show ?thesis using gateway_never_used [OF d, of "IP4_ADDR 8 8 8 8"] d by blast
qed

text \<open>C13: Over every sequence of operations on the interfaces from the start, with fewer than 255 of them, the index of an interface
  identifies it: the search by index finds exactly the interface of the list that has it. As only interfaces of the list are made the default one (\<open>netif_set_default\<close> does not
  check it), the default interface always is one of the list, also after one is removed.\<close>

theorem netif_index_identifies:
  assumes "netif_reach env st"
  shows "(netif_get_by_index idx st = Some n \<longleftrightarrow> n \<in> set (netif_list (routes st)) \<and> netif_index (conf st n) = idx)
    \<and> distinct (netif_list (routes st)) \<and> netif_default (routes st) \<in> insert None (Some ` set (netif_list (routes st)))"
  using netif_reach_ok [OF assms] get_by_index_iff [of st idx n] by (cases "netif_default (routes st)") (auto simp: netifs_ok_def)

lemma netif_index_identifies_witness:
  "\<exists>st :: (u8 list list, unit) netifs. netif_reach lan st \<and> netif_list (routes st) = [1, 0] \<and> netif_get_by_index (netif_index (conf st 1)) st = Some 1"
proof -
  let ?p = "power_on (arp_start [] []) no_udp :: (u8 list list, unit) netifs"
  obtain s1 where s1: "netif_add lan (Some 0) None None None (Some netif_initialize) ?p = Some (Some 0, s1)" "netif_list (routes s1) = [0]"
    using add_run [of 0 ?p lan None None None] by (auto simp: power_on_def)
  obtain s2 where s2: "netif_add lan (Some 1) None None None (Some netif_initialize) s1 = Some (Some 1, s2)" "netif_list (routes s2) = [1, 0]"
    using add_run [of 1 s1 lan None None None] s1(2) by auto
  have "netif_reach lan s1" by (rule netif_reach.step [OF netif_reach.start netif_step.added [OF _ s1(1)]]) (simp add: power_on_def)
  then have r: "netif_reach lan s2" by (rule netif_reach.step [OF _ netif_step.added [OF _ s2(1)]]) (simp add: s1(2))
  then show ?thesis using netif_index_identifies [OF r, of "netif_index (conf s2 1)" 1] s2(2) by (intro exI [of _ s2]) simp
qed

text \<open>With fewer than 255 interfaces, the search of \<open>netif_add\<close> for a free number ends exactly for an interface that is not in the list; one that is
  added twice is compared with itself without end.\<close>

theorem netif_add_returns:
  assumes "length (netif_list (routes st)) < 255"
  shows "(\<exists>st'. netif_add env (Some n) a nm g (Some netif_initialize) st = Some (Some n, st')) \<longleftrightarrow> n \<notin> set (netif_list (routes st))"
  using add_run [OF _ assms] add_twice_hangs by fastforce

lemma netif_add_returns_witness:
  "\<exists>st'. netif_add lan (Some 3) None None None (Some netif_initialize) (power_on (arp_start [] []) no_udp) = Some (Some 3, st')"
  using netif_add_returns [of "power_on (arp_start [] []) no_udp" lan 3 None None None] by (simp add: power_on_def)

end
