(* ===== verification/Services.thy ===== *)
theory Services
  imports Udp Tftp HostLink
begin

unbundle bit_operations_syntax

text \<open>
  The network services of the firmware on top of UDP: the data port (\<open>Src/remora.cpp\<close>) and the TFTP server
  (\<open>Src/tftpserver.cpp\<close>), each of whose connections has a control block of its own from the pool of UDP. What the handlers compute
  is in \<open>HostLink\<close> and \<open>Tftp\<close>; here are their calls of UDP, so that a datagram that arrives is followed to the datagram that
  answers it.
\<close>

datatype service = Udp_data_callback | Tftp_recv_callback | Wrq_recv_callback

text \<open>The routing and the checksum routine the stack is configured with.\<close>

record net =
  ip_route :: "u32 \<Rightarrow> u32 \<Rightarrow> netif option"
  netifs :: "u8 \<Rightarrow> netif option"
  chksum_fn :: chksum

text \<open>\<open>conns\<close> has the arguments of the write request a control block serves, \<open>wire\<close> the packets handed to the IP layer.\<close>

record server =
  udps :: "service udp"
  UDPpcb :: "nat option"
  tftpd :: tftp
  conns :: "nat \<Rightarrow> tftp_connection_args"
  host_link :: link
  wire :: "ip_packet list"

definition g_ip :: u32 where "g_ip = 0x0a0a0a0a"
definition DATA_PORT :: u16 where "DATA_PORT = 27181"
definition TFTP_PORT :: u16 where "TFTP_PORT = 69"

definition udpServerInit :: "server \<Rightarrow> server" where
  "udpServerInit s =
     (let (upcb, u1) = udp_new (udps s);
          (e, u2) = udp_bind upcb g_ip DATA_PORT u1 in
      s\<lparr>udps := (if e = ERR_OK then udp_recv upcb (Some Udp_data_callback) u2 else udp_remove upcb u2)\<rparr>)"

definition IAP_tftpd_init :: "server \<Rightarrow> server" where
  "IAP_tftpd_init s =
     (let (p, u1) = udp_new (udps s) in
      case p of None \<Rightarrow> s\<lparr>udps := u1, UDPpcb := None\<rparr>
      | Some t \<Rightarrow>
          let (e, u2) = udp_bind p 0 TFTP_PORT u1 in
          s\<lparr>UDPpcb := p, udps := (if e = ERR_OK then udp_recv p (Some Tftp_recv_callback) u2 else u2)\<rparr>)"

text \<open>What \<open>main\<close> does between the start of the Ethernet chip and the main loop.\<close>

definition start_services :: "server \<Rightarrow> server" where "start_services s = IAP_tftpd_init (udpServerInit s)"

subsection \<open>The data port\<close>

text \<open>Only the first buffer of a chain is copied. The reply goes out on the control block of the request, connected to the sender for
  that long. \<open>txBuf\<close> is the buffer of the reply, if there is one.\<close>

definition data_request :: "net \<Rightarrow> nat option \<Rightarrow> nat \<Rightarrow> pbufs \<Rightarrow> u32 \<Rightarrow> u16 \<Rightarrow> server \<Rightarrow> server option" where
  "data_request net txBuf upcb p addr port s =
     (case udp_data_callback (txBuf \<noteq> None) addr port (snd (hd p)) (host_link s) of None \<Rightarrow> None
      | Some (l, reply) \<Rightarrow>
          let u1 = snd (udp_connect (Some upcb) addr port (udps s));
              (out, u2) =
                (case (txBuf, reply) of
                   (Some b, Some (_, _, d)) \<Rightarrow> snd (udp_send (ip_route net) (netifs net) (chksum_fn net) True None (Some upcb) [(b, d)] u1)
                 | _ \<Rightarrow> (None, u1)) in
          Some (s\<lparr>host_link := l, udps := udp_disconnect (Some upcb) u2, wire := wire s @ (case out of None \<Rightarrow> [] | Some x \<Rightarrow> [x])\<rparr>))"

subsection \<open>The TFTP server\<close>

text \<open>The acknowledgement a handler has sent, if any, on its way: \<open>old\<close> and \<open>new\<close> are what the server has sent before and after.\<close>

definition send_ack ::
  "net \<Rightarrow> nat option \<Rightarrow> u8 list list \<Rightarrow> u8 list list \<Rightarrow> nat \<Rightarrow> u32 \<Rightarrow> u16 \<Rightarrow> service udp \<Rightarrow> ip_packet list \<times> service udp" where
  "send_ack net buf old new upcb dst port u =
     (case (buf, drop (length old) new) of
        (Some b, d # _) \<Rightarrow>
          (let (e, out, u1) = udp_sendto (ip_route net) (netifs net) (chksum_fn net) True None (Some upcb) [(b, d)] dst port u
           in (case out of None \<Rightarrow> [] | Some x \<Rightarrow> [x], u1))
      | _ \<Rightarrow> ([], u))"

definition cleanup_wr :: "nat \<Rightarrow> nat option \<Rightarrow> service udp \<Rightarrow> service udp" where
  "cleanup_wr upcb listener u =
     udp_recv listener (Some Tftp_recv_callback) (udp_remove (Some upcb) (udp_disconnect (Some upcb) u))"

text \<open>A write request gets a control block of its own on a new port; \<open>args_ok\<close> and \<open>buf\<close> say what can be allocated.\<close>

definition tftp_request :: "net \<Rightarrow> bool \<Rightarrow> nat option \<Rightarrow> pbufs \<Rightarrow> u32 \<Rightarrow> u16 \<Rightarrow> server \<Rightarrow> server option" where
  "tftp_request net args_ok buf p addr port s =
     (let pkt = snd (hd p); (q, u1) = udp_new (udps s) in
      case q of
        None \<Rightarrow> map_option (\<lambda>t. s\<lparr>udps := u1, tftpd := t\<rparr>) (IAP_tftp_recv_callback False False args_ok (buf \<noteq> None) pkt (tftpd s))
      | Some upcb \<Rightarrow>
          let (e, u2) = udp_bind q 0 0 u1 in
          case IAP_tftp_recv_callback True (e = ERR_OK) args_ok (buf \<noteq> None) pkt (tftpd s) of None \<Rightarrow> None
          | Some t \<Rightarrow>
              if e \<noteq> ERR_OK then Some (s\<lparr>udps := u2, tftpd := t\<rparr>)
              else if IAP_tftp_decode_op pkt \<noteq> Some TFTP_WRQ then Some (s\<lparr>udps := udp_remove q u2, tftpd := t\<rparr>)
              else if \<not> args_ok then Some (s\<lparr>udps := cleanup_wr upcb (UDPpcb s) u2, tftpd := t\<rparr>)
              else
                let (out, u3) = send_ack net buf (sent (tftpd s)) (sent t) upcb addr port (udp_recv q (Some Wrq_recv_callback) u2) in
                Some (s\<lparr>udps := u3, tftpd := t, conns := (conns s)(upcb := \<lparr>block = 0, tot_bytes = 0\<rparr>), wire := wire s @ out\<rparr>))"

text \<open>A data packet of a transfer; the transfer is over when the handler has given up its arguments.\<close>

definition tftp_data :: "net \<Rightarrow> cell \<Rightarrow> nat option \<Rightarrow> nat \<Rightarrow> pbufs \<Rightarrow> u32 \<Rightarrow> u16 \<Rightarrow> server \<Rightarrow> server option" where
  "tftp_data net cell buf upcb p addr port s =
     (let pkt = snd (hd p); t0 = (tftpd s)\<lparr>connection := Some (conns s upcb)\<rparr> in
      case IAP_wrq_recv_callback cell (buf \<noteq> None) pkt (length pkt \<noteq> length (payload p)) (conns s upcb) t0 of None \<Rightarrow> None
      | Some t \<Rightarrow>
          let (out, u1) = send_ack net buf (sent t0) (sent t) upcb addr port (udps s);
              s1 = s\<lparr>tftpd := t, wire := wire s @ out\<rparr> in
          Some (case connection t of
                  None \<Rightarrow> s1\<lparr>udps := cleanup_wr upcb (UDPpcb s) u1\<rparr>
                | Some args \<Rightarrow> s1\<lparr>udps := u1, conns := (conns s)(upcb := args)\<rparr>))"

text \<open>A datagram arrives from \<open>src\<close> for \<open>dst\<close>. \<open>unreachable\<close> reports go to ICMP and are not followed.\<close>

definition serve ::
  "net \<Rightarrow> cell \<Rightarrow> netif \<Rightarrow> bool \<Rightarrow> nat option \<Rightarrow> u32 \<Rightarrow> u32 \<Rightarrow> pbufs \<Rightarrow> server \<Rightarrow> server option" where
  "serve net cell inp args_ok buf src dst p s =
     (let (r, u) = udp_input (chksum_fn net) inp src dst p (udps s); s1 = s\<lparr>udps := u\<rparr> in
      case r of
        Recv Udp_data_callback upcb q addr port \<Rightarrow> data_request net buf upcb q addr port s1
      | Recv Tftp_recv_callback upcb q addr port \<Rightarrow> tftp_request net args_ok buf q addr port s1
      | Recv Wrq_recv_callback upcb q addr port \<Rightarrow> tftp_data net cell buf upcb q addr port s1
      | _ \<Rightarrow> Some s1)"

subsection \<open>Listening\<close>

definition listens :: "'f udp \<Rightarrow> nat \<Rightarrow> u32 \<Rightarrow> u16 \<Rightarrow> 'f \<Rightarrow> bool" where
  "listens u a ip port f \<longleftrightarrow> a \<in> set (udp_pcbs u) \<and> pcb u a =
     \<lparr>local_ip = ip, remote_ip = 0, netif_idx = 0, tos = 0, ttl = UDP_TTL, flags = 0, local_port = port, remote_port = 0, recv = Some f\<rparr>"

text \<open>The server is up: the two listening control blocks are the only ones with their callbacks.\<close>

definition up :: "nat \<Rightarrow> nat \<Rightarrow> service udp \<Rightarrow> bool" where
  "up a t u \<longleftrightarrow> udp_ok u \<and> listens u a g_ip DATA_PORT Udp_data_callback \<and> listens u t 0 TFTP_PORT Tftp_recv_callback
     \<and> (\<forall>b \<in> set (udp_pcbs u). b = a \<or> b = t \<or> recv (pcb u b) = None \<or> recv (pcb u b) = Some Wrq_recv_callback)"

definition serving :: "nat \<Rightarrow> nat \<Rightarrow> server \<Rightarrow> bool" where
  "serving a t s \<longleftrightarrow> up a t (udps s) \<and> UDPpcb s = Some t"

lemma up_distinct: "up a t u \<Longrightarrow> a \<noteq> t"
  by (auto simp: up_def listens_def)

lemma up_not_free: "up a t u \<Longrightarrow> a \<notin> set (free_pcbs u) \<and> t \<notin> set (free_pcbs u)"
  by (auto simp: up_def listens_def udp_ok_def)

lemma up_new:
  assumes "up a t u" "udp_new u = (Some b, u1)"
  shows "up a t u1 \<and> b \<noteq> a \<and> b \<noteq> t \<and> b \<notin> set (free_pcbs u1) \<and> recv (pcb u1 b) = None"
proof -
  have "b \<noteq> a" "b \<noteq> t" using up_not_free [OF assms(1)] assms(2) by (auto simp: udp_new_def split: list.splits)
  then show ?thesis using assms udp_new_ok [OF _ assms(2)]
    by (auto simp: udp_new_def up_def listens_def split: list.splits) blast+
qed

lemma up_bind:
  assumes "up a t u" "udp_bind (Some b) ip port u = (e, u1)" "b \<noteq> a" "b \<noteq> t" "b \<notin> set (free_pcbs u)" "recv (pcb u b) = None"
  shows "up a t u1 \<and> free_pcbs u1 = free_pcbs u \<and> (e = ERR_OK \<longrightarrow> b \<in> set (udp_pcbs u1) \<and> recv (pcb u1 b) = None)"
proof -
  have ok: "udp_ok u1" using assms udp_bind_ok [of u b ip port e u1] by (simp add: up_def)
  show ?thesis using assms(2) by (cases rule: udp_bind_cases) (use assms ok in \<open>auto simp: up_def listens_def\<close>)
qed

lemma up_upd:
  assumes "up a t u" "b \<noteq> a" "b \<noteq> t" "\<And>x. local_ip (f x) = local_ip x" "\<And>x. local_port (f x) = local_port x"
    and "recv (f (pcb u b)) = None \<or> recv (f (pcb u b)) = Some Wrq_recv_callback"
  shows "up a t (upd_pcb b f u)"
  using assms(1,2,3,6) udp_ok_upd [OF _ assms(4,5), of u] by (auto simp: up_def listens_def)

lemma up_remove:
  assumes "up a t u" "b \<noteq> a" "b \<noteq> t" "b \<notin> set (free_pcbs u)"
  shows "up a t (udp_remove (Some b) u)"
  using assms udp_remove_ok [of u b] by (auto simp: up_def listens_def udp_remove_def dest: in_set_remove1 [THEN iffD1, rotated] notin_set_remove1)

lemma up_cleanup:
  assumes "up a t u" "b \<noteq> a" "b \<noteq> t" "b \<notin> set (free_pcbs u)" "recv (pcb u b) = None \<or> recv (pcb u b) = Some Wrq_recv_callback"
  shows "up a t (cleanup_wr b (Some t) u)"
proof -
  have "up a t (udp_disconnect (Some b) u)" using up_upd [OF assms(1-3), of "\<lambda>x. x\<lparr>remote_ip := 0, remote_port := 0, netif_idx := 0, flags := flags x AND NOT UDP_FLAGS_CONNECTED\<rparr>"]
    assms(5) by (simp add: udp_disconnect_def)
  then have r: "up a t (udp_remove (Some b) (udp_disconnect (Some b) u))" (is "up a t ?u")
    using up_remove assms(2-4) by (simp add: udp_disconnect_def)
  then have "pcb (upd_pcb t (recv_update (\<lambda>_. Some Tftp_recv_callback)) ?u) = pcb ?u" by (auto simp: up_def listens_def)
  then have "upd_pcb t (recv_update (\<lambda>_. Some Tftp_recv_callback)) ?u = ?u" by (simp add: upd_pcb_def)
  then show ?thesis using r by (simp add: cleanup_wr_def udp_recv_def)
qed

lemma up_input:
  assumes "up a t u" "udp_input chk inp sip dip p u = (r, u1)"
  shows "up a t u1 \<and> set (udp_pcbs u1) = set (udp_pcbs u) \<and> free_pcbs u1 = free_pcbs u \<and> pcb u1 = pcb u"
proof -
  obtain as where as: "u1 = u\<lparr>udp_pcbs := as\<rparr>" "as = udp_pcbs u \<or> (\<exists>a \<in> set (udp_pcbs u). as = a # remove1 a (udp_pcbs u))"
    using udp_input_state [of chk inp sip dip p u] assms(2) by auto
  have ok: "udp_ok u" using assms(1) by (simp add: up_def)
  have "set as = set (udp_pcbs u)" using as(2) ok by (auto simp: set_remove1_eq udp_ok_def)
  then show ?thesis using assms as udp_input_ok [OF ok, of chk inp sip dip p] by (auto simp: up_def listens_def)
qed

subsection \<open>The handlers leave the server up\<close>

lemma input_recv:
  assumes "udp_input chk inp sip dip p u = (Recv f b q addr port, u1)"
  shows "b \<in> set (udp_pcbs u) \<and> recv (pcb u b) = Some f \<and> addr = sip"
proof (cases p)
  case (Cons x qs)
  obtain ad bs where x: "x = (ad, bs)" by fastforce
  obtain full uncon where d: "demux u inp (ip4_addr_isbroadcast dip inp) sip (un_be16 (bs ! 0) (bs ! 1)) dip (un_be16 (bs ! 2) (bs ! 3)) (udp_pcbs u) None
      = (full, uncon)" by fastforce
  have m: "full = Some c \<or> uncon = Some c \<Longrightarrow> c \<in> set (udp_pcbs u)" for c using demux_member [OF d] by blast
  show ?thesis using assms m
    by (auto simp: udp_input_def Cons x Let_def d simp del: One_nat_def split: if_splits option.splits)
qed (use assms in \<open>simp add: udp_input_def\<close>)

lemma sendto_state:
  assumes "local_port (pcb u b) \<noteq> 0"
  shows "snd (snd (udp_sendto route nis chk hr nb (Some b) p dst port u)) = u"
    "snd (snd (udp_send route nis chk hr nb (Some b) p u)) = u"
  using assms by (auto simp: udp_send_def udp_sendto_def udp_sendto_if_def udp_sendto_if_src_def Let_def split: option.splits)

lemma connect_active:
  fixes addr :: u32 and rport :: u16
  assumes "listens u a ip port f" "port \<noteq> 0"
  defines "v \<equiv> upd_pcb a (\<lambda>x. x\<lparr>remote_ip := addr, remote_port := rport, flags := flags x OR UDP_FLAGS_CONNECTED\<rparr>) u"
  shows "udp_connect (Some a) addr rport u = (ERR_OK, v)" "udp_disconnect (Some a) v = u"
proof -
  show "udp_connect (Some a) addr rport u = (ERR_OK, v)" using assms by (simp add: udp_connect_def listens_def)
  have "(pcb u)(a := \<lparr>local_ip = ip, remote_ip = 0, netif_idx = 0, tos = 0, ttl = UDP_TTL, flags = 0, local_port = port, remote_port = 0,
      recv = Some f\<rparr>) = pcb u" using assms(1) by (auto simp: listens_def)
  then show "udp_disconnect (Some a) v = u" using assms(1)
    by (simp add: v_def udp_disconnect_def upd_pcb_def listens_def UDP_FLAGS_CONNECTED_def)
qed

lemma data_request_udps:
  assumes "listens (udps s) a ip q f" "q \<noteq> 0" "data_request net txBuf a p addr port s = Some s'"
  shows "udps s' = udps s \<and> UDPpcb s' = UDPpcb s"
proof -
  note c = connect_active [OF assms(1,2)]
  have "local_port (pcb (upd_pcb a (\<lambda>x. x\<lparr>remote_ip := addr, remote_port := port, flags := flags x OR UDP_FLAGS_CONNECTED\<rparr>) (udps s)) a) \<noteq> 0"
    using assms(1,2) by (simp add: listens_def)
  note n = sendto_state(2) [OF this]
  show ?thesis using assms(3) c n
    by (auto simp: data_request_def Let_def split_beta split: option.splits)
qed

lemma send_ack_udps: "local_port (pcb u b) \<noteq> 0 \<Longrightarrow> snd (send_ack net buf old new b dst port u) = u"
  using sendto_state(1) [of u b] by (simp add: send_ack_def split_beta split: option.splits list.splits)

lemma tftp_data_serving:
  assumes "serving a t s" "b \<in> set (udp_pcbs (udps s))" "recv (pcb (udps s) b) = Some Wrq_recv_callback"
    and "tftp_data net cell buf b p addr port s = Some s'"
  shows "serving a t s'"
proof -
  have u: "up a t (udps s)" "UDPpcb s = Some t" using assms(1) by (simp_all add: serving_def)
  have b: "b \<noteq> a" "b \<noteq> t" using u(1) assms(3) by (auto simp: up_def listens_def)
  have f: "b \<notin> set (free_pcbs (udps s))" "local_port (pcb (udps s) b) \<noteq> 0" using u(1) assms(2) by (auto simp: up_def udp_ok_def)
  have "up a t (cleanup_wr b (Some t) (udps s))" using up_cleanup [OF u(1) b f(1)] assms(3) by simp
  then show ?thesis using assms(4) u send_ack_udps [OF f(2)]
    by (auto simp: tftp_data_def serving_def Let_def split_beta split: option.splits)
qed

lemma tftp_request_serving:
  assumes "serving a t s" "tftp_request net args_ok buf p addr port s = Some s'"
  shows "serving a t s'"
proof (cases "udp_new (udps s)")
  case (Pair q u1)
  have u: "up a t (udps s)" "UDPpcb s = Some t" using assms(1) by (simp_all add: serving_def)
  show ?thesis
  proof (cases q)
    case None
    then have "u1 = udps s" using Pair by (simp add: udp_new_def split: list.splits)
    then show ?thesis using assms Pair None by (auto simp: tftp_request_def serving_def)
  next
    case (Some b)
    note n = up_new [OF u(1) Pair [unfolded Some]]
    obtain e u2 where bind: "udp_bind (Some b) 0 0 u1 = (e, u2)" by fastforce
    have b: "b \<noteq> a" "b \<noteq> t" using n by simp_all
    have u2: "up a t u2" "b \<notin> set (free_pcbs u2)" "e = ERR_OK \<Longrightarrow> b \<in> set (udp_pcbs u2)" "e = ERR_OK \<Longrightarrow> recv (pcb u2 b) = None"
      using up_bind [of a t u1 b] n bind by simp_all
    have ok: "recv (pcb u2 b) = None" "local_port (pcb u2 b) \<noteq> 0" if "e = ERR_OK"
      using u2(1) u2(2) u2(3,4) [OF that] by (simp_all add: up_def udp_ok_def)
    have r: "up a t (udp_recv (Some b) (Some Wrq_recv_callback) u2)" 
      using up_upd [OF u2(1) b, of "recv_update (\<lambda>_. Some Wrq_recv_callback)"] by (simp add: udp_recv_def)
    have "e = ERR_OK \<Longrightarrow> local_port (pcb (udp_recv (Some b) (Some Wrq_recv_callback) u2) b) \<noteq> 0" using ok by (simp add: udp_recv_def)
    note k = send_ack_udps [OF this]
    have rm: "up a t (udp_remove (Some b) u2)" by (rule up_remove [OF u2(1) b u2(2)])
    have cl: "e = ERR_OK \<Longrightarrow> up a t (cleanup_wr b (Some t) u2)" using up_cleanup [OF u2(1) b u2(2)] ok(1) by simp
    obtain td where td: "IAP_tftp_recv_callback True (e = ERR_OK) args_ok (buf \<noteq> None) (snd (hd p)) (tftpd s) = Some td"
      using assms(2) Pair Some bind unfolding tftp_request_def Let_def by (auto split: option.splits)
    have s': "s' = (if e \<noteq> ERR_OK then s\<lparr>udps := u2, tftpd := td\<rparr>
        else if IAP_tftp_decode_op (snd (hd p)) \<noteq> Some TFTP_WRQ then s\<lparr>udps := udp_remove (Some b) u2, tftpd := td\<rparr>
        else if \<not> args_ok then s\<lparr>udps := cleanup_wr b (UDPpcb s) u2, tftpd := td\<rparr>
        else s\<lparr>udps := udp_recv (Some b) (Some Wrq_recv_callback) u2, tftpd := td, conns := (conns s)(b := \<lparr>block = 0, tot_bytes = 0\<rparr>),
          wire := wire s @ fst (send_ack net buf (sent (tftpd s)) (sent td) b addr port (udp_recv (Some b) (Some Wrq_recv_callback) u2))\<rparr>)"
      using assms(2) k unfolding tftp_request_def Pair Some Let_def prod.case option.case bind td by (simp add: split_beta split: if_splits)
    show ?thesis unfolding s' serving_def using u(2) u2(1) rm cl r by simp
  qed
qed

lemma serve_serving:
  assumes "serving a t s" "serve net cell inp args_ok buf src dst p s = Some s'"
  shows "serving a t s'"
proof -
  obtain r u where i: "udp_input (chksum_fn net) inp src dst p (udps s) = (r, u)" by fastforce
  have up: "up a t (udps s)" "UDPpcb s = Some t" using assms(1) by (simp_all add: serving_def)
  note u = up_input [OF up(1) i]
  have s1: "serving a t (s\<lparr>udps := u\<rparr>)" using u up by (simp add: serving_def)
  show ?thesis
  proof (cases r)
    case (Recv f b q addr port)
    have b: "b \<in> set (udp_pcbs u)" "recv (pcb u b) = Some f" using input_recv [OF i [unfolded Recv]] u by simp_all
    show ?thesis
    proof (cases f)
      case Udp_data_callback
      then have "b = a" using b u by (auto simp: up_def listens_def)
      moreover have "listens u a g_ip DATA_PORT service.Udp_data_callback" using u by (simp add: up_def)
      ultimately have "udps s' = u \<and> UDPpcb s' = UDPpcb s" using data_request_udps [of "s\<lparr>udps := u\<rparr>"] assms(2) i
        unfolding serve_def Recv Udp_data_callback by (auto simp: DATA_PORT_def)
      then show ?thesis using u up by (simp add: serving_def)
    next
      case Tftp_recv_callback
      then show ?thesis using tftp_request_serving [OF s1] assms(2) i by (auto simp: serve_def Recv)
    next
      case Wrq_recv_callback
      then show ?thesis using tftp_data_serving [OF s1] b assms(2) i by (auto simp: serve_def Recv)
    qed
  qed (use s1 assms(2) i in \<open>auto simp: serve_def\<close>)
qed

subsection \<open>Answers\<close>

lemma data_reply_sent:
  assumes "listens (udps s) a g_ip DATA_PORT f" "ip_route net g_ip addr = Some ni" "ip_addr ni = g_ip" "chksum_fn net = thumb2_checksum"
    and "udp_data_callback True addr port (snd (hd p)) (host_link s) = Some (l, Some (x, y, d))" "length d + UDP_HLEN < 65536"
  obtains q where "data_request net (Some b) a p addr port s
      = Some (s\<lparr>host_link := l, wire := wire s @ [(q, g_ip, addr, UDP_TTL, 0, IP_PROTO_UDP)]\<rparr>)" "datagram q g_ip addr DATA_PORT port d"
proof -
  let ?v = "upd_pcb a (\<lambda>x. x\<lparr>remote_ip := addr, remote_port := port, flags := flags x OR UDP_FLAGS_CONNECTED\<rparr>) (udps s)"
  note c = connect_active [OF assms(1), where addr = addr and rport = port]
  have v: "local_ip (pcb ?v a) = g_ip" "local_port (pcb ?v a) = DATA_PORT" "remote_ip (pcb ?v a) = addr" "remote_port (pcb ?v a) = port"
      "netif_idx (pcb ?v a) = 0" "ttl (pcb ?v a) = UDP_TTL" "tos (pcb ?v a) = 0"
    using assms(1) by (simp_all add: listens_def)
  obtain q where q: "udp_sendto_if_src thumb2_checksum True None (Some a) [(b, d)] addr port g_ip ?v
      = (ERR_OK, Some (q, g_ip, addr, UDP_TTL, 0, IP_PROTO_UDP), ?v)" "datagram q g_ip addr DATA_PORT port d"
    using src_sends [of ?v a d b addr port g_ip] v assms(6) by (auto simp: DATA_PORT_def)
  have "\<not> (g_ip = 0 \<or> ip4_addr_ismulticast g_ip)" by (simp add: g_ip_def ip4_addr_ismulticast_def)
  then have "udp_send (ip_route net) (netifs net) thumb2_checksum True None (Some a) [(b, d)] ?v
      = (ERR_OK, Some (q, g_ip, addr, UDP_TTL, 0, IP_PROTO_UDP), ?v)"
    unfolding udp_send_def udp_sendto_def udp_sendto_if_def option.case v using q(1) assms(2,3) by (simp add: Let_def)
  then have "data_request net (Some b) a p addr port s
      = Some (s\<lparr>host_link := l, wire := wire s @ [(q, g_ip, addr, UDP_TTL, 0, IP_PROTO_UDP)]\<rparr>)"
    using assms(4,5) c by (simp add: data_request_def DATA_PORT_def)
  then show thesis using that q(2) by blast
qed

text \<open>A datagram for a listening control block.\<close>

lemma arrives:
  assumes "udp_ok u" "listens u a ip dport f" "ip = 0 \<or> ip = g_ip" "ip_addr inp = g_ip" "datagram [(ad, b)] sip g_ip sport dport req"
  obtains u1 where "udp_input thumb2_checksum inp sip g_ip [(ad, b)] u = (Recv f a [(ad + UDP_HLEN, req)] sip sport, u1)"
proof -
  obtain stored where r: "payload [(ad, b)] = udp_header sport dport (of_nat (length req + UDP_HLEN)) stored @ req"
    and c: "checksum_ok thumb2_checksum [(ad, b)] sip g_ip" using assms(5) by (auto simp: datagram_def)
  have l: "UDP_HLEN \<le> length b" "drop UDP_HLEN b = req" using r by (simp_all add: payload_def udp_header_def UDP_HLEN_def)
  note h = header_fields [OF r refl l(1)]
  have "\<not> ip4_addr_isbroadcast g_ip inp" using assms(4) by (simp add: ip4_addr_isbroadcast_def g_ip_def)
  moreover have "matches u inp g_ip dport a" using calculation assms(2,3) by (auto simp: matches_def listens_def udp_input_local_match_def)
  moreover have "flags (pcb u a) AND UDP_FLAGS_CONNECTED = 0" "recv (pcb u a) = Some f" using assms(2) by (simp_all add: listens_def)
  ultimately have "fst (udp_input thumb2_checksum inp sip g_ip [(ad, b)] u) = Recv f a [(ad + UDP_HLEN, req)] sip sport"
    using udp_input_found [OF assms(1) _ _ _ _ l(1) c, of inp a f] h(1,2) l(2) by simp
  then show thesis using that by (metis prod.collapse)
qed

lemma request_arrives:
  assumes "up a t u" "ip_addr inp = g_ip"
  shows "datagram [(ad, b)] sip g_ip sport DATA_PORT req \<Longrightarrow>
      \<exists>u1. udp_input thumb2_checksum inp sip g_ip [(ad, b)] u = (Recv Udp_data_callback a [(ad + UDP_HLEN, req)] sip sport, u1) \<and> up a t u1"
    "datagram [(ad, b)] sip g_ip sport TFTP_PORT req \<Longrightarrow>
      \<exists>u1. udp_input thumb2_checksum inp sip g_ip [(ad, b)] u = (Recv Tftp_recv_callback t [(ad + UDP_HLEN, req)] sip sport, u1) \<and> up a t u1
        \<and> free_pcbs u1 = free_pcbs u"
proof -
  have ok: "udp_ok u" "listens u a g_ip DATA_PORT Udp_data_callback" "listens u t 0 TFTP_PORT Tftp_recv_callback"
    using assms(1) by (simp_all add: up_def)
  show "\<exists>u1. udp_input thumb2_checksum inp sip g_ip [(ad, b)] u = (Recv Udp_data_callback a [(ad + UDP_HLEN, req)] sip sport, u1) \<and> up a t u1"
    if "datagram [(ad, b)] sip g_ip sport DATA_PORT req"
    by (rule arrives [OF ok(1,2) _ assms(2) that]) (use up_input [OF assms(1)] in blast)+
  show "\<exists>u1. udp_input thumb2_checksum inp sip g_ip [(ad, b)] u = (Recv Tftp_recv_callback t [(ad + UDP_HLEN, req)] sip sport, u1) \<and> up a t u1
        \<and> free_pcbs u1 = free_pcbs u"
    if "datagram [(ad, b)] sip g_ip sport TFTP_PORT req"
    by (rule arrives [OF ok(1,3) _ assms(2) that]) (use up_input [OF assms(1)] in blast)+
qed

text \<open>Datagrams one after the other, each with what can be allocated for it.\<close>

fun serve_all :: "net \<Rightarrow> cell \<Rightarrow> netif \<Rightarrow> (bool \<times> nat option \<times> u32 \<times> u32 \<times> pbufs) list \<Rightarrow> server \<Rightarrow> server option" where
  "serve_all net cell inp [] s = Some s"
| "serve_all net cell inp ((args_ok, buf, src, dst, p) # es) s =
     (case serve net cell inp args_ok buf src dst p s of None \<Rightarrow> None | Some s1 \<Rightarrow> serve_all net cell inp es s1)"

lemma serve_all_serving:
  "serve_all net cell inp es s = Some s' \<Longrightarrow> serving a t s \<Longrightarrow> serving a t s'"
  by (induction net cell inp es s rule: serve_all.induct) (auto split: option.splits dest: serve_serving)

lemma data_request_wf:
  "data_request net buf a p addr port s = Some s' \<Longrightarrow> wf_link (host_link s) \<Longrightarrow> wf_link (host_link s')"
  by (auto simp: data_request_def Let_def split_beta split: option.splits dest: udp_data_callback_wf)

lemma serve_wf:
  assumes "serve net cell inp args_ok buf src dst p s = Some s'" "wf_link (host_link s)"
  shows "wf_link (host_link s')"
proof -
  obtain r u where i: "udp_input (chksum_fn net) inp src dst p (udps s) = (r, u)" by fastforce
  have t: "tftp_request net args_ok buf q addr port s1 = Some s' \<Longrightarrow> host_link s' = host_link s1" for q addr port s1
    by (auto simp: tftp_request_def Let_def split_beta split: option.splits if_splits)
  have d: "tftp_data net cell buf c q addr port s1 = Some s' \<Longrightarrow> host_link s' = host_link s1" for c q addr port s1
    by (auto simp: tftp_data_def Let_def split_beta split: option.splits)
  show ?thesis using assms i t d data_request_wf
    by (auto simp: serve_def Let_def split: udp_result.splits service.splits)
qed

lemma serve_all_wf:
  "serve_all net cell inp es s = Some s' \<Longrightarrow> wf_link (host_link s) \<Longrightarrow> wf_link (host_link s')"
  by (induction net cell inp es s rule: serve_all.induct) (auto split: option.splits dest: serve_wf)

text \<open>The datagrams the handlers are not made for: more than 64 bytes in the first buffer at the data port, a request of fewer than
  two bytes at the TFTP port, and, in a transfer, a packet in one buffer of fewer than four bytes or the next block with more than 512 bytes of
  data or beyond the end of the flash.\<close>

definition harmful :: "net \<Rightarrow> netif \<Rightarrow> u32 \<Rightarrow> u32 \<Rightarrow> pbufs \<Rightarrow> server \<Rightarrow> bool" where
  "harmful net inp src dst p s =
     (case fst (udp_input (chksum_fn net) inp src dst p (udps s)) of
        Recv Udp_data_callback upcb q addr port \<Rightarrow> 64 < length (snd (hd q))
      | Recv Tftp_recv_callback upcb q addr port \<Rightarrow> length (snd (hd q)) < 2
      | Recv Wrq_recv_callback upcb q addr port \<Rightarrow>
          (let pkt = snd (hd q) in
           length pkt = length (payload q) \<and> (length pkt < 4
             \<or> 4 < length pkt \<and> uint (un_be16 (pkt ! 2) (pkt ! 3)) = block (conns s upcb) + 1
               \<and> (516 < length pkt \<or> Flash_Write_Address (tftpd s) < FLASH_BASE \<or> FLASH_END < Flash_Write_Address (tftpd s) + 512)))
      | _ \<Rightarrow> False)"

fun benign :: "net \<Rightarrow> cell \<Rightarrow> netif \<Rightarrow> (bool \<times> nat option \<times> u32 \<times> u32 \<times> pbufs) list \<Rightarrow> server \<Rightarrow> bool" where
  "benign net cell inp [] s = True"
| "benign net cell inp ((args_ok, buf, src, dst, p) # es) s =
     (\<not> harmful net inp src dst p s
      \<and> (case serve net cell inp args_ok buf src dst p s of None \<Rightarrow> True | Some s1 \<Rightarrow> benign net cell inp es s1))"

lemma program_block_defined:
  "FLASH_BASE \<le> a \<Longrightarrow> a + length bs \<le> FLASH_END \<Longrightarrow> \<exists>fl'. program_block cell a bs e fl = Some fl'"
  by (induction cell a bs e fl rule: program_block.induct) (auto simp: HAL_FLASH_Program_def)

lemma write_block_defined:
  assumes "length bs \<le> 516" "FLASH_BASE \<le> Flash_Write_Address t" "Flash_Write_Address t + 512 \<le> FLASH_END"
  shows "\<exists>t'. write_block cell bs t = Some t'"
proof -
  obtain e fl where u: "HAL_FLASH_Unlock (tftp_flash t) = (e, fl)" by fastforce
  let ?d = "drop 4 bs @ replicate (512 - (length bs - 4)) 0 :: u8 list"
  have "length ?d = 512" using assms(1) by simp
  then obtain fl' where "program_block cell (Flash_Write_Address t) ?d e fl = Some fl'"
    using program_block_defined [of "Flash_Write_Address t" ?d] assms(2,3) by metis
  then show ?thesis using u assms(1) by (auto simp: write_block_def TFTP_DATA_PKT_HDR_LEN_def Let_def)
qed

lemma data_packet_defined:
  assumes "length bs = n \<Longrightarrow> 4 \<le> length bs"
    and "length bs = n \<Longrightarrow> 4 < length bs \<Longrightarrow> uint (un_be16 (bs ! 2) (bs ! 3)) = block args + 1 \<Longrightarrow> \<exists>t'. write_block cell bs t = Some t'"
  shows "\<exists>t'. IAP_wrq_recv_callback cell ok bs (length bs \<noteq> n) args t = Some t'"
  using assms by (cases "length bs = n") (auto simp: IAP_wrq_recv_callback_def IAP_tftp_extract_block_def Let_def TFTP_DATA_PKT_HDR_LEN_def)

lemma write_block_connection: "write_block cell bs (t\<lparr>connection := c\<rparr>) = map_option (connection_update (\<lambda>_. c)) (write_block cell bs t)"
  by (cases t) (simp add: write_block_def Let_def split_beta option.map_comp o_def)

text \<open>Every other datagram is served.\<close>

lemma serve_defined:
  assumes "wf_link (host_link s)" "\<not> harmful net inp src dst p s"
  shows "\<exists>s'. serve net cell inp args_ok buf src dst p s = Some s'"
proof -
  obtain r u where i: "udp_input (chksum_fn net) inp src dst p (udps s) = (r, u)" by fastforce
  show ?thesis
  proof (cases r)
    case (Recv f upcb q addr port)
    let ?pkt = "snd (hd q)"
    show ?thesis
    proof (cases f)
      case Udp_data_callback
      then have "\<not> 64 < length ?pkt" using assms(2) i Recv by (auto simp: harmful_def)
      then have "udp_data_callback (buf \<noteq> None) addr port ?pkt (host_link s) \<noteq> None"
        by (simp only: udp_data_callback_oversize [OF assms(1)] not_False_eq_True)
      then show ?thesis using i Recv Udp_data_callback by (auto simp: serve_def data_request_def Let_def split_beta)
    next
      case Tftp_recv_callback
      then obtain op' where "IAP_tftp_decode_op ?pkt = Some op'" using assms i Recv by (auto simp: harmful_def IAP_tftp_decode_op_def)
      then show ?thesis using i Recv Tftp_recv_callback
        by (auto simp: serve_def tftp_request_def IAP_tftp_recv_callback_def Let_def split_beta split: option.splits)
    next
      case Wrq_recv_callback
      have "\<exists>t'. IAP_wrq_recv_callback cell (buf \<noteq> None) ?pkt (length ?pkt \<noteq> length (payload q)) (conns s upcb)
          ((tftpd s)\<lparr>connection := Some (conns s upcb)\<rparr>) = Some t'"
      proof (rule data_packet_defined)
        assume l: "length ?pkt = length (payload q)"
        show "4 \<le> length ?pkt" using assms(2) i Recv Wrq_recv_callback l by (auto simp: harmful_def Let_def)
        assume "4 < length ?pkt" "uint (un_be16 (?pkt ! 2) (?pkt ! 3)) = block (conns s upcb) + 1"
        then have "\<exists>t'. write_block cell ?pkt (tftpd s) = Some t'" using assms(2) i Recv Wrq_recv_callback l
          by (intro write_block_defined) (auto simp: harmful_def Let_def)
        then show "\<exists>t'. write_block cell ?pkt ((tftpd s)\<lparr>connection := Some (conns s upcb)\<rparr>) = Some t'"
          by (auto simp: write_block_connection)
      qed
      then show ?thesis using i Recv Wrq_recv_callback by (auto simp: serve_def tftp_data_def Let_def split_beta split: option.splits)
    qed
  qed (use i in \<open>simp_all add: serve_def\<close>)
qed

lemma serve_all_defined:
  "benign net cell inp es s \<Longrightarrow> wf_link (host_link s) \<Longrightarrow> \<exists>s'. serve_all net cell inp es s = Some s'"
proof (induction net cell inp es s rule: benign.induct)
  case (2 net cell inp args_ok buf src dst p es s)
  then obtain s1 where s1: "serve net cell inp args_ok buf src dst p s = Some s1" using serve_defined by fastforce
  then show ?case using 2 serve_wf [OF s1] by simp
qed simp

subsection \<open>The start\<close>

lemma start_services_serving:
  assumes "udp_fresh (udps s)" "free_pcbs (udps s) = a # t # as"
  shows "serving a t (start_services s) \<and> free_pcbs (udps (start_services s)) = as \<and> host_link (start_services s) = host_link s
    \<and> tftpd (start_services s) = tftpd s \<and> wire (start_services s) = wire s"
  using assms by (auto simp: start_services_def udpServerInit_def IAP_tftpd_init_def udp_new_def udp_bind_def bind_conflict_def udp_recv_def
      upd_pcb_def udp_fresh_def DATA_PORT_def TFTP_PORT_def serving_def up_def udp_ok_def listens_def Let_def)

subsection \<open>A concrete network\<close>

definition eth :: netif where "eth = \<lparr>ip_addr = g_ip, netmask = 0x00ffffff, netif_index = 1, broadcast_flag = True\<rparr>"

definition eth_net :: net where
  "eth_net = \<lparr>ip_route = (\<lambda>_ _. Some eth), netifs = (\<lambda>_. Some eth), chksum_fn = thumb2_checksum\<rparr>"

definition fresh_server :: server where
  "fresh_server = \<lparr>udps = fresh_udp, UDPpcb = None, tftpd = \<lparr>connection = None, Flash_Write_Address = 0, total_count = 0,
       tftp_flash = \<lparr>cells = (\<lambda>_. 0xFF), locked = True\<rparr>, json_flag = False, sent = [], unfreed = 0\<rparr>,
     conns = (\<lambda>_. \<lparr>block = 0, tot_bytes = 0\<rparr>),
     host_link = \<lparr>rxPP = zero_pingpong, txPP = zero_pingpong, comms = \<lparr>data = False, status = False, noDataCount = 0\<rparr>\<rparr>, wire = []\<rparr>"

text \<open>A datagram whose sender does not use checksums.\<close>

definition plain :: "u16 \<Rightarrow> u16 \<Rightarrow> u8 list \<Rightarrow> u8 list" where
  "plain src dest d = udp_header src dest (of_nat (length d + UDP_HLEN)) 0 @ d"

lemma plain_datagram: "datagram [(ad, plain src dest d)] sip dip src dest d"
proof -
  have "un_le16 (payload r ! 6) (payload r ! 7) = 0" if "payload r = payload [(ad, plain src dest d)]" for r
    using that un_le16_le16 [of "0 :: u16"] by (simp add: payload_def plain_def udp_header_def be16_def le16_def)
  then show ?thesis by (auto simp: datagram_def checksum_ok_def payload_def plain_def)
qed

lemma fresh_server_pool: "free_pcbs (udps fresh_server) = [0, 1, 2, 3]" "udp_fresh (udps fresh_server)"
  using fresh_udp by (simp_all add: fresh_server_def) (simp add: fresh_udp_def MEMP_NUM_UDP_PCB_def upt_rec)

lemma fresh_server_link: "wf_link (host_link fresh_server)" "cur_fb (host_link fresh_server) = replicate 64 0"
proof -
  show "wf_link (host_link fresh_server)" by (simp add: fresh_server_def wf_link_def wf_zero_pingpong)
  show "cur_fb (host_link fresh_server) = replicate 64 0" by (simp add: fresh_server_def cur_fb_def zero_pingpong_def pp_defs)
qed

lemmas fresh_start = start_services_serving [OF fresh_server_pool(2,1)]

text \<open>C1: After any datagrams since the start, malformed ones and TFTP transfers included, as long as none of them was \<open>harmful\<close>, a
  read or write request of the host at the data port gets its answer: one datagram, from the address and port the request was for to those it
  came from, whose checksum is right and whose data is the feedback packet with its header. Harmful are the datagrams the handlers are
  not made for: more than 64 bytes at the data port (they overwrite what follows the buffer), TFTP requests of less than two bytes and data
  packets of less than four (stale bytes are read), and blocks of more than 512 bytes or beyond the end of the flash. The
  request itself comes in one buffer with at most 64 bytes, from an address that is routed to the interface, and there is a buffer for the
  reply.\<close>

theorem data_port_answers:
  assumes "udp_fresh (udps s)" "2 \<le> length (free_pcbs (udps s))" "wf_link (host_link s)"
    and "benign net cell inp es (start_services s)"
    and "chksum_fn net = thumb2_checksum" "ip_addr inp = g_ip" "ip_route net g_ip sip = Some inp"
    and "datagram [(ad, b)] sip g_ip sport DATA_PORT req" "length req \<le> 64"
  shows "\<exists>s1. serve_all net cell inp es (start_services s) = Some s1
    \<and> (\<forall>h. rx_header (packet_of (host_link s1) req) = h \<and> (h = PRU_READ \<or> h = PRU_WRITE) \<longrightarrow>
         (\<exists>q s2. serve net cell inp args_ok (Some buf) sip g_ip [(ad, b)] s1 = Some s2
           \<and> wire s2 = wire s1 @ [(q, g_ip, sip, UDP_TTL, 0, IP_PROTO_UDP)]
           \<and> datagram q g_ip sip DATA_PORT sport (reply_of (if h = PRU_READ then PRU_DATA else PRU_ACKNOWLEDGE) (host_link s1))))"
proof -
  obtain a t as where free: "free_pcbs (udps s) = a # t # as" using assms(2) by (auto simp: numeral_eq_Suc Suc_le_length_iff)
  note start = start_services_serving [OF assms(1) free]
  obtain s1 where s1: "serve_all net cell inp es (start_services s) = Some s1" using serve_all_defined [OF assms(4)] start assms(3) by auto
  have up: "up a t (udps s1)" using start serve_all_serving [OF s1] by (auto simp: serving_def)
  have wf: "wf_link (host_link s1)" using start serve_all_wf [OF s1] assms(3) by simp
  obtain u where u: "udp_input thumb2_checksum inp sip g_ip [(ad, b)] (udps s1)
      = (Recv Udp_data_callback a [(ad + UDP_HLEN, req)] sip sport, u)" "up a t u"
    using request_arrives(1) [OF up assms(6,8)] by blast
  have "\<exists>q s2. serve net cell inp args_ok (Some buf) sip g_ip [(ad, b)] s1 = Some s2
      \<and> wire s2 = wire s1 @ [(q, g_ip, sip, UDP_TTL, 0, IP_PROTO_UDP)]
      \<and> datagram q g_ip sip DATA_PORT sport (reply_of (if h = PRU_READ then PRU_DATA else PRU_ACKNOWLEDGE) (host_link s1))"
    if h: "rx_header (packet_of (host_link s1) req) = h" "h = PRU_READ \<or> h = PRU_WRITE" for h
  proof -
    let ?s1 = "s1\<lparr>udps := u\<rparr>" and ?r = "reply_of (if h = PRU_READ then PRU_DATA else PRU_ACKNOWLEDGE) (host_link s1)"
    obtain l where l: "udp_data_callback True sip sport req (host_link s1) = Some (l, Some (sip, sport, ?r))"
      using udp_data_callback_cases [OF wf assms(9), of True sip sport] h by (cases "h = PRU_READ") (simp_all split: if_splits)
    have "length ?r + UDP_HLEN < 65536" using wf by (simp add: reply_of_def cur_fb_def UDP_HLEN_def)
    moreover have "listens u a g_ip DATA_PORT Udp_data_callback" using u(2) by (simp add: up_def)
    ultimately obtain q where "data_request net (Some buf) a [(ad + UDP_HLEN, req)] sip sport ?s1
        = Some (?s1\<lparr>host_link := l, wire := wire ?s1 @ [(q, g_ip, sip, UDP_TTL, 0, IP_PROTO_UDP)]\<rparr>)" "datagram q g_ip sip DATA_PORT sport ?r"
      using data_reply_sent [of ?s1 a Udp_data_callback net sip inp sport "[(ad + UDP_HLEN, req)]" l sip sport ?r] assms(5-7) l by auto
    then show ?thesis using u assms(5) by (auto simp: serve_def)
  qed
  then show ?thesis using s1 by blast
qed

text \<open>A datagram of two bytes, then a read request.\<close>

theorem data_port_answers_witness:
  "\<exists>s1 q s2. serve_all eth_net (AND) eth [(False, None, 0x0b0a0a0a, g_ip, [(0, plain 1000 DATA_PORT [1, 2])])] (start_services fresh_server) = Some s1
    \<and> serve eth_net (AND) eth False (Some 0) 0x0b0a0a0a g_ip [(0, plain 1000 DATA_PORT (le32 PRU_READ))] s1 = Some s2
    \<and> wire s2 = wire s1 @ [(q, g_ip, 0x0b0a0a0a, UDP_TTL, 0, IP_PROTO_UDP)]
    \<and> datagram q g_ip 0x0b0a0a0a DATA_PORT 1000 (reply_of PRU_DATA (host_link s1))"
proof -
  let ?es = "[(False, None, 0x0b0a0a0a, g_ip, [(0, plain 1000 DATA_PORT [1, 2])])]"
  have up: "up 0 1 (udps (start_services fresh_server))" using fresh_start by (simp add: serving_def)
  have "\<not> harmful eth_net eth 0x0b0a0a0a g_ip [(0, plain 1000 DATA_PORT [1, 2])] (start_services fresh_server)"
    using request_arrives(1) [OF up, where inp = eth and req = "[1, 2]" and ad = 0 and sport = 1000 and sip = "0x0b0a0a0a", OF _ plain_datagram]
    by (auto simp: harmful_def eth_net_def eth_def)
  then have b: "benign eth_net (AND) eth ?es (start_services fresh_server)" by (simp split: option.split)
  have "length (le32 PRU_READ) \<le> 64" by simp
  then obtain s1 where s1: "serve_all eth_net (AND) eth ?es (start_services fresh_server) = Some s1"
      "\<forall>h. rx_header (packet_of (host_link s1) (le32 PRU_READ)) = h \<and> (h = PRU_READ \<or> h = PRU_WRITE) \<longrightarrow>
         (\<exists>q s2. serve eth_net (AND) eth False (Some 0) 0x0b0a0a0a g_ip [(0, plain 1000 DATA_PORT (le32 PRU_READ))] s1 = Some s2
           \<and> wire s2 = wire s1 @ [(q, g_ip, 0x0b0a0a0a, UDP_TTL, 0, IP_PROTO_UDP)]
           \<and> datagram q g_ip 0x0b0a0a0a DATA_PORT 1000 (reply_of (if h = PRU_READ then PRU_DATA else PRU_ACKNOWLEDGE) (host_link s1)))"
    using data_port_answers [of fresh_server eth_net "(AND)" eth ?es "0x0b0a0a0a" 0 "plain 1000 DATA_PORT (le32 PRU_READ)" 1000 "le32 PRU_READ" False 0]
      fresh_server_pool fresh_server_link(1) plain_datagram b by (auto simp: eth_net_def eth_def)
  have "wf_link (host_link s1)" using serve_all_wf [OF s1(1)] fresh_start fresh_server_link(1) by simp
  then have "rx_header (packet_of (host_link s1) (le32 PRU_READ)) = PRU_READ"
    by (simp add: packet_of_def rx_header_def read_le32_blit wf_link_def rx.inv_get)
  then have "\<exists>q s2. serve eth_net (AND) eth False (Some 0) 0x0b0a0a0a g_ip [(0, plain 1000 DATA_PORT (le32 PRU_READ))] s1 = Some s2
      \<and> wire s2 = wire s1 @ [(q, g_ip, 0x0b0a0a0a, UDP_TTL, 0, IP_PROTO_UDP)]
      \<and> datagram q g_ip 0x0b0a0a0a DATA_PORT 1000 (reply_of PRU_DATA (host_link s1))"
    using s1(2) by auto
  then show ?thesis using s1(1) by blast
qed

subsection \<open>Write requests\<close>

text \<open>Whatever becomes of it, a write request takes a control block, and only the end of its transfer gives it back.\<close>

lemma tftp_request_pool:
  assumes "free_pcbs (udps s) = c # cs" "IAP_tftp_decode_op (snd (hd p)) = Some TFTP_WRQ"
  shows "\<exists>s'. tftp_request net True buf p addr port s = Some s' \<and> free_pcbs (udps s') = cs"
proof -
  obtain u1 where n: "udp_new (udps s) = (Some c, u1)" "free_pcbs u1 = cs" using assms(1) by (simp add: udp_new_def)
  obtain e u2 where b: "udp_bind (Some c) 0 0 u1 = (e, u2)" by fastforce
  have f: "free_pcbs u2 = cs" "e = ERR_OK \<or> e = ERR_USE" "e = ERR_OK \<Longrightarrow> local_port (pcb u2 c) \<noteq> 0"
    using b n(2) by (cases rule: udp_bind_cases; auto)+
  have v: "free_pcbs (udp_recv (Some c) (Some Wrq_recv_callback) u2) = cs" using f(1) by (simp add: udp_recv_def)
  have "e = ERR_OK \<Longrightarrow> local_port (pcb (udp_recv (Some c) (Some Wrq_recv_callback) u2) c) \<noteq> 0" using f(3) by (simp add: udp_recv_def)
  note k = send_ack_udps [OF this]
  show ?thesis using f v k unfolding tftp_request_def n b Let_def prod.case option.case
    by (auto simp: IAP_tftp_recv_callback_def assms(2) split_beta)
qed

text \<open>A control block that has been opened and bound to a port of the stack's choice.\<close>

lemma open_bind:
  assumes "udp_new u = (Some b, u1)" "udp_bind (Some b) ip 0 u1 = (ERR_OK, u2)"
  obtains q where "q \<noteq> 0" "b \<in> set (udp_pcbs u2)" "pcb u2 b = \<lparr>local_ip = ip, remote_ip = 0, netif_idx = 0, tos = 0, ttl = UDP_TTL, flags = 0,
     local_port = q, remote_port = 0, recv = None\<rparr>"
  using assms(2)
proof (cases rule: udp_bind_cases)
  case (bound q)
  have "pcb u1 b = \<lparr>local_ip = 0, remote_ip = 0, netif_idx = 0, tos = 0, ttl = UDP_TTL, flags = 0, local_port = 0, remote_port = 0, recv = None\<rparr>"
    using assms(1) by (auto simp: udp_new_def split: list.splits)
  then show thesis using that [of q] bound by (auto split: if_splits)
qed simp

lemma process_write_sent: "sent (IAP_tftp_process_write True True t) = sent t @ [ack_packet 0]"
  using ack_sent [of 0] by (simp add: IAP_tftp_process_write_def Let_def split_beta)

lemma ack_on_its_way:
  assumes "listens u c 0 P f" "P \<noteq> 0" "ip_route net 0 dst = Some ni" "chksum_fn net = thumb2_checksum" "length d + UDP_HLEN < 65536"
  obtains q where "send_ack net (Some buf) old (old @ [d]) c dst port u = ([(q, ip_addr ni, dst, UDP_TTL, 0, IP_PROTO_UDP)], u)"
    "datagram q (ip_addr ni) dst P port d"
proof -
  have c: "local_ip (pcb u c) = 0" "netif_idx (pcb u c) = 0" "local_port (pcb u c) = P" "ttl (pcb u c) = UDP_TTL" "tos (pcb u c) = 0"
    using assms(1) by (simp_all add: listens_def)
  obtain q where "udp_sendto_if_src thumb2_checksum True None (Some c) [(buf, d)] dst port (ip_addr ni) u
      = (ERR_OK, Some (q, ip_addr ni, dst, UDP_TTL, 0, IP_PROTO_UDP), u)" "datagram q (ip_addr ni) dst P port d"
    using src_sends [of u c d buf dst port "ip_addr ni"] c assms(2,5) by auto
  then show thesis using that assms(3,4) c by (simp add: send_ack_def udp_sendto_def udp_sendto_if_def)
qed

text \<open>C7: A write request at port 69 is answered at once by the acknowledgement of block 0, from a new port whose control block
  the rest of the transfer belongs to; both services stay up. A control block is free, the allocations succeed, and the sender is routed to
  the interface.\<close>

theorem tftp_request_answered:
  assumes "serving a t s" "free_pcbs (udps s) = c # cs" "UDP_LOCAL_PORT_RANGE_START \<le> udp_port (udps s)" "length (udp_pcbs (udps s)) < 0x4000"
    and "chksum_fn net = thumb2_checksum" "ip_addr inp = g_ip" "ip_route net 0 sip = Some inp"
    and "datagram [(ad, b)] sip g_ip sport TFTP_PORT req" "IAP_tftp_decode_op req = Some TFTP_WRQ"
  shows "\<exists>q P s'. serve net cell inp True (Some buf) sip g_ip [(ad, b)] s = Some s'
    \<and> wire s' = wire s @ [(q, g_ip, sip, UDP_TTL, 0, IP_PROTO_UDP)] \<and> datagram q g_ip sip P sport (ack_packet 0)
    \<and> listens (udps s') c 0 P Wrq_recv_callback \<and> conns s' c = \<lparr>block = 0, tot_bytes = 0\<rparr> \<and> serving a t s'"
proof -
  have up: "up a t (udps s)" using assms(1) by (simp add: serving_def)
  obtain u where u: "udp_input thumb2_checksum inp sip g_ip [(ad, b)] (udps s) = (Recv Tftp_recv_callback t [(ad + UDP_HLEN, req)] sip sport, u)"
      "up a t u" "free_pcbs u = c # cs" using request_arrives(2) [OF up assms(6,8)] assms(2) by auto
  obtain as where as: "u = (udps s)\<lparr>udp_pcbs := as\<rparr>" "length as = length (udp_pcbs (udps s))"
  proof -
    obtain as where "u = (udps s)\<lparr>udp_pcbs := as\<rparr>" "as = udp_pcbs (udps s) \<or> (\<exists>x \<in> set (udp_pcbs (udps s)). as = x # remove1 x (udp_pcbs (udps s)))"
      using udp_input_state [of thumb2_checksum inp sip g_ip "[(ad, b)]" "udps s"] u(1) by auto
    moreover from this(2) have "length as = length (udp_pcbs (udps s))" using length_pos_if_in_set by (fastforce simp: length_remove1)
    ultimately show thesis using that by blast
  qed
  obtain u1 where n: "udp_new u = (Some c, u1)" "udp_port u1 = udp_port u" "udp_pcbs u1 = udp_pcbs u" using u(3) by (simp add: udp_new_def)
  have "fst (udp_new_port u1) \<noteq> 0" using new_port_finds [of u1] n as assms(3,4)
    by (simp add: word_le_nat_alt UDP_LOCAL_PORT_RANGE_START_def)
  then obtain u2 where bind: "udp_bind (Some c) 0 0 u1 = (ERR_OK, u2)" by (simp add: udp_bind_def split_beta Let_def)
  obtain P where P: "P \<noteq> 0" "listens (udp_recv (Some c) (Some Wrq_recv_callback) u2) c 0 P Wrq_recv_callback"
  proof -
    obtain P where "P \<noteq> 0" "c \<in> set (udp_pcbs u2)" "pcb u2 c = \<lparr>local_ip = 0, remote_ip = 0, netif_idx = 0, tos = 0, ttl = UDP_TTL, flags = 0,
        local_port = P, remote_port = 0, recv = None\<rparr>" by (rule open_bind [OF n(1) bind])
    then show thesis using that [of P] by (simp add: listens_def udp_recv_def)
  qed
  obtain q where q: "send_ack net (Some buf) (sent (tftpd s)) (sent (tftpd s) @ [ack_packet 0]) c sip sport (udp_recv (Some c) (Some Wrq_recv_callback) u2)
      = ([(q, g_ip, sip, UDP_TTL, 0, IP_PROTO_UDP)], udp_recv (Some c) (Some Wrq_recv_callback) u2)" "datagram q g_ip sip P sport (ack_packet 0)"
    using ack_on_its_way [OF P(2,1) assms(7,5), of "ack_packet 0" buf "sent (tftpd s)" sport] assms(6)
    by (auto simp: ack_packet_def be16_def UDP_HLEN_def)
  define s' where "s' = s\<lparr>udps := udp_recv (Some c) (Some Wrq_recv_callback) u2, tftpd := IAP_tftp_process_write True True (tftpd s),
    conns := (conns s)(c := \<lparr>block = 0, tot_bytes = 0\<rparr>), wire := wire s @ [(q, g_ip, sip, UDP_TTL, 0, IP_PROTO_UDP)]\<rparr>"
  have "serve net cell inp True (Some buf) sip g_ip [(ad, b)] s = Some s'"
    using u(1) n(1) bind q(1) assms(5,9)
    by (simp add: serve_def tftp_request_def IAP_tftp_recv_callback_def process_write_sent s'_def)
  moreover from this have "serving a t s'" by (rule serve_serving [OF assms(1)])
  ultimately show ?thesis using q(2) P(2) by (auto simp: s'_def)
qed

theorem tftp_request_answered_witness:
  "\<exists>q P s'. serve eth_net (AND) eth True (Some 0) 0x0b0a0a0a g_ip [(0, plain 1000 TFTP_PORT [0, 2, 99, 0])] (start_services fresh_server) = Some s'
    \<and> wire s' = [(q, g_ip, 0x0b0a0a0a, UDP_TTL, 0, IP_PROTO_UDP)] \<and> datagram q g_ip 0x0b0a0a0a P 1000 [0, 4, 0, 0]
    \<and> listens (udps s') 2 0 P Wrq_recv_callback"
proof -
  have w: "wire (start_services fresh_server) = []" using fresh_start by (simp add: fresh_server_def)
  have u: "udps (start_services fresh_server) = (udps fresh_server)\<lparr>udp_pcbs := [1, 0], free_pcbs := [2, 3],
      pcb := pcb (udps (start_services fresh_server))\<rparr>"
    by (simp add: start_services_def udpServerInit_def IAP_tftpd_init_def udp_new_def udp_bind_def bind_conflict_def udp_recv_def upd_pcb_def
        DATA_PORT_def TFTP_PORT_def fresh_server_def fresh_udp_def MEMP_NUM_UDP_PCB_def upt_rec)
  have p: "udp_port (udps (start_services fresh_server)) = UDP_LOCAL_PORT_RANGE_START" "udp_pcbs (udps (start_services fresh_server)) = [1, 0]"
    by (subst u, simp add: fresh_server_def fresh_udp_def)+
  show ?thesis
    using tftp_request_answered [of 0 1 "start_services fresh_server" 2 "[3]" eth_net eth "0x0b0a0a0a" 0 "plain 1000 TFTP_PORT [0, 2, 99, 0]" 1000
        "[0, 2, 99, 0]" "(AND)" 0]
      fresh_start plain_datagram p w
    by (auto simp: eth_net_def eth_def IAP_tftp_decode_op_def TFTP_WRQ_def ack_packet_def be16_def)
qed

text \<open>C19: Write requests whose transfers are not finished keep their control blocks for good: after two of them the pool of four is
  empty, and any further request at port 69 is dropped without an answer, its packet buffer never freed.\<close>

theorem tftp_pool_exhausted:
  assumes "udp_fresh (udps s)" "length (free_pcbs (udps s)) = MEMP_NUM_UDP_PCB" "chksum_fn net = thumb2_checksum" "ip_addr inp = g_ip"
    and "datagram [(ad1, b1)] sip1 g_ip sport1 TFTP_PORT req1" "IAP_tftp_decode_op req1 = Some TFTP_WRQ"
    and "datagram [(ad2, b2)] sip2 g_ip sport2 TFTP_PORT req2" "IAP_tftp_decode_op req2 = Some TFTP_WRQ"
    and "datagram [(ad3, b3)] sip3 g_ip sport3 TFTP_PORT req3"
  shows "\<exists>s2 u. serve_all net cell inp [(True, buf1, sip1, g_ip, [(ad1, b1)]), (True, buf2, sip2, g_ip, [(ad2, b2)])] (start_services s) = Some s2
    \<and> serve net cell inp args_ok buf3 sip3 g_ip [(ad3, b3)] s2
      = Some (s2\<lparr>udps := u, tftpd := (tftpd s2)\<lparr>unfreed := unfreed (tftpd s2) + 1\<rparr>\<rparr>)"
proof -
  obtain a t c d where free: "free_pcbs (udps s) = [a, t, c, d]"
    using assms(2) by (auto simp: MEMP_NUM_UDP_PCB_def numeral_eq_Suc length_Suc_conv)
  have s0: "serving a t (start_services s)" "free_pcbs (udps (start_services s)) = [c, d]"
    using start_services_serving [OF assms(1) free] by simp_all
  have step: "\<exists>s'. serve net cell inp True buf sip g_ip [(ad, b)] s = Some s' \<and> serving a t s' \<and> free_pcbs (udps s') = cs"
    if s: "serving a t s" "free_pcbs (udps s) = c # cs" and d: "datagram [(ad, b)] sip g_ip sport TFTP_PORT req" "IAP_tftp_decode_op req = Some TFTP_WRQ"
    for s buf sip ad b c cs sport req
  proof -
    have up: "up a t (udps s)" using s(1) by (simp add: serving_def)
    obtain u where u: "udp_input thumb2_checksum inp sip g_ip [(ad, b)] (udps s) = (Recv Tftp_recv_callback t [(ad + UDP_HLEN, req)] sip sport, u)"
      "free_pcbs u = c # cs" using request_arrives(2) [OF up assms(4) d(1)] s(2) by auto
    then obtain s' where "tftp_request net True buf [(ad + UDP_HLEN, req)] sip sport (s\<lparr>udps := u\<rparr>) = Some s'" "free_pcbs (udps s') = cs"
      using tftp_request_pool [of "s\<lparr>udps := u\<rparr>" c cs "[(ad + UDP_HLEN, req)]" net buf sip sport] d(2) by auto
    then have "serve net cell inp True buf sip g_ip [(ad, b)] s = Some s'" "free_pcbs (udps s') = cs"
      using u(1) assms(3) by (simp_all add: serve_def)
    then show ?thesis using serve_serving [OF s(1)] by blast
  qed
  obtain s1 where s1: "serve net cell inp True buf1 sip1 g_ip [(ad1, b1)] (start_services s) = Some s1" "serving a t s1" "free_pcbs (udps s1) = [d]"
    using step [OF s0 assms(5,6)] by blast
  obtain s2 where s2: "serve net cell inp True buf2 sip2 g_ip [(ad2, b2)] s1 = Some s2" "serving a t s2" "free_pcbs (udps s2) = []"
    using step [OF s1(2,3) assms(7,8)] by blast
  have "up a t (udps s2)" using s2(2) by (simp add: serving_def)
  then obtain u where u: "udp_input thumb2_checksum inp sip3 g_ip [(ad3, b3)] (udps s2)
      = (Recv Tftp_recv_callback t [(ad3 + UDP_HLEN, req3)] sip3 sport3, u)" "free_pcbs u = []"
    using request_arrives(2) [OF _ assms(4,9)] s2(3) by metis
  have "serve net cell inp args_ok buf3 sip3 g_ip [(ad3, b3)] s2
      = Some (s2\<lparr>udps := u, tftpd := (tftpd s2)\<lparr>unfreed := unfreed (tftpd s2) + 1\<rparr>\<rparr>)"
    using u assms(3) by (simp add: serve_def tftp_request_def udp_new_def IAP_tftp_recv_callback_def)
  then show ?thesis using s1(1) s2(1) by auto
qed

theorem tftp_pool_exhausted_witness:
  "\<exists>s2 u. serve_all eth_net (AND) eth [(True, Some 0, 0x0b0a0a0a, g_ip, [(0, plain 1000 TFTP_PORT [0, 2, 99, 0])]),
        (True, None, 0x0c0a0a0a, g_ip, [(9, plain 2000 TFTP_PORT [0, 2, 98, 0])])] (start_services fresh_server) = Some s2
    \<and> serve eth_net (AND) eth True (Some 0) 0x0b0a0a0a g_ip [(0, plain 1001 TFTP_PORT [0, 2, 99, 0])] s2
      = Some (s2\<lparr>udps := u, tftpd := (tftpd s2)\<lparr>unfreed := unfreed (tftpd s2) + 1\<rparr>\<rparr>)"
  using tftp_pool_exhausted [OF fresh_server_pool(2) _ _ _ plain_datagram _ plain_datagram _ plain_datagram, where net = eth_net and inp = eth
      and ?req1.0 = "[0, 2, 99, 0]" and ?req2.0 = "[0, 2, 98, 0]" and ?req3.0 = "[0, 2, 99, 0]"]
  by (simp add: fresh_server_pool(1) eth_net_def eth_def IAP_tftp_decode_op_def TFTP_WRQ_def MEMP_NUM_UDP_PCB_def)

end
