(* ===== verification/Spec2Isabelle.thy ===== *)
theory Spec2Isabelle
  imports Prelude Crc32 CFloat Comms Buffers HostLink Gpio Pwm Stepgen DigitalIO Threads Flash ConfigStore Tftp MainLoop Wiz5500 WizLwip Timeouts Chksum FrameBuffers IcmpRun NetifRun Services
begin

text \<open>
  Remora for STM32F4xx with a W5500: firmware that turns a board into a real-time extension of LinuxCNC. The host sends
  commands (joint frequencies, set points, output bits) in UDP packets and gets feedback (step counts, inputs) in the
  replies; two timer interrupts run the step generators and the slower modules; the configuration arrives by TFTP and is
  kept in flash. Paths below are relative to the sources of the repository.

  \<^bold>\<open>How the parts interact.\<close> A frame comes from the Ethernet chip (\<open>Wiz5500\<close>) through \<open>EthernetTasks\<close> (\<open>WizLwip\<close>) in a packet
  buffer (\<open>Pbuf\<close>) to the network stack: \<open>ethernet_input\<close> (\<open>Ip4\<close>) gives it to ARP (\<open>Etharp\<close>), which learns and answers addresses and
  keeps packets that wait for one, or to IPv4, which checks it and gives it to ICMP (\<open>Icmp\<close>) or UDP. UDP (\<open>Udp\<close>, over \<open>Chksum\<close>)
  finds the control block and calls the data port or the TFTP server (\<open>Services\<close>). Answers go the same way back, through
  \<open>ip4_output_if\<close> and \<open>etharp_output\<close>. The data port (\<open>HostLink\<close>) copies a command into the hidden half of a ping-pong buffer (\<open>Buffers\<close>), swaps
  and answers. The base-thread interrupt (\<open>Threads\<close>) runs the step generators (\<open>Stepgen\<close>), the servo thread PWM, digital pins,
  blink and the communication monitor (\<open>Pwm\<close>, \<open>DigitalIO\<close>, \<open>Comms\<close>), all over the pins of \<open>Gpio\<close>. The TFTP server (\<open>Tftp\<close>)
  programs the upload area of the flash (\<open>Flash\<close>); the main loop (\<open>MainLoop\<close>) checks the file (\<open>ConfigStore\<close>, with the CRC of
  \<open>Crc32\<close>), installs it and restarts.

  \<^bold>\<open>Theories and sources.\<close>
  \<^item> \<open>Prelude\<close>: machine integers, byte encodings, bounded copies, the collection \<open>frame_simps\<close>.
  \<^item> \<open>Crc32\<close>: \<open>Inc/crc32.h\<close> and \<open>ethernet_frame_crc\<close> of \<open>Src/w5x00_lwip.c\<close>.
  \<^item> \<open>CFloat\<close>: the floating-point arithmetic of the step generator and PWM, on values with explicit rounding, infinities and NaN.
  \<^item> \<open>Comms\<close>: \<open>Src/modules/comms\<close>. \<open>Buffers\<close>: \<open>Inc/remora.h\<close> and the buffer accessors of \<open>Src/remora.cpp\<close>.
  \<^item> \<open>HostLink\<close>: \<open>udp_data_callback\<close> of \<open>Src/remora.cpp\<close>, as a function and as the memory accesses an interrupt can fall between.
  \<^item> \<open>Gpio\<close>: \<open>Src/drivers/pin\<close>. \<open>Pwm\<close>: \<open>Src/drivers/HardwarePwm\<close>, \<open>Src/modules/pwm\<close>. \<open>Stepgen\<close>: \<open>Src/modules/stepgen\<close>.
    \<open>DigitalIO\<close>: \<open>Src/modules/digitalPin\<close>, \<open>blink\<close>, \<open>debug\<close>.
  \<^item> \<open>Threads\<close>: \<open>Src/modules/module.cpp\<close>, \<open>Src/thread\<close>, \<open>Src/interrupt\<close>.
  \<^item> \<open>Flash\<close>: \<open>Src/flash_if.cpp\<close> and the flash functions of the HAL. \<open>ConfigStore\<close>: the configuration functions of
    \<open>Src/remora.cpp\<close>. \<open>Tftp\<close>: \<open>Src/tftpserver.cpp\<close>. \<open>MainLoop\<close>: \<open>main\<close>, \<open>runThreads\<close>, \<open>loadModules\<close> of \<open>Src/remora.cpp\<close>.
  \<^item> \<open>Wiz5500\<close>: \<open>libraries/ioLibrary_Driver/Ethernet/W5500\<close>, \<open>Src/w5x00_spi.cpp\<close>. \<open>WizLwip\<close>: \<open>Src/w5x00_lwip.c\<close>, \<open>EthernetTasks\<close>.
  \<^item> \<open>Timeouts\<close>, \<open>Chksum\<close>, \<open>Udp\<close>: \<open>timeouts.c\<close>, \<open>inet_chksum.c\<close> (with \<open>Src/arch/checksum.c\<close>), \<open>udp.c\<close> of \<open>lwip/src/core\<close>.
  \<^item> \<open>Pbuf\<close>: \<open>lwip/src/core/pbuf.c\<close>. \<open>PbufChains\<close>: packets as byte sequences. \<open>FrameBuffers\<close>: the way \<open>EthernetTasks\<close> uses them.
  \<^item> \<open>Etharp\<close>: \<open>lwip/src/core/ipv4/etharp.c\<close> and \<open>ethernet_output\<close>. \<open>EtharpRun\<close>, \<open>EtharpSteps\<close>: the invariant of table and heap and what each
    function does under it. \<open>ArpProtocol\<close>: the transition system. \<open>AddressResolution\<close>: its properties.
  \<^item> \<open>Ip4\<close>: \<open>lwip/src/core/ipv4/ip4.c\<close> and \<open>ethernet_input\<close> of \<open>lwip/src/netif/ethernet.c\<close>. \<open>Ip4Run\<close>: the header and its checksum, the packet received.
    \<open>Ip4Link\<close>: packets across a link. \<open>Icmp\<close>: \<open>lwip/src/core/ipv4/icmp.c\<close>. \<open>IcmpRun\<close>: the answer to a ping.
  \<^item> \<open>Netif\<close>: \<open>lwip/src/core/netif.c\<close>, \<open>netif_initialize\<close> of \<open>Src/w5x00_lwip.c\<close> and the network part of \<open>EthernetInit\<close>. \<open>NetifRun\<close>: the
    interfaces over all sequences of operations, and the state after the start, from which the properties of the layers above hold.
  \<^item> \<open>Services\<close>: the UDP side of \<open>Src/remora.cpp\<close> and \<open>Src/tftpserver.cpp\<close>.

  \<^bold>\<open>How state corresponds to the code.\<close> Structures are records with the fields of the code, buffers are lists of bytes, pointers
  into a fixed set of objects are indices or addresses of an explicit heap, global variables are fields of the state of their
  component. A function of the code is a function from the state to the new state and its result; \<open>None\<close> stands for undefined
  behaviour (an access out of bounds, a null pointer) or, for loops that poll hardware, for never returning. Integers have
  their width where they can wrap. Hardware is registers and memory with what the manual says of them: the flash is cells with
  a programming function, the Ethernet chip a bus function whose hypotheses are the predicates \<open>w5500_*\<close>, each satisfied by
  the concrete memory \<open>mem_chip\<close>.

  \<^bold>\<open>Contracts.\<close> \<open>double_buffer\<close> (what a swap of ping-pong buffers promises a reader and a writer) holds of both directions of
  the link; \<open>guarded_pass\<close>, \<open>module_pass\<close>, \<open>establishing_pass\<close> (what running all modules of a thread keeps, given what each keeps) of the
  base and servo threads; \<open>deadline_queue\<close> (a list ordered by due times) of the timers of the stack; \<open>internet_checksum\<close> (the
  result is the complement sum of the bytes as 16-bit words) of all four checksum routines; \<open>byte_sequence\<close> (a packet whose bytes
  can be read and overwritten at offsets) of packet buffers.

  \<^bold>\<open>What the lemmas show.\<close> The link: no interleaving with the interrupt lets it see half a command, and the reply of a run of the
  callback is the feedback buffer as that run found it when it decided. Motion: steps follow the commanded frequency within the rounding of the accumulator; a tick always ends with
  every step line low; after a loss of communication the command is cleared, byte by byte and safely for the interrupt, and
  through all rounds, ticks and packets that are not write requests no joint moves; PWM outputs on timers of their own keep their compare value
  within the period. Configuration: an uploaded file is stored, read back
  exactly and survives the restart; what the checks accept and reject. Network: a frame is handed over byte for byte; any frame
  is handled without undefined behaviour in the way its bytes decide, and an IPv4 packet is taken exactly when its header is right and it is for the board; an
  address is asked for, learned, answered and forgotten, and no packet buffer is lost or freed twice on the way; a datagram sent to a
  known address arrives at the service on the other side with its payload, through every layer; a ping is answered; after the start the interface is up
  and announced; no two control
  blocks compete for a datagram to one address, as long as an address change meets no block on the new address and the same port; timers fire in order and none is lost; the four checksum routines agree; after any datagrams
  but the harmful ones (the predicate \<open>harmful\<close> lists them: those the handlers overrun a buffer with or read too little of) the data port answers. Several theorems state what the code does
  where it does not do what it means to (findings of the manifest).

  \<^bold>\<open>Bounds and fuel.\<close> No fuel is used: loops over data are structural, the search for a free port and the loop over timers have
  termination or totality proofs, and loops that wait for hardware are partial functions whose return is proved under the
  hypotheses on the hardware. Numeric bounds in statements are those of the code (64-byte packets, 512-byte blocks, 1500-byte frames,
  control block pool of 4, 16384 local ports, ARP table of 10 entries that live 300 runs of the ARP timer, 5 while they are asked for; a run is not a second, as the firmware
  runs the timers of the stack only while frames are received) or of the arithmetic (due times within 2 ^ 31 ms).

  \<^bold>\<open>Not modelled.\<close> The JSON parser (a vendored library; its document is a parameter). Of lwIP: fragmentation and reassembly (\<open>ip4_frag.c\<close>,
  a result of the functions that call it: the messages of the firmware fit in a frame), the loopback interface
  and the names of interfaces, the allocators (\<open>mem.c\<close>, \<open>memp.c\<close>: a parameter that gives a free block), TCP, DHCP, DNS, IPv6 and the application layers,
  which the firmware does not use. The interface between \<open>EthernetTasks\<close> and \<open>ethernet_input\<close> is a parameter of the former.
  Outside of lwIP: the set-up of clocks, SPI, DMA
  and timers by HAL calls with constants, the NVMPG pendant (never created), printing, and the CubeMX project, CMSIS and DSP
  libraries, which are not part of the firmware. Interrupts are interleaved only where two contexts share memory: the callback of the
  data port, the reset of the command, and the threads.
\<close>

end
